(* ===== verification/Js_Base.thy ===== *)
theory Js_Base
  imports Complex_Main "HOL-Library.Word"
begin

text \<open>
  The prelude of the development: the JavaScript notions every component shares.
  Strings are sequences of UTF-16 code units, thrown exceptions are values of a sum type,
  \<open>Map\<close> and \<open>Set\<close> keep insertion order, \<open>Array.prototype.sort\<close> is a stable sort by a
  comparator, and template literals print naturals in decimal.  The collections
  \<open>js_simps\<close> (rewriting) and \<open>js_intros\<close> (introduction) are what the component proofs use.
\<close>

named_theorems js_simps "rewrite rules for the JavaScript layer"
named_theorems js_intros "introduction rules for the JavaScript layer"

section \<open>Strings\<close>

type_synonym jstring = "16 word list"

text \<open>\<open>lit\<close> writes an ASCII literal of the source as a JavaScript string.\<close>

definition lit :: "string \<Rightarrow> jstring" where
  "lit s = map (\<lambda>c. word_of_nat (of_char c)) s"

lemma lit_char_inj: "(word_of_nat (of_char c) :: 16 word) = word_of_nat (of_char d) \<longleftrightarrow> c = d"
proof
  assume eq: "(word_of_nat (of_char c) :: 16 word) = word_of_nat (of_char d)"
  have small: "(of_char e :: nat) < 2 ^ LENGTH(16)" for e
    using nat_of_char_less_256 [of e] by (simp del: nat_of_char_less_256)
  from arg_cong [OF eq, of unat] have "(of_char c :: nat) = of_char d"
    using small [of c] small [of d] by (simp add: unat_of_nat)
  then show "c = d" by simp
qed simp

lemma lit_inject [simp]: "lit s = lit t \<longleftrightarrow> s = t"
proof -
  have "inj (\<lambda>c. word_of_nat (of_char c) :: 16 word)"
    by (rule injI) (simp add: lit_char_inj)
  then show ?thesis by (simp add: lit_def inj_map_eq_map)
qed

text \<open>The code units \<open>String.prototype.trim\<close> removes: WhiteSpace and LineTerminator.\<close>

definition whitespace :: "16 word \<Rightarrow> bool" where
  "whitespace c \<longleftrightarrow> c \<in> set [9, 10, 11, 12, 13, 32, 0xA0, 0x1680, 0x2000, 0x2001, 0x2002, 0x2003,
     0x2004, 0x2005, 0x2006, 0x2007, 0x2008, 0x2009, 0x200A, 0x2028, 0x2029, 0x202F, 0x205F,
     0x3000, 0xFEFF]"

definition js_trim :: "jstring \<Rightarrow> jstring" where
  "js_trim s = rev (dropWhile whitespace (rev (dropWhile whitespace s)))"

lemma js_trim_empty [js_simps]: "js_trim s = [] \<longleftrightarrow> (\<forall>c \<in> set s. whitespace c)"
proof (cases "dropWhile whitespace s")
  case Nil
  then have "\<forall>c \<in> set s. whitespace c" by (simp add: dropWhile_eq_Nil_conv)
  with Nil show ?thesis unfolding js_trim_def by (simp only: simp_thms) simp
next
  case (Cons c cs)
  then have "\<not> whitespace c" by (simp add: dropWhile_eq_Cons_conv)
  moreover from Cons have "c \<in> set s" by (metis list.set_intros(1) set_dropWhileD)
  ultimately show ?thesis using Cons by (auto simp: js_trim_def dropWhile_eq_Nil_conv)
qed

section \<open>Decimal numerals of template literals\<close>

fun dec :: "nat \<Rightarrow> jstring" where
  "dec n = (if n < 10 then [48 + word_of_nat n] else dec (n div 10) @ [48 + word_of_nat (n mod 10)])"

declare dec.simps [simp del]

definition digit :: "nat \<Rightarrow> 16 word" where
  "digit d = 48 + word_of_nat d"

lemma unat_digit: "d < 10 \<Longrightarrow> unat (digit d) = 48 + d"
  by (simp add: digit_def unat_word_ariths unat_of_nat)

lemma digit_inject: "d < 10 \<Longrightarrow> e < 10 \<Longrightarrow> digit d = digit e \<longleftrightarrow> d = e"
  by (metis unat_digit add_left_cancel)

lemma dec_unfold: "dec n = (if n < 10 then [digit n] else dec (n div 10) @ [digit (n mod 10)])"
  by (subst dec.simps) (simp add: digit_def)

lemma dec_nonempty [simp]: "dec n \<noteq> []"
  by (subst dec_unfold) simp

lemma Nil_neq_dec [simp]: "[] \<noteq> dec n"
  by (metis dec_nonempty)

lemma dec_digits: "c \<in> set (dec n) \<Longrightarrow> 48 \<le> unat c \<and> unat c < 58"
proof (induction n rule: dec.induct)
  case (1 n)
  then show ?case
    by (subst (asm) dec_unfold) (auto simp: unat_digit split: if_splits)
qed

lemma dec_inject [simp]: "dec m = dec n \<longleftrightarrow> m = n"
proof
  show "dec m = dec n \<Longrightarrow> m = n"
  proof (induction m arbitrary: n rule: dec.induct)
    case (1 m)
    have eq: "(if m < 10 then [digit m] else dec (m div 10) @ [digit (m mod 10)])
        = (if n < 10 then [digit n] else dec (n div 10) @ [digit (n mod 10)])"
      using "1.prems" by (simp only: dec_unfold [of m, symmetric] dec_unfold [of n, symmetric])
    consider "m < 10" "n < 10" | "m < 10" "\<not> n < 10" | "\<not> m < 10" "n < 10" | "\<not> m < 10" "\<not> n < 10"
      by blast
    then show ?case
    proof cases
      case 4
      with eq have "dec (m div 10) = dec (n div 10)" "digit (m mod 10) = digit (n mod 10)" by auto
      with 4 have "m div 10 = n div 10" "m mod 10 = n mod 10"
        by (auto intro: "1.IH" simp: digit_inject)
      then show ?thesis by (metis div_mult_mod_eq)
    qed (use eq in \<open>auto simp: digit_inject\<close>)
  qed
qed simp

text \<open>
  Two numerals around a separator that is no digit can be read back: the separator splits
  the string at the same place.
\<close>

lemma split_at_separator:
  assumes eq: "xs @ c # ys = xs' @ c # ys'" and "c \<notin> set xs" "c \<notin> set xs'"
  shows "xs = xs' \<and> ys = ys'"
  using assms
proof (induction xs arbitrary: xs')
  case Nil
  then show ?case by (cases xs') auto
next
  case (Cons x xs)
  then show ?case by (cases xs') auto
qed

lemma dec_pair_inject:
  assumes "unat c < 48 \<or> 58 \<le> unat c"
  shows "dec a @ c # dec b = dec a' @ c # dec b' \<longleftrightarrow> a = a' \<and> b = b'"
proof
  assume "dec a @ c # dec b = dec a' @ c # dec b'"
  then have "dec a = dec a' \<and> dec b = dec b'"
    by (rule split_at_separator) (use assms dec_digits in fastforce)+
  then show "a = a' \<and> b = b'" by simp
qed simp

end
