(* ===== verification/Js_Collections.thy ===== *)
theory Js_Collections
  imports Js_Base "HOL-Library.Multiset"
begin

text \<open>
  Thrown exceptions, insertion-ordered \<open>Map\<close> and \<open>Set\<close>, and \<open>Array.prototype.sort\<close>.
  Two interfaces are locales: \<open>map_interface\<close> (what a client of a \<open>Map\<close> relies on) and
  \<open>consistent_comparator\<close> (what makes a comparator function fit for \<open>sort\<close>).
\<close>

section \<open>Exceptions as values\<close>

text \<open>
  What a call of the modelled code can do besides returning: throw a \<open>TypeError\<close>,
  a \<open>RangeError\<close> or a plain \<open>Error\<close>, or not return at all.
\<close>

datatype js_error =
    TypeError jstring
  | RangeError jstring
  | PlainError jstring
  | Diverged

abbreviation fail :: "string \<Rightarrow> js_error + 'a" where
  "fail message \<equiv> Inl (TypeError (lit message))"

definition ebind :: "'e + 'a \<Rightarrow> ('a \<Rightarrow> 'e + 'b) \<Rightarrow> 'e + 'b" where
  "ebind m f = (case m of Inl e \<Rightarrow> Inl e | Inr x \<Rightarrow> f x)"

lemma ebind_simps [simp]: "ebind (Inl e) f = Inl e" "ebind (Inr x) f = f x"
  by (simp_all add: ebind_def)

lemma ebind_Inr_iff [js_simps]: "ebind m f = Inr y \<longleftrightarrow> (\<exists>x. m = Inr x \<and> f x = Inr y)"
  by (cases m) auto

lemma if_fail_Inr_iff [js_simps]:
  "(if c then Inl e else m) = Inr y \<longleftrightarrow> \<not> c \<and> m = Inr y"
  by simp

text \<open>A loop whose body may throw: the first exception ends it.\<close>

fun for_each :: "('s \<Rightarrow> 'a \<Rightarrow> 'e + 's) \<Rightarrow> 's \<Rightarrow> 'a list \<Rightarrow> 'e + 's" where
  "for_each body s [] = Inr s"
| "for_each body s (x # xs) = ebind (body s x) (\<lambda>s'. for_each body s' xs)"

text \<open>A counted loop keeps an invariant indexed by its counter.\<close>

lemma foldl_upt_invariant:
  assumes "a \<le> b" "P a s" "\<And>k s. a \<le> k \<Longrightarrow> k < b \<Longrightarrow> P k s \<Longrightarrow> P (Suc k) (f s k)"
  shows "P b (foldl f s [a..<b])"
  using assms
proof (induction b)
  case (Suc b)
  then show ?case by (cases "a = Suc b") simp_all
qed simp

lemma for_each_append:
  "for_each body s (xs @ ys) = ebind (for_each body s xs) (\<lambda>s'. for_each body s' ys)"
proof (induction xs arbitrary: s)
  case (Cons x xs)
  then show ?case by (cases "body s x") auto
qed simp

lemma for_each_check:
  assumes "\<And>s x. body s x = Inr s \<longleftrightarrow> P x" and "\<And>s x s'. body s x = Inr s' \<Longrightarrow> s' = s"
  shows "for_each body s xs = Inr s' \<longleftrightarrow> s' = s \<and> (\<forall>x \<in> set xs. P x)"
proof (induction xs arbitrary: s)
  case (Cons x xs)
  show ?case
  proof (cases "body s x")
    case (Inl e)
    with assms(1) [of s x] show ?thesis by auto
  next
    case (Inr t)
    with assms(2) have "t = s" by blast
    with Inr Cons.IH [of s] assms(1) [of s x] show ?thesis by auto
  qed
qed auto

section \<open>Insertion-ordered Map\<close>

type_synonym ('k, 'v) js_map = "('k \<times> 'v) list"

fun js_map_set :: "'k \<Rightarrow> 'v \<Rightarrow> ('k, 'v) js_map \<Rightarrow> ('k, 'v) js_map" where
  "js_map_set k v [] = [(k, v)]"
| "js_map_set k v ((k', v') # m) = (if k' = k then (k, v) # m else (k', v') # js_map_set k v m)"

definition js_map_get :: "('k, 'v) js_map \<Rightarrow> 'k \<Rightarrow> 'v option" where
  "js_map_get m k = map_of m k"

definition js_map_has :: "('k, 'v) js_map \<Rightarrow> 'k \<Rightarrow> bool" where
  "js_map_has m k \<longleftrightarrow> js_map_get m k \<noteq> None"

definition js_map_delete :: "'k \<Rightarrow> ('k, 'v) js_map \<Rightarrow> ('k, 'v) js_map" where
  "js_map_delete k m = filter (\<lambda>p. fst p \<noteq> k) m"

definition js_map_values :: "('k, 'v) js_map \<Rightarrow> 'v list" where
  "js_map_values m = map snd m"

definition js_map_keys :: "('k, 'v) js_map \<Rightarrow> 'k list" where
  "js_map_keys m = map fst m"

text \<open>\<open>new Map(entries)\<close>.\<close>

definition js_map_of :: "('k \<times> 'v) list \<Rightarrow> ('k, 'v) js_map" where
  "js_map_of entries = foldl (\<lambda>m e. js_map_set (fst e) (snd e) m) [] entries"

lemma js_map_get_set [simp]:
  "js_map_get (js_map_set k v m) k' = (if k' = k then Some v else js_map_get m k')"
  unfolding js_map_get_def by (induction k v m rule: js_map_set.induct) auto

lemma js_map_get_Nil [simp]: "js_map_get [] k = None"
  by (simp add: js_map_get_def)

lemma js_map_get_delete [simp]:
  "js_map_get (js_map_delete k m) k' = (if k' = k then None else js_map_get m k')"
  unfolding js_map_get_def js_map_delete_def by (induction m) auto

lemma keys_js_map_set:
  "map fst (js_map_set k v m) = (if k \<in> set (map fst m) then map fst m else map fst m @ [k])"
  by (induction k v m rule: js_map_set.induct) auto

lemma distinct_js_map_set: "distinct (map fst m) \<Longrightarrow> distinct (map fst (js_map_set k v m))"
  by (subst keys_js_map_set) (cases "k \<in> set (map fst m)"; simp)

lemma distinct_js_map_delete: "distinct (map fst m) \<Longrightarrow> distinct (map fst (js_map_delete k m))"
  unfolding js_map_delete_def by (induction m) auto

lemma js_map_set_fresh: "k \<notin> set (map fst m) \<Longrightarrow> js_map_set k v m = m @ [(k, v)]"
  by (induction k v m rule: js_map_set.induct) auto

lemma js_map_has_iff: "js_map_has m k \<longleftrightarrow> k \<in> set (map fst m)"
  by (auto simp: js_map_has_def js_map_get_def map_of_eq_None_iff)

lemma js_map_of_distinct: "distinct (map fst entries) \<Longrightarrow> js_map_of entries = entries"
proof -
  have "distinct (map fst (m @ entries)) \<Longrightarrow>
      foldl (\<lambda>m e. js_map_set (fst e) (snd e) m) m entries = m @ entries" for m
    by (induction entries arbitrary: m) (auto simp: js_map_set_fresh)
  from this [of "[]"] show "distinct (map fst entries) \<Longrightarrow> ?thesis"
    by (simp add: js_map_of_def)
qed

text \<open>The interface a client of a map relies on, and what follows from it alone.\<close>

locale map_interface =
  fixes empty :: 'm
    and update :: "'k \<Rightarrow> 'v \<Rightarrow> 'm \<Rightarrow> 'm"
    and delete :: "'k \<Rightarrow> 'm \<Rightarrow> 'm"
    and lookup :: "'m \<Rightarrow> 'k \<Rightarrow> 'v option"
  assumes lookup_empty: "lookup empty k = None"
    and lookup_update: "lookup (update k v m) k' = (if k' = k then Some v else lookup m k')"
    and lookup_delete: "lookup (delete k m) k' = (if k' = k then None else lookup m k')"
begin

lemma lookup_foldl_update:
  "lookup (foldl (\<lambda>m e. update (fst e) (snd e) m) m es) k
     = (case map_of (rev es) k of None \<Rightarrow> lookup m k | Some v \<Rightarrow> Some v)"
  by (induction es arbitrary: m) (auto simp: lookup_update map_add_def split: option.splits)

lemma lookup_from_entries:
  "distinct (map fst es) \<Longrightarrow>
     lookup (foldl (\<lambda>m e. update (fst e) (snd e) m) empty es) k = map_of es k"
proof -
  assume "distinct (map fst es)"
  then have "map_of (rev es) = map_of es"
    by (intro map_of_inject_set [THEN iffD2]) (auto simp: rev_map [symmetric])
  then show ?thesis by (simp add: lookup_foldl_update lookup_empty split: option.splits)
qed

lemma lookup_delete_update: "lookup (delete k (update k v m)) = lookup (delete k m)"
  by (rule ext) (simp add: lookup_update lookup_delete)

end

interpretation jm: map_interface "[]" js_map_set js_map_delete js_map_get
  by unfold_locales auto

lemma js_map_get_js_map_of: "distinct (map fst es) \<Longrightarrow> js_map_get (js_map_of es) k = map_of es k"
  unfolding js_map_of_def by (rule jm.lookup_from_entries)

section \<open>Insertion-ordered Set\<close>

type_synonym 'a js_set = "'a list"

definition js_set_add :: "'a \<Rightarrow> 'a js_set \<Rightarrow> 'a js_set" where
  "js_set_add x s = (if x \<in> set s then s else s @ [x])"

definition js_set_delete :: "'a \<Rightarrow> 'a js_set \<Rightarrow> 'a js_set" where
  "js_set_delete x s = filter (\<lambda>y. y \<noteq> x) s"

definition js_set_of :: "'a list \<Rightarrow> 'a js_set" where
  "js_set_of xs = foldl (\<lambda>s x. js_set_add x s) [] xs"

lemma set_js_set_add [simp]: "set (js_set_add x s) = insert x (set s)"
  by (auto simp: js_set_add_def)

lemma distinct_js_set_add [simp]: "distinct (js_set_add x s) = distinct s"
  by (auto simp: js_set_add_def)

lemma set_js_set_delete [simp]: "set (js_set_delete x s) = set s - {x}"
  by (auto simp: js_set_delete_def)

lemma distinct_js_set_delete [simp]: "distinct s \<Longrightarrow> distinct (js_set_delete x s)"
  by (simp add: js_set_delete_def)

lemma length_js_set_add: "length (js_set_add x s) = (if x \<in> set s then length s else Suc (length s))"
  by (simp add: js_set_add_def)

lemma js_set_of_distinct: "distinct xs \<Longrightarrow> js_set_of xs = xs"
proof -
  have "distinct (s @ xs) \<Longrightarrow> foldl (\<lambda>s x. js_set_add x s) s xs = s @ xs" for s
    by (induction xs arbitrary: s) (auto simp: js_set_add_def)
  from this [of "[]"] show "distinct xs \<Longrightarrow> ?thesis" by (simp add: js_set_of_def)
qed

section \<open>Array.prototype.sort\<close>

text \<open>
  The standard requires \<open>sort\<close> to be stable; for a consistent comparator the result is then
  determined, and insertion after all elements that do not compare greater computes it.
\<close>

fun sort_insert :: "('a \<Rightarrow> 'a \<Rightarrow> 'n::linordered_idom) \<Rightarrow> 'a \<Rightarrow> 'a list \<Rightarrow> 'a list" where
  "sort_insert cmp x [] = [x]"
| "sort_insert cmp x (y # ys) = (if cmp x y < 0 then x # y # ys else y # sort_insert cmp x ys)"

definition js_sort :: "('a \<Rightarrow> 'a \<Rightarrow> 'n::linordered_idom) \<Rightarrow> 'a list \<Rightarrow> 'a list" where
  "js_sort cmp xs = foldl (\<lambda>ys x. sort_insert cmp x ys) [] xs"

lemma mset_sort_insert: "mset (sort_insert cmp x ys) = add_mset x (mset ys)"
  by (induction cmp x ys rule: sort_insert.induct) auto

lemma mset_js_sort [simp]: "mset (js_sort cmp xs) = mset xs"
proof -
  have "mset (foldl (\<lambda>ys x. sort_insert cmp x ys) ys xs) = mset ys + mset xs" for ys
    by (induction xs arbitrary: ys) (auto simp: mset_sort_insert)
  then show ?thesis by (simp add: js_sort_def)
qed

lemma set_js_sort [simp]: "set (js_sort cmp xs) = set xs"
  by (metis mset_js_sort set_mset_mset)

lemma length_js_sort [simp]: "length (js_sort cmp xs) = length xs"
  by (metis mset_js_sort size_mset)

lemma set_sort_insert [simp]: "set (sort_insert cmp x ys) = insert x (set ys)"
  by (metis mset_sort_insert set_mset_add_mset_insert set_mset_mset)

text \<open>What makes a comparator fit for \<open>sort\<close>: its sign is a total preorder.\<close>

locale consistent_comparator =
  fixes cmp :: "'a \<Rightarrow> 'a \<Rightarrow> 'n::linordered_idom"
  assumes cmp_swap: "cmp x y < 0 \<longleftrightarrow> 0 < cmp y x"
    and cmp_trans: "cmp x y \<le> 0 \<Longrightarrow> cmp y z \<le> 0 \<Longrightarrow> cmp x z \<le> 0"
begin

lemma cmp_refl: "cmp x x = 0"
  using cmp_swap [of x x] by (metis less_asym not_less_iff_gr_or_eq)

lemma cmp_total: "cmp x y \<le> 0 \<or> cmp y x \<le> 0"
  using cmp_swap [of x y] by (metis not_le order_less_imp_le)

lemma sorted_sort_insert:
  "sorted_wrt (\<lambda>x y. cmp x y \<le> 0) ys \<Longrightarrow> sorted_wrt (\<lambda>x y. cmp x y \<le> 0) (sort_insert cmp x ys)"
proof (induction ys)
  case (Cons y ys)
  show ?case
  proof (cases "cmp x y < 0")
    case True
    have "cmp x z \<le> 0" if "z \<in> set ys" for z
      using True Cons.prems that cmp_trans [of x y z] by auto
    with True Cons.prems show ?thesis by auto
  next
    case False
    then have "cmp y x \<le> 0" using cmp_swap [of x y] by simp
    with False Cons show ?thesis by auto
  qed
qed simp

lemma sorted_js_sort: "sorted_wrt (\<lambda>x y. cmp x y \<le> 0) (js_sort cmp xs)"
proof -
  have "sorted_wrt (\<lambda>x y. cmp x y \<le> 0) ys \<Longrightarrow>
      sorted_wrt (\<lambda>x y. cmp x y \<le> 0) (foldl (\<lambda>ys x. sort_insert cmp x ys) ys xs)" for ys
    by (induction xs arbitrary: ys) (auto intro: sorted_sort_insert)
  then show ?thesis by (simp add: js_sort_def)
qed

lemma js_sort_head_least:
  assumes "js_sort cmp xs = z # zs" and "x \<in> set xs"
  shows "cmp z x \<le> 0"
proof -
  from assms have "x \<in> set (z # zs)" by (metis set_js_sort)
  moreover have "sorted_wrt (\<lambda>x y. cmp x y \<le> 0) (z # zs)"
    using sorted_js_sort [of xs] assms(1) by simp
  ultimately show ?thesis by (auto simp: cmp_refl)
qed

lemma js_sort_second_least:
  assumes "js_sort cmp xs = z # w # zs" and "distinct xs" and "x \<in> set xs" and "x \<noteq> z"
  shows "cmp w x \<le> 0"
proof -
  from assms have "x \<in> set (z # w # zs)" by (metis set_js_sort)
  with \<open>x \<noteq> z\<close> have "x \<in> set (w # zs)" by simp
  moreover have "sorted_wrt (\<lambda>x y. cmp x y \<le> 0) (z # w # zs)"
    using sorted_js_sort [of xs] assms(1) by simp
  ultimately show ?thesis by (auto simp: cmp_refl)
qed

end

text \<open>Comparators are built level by level: compare one key, fall through on a tie.\<close>

lemma consistent_tie_break:
  fixes f :: "'a \<Rightarrow> 'n::linordered_idom"
  assumes "consistent_comparator c"
  shows "consistent_comparator (\<lambda>x y. if f x \<noteq> f y then f x - f y else c x y)"
  using assms unfolding consistent_comparator_def by (auto split: if_splits)

end
