(* ===== verification/Js_Number.thy ===== *)
theory Js_Number
  imports Js_Base "HOL-Library.Log_Nat"
begin

text \<open>
  IEEE 754 double arithmetic as the code uses it.  A finite double is a rational; an
  arithmetic operation computes the exact result and rounds it with \<open>fl\<close>, round to nearest,
  ties to even, 53 bits of precision and gradual underflow.  Signed zero is not
  distinguished.  \<open>js_num\<close> adds the values that can only come from outside: NaN and the
  infinities.
\<close>

section \<open>Rounding\<close>

definition pow2 :: "int \<Rightarrow> rat" where
  "pow2 k = (if 0 \<le> k then 2 ^ nat k else 1 / 2 ^ nat (- k))"

text \<open>The binary exponent: \<open>pow2 (exponent x) \<le> \<bar>x\<bar> < pow2 (exponent x + 1)\<close>.\<close>

definition exponent :: "rat \<Rightarrow> int" where
  "exponent x = (let (a, b) = quotient_of \<bar>x\<bar>; k = bitlen a - bitlen b
                 in if pow2 k \<le> \<bar>x\<bar> then k else k - 1)"

definition round_half_even :: "rat \<Rightarrow> int" where
  "round_half_even y =
     (let f = \<lfloor>y\<rfloor>; d = y - of_int f
      in if d < 1 / 2 then f else if 1 / 2 < d then f + 1 else if even f then f else f + 1)"

text \<open>The distance of neighbouring doubles around a value.\<close>

definition quantum :: "rat \<Rightarrow> rat" where
  "quantum x = pow2 (max (exponent x - 52) (- 1074))"

definition fl :: "rat \<Rightarrow> rat" where
  "fl x = (if x = 0 then 0 else of_int (round_half_even (x / quantum x)) * quantum x)"

lemma pow2_pos [simp]: "0 < pow2 k"
  by (simp add: pow2_def)

lemma pow2_nonneg [simp]: "0 \<le> pow2 k"
  by (simp add: pow2_def)

lemma pow2_abs [simp]: "\<bar>pow2 k\<bar> = pow2 k"
  by simp

lemma pow2_powi: "pow2 k = 2 powi k"
  by (simp add: pow2_def power_int_def inverse_eq_divide power_divide)

lemma pow2_add: "pow2 (a + b) = pow2 a * pow2 b"
  by (simp add: pow2_powi power_int_add)

lemma pow2_mono: "a \<le> b \<Longrightarrow> pow2 a \<le> pow2 b"
  by (simp add: pow2_powi power_int_increasing)

lemma pow2_strict_mono: "a < b \<Longrightarrow> pow2 a < pow2 b"
  by (simp add: pow2_powi power_int_strict_increasing)

lemma pow2_less_cancel: "pow2 a < pow2 b \<Longrightarrow> a < b"
  using pow2_mono [of b a] by force

lemma pow2_Suc: "pow2 (k + 1) = 2 * pow2 k"
  by (simp add: pow2_add) (simp add: pow2_def)

lemma exponent_bounds:
  assumes "x \<noteq> 0"
  shows "pow2 (exponent x) \<le> \<bar>x\<bar>" "\<bar>x\<bar> < pow2 (exponent x + 1)"
proof -
  obtain a b where q: "quotient_of \<bar>x\<bar> = (a, b)" by force
  then have x: "\<bar>x\<bar> = of_int a / of_int b" and b: "0 < b"
    by (simp_all add: quotient_of_div quotient_of_denom_pos)
  from assms x b have a: "0 < a"
    by (metis zero_less_abs_iff zero_less_divide_iff of_int_0_less_iff less_asym)
  define k where "k = bitlen a - bitlen b"
  have bl: "pow2 (bitlen n - 1) \<le> of_int n \<and> of_int n < pow2 (bitlen n)" if "0 < n" for n
  proof -
    have pos: "0 < bitlen n" using that bitlen_bounds [OF that] by (cases "bitlen n = 0") (auto simp: order_less_le bitlen_nonneg)
    have "2 ^ nat (bitlen n - 1) \<le> n" "n < 2 ^ nat (bitlen n)"
      using bitlen_bounds [OF that] by auto
    then have "(of_int (2 ^ nat (bitlen n - 1)) :: rat) \<le> of_int n"
        "(of_int n :: rat) < of_int (2 ^ nat (bitlen n))"
      by (simp_all only: of_int_le_iff of_int_less_iff)
    then show ?thesis using pos by (simp add: pow2_def)
  qed
  have upper: "\<bar>x\<bar> < pow2 (k + 1)"
  proof -
    have "\<bar>x\<bar> < pow2 (bitlen a) / of_int b"
      using bl [OF a] b by (simp add: x divide_strict_right_mono)
    also have "\<dots> \<le> pow2 (bitlen a) / pow2 (bitlen b - 1)"
      using bl [OF b] b by (intro divide_left_mono) (auto intro: less_imp_le)
    also have "\<dots> = pow2 (k + 1)"
      by (simp add: k_def pow2_powi power_int_diff power_int_add divide_simps)
    finally show ?thesis .
  qed
  have lower: "pow2 (k - 1) \<le> \<bar>x\<bar>"
  proof -
    have "pow2 (k - 1) = pow2 (bitlen a - 1) / pow2 (bitlen b)"
      by (simp add: k_def pow2_powi power_int_diff divide_simps)
    also have "\<dots> \<le> of_int a / pow2 (bitlen b)"
      using bl [OF a] by (intro divide_right_mono) (auto intro: less_imp_le)
    also have "\<dots> \<le> of_int a / of_int b"
      using bl [OF b] a b by (intro divide_left_mono) auto
    finally show ?thesis by (simp add: x)
  qed
  show "pow2 (exponent x) \<le> \<bar>x\<bar>" "\<bar>x\<bar> < pow2 (exponent x + 1)"
    using upper lower by (auto simp: exponent_def q k_def [symmetric] Let_def)
qed

lemma exponent_unique:
  assumes "pow2 e \<le> \<bar>x\<bar>" "\<bar>x\<bar> < pow2 (e + 1)"
  shows "exponent x = e"
proof -
  from assms(1) have "x \<noteq> 0" using pow2_pos [of e] by force
  from exponent_bounds [OF this] assms have "pow2 e < pow2 (exponent x + 1)"
      "pow2 (exponent x) < pow2 (e + 1)" by linarith+
  then show ?thesis by (auto dest!: pow2_less_cancel)
qed

lemma exponent_mono: "x \<noteq> 0 \<Longrightarrow> \<bar>x\<bar> \<le> \<bar>y\<bar> \<Longrightarrow> exponent x \<le> exponent y"
proof -
  assume "x \<noteq> 0" and le: "\<bar>x\<bar> \<le> \<bar>y\<bar>"
  then have "y \<noteq> 0" by auto
  from exponent_bounds(1) [OF \<open>x \<noteq> 0\<close>] le exponent_bounds(2) [OF \<open>y \<noteq> 0\<close>]
  have "pow2 (exponent x) < pow2 (exponent y + 1)" by linarith
  then show ?thesis by (auto dest: pow2_less_cancel)
qed


section \<open>Rounding is monotone, odd and exact on doubles\<close>

lemma round_half_even_bounds:
  "of_int (round_half_even y) \<le> y + 1 / 2" "y - 1 / 2 \<le> of_int (round_half_even y)"
  unfolding round_half_even_def Let_def using of_int_floor_le [of y] floor_less_cancel [of y] floor_correct [of y]
  by (auto; linarith)+

lemma round_half_even_int [simp]: "round_half_even (of_int n) = n"
  by (simp add: round_half_even_def)

lemma round_half_even_mono: "x \<le> y \<Longrightarrow> round_half_even x \<le> round_half_even y"
proof -
  assume le: "x \<le> y"
  then have fl: "\<lfloor>x\<rfloor> \<le> \<lfloor>y\<rfloor>" by (rule floor_mono)
  show ?thesis
  proof (cases "\<lfloor>x\<rfloor> = \<lfloor>y\<rfloor>")
    case True
    with le show ?thesis by (auto simp: round_half_even_def Let_def)
  next
    case False
    have "round_half_even x \<le> \<lfloor>x\<rfloor> + 1" "\<lfloor>y\<rfloor> \<le> round_half_even y"
      by (auto simp: round_half_even_def Let_def)
    with False fl show ?thesis by linarith
  qed
qed

lemma round_half_even_minus: "round_half_even (- y) = - round_half_even y"
proof (cases "y = of_int \<lfloor>y\<rfloor>")
  case True
  then have "round_half_even (- y) = round_half_even (of_int (- \<lfloor>y\<rfloor>))" by simp
  also have "\<dots> = - round_half_even (of_int \<lfloor>y\<rfloor>)" by (simp only: round_half_even_int)
  finally show ?thesis using True by simp
next
  case False
  then have f: "\<lfloor>- y\<rfloor> = - \<lfloor>y\<rfloor> - 1"
    using floor_correct [of y] by (intro floor_unique) (auto simp: order_less_le)
  show ?thesis by (auto simp: round_half_even_def Let_def f)
qed

lemma exponent_minus [simp]: "exponent (- x) = exponent x"
  by (simp add: exponent_def)

lemma quantum_minus [simp]: "quantum (- x) = quantum x"
  by (simp add: quantum_def)

lemma fl_0 [simp]: "fl 0 = 0"
  by (simp add: fl_def)

lemma fl_minus: "fl (- x) = - fl x"
  by (simp add: fl_def round_half_even_minus)

lemma quantum_pos [simp]: "0 < quantum x"
  by (simp add: quantum_def)

lemma quantum_nonneg [simp]: "0 \<le> quantum x"
  by (simp add: quantum_def)

lemma fl_eq: "fl x = of_int (round_half_even (x / quantum x)) * quantum x"
  using round_half_even_int [of 0] by (simp add: fl_def)

lemma fl_upper: "x \<le> of_int m * quantum x \<Longrightarrow> fl x \<le> of_int m * quantum x"
proof -
  assume "x \<le> of_int m * quantum x"
  then have "x / quantum x \<le> of_int m" by (simp add: pos_divide_le_eq)
  then have "round_half_even (x / quantum x) \<le> m"
    by (metis round_half_even_mono round_half_even_int)
  then show ?thesis by (simp add: fl_eq mult_right_mono)
qed

lemma fl_lower: "of_int m * quantum x \<le> x \<Longrightarrow> of_int m * quantum x \<le> fl x"
proof -
  assume "of_int m * quantum x \<le> x"
  then have "of_int m \<le> x / quantum x" by (simp add: pos_le_divide_eq)
  then have "m \<le> round_half_even (x / quantum x)"
    by (metis round_half_even_mono round_half_even_int)
  then show ?thesis by (simp add: fl_eq mult_right_mono)
qed

text \<open>A power of two no finer than the quantum is a multiple of it.\<close>

lemma pow2_multiple:
  assumes "max (exponent x - 52) (- 1074) \<le> k"
  obtains m where "pow2 k = of_int m * quantum x"
proof
  let ?q = "max (exponent x - 52) (- 1074)"
  have "pow2 k = pow2 (k - ?q) * pow2 ?q" by (simp flip: pow2_add)
  with assms show "pow2 k = of_int (2 ^ nat (k - ?q)) * quantum x"
    by (simp add: pow2_def [of "k - ?q"] quantum_def)
qed


lemma fl_mono_pos:
  assumes "0 < x" "x \<le> y"
  shows "fl x \<le> fl y"
proof (cases "quantum x = quantum y")
  case True
  have "x / quantum x \<le> y / quantum x" using assms by (intro divide_right_mono) auto
  then have "round_half_even (x / quantum x) \<le> round_half_even (y / quantum x)"
    by (rule round_half_even_mono)
  then show ?thesis by (simp add: fl_eq True [symmetric] mult_right_mono)
next
  case False
  from assms have "exponent x \<le> exponent y" by (intro exponent_mono) auto
  with False have lt: "exponent x < exponent y" "- 1074 \<le> exponent y - 52"
    by (auto simp: quantum_def max_def not_le order_less_le split: if_splits)
  let ?z = "pow2 (exponent y)"
  have "x \<le> ?z"
    using exponent_bounds(2) [of x] pow2_mono [of "exponent x + 1" "exponent y"] assms lt by simp
  moreover obtain m where "?z = of_int m * quantum x"
    by (rule pow2_multiple [of x "exponent y"]) (use lt in auto)
  ultimately have "fl x \<le> ?z" using fl_upper [of x m] by simp
  moreover have "?z \<le> y" using exponent_bounds(1) [of y] assms by simp
  moreover obtain m' where "?z = of_int m' * quantum y"
    by (rule pow2_multiple [of y "exponent y"]) (use lt in auto)
  ultimately show ?thesis using fl_lower [of m' y] by simp
qed

lemma fl_nonneg [js_intros]: "0 \<le> x \<Longrightarrow> 0 \<le> fl x"
  using fl_lower [of 0 x] by simp

lemma fl_nonpos [js_intros]: "x \<le> 0 \<Longrightarrow> fl x \<le> 0"
  using fl_upper [of x 0] by simp

lemma fl_mono [js_intros]: "x \<le> y \<Longrightarrow> fl x \<le> fl y"
proof -
  assume le: "x \<le> y"
  consider "0 < x" | "y < 0" | "x \<le> 0" "0 \<le> y" by linarith
  then show ?thesis
  proof cases
    case 1
    with le show ?thesis by (intro fl_mono_pos)
  next
    case 2
    with le have "fl (- y) \<le> fl (- x)" by (intro fl_mono_pos) auto
    then show ?thesis by (simp add: fl_minus)
  next
    case 3
    then show ?thesis using fl_nonneg fl_nonpos by (meson order_trans)
  qed
qed

text \<open>The values with at most 53 significant bits, no finer than the least subnormal.\<close>

definition is_double :: "rat \<Rightarrow> bool" where
  "is_double x \<longleftrightarrow> (\<exists>m k. x = of_int m * pow2 k \<and> \<bar>m\<bar> \<le> 2 ^ 53 \<and> - 1074 \<le> k)"

lemma is_double_fl [simp]: "is_double (fl x)"
proof (cases "x = 0")
  case True
  have "(0::rat) = of_int 0 * pow2 0" by simp
  then show ?thesis unfolding is_double_def True fl_0 by (metis abs_zero zero_le_numeral zero_le_power
    neg_le_0_iff_le)
next
  case False
  let ?q = "max (exponent x - 52) (- 1074)"
  let ?m = "round_half_even (x / quantum x)"
  have "exponent x + 1 \<le> 53 + ?q" by simp
  then have "\<bar>x\<bar> \<le> pow2 (53 + ?q)"
    using exponent_bounds(2) [OF False] pow2_mono by (meson less_imp_le order_trans)
  then have "\<bar>x\<bar> \<le> 2 ^ 53 * quantum x"
    by (simp add: pow2_add quantum_def) (simp add: pow2_def)
  then have "\<bar>x / quantum x\<bar> \<le> of_int (2 ^ 53)"
    by (simp add: abs_divide pos_divide_le_eq)
  then have "x / quantum x \<le> of_int (2 ^ 53)" "of_int (- (2 ^ 53)) \<le> x / quantum x"
    by (simp_all only: abs_le_iff of_int_minus) linarith+
  then have "?m \<le> 2 ^ 53" "- (2 ^ 53) \<le> ?m"
    by (metis round_half_even_mono round_half_even_int)+
  then have "\<bar>?m\<bar> \<le> 2 ^ 53" by (simp add: abs_le_iff)
  moreover have "fl x = of_int ?m * pow2 ?q" by (simp add: fl_eq quantum_def)
  ultimately show ?thesis unfolding is_double_def by (metis max.cobounded2)
qed

lemma fl_double:
  assumes "is_double x"
  shows "fl x = x"
proof (cases "x = 0")
  case False
  from assms obtain m k where x: "x = of_int m * pow2 k" "\<bar>m\<bar> \<le> 2 ^ 53" "- 1074 \<le> k"
    by (auto simp: is_double_def)
  let ?q = "max (exponent x - 52) (- 1074)"
  have "\<exists>n. x = of_int n * quantum x"
  proof (cases "\<bar>m\<bar> = 2 ^ 53")
    case True
    have "\<bar>x\<bar> = of_int \<bar>m\<bar> * pow2 k" by (simp add: x(1) abs_mult)
    also have "\<dots> = pow2 (53 + k)" by (simp add: True pow2_add) (simp add: pow2_def)
    finally have ax: "\<bar>x\<bar> = pow2 (53 + k)" .
    have "exponent x = 53 + k"
      by (rule exponent_unique) (simp_all add: ax pow2_strict_mono)
    then have "?q \<le> 53 + k" using x(3) by simp
    then obtain n where "pow2 (53 + k) = of_int n * quantum x" by (rule pow2_multiple)
    with ax have "\<bar>x\<bar> = of_int n * quantum x" by simp
    then have "x = of_int n * quantum x \<or> x = of_int (- n) * quantum x" by (simp add: abs_if split: if_splits)
    then show ?thesis by blast
  next
    case less: False
    with x(2) have "\<bar>m\<bar> < 2 ^ 53" by simp
    then have "(of_int \<bar>m\<bar> :: rat) < of_int (2 ^ 53)" by (simp only: of_int_less_iff)
    then have "\<bar>x\<bar> < pow2 (53 + k)"
      by (simp add: x(1) abs_mult pow2_add) (simp add: pow2_def [of 53])
    then have "pow2 (exponent x) < pow2 (53 + k)"
      using exponent_bounds(1) [OF False] by linarith
    then have "?q \<le> k" using x(3) by (auto dest: pow2_less_cancel)
    then obtain n where "pow2 k = of_int n * quantum x" by (rule pow2_multiple)
    then have "x = of_int (m * n) * quantum x" using x(1) by (simp add: mult.assoc)
    then show ?thesis by blast
  qed
  then obtain n where n: "x = of_int n * quantum x" by blast
  have "x / quantum x = of_int n"
    using quantum_pos [of x] by (subst n) (simp add: less_imp_neq [symmetric])
  with n show ?thesis by (simp add: fl_eq)
qed simp

lemma fl_fl [simp]: "fl (fl x) = fl x"
  by (simp add: fl_double)

lemma is_double_int: "\<bar>n\<bar> \<le> 2 ^ 53 \<Longrightarrow> is_double (of_int n)"
  unfolding is_double_def by (rule exI [of _ n], rule exI [of _ 0]) (simp add: pow2_def)

lemma fl_of_int [simp]: "\<bar>n\<bar> \<le> 2 ^ 53 \<Longrightarrow> fl (of_int n) = of_int n"
  by (simp add: fl_double is_double_int)

lemma fl_1 [simp]: "fl 1 = 1"
  using fl_of_int [of 1] by simp

lemma fl_le_double [js_intros]: "is_double z \<Longrightarrow> x \<le> z \<Longrightarrow> fl x \<le> z"
  by (metis fl_mono fl_double)

lemma double_le_fl [js_intros]: "is_double z \<Longrightarrow> z \<le> x \<Longrightarrow> z \<le> fl x"
  by (metis fl_mono fl_double)

lemma fl_le_1 [js_intros]: "x \<le> 1 \<Longrightarrow> fl x \<le> 1"
  using fl_mono [of x 1] by simp

lemma is_double_consts [simp]: "is_double 0" "is_double 1"
  using is_double_int [of 0] is_double_int [of 1] by simp_all

lemma fl_less_doubleD: "fl x < z \<Longrightarrow> is_double z \<Longrightarrow> x < z"
  by (meson double_le_fl linorder_not_less)


text \<open>Rounding a concrete number: checking a claimed result needs only arithmetic on its bounds.\<close>

definition dbl :: "int \<Rightarrow> int \<Rightarrow> rat" where
  "dbl m k = of_int m * pow2 k"

lemma round_half_even_eq:
  assumes "\<bar>y - of_int m\<bar> < 1 / 2 \<or> (\<bar>y - of_int m\<bar> = 1 / 2 \<and> even m)"
  shows "round_half_even y = m"
proof (cases "of_int m \<le> y")
  case True
  with assms have f: "\<lfloor>y\<rfloor> = m" by (intro floor_unique) auto
  show ?thesis using assms True unfolding round_half_even_def f Let_def by auto
next
  case False
  with assms have f: "\<lfloor>y\<rfloor> = m - 1" by (intro floor_unique) auto
  show ?thesis using assms False unfolding round_half_even_def f Let_def by auto
qed

lemma fl_dbl:
  assumes "pow2 (k + 52) \<le> x" "x < pow2 (k + 53)" "- 1074 \<le> k"
    "\<bar>x * pow2 (- k) - of_int m\<bar> < 1 / 2 \<or> (\<bar>x * pow2 (- k) - of_int m\<bar> = 1 / 2 \<and> even m)"
  shows "fl x = dbl m k"
proof -
  have pos: "0 < x" using assms(1) pow2_pos [of "k + 52"] by linarith
  then have "exponent x = k + 52" using assms(1,2) by (intro exponent_unique) (simp_all add: add.assoc)
  then have q: "quantum x = pow2 k" using assms(3) by (simp add: quantum_def)
  have "pow2 k * pow2 (- k) = 1" by (simp add: pow2_add [symmetric]) (simp add: pow2_def)
  then have "x / pow2 k = x * pow2 (- k)" by (metis divide_inverse inverse_unique)
  then have "round_half_even (x / pow2 k) = m" using assms(4) by (intro round_half_even_eq) simp
  then show ?thesis using pos by (simp add: fl_def q dbl_def)
qed

section \<open>Evaluation over the integers\<close>

text \<open>Code equations for rounding that divide integers instead of rationals.\<close>

definition div_half_even :: "int \<Rightarrow> int \<Rightarrow> int \<Rightarrow> int" where
  "div_half_even f r d = (if 2 * r < d then f else if d < 2 * r then f + 1 else if even f then f else f + 1)"

lemma round_half_even_quotient:
  assumes "0 < d"
  shows "round_half_even (of_int n / of_int d) = div_half_even (n div d) (n mod d) d"
proof -
  have f: "\<lfloor>of_int n / of_int d :: rat\<rfloor> = n div d" by (rule floor_divide_of_int_eq)
  have "(of_int n :: rat) = of_int d * of_int (n div d) + of_int (n mod d)"
    by (metis mult_div_mod_eq of_int_add of_int_mult)
  then have "(of_int n / of_int d :: rat) = of_int (n div d) + of_int (n mod d) / of_int d"
    using assms by (simp add: add_divide_distrib)
  then have d: "of_int n / of_int d - of_int (n div d) = (of_int (n mod d) / of_int d :: rat)" by simp
  have l: "(of_int (n mod d) / of_int d < (1 / 2 :: rat)) = (2 * (n mod d) < d)"
  proof -
    have "(of_int (n mod d) / of_int d < (1 / 2 :: rat)) = ((of_int (2 * (n mod d)) :: rat) < of_int d)"
      using assms by (simp add: pos_divide_less_eq field_simps)
    then show ?thesis by (simp only: of_int_less_iff)
  qed
  have g: "((1 / 2 :: rat) < of_int (n mod d) / of_int d) = (d < 2 * (n mod d))"
  proof -
    have "((1 / 2 :: rat) < of_int (n mod d) / of_int d) = ((of_int d :: rat) < of_int (2 * (n mod d)))"
      using assms by (simp add: pos_less_divide_eq field_simps)
    then show ?thesis by (simp only: of_int_less_iff)
  qed
  show ?thesis unfolding round_half_even_def Let_def f d l g div_half_even_def ..
qed

definition exponent_quotient :: "int \<Rightarrow> int \<Rightarrow> int \<Rightarrow> int" where
  "exponent_quotient a b k = (if (if 0 \<le> k then 2 ^ nat k * b \<le> a else b \<le> a * 2 ^ nat (- k)) then k else k - 1)"

lemma pow2_le_quotient:
  assumes "0 < b"
  shows "(pow2 k \<le> of_int a / of_int b) = (if 0 \<le> k then 2 ^ nat k * b \<le> a else b \<le> a * 2 ^ nat (- k))"
proof -
  have "(pow2 k \<le> of_int a / of_int b) = (if 0 \<le> k then (of_int (2 ^ nat k * b) :: rat) \<le> of_int a
      else (of_int b :: rat) \<le> of_int (a * 2 ^ nat (- k)))"
    using assms by (simp add: pow2_def pos_le_divide_eq pos_divide_le_eq field_simps)
  then show ?thesis by (simp only: of_int_le_iff)
qed

lemma exponent_code [code]:
  "exponent x = (case quotient_of \<bar>x\<bar> of (a, b) \<Rightarrow> exponent_quotient a b (bitlen a - bitlen b))"
proof -
  obtain a b where q: "quotient_of \<bar>x\<bar> = (a, b)" by force
  then have "\<bar>x\<bar> = of_int a / of_int b" "0 < b" by (simp_all add: quotient_of_div quotient_of_denom_pos)
  then show ?thesis unfolding exponent_def q Let_def prod.case exponent_quotient_def by (simp add: pow2_le_quotient)
qed

definition fl_quotient :: "int \<Rightarrow> int \<Rightarrow> int \<Rightarrow> rat" where
  "fl_quotient a b e = (if 0 \<le> e
     then of_int (div_half_even (a div (b * 2 ^ nat e)) (a mod (b * 2 ^ nat e)) (b * 2 ^ nat e) * 2 ^ nat e)
     else of_int (div_half_even (a * 2 ^ nat (- e) div b) (a * 2 ^ nat (- e) mod b) b) / of_int (2 ^ nat (- e)))"

lemma fl_code [code]:
  "fl x = (if x = 0 then 0 else case quotient_of x of (a, b) \<Rightarrow> fl_quotient a b (max (exponent x - 52) (- 1074)))"
proof -
  obtain a b where q: "quotient_of x = (a, b)" by force
  then have x: "x = of_int a / of_int b" and b: "0 < b" by (simp_all add: quotient_of_div quotient_of_denom_pos)
  let ?e = "max (exponent x - 52) (- 1074)"
  have "of_int (round_half_even (x / pow2 e)) * pow2 e = fl_quotient a b e" for e
  proof (cases "0 \<le> e")
    case True
    have "x / pow2 e = of_int a / of_int (b * 2 ^ nat e)" using True by (simp add: x pow2_def)
    then have "round_half_even (x / pow2 e) = div_half_even (a div (b * 2 ^ nat e)) (a mod (b * 2 ^ nat e)) (b * 2 ^ nat e)"
      using b round_half_even_quotient [of "b * 2 ^ nat e" a] by simp
    with True show ?thesis by (simp add: fl_quotient_def pow2_def)
  next
    case False
    then have "x / pow2 e = of_int (a * 2 ^ nat (- e)) / of_int b" by (simp add: x pow2_def)
    then have "round_half_even (x / pow2 e) = div_half_even (a * 2 ^ nat (- e) div b) (a * 2 ^ nat (- e) mod b) b"
      using b by (simp only: round_half_even_quotient)
    with False show ?thesis by (simp add: fl_quotient_def pow2_def)
  qed
  then show ?thesis by (simp add: fl_def quantum_def q)
qed

section \<open>Numbers from outside\<close>

datatype js_num = Fin rat | PosInf | NegInf | NaN

fun number_isFinite :: "js_num \<Rightarrow> bool" where
  "number_isFinite (Fin r) = True"
| "number_isFinite _ = False"

text \<open>\<open>Number.isSafeInteger\<close>: an integer of at most 53 bits.\<close>

definition safe_limit :: int where
  "safe_limit = 9007199254740991"

fun isSafeInteger :: "js_num \<Rightarrow> bool" where
  "isSafeInteger (Fin r) = (of_int \<lfloor>r\<rfloor> = r \<and> \<bar>r\<bar> \<le> of_int safe_limit)"
| "isSafeInteger _ = False"

text \<open>The relational operators: every comparison with NaN is false.\<close>

fun js_less :: "js_num \<Rightarrow> js_num \<Rightarrow> bool" where
  "js_less (Fin a) (Fin b) = (a < b)"
| "js_less (Fin a) PosInf = True"
| "js_less NegInf (Fin b) = True"
| "js_less NegInf PosInf = True"
| "js_less _ _ = False"

fun num_int :: "js_num \<Rightarrow> int" where
  "num_int (Fin r) = \<lfloor>r\<rfloor>"
| "num_int _ = 0"

fun num_rat :: "js_num \<Rightarrow> rat" where
  "num_rat (Fin r) = r"
| "num_rat _ = 0"

lemma isSafeInteger_iff [js_simps]:
  "isSafeInteger x \<longleftrightarrow> (\<exists>n. x = Fin (of_int n) \<and> \<bar>n\<bar> \<le> safe_limit)"
proof (cases x)
  case (Fin r)
  have abs: "\<bar>rat_of_int n\<bar> \<le> of_int safe_limit \<longleftrightarrow> \<bar>n\<bar> \<le> safe_limit" for n
    by (metis of_int_abs of_int_le_iff)
  show ?thesis
  proof
    assume "isSafeInteger x"
    with Fin obtain n where "r = of_int n" "\<bar>r\<bar> \<le> of_int safe_limit" by auto
    with Fin abs [of n] show "\<exists>n. x = Fin (of_int n) \<and> \<bar>n\<bar> \<le> safe_limit" by blast
  next
    assume "\<exists>n. x = Fin (of_int n) \<and> \<bar>n\<bar> \<le> safe_limit"
    then obtain n where "x = Fin (of_int n)" "\<bar>n\<bar> \<le> safe_limit" by blast
    then show "isSafeInteger x" using abs [of n] by simp
  qed
qed auto

lemma number_isFinite_iff [js_simps]: "number_isFinite x \<longleftrightarrow> (\<exists>r. x = Fin r)"
  by (cases x) auto

end
