(* ===== verification/Js_Value.thy ===== *)
theory Js_Value
  imports Js_Collections Js_Number
begin

text \<open>
  Untyped JavaScript values, as the validators at the boundaries receive them.  Objects are
  lists of own enumerable fields (the first entry of a name counts); accessors, prototypes,
  sparse arrays and symbol keys are not values of the model.  Reading a named field of an
  array gives \<open>undefined\<close>: no field the code reads is \<open>length\<close> or an index.
\<close>

datatype js =
    JUndefined
  | JNull
  | JBool bool
  | JNum js_num
  | JStr jstring
  | JFun
  | JArr "js list"
  | JObj "(string \<times> js) list"

text \<open>\<open>typeof value === 'object' && value !== null\<close>: arrays are objects.\<close>

fun isRecord :: "js \<Rightarrow> bool" where
  "isRecord (JArr xs) = True"
| "isRecord (JObj fs) = True"
| "isRecord _ = False"

fun js_get :: "js \<Rightarrow> string \<Rightarrow> js" where
  "js_get (JObj fs) k = (case map_of fs k of Some v \<Rightarrow> v | None \<Rightarrow> JUndefined)"
| "js_get _ k = JUndefined"

text \<open>\<open>k in v\<close>, for names that no prototype has.\<close>

definition has_field :: "js \<Rightarrow> string \<Rightarrow> bool" where
  "has_field v k = (case v of JObj fs \<Rightarrow> k \<in> set (map fst fs) | _ \<Rightarrow> False)"

fun isArray :: "js \<Rightarrow> bool" where
  "isArray (JArr xs) = True"
| "isArray _ = False"

fun isString :: "js \<Rightarrow> bool" where
  "isString (JStr s) = True"
| "isString _ = False"

fun isBoolean :: "js \<Rightarrow> bool" where
  "isBoolean (JBool b) = True"
| "isBoolean _ = False"

fun isNumber :: "js \<Rightarrow> bool" where
  "isNumber (JNum n) = True"
| "isNumber _ = False"

text \<open>Reading a value at the type a check has just established.\<close>

fun the_str :: "js \<Rightarrow> jstring" where
  "the_str (JStr s) = s"
| "the_str _ = []"

fun the_elems :: "js \<Rightarrow> js list" where
  "the_elems (JArr xs) = xs"
| "the_elems _ = []"

fun the_num :: "js \<Rightarrow> js_num" where
  "the_num (JNum n) = n"
| "the_num _ = NaN"

fun the_bool :: "js \<Rightarrow> bool" where
  "the_bool (JBool b) = b"
| "the_bool _ = False"

definition the_int :: "js \<Rightarrow> int" where
  "the_int v = num_int (the_num v)"

lemma isArray_iff [js_simps]: "isArray v \<longleftrightarrow> (\<exists>xs. v = JArr xs)"
  by (cases v) auto

lemma isString_iff [js_simps]: "isString v \<longleftrightarrow> (\<exists>s. v = JStr s)"
  by (cases v) auto

lemma isBoolean_iff [js_simps]: "isBoolean v \<longleftrightarrow> (\<exists>b. v = JBool b)"
  by (cases v) auto

lemma isNumber_iff [js_simps]: "isNumber v \<longleftrightarrow> (\<exists>n. v = JNum n)"
  by (cases v) auto

lemma the_str_JStr: "isString v \<Longrightarrow> v = JStr (the_str v)"
  by (cases v) auto

lemma the_elems_JArr: "isArray v \<Longrightarrow> v = JArr (the_elems v)"
  by (cases v) auto

lemma the_int_of_int [simp]: "the_int (JNum (Fin (of_int n))) = n"
  by (simp add: the_int_def)

section \<open>Building values\<close>

definition js_string :: "string \<Rightarrow> js" where
  "js_string s = JStr (lit s)"

definition js_int :: "int \<Rightarrow> js" where
  "js_int n = JNum (Fin (of_int n))"

end
