(* ===== verification/Corpus_Types.thy ===== *)
theory Corpus_Types
  imports Js_Value "HOL-Library.Product_Lexorder"
begin

text \<open>
  The canonical corpus of \<open>packages/core/src/corpus/types.ts\<close>: symbols and words with their
  addresses.  A validated value is read into these records; addresses are ordered
  lexicographically, which is the order \<open>compareLocation\<close> of \<open>validate.ts\<close> computes.
\<close>

record quran_location =
  loc_surah :: int
  loc_ayah :: int
  loc_word :: int
  loc_symbol :: int

record word_address =
  wa_surah :: int
  wa_ayah :: int
  wa_word :: int

record quran_symbol =
  sym_id :: jstring
  sym_text :: jstring
  sym_phoneme :: jstring
  sym_location :: quran_location

record quran_word =
  word_id :: jstring
  word_text :: jstring
  word_symbolIds :: "jstring list"
  word_location :: word_address

record quran_corpus =
  corpusId :: jstring
  corpus_revision :: jstring
  corpus_symbols :: "quran_symbol list"
  corpus_words :: "quran_word list"

text \<open>A zero-based, end-exclusive range of symbol positions.\<close>

record corpus_range =
  range_start :: nat
  range_end :: nat

section \<open>Reading a validated value\<close>

definition read_location :: "js \<Rightarrow> quran_location" where
  "read_location v = \<lparr>loc_surah = the_int (js_get v ''surah''), loc_ayah = the_int (js_get v ''ayah''),
     loc_word = the_int (js_get v ''word''), loc_symbol = the_int (js_get v ''symbol'')\<rparr>"

definition read_word_address :: "js \<Rightarrow> word_address" where
  "read_word_address v = \<lparr>wa_surah = the_int (js_get v ''surah''),
     wa_ayah = the_int (js_get v ''ayah''), wa_word = the_int (js_get v ''word'')\<rparr>"

definition read_symbol :: "js \<Rightarrow> quran_symbol" where
  "read_symbol v = \<lparr>sym_id = the_str (js_get v ''id''), sym_text = the_str (js_get v ''text''),
     sym_phoneme = the_str (js_get v ''phoneme''),
     sym_location = read_location (js_get v ''location'')\<rparr>"

definition read_word :: "js \<Rightarrow> quran_word" where
  "read_word v = \<lparr>word_id = the_str (js_get v ''id''), word_text = the_str (js_get v ''text''),
     word_symbolIds = map the_str (the_elems (js_get v ''symbolIds'')),
     word_location = read_word_address (js_get v ''location'')\<rparr>"

definition read_corpus :: "js \<Rightarrow> quran_corpus" where
  "read_corpus v = \<lparr>corpusId = the_str (js_get v ''corpusId''),
     corpus_revision = the_str (js_get v ''revision''),
     corpus_symbols = map read_symbol (the_elems (js_get v ''symbols'')),
     corpus_words = map read_word (the_elems (js_get v ''words''))\<rparr>"

section \<open>Addresses in order\<close>

definition location_key :: "('a::linorder) quran_location_scheme \<Rightarrow> int \<times> int \<times> int \<times> int \<times> 'a" where
  "location_key l = (loc_surah l, loc_ayah l, loc_word l, loc_symbol l, quran_location.more l)"

lemma location_key_inject [simp]: "location_key l = location_key r \<longleftrightarrow> l = r"
  by (cases l, cases r) (simp add: location_key_def)

instantiation quran_location_ext :: (linorder) linorder
begin

definition less_eq_quran_location_ext :: "'a quran_location_scheme \<Rightarrow> 'a quran_location_scheme \<Rightarrow> bool" where
  "less_eq_quran_location_ext l r \<longleftrightarrow> location_key l \<le> location_key r"

definition less_quran_location_ext :: "'a quran_location_scheme \<Rightarrow> 'a quran_location_scheme \<Rightarrow> bool" where
  "less_quran_location_ext l r \<longleftrightarrow> location_key l < location_key r"

instance
proof
  fix x y z :: "'a quran_location_scheme"
  show "x < y \<longleftrightarrow> x \<le> y \<and> \<not> y \<le> x"
    by (simp only: less_eq_quran_location_ext_def less_quran_location_ext_def less_le_not_le)
  show "x \<le> x" by (simp add: less_eq_quran_location_ext_def)
  show "x \<le> y \<Longrightarrow> y \<le> z \<Longrightarrow> x \<le> z" by (simp add: less_eq_quran_location_ext_def)
  show "x \<le> y \<Longrightarrow> y \<le> x \<Longrightarrow> x = y"
    by (metis less_eq_quran_location_ext_def location_key_inject order_antisym)
  show "x \<le> y \<or> y \<le> x" by (auto simp: less_eq_quran_location_ext_def)
qed

end

definition address_key :: "('a::linorder) word_address_scheme \<Rightarrow> int \<times> int \<times> int \<times> 'a" where
  "address_key l = (wa_surah l, wa_ayah l, wa_word l, word_address.more l)"

lemma address_key_inject [simp]: "address_key l = address_key r \<longleftrightarrow> l = r"
  by (cases l, cases r) (simp add: address_key_def)

instantiation word_address_ext :: (linorder) linorder
begin

definition less_eq_word_address_ext :: "'a word_address_scheme \<Rightarrow> 'a word_address_scheme \<Rightarrow> bool" where
  "less_eq_word_address_ext l r \<longleftrightarrow> address_key l \<le> address_key r"

definition less_word_address_ext :: "'a word_address_scheme \<Rightarrow> 'a word_address_scheme \<Rightarrow> bool" where
  "less_word_address_ext l r \<longleftrightarrow> address_key l < address_key r"

instance
proof
  fix x y z :: "'a word_address_scheme"
  show "x < y \<longleftrightarrow> x \<le> y \<and> \<not> y \<le> x"
    by (simp only: less_eq_word_address_ext_def less_word_address_ext_def less_le_not_le)
  show "x \<le> x" by (simp add: less_eq_word_address_ext_def)
  show "x \<le> y \<Longrightarrow> y \<le> z \<Longrightarrow> x \<le> z" by (simp add: less_eq_word_address_ext_def)
  show "x \<le> y \<Longrightarrow> y \<le> x \<Longrightarrow> x = y"
    by (metis less_eq_word_address_ext_def address_key_inject order_antisym)
  show "x \<le> y \<or> y \<le> x" by (auto simp: less_eq_word_address_ext_def)
qed

end

text \<open>
  The comparators of \<open>validate.ts\<close>: the difference of the first coordinate that differs.
  Coordinates are safe integers, so the sign of the double difference is that of the exact one.
\<close>

definition compareLocation :: "quran_location \<Rightarrow> quran_location \<Rightarrow> int" where
  "compareLocation l r =
     (if loc_surah l \<noteq> loc_surah r then loc_surah l - loc_surah r
      else if loc_ayah l \<noteq> loc_ayah r then loc_ayah l - loc_ayah r
      else if loc_word l \<noteq> loc_word r then loc_word l - loc_word r
      else if loc_symbol l \<noteq> loc_symbol r then loc_symbol l - loc_symbol r
      else 0)"

definition compareWordLocation :: "word_address \<Rightarrow> word_address \<Rightarrow> int" where
  "compareWordLocation l r =
     (if wa_surah l \<noteq> wa_surah r then wa_surah l - wa_surah r
      else if wa_ayah l \<noteq> wa_ayah r then wa_ayah l - wa_ayah r
      else wa_word l - wa_word r)"

lemma compareLocation_less [js_simps]: "compareLocation l r < 0 \<longleftrightarrow> l < r"
  by (auto simp: compareLocation_def less_quran_location_ext_def location_key_def)

lemma compareWordLocation_less [js_simps]: "compareWordLocation l r < 0 \<longleftrightarrow> l < r"
  by (auto simp: compareWordLocation_def less_word_address_ext_def address_key_def)

lemma location_ge_iff [js_simps]: "0 \<le> compareLocation l r \<longleftrightarrow> \<not> l < r"
  using compareLocation_less [of l r] by linarith

lemma word_location_ge_iff [js_simps]: "0 \<le> compareWordLocation l r \<longleftrightarrow> \<not> l < r"
  using compareWordLocation_less [of l r] by linarith

interpretation location_order: consistent_comparator compareLocation
  by unfold_locales (auto simp: compareLocation_def split: if_splits)

interpretation word_location_order: consistent_comparator compareWordLocation
  by unfold_locales (auto simp: compareWordLocation_def split: if_splits)

text \<open>The word a symbol address lies in.\<close>

definition word_of_location :: "quran_location \<Rightarrow> word_address" where
  "word_of_location l = \<lparr>wa_surah = loc_surah l, wa_ayah = loc_ayah l, wa_word = loc_word l\<rparr>"

lemma word_of_location_less: "word_of_location l < word_of_location r \<Longrightarrow> l < r"
  by (auto simp: word_of_location_def less_word_address_ext_def address_key_def
      less_quran_location_ext_def location_key_def)

lemma word_of_location_mono: "l \<le> r \<Longrightarrow> word_of_location l \<le> word_of_location r"
  by (metis word_of_location_less linorder_not_less)

end
