(* ===== verification/Corpus_Validate.thy ===== *)
theory Corpus_Validate
  imports Corpus_Types
begin

text \<open>
  \<open>validateCorpus\<close> of \<open>packages/core/src/corpus/validate.ts\<close>, on an untyped value, branch by
  branch with its messages; \<open>wf_corpus\<close>, the abstract specification of a canonical corpus;
  the proof that the validator accepts exactly the well-typed values whose reading is a
  well-formed corpus; and what well-formedness gives: the words list the symbols in order.
\<close>

section \<open>The checks\<close>

definition requireNonEmptyString :: "js \<Rightarrow> string \<Rightarrow> js_error + unit" where
  "requireNonEmptyString v label =
     (if \<not> isString v \<or> js_trim (the_str v) = [] then fail (label @ '' must be a non-empty string'')
      else Inr ())"

definition requirePositiveInteger :: "js \<Rightarrow> string \<Rightarrow> js_error + unit" where
  "requirePositiveInteger v label =
     (if \<not> isNumber v \<or> \<not> isSafeInteger (the_num v) \<or> \<not> js_less (Fin 0) (the_num v)
      then fail (label @ '' must be a positive integer'') else Inr ())"

definition validateLocation :: "js \<Rightarrow> string \<Rightarrow> bool \<Rightarrow> js_error + unit" where
  "validateLocation v label includesSymbol =
     (if \<not> isRecord v then fail (label @ '' must be an address'')
      else ebind (requirePositiveInteger (js_get v ''surah'') (label @ ''.surah'')) (\<lambda>_.
           ebind (requirePositiveInteger (js_get v ''ayah'') (label @ ''.ayah'')) (\<lambda>_.
           ebind (requirePositiveInteger (js_get v ''word'') (label @ ''.word'')) (\<lambda>_.
           if includesSymbol then requirePositiveInteger (js_get v ''symbol'') (label @ ''.symbol'')
           else Inr ()))))"

definition validateSymbol :: "js \<Rightarrow> js_error + unit" where
  "validateSymbol v =
     (if \<not> isRecord v then fail ''symbol must be an object''
      else ebind (requireNonEmptyString (js_get v ''id'') ''symbol id'') (\<lambda>_.
        if \<not> isString (js_get v ''text'') then fail ''symbol text must be a string''
        else ebind (requireNonEmptyString (js_get v ''phoneme'') ''symbol phoneme'') (\<lambda>_.
          validateLocation (js_get v ''location'') ''symbol location'' True)))"

definition validateWord :: "js \<Rightarrow> js_error + unit" where
  "validateWord v =
     (if \<not> isRecord v then fail ''word must be an object''
      else ebind (requireNonEmptyString (js_get v ''id'') ''word id'') (\<lambda>_.
        if \<not> isString (js_get v ''text'') then fail ''word text must be a string''
        else if \<not> isArray (js_get v ''symbolIds'') \<or> the_elems (js_get v ''symbolIds'') = []
        then fail ''word must reference at least one symbol''
        else ebind (for_each (\<lambda>_ s. requireNonEmptyString s ''word symbol id'') ()
                     (the_elems (js_get v ''symbolIds''))) (\<lambda>_.
          validateLocation (js_get v ''location'') ''word location'' False)))"

text \<open>The loop over the symbols: its \<open>Map\<close>s by identifier and the previous symbol.\<close>

record symbol_scan =
  scan_symbolsById :: "(jstring, quran_symbol) js_map"
  scan_symbolIndexes :: "(jstring, nat) js_map"
  scan_previousSymbol :: "quran_symbol option"

definition scan_symbol :: "symbol_scan \<Rightarrow> nat \<times> js \<Rightarrow> js_error + symbol_scan" where
  "scan_symbol st entry = (case entry of (symbolIndex, v) \<Rightarrow>
     ebind (validateSymbol v) (\<lambda>_. let s = read_symbol v in
       if js_map_has (scan_symbolsById st) (sym_id s) then fail ''duplicate symbol id''
       else if (case scan_previousSymbol st of None \<Rightarrow> False
                | Some p \<Rightarrow> 0 \<le> compareLocation (sym_location p) (sym_location s))
       then fail ''symbol locations must be strictly monotonic''
       else Inr \<lparr>scan_symbolsById = js_map_set (sym_id s) s (scan_symbolsById st),
                 scan_symbolIndexes = js_map_set (sym_id s) symbolIndex (scan_symbolIndexes st),
                 scan_previousSymbol = Some s\<rparr>))"

text \<open>
  The inner loop over one word's symbol identifiers.  Its state is the set of referenced
  symbols, which the outer loop shares, and the previous index, \<open>-1\<close> at the start.
\<close>

definition scan_reference ::
  "symbol_scan \<Rightarrow> quran_word \<Rightarrow> jstring js_set \<times> int \<Rightarrow> jstring \<Rightarrow> js_error + jstring js_set \<times> int" where
  "scan_reference sc w st symbolId = (case st of (referenced, previousIndex) \<Rightarrow>
     (case js_map_get (scan_symbolsById sc) symbolId of
        None \<Rightarrow> Inl (TypeError (lit ''word references missing symbol: '' @ symbolId))
      | Some s \<Rightarrow>
          if loc_surah (sym_location s) \<noteq> wa_surah (word_location w)
            \<or> loc_ayah (sym_location s) \<noteq> wa_ayah (word_location w)
          then fail ''word symbols must not span multiple ayat''
          else if loc_word (sym_location s) \<noteq> wa_word (word_location w)
          then fail ''word symbols must match the word location''
          else (let symbolIndex = int (the (js_map_get (scan_symbolIndexes sc) symbolId)) in
            if symbolIndex \<le> previousIndex then fail ''word symbol IDs must be strictly ordered''
            else if symbolId \<in> set referenced then fail ''symbol is referenced by multiple words''
            else Inr (js_set_add symbolId referenced, symbolIndex))))"

record word_scan =
  scan_wordsById :: "jstring js_set"
  scan_referenced :: "jstring js_set"
  scan_previousWord :: "quran_word option"

definition scan_word :: "symbol_scan \<Rightarrow> word_scan \<Rightarrow> js \<Rightarrow> js_error + word_scan" where
  "scan_word sc st v =
     ebind (validateWord v) (\<lambda>_. let w = read_word v in
       if word_id w \<in> set (scan_wordsById st) then fail ''duplicate word id''
       else if (case scan_previousWord st of None \<Rightarrow> False
                | Some p \<Rightarrow> 0 \<le> compareWordLocation (word_location p) (word_location w))
       then fail ''word locations must be strictly monotonic''
       else ebind (for_each (scan_reference sc w) (scan_referenced st, -1) (word_symbolIds w))
              (\<lambda>(referenced, _). Inr \<lparr>scan_wordsById = js_set_add (word_id w) (scan_wordsById st),
                 scan_referenced = referenced, scan_previousWord = Some w\<rparr>))"

definition validateCorpus :: "js \<Rightarrow> js_error + unit" where
  "validateCorpus v =
     (if \<not> isRecord v then fail ''corpus must be an object''
      else ebind (requireNonEmptyString (js_get v ''corpusId'') ''corpus id'') (\<lambda>_.
        ebind (requireNonEmptyString (js_get v ''revision'') ''corpus revision'') (\<lambda>_.
        if \<not> isArray (js_get v ''symbols'') \<or> \<not> isArray (js_get v ''words'')
        then fail ''corpus symbols and words must be arrays''
        else ebind (for_each scan_symbol
                      \<lparr>scan_symbolsById = [], scan_symbolIndexes = [], scan_previousSymbol = None\<rparr>
                      (enumerate 0 (the_elems (js_get v ''symbols'')))) (\<lambda>sc.
          ebind (for_each (scan_word sc)
                   \<lparr>scan_wordsById = [], scan_referenced = [], scan_previousWord = None\<rparr>
                   (the_elems (js_get v ''words''))) (\<lambda>ws.
          for_each (\<lambda>_ s. if sym_id (read_symbol s) \<notin> set (scan_referenced ws)
                          then fail ''symbol is missing from its word'' else Inr ()) ()
            (the_elems (js_get v ''symbols'')))))))"

section \<open>The specification\<close>

definition nonblank :: "jstring \<Rightarrow> bool" where
  "nonblank s \<longleftrightarrow> js_trim s \<noteq> []"

definition positive_safe :: "int \<Rightarrow> bool" where
  "positive_safe n \<longleftrightarrow> 0 < n \<and> n \<le> safe_limit"

definition wf_symbol :: "quran_symbol \<Rightarrow> bool" where
  "wf_symbol s \<longleftrightarrow> nonblank (sym_id s) \<and> nonblank (sym_phoneme s)
     \<and> positive_safe (loc_surah (sym_location s)) \<and> positive_safe (loc_ayah (sym_location s))
     \<and> positive_safe (loc_word (sym_location s)) \<and> positive_safe (loc_symbol (sym_location s))"

definition wf_word :: "quran_word \<Rightarrow> bool" where
  "wf_word w \<longleftrightarrow> nonblank (word_id w) \<and> word_symbolIds w \<noteq> [] \<and> list_all nonblank (word_symbolIds w)
     \<and> positive_safe (wa_surah (word_location w)) \<and> positive_safe (wa_ayah (word_location w))
     \<and> positive_safe (wa_word (word_location w))"

text \<open>The position of a symbol identifier in the corpus.\<close>

definition symbol_index :: "quran_symbol list \<Rightarrow> jstring \<Rightarrow> nat option" where
  "symbol_index ss i = map_of (zip (map sym_id ss) [0..<length ss]) i"

text \<open>A word's identifiers resolve to symbols of the word's own address, in increasing position.\<close>

definition word_resolves :: "quran_symbol list \<Rightarrow> quran_word \<Rightarrow> bool" where
  "word_resolves ss w \<longleftrightarrow>
     list_all (\<lambda>i. case symbol_index ss i of None \<Rightarrow> False
                   | Some k \<Rightarrow> word_of_location (sym_location (ss ! k)) = word_location w) (word_symbolIds w)
     \<and> sorted_wrt (<) (map (\<lambda>i. the (symbol_index ss i)) (word_symbolIds w))"

definition wf_symbols :: "quran_symbol list \<Rightarrow> bool" where
  "wf_symbols ss \<longleftrightarrow> list_all wf_symbol ss \<and> distinct (map sym_id ss)
     \<and> sorted_wrt (<) (map sym_location ss)"

definition wf_words :: "quran_symbol list \<Rightarrow> quran_word list \<Rightarrow> bool" where
  "wf_words ss ws \<longleftrightarrow> list_all wf_word ws \<and> distinct (map word_id ws)
     \<and> sorted_wrt (<) (map word_location ws) \<and> list_all (word_resolves ss) ws
     \<and> distinct (concat (map word_symbolIds ws))"

definition wf_corpus :: "quran_corpus \<Rightarrow> bool" where
  "wf_corpus c \<longleftrightarrow> nonblank (corpusId c) \<and> nonblank (corpus_revision c)
     \<and> wf_symbols (corpus_symbols c) \<and> wf_words (corpus_symbols c) (corpus_words c)
     \<and> set (map sym_id (corpus_symbols c)) \<subseteq> set (concat (map word_symbolIds (corpus_words c)))"

text \<open>The JavaScript types of a value's declared fields.\<close>

definition safe_number :: "js \<Rightarrow> bool" where
  "safe_number v \<longleftrightarrow> (\<exists>n. v = JNum (Fin (of_int n)) \<and> \<bar>n\<bar> \<le> safe_limit)"

definition symbol_typed :: "js \<Rightarrow> bool" where
  "symbol_typed v \<longleftrightarrow> isRecord v \<and> isString (js_get v ''id'') \<and> isString (js_get v ''text'')
     \<and> isString (js_get v ''phoneme'') \<and> isRecord (js_get v ''location'')
     \<and> (\<forall>f \<in> {''surah'', ''ayah'', ''word'', ''symbol''}. safe_number (js_get (js_get v ''location'') f))"

definition word_typed :: "js \<Rightarrow> bool" where
  "word_typed v \<longleftrightarrow> isRecord v \<and> isString (js_get v ''id'') \<and> isString (js_get v ''text'')
     \<and> isArray (js_get v ''symbolIds'') \<and> list_all isString (the_elems (js_get v ''symbolIds''))
     \<and> isRecord (js_get v ''location'')
     \<and> (\<forall>f \<in> {''surah'', ''ayah'', ''word''}. safe_number (js_get (js_get v ''location'') f))"

definition corpus_typed :: "js \<Rightarrow> bool" where
  "corpus_typed v \<longleftrightarrow> isRecord v \<and> isString (js_get v ''corpusId'') \<and> isString (js_get v ''revision'')
     \<and> isArray (js_get v ''symbols'') \<and> isArray (js_get v ''words'')
     \<and> list_all symbol_typed (the_elems (js_get v ''symbols''))
     \<and> list_all word_typed (the_elems (js_get v ''words''))"


section \<open>The validator decides the specification\<close>

lemma unit_sum_cases [js_simps]: "(m :: 'e + unit) = Inr u \<longleftrightarrow> (\<forall>e. m \<noteq> Inl e)"
  by (cases m) auto

lemma requireNonEmptyString_iff [js_simps]:
  "requireNonEmptyString v l = Inr u \<longleftrightarrow> isString v \<and> nonblank (the_str v)"
  by (simp add: requireNonEmptyString_def nonblank_def)

lemma requirePositiveInteger_iff [js_simps]:
  "requirePositiveInteger v l = Inr u \<longleftrightarrow> safe_number v \<and> positive_safe (the_int v)"
proof -
  have "js_less (Fin 0) (Fin (of_int n)) \<longleftrightarrow> 0 < n" for n by simp
  then show ?thesis
    by (cases v) (auto simp: requirePositiveInteger_def safe_number_def positive_safe_def the_int_def
        isSafeInteger_iff)
qed

lemma validateLocation_iff [js_simps]:
  "validateLocation v l b = Inr u \<longleftrightarrow> isRecord v
     \<and> (\<forall>f \<in> {''surah'', ''ayah'', ''word''}. safe_number (js_get v f) \<and> positive_safe (the_int (js_get v f)))
     \<and> (b \<longrightarrow> safe_number (js_get v ''symbol'') \<and> positive_safe (the_int (js_get v ''symbol'')))"
  by (cases b) (auto simp: validateLocation_def ebind_Inr_iff requirePositiveInteger_iff)

lemma validateSymbol_iff:
  "validateSymbol v = Inr u \<longleftrightarrow> symbol_typed v \<and> wf_symbol (read_symbol v)"
  by (auto simp: validateSymbol_def ebind_Inr_iff requireNonEmptyString_iff validateLocation_iff
      symbol_typed_def wf_symbol_def read_symbol_def read_location_def)

lemma for_each_nonempty:
  "for_each (\<lambda>_ s. requireNonEmptyString s l) () xs = Inr u
     \<longleftrightarrow> list_all isString xs \<and> list_all nonblank (map the_str xs)"
  by (induction xs) (auto simp: ebind_Inr_iff requireNonEmptyString_iff)

lemma validateWord_iff:
  "validateWord v = Inr u \<longleftrightarrow> word_typed v \<and> wf_word (read_word v)"
  by (auto simp: validateWord_def ebind_Inr_iff requireNonEmptyString_iff validateLocation_iff
      for_each_nonempty word_typed_def wf_word_def read_word_def read_word_address_def)

subsection \<open>The loop over the symbols\<close>

text \<open>The loop's state after a prefix of symbols: the tables list the prefix.\<close>

definition scanned :: "quran_symbol list \<Rightarrow> symbol_scan" where
  "scanned ss = \<lparr>scan_symbolsById = map (\<lambda>s. (sym_id s, s)) ss,
     scan_symbolIndexes = zip (map sym_id ss) [0..<length ss],
     scan_previousSymbol = (if ss = [] then None else Some (last ss))\<rparr>"

lemma sorted_wrt_snoc_iff:
  assumes "transp P"
  shows "sorted_wrt P (xs @ [y]) \<longleftrightarrow> sorted_wrt P xs \<and> (xs \<noteq> [] \<longrightarrow> P (last xs) y)"
proof (cases xs rule: rev_cases)
  case (snoc zs z)
  show ?thesis
    using transpD [OF assms] by (auto simp: snoc sorted_wrt_append)
qed simp

lemma scan_symbol_scanned:
  assumes "distinct (map sym_id ss)"
  shows "scan_symbol (scanned ss) (length ss, v) = Inr st' \<longleftrightarrow>
     symbol_typed v \<and> wf_symbol (read_symbol v) \<and> sym_id (read_symbol v) \<notin> set (map sym_id ss)
     \<and> (ss \<noteq> [] \<longrightarrow> sym_location (last ss) < sym_location (read_symbol v))
     \<and> st' = scanned (ss @ [read_symbol v])"
proof -
  have keys: "map fst (map (\<lambda>s. (sym_id s, s)) ss) = map sym_id ss"
      "map fst (zip (map sym_id ss) [0..<length ss]) = map sym_id ss" by (simp_all add: comp_def)
  have ext: "\<lparr>scan_symbolsById = js_map_set (sym_id s) s (scan_symbolsById (scanned ss)),
        scan_symbolIndexes = js_map_set (sym_id s) (length ss) (scan_symbolIndexes (scanned ss)),
        scan_previousSymbol = Some s\<rparr> = scanned (ss @ [s])" if "sym_id s \<notin> set (map sym_id ss)" for s
    using that by (simp add: scanned_def js_map_set_fresh keys del: set_map map_map)
  have has: "js_map_has (scan_symbolsById (scanned ss)) i \<longleftrightarrow> i \<in> set (map sym_id ss)" for i
    by (simp add: js_map_has_iff scanned_def comp_def del: set_map)
  have prev: "scan_previousSymbol (scanned ss) = (if ss = [] then None else Some (last ss))"
    by (simp add: scanned_def)
  show ?thesis
    by (auto simp: scan_symbol_def ebind_Inr_iff validateSymbol_iff Let_def has prev location_ge_iff
        ext simp del: set_map split: if_splits)
qed

lemma scan_symbols_iff:
  assumes "distinct (map sym_id ss)" "sorted_wrt (<) (map sym_location ss)"
  shows "for_each scan_symbol (scanned ss) (enumerate (length ss) vs) = Inr st' \<longleftrightarrow>
     list_all symbol_typed vs \<and> list_all wf_symbol (map read_symbol vs)
     \<and> distinct (map sym_id (ss @ map read_symbol vs))
     \<and> sorted_wrt (<) (map sym_location (ss @ map read_symbol vs))
     \<and> st' = scanned (ss @ map read_symbol vs)"
  using assms
proof (induction vs arbitrary: ss)
  case (Cons v vs)
  let ?s = "read_symbol v"
  show ?case
  proof (cases "sym_id ?s \<notin> set (map sym_id ss) \<and> (ss \<noteq> [] \<longrightarrow> sym_location (last ss) < sym_location ?s)")
    case True
    then have "distinct (map sym_id (ss @ [?s]))" "sorted_wrt (<) (map sym_location (ss @ [?s]))"
      using Cons.prems by (auto simp: sorted_wrt_snoc_iff last_map)
    from Cons.IH [OF this] True show ?thesis
      by (auto simp: ebind_Inr_iff scan_symbol_scanned [OF Cons.prems(1)])
  next
    case False
    then have "scan_symbol (scanned ss) (length ss, v) \<noteq> Inr t" for t
      unfolding scan_symbol_scanned [OF Cons.prems(1)] by blast
    then have "for_each scan_symbol (scanned ss) (enumerate (length ss) (v # vs)) \<noteq> Inr st'"
      by (simp add: ebind_Inr_iff)
    moreover have "\<not> (distinct (map sym_id (ss @ map read_symbol (v # vs)))
        \<and> sorted_wrt (<) (map sym_location (ss @ map read_symbol (v # vs))))"
      using False by (auto simp: sorted_wrt_append)
    ultimately show ?thesis by blast
  qed
qed (auto)


subsection \<open>The loop over the words\<close>

lemma symbol_index_Some:
  "symbol_index ss i = Some k \<Longrightarrow> k < length ss \<and> sym_id (ss ! k) = i"
  unfolding symbol_index_def by (auto dest!: map_of_SomeD simp: in_set_zip)

lemma symbol_index_nth:
  "distinct (map sym_id ss) \<Longrightarrow> k < length ss \<Longrightarrow> symbol_index ss (sym_id (ss ! k)) = Some k"
  unfolding symbol_index_def using map_of_zip_nth [of "map sym_id ss" "[0..<length ss]" k] by simp

lemma symbol_index_None: "symbol_index ss i = None \<longleftrightarrow> i \<notin> set (map sym_id ss)"
  unfolding symbol_index_def by (subst map_of_zip_is_None) auto

lemma scanned_symbolsById:
  assumes "distinct (map sym_id ss)"
  shows "js_map_get (scan_symbolsById (scanned ss)) i = map_option ((!) ss) (symbol_index ss i)"
proof (cases "symbol_index ss i")
  case None
  then have "i \<notin> sym_id ` set ss" by (simp add: symbol_index_None)
  then have "map_of (map (\<lambda>s. (sym_id s, s)) ss) i = None" by (auto simp: map_of_eq_None_iff)
  with None show ?thesis by (simp add: scanned_def js_map_get_def)
next
  case (Some k)
  then have "k < length ss" "sym_id (ss ! k) = i" by (auto dest: symbol_index_Some)
  then have "(i, ss ! k) \<in> set (map (\<lambda>s. (sym_id s, s)) ss)" by force
  with assms have "map_of (map (\<lambda>s. (sym_id s, s)) ss) i = Some (ss ! k)"
    by (intro map_of_is_SomeI) (simp_all add: comp_def)
  with Some show ?thesis by (simp add: scanned_def js_map_get_def)
qed

lemma scanned_symbolIndexes: "js_map_get (scan_symbolIndexes (scanned ss)) i = symbol_index ss i"
  by (simp add: scanned_def js_map_get_def symbol_index_def)

lemma word_of_location_eq: "word_of_location l = a \<longleftrightarrow>
    loc_surah l = wa_surah a \<and> loc_ayah l = wa_ayah a \<and> loc_word l = wa_word a"
  by (cases a) (auto simp: word_of_location_def)

definition reference_ok :: "quran_symbol list \<Rightarrow> quran_word \<Rightarrow> jstring \<Rightarrow> bool" where
  "reference_ok ss w i \<longleftrightarrow> (case symbol_index ss i of None \<Rightarrow> False
     | Some k \<Rightarrow> word_of_location (sym_location (ss ! k)) = word_location w)"

lemma scan_reference_iff:
  assumes "distinct (map sym_id ss)"
  shows "scan_reference (scanned ss) w (ref, prev) i = Inr st' \<longleftrightarrow>
     reference_ok ss w i \<and> prev < int (the (symbol_index ss i)) \<and> i \<notin> set ref
     \<and> st' = (ref @ [i], int (the (symbol_index ss i)))"
proof (cases "symbol_index ss i")
  case None
  then show ?thesis by (simp add: scan_reference_def reference_ok_def scanned_symbolsById [OF assms])
next
  case (Some k)
  then show ?thesis
    by (auto simp: scan_reference_def reference_ok_def scanned_symbolsById [OF assms]
        scanned_symbolIndexes word_of_location_eq Let_def js_set_add_def)
qed

lemma scan_references_iff:
  assumes "distinct (map sym_id ss)" "distinct ref"
  shows "for_each (scan_reference (scanned ss) w) (ref, prev) is = Inr (ref', p') \<longleftrightarrow>
     list_all (reference_ok ss w) is
     \<and> sorted_wrt (<) (prev # map (\<lambda>i. int (the (symbol_index ss i))) is)
     \<and> distinct (ref @ is) \<and> ref' = ref @ is
     \<and> p' = last (prev # map (\<lambda>i. int (the (symbol_index ss i))) is)"
  using assms(2)
proof (induction "is" arbitrary: ref prev)
  case (Cons i "is")
  let ?k = "int (the (symbol_index ss i))"
  show ?case
  proof (cases "i \<in> set ref")
    case True
    then show ?thesis by (auto simp: ebind_Inr_iff scan_reference_iff [OF assms(1)])
  next
    case False
    with Cons.prems have "distinct (ref @ [i])" by simp
    from Cons.IH [OF this, of ?k] False show ?thesis
      by (auto simp: ebind_Inr_iff scan_reference_iff [OF assms(1)] sorted_wrt2_simps)
        (metis of_nat_less_iff order_less_trans)
  qed
qed auto

definition words_scanned :: "quran_word list \<Rightarrow> word_scan" where
  "words_scanned ws = \<lparr>scan_wordsById = map word_id ws,
     scan_referenced = concat (map word_symbolIds ws),
     scan_previousWord = (if ws = [] then None else Some (last ws))\<rparr>"

lemma word_resolves_iff:
  "word_resolves ss w \<longleftrightarrow> list_all (reference_ok ss w) (word_symbolIds w)
     \<and> sorted_wrt (<) (-1 # map (\<lambda>i. int (the (symbol_index ss i))) (word_symbolIds w))"
  unfolding word_resolves_def reference_ok_def by (auto simp: sorted_wrt_map)

lemma scan_word_iff:
  assumes "distinct (map sym_id ss)" "distinct (concat (map word_symbolIds ws))"
  shows "scan_word (scanned ss) (words_scanned ws) v = Inr st' \<longleftrightarrow>
     word_typed v \<and> wf_word (read_word v) \<and> word_id (read_word v) \<notin> set (map word_id ws)
     \<and> (ws \<noteq> [] \<longrightarrow> word_location (last ws) < word_location (read_word v))
     \<and> word_resolves ss (read_word v)
     \<and> distinct (concat (map word_symbolIds (ws @ [read_word v])))
     \<and> st' = words_scanned (ws @ [read_word v])"
proof -
  have inner: "(case p of (r, _) \<Rightarrow> Inr (g r)) = Inr (st' :: word_scan) \<longleftrightarrow> g (fst p) = st'"
    for p :: "jstring js_set \<times> int" and g by (cases p) simp
  show ?thesis
    using scan_references_iff [OF assms, of "read_word v" "-1" "word_symbolIds (read_word v)"]
    by (auto simp: scan_word_def words_scanned_def ebind_Inr_iff validateWord_iff Let_def
        word_resolves_iff word_location_ge_iff js_set_add_def inner
        simp del: sorted_wrt.simps split: if_splits)
qed


lemma scan_words_iff:
  assumes "distinct (map sym_id ss)"
    and "distinct (map word_id ws)" "sorted_wrt (<) (map word_location ws)"
    and "distinct (concat (map word_symbolIds ws))"
  shows "for_each (scan_word (scanned ss)) (words_scanned ws) vs = Inr st' \<longleftrightarrow>
     list_all word_typed vs \<and> list_all wf_word (map read_word vs)
     \<and> list_all (word_resolves ss) (map read_word vs)
     \<and> distinct (map word_id (ws @ map read_word vs))
     \<and> sorted_wrt (<) (map word_location (ws @ map read_word vs))
     \<and> distinct (concat (map word_symbolIds (ws @ map read_word vs)))
     \<and> st' = words_scanned (ws @ map read_word vs)"
  using assms(2-)
proof (induction vs arbitrary: ws)
  case (Cons v vs)
  let ?w = "read_word v"
  note step = scan_word_iff [OF assms(1) Cons.prems(3)]
  show ?case
  proof (cases "word_id ?w \<notin> set (map word_id ws) \<and> (ws \<noteq> [] \<longrightarrow> word_location (last ws) < word_location ?w)
      \<and> distinct (concat (map word_symbolIds (ws @ [?w])))")
    case True
    then have "distinct (map word_id (ws @ [?w]))" "sorted_wrt (<) (map word_location (ws @ [?w]))"
        "distinct (concat (map word_symbolIds (ws @ [?w])))"
      using Cons.prems by (auto simp: sorted_wrt_snoc_iff last_map)
    from Cons.IH [OF this] True show ?thesis
      by (auto simp: ebind_Inr_iff step)
  next
    case False
    then have "scan_word (scanned ss) (words_scanned ws) v \<noteq> Inr t" for t
      unfolding step by blast
    then have "for_each (scan_word (scanned ss)) (words_scanned ws) (v # vs) \<noteq> Inr st'"
      by (simp add: ebind_Inr_iff)
    moreover have "\<not> (distinct (map word_id (ws @ map read_word (v # vs)))
        \<and> sorted_wrt (<) (map word_location (ws @ map read_word (v # vs)))
        \<and> distinct (concat (map word_symbolIds (ws @ map read_word (v # vs)))))"
      using False by (auto simp: sorted_wrt_append)
    ultimately show ?thesis by blast
  qed
qed auto

lemma missing_symbols_iff:
  "for_each (\<lambda>_ s. if sym_id (read_symbol s) \<notin> set ref then fail m else Inr ()) () vs = Inr u
     \<longleftrightarrow> set (map sym_id (map read_symbol vs)) \<subseteq> set ref"
  by (induction vs) (auto simp: ebind_Inr_iff)

lemma validateCorpus_Inr_iff:
  "validateCorpus v = Inr u \<longleftrightarrow> corpus_typed v \<and> wf_corpus (read_corpus v)"
proof -
  let ?ss = "map read_symbol (the_elems (js_get v ''symbols''))"
  have init: "\<lparr>scan_symbolsById = [], scan_symbolIndexes = [], scan_previousSymbol = None\<rparr> = scanned []"
      "\<lparr>scan_wordsById = [], scan_referenced = [], scan_previousWord = None\<rparr> = words_scanned []"
    by (simp_all add: scanned_def words_scanned_def)
  have ref: "scan_referenced (words_scanned ws) = concat (map word_symbolIds ws)" for ws
    by (simp add: words_scanned_def)
  note syms = scan_symbols_iff [of "[]", simplified]
  note wrds = scan_words_iff [of ?ss "[]", simplified]
  show ?thesis
    unfolding validateCorpus_def init corpus_typed_def wf_corpus_def wf_symbols_def wf_words_def
    by (auto simp: ebind_Inr_iff requireNonEmptyString_iff syms wrds missing_symbols_iff
        read_corpus_def ref simp del: set_concat)
qed


section \<open>What well-formedness gives\<close>

text \<open>
  Every symbol belongs to the word of its own address, words and symbols are in the same
  order, and no symbol is left over or shared: so the words list the symbols in order.
\<close>

lemma strict_sorted_nats:
  assumes "sorted_wrt (<) xs" "set xs = {0..<n}"
  shows "xs = [0..<n]"
  by (rule sorted_distinct_set_unique)
    (use assms in \<open>auto simp: strict_sorted_iff\<close>)

lemma location_order_index:
  assumes "sorted_wrt (<) (map sym_location ss)" "j < length ss" "k < length ss"
    "sym_location (ss ! j) < sym_location (ss ! k)"
  shows "j < k"
proof (rule ccontr)
  assume "\<not> j < k"
  then consider "j = k" | "k < j" by linarith
  then show False
  proof cases
    case 2
    with assms(1,2) have "sym_location (ss ! k) < sym_location (ss ! j)"
      by (auto simp: sorted_wrt_map sorted_wrt_iff_nth_less)
    with assms(4) show False by simp
  qed (use assms(4) in simp)
qed

lemma resolvesD:
  assumes "word_resolves ss w" "i \<in> set (word_symbolIds w)"
  obtains k where "symbol_index ss i = Some k" "k < length ss" "sym_id (ss ! k) = i"
    "word_of_location (sym_location (ss ! k)) = word_location w"
  using assms by (auto simp: word_resolves_def list_all_iff split: option.splits
      dest!: bspec dest: symbol_index_Some)

lemma concat_indexes_sorted:
  assumes "sorted_wrt (<) (map sym_location ss)"
    and "sorted_wrt (<) (map word_location ws)" "list_all (word_resolves ss) ws"
  shows "sorted_wrt (<) (map (\<lambda>i. the (symbol_index ss i)) (concat (map word_symbolIds ws)))"
  using assms(2,3)
proof (induction ws)
  case (Cons w ws)
  have "the (symbol_index ss i) < the (symbol_index ss j)"
    if i: "i \<in> set (word_symbolIds w)" and w': "w' \<in> set ws" and j: "j \<in> set (word_symbolIds w')" for i j w'
  proof -
    from Cons.prems i obtain k where k: "symbol_index ss i = Some k" "k < length ss"
        "word_of_location (sym_location (ss ! k)) = word_location w"
      by (auto elim: resolvesD)
    from Cons.prems(2) w' have "word_resolves ss w'" by (simp add: list_all_iff)
    from this j obtain l where l: "symbol_index ss j = Some l" "l < length ss"
        "word_of_location (sym_location (ss ! l)) = word_location w'"
      by (rule resolvesD)
    from Cons.prems(1) w' have "word_location w < word_location w'" by simp
    with k l have "sym_location (ss ! k) < sym_location (ss ! l)"
      by (intro word_of_location_less) simp
    with assms(1) k l show ?thesis by (simp add: location_order_index)
  qed
  with Cons show ?case
    by (auto simp: sorted_wrt_append word_resolves_def)
qed simp

lemma words_list_symbols:
  assumes "wf_corpus c"
  shows "concat (map word_symbolIds (corpus_words c)) = map sym_id (corpus_symbols c)"
proof -
  let ?ss = "corpus_symbols c" and ?ids = "concat (map word_symbolIds (corpus_words c))"
  let ?idx = "\<lambda>i. the (symbol_index ?ss i)"
  from assms have ss: "distinct (map sym_id ?ss)" "sorted_wrt (<) (map sym_location ?ss)"
    and ws: "sorted_wrt (<) (map word_location (corpus_words c))"
      "list_all (word_resolves ?ss) (corpus_words c)"
    and cover: "set (map sym_id ?ss) \<subseteq> set ?ids"
    by (auto simp: wf_corpus_def wf_symbols_def wf_words_def)
  have id: "?idx i < length ?ss \<and> sym_id (?ss ! ?idx i) = i" if "i \<in> set ?ids" for i
    using that ws(2) by (auto simp: list_all_iff elim!: resolvesD)
  have "k \<in> ?idx ` set ?ids" if "k < length ?ss" for k
  proof -
    from that have "sym_id (?ss ! k) \<in> set (map sym_id ?ss)" by simp
    with cover have "sym_id (?ss ! k) \<in> set ?ids" by blast
    moreover from symbol_index_nth [OF ss(1) that] have "?idx (sym_id (?ss ! k)) = k" by simp
    ultimately show ?thesis by force
  qed
  with id have "set (map ?idx ?ids) = {0..<length ?ss}" by (auto simp del: set_concat)
  with concat_indexes_sorted [OF ss(2) ws] have "map ?idx ?ids = [0..<length ?ss]"
    by (intro strict_sorted_nats)
  then have "map (\<lambda>k. sym_id (?ss ! k)) (map ?idx ?ids) = map (\<lambda>k. sym_id (?ss ! k)) [0..<length ?ss]"
    by simp
  moreover have "map (\<lambda>k. sym_id (?ss ! k)) [0..<length ?ss] = map sym_id ?ss"
    by (rule nth_equalityI) auto
  moreover have "map (\<lambda>k. sym_id (?ss ! k)) (map ?idx ?ids) = ?ids"
    unfolding map_map by (rule map_idI) (use id in \<open>simp del: set_concat\<close>)
  ultimately show ?thesis by simp
qed

section \<open>A sample corpus\<close>

text \<open>Four symbols, three words, two ayahs; the concrete input of the witnesses.\<close>

definition js_location :: "int \<Rightarrow> int \<Rightarrow> int \<Rightarrow> int \<Rightarrow> js" where
  "js_location s a w n = JObj [(''surah'', js_int s), (''ayah'', js_int a), (''word'', js_int w),
     (''symbol'', js_int n)]"

definition js_symbol :: "string \<Rightarrow> string \<Rightarrow> js \<Rightarrow> js" where
  "js_symbol i p l = JObj [(''id'', js_string i), (''text'', js_string p), (''phoneme'', js_string p),
     (''location'', l)]"

definition js_word :: "string \<Rightarrow> string list \<Rightarrow> int \<Rightarrow> int \<Rightarrow> int \<Rightarrow> js" where
  "js_word i ids s a w = JObj [(''id'', js_string i), (''text'', js_string i),
     (''symbolIds'', JArr (map js_string ids)),
     (''location'', JObj [(''surah'', js_int s), (''ayah'', js_int a), (''word'', js_int w)])]"

definition sample_corpus :: js where
  "sample_corpus = JObj [(''corpusId'', js_string ''c''), (''revision'', js_string ''1''),
     (''symbols'', JArr [js_symbol ''s1'' ''b'' (js_location 1 1 1 1), js_symbol ''s2'' ''a'' (js_location 1 1 1 2),
        js_symbol ''s3'' ''l'' (js_location 1 1 2 1), js_symbol ''s4'' ''h'' (js_location 1 2 1 1)]),
     (''words'', JArr [js_word ''w1'' [''s1'', ''s2''] 1 1 1, js_word ''w2'' [''s3''] 1 1 2,
        js_word ''w3'' [''s4''] 1 2 1])]"

lemma sample_corpus_valid: "validateCorpus sample_corpus = Inr ()"
  by code_simp

section \<open>Properties\<close>

text \<open>C1: \<open>validateCorpus\<close> accepts a value exactly when it has the shape of a corpus and the
  corpus it describes is well formed: non-blank identifiers and texts, positive safe-integer
  locations, distinct symbol and word identifiers, strictly increasing symbol and word
  locations, every word listing existing symbols of its own location in increasing order,
  and every symbol listed by some word.\<close>

theorem validateCorpus_decides_wf:
  "validateCorpus v = Inr () \<longleftrightarrow> corpus_typed v \<and> wf_corpus (read_corpus v)"
  by (rule validateCorpus_Inr_iff)

text \<open>The checks of \<open>validateCorpus\<close> are local (one symbol or word at a time against what
  was seen before), yet together they force the words, read in order, to list the symbols
  exactly once each and in corpus order.\<close>

theorem validated_words_list_symbols:
  assumes "validateCorpus v = Inr ()"
  shows "concat (map word_symbolIds (corpus_words (read_corpus v)))
      = map sym_id (corpus_symbols (read_corpus v))"
  using assms validateCorpus_Inr_iff words_list_symbols by blast

theorem validated_words_list_symbols_witness:
  "concat (map word_symbolIds (corpus_words (read_corpus sample_corpus)))
     = map sym_id (corpus_symbols (read_corpus sample_corpus))"
  using validated_words_list_symbols [OF sample_corpus_valid] .

end
