(* ===== verification/Corpus_Index.thy ===== *)
theory Corpus_Index
  imports Corpus_Validate
begin

text \<open>
  \<open>indexCorpus\<close> of \<open>packages/core/src/corpus/index-corpus.ts\<close>: the read-only lookup tables of
  a validated corpus, and the proofs that each table is what its name says: a word's range
  holds exactly its symbols, an ayah's range exactly the symbols of the ayah, and the posting
  list of an n-gram key exactly the places where the key occurs, in increasing order.
\<close>

section \<open>The tables\<close>

record indexed_corpus =
  ix_symbolsById :: "(jstring, quran_symbol) js_map"
  ix_wordsById :: "(jstring, quran_word) js_map"
  ix_symbols :: "quran_symbol list"
  ix_wordSymbolRanges :: "(jstring, corpus_range) js_map"
  ix_ayahSymbolRanges :: "(jstring, corpus_range) js_map"
  ix_phonemeNgramPostings :: "(jstring, nat list) js_map"

definition freezeRange :: "nat \<Rightarrow> nat \<Rightarrow> corpus_range" where
  "freezeRange s e = \<lparr>range_start = s, range_end = e\<rparr>"

definition copySymbol :: "quran_symbol \<Rightarrow> quran_symbol" where
  "copySymbol s = \<lparr>sym_id = sym_id s, sym_text = sym_text s, sym_phoneme = sym_phoneme s,
     sym_location = \<lparr>loc_surah = loc_surah (sym_location s), loc_ayah = loc_ayah (sym_location s),
       loc_word = loc_word (sym_location s), loc_symbol = loc_symbol (sym_location s)\<rparr>\<rparr>"

definition copyWord :: "quran_word \<Rightarrow> quran_word" where
  "copyWord w = \<lparr>word_id = word_id w, word_text = word_text w, word_symbolIds = word_symbolIds w,
     word_location = \<lparr>wa_surah = wa_surah (word_location w), wa_ayah = wa_ayah (word_location w),
       wa_word = wa_word (word_location w)\<rparr>\<rparr>"

lemma copySymbol_id [simp]: "copySymbol s = s"
  by (simp add: copySymbol_def)

lemma copyWord_id [simp]: "copyWord w = w"
  by (simp add: copyWord_def)

lemma map_copySymbol [simp]: "map copySymbol ss = ss"
  by (simp add: map_idI)

lemma map_copyWord [simp]: "map copyWord ws = ws"
  by (simp add: map_idI)

text \<open>\<open>values.join(separator)\<close>.\<close>

fun js_join :: "jstring \<Rightarrow> jstring list \<Rightarrow> jstring" where
  "js_join sep [] = []"
| "js_join sep [x] = x"
| "js_join sep (x # y # xs) = x @ sep @ js_join sep (y # xs)"

definition ngram_key :: "quran_symbol list \<Rightarrow> nat \<Rightarrow> nat \<Rightarrow> jstring" where
  "ngram_key ss start n = js_join [32] (map sym_phoneme (take n (drop start ss)))"

definition add_posting ::
  "quran_symbol list \<Rightarrow> (jstring, nat list) js_map \<Rightarrow> nat \<times> nat \<Rightarrow> (jstring, nat list) js_map" where
  "add_posting ss postings p = (case p of (start, n) \<Rightarrow>
     let key = ngram_key ss start n in
     case js_map_get postings key of
       Some positions \<Rightarrow> js_map_set key (positions @ [start]) postings
     | None \<Rightarrow> js_map_set key [start] postings)"

text \<open>The iterations of the two nested loops, in their order.\<close>

definition ngram_iterations :: "nat \<Rightarrow> (nat \<times> nat) list" where
  "ngram_iterations symbolCount =
     concat (map (\<lambda>start. map (\<lambda>n. (start, n)) [1..<Suc (min 3 (symbolCount - start))]) [0..<symbolCount])"

definition addNgramPostings :: "quran_symbol list \<Rightarrow> (jstring, nat list) js_map" where
  "addNgramPostings ss = js_map_of (foldl (add_posting ss) [] (ngram_iterations (length ss)))"

text \<open>A number in a template literal.\<close>

definition int_string :: "int \<Rightarrow> jstring" where
  "int_string n = (if n < 0 then 45 # dec (nat (- n)) else dec (nat n))"

definition ayah_key :: "quran_location \<Rightarrow> jstring" where
  "ayah_key l = int_string (loc_surah l) @ 58 # int_string (loc_ayah l)"

definition same_ayah :: "quran_symbol \<Rightarrow> quran_symbol \<Rightarrow> bool" where
  "same_ayah s t \<longleftrightarrow> loc_surah (sym_location s) = loc_surah (sym_location t)
     \<and> loc_ayah (sym_location s) = loc_ayah (sym_location t)"

function ayah_end :: "quran_symbol list \<Rightarrow> quran_symbol \<Rightarrow> nat \<Rightarrow> nat" where
  "ayah_end ss first e =
     (if e < length ss \<and> same_ayah (ss ! e) first then ayah_end ss first (e + 1) else e)"
  by pat_completeness auto
termination
  by (relation "measure (\<lambda>(ss, first, e). length ss - e)") auto

declare ayah_end.simps [simp del]

lemma ayah_end_ge: "e \<le> ayah_end ss first e"
proof (induction ss first e rule: ayah_end.induct)
  case (1 ss first e)
  then show ?case by (subst ayah_end.simps) (auto dest: Suc_leD)
qed

lemma ayah_end_progress:
  "start < length ss \<Longrightarrow> length ss - ayah_end ss first (Suc start) < length ss - start"
  using ayah_end_ge [of "Suc start" ss first] by linarith

function ayah_ranges ::
  "quran_symbol list \<Rightarrow> nat \<Rightarrow> (jstring, corpus_range) js_map \<Rightarrow> (jstring, corpus_range) js_map" where
  "ayah_ranges ss start m =
     (if start < length ss then
        let first = ss ! start; e = ayah_end ss first (start + 1)
        in ayah_ranges ss e (js_map_set (ayah_key (sym_location first)) (freezeRange start e) m)
      else m)"
  by pat_completeness auto
termination
  by (relation "measure (\<lambda>(ss, start, m). length ss - start)") (auto simp: ayah_end_progress)

declare ayah_ranges.simps [simp del]

definition word_range :: "(jstring, nat) js_map \<Rightarrow> quran_word \<Rightarrow> corpus_range" where
  "word_range indexes w =
     freezeRange (the (js_map_get indexes (hd (word_symbolIds w))))
       (the (js_map_get indexes (last (word_symbolIds w))) + 1)"

definition build_index :: "quran_corpus \<Rightarrow> indexed_corpus" where
  "build_index c =
     (let ss = map copySymbol (corpus_symbols c);
          ws = map copyWord (corpus_words c);
          indexes = js_map_of (zip (map sym_id ss) [0..<length ss])
      in \<lparr>ix_symbolsById = js_map_of (map (\<lambda>s. (sym_id s, s)) ss),
          ix_wordsById = js_map_of (map (\<lambda>w. (word_id w, w)) ws),
          ix_symbols = ss,
          ix_wordSymbolRanges = js_map_of (map (\<lambda>w. (word_id w, word_range indexes w)) ws),
          ix_ayahSymbolRanges = js_map_of (ayah_ranges ss 0 []),
          ix_phonemeNgramPostings = addNgramPostings ss\<rparr>)"

definition indexCorpus :: "js \<Rightarrow> js_error + indexed_corpus" where
  "indexCorpus v = ebind (validateCorpus v) (\<lambda>_. Inr (build_index (read_corpus v)))"


section \<open>Word ranges\<close>

text \<open>The position of the first symbol of the \<open>k\<close>-th word.\<close>

definition word_offset :: "quran_corpus \<Rightarrow> nat \<Rightarrow> nat" where
  "word_offset c k = length (concat (map word_symbolIds (take k (corpus_words c))))"

lemma word_offset_0 [simp]: "word_offset c 0 = 0"
  by (simp add: word_offset_def)

lemma word_offset_Suc:
  "k < length (corpus_words c) \<Longrightarrow>
     word_offset c (Suc k) = word_offset c k + length (word_symbolIds (corpus_words c ! k))"
  by (simp add: word_offset_def take_Suc_conv_app_nth)

lemma word_offset_end:
  "wf_corpus c \<Longrightarrow> word_offset c (length (corpus_words c)) = length (corpus_symbols c)"
  by (simp add: word_offset_def words_list_symbols)

lemma word_offset_mono: "j \<le> k \<Longrightarrow> word_offset c j \<le> word_offset c k"
  unfolding word_offset_def
  by (metis append_take_drop_id concat_append le_add1 length_append map_append min.absorb1 take_take)

lemma word_symbols_at:
  assumes "wf_corpus c" "k < length (corpus_words c)" "j < length (word_symbolIds (corpus_words c ! k))"
  shows "word_offset c k + j < length (corpus_symbols c)
    \<and> sym_id (corpus_symbols c ! (word_offset c k + j)) = word_symbolIds (corpus_words c ! k) ! j"
proof -
  let ?w = "corpus_words c ! k"
  have split: "map sym_id (corpus_symbols c) = concat (map word_symbolIds (take k (corpus_words c)))
      @ word_symbolIds ?w @ concat (map word_symbolIds (drop (Suc k) (corpus_words c)))"
    unfolding words_list_symbols [OF assms(1), symmetric]
    by (subst id_take_nth_drop [OF assms(2)]) simp
  from arg_cong [OF split, of length] assms(3)
  have len: "word_offset c k + j < length (corpus_symbols c)" by (simp add: word_offset_def)
  from arg_cong [OF split, of "\<lambda>xs. xs ! (word_offset c k + j)"] assms(3) len
  show ?thesis by (simp add: word_offset_def nth_append)
qed

lemma word_range_offsets:
  assumes "wf_corpus c" "k < length (corpus_words c)"
  shows "word_range (js_map_of (zip (map sym_id (corpus_symbols c)) [0..<length (corpus_symbols c)]))
      (corpus_words c ! k) = freezeRange (word_offset c k) (word_offset c (Suc k))"
proof -
  let ?w = "corpus_words c ! k" and ?ss = "corpus_symbols c"
  from assms have ne: "word_symbolIds ?w \<noteq> []" and dist: "distinct (map sym_id ?ss)"
    by (auto simp: wf_corpus_def wf_words_def wf_symbols_def wf_word_def list_all_iff)
  have idx: "js_map_get (js_map_of (zip (map sym_id ?ss) [0..<length ?ss])) (word_symbolIds ?w ! j)
      = Some (word_offset c k + j)" if "j < length (word_symbolIds ?w)" for j
  proof -
    from word_symbols_at [OF assms that]
    have "word_offset c k + j < length ?ss"
        "word_symbolIds ?w ! j = sym_id (?ss ! (word_offset c k + j))" by simp_all
    with symbol_index_nth [OF dist] dist show ?thesis
      by (simp add: js_map_get_js_map_of symbol_index_def)
  qed
  show ?thesis
    using idx [of 0] idx [of "length (word_symbolIds ?w) - 1"] ne assms(2)
    by (cases "length (word_symbolIds ?w)") (auto simp: word_range_def hd_conv_nth last_conv_nth word_offset_Suc)
qed

text \<open>
  The ranges of the words, in order, tile the symbols: each starts where the one before ends.
\<close>

lemma build_index_word_ranges:
  assumes "wf_corpus c" "k < length (corpus_words c)"
  shows "js_map_get (ix_wordSymbolRanges (build_index c)) (word_id (corpus_words c ! k))
      = Some (freezeRange (word_offset c k) (word_offset c (Suc k)))"
proof -
  let ?f = "\<lambda>w. (word_id w, word_range (js_map_of (zip (map sym_id (corpus_symbols c))
      [0..<length (corpus_symbols c)])) w)"
  from assms have "distinct (map fst (map ?f (corpus_words c)))"
    by (auto simp: wf_corpus_def wf_words_def comp_def)
  moreover from assms(2) have "?f (corpus_words c ! k) \<in> set (map ?f (corpus_words c))" by auto
  ultimately have "map_of (map ?f (corpus_words c)) (word_id (corpus_words c ! k))
      = Some (word_range (js_map_of (zip (map sym_id (corpus_symbols c))
          [0..<length (corpus_symbols c)])) (corpus_words c ! k))"
    by (intro map_of_is_SomeI) auto
  with \<open>distinct (map fst (map ?f (corpus_words c)))\<close> show ?thesis
    by (simp add: build_index_def Let_def js_map_get_js_map_of word_range_offsets [OF assms] comp_def)
qed


section \<open>Ayah ranges\<close>

lemma ayah_key_inject:
  assumes "wf_symbol s" "wf_symbol t"
  shows "ayah_key (sym_location s) = ayah_key (sym_location t) \<longleftrightarrow> same_ayah s t"
proof -
  have "unat (58 :: 16 word) < 48 \<or> 58 \<le> unat (58 :: 16 word)" by simp
  note pair = dec_pair_inject [OF this]
  from assms show ?thesis
    by (auto simp: ayah_key_def int_string_def same_ayah_def wf_symbol_def positive_safe_def pair)
qed

lemma ayah_between:
  "l \<le> m \<Longrightarrow> m \<le> (r :: quran_location) \<Longrightarrow> loc_surah l = loc_surah r \<Longrightarrow> loc_ayah l = loc_ayah r
     \<Longrightarrow> loc_surah m = loc_surah r \<and> loc_ayah m = loc_ayah r"
  by (auto simp: less_eq_quran_location_ext_def location_key_def)

lemma sorted_locations_nth:
  "sorted_wrt (<) (map sym_location ss) \<Longrightarrow> i \<le> j \<Longrightarrow> j < length ss
     \<Longrightarrow> sym_location (ss ! i) \<le> sym_location (ss ! j)"
  by (cases "i = j") (auto simp: sorted_wrt_map sorted_wrt_iff_nth_less less_imp_le)

lemma same_ayah_between:
  assumes "sorted_wrt (<) (map sym_location ss)" "i \<le> j" "j \<le> k" "k < length ss"
    "same_ayah (ss ! i) (ss ! k)"
  shows "same_ayah (ss ! j) (ss ! k)"
  using ayah_between [OF sorted_locations_nth [OF assms(1,2)] sorted_locations_nth [OF assms(1,3)]] assms
  by (simp add: same_ayah_def)

lemma same_ayah_sym: "same_ayah s t \<longleftrightarrow> same_ayah t s"
  by (auto simp: same_ayah_def)

lemma same_ayah_trans: "same_ayah s t \<Longrightarrow> same_ayah t u \<Longrightarrow> same_ayah s u"
  by (auto simp: same_ayah_def)

lemma same_ayah_refl [simp]: "same_ayah s s"
  by (simp add: same_ayah_def)

lemma ayah_end_spec:
  assumes "e \<le> length ss"
  shows "ayah_end ss first e \<le> length ss
    \<and> (\<forall>j. e \<le> j \<and> j < ayah_end ss first e \<longrightarrow> same_ayah (ss ! j) first)
    \<and> (ayah_end ss first e < length ss \<longrightarrow> \<not> same_ayah (ss ! ayah_end ss first e) first)"
  using assms
proof (induction ss first e rule: ayah_end.induct)
  case (1 ss first e)
  show ?case
  proof (cases "e < length ss \<and> same_ayah (ss ! e) first")
    case True
    then have "ayah_end ss first e = ayah_end ss first (e + 1)" by (subst ayah_end.simps) simp
    moreover have "same_ayah (ss ! j) first" if "e \<le> j" "j < ayah_end ss first (e + 1)" for j
      using True 1 that by (cases "j = e") auto
    ultimately show ?thesis using True 1 by auto
  next
    case False
    then have "ayah_end ss first e = e" by (subst ayah_end.simps) auto
    with False 1 show ?thesis by auto
  qed
qed

text \<open>A range that holds exactly the symbols of one symbol's ayah.\<close>

definition ayah_exact :: "quran_symbol list \<Rightarrow> corpus_range \<Rightarrow> nat \<Rightarrow> bool" where
  "ayah_exact ss r i \<longleftrightarrow> range_end r \<le> length ss \<and> (\<forall>j < length ss.
     (range_start r \<le> j \<and> j < range_end r) \<longleftrightarrow> same_ayah (ss ! j) (ss ! i))"

lemma ayah_block:
  assumes "sorted_wrt (<) (map sym_location ss)" "start < length ss"
    "\<forall>j < start. \<not> same_ayah (ss ! j) (ss ! start)"
    "start \<le> i" "i < ayah_end ss (ss ! start) (start + 1)"
  shows "same_ayah (ss ! i) (ss ! start)
    \<and> ayah_exact ss (freezeRange start (ayah_end ss (ss ! start) (start + 1))) i"
proof -
  let ?e = "ayah_end ss (ss ! start) (start + 1)"
  have spec: "?e \<le> length ss" "\<And>j. start < j \<Longrightarrow> j < ?e \<Longrightarrow> same_ayah (ss ! j) (ss ! start)"
      "?e < length ss \<Longrightarrow> \<not> same_ayah (ss ! ?e) (ss ! start)"
    using ayah_end_spec [of "start + 1" ss "ss ! start"] assms(2) by (auto simp: Suc_le_eq)
  have in_block: "same_ayah (ss ! j) (ss ! start)" if "start \<le> j" "j < ?e" for j
    using that spec(2) by (cases "j = start") auto
  have after: "\<not> same_ayah (ss ! j) (ss ! start)" if "?e \<le> j" "j < length ss" for j
  proof
    assume "same_ayah (ss ! j) (ss ! start)"
    then have "same_ayah (ss ! start) (ss ! j)" by (simp add: same_ayah_sym)
    from same_ayah_between [OF assms(1) _ that(1,2) this] ayah_end_ge [of "start + 1" ss "ss ! start"]
    have "same_ayah (ss ! ?e) (ss ! j)" by simp
    with \<open>same_ayah (ss ! j) (ss ! start)\<close> spec(3) that show False
      by (auto dest: same_ayah_trans)
  qed
  have "(start \<le> j \<and> j < ?e) \<longleftrightarrow> same_ayah (ss ! j) (ss ! start)" if "j < length ss" for j
    using in_block after assms(3) that by (meson not_le)
  moreover have i: "same_ayah (ss ! i) (ss ! start)" using in_block assms(4,5) .
  ultimately show ?thesis
    using spec(1) by (auto simp: ayah_exact_def freezeRange_def dest: same_ayah_trans
        intro: same_ayah_trans [OF _ same_ayah_sym [THEN iffD1]])
qed

lemma ayah_ranges_spec:
  assumes "list_all wf_symbol ss" "sorted_wrt (<) (map sym_location ss)" "start \<le> length ss"
    "\<forall>j < start. \<forall>i \<ge> start. i < length ss \<longrightarrow> \<not> same_ayah (ss ! j) (ss ! i)"
  shows "(\<forall>i. start \<le> i \<and> i < length ss \<longrightarrow> (\<exists>r. js_map_get (ayah_ranges ss start m)
        (ayah_key (sym_location (ss ! i))) = Some r \<and> ayah_exact ss r i))
    \<and> (\<forall>key. (\<forall>i. start \<le> i \<and> i < length ss \<longrightarrow> key \<noteq> ayah_key (sym_location (ss ! i)))
        \<longrightarrow> js_map_get (ayah_ranges ss start m) key = js_map_get m key)
    \<and> (distinct (map fst m) \<longrightarrow> distinct (map fst (ayah_ranges ss start m)))"
  using assms
proof (induction ss start m rule: ayah_ranges.induct)
  case (1 ss start m)
  show ?case
  proof (cases "start < length ss")
    case False
    then have "ayah_ranges ss start m = m" by (subst ayah_ranges.simps) simp
    with False show ?thesis by auto
  next
    case True
    let ?e = "ayah_end ss (ss ! start) (start + 1)" and ?k = "\<lambda>i. ayah_key (sym_location (ss ! i))"
    let ?m = "js_map_set (?k start) (freezeRange start ?e) m"
    have unfold: "ayah_ranges ss start m = ayah_ranges ss ?e ?m"
      using True by (subst ayah_ranges.simps) (simp add: Let_def)
    have key: "?k i = ?k j \<longleftrightarrow> same_ayah (ss ! i) (ss ! j)" if "i < length ss" "j < length ss" for i j
      using that "1.prems"(1) by (intro ayah_key_inject) (auto simp: list_all_length)
    have block: "same_ayah (ss ! i) (ss ! start) \<and> ayah_exact ss (freezeRange start ?e) i"
      if "start \<le> i" "i < ?e" for i
      using ayah_block [OF "1.prems"(2) True _ that] "1.prems"(4) True by blast
    have e: "?e \<le> length ss" "start < ?e"
      using ayah_end_spec [of "start + 1" ss "ss ! start"] ayah_end_ge [of "start + 1" ss "ss ! start"] True
      by auto
    have later: "\<not> same_ayah (ss ! j) (ss ! i)" if "j < ?e" "?e \<le> i" "i < length ss" for i j
    proof (cases "j < start")
      case True
      with "1.prems"(4) that e show ?thesis by auto
    next
      case False
      with block [of j] that show ?thesis
        by (auto simp: ayah_exact_def freezeRange_def same_ayah_sym)
    qed
    from "1.IH" [OF True refl refl "1.prems"(1,2) e(1)] later
    have IH: "\<And>i. ?e \<le> i \<Longrightarrow> i < length ss \<Longrightarrow>
          \<exists>r. js_map_get (ayah_ranges ss ?e ?m) (?k i) = Some r \<and> ayah_exact ss r i"
        "\<And>key. (\<And>i. ?e \<le> i \<Longrightarrow> i < length ss \<Longrightarrow> key \<noteq> ?k i) \<Longrightarrow>
          js_map_get (ayah_ranges ss ?e ?m) key = js_map_get ?m key"
        "distinct (map fst ?m) \<Longrightarrow> distinct (map fst (ayah_ranges ss ?e ?m))"
      by (simp_all add: Let_def)
    have here: "js_map_get (ayah_ranges ss ?e ?m) (?k i) = Some (freezeRange start ?e)"
      if "start \<le> i" "i < ?e" for i
    proof -
      have "?k i \<noteq> ?k i'" if "?e \<le> i'" "i' < length ss" for i'
        using key [of i i'] later [of i i'] that \<open>i < ?e\<close> e by auto
      moreover have "?k i = ?k start" using key [of i start] block [OF that] that e True by auto
      ultimately show ?thesis using IH(2) by simp
    qed
    show ?thesis
      unfolding unfold
    proof (intro conjI allI impI)
      fix i assume "start \<le> i \<and> i < length ss"
      then show "\<exists>r. js_map_get (ayah_ranges ss ?e ?m) (?k i) = Some r \<and> ayah_exact ss r i"
        using here block IH(1) by (cases "i < ?e") auto
    next
      fix key assume other: "\<forall>i. start \<le> i \<and> i < length ss \<longrightarrow> key \<noteq> ?k i"
      with e have "\<And>i. ?e \<le> i \<Longrightarrow> i < length ss \<Longrightarrow> key \<noteq> ?k i" by simp
      from IH(2) [OF this] other True
      show "js_map_get (ayah_ranges ss ?e ?m) key = js_map_get m key" by simp
    next
      assume "distinct (map fst m)"
      then show "distinct (map fst (ayah_ranges ss ?e ?m))" by (intro IH(3) distinct_js_map_set)
    qed
  qed
qed


lemma build_index_ayah_ranges:
  assumes "wf_corpus c" "i < length (corpus_symbols c)"
  shows "\<exists>r. js_map_get (ix_ayahSymbolRanges (build_index c))
      (ayah_key (sym_location (corpus_symbols c ! i))) = Some r \<and> ayah_exact (corpus_symbols c) r i"
proof -
  from assms(1) have "list_all wf_symbol (corpus_symbols c)"
      "sorted_wrt (<) (map sym_location (corpus_symbols c))"
    by (auto simp: wf_corpus_def wf_symbols_def)
  note spec = ayah_ranges_spec [OF this, of 0 "[]"]
  with assms(2) show ?thesis
    by (simp add: build_index_def Let_def comp_def js_map_of_distinct)
qed

section \<open>Posting lists\<close>

text \<open>The places where a key occurs, in increasing order.\<close>

definition occurs_at :: "quran_symbol list \<Rightarrow> jstring \<Rightarrow> nat \<Rightarrow> bool" where
  "occurs_at ss key s \<longleftrightarrow> (\<exists>n \<in> {1..3}. s + n \<le> length ss \<and> ngram_key ss s n = key)"

definition occurrences :: "quran_symbol list \<Rightarrow> jstring \<Rightarrow> nat list" where
  "occurrences ss key = filter (occurs_at ss key) [0..<length ss]"

lemma get_foldl_postings:
  "js_map_get (foldl (add_posting ss) m ps) key =
     (let new = map fst (filter (\<lambda>(s, n). ngram_key ss s n = key) ps)
      in case js_map_get m key of Some xs \<Rightarrow> Some (xs @ new)
         | None \<Rightarrow> if new = [] then None else Some new)"
proof (induction ps arbitrary: m)
  case (Cons p ps)
  obtain s n where "p = (s, n)" by force
  with Cons.IH [of "add_posting ss m p"] show ?case
    by (auto simp: add_posting_def Let_def split: option.splits)
qed (simp add: Let_def split: option.splits)

lemma distinct_foldl_postings:
  "distinct (map fst m) \<Longrightarrow> distinct (map fst (foldl (add_posting ss) m ps))"
  by (induction ps arbitrary: m)
    (auto simp: add_posting_def Let_def distinct_js_map_set split: prod.splits option.splits)

lemma length_js_join: "xs \<noteq> [] \<Longrightarrow> length (js_join [c] xs) + 1 = sum_list (map length xs) + length xs"
  by (induction "[c]" xs rule: js_join.induct) auto

lemma ngram_key_inject:
  assumes "1 \<le> n" "1 \<le> n'" "s + n \<le> length ss" "s + n' \<le> length ss" "ngram_key ss s n = ngram_key ss s n'"
  shows "n = n'"
proof -
  let ?xs = "\<lambda>n. map sym_phoneme (take n (drop s ss))"
  have len: "length (ngram_key ss s n) + 1 = sum_list (map length (?xs n)) + n"
    if "1 \<le> n" "s + n \<le> length ss" for n
    using length_js_join [of "?xs n" 32] that by (simp add: ngram_key_def)
  have mono: "sum_list (map length (?xs a)) \<le> sum_list (map length (?xs b))" if "a \<le> b" for a b
  proof -
    have "?xs b = ?xs a @ map sym_phoneme (drop a (take b (drop s ss)))"
      using that by (metis append_take_drop_id map_append min.absorb1 take_take)
    then show ?thesis by simp
  qed
  from len [OF assms(1,3)] len [OF assms(2,4)] assms(5) mono [of n n'] mono [of n' n]
  show ?thesis by (cases n n' rule: linorder_cases) simp_all
qed

lemma filter_at_most_one:
  assumes "distinct xs" "\<And>a b. a \<in> set xs \<Longrightarrow> b \<in> set xs \<Longrightarrow> P a \<Longrightarrow> P b \<Longrightarrow> a = b"
  shows "map (\<lambda>_. c) (filter P xs) = (if \<exists>x \<in> set xs. P x then [c] else [])"
proof -
  have "length (filter P xs) = (if \<exists>x \<in> set xs. P x then 1 else 0)"
    using assms
  proof (induction xs)
    case (Cons x xs)
    then show ?case by (cases "P x") (auto simp: filter_empty_conv)
  qed simp
  then show ?thesis by (auto simp: map_replicate_const filter_empty_conv)
qed

lemma concat_if_filter: "concat (map (\<lambda>x. if P x then [x] else []) xs) = filter P xs"
  by (induction xs) auto

lemma iterations_occurrences:
  "map fst (filter (\<lambda>(s, n). ngram_key ss s n = key) (ngram_iterations (length ss))) = occurrences ss key"
proof -
  have one: "map (\<lambda>_. s) (filter (\<lambda>n. ngram_key ss s n = key) [1..<Suc (min 3 (length ss - s))])
      = (if occurs_at ss key s then [s] else [])" if "s < length ss" for s
  proof -
    have mem: "n \<in> set [1..<Suc (min 3 (length ss - s))] \<longleftrightarrow> n \<in> {1..3} \<and> s + n \<le> length ss" for n
      using that by auto
    then have "(\<exists>n \<in> set [1..<Suc (min 3 (length ss - s))]. ngram_key ss s n = key) \<longleftrightarrow> occurs_at ss key s"
      by (simp only: occurs_at_def Bex_def) blast
    moreover have "n = n'" if "n \<in> set [1..<Suc (min 3 (length ss - s))]"
        "n' \<in> set [1..<Suc (min 3 (length ss - s))]" "ngram_key ss s n = key" "ngram_key ss s n' = key" for n n'
      using that mem by (intro ngram_key_inject [of n n' s ss]) auto
    ultimately show ?thesis by (subst filter_at_most_one) (simp_all del: upt_Suc set_upt)
  qed
  have "map fst (filter (\<lambda>(s, n). ngram_key ss s n = key) (ngram_iterations (length ss)))
      = concat (map (\<lambda>s. map (\<lambda>_. s) (filter (\<lambda>n. ngram_key ss s n = key)
          [1..<Suc (min 3 (length ss - s))])) [0..<length ss])"
    by (simp add: ngram_iterations_def filter_concat map_concat filter_map comp_def del: upt_Suc)
  also have "\<dots> = concat (map (\<lambda>s. if occurs_at ss key s then [s] else []) [0..<length ss])"
    using one by (intro arg_cong [where f = concat] map_cong) auto
  finally show ?thesis by (simp add: concat_if_filter occurrences_def)
qed

lemma get_addNgramPostings:
  "js_map_get (addNgramPostings ss) key =
     (if occurrences ss key = [] then None else Some (occurrences ss key))"
  by (simp add: addNgramPostings_def js_map_of_distinct distinct_foldl_postings get_foldl_postings
      iterations_occurrences Let_def)

lemma ix_symbols_build [simp]: "ix_symbols (build_index c) = corpus_symbols c"
  by (simp add: build_index_def Let_def comp_def)

lemma ix_postings_build: "ix_phonemeNgramPostings (build_index c) = addNgramPostings (corpus_symbols c)"
  by (simp add: build_index_def Let_def comp_def)

section \<open>Properties\<close>

lemma indexCorpus_Inr: "indexCorpus v = Inr ix \<longleftrightarrow> validateCorpus v = Inr () \<and> ix = build_index (read_corpus v)"
  by (auto simp: indexCorpus_def ebind_Inr_iff)

lemma indexCorpus_wf: "indexCorpus v = Inr ix \<Longrightarrow> wf_corpus (read_corpus v)"
  by (simp add: indexCorpus_Inr validateCorpus_Inr_iff)

lemma sample_corpus_index: "indexCorpus sample_corpus = Inr (build_index (read_corpus sample_corpus))"
  by (simp add: indexCorpus_Inr sample_corpus_valid)

lemma word_slice:
  assumes "wf_corpus c" "k < length (corpus_words c)"
  shows "map sym_id (take (word_offset c (Suc k) - word_offset c k) (drop (word_offset c k) (corpus_symbols c)))
    = word_symbolIds (corpus_words c ! k)"
  using word_symbols_at [OF assms] word_offset_mono [of "Suc k" "length (corpus_words c)" c] assms
  by (intro nth_equalityI) (auto simp: word_offset_Suc word_offset_end)

text \<open>After \<open>indexCorpus\<close> the range stored for a word holds exactly the symbols the word
  lists, in their order.\<close>

theorem word_range_holds_its_symbols:
  assumes "indexCorpus v = Inr ix" "k < length (corpus_words (read_corpus v))"
  shows "\<exists>r. js_map_get (ix_wordSymbolRanges ix) (word_id (corpus_words (read_corpus v) ! k)) = Some r
    \<and> map sym_id (take (range_end r - range_start r) (drop (range_start r) (ix_symbols ix)))
      = word_symbolIds (corpus_words (read_corpus v) ! k)"
  using assms build_index_word_ranges [OF indexCorpus_wf [OF assms(1)] assms(2)]
    word_slice [OF indexCorpus_wf [OF assms(1)] assms(2)]
  by (simp add: indexCorpus_Inr freezeRange_def)

theorem word_range_holds_its_symbols_witness:
  "\<exists>r. js_map_get (ix_wordSymbolRanges (build_index (read_corpus sample_corpus)))
      (word_id (corpus_words (read_corpus sample_corpus) ! 1)) = Some r
    \<and> map sym_id (take (range_end r - range_start r) (drop (range_start r)
        (ix_symbols (build_index (read_corpus sample_corpus)))))
      = word_symbolIds (corpus_words (read_corpus sample_corpus) ! 1)"
proof -
  have "1 < length (corpus_words (read_corpus sample_corpus))" by code_simp
  from word_range_holds_its_symbols [OF sample_corpus_index this] show ?thesis .
qed

text \<open>After \<open>indexCorpus\<close> the range stored under the \<open>surah:ayah\<close> key of a symbol holds
  exactly the symbols of the same ayah: the two nested scans neither split an ayah nor merge
  two of them.\<close>

theorem ayah_range_is_exact:
  assumes "indexCorpus v = Inr ix" "i < length (ix_symbols ix)"
  shows "\<exists>r. js_map_get (ix_ayahSymbolRanges ix) (ayah_key (sym_location (ix_symbols ix ! i))) = Some r
    \<and> ayah_exact (ix_symbols ix) r i"
  using build_index_ayah_ranges [OF indexCorpus_wf [OF assms(1)]] assms
  by (simp add: indexCorpus_Inr)

theorem ayah_range_is_exact_witness:
  "\<exists>r. js_map_get (ix_ayahSymbolRanges (build_index (read_corpus sample_corpus)))
      (ayah_key (sym_location (ix_symbols (build_index (read_corpus sample_corpus)) ! 2))) = Some r
    \<and> ayah_exact (ix_symbols (build_index (read_corpus sample_corpus))) r 2"
proof -
  have "2 < length (ix_symbols (build_index (read_corpus sample_corpus)))" by code_simp
  from ayah_range_is_exact [OF sample_corpus_index this] show ?thesis .
qed

text \<open>C2: the posting list of a key is the list of the positions where some n-gram of one to
  three phonemes, joined with spaces, is that key: increasing, complete and without
  duplicates; a key with no occurrence has no entry.\<close>

theorem postings_are_occurrences:
  "js_map_get (addNgramPostings ss) key =
     (if occurrences ss key = [] then None else Some (occurrences ss key))"
  by (rule get_addNgramPostings)

end
