(* ===== verification/Observation_Validate.thy ===== *)
theory Observation_Validate
  imports Corpus_Validate
begin

text \<open>
  Observations (\<open>packages/core/src/observation/types.ts\<close>) and their validation
  (\<open>validateObservation\<close> of \<open>packages/core/src/corpus/validate.ts\<close>) with its resource ceilings,
  on an untyped value, and the proof that it accepts exactly the well-typed values whose
  reading is a well-formed observation.
\<close>

record observation_token =
  tok_id :: jstring
  tok_text :: jstring
  tok_phonemes :: "jstring list"
  tok_startMs :: "rat option"
  tok_endMs :: "rat option"
  tok_confidence :: "rat option"

record recitation_observation =
  observationId :: jstring
  sourceRevision :: int
  isFinal :: bool
  receivedAtMs :: rat
  obs_tokens :: "observation_token list"

text \<open>An optional number: \<open>undefined\<close> when the field is absent.\<close>

definition read_optional :: "js \<Rightarrow> rat option" where
  "read_optional v = (case v of JNum n \<Rightarrow> Some (num_rat n) | _ \<Rightarrow> None)"

definition read_token :: "js \<Rightarrow> observation_token" where
  "read_token v = \<lparr>tok_id = the_str (js_get v ''id''), tok_text = the_str (js_get v ''text''),
     tok_phonemes = map the_str (the_elems (js_get v ''phonemes'')),
     tok_startMs = read_optional (js_get v ''startMs''), tok_endMs = read_optional (js_get v ''endMs''),
     tok_confidence = read_optional (js_get v ''confidence'')\<rparr>"

definition read_observation :: "js \<Rightarrow> recitation_observation" where
  "read_observation v = \<lparr>observationId = the_str (js_get v ''observationId''),
     sourceRevision = the_int (js_get v ''sourceRevision''), isFinal = the_bool (js_get v ''isFinal''),
     receivedAtMs = num_rat (the_num (js_get v ''receivedAtMs'')),
     obs_tokens = map read_token (the_elems (js_get v ''tokens''))\<rparr>"

section \<open>The checks\<close>

text \<open>\<open>OBSERVATION_LIMITS\<close>.\<close>

definition maxTokens :: nat where "maxTokens = 64"
definition maxPhonemes :: nat where "maxPhonemes = 128"
definition maxObservationIdLength :: nat where "maxObservationIdLength = 256"
definition maxTokenIdLength :: nat where "maxTokenIdLength = 256"
definition maxTokenTextLength :: nat where "maxTokenTextLength = 1024"
definition maxPhonemeLength :: nat where "maxPhonemeLength = 128"

lemmas limit_defs = maxTokens_def maxPhonemes_def maxObservationIdLength_def maxTokenIdLength_def
  maxTokenTextLength_def maxPhonemeLength_def

definition requireStringLength :: "jstring \<Rightarrow> nat \<Rightarrow> string \<Rightarrow> js_error + unit" where
  "requireStringLength value maximum label =
     (if maximum < length value
      then Inl (TypeError (lit (label @ '' must contain at most '') @ dec maximum @ lit '' UTF-16 code units''))
      else Inr ())"

definition requireFiniteTimestamp :: "js \<Rightarrow> string \<Rightarrow> js_error + unit" where
  "requireFiniteTimestamp v label =
     (if \<not> (isNumber v \<and> number_isFinite (the_num v)) \<or> js_less (the_num v) (Fin 0)
      then fail (label @ '' must be a non-negative finite timestamp'') else Inr ())"

text \<open>One pass of the loop over \<open>startMs\<close> and \<open>endMs\<close>; the state is \<open>latest\<close>.\<close>

definition check_timestamp :: "rat option \<Rightarrow> string \<times> js \<Rightarrow> js_error + rat option" where
  "check_timestamp latest entry = (case entry of (name, v) \<Rightarrow>
     if v = JUndefined then Inr latest
     else ebind (requireFiniteTimestamp v (''observation token '' @ name)) (\<lambda>_.
       let value = num_rat (the_num v) in
       if (case latest of None \<Rightarrow> False | Some l \<Rightarrow> value < l)
       then fail ''observation token timestamps must not decrease''
       else Inr (Some value)))"

definition valid_confidence :: "js \<Rightarrow> bool" where
  "valid_confidence v \<longleftrightarrow> isNumber v \<and> number_isFinite (the_num v)
     \<and> \<not> js_less (the_num v) (Fin 0) \<and> \<not> js_less (Fin 1) (the_num v)"

definition validateObservationToken :: "js \<Rightarrow> rat option \<Rightarrow> js_error + rat option" where
  "validateObservationToken v lastTimestamp =
     (if \<not> isRecord v then fail ''observation token must be an object''
      else ebind (requireNonEmptyString (js_get v ''id'') ''observation token id'') (\<lambda>_.
        ebind (requireStringLength (the_str (js_get v ''id'')) maxTokenIdLength ''observation token id'') (\<lambda>_.
        if \<not> isString (js_get v ''text'') then fail ''observation token text must be a string''
        else ebind (requireStringLength (the_str (js_get v ''text'')) maxTokenTextLength ''observation token text'') (\<lambda>_.
        if \<not> isArray (js_get v ''phonemes'') \<or> list_ex (\<lambda>p. \<not> isString p) (the_elems (js_get v ''phonemes''))
        then fail ''observation token phonemes must be strings''
        else ebind (for_each (\<lambda>_ p. requireStringLength (the_str p) maxPhonemeLength ''observation token phoneme'') ()
                     (the_elems (js_get v ''phonemes''))) (\<lambda>_.
        ebind (for_each check_timestamp lastTimestamp
                [(''startMs'', js_get v ''startMs''), (''endMs'', js_get v ''endMs'')]) (\<lambda>latest.
        if js_get v ''confidence'' \<noteq> JUndefined \<and> \<not> valid_confidence (js_get v ''confidence'')
        then fail ''observation token confidence must be finite and between 0 and 1''
        else Inr latest))))))"

text \<open>The loop over the tokens: identifiers seen, phonemes counted, last timestamp.\<close>

record token_scan =
  scan_tokenIds :: "jstring js_set"
  scan_phonemeCount :: nat
  scan_lastTimestamp :: "rat option"

definition scan_token :: "token_scan \<Rightarrow> js \<Rightarrow> js_error + token_scan" where
  "scan_token st v =
     (if \<not> isRecord v then fail ''observation token must be an object''
      else ebind (requireNonEmptyString (js_get v ''id'') ''observation token id'') (\<lambda>_.
        let i = the_str (js_get v ''id'') in
        if i \<in> set (scan_tokenIds st) then fail ''duplicate token id''
        else ebind (validateObservationToken v (scan_lastTimestamp st)) (\<lambda>_.
          let count = scan_phonemeCount st + length (the_elems (js_get v ''phonemes'')) in
          if maxPhonemes < count
          then Inl (TypeError (lit ''observation must contain at most '' @ dec maxPhonemes @ lit '' phonemes''))
          else let tokenEnd = (if isNumber (js_get v ''endMs'') then Some (num_rat (the_num (js_get v ''endMs'')))
                               else if isNumber (js_get v ''startMs'') then Some (num_rat (the_num (js_get v ''startMs'')))
                               else None)
               in Inr \<lparr>scan_tokenIds = js_set_add i (scan_tokenIds st), scan_phonemeCount = count,
                       scan_lastTimestamp = (case tokenEnd of None \<Rightarrow> scan_lastTimestamp st | Some t \<Rightarrow> Some t)\<rparr>)))"

definition validateObservation :: "js \<Rightarrow> js_error + unit" where
  "validateObservation v =
     (if \<not> isRecord v then fail ''observation must be an object''
      else ebind (requireNonEmptyString (js_get v ''observationId'') ''observation id'') (\<lambda>_.
        ebind (requireStringLength (the_str (js_get v ''observationId'')) maxObservationIdLength ''observation id'') (\<lambda>_.
        if \<not> (isNumber (js_get v ''sourceRevision'') \<and> isSafeInteger (the_num (js_get v ''sourceRevision'')))
           \<or> js_less (the_num (js_get v ''sourceRevision'')) (Fin 0)
        then fail ''source revision must be a non-negative integer''
        else if \<not> isBoolean (js_get v ''isFinal'') then fail ''observation isFinal must be a boolean''
        else ebind (requireFiniteTimestamp (js_get v ''receivedAtMs'') ''observation receivedAtMs'') (\<lambda>_.
        if \<not> isArray (js_get v ''tokens'') then fail ''observation tokens must be an array''
        else if maxTokens < length (the_elems (js_get v ''tokens''))
        then Inl (TypeError (lit ''observation must contain at most '' @ dec maxTokens @ lit '' tokens''))
        else if \<not> the_bool (js_get v ''isFinal'') \<and> the_elems (js_get v ''tokens'') = []
        then fail ''partial observation must contain at least one token''
        else ebind (for_each scan_token
                      \<lparr>scan_tokenIds = [], scan_phonemeCount = 0, scan_lastTimestamp = None\<rparr>
                      (the_elems (js_get v ''tokens''))) (\<lambda>_. Inr ())))))"

section \<open>The specification\<close>

definition token_times :: "observation_token \<Rightarrow> rat list" where
  "token_times t = (case tok_startMs t of None \<Rightarrow> [] | Some s \<Rightarrow> [s])
     @ (case tok_endMs t of None \<Rightarrow> [] | Some e \<Rightarrow> [e])"

definition wf_token :: "observation_token \<Rightarrow> bool" where
  "wf_token t \<longleftrightarrow> nonblank (tok_id t) \<and> length (tok_id t) \<le> maxTokenIdLength
     \<and> length (tok_text t) \<le> maxTokenTextLength
     \<and> list_all (\<lambda>p. length p \<le> maxPhonemeLength) (tok_phonemes t)
     \<and> list_all (\<lambda>x. 0 \<le> x) (token_times t)
     \<and> (case tok_confidence t of None \<Rightarrow> True | Some c \<Rightarrow> 0 \<le> c \<and> c \<le> 1)"

definition observation_phonemes :: "recitation_observation \<Rightarrow> jstring list" where
  "observation_phonemes obs = concat (map tok_phonemes (obs_tokens obs))"

definition wf_observation :: "recitation_observation \<Rightarrow> bool" where
  "wf_observation obs \<longleftrightarrow> nonblank (observationId obs)
     \<and> length (observationId obs) \<le> maxObservationIdLength
     \<and> 0 \<le> sourceRevision obs \<and> sourceRevision obs \<le> safe_limit
     \<and> 0 \<le> receivedAtMs obs \<and> length (obs_tokens obs) \<le> maxTokens
     \<and> (\<not> isFinal obs \<longrightarrow> obs_tokens obs \<noteq> [])
     \<and> list_all wf_token (obs_tokens obs) \<and> distinct (map tok_id (obs_tokens obs))
     \<and> length (observation_phonemes obs) \<le> maxPhonemes
     \<and> sorted (concat (map token_times (obs_tokens obs)))"

definition finite_number :: "js \<Rightarrow> bool" where
  "finite_number v \<longleftrightarrow> (\<exists>r. v = JNum (Fin r))"

definition token_typed :: "js \<Rightarrow> bool" where
  "token_typed v \<longleftrightarrow> isRecord v \<and> isString (js_get v ''id'') \<and> isString (js_get v ''text'')
     \<and> isArray (js_get v ''phonemes'') \<and> list_all isString (the_elems (js_get v ''phonemes''))
     \<and> (\<forall>f \<in> {''startMs'', ''endMs'', ''confidence''}. js_get v f = JUndefined \<or> finite_number (js_get v f))"

definition observation_typed :: "js \<Rightarrow> bool" where
  "observation_typed v \<longleftrightarrow> isRecord v \<and> isString (js_get v ''observationId'')
     \<and> safe_number (js_get v ''sourceRevision'') \<and> isBoolean (js_get v ''isFinal'')
     \<and> finite_number (js_get v ''receivedAtMs'') \<and> isArray (js_get v ''tokens'')
     \<and> list_all token_typed (the_elems (js_get v ''tokens''))"


section \<open>The validator decides the specification\<close>

lemma requireStringLength_iff [js_simps]: "requireStringLength s m l = Inr u \<longleftrightarrow> length s \<le> m"
  by (auto simp: requireStringLength_def)

lemma requireFiniteTimestamp_iff [js_simps]:
  "requireFiniteTimestamp v l = Inr u \<longleftrightarrow> (\<exists>r. v = JNum (Fin r) \<and> 0 \<le> r)"
  by (cases v) (auto simp: requireFiniteTimestamp_def number_isFinite_iff)

lemma check_timestamp_iff:
  "check_timestamp latest (name, v) = Inr l' \<longleftrightarrow>
     (v = JUndefined \<and> l' = latest)
     \<or> (\<exists>r. v = JNum (Fin r) \<and> 0 \<le> r \<and> (\<forall>l. latest = Some l \<longrightarrow> l \<le> r) \<and> l' = Some r)"
  by (cases latest) (auto simp: check_timestamp_def ebind_Inr_iff requireFiniteTimestamp_iff Let_def)

lemma for_each_lengths:
  "for_each (\<lambda>_ p. requireStringLength (the_str p) m l) () xs = Inr u
     \<longleftrightarrow> list_all (\<lambda>p. length p \<le> m) (map the_str xs)"
  by (induction xs) (auto simp: ebind_Inr_iff requireStringLength_iff)

lemma valid_confidence_iff:
  "valid_confidence v \<longleftrightarrow> (\<exists>r. v = JNum (Fin r) \<and> 0 \<le> r \<and> r \<le> 1)"
  by (cases v) (auto simp: valid_confidence_def number_isFinite_iff)

text \<open>The last of a list of times, when there is one.\<close>

definition last_time :: "rat list \<Rightarrow> rat option" where
  "last_time xs = (if xs = [] then None else Some (last xs))"

lemma sorted_snoc_times:
  "sorted (xs @ [t :: rat]) \<longleftrightarrow> sorted xs \<and> (\<forall>l. last_time xs = Some l \<longrightarrow> l \<le> t)"
  by (cases xs rule: rev_cases) (auto simp: sorted_append last_time_def intro: order_trans)

lemma timestamps_iff:
  assumes "sorted xs"
  shows "for_each check_timestamp (last_time xs)
      [(''startMs'', js_get v ''startMs''), (''endMs'', js_get v ''endMs'')] = Inr l' \<longleftrightarrow>
    (\<forall>f \<in> {''startMs'', ''endMs''}. js_get v f = JUndefined \<or> finite_number (js_get v f))
    \<and> list_all (\<lambda>x. 0 \<le> x) (token_times (read_token v))
    \<and> sorted (xs @ token_times (read_token v)) \<and> l' = last_time (xs @ token_times (read_token v))"
proof -
  have snoc: "last_time (ys @ [t]) = Some t" "last_time (ys @ [s, t]) = Some t" for ys s t
    by (simp_all add: last_time_def)
  have two: "sorted (ys @ [s, t]) \<longleftrightarrow> sorted (ys @ [s]) \<and> s \<le> t" for ys and s t :: rat
    using sorted_snoc_times [of "ys @ [s]" t] snoc by auto
  have finite: "finite_number w \<Longrightarrow> \<exists>r. w = JNum (Fin r)" for w by (simp add: finite_number_def)
  show ?thesis
    by (cases "js_get v ''startMs'' = JUndefined"; cases "js_get v ''endMs'' = JUndefined")
      (use assms in \<open>auto simp: ebind_Inr_iff check_timestamp_iff token_times_def read_token_def
        read_optional_def finite_number_def sorted_snoc_times two snoc\<close>)
qed

lemma list_ex_not: "list_ex (\<lambda>p. \<not> P p) xs \<longleftrightarrow> \<not> list_all P xs"
  by (induction xs) auto

lemma validateObservationToken_iff:
  assumes "sorted xs"
  shows "validateObservationToken v (last_time xs) = Inr l' \<longleftrightarrow>
    token_typed v \<and> wf_token (read_token v) \<and> sorted (xs @ token_times (read_token v))
    \<and> l' = last_time (xs @ token_times (read_token v))"
proof -
  have conf: "js_get v ''confidence'' = JUndefined \<or> valid_confidence (js_get v ''confidence'') \<longleftrightarrow>
      (js_get v ''confidence'' = JUndefined \<or> finite_number (js_get v ''confidence''))
      \<and> (case tok_confidence (read_token v) of None \<Rightarrow> True | Some c \<Rightarrow> 0 \<le> c \<and> c \<le> 1)"
    by (auto simp: valid_confidence_iff finite_number_def read_token_def read_optional_def)
  have fields: "tok_id (read_token v) = the_str (js_get v ''id'')"
      "tok_text (read_token v) = the_str (js_get v ''text'')"
      "tok_phonemes (read_token v) = map the_str (the_elems (js_get v ''phonemes''))"
    by (simp_all add: read_token_def)
  show ?thesis
    unfolding validateObservationToken_def token_typed_def wf_token_def fields
    using conf by (auto simp: ebind_Inr_iff requireNonEmptyString_iff requireStringLength_iff
        for_each_lengths timestamps_iff [OF assms] list_ex_not simp del: for_each.simps)
qed

definition tokens_scanned :: "observation_token list \<Rightarrow> token_scan" where
  "tokens_scanned ts = \<lparr>scan_tokenIds = map tok_id ts,
     scan_phonemeCount = length (concat (map tok_phonemes ts)),
     scan_lastTimestamp = last_time (concat (map token_times ts))\<rparr>"

lemma tokens_scanned_select:
  "scan_tokenIds (tokens_scanned ts) = map tok_id ts"
  "scan_phonemeCount (tokens_scanned ts) = length (concat (map tok_phonemes ts))"
  "scan_lastTimestamp (tokens_scanned ts) = last_time (concat (map token_times ts))"
  by (simp_all add: tokens_scanned_def)

lemma token_end:
  assumes "token_typed v"
  shows "(case (if isNumber (js_get v ''endMs'') then Some (num_rat (the_num (js_get v ''endMs'')))
      else if isNumber (js_get v ''startMs'') then Some (num_rat (the_num (js_get v ''startMs'')))
      else None) of None \<Rightarrow> last_time xs | Some t \<Rightarrow> Some t) = last_time (xs @ token_times (read_token v))"
  using assms unfolding token_typed_def
  by (auto simp: finite_number_def token_times_def read_token_def read_optional_def last_time_def)

lemma scan_token_iff:
  assumes "sorted (concat (map token_times ts))"
  shows "scan_token (tokens_scanned ts) v = Inr st' \<longleftrightarrow>
     token_typed v \<and> wf_token (read_token v) \<and> tok_id (read_token v) \<notin> set (map tok_id ts)
     \<and> length (concat (map tok_phonemes (ts @ [read_token v]))) \<le> maxPhonemes
     \<and> sorted (concat (map token_times (ts @ [read_token v])))
     \<and> st' = tokens_scanned (ts @ [read_token v])"
proof -
  note valid = validateObservationToken_iff [OF assms]
  let ?t = "read_token v"
  have fields: "the_str (js_get v ''id'') = tok_id ?t"
      "length (the_elems (js_get v ''phonemes'')) = length (tok_phonemes ?t)"
    by (simp_all add: read_token_def)
  have typed: "isRecord v \<and> isString (js_get v ''id'') \<and> nonblank (tok_id ?t)"
    if "token_typed v" "wf_token ?t"
    using that by (simp add: token_typed_def wf_token_def)
  have nxt: "tokens_scanned (ts @ [?t]) = \<lparr>scan_tokenIds = js_set_add (tok_id ?t) (map tok_id ts),
      scan_phonemeCount = length (concat (map tok_phonemes ts)) + length (tok_phonemes ?t),
      scan_lastTimestamp = last_time (concat (map token_times ts) @ token_times ?t)\<rparr>"
    if "tok_id ?t \<notin> set (map tok_id ts)"
    using that by (simp add: tokens_scanned_def js_set_add_def)
  have guard: "(if b then Inl e else Inr x) = Inr y \<longleftrightarrow> \<not> b \<and> x = y"
    for b and e :: js_error and x y :: token_scan by simp
  show ?thesis
  proof (cases "token_typed v \<and> wf_token ?t \<and> tok_id ?t \<notin> set (map tok_id ts)")
    case True
    then show ?thesis
      using typed nxt
      by (auto simp: scan_token_def tokens_scanned_select ebind_Inr_iff requireNonEmptyString_iff
          fields valid Let_def token_end guard simp del: length_concat set_map
          cong: if_cong option.case_cong split del: if_split)
  next
    case False
    then show ?thesis
      by (auto simp: scan_token_def tokens_scanned_select ebind_Inr_iff fields valid Let_def
          simp del: length_concat)
  qed
qed

lemma scan_tokens_iff:
  assumes "sorted (concat (map token_times ts))" "distinct (map tok_id ts)"
    "length (concat (map tok_phonemes ts)) \<le> maxPhonemes"
  shows "for_each scan_token (tokens_scanned ts) vs = Inr st' \<longleftrightarrow>
     list_all token_typed vs \<and> list_all wf_token (map read_token vs)
     \<and> distinct (map tok_id (ts @ map read_token vs))
     \<and> length (concat (map tok_phonemes (ts @ map read_token vs))) \<le> maxPhonemes
     \<and> sorted (concat (map token_times (ts @ map read_token vs)))
     \<and> st' = tokens_scanned (ts @ map read_token vs)"
  using assms
proof (induction vs arbitrary: ts)
  case (Cons v vs)
  let ?t = "read_token v"
  note step = scan_token_iff [OF Cons.prems(1)]
  show ?case
  proof (cases "tok_id ?t \<notin> set (map tok_id ts)
      \<and> length (concat (map tok_phonemes (ts @ [?t]))) \<le> maxPhonemes
      \<and> sorted (concat (map token_times (ts @ [?t])))")
    case True
    then have "sorted (concat (map token_times (ts @ [?t])))" "distinct (map tok_id (ts @ [?t]))"
        "length (concat (map tok_phonemes (ts @ [?t]))) \<le> maxPhonemes"
      using Cons.prems by auto
    from Cons.IH [OF this] True show ?thesis by (auto simp: ebind_Inr_iff step)
  next
    case False
    then have "scan_token (tokens_scanned ts) v \<noteq> Inr t" for t unfolding step by blast
    then have "for_each scan_token (tokens_scanned ts) (v # vs) \<noteq> Inr st'"
      by (simp add: ebind_Inr_iff)
    moreover have "\<not> (distinct (map tok_id (ts @ map read_token (v # vs)))
        \<and> length (concat (map tok_phonemes (ts @ map read_token (v # vs)))) \<le> maxPhonemes
        \<and> sorted (concat (map token_times (ts @ map read_token (v # vs)))))"
      using False by (auto simp: sorted_append)
    ultimately show ?thesis by blast
  qed
qed auto

lemma validateObservation_Inr_iff:
  "validateObservation v = Inr u \<longleftrightarrow> observation_typed v \<and> wf_observation (read_observation v)"
proof -
  have init: "\<lparr>scan_tokenIds = [], scan_phonemeCount = 0, scan_lastTimestamp = None\<rparr> = tokens_scanned []"
    by (simp add: tokens_scanned_def last_time_def)
  have rev: "isNumber w \<and> isSafeInteger (the_num w) \<and> \<not> js_less (the_num w) (Fin 0)
      \<longleftrightarrow> safe_number w \<and> 0 \<le> the_int w \<and> the_int w \<le> safe_limit" (is "?l w \<longleftrightarrow> ?r w") for w
  proof
    assume "?l w"
    then obtain n where n: "w = JNum (Fin (of_int n))" "\<bar>n\<bar> \<le> safe_limit" "\<not> js_less (Fin (of_int n)) (Fin 0)"
      by (cases w) (auto simp: isSafeInteger_iff simp del: js_less.simps)
    then have "0 \<le> n" by simp
    with n show "?r w" by (auto simp: safe_number_def simp del: js_less.simps)
  next
    assume "?r w"
    then show "?l w" by (auto simp: safe_number_def isSafeInteger_iff)
  qed
  have toks: "for_each scan_token (tokens_scanned []) vs = Inr st' \<longleftrightarrow>
      list_all token_typed vs \<and> list_all wf_token (map read_token vs)
      \<and> distinct (map tok_id (map read_token vs))
      \<and> length (concat (map tok_phonemes (map read_token vs))) \<le> maxPhonemes
      \<and> sorted (concat (map token_times (map read_token vs))) \<and> st' = tokens_scanned (map read_token vs)"
    for vs st' using scan_tokens_iff [of "[]"] by (simp del: length_concat map_map)
  have time: "(\<exists>r. w = JNum (Fin r) \<and> 0 \<le> r) \<longleftrightarrow> finite_number w \<and> 0 \<le> num_rat (the_num w)" for w
    by (auto simp: finite_number_def)
  show ?thesis
    unfolding validateObservation_def init observation_typed_def wf_observation_def
    using rev [of "js_get v ''sourceRevision''"]
    by (auto simp: ebind_Inr_iff requireNonEmptyString_iff requireStringLength_iff time
        requireFiniteTimestamp_iff toks read_observation_def observation_phonemes_def
        simp del: length_concat map_map)
qed

section \<open>Sample observations\<close>

text \<open>One token with the given phonemes; the concrete inputs of the witnesses.\<close>

definition js_observation :: "string \<Rightarrow> int \<Rightarrow> bool \<Rightarrow> int \<Rightarrow> string list \<Rightarrow> js" where
  "js_observation i revision final receivedAt phonemes = JObj [(''observationId'', js_string i),
     (''sourceRevision'', js_int revision), (''isFinal'', JBool final), (''receivedAtMs'', js_int receivedAt),
     (''tokens'', JArr [JObj [(''id'', js_string ''t''), (''text'', js_string ''x''),
        (''phonemes'', JArr (map js_string phonemes)), (''startMs'', js_int 0), (''endMs'', js_int 5),
        (''confidence'', js_int 1)]])]"

lemma js_observation_valid: "validateObservation (js_observation ''o1'' 0 False 10 [''a'', ''l'']) = Inr ()"
  by code_simp

section \<open>Properties\<close>

text \<open>C3: \<open>validateObservation\<close> accepts a value exactly when it has the shape of an observation
  and the observation it describes is well formed: bounded non-blank identifiers, a safe
  non-negative revision, at most 64 tokens with distinct identifiers and at most 128 phonemes in
  all, every confidence in [0, 1], and the start and end times of all tokens, in order,
  non-negative and non-decreasing.\<close>

theorem validateObservation_decides_wf:
  "validateObservation v = Inr () \<longleftrightarrow> observation_typed v \<and> wf_observation (read_observation v)"
  by (rule validateObservation_Inr_iff)

end
