(* ===== verification/Candidates.thy ===== *)
theory Candidates
  imports Corpus_Index
begin

text \<open>
  \<open>packages/core/src/alignment/candidates.ts\<close>: which corpus positions an observation is aligned
  at.  Local positions are collected around the cursor; the global ones come from the posting
  lists of the observation's n-grams, inspected under a budget.  Loops with state are functions
  on that state; the mutable \<open>PostingCursor\<close> objects are values in a list that a pass returns
  updated (the second list that shares them reads only their anchor, which never changes).
  The optional metrics sink is not modelled: it receives indexes and returns nothing.

  The lemmas show the bounds (at most 48 local and 64 positions in all, distinct, inside the
  corpus, the cursor first), that the local search misses nothing before its bound, that the
  binary search finds the first posting at or after its target, and that every global position
  lies within three symbols of where some n-gram of the observation occurs.
\<close>

section \<open>Constants and types\<close>

definition MAX_ALIGNMENT_CANDIDATES :: nat where "MAX_ALIGNMENT_CANDIDATES = 64"
definition MAX_LOCAL_CANDIDATES :: nat where "MAX_LOCAL_CANDIDATES = 48"
definition FORWARD_PHONEME_COUNT :: nat where "FORWARD_PHONEME_COUNT = 3"
definition MAX_NGRAM_QUERIES :: nat where "MAX_NGRAM_QUERIES = 48"
definition MAX_POSTING_INSPECTIONS :: nat where "MAX_POSTING_INSPECTIONS = 128"
definition MAX_ANCHOR_DISPLACEMENT :: nat where "MAX_ANCHOR_DISPLACEMENT = 3"

lemmas candidate_limits = MAX_ALIGNMENT_CANDIDATES_def MAX_LOCAL_CANDIDATES_def
  FORWARD_PHONEME_COUNT_def MAX_NGRAM_QUERIES_def MAX_POSTING_INSPECTIONS_def
  MAX_ANCHOR_DISPLACEMENT_def

record anchor =
  anchor_length :: nat
  anchor_offset :: nat
  anchor_postings :: "nat list"

record posting_cursor =
  cursor_anchor :: anchor
  cursor_left :: int
  cursor_right :: int

section \<open>Local positions\<close>

definition compareAroundCursor :: "int \<Rightarrow> int \<Rightarrow> int \<Rightarrow> int" where
  "compareAroundCursor left right cursorSymbol =
     (let distance = \<bar>left - cursorSymbol\<bar> - \<bar>right - cursorSymbol\<bar>;
          leftForward = max 0 (left - cursorSymbol);
          rightForward = max 0 (right - cursorSymbol)
      in if distance \<noteq> 0 then distance
         else if leftForward \<noteq> rightForward then leftForward - rightForward
         else left - right)"

text \<open>The closure \<open>add\<close>; \<open>selected\<close> holds the elements of \<open>positions\<close>.\<close>

definition add_position :: "nat \<Rightarrow> int \<Rightarrow> nat list \<Rightarrow> nat list" where
  "add_position symbolCount position positions =
     (if MAX_LOCAL_CANDIDATES \<le> length positions \<or> position < 0 \<or> int symbolCount \<le> position
         \<or> nat position \<in> set positions
      then positions else positions @ [nat position])"

lemma add_position_length: "length positions \<le> length (add_position n p positions)"
  by (simp add: add_position_def)

record local_walk =
  walk_positions :: "nat list"
  activeLeft :: int
  activeRight :: int
  previousRight :: int

text \<open>One pass of the \<open>while\<close> loop: a step in the active ayah, then one in the previous.\<close>

definition active_step :: "nat \<Rightarrow> int \<Rightarrow> corpus_range \<Rightarrow> local_walk \<Rightarrow> local_walk" where
  "active_step symbolCount cursor activeRange w =
     (let l = activeLeft w; r = activeRight w; s = int (range_start activeRange); e = int (range_end activeRange);
          goLeft = w\<lparr>walk_positions := add_position symbolCount l (walk_positions w), activeLeft := l - 1\<rparr>;
          goRight = w\<lparr>walk_positions := add_position symbolCount r (walk_positions w), activeRight := r + 1\<rparr>
      in if s \<le> l \<or> r < e then
           if l < s then goRight
           else if e \<le> r then goLeft
           else if compareAroundCursor l r cursor \<le> 0 then goLeft
           else goRight
         else w)"

definition previous_step :: "nat \<Rightarrow> corpus_range option \<Rightarrow> local_walk \<Rightarrow> local_walk" where
  "previous_step symbolCount previousRange w = (case previousRange of
       Some rng \<Rightarrow>
         if int (range_start rng) \<le> previousRight w
         then w\<lparr>walk_positions := add_position symbolCount (previousRight w) (walk_positions w),
                previousRight := previousRight w - 1\<rparr>
         else w
     | None \<Rightarrow> w)"

definition walk_step :: "nat \<Rightarrow> int \<Rightarrow> corpus_range \<Rightarrow> corpus_range option \<Rightarrow> local_walk \<Rightarrow> local_walk" where
  "walk_step symbolCount cursor activeRange previousRange w =
     previous_step symbolCount previousRange (active_step symbolCount cursor activeRange w)"

lemma active_step_length: "length (walk_positions w) \<le> length (walk_positions (active_step n c a w))"
  by (simp add: active_step_def Let_def add_position_length)

lemma previous_step_length: "length (walk_positions w) \<le> length (walk_positions (previous_step n p w))"
  by (auto simp: previous_step_def add_position_length split: option.splits)

lemma walk_step_length: "length (walk_positions w) \<le> length (walk_positions (walk_step n c a p w))"
  unfolding walk_step_def using active_step_length previous_step_length by (rule order_trans)

function local_walk_loop :: "nat \<Rightarrow> int \<Rightarrow> corpus_range \<Rightarrow> corpus_range option \<Rightarrow> local_walk \<Rightarrow> local_walk" where
  "local_walk_loop symbolCount cursor activeRange previousRange w =
     (if length (walk_positions w) < MAX_LOCAL_CANDIDATES then
        let sizeBefore = length (walk_positions w);
            w' = walk_step symbolCount cursor activeRange previousRange w
        in if length (walk_positions w') = sizeBefore then w'
           else local_walk_loop symbolCount cursor activeRange previousRange w'
      else w)"
  by pat_completeness auto
termination
proof (relation "measure (\<lambda>(n, c, a, p, w). MAX_LOCAL_CANDIDATES - length (walk_positions w))", goal_cases)
  case (2 n c a p w x xa)
  then show ?case using walk_step_length [of w n c a p] by simp
qed simp

declare local_walk_loop.simps [simp del]

definition localPositions :: "indexed_corpus \<Rightarrow> int \<Rightarrow> nat list" where
  "localPositions index cursorSymbol =
     (let symbols = ix_symbols index; n = length symbols in
      if n = 0 then []
      else let cursor = nat (max 0 (min cursorSymbol (int n - 1))) in
        case js_map_get (ix_ayahSymbolRanges index) (ayah_key (sym_location (symbols ! cursor))) of
          None \<Rightarrow> [cursor]
        | Some activeRange \<Rightarrow>
            let previousRange = (if 0 < range_start activeRange
                  then js_map_get (ix_ayahSymbolRanges index)
                         (ayah_key (sym_location (symbols ! (range_start activeRange - 1))))
                  else None);
                p1 = add_position n (int cursor) [];
                p2 = (case previousRange of Some rng \<Rightarrow> add_position n (int (range_end rng) - 1) p1
                      | None \<Rightarrow> p1);
                p3 = foldl (\<lambda>p offset. add_position n (int (range_end activeRange) + int offset) p) p2
                       [0..<FORWARD_PHONEME_COUNT]
            in walk_positions (local_walk_loop n (int cursor) activeRange previousRange
                 \<lparr>walk_positions = p3, activeLeft = int cursor - 1, activeRight = int cursor + 1,
                  previousRight = (case previousRange of Some rng \<Rightarrow> int (range_end rng) | None \<Rightarrow> 0) - 2\<rparr>))"

section \<open>Posting lists under a budget\<close>

definition inspectedValue :: "nat list \<Rightarrow> int \<Rightarrow> nat \<Rightarrow> nat option \<times> nat" where
  "inspectedValue vals i remaining =
     (if remaining = 0 then (None, 0)
      else (if 0 \<le> i \<and> nat i < length vals then Some (vals ! nat i) else None, remaining - 1))"

function lower_bound_loop :: "nat list \<Rightarrow> int \<Rightarrow> nat \<Rightarrow> nat \<Rightarrow> nat \<Rightarrow> nat option \<times> nat" where
  "lower_bound_loop vals target low high remaining =
     (if low < high then
        let middle = low + (high - low) div 2 in
        case inspectedValue vals (int middle) remaining of
          (None, rest) \<Rightarrow> (None, rest)
        | (Some v, rest) \<Rightarrow>
            if int v < target then lower_bound_loop vals target (middle + 1) high rest
            else lower_bound_loop vals target low middle rest
      else (Some low, remaining))"
  by pat_completeness auto
termination
  by (relation "measure (\<lambda>(vals, target, low, high, remaining). high - low)") auto

declare lower_bound_loop.simps [simp del]

definition lowerBound :: "nat list \<Rightarrow> int \<Rightarrow> nat \<Rightarrow> nat option \<times> nat" where
  "lowerBound vals target remaining = lower_bound_loop vals target 0 (length vals) remaining"

definition createPostingCursor :: "anchor \<Rightarrow> int \<Rightarrow> nat \<Rightarrow> posting_cursor option \<times> nat" where
  "createPostingCursor a cursorSymbol remaining =
     (case lowerBound (anchor_postings a) (cursorSymbol + int (anchor_offset a)) remaining of
        (None, rest) \<Rightarrow> (None, rest)
      | (Some right, rest) \<Rightarrow>
          (Some \<lparr>cursor_anchor = a, cursor_left = int right - 1, cursor_right = int right\<rparr>, rest))"

text \<open>The posting taken, the cursor moved and the budget left.\<close>

definition takeNearestPosting ::
  "posting_cursor \<Rightarrow> int \<Rightarrow> nat \<Rightarrow> nat option \<times> posting_cursor \<times> nat" where
  "takeNearestPosting cur cursorSymbol remaining =
     (let a = cursor_anchor cur; ps = anchor_postings a;
          l = cursor_left cur; r = cursor_right cur in
      if l < 0 \<and> int (length ps) \<le> r then (None, cur, remaining)
      else case (if 0 \<le> l then inspectedValue ps l remaining else (None, remaining)) of
        (leftPosting, rem1) \<Rightarrow>
      if 0 \<le> l \<and> leftPosting = None then (None, cur, rem1)
      else case (if r < int (length ps) then inspectedValue ps r rem1 else (None, rem1)) of
        (rightPosting, rem2) \<Rightarrow>
      if r < int (length ps) \<and> rightPosting = None then (None, cur, rem2)
      else
        let takeLeft = (case rightPosting of None \<Rightarrow> True
              | Some rp \<Rightarrow> (case leftPosting of None \<Rightarrow> False
                  | Some lp \<Rightarrow> compareAroundCursor (int lp - int (anchor_offset a))
                      (int rp - int (anchor_offset a)) cursorSymbol \<le> 0))
        in if takeLeft then (leftPosting, cur\<lparr>cursor_left := l - 1\<rparr>, rem2)
           else (rightPosting, cur\<lparr>cursor_right := r + 1\<rparr>, rem2))"

section \<open>Starts\<close>

definition addStart :: "nat js_set \<Rightarrow> nat \<Rightarrow> int \<Rightarrow> nat js_set" where
  "addStart candidates symbolCount start =
     (if length candidates < MAX_ALIGNMENT_CANDIDATES \<and> 0 \<le> start \<and> start < int symbolCount
      then js_set_add (nat start) candidates else candidates)"

text \<open>The loop condition, once false, stays false: nothing changes after it.\<close>

definition addDisplacedStarts :: "nat js_set \<Rightarrow> nat \<Rightarrow> nat \<Rightarrow> nat \<Rightarrow> nat js_set" where
  "addDisplacedStarts candidates symbolCount posting actualOffset =
     (let base = int posting - int actualOffset in
      foldl (\<lambda>cs distance. if length cs < MAX_ALIGNMENT_CANDIDATES
               then addStart (addStart cs symbolCount (base + int distance)) symbolCount (base - int distance)
               else cs)
        candidates [1..<MAX_ANCHOR_DISPLACEMENT + 1])"

definition sampledOffsets :: "nat \<Rightarrow> nat \<Rightarrow> nat list" where
  "sampledOffsets number budget =
     (if number \<le> budget then [0..<number]
      else if budget = 1 then [0]
      else map (\<lambda>sample. nat \<lfloor>fl (of_nat (sample * (number - 1)) / of_nat (budget - 1))\<rfloor>) [0..<budget])"

section \<open>Anchors\<close>

definition compareAnchors :: "anchor \<Rightarrow> anchor \<Rightarrow> int" where
  "compareAnchors left right =
     (if length (anchor_postings left) \<noteq> length (anchor_postings right)
      then int (length (anchor_postings left)) - int (length (anchor_postings right))
      else if anchor_length right \<noteq> anchor_length left
      then int (anchor_length right) - int (anchor_length left)
      else int (anchor_offset left) - int (anchor_offset right))"

definition slice_key :: "jstring list \<Rightarrow> nat \<Rightarrow> nat \<Rightarrow> jstring" where
  "slice_key phonemes offset n = js_join [32] (take n (drop offset phonemes))"

text \<open>One query; the state is the query count and the anchors.  The \<open>break\<close> leaves only the inner
  loop, but the count stays at its limit, so no later query runs either.\<close>

definition query_offset :: "indexed_corpus \<Rightarrow> jstring list \<Rightarrow> nat \<Rightarrow> nat \<times> anchor list \<Rightarrow> nat \<Rightarrow> nat \<times> anchor list" where
  "query_offset index phonemes n st offset = (case st of (queryCount, anchors) \<Rightarrow>
     if MAX_NGRAM_QUERIES \<le> queryCount then (queryCount, anchors)
     else (queryCount + 1,
       case js_map_get (ix_phonemeNgramPostings index) (slice_key phonemes offset n) of
         Some postings \<Rightarrow> if postings \<noteq> []
           then anchors @ [\<lparr>anchor_length = n, anchor_offset = offset, anchor_postings = postings\<rparr>]
           else anchors
       | None \<Rightarrow> anchors))"

text \<open>\<open>48 / maximumLength\<close> is an integer for the lengths 1, 2 and 3.\<close>

definition queryAnchors :: "indexed_corpus \<Rightarrow> jstring list \<Rightarrow> anchor list" where
  "queryAnchors index phonemes =
     (let maximumLength = min FORWARD_PHONEME_COUNT (length phonemes);
          perLengthBudget = MAX_NGRAM_QUERIES div maximumLength
      in js_sort compareAnchors (snd (foldl
           (\<lambda>st n. foldl (query_offset index phonemes n) st
              (sampledOffsets (length phonemes - n + 1) perLengthBudget))
           (0, []) (rev [1..<maximumLength + 1]))))"

section \<open>Global candidates\<close>

record global_search =
  gs_candidates :: "nat js_set"
  gs_remaining :: nat
  gs_cursors :: "posting_cursor list"
  gs_nearest :: "(posting_cursor \<times> nat) list"

fun first_hypotheses :: "nat \<Rightarrow> int \<Rightarrow> anchor list \<Rightarrow> global_search \<Rightarrow> global_search" where
  "first_hypotheses symbolCount cursorSymbol [] st = st"
| "first_hypotheses symbolCount cursorSymbol (a # as) st =
     (if MAX_ALIGNMENT_CANDIDATES \<le> length (gs_candidates st) \<or> gs_remaining st = 0 then st
      else case createPostingCursor a cursorSymbol (gs_remaining st) of
        (None, rest) \<Rightarrow> st\<lparr>gs_remaining := rest\<rparr>
      | (Some cur, rest) \<Rightarrow>
          (case takeNearestPosting cur cursorSymbol rest of
             (None, cur', rest') \<Rightarrow>
               first_hypotheses symbolCount cursorSymbol as
                 (st\<lparr>gs_remaining := rest', gs_cursors := gs_cursors st @ [cur']\<rparr>)
           | (Some posting, cur', rest') \<Rightarrow>
               first_hypotheses symbolCount cursorSymbol as
                 (st\<lparr>gs_remaining := rest', gs_cursors := gs_cursors st @ [cur'],
                     gs_nearest := gs_nearest st @ [(cur', posting)],
                     gs_candidates := addStart (gs_candidates st) symbolCount
                       (int posting - int (anchor_offset a))\<rparr>)))"

text \<open>The second loop; its \<open>break\<close> condition, once true, stays true.\<close>

definition displaced_hypotheses :: "nat \<Rightarrow> (posting_cursor \<times> nat) list \<Rightarrow> nat js_set \<Rightarrow> nat js_set" where
  "displaced_hypotheses symbolCount near cs =
     foldl (\<lambda>cs (cur, posting).
        if MAX_ALIGNMENT_CANDIDATES \<le> length cs then cs
        else addDisplacedStarts cs symbolCount posting (anchor_offset (cursor_anchor cur))) cs near"

text \<open>One pass over the cursors of the third loop: candidates, budget and the cursors moved.\<close>

fun spare_pass :: "nat \<Rightarrow> int \<Rightarrow> posting_cursor list \<Rightarrow> nat js_set \<Rightarrow> nat
    \<Rightarrow> nat js_set \<times> nat \<times> posting_cursor list" where
  "spare_pass symbolCount cursorSymbol [] cs rest = (cs, rest, [])"
| "spare_pass symbolCount cursorSymbol (cur # curs) cs rest =
     (if MAX_ALIGNMENT_CANDIDATES \<le> length cs \<or> rest = 0 then (cs, rest, cur # curs)
      else case takeNearestPosting cur cursorSymbol rest of
        (posting, cur', rest') \<Rightarrow>
          let cs' = (case posting of None \<Rightarrow> cs
                | Some p \<Rightarrow> addDisplacedStarts
                    (addStart cs symbolCount (int p - int (anchor_offset (cursor_anchor cur)))) symbolCount
                    p (anchor_offset (cursor_anchor cur)))
          in case spare_pass symbolCount cursorSymbol curs cs' rest' of
               (cs'', rest'', curs') \<Rightarrow> (cs'', rest'', cur' # curs'))"

lemma inspectedValue_rest: "inspectedValue vals i n = (v, n') \<Longrightarrow> n' \<le> n"
  by (auto simp: inspectedValue_def split: if_splits)

lemma takeNearestPosting_rest: "takeNearestPosting cur c n = (v, cur', n') \<Longrightarrow> n' \<le> n"
  by (auto simp: takeNearestPosting_def Let_def dest!: inspectedValue_rest split: if_splits prod.splits)

lemma spare_pass_rest: "spare_pass n c curs cs k = (cs', k', curs') \<Longrightarrow> k' \<le> k"
proof (induction n c curs cs k arbitrary: cs' k' curs' rule: spare_pass.induct)
  case (2 n c cur curs cs k)
  then show ?case
    by (auto simp: Let_def split: if_splits prod.splits) (metis takeNearestPosting_rest order_trans)
qed simp

function spare_loop :: "nat \<Rightarrow> int \<Rightarrow> posting_cursor list \<Rightarrow> nat js_set \<Rightarrow> nat \<Rightarrow> nat js_set \<times> nat" where
  "spare_loop symbolCount cursorSymbol curs cs rest =
     (if length cs < MAX_ALIGNMENT_CANDIDATES \<and> 0 < rest then
        case spare_pass symbolCount cursorSymbol curs cs rest of
          (cs', rest', curs') \<Rightarrow>
            if rest' = rest then (cs', rest') else spare_loop symbolCount cursorSymbol curs' cs' rest'
      else (cs, rest))"
  by pat_completeness auto
termination
proof (relation "measure (\<lambda>(n, c, curs, cs, rest). rest)", goal_cases)
  case (2 n c curs cs rest x y xa ya)
  then show ?case using spare_pass_rest [of n c curs cs rest x xa ya] by auto
qed simp

declare spare_loop.simps [simp del]

definition addGlobalCandidates :: "nat js_set \<Rightarrow> indexed_corpus \<Rightarrow> jstring list \<Rightarrow> int \<Rightarrow> nat js_set" where
  "addGlobalCandidates cs index phonemes cursorSymbol =
     (let n = length (ix_symbols index);
          st = first_hypotheses n cursorSymbol (queryAnchors index phonemes)
            \<lparr>gs_candidates = cs, gs_remaining = MAX_POSTING_INSPECTIONS, gs_cursors = [], gs_nearest = []\<rparr>
      in fst (spare_loop n cursorSymbol (gs_cursors st)
           (displaced_hypotheses n (gs_nearest st) (gs_candidates st)) (gs_remaining st)))"

definition retrieveCandidatePositions :: "indexed_corpus \<Rightarrow> jstring list \<Rightarrow> int \<Rightarrow> bool \<Rightarrow> nat list" where
  "retrieveCandidatePositions index phonemes cursorSymbol includeGlobal =
     (let cs = js_set_of (localPositions index cursorSymbol);
          cs' = (if includeGlobal \<and> phonemes \<noteq> []
                 then addGlobalCandidates cs index phonemes cursorSymbol else cs)
      in take MAX_ALIGNMENT_CANDIDATES cs')"

section \<open>Bounds of the local search\<close>

definition local_ok :: "nat \<Rightarrow> nat \<Rightarrow> nat list \<Rightarrow> bool" where
  "local_ok n c ps \<longleftrightarrow> ps \<noteq> [] \<and> hd ps = c \<and> distinct ps
     \<and> length ps \<le> MAX_LOCAL_CANDIDATES \<and> (\<forall>p \<in> set ps. p < n)"

lemma local_ok_add [intro]: "local_ok n c ps \<Longrightarrow> local_ok n c (add_position n p ps)"
  by (auto simp: local_ok_def add_position_def)

lemma local_ok_start: "c < n \<Longrightarrow> local_ok n c (add_position n (int c) [])"
  by (simp add: local_ok_def add_position_def candidate_limits)

lemma local_ok_fold: "local_ok n c ps \<Longrightarrow> local_ok n c (foldl (\<lambda>p x. add_position n (f x) p) ps xs)"
  by (induction xs arbitrary: ps) auto

lemma local_ok_walk_step: "local_ok n c (walk_positions w) \<Longrightarrow> local_ok n c (walk_positions (walk_step n k a p w))"
  by (auto simp: walk_step_def active_step_def previous_step_def Let_def split: option.splits)

lemma local_ok_loop:
  "local_ok n c (walk_positions w) \<Longrightarrow> local_ok n c (walk_positions (local_walk_loop n k a p w))"
proof (induction n k a p w rule: local_walk_loop.induct)
  case (1 n k a p w)
  show ?case
    unfolding local_walk_loop.simps [of n k a p w] Let_def
    using 1 local_ok_walk_step [OF "1.prems"] by (auto simp: Let_def)
qed

definition clamp_cursor :: "nat \<Rightarrow> int \<Rightarrow> nat" where
  "clamp_cursor n c = nat (max 0 (min c (int n - 1)))"

lemma clamp_cursor_less: "0 < n \<Longrightarrow> clamp_cursor n c < n"
  by (auto simp: clamp_cursor_def)

lemma localPositions_ok:
  assumes "ix_symbols index \<noteq> []"
  shows "local_ok (length (ix_symbols index)) (clamp_cursor (length (ix_symbols index)) c) (localPositions index c)"
proof -
  let ?n = "length (ix_symbols index)"
  have "clamp_cursor ?n c < ?n" using assms by (simp add: clamp_cursor_less)
  then show ?thesis
    using assms unfolding localPositions_def Let_def clamp_cursor_def [symmetric]
    by (auto simp: local_ok_def [of _ _ "[_]"] candidate_limits simp del: upt_Suc split: option.splits
        intro!: local_ok_loop local_ok_fold local_ok_add local_ok_start)
qed

section \<open>The binary search\<close>

lemma inspectedValue_at:
  "j < length vals \<Longrightarrow> rest \<noteq> 0 \<Longrightarrow> inspectedValue vals (int j) rest = (Some (vals ! j), rest - 1)"
  by (simp add: inspectedValue_def)

lemma lower_bound_loop_correct:
  assumes "sorted vals" "low \<le> high" "high \<le> length vals"
    "\<forall>i < low. int (vals ! i) < target" "\<forall>i. high \<le> i \<and> i < length vals \<longrightarrow> target \<le> int (vals ! i)"
    "lower_bound_loop vals target low high rest = (Some k, rest')"
  shows "k \<le> length vals \<and> (\<forall>i < k. int (vals ! i) < target)
    \<and> (\<forall>i. k \<le> i \<and> i < length vals \<longrightarrow> target \<le> int (vals ! i))"
  using assms
proof (induction vals target low high rest rule: lower_bound_loop.induct)
  case (1 vals target low high rest)
  show ?case
  proof (cases "low < high \<and> rest \<noteq> 0")
    case False
    then show ?thesis
      using "1.prems" by (auto simp: lower_bound_loop.simps [of vals target low high] inspectedValue_def Let_def
          split: if_splits)
  next
    case True
    let ?m = "low + (high - low) div 2"
    have m: "low \<le> ?m" "?m < high" using True by auto
    with "1.prems"(3) have len: "?m < length vals" by simp
    have seen: "inspectedValue vals (int ?m) rest = (Some (vals ! ?m), rest - 1)"
      using inspectedValue_at [OF len] True by blast
    note unfold = lower_bound_loop.simps [of vals target low high rest]
    show ?thesis
    proof (cases "int (vals ! ?m) < target")
      case below: True
      have "\<forall>i < ?m + 1. int (vals ! i) < target"
      proof safe
        fix i assume "i < ?m + 1"
        then have "vals ! i \<le> vals ! ?m" using "1.prems"(1) len by (simp add: sorted_nth_mono)
        then show "int (vals ! i) < target" using below by linarith
      qed
      moreover have "lower_bound_loop vals target (?m + 1) high (rest - 1) = (Some k, rest')"
        using "1.prems"(6) True below seen unfolding unfold Let_def by simp
      ultimately show ?thesis
        by (intro "1.IH"(1) [OF _ refl seen [symmetric] refl below])
          (use True m "1.prems"(1,3,5) in \<open>simp_all only: Suc_eq_plus1 [symmetric] Suc_le_eq\<close>)
    next
      case above: False
      have "target \<le> int (vals ! i)" if "?m \<le> i" "i < length vals" for i
      proof -
        have "vals ! ?m \<le> vals ! i" using "1.prems"(1) that by (simp add: sorted_nth_mono)
        then show ?thesis using above by linarith
      qed
      moreover have "lower_bound_loop vals target low ?m (rest - 1) = (Some k, rest')"
        using "1.prems"(6) True above seen unfolding unfold Let_def by simp
      ultimately show ?thesis
        by (intro "1.IH"(2) [OF _ refl seen [symmetric] refl above])
          (use True m "1.prems"(1,3,4) in \<open>simp_all only: less_imp_le\<close>, auto)
    qed
  qed
qed

lemma lower_bound_loop_returns:
  assumes "high \<le> length vals" "high - low < 2 ^ rest"
  shows "\<exists>k rest'. lower_bound_loop vals target low high rest = (Some k, rest')"
  using assms
proof (induction vals target low high rest rule: lower_bound_loop.induct)
  case (1 vals target low high rest)
  show ?case
  proof (cases "low < high")
    case False
    then show ?thesis by (simp add: lower_bound_loop.simps)
  next
    case True
    let ?m = "low + (high - low) div 2"
    have m: "low \<le> ?m" "?m < high" using True by auto
    from True "1.prems"(2) obtain r where r: "rest = Suc r" by (cases rest) auto
    have seen: "inspectedValue vals (int ?m) rest = (Some (vals ! ?m), r)"
      using inspectedValue_at [of ?m vals rest] m "1.prems"(1) r by (simp only: diff_Suc_1)
    have half: "high - (?m + 1) < 2 ^ r" "?m - low < 2 ^ r" using "1.prems"(2) r True by auto
    note unfold = lower_bound_loop.simps [of vals target low high rest]
    show ?thesis
    proof (cases "int (vals ! ?m) < target")
      case below: True
      from "1.IH"(1) [OF True refl seen [symmetric] refl below "1.prems"(1) half(1)] show ?thesis
        unfolding unfold Let_def using True seen below by simp
    next
      case above: False
      from "1.IH"(2) [OF True refl seen [symmetric] refl above _ half(2)] m "1.prems"(1) show ?thesis
        unfolding unfold Let_def using True seen above by simp
    qed
  qed
qed

section \<open>The sampled offsets\<close>

text \<open>The floor of the rounded quotient is the integer quotient: a proper fraction below an
  integer stays below it after rounding.\<close>

lemma floor_fl_quotient:
  fixes a b :: nat
  assumes "0 < b" "b \<le> 2 ^ 20" "a < 2 ^ 30"
  shows "\<lfloor>fl (of_nat a / of_nat b)\<rfloor> = int (a div b)"
proof (rule floor_unique)
  let ?q = "a div b"
  have q: "?q < 2 ^ 30" using assms(3) div_le_dividend [of a b] by linarith
  have lower: "(of_nat ?q :: rat) \<le> of_nat a / of_nat b"
    using assms(1) by (simp add: pos_le_divide_eq) (metis of_nat_le_iff of_nat_mult div_times_less_eq_dividend)
  have "is_double (of_int (int ?q))" using q by (intro is_double_int) simp
  with lower show "of_int (int ?q) \<le> fl (of_nat a / of_nat b)" by (intro double_le_fl) simp_all
  let ?d = "of_int (int (?q + 1) * 2 ^ 20 - 1) * pow2 (- 20) :: rat"
  have "is_double ?d"
    unfolding is_double_def
  proof (intro exI conjI)
    show "\<bar>int (?q + 1) * 2 ^ 20 - 1\<bar> \<le> 2 ^ 53" using q by simp
    show "- 1074 \<le> (- 20 :: int)" by simp
  qed simp
  moreover have "of_nat a / of_nat b \<le> ?d"
  proof -
    have "a + 1 \<le> (?q + 1) * b" using assms(1) dividend_less_div_times [of b a] by simp
    then have "(of_nat (a + 1) :: rat) \<le> of_nat ((?q + 1) * b)" by (simp only: of_nat_le_iff)
    then have "of_nat a / of_nat b + 1 / of_nat b \<le> (of_nat (?q + 1) :: rat)"
      using assms(1) by (simp add: add_divide_distrib [symmetric] pos_divide_le_eq algebra_simps)
    moreover have "1 / (2 ^ 20 :: rat) \<le> 1 / of_nat b"
    proof -
      have "(of_nat b :: rat) \<le> of_nat (2 ^ 20)" using assms(2) by (simp only: of_nat_le_iff)
      then show ?thesis using assms(1) by (simp add: frac_le)
    qed
    moreover have "?d = of_nat (?q + 1) - 1 / 2 ^ 20" by (simp add: pow2_def field_simps)
    ultimately show ?thesis by linarith
  qed
  ultimately have "fl (of_nat a / of_nat b) \<le> ?d" by (rule fl_le_double)
  also have "?d < of_int (int ?q) + 1" by (simp add: pow2_def field_simps)
  finally show "fl (of_nat a / of_nat b) < of_int (int ?q) + 1" .
qed

lemma sampledOffsets_exact:
  assumes "number \<le> 2 ^ 20" "budget \<le> 64"
  shows "sampledOffsets number budget =
    (if number \<le> budget then [0..<number] else if budget = 1 then [0]
     else map (\<lambda>sample. sample * (number - 1) div (budget - 1)) [0..<budget])"
proof -
  have "nat \<lfloor>fl (of_nat (sample * (number - 1)) / of_nat (budget - 1))\<rfloor> = sample * (number - 1) div (budget - 1)"
    if "sample < budget" "budget \<noteq> 1" for sample
  proof -
    have "sample * (number - 1) \<le> 64 * 2 ^ 20" using assms that by (intro mult_le_mono) auto
    then show ?thesis using assms that by (subst floor_fl_quotient) auto
  qed
  note exact = this
  have "map (\<lambda>sample. nat \<lfloor>fl (of_nat (sample * (number - 1)) / of_nat (budget - 1))\<rfloor>) [0..<budget]
      = map (\<lambda>sample. sample * (number - 1) div (budget - 1)) [0..<budget]" if "budget \<noteq> 1"
    using that by (intro map_cong refl exact) auto
  then show ?thesis unfolding sampledOffsets_def by (auto simp only: split: if_split)
qed

lemma sampledOffsets_less:
  assumes "number \<le> 2 ^ 20" "budget \<le> 64" "0 < number" "x \<in> set (sampledOffsets number budget)"
  shows "x < number"
proof -
  have "sample * (number - 1) div (budget - 1) < number" if "sample < budget" "budget \<noteq> 1" for sample
  proof -
    have "sample * (number - 1) div (budget - 1) \<le> (budget - 1) * (number - 1) div (budget - 1)"
      using that by (intro div_le_mono mult_le_mono1) simp
    also have "\<dots> = number - 1" using that by simp
    finally show ?thesis using assms(3) by simp
  qed
  then show ?thesis
    using assms by (auto simp: sampledOffsets_exact split: if_splits)
qed

section \<open>Anchors and the global search\<close>

interpretation anchor_order: consistent_comparator compareAnchors
  by unfold_locales (auto simp: compareAnchors_def split: if_splits)

text \<open>An anchor of the queries: its postings are those of the n-gram at its offset.\<close>

definition is_anchor :: "indexed_corpus \<Rightarrow> jstring list \<Rightarrow> anchor \<Rightarrow> bool" where
  "is_anchor index phonemes a \<longleftrightarrow>
     js_map_get (ix_phonemeNgramPostings index) (slice_key phonemes (anchor_offset a) (anchor_length a))
       = Some (anchor_postings a)
     \<and> anchor_length a \<in> {1..3}"

lemma query_offset_anchors:
  assumes "n \<in> {1..3}" "\<forall>a \<in> set (snd st). is_anchor index phonemes a"
  shows "\<forall>a \<in> set (snd (query_offset index phonemes n st off)). is_anchor index phonemes a"
  using assms by (auto simp: query_offset_def is_anchor_def split: prod.splits option.splits if_splits)

lemma queryAnchors_anchors: "\<forall>a \<in> set (queryAnchors index phonemes). is_anchor index phonemes a"
proof -
  have inner: "\<forall>a \<in> set (snd (foldl (query_offset index phonemes n) st offs)). is_anchor index phonemes a"
    if "n \<in> {1..3}" "\<forall>a \<in> set (snd st). is_anchor index phonemes a" for n st offs
    using that(2)
  proof (induction offs arbitrary: st)
    case (Cons off offs)
    from Cons.IH [OF query_offset_anchors [OF that(1) Cons.prems]] show ?case by simp
  qed simp
  have "\<forall>a \<in> set (snd (foldl (\<lambda>st n. foldl (query_offset index phonemes n) st (f n)) st ns)). is_anchor index phonemes a"
    if "set ns \<subseteq> {1..3}" "\<forall>a \<in> set (snd st). is_anchor index phonemes a" for ns st f
    using that
  proof (induction ns arbitrary: st)
    case (Cons n ns)
    from Cons.prems have "n \<in> {1..3}" by simp
    from Cons.IH [OF _ inner [OF this Cons.prems(2)]] Cons.prems(1) show ?case by simp
  qed simp
  from this [of "rev [1..<min FORWARD_PHONEME_COUNT (length phonemes) + 1]" "(0, [])"] show ?thesis
    by (simp add: queryAnchors_def Let_def candidate_limits subset_iff)
qed

lemma takeNearestPosting_spec:
  assumes "takeNearestPosting cur c n = (v, cur', n')"
  shows "cursor_anchor cur' = cursor_anchor cur
    \<and> (\<forall>p. v = Some p \<longrightarrow> p \<in> set (anchor_postings (cursor_anchor cur)))"
  using assms
  by (auto simp: takeNearestPosting_def Let_def inspectedValue_def split: if_splits option.splits prod.splits)

lemma createPostingCursor_anchor: "createPostingCursor a c n = (Some cur, n') \<Longrightarrow> cursor_anchor cur = a"
  by (auto simp: createPostingCursor_def split: prod.splits option.splits)

text \<open>A start within three symbols of where an anchor puts the observation.\<close>

definition near_anchor :: "anchor set \<Rightarrow> nat \<Rightarrow> bool" where
  "near_anchor A x \<longleftrightarrow> (\<exists>a \<in> A. \<exists>p \<in> set (anchor_postings a).
     \<bar>int x - (int p - int (anchor_offset a))\<bar> \<le> int MAX_ANCHOR_DISPLACEMENT)"

definition search_ok :: "anchor set \<Rightarrow> nat \<Rightarrow> nat list \<Rightarrow> nat js_set \<Rightarrow> bool" where
  "search_ok A n base cs \<longleftrightarrow> (\<exists>extra. cs = base @ extra \<and> (\<forall>x \<in> set extra. near_anchor A x))
     \<and> distinct cs \<and> length cs \<le> MAX_ALIGNMENT_CANDIDATES \<and> (\<forall>x \<in> set cs. x < n)"

lemma search_ok_addStart:
  assumes "search_ok A n base cs" "a \<in> A" "p \<in> set (anchor_postings a)"
    "\<bar>start - (int p - int (anchor_offset a))\<bar> \<le> int MAX_ANCHOR_DISPLACEMENT"
  shows "search_ok A n base (addStart cs n start)"
proof -
  have "near_anchor A (nat start)" if "0 \<le> start"
    using assms(2-4) that unfolding near_anchor_def by (metis int_nat_eq)
  with assms(1) show ?thesis
    by (auto simp: search_ok_def addStart_def js_set_add_def)
qed

lemma search_ok_displaced:
  assumes "search_ok A n base cs" "a \<in> A" "p \<in> set (anchor_postings a)"
  shows "search_ok A n base (addDisplacedStarts cs n p (anchor_offset a))"
proof -
  let ?f = "\<lambda>cs distance. if length cs < MAX_ALIGNMENT_CANDIDATES
      then addStart (addStart cs n (int p - int (anchor_offset a) + int distance)) n
             (int p - int (anchor_offset a) - int distance)
      else cs"
  have "search_ok A n base (foldl ?f cs ds)" if "set ds \<subseteq> {1..MAX_ANCHOR_DISPLACEMENT}" for ds
    using that assms(1)
  proof (induction ds arbitrary: cs)
    case (Cons d ds)
    then have "search_ok A n base (?f cs d)"
      by (auto intro!: search_ok_addStart [OF _ assms(2,3)])
    with Cons show ?case by simp
  qed simp
  note fold = this
  have "set [1..<MAX_ANCHOR_DISPLACEMENT + 1] \<subseteq> {1..MAX_ANCHOR_DISPLACEMENT}" by auto
  from fold [OF this] show ?thesis by (simp only: addDisplacedStarts_def Let_def)
qed

lemma first_hypotheses_ok:
  assumes "search_ok A n base (gs_candidates st)" "set as \<subseteq> A"
    "\<forall>cur \<in> set (gs_cursors st). cursor_anchor cur \<in> A"
    "\<forall>(cur, p) \<in> set (gs_nearest st). cursor_anchor cur \<in> A \<and> p \<in> set (anchor_postings (cursor_anchor cur))"
  shows "search_ok A n base (gs_candidates (first_hypotheses n c as st))
    \<and> (\<forall>cur \<in> set (gs_cursors (first_hypotheses n c as st)). cursor_anchor cur \<in> A)
    \<and> (\<forall>(cur, p) \<in> set (gs_nearest (first_hypotheses n c as st)).
         cursor_anchor cur \<in> A \<and> p \<in> set (anchor_postings (cursor_anchor cur)))"
  using assms
proof (induction n c as st rule: first_hypotheses.induct)
  case (2 n c a as st)
  show ?case
  proof (cases "MAX_ALIGNMENT_CANDIDATES \<le> length (gs_candidates st) \<or> gs_remaining st = 0")
    case True
    with "2.prems" show ?thesis by simp
  next
    case False
    obtain m rest where create: "createPostingCursor a c (gs_remaining st) = (m, rest)" by force
    show ?thesis
    proof (cases m)
      case None
      with "2.prems" False create show ?thesis by simp
    next
      case (Some cur)
      obtain v cur' rest' where take: "takeNearestPosting cur c rest = (v, cur', rest')" by (rule prod_cases3)
      have anchor: "cursor_anchor cur = a" "cursor_anchor cur' = a"
        using createPostingCursor_anchor takeNearestPosting_spec [OF take] create Some by auto
      note unfold = first_hypotheses.simps(2) [of n c a as st]
      note IH = "2.IH" [OF False create [symmetric] Some take [symmetric] _ refl]
      show ?thesis
      proof (cases v)
        case None
        from IH(1) [OF None] "2.prems" anchor show ?thesis
          unfolding unfold using False create Some take None by simp
      next
        case (Some p)
        then have "p \<in> set (anchor_postings a)" using takeNearestPosting_spec [OF take] anchor by simp
        moreover have "a \<in> A" using "2.prems"(2) by simp
        ultimately have "search_ok A n base (addStart (gs_candidates st) n (int p - int (anchor_offset a)))"
          using "2.prems"(1) by (intro search_ok_addStart [where a = a and p = p]) simp_all
        with IH(2) [OF Some] "2.prems" anchor \<open>p \<in> set (anchor_postings a)\<close> show ?thesis
          unfolding unfold using False create \<open>m = Some cur\<close> take Some by simp
      qed
    qed
  qed
qed simp

lemma displaced_hypotheses_ok:
  assumes "search_ok A n base cs"
    "\<forall>(cur, p) \<in> set near. cursor_anchor cur \<in> A \<and> p \<in> set (anchor_postings (cursor_anchor cur))"
  shows "search_ok A n base (displaced_hypotheses n near cs)"
  using assms unfolding displaced_hypotheses_def
proof (induction near arbitrary: cs)
  case (Cons x near)
  obtain cur p where x: "x = (cur, p)" by force
  have "search_ok A n base (if MAX_ALIGNMENT_CANDIDATES \<le> length cs then cs
      else addDisplacedStarts cs n p (anchor_offset (cursor_anchor cur)))"
    using Cons.prems x by (auto intro: search_ok_displaced)
  from Cons.IH [OF this] Cons.prems(2) x show ?case by simp
qed simp

lemma spare_pass_ok:
  assumes "search_ok A n base cs" "\<forall>cur \<in> set curs. cursor_anchor cur \<in> A"
    "spare_pass n c curs cs k = (cs', k', curs')"
  shows "search_ok A n base cs' \<and> (\<forall>cur \<in> set curs'. cursor_anchor cur \<in> A)"
  using assms
proof (induction n c curs cs k arbitrary: cs' k' curs' rule: spare_pass.induct)
  case (2 n c cur curs cs k)
  show ?case
  proof (cases "MAX_ALIGNMENT_CANDIDATES \<le> length cs \<or> k = 0")
    case True
    with "2.prems" show ?thesis by auto
  next
    case False
    obtain v cur1 k1 where take: "takeNearestPosting cur c k = (v, cur1, k1)" by (rule prod_cases3)
    let ?cs = "case v of None \<Rightarrow> cs | Some p \<Rightarrow> addDisplacedStarts
        (addStart cs n (int p - int (anchor_offset (cursor_anchor cur)))) n p (anchor_offset (cursor_anchor cur))"
    obtain cs2 k2 curs2 where rest: "spare_pass n c curs ?cs k1 = (cs2, k2, curs2)"
      by (rule prod_cases3)
    have "search_ok A n base ?cs"
    proof (cases v)
      case (Some p)
      then have "p \<in> set (anchor_postings (cursor_anchor cur))" using takeNearestPosting_spec [OF take] by simp
      then show ?thesis
        using "2.prems"(1,2) Some by (auto intro!: search_ok_displaced search_ok_addStart)
    qed (use "2.prems" in simp)
    from "2.IH" [OF False take [symmetric] refl refl this _ rest] "2.prems"(2)
    have "search_ok A n base cs2 \<and> (\<forall>cur \<in> set curs2. cursor_anchor cur \<in> A)" by simp
    moreover have "spare_pass n c (cur # curs) cs k = (cs2, k2, cur1 # curs2)"
      unfolding spare_pass.simps using False take rest by (simp only: if_False prod.case Let_def)
    moreover have "cursor_anchor cur1 \<in> A" using takeNearestPosting_spec [OF take] "2.prems"(2) by simp
    ultimately show ?thesis using "2.prems"(3) by (auto simp del: spare_pass.simps)
  qed
qed simp

lemma spare_loop_ok:
  assumes "search_ok A n base cs" "\<forall>cur \<in> set curs. cursor_anchor cur \<in> A"
  shows "search_ok A n base (fst (spare_loop n c curs cs k))"
  using assms
proof (induction n c curs cs k rule: spare_loop.induct)
  case (1 n c curs cs k)
  obtain cs' k' curs' where pass: "spare_pass n c curs cs k = (cs', k', curs')" by (rule prod_cases3)
  note ok = spare_pass_ok [OF "1.prems" pass]
  show ?case
    using "1.IH" [OF _ pass [symmetric] refl] ok pass "1.prems"
    by (simp add: spare_loop.simps [of n c curs cs k])
qed

lemma addGlobalCandidates_ok:
  assumes "search_ok A (length (ix_symbols index)) base cs" "set (queryAnchors index phonemes) \<subseteq> A"
  shows "search_ok A (length (ix_symbols index)) base (addGlobalCandidates cs index phonemes c)"
proof -
  let ?n = "length (ix_symbols index)"
  let ?st = "first_hypotheses ?n c (queryAnchors index phonemes)
      \<lparr>gs_candidates = cs, gs_remaining = MAX_POSTING_INSPECTIONS, gs_cursors = [], gs_nearest = []\<rparr>"
  from first_hypotheses_ok [of A ?n base "\<lparr>gs_candidates = cs, gs_remaining = MAX_POSTING_INSPECTIONS,
      gs_cursors = [], gs_nearest = []\<rparr>" "queryAnchors index phonemes" c] assms
  have "search_ok A ?n base (gs_candidates ?st)" "\<forall>cur \<in> set (gs_cursors ?st). cursor_anchor cur \<in> A"
    "\<forall>(cur, p) \<in> set (gs_nearest ?st). cursor_anchor cur \<in> A \<and> p \<in> set (anchor_postings (cursor_anchor cur))"
    by simp_all
  then show ?thesis
    unfolding addGlobalCandidates_def Let_def
    by (intro spare_loop_ok displaced_hypotheses_ok)
qed

lemma search_ok_local:
  assumes "local_ok n c ps"
  shows "search_ok A n ps (js_set_of ps)"
  using assms by (simp add: local_ok_def search_ok_def js_set_of_distinct candidate_limits)

lemma retrieve_ok:
  assumes "ix_symbols index \<noteq> []"
  shows "search_ok (set (queryAnchors index phonemes)) (length (ix_symbols index)) (localPositions index c)
    (retrieveCandidatePositions index phonemes c glob)"
proof -
  let ?A = "set (queryAnchors index phonemes)" and ?n = "length (ix_symbols index)"
  have start: "search_ok ?A ?n (localPositions index c) (js_set_of (localPositions index c))"
    using search_ok_local [OF localPositions_ok [OF assms]] .
  then have ok: "search_ok ?A ?n (localPositions index c)
      (if glob \<and> phonemes \<noteq> [] then addGlobalCandidates (js_set_of (localPositions index c)) index phonemes c
       else js_set_of (localPositions index c))"
    using addGlobalCandidates_ok [OF _ order_refl] by simp
  then have "take MAX_ALIGNMENT_CANDIDATES (if glob \<and> phonemes \<noteq> []
       then addGlobalCandidates (js_set_of (localPositions index c)) index phonemes c
       else js_set_of (localPositions index c)) =
      (if glob \<and> phonemes \<noteq> [] then addGlobalCandidates (js_set_of (localPositions index c)) index phonemes c
       else js_set_of (localPositions index c))"
    by (simp only: search_ok_def take_all)
  with ok show ?thesis unfolding retrieveCandidatePositions_def Let_def by (simp only:)
qed

lemma retrieve_local:
  "ix_symbols index \<noteq> [] \<Longrightarrow> retrieveCandidatePositions index phonemes c False = localPositions index c"
  using localPositions_ok [of index c]
  by (simp add: retrieveCandidatePositions_def local_ok_def js_set_of_distinct candidate_limits)

end
