(* ===== verification/Candidates_Local.thy ===== *)
theory Candidates_Local
  imports Candidates
begin

text \<open>
  What \<open>retrieveCandidatePositions\<close> promises: the local search visits exactly the active ayah,
  the ayah before it and the three symbols after it, unless it reaches its bound; the retrieved
  positions are bounded, distinct, inside the corpus, start with the local ones, and every
  other one lies near an occurrence of an n-gram of the observation.
\<close>

section \<open>The walk misses nothing\<close>

text \<open>The walk around cursor \<open>c\<close> of a corpus of \<open>n\<close> symbols, in the active range \<open>a\<close> after the
  previous range \<open>prev\<close>: what has been visited so far.\<close>

definition visited :: "nat \<Rightarrow> corpus_range \<Rightarrow> corpus_range option \<Rightarrow> int \<Rightarrow> int \<Rightarrow> int \<Rightarrow> nat set" where
  "visited n a prev l r pr = {p. (l < int p \<and> int p < r)
     \<or> (\<exists>R. prev = Some R \<and> pr < int p \<and> p < range_end R)
     \<or> (range_end a \<le> p \<and> p < range_end a + 3 \<and> p < n)}"

definition ranges_ok :: "nat \<Rightarrow> nat \<Rightarrow> corpus_range \<Rightarrow> corpus_range option \<Rightarrow> bool" where
  "ranges_ok n c a prev \<longleftrightarrow> range_start a \<le> c \<and> c < range_end a \<and> range_end a \<le> n
     \<and> (\<forall>R. prev = Some R \<longrightarrow> range_start R < range_end R \<and> range_end R \<le> range_start a)"

definition walk_ok :: "nat \<Rightarrow> nat \<Rightarrow> corpus_range \<Rightarrow> corpus_range option \<Rightarrow> local_walk \<Rightarrow> bool" where
  "walk_ok n c a prev w \<longleftrightarrow> int (range_start a) - 1 \<le> activeLeft w \<and> activeLeft w < int c
     \<and> int c < activeRight w \<and> activeRight w \<le> int (range_end a)
     \<and> (\<forall>R. prev = Some R \<longrightarrow> int (range_start R) - 1 \<le> previousRight w \<and> previousRight w < int (range_end R))
     \<and> (length (walk_positions w) = MAX_LOCAL_CANDIDATES
        \<or> set (walk_positions w) = visited n a prev (activeLeft w) (activeRight w) (previousRight w))
     \<and> set (walk_positions w) \<subseteq> visited n a prev (activeLeft w) (activeRight w) (previousRight w)
     \<and> length (walk_positions w) \<le> MAX_LOCAL_CANDIDATES"

lemma add_position_fresh:
  assumes "length ps < MAX_LOCAL_CANDIDATES" "0 \<le> p" "p < int n" "nat p \<notin> set ps"
  shows "add_position n p ps = ps @ [nat p]"
  using assms by (simp add: add_position_def)

lemma walk_ok_extend:
  assumes "set ps \<subseteq> V" "length ps = MAX_LOCAL_CANDIDATES \<or> set ps = V" "length ps \<le> MAX_LOCAL_CANDIDATES"
    "0 \<le> p" "p < int n" "nat p \<notin> V" "V' = insert (nat p) V"
  shows "set (add_position n p ps) \<subseteq> V'
    \<and> (length (add_position n p ps) = MAX_LOCAL_CANDIDATES \<or> set (add_position n p ps) = V')
    \<and> length (add_position n p ps) \<le> MAX_LOCAL_CANDIDATES
    \<and> (length ps < MAX_LOCAL_CANDIDATES \<longrightarrow> length (add_position n p ps) = Suc (length ps))"
proof (cases "length ps = MAX_LOCAL_CANDIDATES")
  case True
  then show ?thesis using assms(1,7) by (auto simp: add_position_def)
next
  case False
  with assms have "add_position n p ps = ps @ [nat p]" by (intro add_position_fresh) auto
  then show ?thesis using assms False by auto
qed

lemma walk_ok_active:
  assumes "ranges_ok n c a prev" "walk_ok n c a prev w"
  shows "walk_ok n c a prev (active_step n (int c) a w)
    \<and> (length (walk_positions w) < MAX_LOCAL_CANDIDATES
        \<and> length (walk_positions (active_step n (int c) a w)) = length (walk_positions w)
       \<longrightarrow> activeLeft w < int (range_start a) \<and> int (range_end a) \<le> activeRight w
          \<and> active_step n (int c) a w = w)"
proof -
  let ?V = "visited n a prev" and ?l = "activeLeft w" and ?r = "activeRight w" and ?p = "previousRight w"
  have ok: "set (walk_positions w) \<subseteq> ?V ?l ?r ?p"
      "length (walk_positions w) = MAX_LOCAL_CANDIDATES \<or> set (walk_positions w) = ?V ?l ?r ?p"
      "length (walk_positions w) \<le> MAX_LOCAL_CANDIDATES"
    using assms(2) by (simp_all add: walk_ok_def)
  have left: "nat ?l \<notin> ?V ?l ?r ?p \<and> ?V (?l - 1) ?r ?p = insert (nat ?l) (?V ?l ?r ?p)"
    if "int (range_start a) \<le> ?l"
    using that assms by (fastforce simp: visited_def walk_ok_def ranges_ok_def)
  have right: "nat ?r \<notin> ?V ?l ?r ?p \<and> ?V ?l (?r + 1) ?p = insert (nat ?r) (?V ?l ?r ?p)"
    if "?r < int (range_end a)"
    using that assms by (fastforce simp: visited_def walk_ok_def ranges_ok_def)
  let ?L = "w\<lparr>walk_positions := add_position n ?l (walk_positions w), activeLeft := ?l - 1\<rparr>"
  let ?R = "w\<lparr>walk_positions := add_position n ?r (walk_positions w), activeRight := ?r + 1\<rparr>"
  have goLeft: "walk_ok n c a prev ?L \<and> (length (walk_positions w) < MAX_LOCAL_CANDIDATES
      \<longrightarrow> length (walk_positions ?L) \<noteq> length (walk_positions w))" if "int (range_start a) \<le> ?l"
    using walk_ok_extend [OF ok, of ?l n "?V (?l - 1) ?r ?p"] left [OF that] that assms
    by (auto simp: walk_ok_def ranges_ok_def)
  have goRight: "walk_ok n c a prev ?R \<and> (length (walk_positions w) < MAX_LOCAL_CANDIDATES
      \<longrightarrow> length (walk_positions ?R) \<noteq> length (walk_positions w))" if "?r < int (range_end a)"
    using walk_ok_extend [OF ok, of ?r n "?V ?l (?r + 1) ?p"] right [OF that] that assms
    by (auto simp: walk_ok_def ranges_ok_def)
  show ?thesis
    unfolding active_step_def Let_def using goLeft goRight assms(2) by (auto simp: not_le not_less)
qed

lemma walk_ok_previous:
  assumes "ranges_ok n c a prev" "walk_ok n c a prev w"
  shows "walk_ok n c a prev (previous_step n prev w)
    \<and> (length (walk_positions w) < MAX_LOCAL_CANDIDATES
        \<and> length (walk_positions (previous_step n prev w)) = length (walk_positions w)
       \<longrightarrow> (\<forall>R. prev = Some R \<longrightarrow> previousRight w < int (range_start R)) \<and> previous_step n prev w = w)"
proof (cases prev)
  case None
  with assms show ?thesis by (simp add: previous_step_def)
next
  case (Some R)
  let ?V = "visited n a prev" and ?l = "activeLeft w" and ?r = "activeRight w" and ?p = "previousRight w"
  have ok: "set (walk_positions w) \<subseteq> ?V ?l ?r ?p"
      "length (walk_positions w) = MAX_LOCAL_CANDIDATES \<or> set (walk_positions w) = ?V ?l ?r ?p"
      "length (walk_positions w) \<le> MAX_LOCAL_CANDIDATES"
    using assms(2) by (simp_all add: walk_ok_def)
  let ?P = "w\<lparr>walk_positions := add_position n ?p (walk_positions w), previousRight := ?p - 1\<rparr>"
  have "walk_ok n c a prev ?P \<and> (length (walk_positions w) < MAX_LOCAL_CANDIDATES
      \<longrightarrow> length (walk_positions ?P) \<noteq> length (walk_positions w))" if "int (range_start R) \<le> ?p"
  proof -
    have fresh: "nat ?p \<notin> ?V ?l ?r ?p" and grow: "?V ?l ?r (?p - 1) = insert (nat ?p) (?V ?l ?r ?p)"
      using that assms Some by (fastforce simp: visited_def walk_ok_def ranges_ok_def)+
    have "0 \<le> ?p" "?p < int n" using that assms Some by (auto simp: walk_ok_def ranges_ok_def)
    from walk_ok_extend [OF ok this fresh grow] that assms Some show ?thesis
      by (auto simp: walk_ok_def)
  qed
  then show ?thesis using Some assms(2) by (auto simp: previous_step_def not_le)
qed

definition walk_done :: "corpus_range \<Rightarrow> corpus_range option \<Rightarrow> local_walk \<Rightarrow> bool" where
  "walk_done a prev w \<longleftrightarrow> activeLeft w < int (range_start a) \<and> int (range_end a) \<le> activeRight w
     \<and> (\<forall>R. prev = Some R \<longrightarrow> previousRight w < int (range_start R))"

lemma walk_ok_loop:
  assumes "ranges_ok n c a prev" "walk_ok n c a prev w"
  shows "walk_ok n c a prev (local_walk_loop n (int c) a prev w)
    \<and> (length (walk_positions (local_walk_loop n (int c) a prev w)) = MAX_LOCAL_CANDIDATES
       \<or> walk_done a prev (local_walk_loop n (int c) a prev w))"
  using assms
proof (induction n "int c" a prev w rule: local_walk_loop.induct)
  case (1 n a prev w)
  let ?u = "active_step n (int c) a w"
  let ?w = "walk_step n (int c) a prev w"
  note act = walk_ok_active [OF "1.prems"]
  note pre = walk_ok_previous [OF "1.prems"(1) act [THEN conjunct1]]
  have step: "walk_ok n c a prev ?w" using pre by (simp add: walk_step_def)
  note unfold = local_walk_loop.simps [of n "int c" a prev w]
  show ?case
  proof (cases "length (walk_positions w) < MAX_LOCAL_CANDIDATES")
    case False
    with "1.prems"(2) show ?thesis unfolding unfold by (simp add: walk_ok_def)
  next
    case True
    show ?thesis
    proof (cases "length (walk_positions ?w) = length (walk_positions w)")
      case same: True
      have "length (walk_positions ?u) = length (walk_positions w)"
        using same active_step_length [of w n "int c" a] previous_step_length [of ?u n prev]
        by (simp add: walk_step_def)
      with act True have u: "?u = w" "activeLeft w < int (range_start a)" "int (range_end a) \<le> activeRight w"
        by simp_all
      with pre True same have "walk_done a prev ?w" by (simp add: walk_step_def walk_done_def)
      then show ?thesis unfolding unfold using True same step by (simp add: Let_def)
    next
      case False
      from "1.hyps" [OF True refl refl _ "1.prems"(1) step] False show ?thesis
        unfolding unfold using True by (simp add: Let_def)
    qed
  qed
qed

section \<open>The window\<close>

text \<open>Position \<open>j\<close> is in the window of \<open>k\<close>: in its ayah, in an ayah that ends right before it, or
  at most three symbols after it.\<close>

definition in_window :: "quran_symbol list \<Rightarrow> nat \<Rightarrow> nat \<Rightarrow> bool" where
  "in_window ss k j \<longleftrightarrow> j < length ss
     \<and> (same_ayah (ss ! j) (ss ! k)
        \<or> (\<exists>i \<in> {0..<length ss}. Suc i < length ss \<and> same_ayah (ss ! Suc i) (ss ! k) \<and> same_ayah (ss ! j) (ss ! i))
        \<or> (\<exists>i \<in> {j - 3..<j}. same_ayah (ss ! i) (ss ! k)))"

lemma ayah_exact_iff:
  "ayah_exact ss R k \<Longrightarrow> j < length ss \<Longrightarrow> same_ayah (ss ! j) (ss ! k) \<longleftrightarrow> range_start R \<le> j \<and> j < range_end R"
  by (simp add: ayah_exact_def)

lemma window_visited:
  assumes "k < length ss" "ayah_exact ss a k"
    "0 < range_start a \<Longrightarrow> \<exists>R. prev = Some R \<and> ayah_exact ss R (range_start a - 1)"
    "range_start a = 0 \<Longrightarrow> prev = None"
    "walk_ok (length ss) k a prev w" "walk_done a prev w"
  shows "visited (length ss) a prev (activeLeft w) (activeRight w) (previousRight w) = {j. in_window ss k j}"
proof -
  have k: "range_start a \<le> k" "k < range_end a" "range_end a \<le> length ss"
    using assms(1,2) by (auto simp: ayah_exact_def)
  have active: "same_ayah (ss ! j) (ss ! k) \<longleftrightarrow> range_start a \<le> j \<and> j < range_end a" if "j < length ss" for j
    using ayah_exact_iff [OF assms(2) that] .
  have bounds: "activeLeft w = int (range_start a) - 1" "activeRight w = int (range_end a)"
    using assms(5,6) by (auto simp: walk_ok_def walk_done_def)
  have after: "(\<exists>i \<in> {j - 3..<j}. same_ayah (ss ! i) (ss ! k)) \<and> \<not> (range_start a \<le> j \<and> j < range_end a)
      \<longleftrightarrow> range_end a \<le> j \<and> j < range_end a + 3" if "j < length ss" for j
  proof
    assume "(\<exists>i \<in> {j - 3..<j}. same_ayah (ss ! i) (ss ! k)) \<and> \<not> (range_start a \<le> j \<and> j < range_end a)"
    then obtain i where "i < j" "j - 3 \<le> i" "same_ayah (ss ! i) (ss ! k)" "\<not> (range_start a \<le> j \<and> j < range_end a)"
      by auto
    with active [of i] that show "range_end a \<le> j \<and> j < range_end a + 3" by auto
  next
    assume j: "range_end a \<le> j \<and> j < range_end a + 3"
    with k active [of "range_end a - 1"] have "same_ayah (ss ! (range_end a - 1)) (ss ! k)" by auto
    moreover have "range_end a - 1 \<in> {j - 3..<j}" using j k by auto
    ultimately show "(\<exists>i \<in> {j - 3..<j}. same_ayah (ss ! i) (ss ! k)) \<and> \<not> (range_start a \<le> j \<and> j < range_end a)"
      using j by auto
  qed
  have before: "(\<exists>i \<in> {0..<length ss}. Suc i < length ss \<and> same_ayah (ss ! Suc i) (ss ! k) \<and> same_ayah (ss ! j) (ss ! i))
      \<or> (range_start a \<le> j \<and> j < range_end a)
      \<longleftrightarrow> (\<exists>R. prev = Some R \<and> previousRight w < int j \<and> j < range_end R) \<or> (range_start a \<le> j \<and> j < range_end a)"
    if j: "j < length ss" for j
  proof (cases "range_start a = 0")
    case True
    have "same_ayah (ss ! j) (ss ! k)" if "Suc i < length ss" "same_ayah (ss ! Suc i) (ss ! k)" "same_ayah (ss ! j) (ss ! i)" for i
    proof -
      have "same_ayah (ss ! i) (ss ! k)" using active [of "Suc i"] active [of i] that True by auto
      with that(3) show ?thesis by (rule same_ayah_trans)
    qed
    with assms(4) [OF True] active [OF j] show ?thesis by auto
  next
    case False
    then obtain R where R: "prev = Some R" "ayah_exact ss R (range_start a - 1)" using assms(3) by auto
    have s: "range_start a - 1 < length ss" using k False assms(1) by simp
    note inR = ayah_exact_iff [OF R(2) j]
    have "(\<exists>i \<in> {0..<length ss}. Suc i < length ss \<and> same_ayah (ss ! Suc i) (ss ! k) \<and> same_ayah (ss ! j) (ss ! i))
      \<or> (range_start a \<le> j \<and> j < range_end a) \<longleftrightarrow> same_ayah (ss ! j) (ss ! (range_start a - 1))
      \<or> (range_start a \<le> j \<and> j < range_end a)" (is "?l \<longleftrightarrow> ?r")
    proof
      assume ?l
      then consider i where "Suc i < length ss" "same_ayah (ss ! Suc i) (ss ! k)" "same_ayah (ss ! j) (ss ! i)"
        | "range_start a \<le> j \<and> j < range_end a" by auto
      then show ?r
      proof cases
        case 1
        from active [OF 1(1)] 1(2) have i: "range_start a \<le> Suc i" "Suc i < range_end a" by simp_all
        show ?thesis
        proof (cases "range_start a = Suc i")
          case False
          with i active [of i] 1(1) have "same_ayah (ss ! i) (ss ! k)" by simp
          with 1(3) have "same_ayah (ss ! j) (ss ! k)" by (rule same_ayah_trans)
          with active [OF j] show ?thesis by simp
        qed (use 1 in simp)
      qed simp
    next
      assume ?r
      moreover have "same_ayah (ss ! Suc (range_start a - 1)) (ss ! k)"
        using active [of "range_start a"] k False assms(1) by auto
      moreover have "Suc (range_start a - 1) < length ss" using k False assms(1) by simp
      ultimately show ?l using s by auto
    qed
    moreover have "(\<exists>R. prev = Some R \<and> previousRight w < int j \<and> j < range_end R)
        \<longleftrightarrow> range_start R \<le> j \<and> j < range_end R"
      using R(1) assms(5,6) by (auto simp: walk_ok_def walk_done_def)
    ultimately show ?thesis using inR by simp
  qed
  show ?thesis
  proof (rule set_eqI)
    fix j
    show "j \<in> visited (length ss) a prev (activeLeft w) (activeRight w) (previousRight w) \<longleftrightarrow> j \<in> {j. in_window ss k j}"
    proof (cases "j < length ss")
      case True
      have "(activeLeft w < int j \<and> int j < activeRight w) \<longleftrightarrow> range_start a \<le> j \<and> j < range_end a"
        using bounds by auto
      with True before [OF True] after [OF True] active [OF True] show ?thesis
        unfolding visited_def in_window_def mem_Collect_eq by blast
    next
      case False
      have "\<not> (\<exists>R. prev = Some R \<and> previousRight w < int j \<and> j < range_end R)"
        using assms(3,4) False by (cases "range_start a = 0") (auto simp: ayah_exact_def)
      with False bounds k show ?thesis by (auto simp: visited_def in_window_def)
    qed
  qed
qed

text \<open>The ranges of an index are exact, and the previous one ends where the active one starts.\<close>

lemma index_range:
  assumes "wf_corpus c" "i < length (corpus_symbols c)"
  obtains R where "js_map_get (ix_ayahSymbolRanges (build_index c)) (ayah_key (sym_location (corpus_symbols c ! i))) = Some R"
    "ayah_exact (corpus_symbols c) R i" "range_start R \<le> i" "i < range_end R" "range_end R \<le> length (corpus_symbols c)"
proof -
  from build_index_ayah_ranges [OF assms] obtain R where
    R: "js_map_get (ix_ayahSymbolRanges (build_index c)) (ayah_key (sym_location (corpus_symbols c ! i))) = Some R"
      "ayah_exact (corpus_symbols c) R i" by blast
  from ayah_exact_iff [OF R(2) assms(2)] have "range_start R \<le> i" "i < range_end R" by simp_all
  moreover have "range_end R \<le> length (corpus_symbols c)" using R(2) by (simp add: ayah_exact_def)
  ultimately show thesis using R by (intro that)
qed

lemma set_add_position:
  assumes "length ps < m" "m \<le> MAX_LOCAL_CANDIDATES"
  shows "set (add_position n p ps) = (if 0 \<le> p \<and> p < int n then insert (nat p) (set ps) else set ps)
    \<and> length (add_position n p ps) < Suc m"
  using assms by (auto simp: add_position_def)

lemma start_walk_ok:
  assumes "ranges_ok n k a prev"
  shows "walk_ok n k a prev \<lparr>walk_positions = foldl (\<lambda>p offset. add_position n (int (range_end a) + int offset) p)
       (case prev of Some R \<Rightarrow> add_position n (int (range_end R) - 1) (add_position n (int k) [])
        | None \<Rightarrow> add_position n (int k) []) [0..<FORWARD_PHONEME_COUNT],
     activeLeft = int k - 1, activeRight = int k + 1,
     previousRight = (case prev of Some R \<Rightarrow> int (range_end R) | None \<Rightarrow> 0) - 2\<rparr>"
proof -
  have three: "[0..<FORWARD_PHONEME_COUNT] = [0, 1, 2]" by (simp add: FORWARD_PHONEME_COUNT_def upt_rec)
  have k: "k < n" using assms by (simp add: ranges_ok_def)
  let ?p1 = "add_position n (int k) []"
  have p1: "set ?p1 = {k} \<and> length ?p1 < 2"
    using set_add_position [of "[]" 1 n "int k"] k by (simp add: MAX_LOCAL_CANDIDATES_def)
  let ?p2 = "case prev of Some R \<Rightarrow> add_position n (int (range_end R) - 1) ?p1 | None \<Rightarrow> ?p1"
  have p2: "set ?p2 = {p. p = k \<or> (\<exists>R. prev = Some R \<and> p = range_end R - 1)} \<and> length ?p2 < 3"
  proof (cases prev)
    case (Some R)
    then have "0 < range_end R" "int (range_end R) - 1 < int n" "nat (int (range_end R) - 1) = range_end R - 1"
      using assms k by (auto simp: ranges_ok_def)
    with Some set_add_position [of ?p1 2 n "int (range_end R) - 1"] p1 show ?thesis
      by (auto simp: MAX_LOCAL_CANDIDATES_def)
  qed (use p1 in auto)
  let ?e = "range_end a"
  let ?p3 = "add_position n (int ?e) ?p2"
  let ?p4 = "add_position n (int ?e + 1) ?p3"
  let ?p5 = "add_position n (int ?e + 2) ?p4"
  have p3: "set ?p3 = set ?p2 \<union> {p. p = ?e \<and> p < n} \<and> length ?p3 < 4"
    using set_add_position [of ?p2 3 n "int ?e"] p2 by (auto simp: MAX_LOCAL_CANDIDATES_def)
  then have p4: "set ?p4 = set ?p3 \<union> {p. p = ?e + 1 \<and> p < n} \<and> length ?p4 < 5"
    using set_add_position [of ?p3 4 n "int ?e + 1"] by (auto simp: MAX_LOCAL_CANDIDATES_def nat_add_distrib)
  then have p5: "set ?p5 = set ?p4 \<union> {p. p = ?e + 2 \<and> p < n} \<and> length ?p5 < 6"
    using set_add_position [of ?p4 5 n "int ?e + 2"] by (auto simp: MAX_LOCAL_CANDIDATES_def nat_add_distrib)
  have V: "set ?p5 = visited n a prev (int k - 1) (int k + 1)
      ((case prev of Some R \<Rightarrow> int (range_end R) | None \<Rightarrow> 0) - 2)"
    unfolding p5 [THEN conjunct1] p4 [THEN conjunct1] p3 [THEN conjunct1] p2 [THEN conjunct1]
    using assms by (cases prev) (auto simp: visited_def ranges_ok_def)
  have "foldl (\<lambda>p offset. add_position n (int ?e + int offset) p) ?p2 [0, 1, 2] = ?p5" by simp
  with V p5 assms show ?thesis
    unfolding three by (cases prev) (auto simp: walk_ok_def ranges_ok_def MAX_LOCAL_CANDIDATES_def)
qed

lemma localPositions_window:
  assumes "wf_corpus c" "corpus_symbols c \<noteq> []" "k = clamp_cursor (length (corpus_symbols c)) cur"
  shows "set (localPositions (build_index c) cur) \<subseteq> {j. in_window (corpus_symbols c) k j}
    \<and> (length (localPositions (build_index c) cur) = MAX_LOCAL_CANDIDATES
       \<or> set (localPositions (build_index c) cur) = {j. in_window (corpus_symbols c) k j})"
proof -
  let ?ss = "corpus_symbols c" and ?ranges = "ix_ayahSymbolRanges (build_index c)"
  have k: "k < length ?ss" using assms(2,3) by (simp add: clamp_cursor_less)
  obtain a where a: "js_map_get ?ranges (ayah_key (sym_location (?ss ! k))) = Some a" "ayah_exact ?ss a k"
      "range_start a \<le> k" "k < range_end a" "range_end a \<le> length ?ss"
    by (rule index_range [OF assms(1) k])
  define prev where "prev = (if 0 < range_start a
      then js_map_get ?ranges (ayah_key (sym_location (?ss ! (range_start a - 1)))) else None)"
  have before: "\<exists>R. prev = Some R \<and> ayah_exact ?ss R (range_start a - 1)
      \<and> range_start R < range_end R \<and> range_end R \<le> range_start a" if s: "0 < range_start a"
  proof -
    have "range_start a - 1 < length ?ss" using k a(3) by simp
    then obtain R where R: "js_map_get ?ranges (ayah_key (sym_location (?ss ! (range_start a - 1)))) = Some R"
        "ayah_exact ?ss R (range_start a - 1)" "range_start R \<le> range_start a - 1"
        "range_start a - 1 < range_end R" "range_end R \<le> length ?ss"
      by (rule index_range [OF assms(1)])
    have "range_end R \<le> range_start a"
    proof (rule ccontr)
      assume "\<not> range_end R \<le> range_start a"
      then have "same_ayah (?ss ! range_start a) (?ss ! (range_start a - 1))"
        using ayah_exact_iff [OF R(2), of "range_start a"] R(3) a(3) k by simp
      moreover have "same_ayah (?ss ! range_start a) (?ss ! k)"
        using ayah_exact_iff [OF a(2), of "range_start a"] a(3,4) k by simp
      ultimately have "same_ayah (?ss ! (range_start a - 1)) (?ss ! k)"
        by (metis same_ayah_sym same_ayah_trans)
      moreover have "range_start a - 1 < length ?ss" using k a(3) by simp
      ultimately have "range_start a \<le> range_start a - 1" using ayah_exact_iff [OF a(2)] by blast
      then show False using s by simp
    qed
    with R s show ?thesis by (auto simp: prev_def)
  qed
  have ok: "ranges_ok (length ?ss) k a prev"
    using a before by (cases "0 < range_start a") (auto simp: ranges_ok_def prev_def)
  let ?w = "local_walk_loop (length ?ss) (int k) a prev
      \<lparr>walk_positions = foldl (\<lambda>p offset. add_position (length ?ss) (int (range_end a) + int offset) p)
       (case prev of Some R \<Rightarrow> add_position (length ?ss) (int (range_end R) - 1) (add_position (length ?ss) (int k) [])
        | None \<Rightarrow> add_position (length ?ss) (int k) []) [0..<FORWARD_PHONEME_COUNT],
       activeLeft = int k - 1, activeRight = int k + 1,
       previousRight = (case prev of Some R \<Rightarrow> int (range_end R) | None \<Rightarrow> 0) - 2\<rparr>"
  have result: "localPositions (build_index c) cur = walk_positions ?w"
    unfolding localPositions_def Let_def ix_symbols_build assms(3) [unfolded clamp_cursor_def, symmetric]
    using assms(2) a(1) by (simp add: prev_def)
  from walk_ok_loop [OF ok start_walk_ok [OF ok]]
  have w: "walk_ok (length ?ss) k a prev ?w"
      "length (walk_positions ?w) = MAX_LOCAL_CANDIDATES \<or> walk_done a prev ?w" by simp_all
  let ?V = "visited (length ?ss) a prev (activeLeft ?w) (activeRight ?w) (previousRight ?w)"
  have sub: "set (walk_positions ?w) \<subseteq> ?V"
      "length (walk_positions ?w) = MAX_LOCAL_CANDIDATES \<or> set (walk_positions ?w) = ?V"
    using w(1) by (simp_all add: walk_ok_def)
  note window = window_visited [OF k a(2) _ _, of prev]
  have prev: "0 < range_start a \<Longrightarrow> \<exists>R. prev = Some R \<and> ayah_exact ?ss R (range_start a - 1)"
      "range_start a = 0 \<Longrightarrow> prev = None"
    using before by (auto simp: prev_def)
  show ?thesis
  proof (cases "walk_done a prev ?w")
    case True
    from window [OF prev w(1) True] sub show ?thesis unfolding result by simp
  next
    case False
    with w(2) have full: "length (walk_positions ?w) = MAX_LOCAL_CANDIDATES" by simp
    let ?pr = "case prev of Some R \<Rightarrow> int (range_start R) - 1 | None \<Rightarrow> previousRight ?w"
    let ?e = "?w\<lparr>activeLeft := int (range_start a) - 1, activeRight := int (range_end a), previousRight := ?pr\<rparr>"
    have "?V \<subseteq> visited (length ?ss) a prev (int (range_start a) - 1) (int (range_end a)) ?pr"
      using w(1) by (fastforce simp: visited_def walk_ok_def split: option.splits)
    with sub(1) w(1) full a have "walk_ok (length ?ss) k a prev ?e"
      using ok by (auto simp: walk_ok_def ranges_ok_def split: option.splits)
    moreover have "walk_done a prev ?e" by (auto simp: walk_done_def)
    ultimately have "visited (length ?ss) a prev (int (range_start a) - 1) (int (range_end a)) ?pr
        = {j. in_window ?ss k j}"
      using window [OF prev, of ?e] by simp
    with \<open>?V \<subseteq> _\<close> sub(1) full show ?thesis unfolding result by auto
  qed
qed

section \<open>Properties\<close>

text \<open>C6: around a cursor in an indexed corpus the local search visits only the window of the
  cursor (its ayah, the ayah that ends right before it, the three symbols after it), and all of
  it unless it has already collected its 48 positions: no early exit of the loop loses a
  candidate.\<close>

theorem local_search_complete:
  assumes "indexCorpus v = Inr ix" "ix_symbols ix \<noteq> []"
  shows "set (localPositions ix cur) \<subseteq> {j. in_window (ix_symbols ix) (clamp_cursor (length (ix_symbols ix)) cur) j}
    \<and> (length (localPositions ix cur) = MAX_LOCAL_CANDIDATES
       \<or> set (localPositions ix cur) = {j. in_window (ix_symbols ix) (clamp_cursor (length (ix_symbols ix)) cur) j})"
  using assms localPositions_window [OF indexCorpus_wf [OF assms(1)] _ refl]
  by (simp add: indexCorpus_Inr)

theorem local_search_complete_witness:
  "set (localPositions (build_index (read_corpus sample_corpus)) 3)
     = {j. in_window (corpus_symbols (read_corpus sample_corpus)) 3 j}"
proof -
  have "ix_symbols (build_index (read_corpus sample_corpus)) \<noteq> []" by code_simp
  moreover have "length (localPositions (build_index (read_corpus sample_corpus)) 3) \<noteq> MAX_LOCAL_CANDIDATES"
    by code_simp
  moreover have "clamp_cursor (length (ix_symbols (build_index (read_corpus sample_corpus)))) 3 = 3"
    by code_simp
  ultimately show ?thesis using local_search_complete [OF sample_corpus_index, of 3] by simp
qed

text \<open>C7: \<open>retrieveCandidatePositions\<close> gives at most 64 distinct positions inside the corpus, the
  cursor first and the local positions before all others; with the global search, each further
  position is within three symbols of the place where an n-gram of one to three observed
  phonemes that the corpus contains would put the start of the observation.\<close>

theorem retrieved_positions_sound:
  assumes "indexCorpus v = Inr ix" "ix_symbols ix \<noteq> []"
  shows "\<exists>extra. retrieveCandidatePositions ix phonemes cur glob = localPositions ix cur @ extra
    \<and> length (localPositions ix cur @ extra) \<le> MAX_ALIGNMENT_CANDIDATES
    \<and> distinct (localPositions ix cur @ extra)
    \<and> hd (localPositions ix cur @ extra) = clamp_cursor (length (ix_symbols ix)) cur
    \<and> list_all (\<lambda>x. x < length (ix_symbols ix)) (localPositions ix cur @ extra)
    \<and> list_all (\<lambda>x. \<exists>off n p. n \<in> {1..3} \<and> occurs_at (ix_symbols ix) (slice_key phonemes off n) p
        \<and> \<bar>int x - (int p - int off)\<bar> \<le> 3) extra"
proof -
  have sym: "ix_symbols ix = corpus_symbols (read_corpus v)"
    and post: "ix_phonemeNgramPostings ix = addNgramPostings (corpus_symbols (read_corpus v))"
    using assms(1) by (simp_all add: indexCorpus_Inr ix_postings_build)
  have near: "\<exists>off n p. n \<in> {1..3} \<and> occurs_at (ix_symbols ix) (slice_key phonemes off n) p
      \<and> \<bar>int x - (int p - int off)\<bar> \<le> 3" if x: "near_anchor (set (queryAnchors ix phonemes)) x" for x
  proof -
    from x obtain a p where a: "a \<in> set (queryAnchors ix phonemes)" "p \<in> set (anchor_postings a)"
        "\<bar>int x - (int p - int (anchor_offset a))\<bar> \<le> 3"
      by (auto simp: near_anchor_def MAX_ANCHOR_DISPLACEMENT_def)
    from queryAnchors_anchors a(1) have "is_anchor ix phonemes a" by blast
    then have len: "anchor_length a \<in> {1..3}" and
      "occurrences (ix_symbols ix) (slice_key phonemes (anchor_offset a) (anchor_length a)) = anchor_postings a"
      by (auto simp: is_anchor_def post sym get_addNgramPostings split: if_splits)
    with a(2) have "p \<in> set (occurrences (ix_symbols ix) (slice_key phonemes (anchor_offset a) (anchor_length a)))"
      by simp
    then have "occurs_at (ix_symbols ix) (slice_key phonemes (anchor_offset a) (anchor_length a)) p"
      by (simp add: occurrences_def)
    with len a(3) show ?thesis by blast
  qed
  from retrieve_ok [OF assms(2), of phonemes cur glob] obtain extra where
    "retrieveCandidatePositions ix phonemes cur glob = localPositions ix cur @ extra"
    "list_all (near_anchor (set (queryAnchors ix phonemes))) extra"
    "distinct (localPositions ix cur @ extra)" "length (localPositions ix cur @ extra) \<le> MAX_ALIGNMENT_CANDIDATES"
    "list_all (\<lambda>x. x < length (ix_symbols ix)) (localPositions ix cur @ extra)"
    by (auto simp: search_ok_def list_all_iff)
  moreover have "hd (localPositions ix cur @ extra) = clamp_cursor (length (ix_symbols ix)) cur"
    using localPositions_ok [OF assms(2), of cur] by (simp add: local_ok_def)
  moreover have "list_all (\<lambda>x. \<exists>off n p. n \<in> {1..3} \<and> occurs_at (ix_symbols ix) (slice_key phonemes off n) p
      \<and> \<bar>int x - (int p - int off)\<bar> \<le> 3) extra"
    using near \<open>list_all (near_anchor _) extra\<close> unfolding list_all_iff by blast
  ultimately show ?thesis by blast
qed

theorem retrieved_positions_sound_witness:
  "retrieveCandidatePositions (build_index (read_corpus sample_corpus)) [lit ''h''] 0 True = [0, 3, 1, 2]
   \<and> (\<exists>extra. retrieveCandidatePositions (build_index (read_corpus sample_corpus)) [lit ''h''] 0 True
      = localPositions (build_index (read_corpus sample_corpus)) 0 @ extra)"
proof -
  have "ix_symbols (build_index (read_corpus sample_corpus)) \<noteq> []" by code_simp
  note retrieved_positions_sound [OF sample_corpus_index this, of "[lit ''h'']" 0 True]
  moreover have "retrieveCandidatePositions (build_index (read_corpus sample_corpus)) [lit ''h''] 0 True = [0, 3, 1, 2]"
    by code_simp
  ultimately show ?thesis by blast
qed

text \<open>On an increasing posting list with budget enough to halve it down, \<open>lowerBound\<close> returns
  the number of postings below its target; the 128 inspections a search may make cover any
  list of fewer than \<open>2 ^ 128\<close> postings.\<close>

theorem lowerBound_counts_smaller:
  assumes "sorted vals" "length vals < 2 ^ budget"
  shows "\<exists>k rest. lowerBound vals target budget = (Some k, rest)
    \<and> k = length (filter (\<lambda>x. int x < target) vals)"
proof -
  from lower_bound_loop_returns [of "length vals" vals 0 budget target] assms(2)
  obtain k rest where k: "lower_bound_loop vals target 0 (length vals) budget = (Some k, rest)" by auto
  from lower_bound_loop_correct [OF assms(1) _ _ _ _ k]
  have spec: "k \<le> length vals" "\<forall>i < k. int (vals ! i) < target"
      "\<forall>i. k \<le> i \<and> i < length vals \<longrightarrow> target \<le> int (vals ! i)" by simp_all
  have "filter (\<lambda>x. int x < target) (take k vals) = take k vals"
    using spec(1,2) by (auto simp: filter_id_conv in_set_conv_nth)
  moreover have "filter (\<lambda>x. int x < target) (drop k vals) = []"
    using spec(1,3) by (auto simp: filter_empty_conv in_set_conv_nth not_less)
  ultimately have "filter (\<lambda>x. int x < target) vals = take k vals"
    by (metis append_Nil2 append_take_drop_id filter_append)
  with k spec(1) show ?thesis by (simp add: lowerBound_def)
qed

theorem lowerBound_counts_smaller_witness:
  "\<exists>k rest. lowerBound [2, 5, 5, 9] 5 3 = (Some k, rest) \<and> k = length (filter (\<lambda>x. int x < 5) [2, 5, 5, 9])"
  using lowerBound_counts_smaller [of "[2, 5, 5, 9]" 3 5] by simp

end
