(* ===== verification/Edit_Path.thy ===== *)
theory Edit_Path
  imports Js_Collections Js_Number
begin

text \<open>
  \<open>packages/core/src/alignment/edit-path.ts\<close>: the alignment of an observed phoneme sequence
  with a reference by dynamic programming over caller-owned typed arrays.  Rows are lists of
  32-bit words and directions a list of 8-bit words, written as the code writes them (a store
  past the end of a typed array has no effect, which is \<open>list_update\<close>); the arrays come with
  whatever an earlier alignment left in them.  The traceback is a partial function, since with
  other directions it would not stop; it is proved to return.

  The lemmas show that the result is a valid script between the two sequences, that no script
  has fewer edits, and that the contents and size of the workspace do not matter.  Phonemes are
  compared with \<open>===\<close> only, so their type is a parameter.  The optional metrics sink is not
  modelled: it receives indexes and returns nothing.
\<close>

section \<open>Types\<close>

datatype alignment_operation =
    OpMatch int int
  | OpSubstitution int int
  | OpInsertion int
  | OpDeletion int

fun op_score :: "alignment_operation \<Rightarrow> rat" where
  "op_score (OpMatch _ _) = 1"
| "op_score _ = 0"

fun is_match :: "alignment_operation \<Rightarrow> bool" where
  "is_match (OpMatch _ _) = True"
| "is_match _ = False"

record alignment_path =
  path_score :: rat
  editCount :: nat
  matchedLookaheadCount :: nat
  operations :: "alignment_operation list"

definition MATCH :: "8 word" where "MATCH = 1"
definition SUBSTITUTION :: "8 word" where "SUBSTITUTION = 2"
definition DELETION :: "8 word" where "DELETION = 3"
definition INSERTION :: "8 word" where "INSERTION = 4"

lemmas direction_defs = MATCH_def SUBSTITUTION_def DELETION_def INSERTION_def

record alignment_workspace =
  actualCapacity :: nat
  referenceCapacity :: nat
  directions :: "8 word list"
  firstRow :: "32 word list"
  secondRow :: "32 word list"

definition createAlignmentWorkspace :: "nat \<Rightarrow> nat \<Rightarrow> alignment_workspace" where
  "createAlignmentWorkspace a r = \<lparr>actualCapacity = a, referenceCapacity = r,
     directions = replicate ((a + 1) * (r + 1)) 0, firstRow = replicate (r + 1) 0,
     secondRow = replicate (r + 1) 0\<rparr>"

section \<open>Filling the table\<close>

text \<open>The body of the innermost loop; the state is the current row and the directions.\<close>

definition edit_cell :: "'p list \<Rightarrow> 'p list \<Rightarrow> 32 word list \<Rightarrow> nat
    \<Rightarrow> 32 word list \<times> 8 word list \<Rightarrow> nat \<Rightarrow> 32 word list \<times> 8 word list" where
  "edit_cell actual reference previous i st j = (case st of (current, dirs) \<Rightarrow>
     let offset = i * (length reference + 1) + j in
     if actual ! (i - 1) = reference ! (j - 1)
     then (current[j := previous ! (j - 1)], dirs[offset := MATCH])
     else let substitution = unat (previous ! (j - 1)) + 1;
              deletion = unat (current ! (j - 1)) + 1;
              insertion = unat (previous ! j) + 1;
              minimum = min substitution (min deletion insertion)
          in (current[j := of_nat minimum],
              dirs[offset := if substitution = minimum then SUBSTITUTION
                             else if deletion = minimum then DELETION else INSERTION]))"

text \<open>One row; the state is the previous row, the current row and the directions, and the rows
  are swapped at the end.\<close>

definition edit_row :: "'p list \<Rightarrow> 'p list \<Rightarrow> 32 word list \<times> 32 word list \<times> 8 word list \<Rightarrow> nat
    \<Rightarrow> 32 word list \<times> 32 word list \<times> 8 word list" where
  "edit_row actual reference st i = (case st of (previous, current, dirs) \<Rightarrow>
     case foldl (edit_cell actual reference previous i)
            (current[0 := of_nat i], dirs[i * (length reference + 1) := INSERTION])
            [1..<length reference + 1] of
       (current', dirs') \<Rightarrow> (current', previous, dirs'))"

definition first_row :: "nat \<Rightarrow> 32 word list \<times> 8 word list \<Rightarrow> 32 word list \<times> 8 word list" where
  "first_row n st = (case st of (previous, dirs) \<Rightarrow>
     foldl (\<lambda>(row, ds) j. (row[j := of_nat j], ds[j := DELETION])) (previous[0 := 0], dirs) [1..<n + 1])"

definition edit_rows :: "'p list \<Rightarrow> 'p list \<Rightarrow> alignment_workspace
    \<Rightarrow> 32 word list \<times> 32 word list \<times> 8 word list" where
  "edit_rows actual reference ws =
     (case first_row (length reference) (firstRow ws, directions ws) of (row, dirs) \<Rightarrow>
        foldl (edit_row actual reference) (row, secondRow ws, dirs) [1..<length actual + 1])"

section \<open>Reading the path back\<close>

text \<open>A read outside a typed array gives \<open>undefined\<close>, which is none of the directions.\<close>

definition direction_at :: "8 word list \<Rightarrow> int \<Rightarrow> 8 word" where
  "direction_at dirs k = (if 0 \<le> k \<and> nat k < length dirs then dirs ! nat k else 0)"

partial_function (option) traceback :: "8 word list \<Rightarrow> int \<Rightarrow> int \<Rightarrow> int
    \<Rightarrow> alignment_operation list \<Rightarrow> alignment_operation list option" where
  "traceback dirs width i j reversed =
     (if 0 < i \<or> 0 < j then
        let direction = direction_at dirs (i * width + j) in
        if direction = MATCH
        then traceback dirs width (i - 1) (j - 1) (reversed @ [OpMatch (i - 1) (j - 1)])
        else if direction = SUBSTITUTION
        then traceback dirs width (i - 1) (j - 1) (reversed @ [OpSubstitution (i - 1) (j - 1)])
        else if direction = DELETION
        then traceback dirs width i (j - 1) (reversed @ [OpDeletion (j - 1)])
        else traceback dirs width (i - 1) j (reversed @ [OpInsertion (i - 1)])
      else Some reversed)"

declare traceback.simps [code]

definition count_edits :: "alignment_operation list \<Rightarrow> nat" where
  "count_edits ops = foldl (\<lambda>c op. c + (if is_match op then 0 else 1)) 0 ops"

text \<open>The matches right after the first edit: \<open>findIndex\<close> and the loop that stops at the next
  operation that is not a match.\<close>

definition count_lookahead :: "alignment_operation list \<Rightarrow> nat" where
  "count_lookahead ops = (case dropWhile is_match ops of [] \<Rightarrow> 0
     | _ # rest \<Rightarrow> length (takeWhile is_match rest))"

definition path_of :: "nat \<Rightarrow> nat \<Rightarrow> alignment_operation list \<Rightarrow> alignment_path" where
  "path_of n m ops = (let normalizer = max n m; edits = count_edits ops in
     \<lparr>path_score = (if normalizer = 0 then 1 else fl ((of_nat normalizer - of_nat edits) / of_nat normalizer)),
      editCount = edits, matchedLookaheadCount = count_lookahead ops, operations = ops\<rparr>)"

text \<open>The whole function: a path and the workspace as it leaves it.  \<open>Diverged\<close> stands for a
  call that does not return.\<close>

definition alignPhonemesWithWorkspace ::
  "'p list \<Rightarrow> 'p list \<Rightarrow> alignment_workspace \<Rightarrow> js_error + alignment_path \<times> alignment_workspace" where
  "alignPhonemesWithWorkspace actual reference ws =
     (if actualCapacity ws < length actual \<or> referenceCapacity ws < length reference
      then Inl (RangeError (lit ''alignment workspace capacity exceeded''))
      else case edit_rows actual reference ws of (previous, current, dirs) \<Rightarrow>
        let ws' = ws\<lparr>directions := dirs,
              firstRow := (if even (length actual) then previous else current),
              secondRow := (if even (length actual) then current else previous)\<rparr> in
        case traceback dirs (of_nat (length reference + 1)) (of_nat (length actual))
               (of_nat (length reference)) [] of
          None \<Rightarrow> Inl Diverged
        | Some reversed \<Rightarrow> Inr (path_of (length actual) (length reference) (rev reversed), ws'))"

definition alignPhonemes :: "'p list \<Rightarrow> 'p list \<Rightarrow> js_error + alignment_path" where
  "alignPhonemes actual reference =
     ebind (alignPhonemesWithWorkspace actual reference
              (createAlignmentWorkspace (length actual) (length reference)))
       (\<lambda>(path, _). Inr path)"

section \<open>The specification: edit scripts and edit distance\<close>

text \<open>One operation moves a pair of positions; it is legal only where it says what is there.\<close>

fun op_step :: "'p list \<Rightarrow> 'p list \<Rightarrow> alignment_operation \<Rightarrow> nat \<times> nat \<Rightarrow> (nat \<times> nat) option" where
  "op_step xs ys (OpMatch a b) (i, j) =
     (if a = int i \<and> b = int j \<and> i < length xs \<and> j < length ys \<and> xs ! i = ys ! j
      then Some (i + 1, j + 1) else None)"
| "op_step xs ys (OpSubstitution a b) (i, j) =
     (if a = int i \<and> b = int j \<and> i < length xs \<and> j < length ys \<and> xs ! i \<noteq> ys ! j
      then Some (i + 1, j + 1) else None)"
| "op_step xs ys (OpInsertion a) (i, j) =
     (if a = int i \<and> i < length xs then Some (i + 1, j) else None)"
| "op_step xs ys (OpDeletion b) (i, j) =
     (if b = int j \<and> j < length ys then Some (i, j + 1) else None)"

fun run_script :: "'p list \<Rightarrow> 'p list \<Rightarrow> alignment_operation list \<Rightarrow> nat \<times> nat \<Rightarrow> (nat \<times> nat) option" where
  "run_script xs ys [] p = Some p"
| "run_script xs ys (op # ops) p =
     (case op_step xs ys op p of None \<Rightarrow> None | Some q \<Rightarrow> run_script xs ys ops q)"

definition valid_script :: "'p list \<Rightarrow> 'p list \<Rightarrow> alignment_operation list \<Rightarrow> bool" where
  "valid_script xs ys ops \<longleftrightarrow> run_script xs ys ops (0, 0) = Some (length xs, length ys)"

definition script_cost :: "alignment_operation list \<Rightarrow> nat" where
  "script_cost ops = length (filter (\<lambda>op. \<not> is_match op) ops)"

lemma run_script_append:
  "run_script xs ys (ops @ ops') p =
     (case run_script xs ys ops p of None \<Rightarrow> None | Some q \<Rightarrow> run_script xs ys ops' q)"
  by (induction ops arbitrary: p) (auto split: option.split)

lemma script_cost_append [simp]: "script_cost (ops @ ops') = script_cost ops + script_cost ops'"
  by (simp add: script_cost_def)

text \<open>The distance between the first \<open>i\<close> and the first \<open>j\<close> phonemes, as the table computes it.\<close>

fun edit_distance :: "'p list \<Rightarrow> 'p list \<Rightarrow> nat \<Rightarrow> nat \<Rightarrow> nat" where
  "edit_distance xs ys 0 j = j"
| "edit_distance xs ys (Suc i) 0 = Suc i"
| "edit_distance xs ys (Suc i) (Suc j) =
     (if xs ! i = ys ! j then edit_distance xs ys i j
      else 1 + min (edit_distance xs ys i j) (min (edit_distance xs ys (Suc i) j) (edit_distance xs ys i (Suc j))))"

lemma edit_distance_0 [simp]: "edit_distance xs ys i 0 = i"
  by (cases i) auto

lemma edit_distance_bound: "edit_distance xs ys i j \<le> i + j"
  by (induction xs ys i j rule: edit_distance.induct) auto

lemma edit_distance_le_max: "edit_distance xs ys i j \<le> max i j"
  by (induction xs ys i j rule: edit_distance.induct) auto

text \<open>Neighbouring cells differ by at most one.\<close>

lemma edit_distance_neighbours:
  "edit_distance xs ys (Suc i) j \<le> edit_distance xs ys i j + 1
   \<and> edit_distance xs ys i (Suc j) \<le> edit_distance xs ys i j + 1
   \<and> edit_distance xs ys i j \<le> edit_distance xs ys (Suc i) j + 1
   \<and> edit_distance xs ys i j \<le> edit_distance xs ys i (Suc j) + 1"
proof (induction "i + j" arbitrary: i j rule: less_induct)
  case less
  have left: "edit_distance xs ys (Suc i) j' \<le> edit_distance xs ys i j' + 1
      \<and> edit_distance xs ys i (Suc j') \<le> edit_distance xs ys i j' + 1
      \<and> edit_distance xs ys i j' \<le> edit_distance xs ys (Suc i) j' + 1
      \<and> edit_distance xs ys i j' \<le> edit_distance xs ys i (Suc j') + 1" if "j = Suc j'" for j'
    using less [of i j'] that by simp
  have up: "edit_distance xs ys (Suc i') j \<le> edit_distance xs ys i' j + 1
      \<and> edit_distance xs ys i' (Suc j) \<le> edit_distance xs ys i' j + 1
      \<and> edit_distance xs ys i' j \<le> edit_distance xs ys (Suc i') j + 1
      \<and> edit_distance xs ys i' j \<le> edit_distance xs ys i' (Suc j) + 1" if "i = Suc i'" for i'
    using less [of i' j] that by simp
  have "edit_distance xs ys (Suc i) j \<le> edit_distance xs ys i j + 1
      \<and> edit_distance xs ys i j \<le> edit_distance xs ys (Suc i) j + 1"
  proof (cases j)
    case (Suc j')
    have "edit_distance xs ys (Suc i) (Suc j') =
        (if xs ! i = ys ! j' then edit_distance xs ys i j' else 1 + min (edit_distance xs ys i j')
          (min (edit_distance xs ys (Suc i) j') (edit_distance xs ys i (Suc j'))))" by simp
    with left [OF Suc] Suc show ?thesis by (auto simp del: edit_distance.simps split: if_splits)
  qed simp
  moreover have "edit_distance xs ys i (Suc j) \<le> edit_distance xs ys i j + 1
      \<and> edit_distance xs ys i j \<le> edit_distance xs ys i (Suc j) + 1"
  proof (cases i)
    case (Suc i')
    have "edit_distance xs ys (Suc i') (Suc j) =
        (if xs ! i' = ys ! j then edit_distance xs ys i' j else 1 + min (edit_distance xs ys i' j)
          (min (edit_distance xs ys (Suc i') j) (edit_distance xs ys i' (Suc j))))" by simp
    with up [OF Suc] Suc show ?thesis by (auto simp del: edit_distance.simps split: if_splits)
  qed simp
  ultimately show ?case by simp
qed

lemma op_step_distance:
  assumes "op_step xs ys op (i, j) = Some (i', j')"
  shows "edit_distance xs ys i' j' \<le> edit_distance xs ys i j + script_cost [op]"
  using assms edit_distance_neighbours [of xs ys i j]
  by (cases op) (auto simp: script_cost_def split: if_splits)

lemma run_script_distance:
  "run_script xs ys ops (i, j) = Some (i', j')
     \<Longrightarrow> edit_distance xs ys i' j' \<le> edit_distance xs ys i j + script_cost ops"
proof (induction ops arbitrary: i j)
  case (Cons op ops)
  from Cons.prems obtain k l where step: "op_step xs ys op (i, j) = Some (k, l)"
      "run_script xs ys ops (k, l) = Some (i', j')"
    by (auto split: option.splits)
  have "script_cost (op # ops) = script_cost [op] + script_cost ops"
    using script_cost_append [of "[op]" ops] by simp
  with op_step_distance [OF step(1)] Cons.IH [OF step(2)] show ?case by simp
qed (simp add: script_cost_def)

lemma valid_script_distance:
  "valid_script xs ys ops \<Longrightarrow> edit_distance xs ys (length xs) (length ys) \<le> script_cost ops"
  using run_script_distance [of xs ys ops 0 0] by (simp add: valid_script_def)

text \<open>The step the table records for a cell, and the path it spells out.\<close>

fun best_direction :: "'p list \<Rightarrow> 'p list \<Rightarrow> nat \<Rightarrow> nat \<Rightarrow> 8 word" where
  "best_direction xs ys 0 j = DELETION"
| "best_direction xs ys (Suc i) 0 = INSERTION"
| "best_direction xs ys (Suc i) (Suc j) =
     (if xs ! i = ys ! j then MATCH
      else if edit_distance xs ys i j + 1 = edit_distance xs ys (Suc i) (Suc j) then SUBSTITUTION
      else if edit_distance xs ys (Suc i) j + 1 = edit_distance xs ys (Suc i) (Suc j) then DELETION
      else INSERTION)"

lemma best_direction_row: "best_direction xs ys i j \<noteq> DELETION \<Longrightarrow> 0 < i"
  by (cases i) auto

lemma best_direction_diagonal:
  "best_direction xs ys i j \<in> {MATCH, SUBSTITUTION} \<Longrightarrow> 0 < i \<and> 0 < j"
  by (cases "(xs, ys, i, j)" rule: best_direction.cases) (auto simp: direction_defs)

function best_path :: "'p list \<Rightarrow> 'p list \<Rightarrow> nat \<Rightarrow> nat \<Rightarrow> alignment_operation list" where
  "best_path xs ys i j =
     (if i = 0 \<and> j = 0 then []
      else let d = best_direction xs ys i j in
        if d = MATCH then best_path xs ys (i - 1) (j - 1) @ [OpMatch (int i - 1) (int j - 1)]
        else if d = SUBSTITUTION then best_path xs ys (i - 1) (j - 1) @ [OpSubstitution (int i - 1) (int j - 1)]
        else if d = DELETION then best_path xs ys i (j - 1) @ [OpDeletion (int j - 1)]
        else best_path xs ys (i - 1) j @ [OpInsertion (int i - 1)])"
  by pat_completeness auto
termination
proof (relation "measure (\<lambda>(xs, ys, i, j). i + j)", goal_cases)
  case (4 xs ys i j d)
  then show ?case
    by (cases "(xs, ys, i, j)" rule: best_direction.cases) (auto simp: direction_defs split: if_splits)
next
  case (5 xs ys i j d)
  with best_direction_row [of xs ys i j] show ?case by simp
qed auto

declare best_path.simps [simp del]

lemma best_path_script:
  "i \<le> length xs \<Longrightarrow> j \<le> length ys \<Longrightarrow>
     run_script xs ys (best_path xs ys i j) (0, 0) = Some (i, j)
     \<and> script_cost (best_path xs ys i j) = edit_distance xs ys i j"
proof (induction xs ys i j rule: best_path.induct)
  case (1 xs ys i j)
  show ?case
  proof (cases "i = 0 \<and> j = 0")
    case True
    then show ?thesis by (simp add: best_path.simps script_cost_def)
  next
    case False
    note unfold = best_path.simps [of xs ys i j]
    show ?thesis
    proof (cases "(xs, ys, i, j)" rule: best_direction.cases)
      case (1 xs' ys' k)
      with False "1.IH"(3) [OF False refl] "1.prems" show ?thesis
        unfolding unfold
        by (auto simp: direction_defs run_script_append script_cost_def gr0_conv_Suc)
    next
      case (2 xs' ys' k)
      with False "1.IH"(4) [OF False refl] "1.prems" show ?thesis
        unfolding unfold
        by (auto simp: direction_defs run_script_append script_cost_def)
    next
      case (3 xs' ys' k l)
      with "1.IH" [OF False refl] "1.prems" show ?thesis
        unfolding unfold
        by (auto simp: direction_defs run_script_append script_cost_def min_def split: if_splits)
    qed
  qed
qed

section \<open>The table holds the distances and the directions\<close>

definition row_holds :: "'p list \<Rightarrow> 'p list \<Rightarrow> nat \<Rightarrow> nat \<Rightarrow> 32 word list \<Rightarrow> bool" where
  "row_holds xs ys i m row \<longleftrightarrow> length ys < length row
     \<and> (\<forall>j < m. unat (row ! j) = edit_distance xs ys i j)"

text \<open>The directions are written in the order of their offsets.\<close>

definition dirs_hold :: "'p list \<Rightarrow> 'p list \<Rightarrow> nat \<Rightarrow> 8 word list \<Rightarrow> bool" where
  "dirs_hold xs ys k dirs \<longleftrightarrow> (length xs + 1) * (length ys + 1) \<le> length dirs
     \<and> (\<forall>p < k. p \<noteq> 0 \<longrightarrow> dirs ! p = best_direction xs ys (p div (length ys + 1)) (p mod (length ys + 1)))"

lemma offset_div_mod:
  assumes "j \<le> (n :: nat)"
  shows "(i * (n + 1) + j) div (n + 1) = i \<and> (i * (n + 1) + j) mod (n + 1) = j"
proof -
  have "(i * w + j) div w = i \<and> (i * w + j) mod w = j" if "j < w" for w
    using that by (simp add: div_mult_self3)
  from this [of "n + 1"] assms show ?thesis by simp
qed

lemma row_holds_store:
  assumes "row_holds xs ys i m row" "m \<le> length ys" "v < 2 ^ 32" "v = edit_distance xs ys i m"
  shows "row_holds xs ys i (Suc m) (row[m := of_nat v])"
  using assms by (auto simp: row_holds_def nth_list_update less_Suc_eq unsigned_of_nat take_bit_nat_eq_self)

lemma dirs_hold_store:
  assumes "dirs_hold xs ys k dirs" "k = i * (length ys + 1) + j" "j \<le> length ys"
    "i \<le> length xs" "v = best_direction xs ys i j"
  shows "dirs_hold xs ys (Suc k) (dirs[k := v])"
proof -
  have "k < (length xs + 1) * (length ys + 1)"
  proof -
    have "k < (i + 1) * (length ys + 1)" using assms(2,3) by simp
    also have "\<dots> \<le> (length xs + 1) * (length ys + 1)" using assms(4) by (intro mult_le_mono1) simp
    finally show ?thesis .
  qed
  moreover have "k div (length ys + 1) = i" "k mod (length ys + 1) = j"
    using offset_div_mod [OF assms(3)] assms(2) by simp_all
  ultimately show ?thesis
    using assms(1,5) by (auto simp: dirs_hold_def nth_list_update less_Suc_eq)
qed


text \<open>One cell, one row, the first row and all rows.\<close>

lemma edit_cell_step:
  assumes "length xs + length ys < 2 ^ 32" "0 < i" "i \<le> length xs" "0 < j" "j \<le> length ys"
    "row_holds xs ys (i - 1) (length ys + 1) previous"
    "row_holds xs ys i j current \<and> dirs_hold xs ys (i * (length ys + 1) + j) dirs"
  shows "case edit_cell xs ys previous i (current, dirs) j of (current', dirs') \<Rightarrow>
    row_holds xs ys i (Suc j) current' \<and> dirs_hold xs ys (i * (length ys + 1) + Suc j) dirs'"
proof -
  obtain k l where kl: "i = Suc k" "j = Suc l" using assms(2,4) gr0_conv_Suc by metis
  let ?d = "edit_distance xs ys"
  have cells: "unat (previous ! l) = ?d k l" "unat (previous ! Suc l) = ?d k (Suc l)"
      "unat (current ! l) = ?d (Suc k) l"
    using assms(5-7) kl by (simp_all add: row_holds_def)
  have small: "?d i j < 2 ^ 32"
    using edit_distance_bound [of xs ys i j] assms(1,3,5) by linarith
  have cell: "edit_cell xs ys previous i (current, dirs) j = (current[j := of_nat (?d i j)],
      dirs[i * (length ys + 1) + j := best_direction xs ys i j])"
  proof (cases "xs ! k = ys ! l")
    case True
    have "previous ! l = of_nat (?d k l)"
      using cells(1) by (metis of_nat_unat ucast_id)
    with True show ?thesis by (simp add: kl edit_cell_def)
  next
    case False
    have least: "min (?d k l + 1) (min (?d (Suc k) l + 1) (?d k (Suc l) + 1)) = ?d (Suc k) (Suc l)"
      using False by simp
    from False show ?thesis
      unfolding edit_cell_def kl Let_def prod.case diff_Suc_1 cells least by simp
  qed
  note row = row_holds_store [OF _ assms(5) small refl, of current]
  note dir = dirs_hold_store [OF _ refl assms(5,3) refl]
  from row dir assms(7) cell show ?thesis by simp
qed

lemma edit_row_step:
  assumes "length xs + length ys < 2 ^ 32" "0 < i" "i \<le> length xs" "length ys < length current"
    "row_holds xs ys (i - 1) (length ys + 1) previous" "dirs_hold xs ys (i * (length ys + 1)) dirs"
  shows "case edit_row xs ys (previous, current, dirs) i of (row, other, dirs') \<Rightarrow>
    row_holds xs ys i (length ys + 1) row \<and> length ys < length other
    \<and> dirs_hold xs ys (Suc i * (length ys + 1)) dirs'"
proof -
  let ?n = "length ys" and ?f = "edit_cell xs ys previous i"
  let ?P = "\<lambda>j (row, ds). row_holds xs ys i j row \<and> dirs_hold xs ys (i * (?n + 1) + j) ds"
  let ?start = "(current[0 := of_nat i], dirs[i * (?n + 1) := INSERTION])"
  from assms(2) obtain k where k: "i = Suc k" using gr0_conv_Suc by metis
  have "row_holds xs ys i 0 current" using assms(4) by (simp add: row_holds_def)
  from row_holds_store [OF this, of i] assms(1,3) k
  have row: "row_holds xs ys i 1 (current[0 := of_nat i])" by simp
  from dirs_hold_store [OF assms(6), of i 0 INSERTION] assms(3) k
  have "dirs_hold xs ys (i * (?n + 1) + 1) (dirs[i * (?n + 1) := INSERTION])" by simp
  with row have start: "?P 1 ?start" by simp
  have "?P (?n + 1) (foldl ?f ?start [1..<?n + 1])"
  proof (rule foldl_upt_invariant [where P = ?P])
    fix j st assume j: "1 \<le> j" "j < ?n + 1" "?P j st"
    obtain row ds where st: "st = (row, ds)" by force
    from edit_cell_step [OF assms(1-3) _ _ assms(5), of j row ds] j st
    show "?P (Suc j) (?f st j)" by simp
  qed (use start in simp_all)
  moreover have "length ys < length previous" using assms(5) by (simp add: row_holds_def)
  ultimately show ?thesis by (auto simp: edit_row_def ac_simps split: prod.splits)
qed

lemma first_row_step:
  assumes "length xs + length ys < 2 ^ 32" "length ys < length previous"
    "(length xs + 1) * (length ys + 1) \<le> length dirs"
  shows "case first_row (length ys) (previous, dirs) of (row, dirs') \<Rightarrow>
    row_holds xs ys 0 (length ys + 1) row \<and> dirs_hold xs ys (length ys + 1) dirs'"
proof -
  let ?P = "\<lambda>j (row, ds). row_holds xs ys 0 j row \<and> dirs_hold xs ys j ds"
  have "row_holds xs ys 0 0 previous" using assms(2) by (simp add: row_holds_def)
  from row_holds_store [OF this, of 0] have "row_holds xs ys 0 1 (previous[0 := 0])" by simp
  moreover have "dirs_hold xs ys 1 dirs" using assms(3) by (simp add: dirs_hold_def)
  ultimately have start: "?P 1 (previous[0 := 0], dirs)" by simp
  have "?P (length ys + 1) (foldl (\<lambda>(row, ds) j. (row[j := of_nat j], ds[j := DELETION]))
      (previous[0 := 0], dirs) [1..<length ys + 1])"
  proof (rule foldl_upt_invariant [where P = ?P])
    fix j st assume j: "1 \<le> j" "j < length ys + 1" "?P j st"
    obtain row ds where st: "st = (row, ds)" by force
    from j st have "row_holds xs ys 0 (Suc j) (row[j := of_nat j])"
      using assms(1) by (intro row_holds_store) auto
    moreover from j st have "dirs_hold xs ys (Suc j) (ds[j := DELETION])"
      by (intro dirs_hold_store [where i = 0 and j = j]) auto
    ultimately show "?P (Suc j) ((\<lambda>(row, ds) j. (row[j := of_nat j], ds[j := DELETION])) st j)"
      using st by simp
  qed (use start in simp_all)
  then show ?thesis by (auto simp: first_row_def)
qed


text \<open>A workspace as \<open>createAlignmentWorkspace\<close> allocates it, with any contents.\<close>

definition workspace_ok :: "alignment_workspace \<Rightarrow> bool" where
  "workspace_ok ws \<longleftrightarrow> length (firstRow ws) = referenceCapacity ws + 1
     \<and> length (secondRow ws) = referenceCapacity ws + 1
     \<and> length (directions ws) = (actualCapacity ws + 1) * (referenceCapacity ws + 1)"

definition workspace_fits :: "'p list \<Rightarrow> 'p list \<Rightarrow> alignment_workspace \<Rightarrow> bool" where
  "workspace_fits xs ys ws \<longleftrightarrow> workspace_ok ws \<and> length xs \<le> actualCapacity ws
     \<and> length ys \<le> referenceCapacity ws \<and> length xs + length ys < 2 ^ 32"

lemma workspace_ok_create: "workspace_ok (createAlignmentWorkspace a r)"
  by (simp add: workspace_ok_def createAlignmentWorkspace_def)

lemma workspace_fits_create:
  "length xs + length ys < 2 ^ 32
     \<Longrightarrow> workspace_fits xs ys (createAlignmentWorkspace (length xs) (length ys))"
  by (simp add: workspace_fits_def workspace_ok_create) (simp add: createAlignmentWorkspace_def)

lemma edit_rows_hold:
  assumes "workspace_fits xs ys ws" "edit_rows xs ys ws = (previous, current, dirs)"
  shows "dirs_hold xs ys ((length xs + 1) * (length ys + 1)) dirs"
proof -
  let ?n = "length ys"
  let ?P = "\<lambda>i (row, other :: 32 word list, ds). row_holds xs ys (i - 1) (?n + 1) row \<and> ?n < length other
      \<and> dirs_hold xs ys (i * (?n + 1)) ds"
  have size: "length xs + length ys < 2 ^ 32" "?n < length (firstRow ws)" "?n < length (secondRow ws)"
    using assms(1) by (simp_all add: workspace_fits_def workspace_ok_def)
  have "(length xs + 1) * (?n + 1) \<le> length (directions ws)"
    using assms(1) unfolding workspace_fits_def workspace_ok_def
    by (metis add_le_mono1 mult_le_mono)
  note first = first_row_step [OF size(1,2) this]
  obtain row ds where fr: "first_row ?n (firstRow ws, directions ws) = (row, ds)" by force
  have "?P (length xs + 1) (foldl (edit_row xs ys) (row, secondRow ws, ds) [1..<length xs + 1])"
  proof (rule foldl_upt_invariant [where P = ?P])
    fix i st assume i: "1 \<le> i" "i < length xs + 1" "?P i st"
    obtain r c d where st: "st = (r, c, d)" by (metis prod_cases3)
    from edit_row_step [OF size(1), of i c r d] i st
    show "?P (Suc i) (edit_row xs ys st i)" by (auto split: prod.splits)
  qed (use first fr size in simp_all)
  with assms(2) fr show ?thesis by (simp add: edit_rows_def)
qed

lemma direction_at_cell:
  assumes "dirs_hold xs ys ((length xs + 1) * (length ys + 1)) dirs" "i \<le> length xs" "j \<le> length ys"
    "i \<noteq> 0 \<or> j \<noteq> 0"
  shows "direction_at dirs (int i * int (length ys + 1) + int j) = best_direction xs ys i j"
proof -
  let ?k = "i * (length ys + 1) + j"
  have "?k < (i + 1) * (length ys + 1)" using assms(3) by simp
  also have "\<dots> \<le> (length xs + 1) * (length ys + 1)" using assms(2) by (intro mult_le_mono1) simp
  finally have k: "?k < (length xs + 1) * (length ys + 1)" .
  have "?k \<noteq> 0" using assms(4) by auto
  with assms(1) k have "dirs ! ?k = best_direction xs ys i j" "?k < length dirs"
    unfolding dirs_hold_def using offset_div_mod [OF assms(3), of i] by auto
  moreover have "int i * int (length ys + 1) + int j = int ?k" by (simp add: algebra_simps)
  ultimately show ?thesis unfolding direction_at_def by (metis nat_int of_nat_0_le_iff)
qed

lemma traceback_best_path:
  assumes "dirs_hold xs ys ((length xs + 1) * (length ys + 1)) dirs" "i \<le> length xs" "j \<le> length ys"
  shows "traceback dirs (int (length ys + 1)) (int i) (int j) acc = Some (acc @ rev (best_path xs ys i j))"
  using assms(2,3)
proof (induction "i + j" arbitrary: i j acc rule: less_induct)
  case less
  show ?case
  proof (cases "i = 0 \<and> j = 0")
    case True
    then show ?thesis by (simp add: traceback.simps best_path.simps)
  next
    case False
    let ?d = "best_direction xs ys i j"
    have dir: "direction_at dirs (int i * int (length ys + 1) + int j) = ?d"
      using False by (intro direction_at_cell [OF assms(1) less.prems]) auto
    have moves: "(?d \<in> {MATCH, SUBSTITUTION} \<longrightarrow> 0 < i \<and> 0 < j) \<and> (?d = DELETION \<longrightarrow> 0 < j)
        \<and> (?d \<noteq> DELETION \<longrightarrow> 0 < i)"
      using best_direction_diagonal [of xs ys i j] best_direction_row [of xs ys i j] False
      by (cases "(xs, ys, i, j)" rule: best_direction.cases) (auto simp: direction_defs)
    have unfold: "traceback dirs (int (length ys + 1)) (int i) (int j) acc =
        (if ?d = MATCH then traceback dirs (int (length ys + 1)) (int i - 1) (int j - 1)
            (acc @ [OpMatch (int i - 1) (int j - 1)])
         else if ?d = SUBSTITUTION then traceback dirs (int (length ys + 1)) (int i - 1) (int j - 1)
            (acc @ [OpSubstitution (int i - 1) (int j - 1)])
         else if ?d = DELETION then traceback dirs (int (length ys + 1)) (int i) (int j - 1)
            (acc @ [OpDeletion (int j - 1)])
         else traceback dirs (int (length ys + 1)) (int i - 1) (int j) (acc @ [OpInsertion (int i - 1)]))"
      using False by (subst traceback.simps) (simp only: dir Let_def, auto)
    have path: "best_path xs ys i j =
        (if ?d = MATCH then best_path xs ys (i - 1) (j - 1) @ [OpMatch (int i - 1) (int j - 1)]
         else if ?d = SUBSTITUTION then best_path xs ys (i - 1) (j - 1) @ [OpSubstitution (int i - 1) (int j - 1)]
         else if ?d = DELETION then best_path xs ys i (j - 1) @ [OpDeletion (int j - 1)]
         else best_path xs ys (i - 1) j @ [OpInsertion (int i - 1)])"
      using False by (subst best_path.simps) (simp only: Let_def, simp)
    have pred: "0 < k \<Longrightarrow> int k - 1 = int (k - 1)" for k by simp
    consider (diagonal) "?d \<in> {MATCH, SUBSTITUTION}" "0 < i" "0 < j" "?d = SUBSTITUTION \<longrightarrow> ?d \<noteq> MATCH"
      | (up) "?d = DELETION" "0 < j" "?d \<notin> {MATCH, SUBSTITUTION}"
      | (left) "?d \<notin> {MATCH, SUBSTITUTION, DELETION}" "0 < i"
      using moves by (auto simp: direction_defs)
    then show ?thesis
    proof cases
      case diagonal
      then have "traceback dirs (int (length ys + 1)) (int (i - 1)) (int (j - 1)) acc'
          = Some (acc' @ rev (best_path xs ys (i - 1) (j - 1)))" for acc'
        using less.prems by (intro less.hyps) auto
      with diagonal show ?thesis unfolding unfold path pred [OF diagonal(2)] pred [OF diagonal(3)]
        by (cases "?d = MATCH") auto
    next
      case up
      then have "traceback dirs (int (length ys + 1)) (int i) (int (j - 1)) acc'
          = Some (acc' @ rev (best_path xs ys i (j - 1)))" for acc'
        using less.prems by (intro less.hyps) auto
      with up show ?thesis unfolding unfold path pred [OF up(2)] by auto
    next
      case left
      then have "traceback dirs (int (length ys + 1)) (int (i - 1)) (int j) acc'
          = Some (acc' @ rev (best_path xs ys (i - 1) j))" for acc'
        using less.prems by (intro less.hyps) auto
      with left show ?thesis unfolding unfold path pred [OF left(2)] by auto
    qed
  qed
qed

text \<open>Stores never resize the arrays.\<close>

lemma edit_cell_lengths:
  "edit_cell xs ys previous i (c, d) j = (c', d') \<Longrightarrow> length c' = length c \<and> length d' = length d"
  by (auto simp: edit_cell_def Let_def split: if_splits)

lemma edit_cells_lengths:
  "foldl (edit_cell xs ys previous i) (c, d) js = (c', d') \<Longrightarrow> length c' = length c \<and> length d' = length d"
proof (induction js arbitrary: c d)
  case (Cons j js)
  obtain c1 d1 where "edit_cell xs ys previous i (c, d) j = (c1, d1)" by force
  with Cons edit_cell_lengths [OF this] show ?case by simp
qed simp

lemma edit_row_lengths:
  "edit_row xs ys (p, c, d) i = (p', c', d')
     \<Longrightarrow> length p' = length c \<and> length c' = length p \<and> length d' = length d"
  by (auto simp: edit_row_def dest!: edit_cells_lengths split: prod.splits)

lemma edit_row_folds_lengths:
  "foldl (edit_row xs ys) (p, c, d) ns = (p', c', d') \<Longrightarrow> length p = n \<and> length c = n
     \<Longrightarrow> length p' = n \<and> length c' = n \<and> length d' = length d"
proof (induction ns arbitrary: p c d)
  case (Cons i ns)
  obtain p1 c1 d1 where "edit_row xs ys (p, c, d) i = (p1, c1, d1)" by (metis prod_cases3)
  with Cons edit_row_lengths [OF this] show ?case by simp
qed simp

lemma first_row_lengths:
  "foldl (\<lambda>(row, ds) j. (row[j := f j], ds[j := g j])) (r, d) js = (r', d')
     \<Longrightarrow> length r' = length r \<and> length d' = length d"
  by (induction js arbitrary: r d) auto

lemma edit_rows_lengths:
  assumes "edit_rows xs ys ws = (p, c, d)" "workspace_ok ws"
  shows "length p = referenceCapacity ws + 1 \<and> length c = referenceCapacity ws + 1
    \<and> length d = (actualCapacity ws + 1) * (referenceCapacity ws + 1)"
proof -
  obtain r ds where first: "first_row (length ys) (firstRow ws, directions ws) = (r, ds)" by force
  then have "length r = length (firstRow ws) \<and> length ds = length (directions ws)"
    by (auto simp: first_row_def dest!: first_row_lengths)
  with first assms edit_row_folds_lengths [of xs ys r "secondRow ws" ds "[1..<length xs + 1]" p c d
      "referenceCapacity ws + 1"]
  show ?thesis by (simp add: edit_rows_def workspace_ok_def)
qed

text \<open>The path does not depend on the workspace.\<close>

lemma align_with_workspace:
  assumes "workspace_fits xs ys ws"
  shows "\<exists>ws'. alignPhonemesWithWorkspace xs ys ws
      = Inr (path_of (length xs) (length ys) (best_path xs ys (length xs) (length ys)), ws')
    \<and> actualCapacity ws' = actualCapacity ws \<and> referenceCapacity ws' = referenceCapacity ws
    \<and> workspace_ok ws'"
proof -
  obtain p c d where rows: "edit_rows xs ys ws = (p, c, d)"
    by (metis prod_cases3)
  have ok: "workspace_ok ws" using assms by (simp add: workspace_fits_def)
  note trace = traceback_best_path [OF edit_rows_hold [OF assms rows] order_refl order_refl, of "[]"]
  show ?thesis
    using assms rows trace edit_rows_lengths [OF rows ok]
    by (auto simp: alignPhonemesWithWorkspace_def workspace_fits_def workspace_ok_def Let_def)
qed

lemma alignPhonemes_path:
  assumes "length xs + length ys < 2 ^ 32"
  shows "alignPhonemes xs ys
    = Inr (path_of (length xs) (length ys) (best_path xs ys (length xs) (length ys)))"
  using align_with_workspace [OF workspace_fits_create [OF assms]]
  by (auto simp: alignPhonemes_def)

section \<open>What the path says\<close>

lemma count_edits_cost: "count_edits ops = script_cost ops"
proof -
  have "foldl (\<lambda>c op. c + (if is_match op then 0 else 1)) n ops = n + script_cost ops" for n
    by (induction ops arbitrary: n) (auto simp: script_cost_def)
  then show ?thesis by (simp add: count_edits_def)
qed

definition aligned_path :: "'p list \<Rightarrow> 'p list \<Rightarrow> alignment_path" where
  "aligned_path xs ys = path_of (length xs) (length ys) (best_path xs ys (length xs) (length ys))"

lemma aligned_path_facts:
  "valid_script xs ys (operations (aligned_path xs ys))"
  "editCount (aligned_path xs ys) = edit_distance xs ys (length xs) (length ys)"
  "editCount (aligned_path xs ys) = script_cost (operations (aligned_path xs ys))"
  using best_path_script [of "length xs" xs "length ys" ys]
  by (simp_all add: aligned_path_def path_of_def valid_script_def Let_def count_edits_cost)

lemma aligned_path_score:
  "path_score (aligned_path xs ys) = (let n = max (length xs) (length ys) in
     if n = 0 then 1
     else fl (1 - of_nat (editCount (aligned_path xs ys)) / of_nat n))"
  by (simp add: aligned_path_def path_of_def Let_def diff_divide_distrib)

lemma aligned_path_score_range: "0 \<le> path_score (aligned_path xs ys) \<and> path_score (aligned_path xs ys) \<le> 1"
proof (cases "max (length xs) (length ys) = 0")
  case False
  let ?n = "max (length xs) (length ys)" and ?e = "editCount (aligned_path xs ys)"
  have "?e \<le> ?n" by (simp add: aligned_path_facts(2) edit_distance_le_max)
  then have "(of_nat ?e :: rat) \<le> of_nat ?n" by (simp only: of_nat_le_iff)
  moreover have "0 < (of_nat ?n :: rat)" using False by (simp only: of_nat_0_less_iff)
  ultimately have "of_nat ?e / (of_nat ?n :: rat) \<le> 1" by (simp only: divide_le_eq_1_pos)
  then have "0 \<le> 1 - of_nat ?e / (of_nat ?n :: rat)" "1 - of_nat ?e / (of_nat ?n :: rat) \<le> 1" by simp_all
  then show ?thesis
    using False unfolding aligned_path_score Let_def by (simp only: fl_nonneg fl_le_1 if_False)
qed (simp add: aligned_path_score)

lemma edit_distance_eq_0:
  "i \<le> length xs \<Longrightarrow> j \<le> length ys
     \<Longrightarrow> edit_distance xs ys i j = 0 \<longleftrightarrow> i = j \<and> take i xs = take j ys"
proof (induction xs ys i j rule: edit_distance.induct)
  case (3 xs ys i j)
  then show ?case by (auto simp: take_Suc_conv_app_nth)
qed auto

lemma aligned_path_no_edits: "editCount (aligned_path xs ys) = 0 \<longleftrightarrow> xs = ys"
  using edit_distance_eq_0 [of "length xs" xs "length ys" ys] by (auto simp: aligned_path_facts(2))

text \<open>A score below one stays below one after rounding, for any length below \<open>2 ^ 53\<close>.\<close>

lemma fl_below_1:
  assumes "0 < n" "n \<le> 2 ^ 53" "0 < e"
  shows "fl (1 - of_nat e / of_nat n) < (1 :: rat)"
proof -
  let ?b = "1 - 1 / 2 ^ 53 :: rat"
  have "(of_nat n :: rat) \<le> of_nat (2 ^ 53)" using assms(2) by (simp only: of_nat_le_iff)
  then have n: "0 < (of_nat n :: rat)" "(of_nat n :: rat) \<le> 2 ^ 53" using assms(1) by simp_all
  have "1 / (2 ^ 53 :: rat) \<le> 1 / of_nat n" using n by (simp add: frac_le)
  also have "\<dots> \<le> of_nat e / of_nat n" using n assms(3) by (simp add: divide_right_mono)
  finally have "fl (1 - of_nat e / of_nat n) \<le> fl ?b" by (intro fl_mono) simp
  also have "fl ?b = ?b" by code_simp
  finally show ?thesis by simp
qed

lemma aligned_path_score_1:
  assumes "length xs \<le> 2 ^ 53" "length ys \<le> 2 ^ 53"
  shows "path_score (aligned_path xs ys) = 1 \<longleftrightarrow> xs = ys"
proof (cases "max (length xs) (length ys) = 0")
  case False
  then have pos: "0 < max (length xs) (length ys)" by (simp only: neq0_conv)
  have "max (length xs) (length ys) \<le> 2 ^ 53" using assms by (simp only: max.bounded_iff)
  note below = fl_below_1 [OF pos this, of "editCount (aligned_path xs ys)"]
  show ?thesis
  proof (cases "editCount (aligned_path xs ys) = 0")
    case True
    with False show ?thesis unfolding aligned_path_score Let_def
      using aligned_path_no_edits [of xs ys] by (simp del: of_nat_max)
  next
    case edits: False
    then have "editCount (aligned_path xs ys) > 0" by simp
    from below [OF this] have "path_score (aligned_path xs ys) < 1"
      using False unfolding aligned_path_score Let_def by (simp only: if_False)
    then show ?thesis using edits aligned_path_no_edits [of xs ys] by simp
  qed
qed (auto simp: aligned_path_score)

section \<open>Properties\<close>

text \<open>C4: \<open>alignPhonemes\<close> returns (its traceback loop ends), its operations are a legal script that
  turns the one sequence into the other, with matches exactly on equal phonemes and positions
  that advance through both sequences, \<open>editCount\<close> counts the operations that are not matches,
  and no legal script has fewer of them.\<close>

theorem alignPhonemes_optimal:
  assumes "length xs + length ys < 2 ^ 32"
  shows "\<exists>path. alignPhonemes xs ys = Inr path \<and> valid_script xs ys (operations path)
    \<and> editCount path = script_cost (operations path)
    \<and> (\<forall>ops. valid_script xs ys ops \<longrightarrow> editCount path \<le> script_cost ops)"
  using alignPhonemes_path [OF assms] aligned_path_facts [of xs ys] valid_script_distance [of xs ys]
  by (simp add: aligned_path_def)

theorem alignPhonemes_optimal_witness:
  "\<exists>path. alignPhonemes [1 :: nat, 2, 3] [1, 3] = Inr path \<and> valid_script [1 :: nat, 2, 3] [1, 3] (operations path)
    \<and> editCount path = script_cost (operations path)
    \<and> (\<forall>ops. valid_script [1 :: nat, 2, 3] [1, 3] ops \<longrightarrow> editCount path \<le> script_cost ops)"
  using alignPhonemes_optimal [of "[1 :: nat, 2, 3]" "[1, 3]"] by simp

text \<open>C5: reusing a workspace is safe: whatever an earlier alignment left in the arrays and however
  large they are, \<open>alignPhonemesWithWorkspace\<close> gives the path of a fresh allocation and leaves a
  workspace of the same capacities; when a sequence does not fit it throws a \<open>RangeError\<close>.\<close>

theorem alignment_ignores_workspace_contents:
  assumes "workspace_ok ws" "length xs + length ys < 2 ^ 32"
  shows "(\<exists>path ws'. alignPhonemesWithWorkspace xs ys ws =
        (if length xs \<le> actualCapacity ws \<and> length ys \<le> referenceCapacity ws
         then Inr (path, ws') else Inl (RangeError (lit ''alignment workspace capacity exceeded'')))
      \<and> alignPhonemes xs ys = Inr path \<and> workspace_ok ws'
      \<and> actualCapacity ws' = actualCapacity ws \<and> referenceCapacity ws' = referenceCapacity ws)"
proof (cases "length xs \<le> actualCapacity ws \<and> length ys \<le> referenceCapacity ws")
  case True
  with assms have "workspace_fits xs ys ws" by (simp add: workspace_fits_def)
  from align_with_workspace [OF this] True show ?thesis by (auto simp: alignPhonemes_path [OF assms(2)])
next
  case False
  then show ?thesis
    using assms(1) by (auto simp: alignPhonemes_path [OF assms(2)] alignPhonemesWithWorkspace_def intro!: exI [of _ ws])
qed

theorem alignment_ignores_workspace_contents_witness:
  "\<exists>path ws'. alignPhonemesWithWorkspace [1 :: nat, 2] [2] \<lparr>actualCapacity = 2, referenceCapacity = 1,
      directions = [9, 8, 7, 6, 5, 4], firstRow = [3, 2], secondRow = [1, 0]\<rparr> = Inr (path, ws')
    \<and> alignPhonemes [1 :: nat, 2] [2] = Inr path"
  using alignment_ignores_workspace_contents [of "\<lparr>actualCapacity = 2, referenceCapacity = 1,
      directions = [9, 8, 7, 6, 5, 4], firstRow = [3, 2], secondRow = [1, 0]\<rparr>" "[1 :: nat, 2]" "[2]"]
  by (auto simp: workspace_ok_def)

text \<open>The score of a path lies between 0 and 1 as a double, and, for sequences of at most
  \<open>2 ^ 53\<close> phonemes, it is 1 exactly when the two sequences are equal: rounding the quotient
  never turns an imperfect alignment into a perfect one.\<close>

theorem alignment_score_exact:
  assumes "length xs + length ys < 2 ^ 32"
  shows "\<exists>path. alignPhonemes xs ys = Inr path \<and> 0 \<le> path_score path \<and> path_score path \<le> 1
    \<and> (path_score path = 1 \<longleftrightarrow> xs = ys)"
proof -
  have "length xs \<le> 2 ^ 53" "length ys \<le> 2 ^ 53" using assms by simp_all
  from aligned_path_score_1 [OF this] aligned_path_score_range [of xs ys] alignPhonemes_path [OF assms]
  show ?thesis by (simp add: aligned_path_def)
qed

theorem alignment_score_exact_witness:
  "\<exists>path. alignPhonemes [1 :: nat, 2, 3] [1, 2, 4] = Inr path \<and> 0 \<le> path_score path \<and> path_score path \<le> 1
    \<and> (path_score path = 1 \<longleftrightarrow> [1 :: nat, 2, 3] = [1, 2, 4])"
  using alignment_score_exact [of "[1 :: nat, 2, 3]" "[1, 2, 4]"] by simp

end
