(* ===== verification/Locate.thy ===== *)
theory Locate
  imports Candidates Edit_Path Observation_Validate
begin

text \<open>
  \<open>packages/core/src/alignment/locate.ts\<close>: the observation is aligned at every retrieved position
  with every reference span of almost its length, and the candidates are ranked.  The
  \<open>reference\<close> array the code reuses is overwritten before every use, so it is a value here; the
  workspace it reuses is threaded through the calls.  The optional metrics sink is not
  modelled.

  The lemmas show that a candidate carries the best of its spans and the gap to the second, that
  ranking is by a consistent comparator, and that a valid observation always gets a result.
\<close>

section \<open>Types and constants\<close>

record alignment_candidate =
  symbolIndex :: nat
  cand_location :: quran_location
  cand_alignment :: alignment_path
  cand_score :: rat
  scoreMargin :: rat
  cursorDistance :: nat
  continuity :: rat
  forwardMovement :: nat
  isReread :: bool

definition GLOBAL_FALLBACK_THRESHOLD :: rat where "GLOBAL_FALLBACK_THRESHOLD = fl (72 / 100)"
definition MAX_REFERENCE_LENGTH_VARIATION :: nat where "MAX_REFERENCE_LENGTH_VARIATION = 3"

section \<open>One candidate\<close>

definition leadingContinuity :: "alignment_path \<Rightarrow> nat \<Rightarrow> rat" where
  "leadingContinuity path actualLength =
     (let matches = length (takeWhile is_match (operations path))
      in if actualLength = 0 then 0 else fl (of_nat matches / of_nat actualLength))"

definition span_wins :: "alignment_path \<Rightarrow> alignment_path option \<Rightarrow> bool" where
  "span_wins current best = (case best of None \<Rightarrow> True | Some b \<Rightarrow>
     path_score b < path_score current
     \<or> (path_score current = path_score b \<and> editCount current < editCount b)
     \<or> (path_score current = path_score b \<and> editCount current = editCount b
        \<and> matchedLookaheadCount b < matchedLookaheadCount current))"

record span_search =
  span_best :: "alignment_path option"
  secondSpanScore :: rat
  spanCount :: nat
  span_workspace :: alignment_workspace

definition reference_span :: "indexed_corpus \<Rightarrow> nat \<Rightarrow> nat \<Rightarrow> jstring list" where
  "reference_span index i n = map sym_phoneme (take n (drop i (ix_symbols index)))"

definition take_span :: "span_search \<Rightarrow> alignment_path \<Rightarrow> alignment_workspace \<Rightarrow> span_search" where
  "take_span st current ws =
     (if span_wins current (span_best st)
      then \<lparr>span_best = Some current,
            secondSpanScore = (case span_best st of None \<Rightarrow> 0 | Some b \<Rightarrow> path_score b),
            spanCount = spanCount st + 1, span_workspace = ws\<rparr>
      else \<lparr>span_best = span_best st, secondSpanScore = max (secondSpanScore st) (path_score current),
            spanCount = spanCount st + 1, span_workspace = ws\<rparr>)"

definition evaluate_span ::
  "indexed_corpus \<Rightarrow> jstring list \<Rightarrow> nat \<Rightarrow> span_search \<Rightarrow> nat \<Rightarrow> js_error + span_search" where
  "evaluate_span index actual i st n =
     ebind (alignPhonemesWithWorkspace actual (reference_span index i n) (span_workspace st))
       (\<lambda>(current, ws). Inr (take_span st current ws))"

definition span_lengths :: "nat \<Rightarrow> nat \<Rightarrow> nat \<Rightarrow> nat list" where
  "span_lengths symbolCount actualLength i =
     (let availableLength = symbolCount - i;
          minimumLength = min availableLength (max 1 (actualLength - MAX_REFERENCE_LENGTH_VARIATION));
          maximumLength = min availableLength (actualLength + MAX_REFERENCE_LENGTH_VARIATION)
      in [minimumLength..<maximumLength + 1])"

definition candidate_of ::
  "indexed_corpus \<Rightarrow> jstring list \<Rightarrow> nat \<Rightarrow> int \<Rightarrow> int \<Rightarrow> alignment_path \<Rightarrow> rat \<Rightarrow> nat \<Rightarrow> alignment_candidate" where
  "candidate_of index actual i cursorSymbol committedSymbol path second spans =
     \<lparr>symbolIndex = i, cand_location = sym_location (ix_symbols index ! i), cand_alignment = path,
      cand_score = path_score path,
      scoreMargin = (if spans < 2 then 0 else max 0 (fl (path_score path - second))),
      cursorDistance = nat \<bar>int i - cursorSymbol\<bar>,
      continuity = leadingContinuity path (length actual),
      forwardMovement = nat (max 0 (int i - cursorSymbol)),
      isReread = (int i < committedSymbol)\<rparr>"

definition evaluateCandidate ::
  "indexed_corpus \<Rightarrow> jstring list \<Rightarrow> nat \<Rightarrow> int \<Rightarrow> int \<Rightarrow> alignment_workspace
     \<Rightarrow> js_error + alignment_candidate \<times> alignment_workspace" where
  "evaluateCandidate index actual i cursorSymbol committedSymbol ws =
     ebind (for_each (evaluate_span index actual i)
              \<lparr>span_best = None, secondSpanScore = 0, spanCount = 0, span_workspace = ws\<rparr>
              (span_lengths (length (ix_symbols index)) (length actual) i)) (\<lambda>st.
     case span_best st of
       Some path \<Rightarrow> Inr (candidate_of index actual i cursorSymbol committedSymbol path
                       (secondSpanScore st) (spanCount st), span_workspace st)
     | None \<Rightarrow> ebind (alignPhonemesWithWorkspace actual [] (span_workspace st)) (\<lambda>(path, ws').
                Inr (candidate_of index actual i cursorSymbol committedSymbol path
                       (secondSpanScore st) (spanCount st), ws')))"

section \<open>Ranking\<close>

definition compareCandidates :: "alignment_candidate \<Rightarrow> alignment_candidate \<Rightarrow> rat" where
  "compareCandidates left right =
     (if cand_score left \<noteq> cand_score right then cand_score right - cand_score left
      else if scoreMargin left \<noteq> scoreMargin right then scoreMargin right - scoreMargin left
      else if cursorDistance left \<noteq> cursorDistance right
        then of_nat (cursorDistance left) - of_nat (cursorDistance right)
      else if continuity left \<noteq> continuity right then continuity right - continuity left
      else if forwardMovement left \<noteq> forwardMovement right
        then of_nat (forwardMovement left) - of_nat (forwardMovement right)
      else of_nat (symbolIndex left) - of_nat (symbolIndex right))"

text \<open>The closure \<open>evaluatePositions\<close>: the map of candidates and the workspace.\<close>

definition evaluate_position :: "indexed_corpus \<Rightarrow> jstring list \<Rightarrow> int \<Rightarrow> int
    \<Rightarrow> (nat, alignment_candidate) js_map \<times> alignment_workspace \<Rightarrow> nat
    \<Rightarrow> js_error + (nat, alignment_candidate) js_map \<times> alignment_workspace" where
  "evaluate_position index actual cursorSymbol committedSymbol st position =
     (case st of (evaluated, ws) \<Rightarrow>
        if js_map_has evaluated position then Inr (evaluated, ws)
        else ebind (evaluateCandidate index actual position cursorSymbol committedSymbol ws)
               (\<lambda>(candidate, ws'). Inr (js_map_set position candidate evaluated, ws')))"

definition evaluatePositions :: "indexed_corpus \<Rightarrow> jstring list \<Rightarrow> int \<Rightarrow> int
    \<Rightarrow> (nat, alignment_candidate) js_map \<times> alignment_workspace \<Rightarrow> nat list
    \<Rightarrow> js_error + (nat, alignment_candidate) js_map \<times> alignment_workspace" where
  "evaluatePositions index actual cursorSymbol committedSymbol st ps =
     for_each (evaluate_position index actual cursorSymbol committedSymbol) st ps"

type_synonym located = "alignment_candidate option \<times> alignment_candidate option"

definition rank_candidates :: "alignment_candidate list \<Rightarrow> located" where
  "rank_candidates cands = (case js_sort compareCandidates cands of
     [] \<Rightarrow> (None, None) | [b] \<Rightarrow> (Some b, None) | b # s # _ \<Rightarrow> (Some b, Some s))"

definition locateObservation :: "indexed_corpus \<Rightarrow> js \<Rightarrow> int \<Rightarrow> int \<Rightarrow> js_error + located" where
  "locateObservation index v contextCursor committedSymbol =
     ebind (validateObservation v) (\<lambda>_.
     let actual = observation_phonemes (read_observation v); n = length (ix_symbols index) in
     if actual = [] \<or> n = 0 then Inr (None, None)
     else
       let cursorSymbol = max 0 (min contextCursor (int n - 1));
           ws = createAlignmentWorkspace (length actual)
                  (min n (length actual + MAX_REFERENCE_LENGTH_VARIATION))
       in ebind (evaluatePositions index actual cursorSymbol committedSymbol ([], ws)
                   (retrieveCandidatePositions index actual cursorSymbol False)) (\<lambda>(local, ws1).
          let localBestScore = foldl max 0 (map cand_score (js_map_values local)) in
          ebind (if localBestScore < GLOBAL_FALLBACK_THRESHOLD
                 then evaluatePositions index actual cursorSymbol committedSymbol (local, ws1)
                        (retrieveCandidatePositions index actual cursorSymbol True)
                 else Inr (local, ws1)) (\<lambda>(evaluated, _).
          Inr (rank_candidates (js_map_values evaluated)))))"

section \<open>The spans of a candidate\<close>

text \<open>The search over the paths of all spans, apart from the workspace.\<close>

definition no_workspace :: alignment_workspace where
  "no_workspace = createAlignmentWorkspace 0 0"

definition search_spans :: "alignment_path list \<Rightarrow> span_search" where
  "search_spans ps = foldl (\<lambda>st p. take_span st p no_workspace)
     \<lparr>span_best = None, secondSpanScore = 0, spanCount = 0, span_workspace = no_workspace\<rparr> ps"

definition span_paths :: "indexed_corpus \<Rightarrow> jstring list \<Rightarrow> nat \<Rightarrow> alignment_path list" where
  "span_paths index actual i = map (\<lambda>n. aligned_path actual (reference_span index i n))
     (span_lengths (length (ix_symbols index)) (length actual) i)"

lemma search_spans_snoc: "search_spans (ps @ [p]) = take_span (search_spans ps) p no_workspace"
  by (simp add: search_spans_def)

text \<open>The best path beats the others; the second score is the largest of theirs.\<close>

definition summarises :: "alignment_path list \<Rightarrow> span_search \<Rightarrow> bool" where
  "summarises ps st \<longleftrightarrow> spanCount st = length ps \<and>
     (case span_best st of None \<Rightarrow> ps = [] \<and> secondSpanScore st = 0
      | Some b \<Rightarrow> \<exists>rest. mset ps = add_mset b (mset rest) \<and> (\<forall>p \<in> set rest. \<not> span_wins p (Some b))
          \<and> (\<forall>p \<in> set rest. path_score p \<le> secondSpanScore st)
          \<and> (if rest = [] then secondSpanScore st = 0 else \<exists>p \<in> set rest. secondSpanScore st = path_score p))"

lemma span_wins_trans: "span_wins p (Some q) \<Longrightarrow> \<not> span_wins r (Some q) \<Longrightarrow> \<not> span_wins r (Some p)"
  by (auto simp: span_wins_def)

lemma span_wins_score: "\<not> span_wins p (Some b) \<Longrightarrow> path_score p \<le> path_score b"
  by (auto simp: span_wins_def)

lemma span_wins_asym: "span_wins p (Some q) \<Longrightarrow> \<not> span_wins q (Some p)"
  by (auto simp: span_wins_def)

lemma summarises_snoc:
  assumes "summarises ps st" "\<forall>p \<in> set (ps @ [q]). 0 \<le> path_score p"
  shows "summarises (ps @ [q]) (take_span st q ws)"
proof (cases "span_best st")
  case None
  with assms(1) show ?thesis
    by (auto simp: summarises_def take_span_def span_wins_def intro!: exI [of _ "[]"])
next
  case (Some b)
  with assms(1) obtain rest where rest: "mset ps = add_mset b (mset rest)"
      "\<forall>p \<in> set rest. \<not> span_wins p (Some b)" "\<forall>p \<in> set rest. path_score p \<le> secondSpanScore st"
      "if rest = [] then secondSpanScore st = 0 else \<exists>p \<in> set rest. secondSpanScore st = path_score p"
    and "spanCount st = length ps" by (auto simp: summarises_def)
  show ?thesis
  proof (cases "span_wins q (Some b)")
    case True
    have "\<forall>p \<in> set (b # rest). \<not> span_wins p (Some q) \<and> path_score p \<le> path_score b"
      using True rest(2) span_wins_trans span_wins_asym span_wins_score by (metis set_ConsD order_refl)
    with rest(1) \<open>spanCount st = length ps\<close> Some True show ?thesis
      by (auto simp: summarises_def take_span_def intro!: exI [of _ "b # rest"])
  next
    case False
    have "if q # rest = [] then max (secondSpanScore st) (path_score q) = 0
        else \<exists>p \<in> set (q # rest). max (secondSpanScore st) (path_score q) = path_score p"
    proof (cases "rest = []")
      case True
      with rest(4) assms(2) show ?thesis by simp
    next
      case False
      with rest(4) obtain p where "p \<in> set rest" "secondSpanScore st = path_score p" by auto
      then show ?thesis by (auto simp: max_def)
    qed
    moreover have "\<forall>p \<in> set (q # rest). path_score p \<le> max (secondSpanScore st) (path_score q)"
      using rest(3) by (auto simp: le_max_iff_disj)
    moreover have "\<forall>p \<in> set (q # rest). \<not> span_wins p (Some b)" using rest(2) False by simp
    moreover have "mset (ps @ [q]) = add_mset b (mset (q # rest))" using rest(1) by simp
    moreover have nxt: "take_span st q ws = \<lparr>span_best = Some b, secondSpanScore = max (secondSpanScore st) (path_score q),
        spanCount = length (ps @ [q]), span_workspace = ws\<rparr>"
      using Some False \<open>spanCount st = length ps\<close> by (simp add: take_span_def)
    ultimately show ?thesis unfolding summarises_def nxt span_search.select_convs option.case by blast
  qed
qed

lemma summarises_search:
  "\<forall>p \<in> set ps. 0 \<le> path_score p \<Longrightarrow> summarises ps (search_spans ps)"
proof (induction ps rule: rev_induct)
  case Nil
  then show ?case by (simp add: summarises_def search_spans_def)
next
  case (snoc q ps)
  then show ?case by (simp add: search_spans_snoc summarises_snoc)
qed

lemma span_paths_nonneg: "\<forall>p \<in> set (span_paths index actual i). 0 \<le> path_score p"
  using aligned_path_score_range by (auto simp: span_paths_def)

lemma search_spans_best:
  assumes "ps \<noteq> []" "\<forall>p \<in> set ps. 0 \<le> path_score p"
  obtains b where "span_best (search_spans ps) = Some b" "b \<in> set ps" "\<forall>p \<in> set ps. \<not> span_wins p (Some b)"
proof -
  from summarises_search [OF assms(2)] assms(1) obtain b rest where
    b: "span_best (search_spans ps) = Some b" "mset ps = add_mset b (mset rest)"
      "\<forall>p \<in> set rest. \<not> span_wins p (Some b)"
    by (auto simp: summarises_def split: option.splits)
  have "set ps = insert b (set rest)" using b(2) by (metis set_mset_add_mset_insert set_mset_mset)
  moreover have "\<not> span_wins b (Some b)" by (simp add: span_wins_def)
  ultimately show thesis using b(1,3) by (intro that) auto
qed

lemma sort_last_but_one:
  assumes "mset xs = add_mset m (mset r)" "\<forall>x \<in> set r. x \<le> m" "s \<in> set r" "\<forall>x \<in> set r. x \<le> (s :: rat)"
  shows "sort xs ! (length xs - 2) = s"
proof -
  have "sort xs = sort r @ [m]"
    using assms(1,2) by (intro properties_for_sort) (auto simp: sorted_append)
  moreover from assms(1) have "length xs = Suc (length r)" by (metis size_mset size_add_mset)
  moreover have ne: "sort r \<noteq> []" using assms(3) by (metis list.set(1) empty_iff set_sort)
  moreover have "last (sort r) = s"
  proof (rule antisym)
    show "last (sort r) \<le> s" using assms(4) ne by (metis last_in_set set_sort)
    have split: "sort r = butlast (sort r) @ [last (sort r)]" using ne by simp
    then have "sorted (butlast (sort r) @ [last (sort r)])" by (metis sorted_sort)
    then have "\<forall>x \<in> set (butlast (sort r) @ [last (sort r)]). x \<le> last (sort r)"
      by (auto simp: sorted_append)
    then show "s \<le> last (sort r)" using assms(3) split by (metis set_sort)
  qed
  moreover have "0 < length r" using assms(3) by (cases r) auto
  ultimately show ?thesis by (simp add: nth_append last_conv_nth)
qed

lemma search_spans_second:
  assumes "2 \<le> length ps" "\<forall>p \<in> set ps. 0 \<le> path_score p"
  shows "secondSpanScore (search_spans ps) = sort (map path_score ps) ! (length ps - 2)"
proof -
  from summarises_search [OF assms(2)] assms(1) obtain b rest where
    b: "mset ps = add_mset b (mset rest)" "\<forall>p \<in> set rest. \<not> span_wins p (Some b)"
      "\<forall>p \<in> set rest. path_score p \<le> secondSpanScore (search_spans ps)"
      "if rest = [] then secondSpanScore (search_spans ps) = 0
       else \<exists>p \<in> set rest. secondSpanScore (search_spans ps) = path_score p"
    by (auto simp: summarises_def split: option.splits)
  have "length ps = Suc (length rest)" using b(1) by (metis size_mset size_add_mset)
  with assms(1) have "rest \<noteq> []" by auto
  with b(3,4) have "secondSpanScore (search_spans ps) \<in> set (map path_score rest)"
      "\<forall>x \<in> set (map path_score rest). x \<le> secondSpanScore (search_spans ps)" by auto
  moreover have "mset (map path_score ps) = add_mset (path_score b) (mset (map path_score rest))"
    using b(1) by simp
  moreover have "\<forall>x \<in> set (map path_score rest). x \<le> path_score b" using b(2) span_wins_score by auto
  ultimately show ?thesis using sort_last_but_one [of "map path_score ps"] by (metis length_map)
qed

section \<open>A candidate does not depend on the workspace\<close>

definition candidate_at :: "indexed_corpus \<Rightarrow> jstring list \<Rightarrow> int \<Rightarrow> int \<Rightarrow> nat \<Rightarrow> alignment_candidate" where
  "candidate_at index actual cursorSymbol committedSymbol i =
     (let st = search_spans (span_paths index actual i)
      in candidate_of index actual i cursorSymbol committedSymbol (the (span_best st))
           (secondSpanScore st) (spanCount st))"

text \<open>A workspace large enough for every span.\<close>

definition workspace_for :: "indexed_corpus \<Rightarrow> jstring list \<Rightarrow> alignment_workspace \<Rightarrow> bool" where
  "workspace_for index actual ws \<longleftrightarrow> workspace_ok ws \<and> length actual \<le> actualCapacity ws
     \<and> min (length (ix_symbols index)) (length actual + MAX_REFERENCE_LENGTH_VARIATION) \<le> referenceCapacity ws"

lemma span_lengths_bounds:
  assumes "n \<in> set (span_lengths m k i)"
  shows "n \<le> m - i \<and> n \<le> k + MAX_REFERENCE_LENGTH_VARIATION \<and> min (m - i) (max 1 (k - MAX_REFERENCE_LENGTH_VARIATION)) \<le> n"
  using assms by (auto simp: span_lengths_def Let_def simp del: upt_Suc)

lemma length_reference_span:
  "n \<le> length (ix_symbols index) - i \<Longrightarrow> length (reference_span index i n) = n"
  by (simp add: reference_span_def)

lemma evaluate_span_step:
  assumes "length actual < 2 ^ 20" "workspace_for index actual (span_workspace st)"
    "n \<in> set (span_lengths (length (ix_symbols index)) (length actual) i)"
  shows "\<exists>ws. evaluate_span index actual i st n
      = Inr (take_span st (aligned_path actual (reference_span index i n)) ws) \<and> workspace_for index actual ws"
proof -
  have "workspace_fits actual (reference_span index i n) (span_workspace st)"
    using span_lengths_bounds [OF assms(3)] assms(1,2)
    by (auto simp: workspace_fits_def workspace_for_def length_reference_span MAX_REFERENCE_LENGTH_VARIATION_def)
  from align_with_workspace [OF this] assms(2) show ?thesis
    by (auto simp: evaluate_span_def aligned_path_def workspace_for_def)
qed

lemma take_span_workspace:
  assumes "st\<lparr>span_workspace := no_workspace\<rparr> = st'"
  shows "(take_span st p ws)\<lparr>span_workspace := no_workspace\<rparr> = take_span st' p no_workspace"
  using assms by (auto simp: take_span_def)

lemma evaluate_spans:
  assumes "length actual < 2 ^ 20" "workspace_for index actual (span_workspace st)"
    "set ns \<subseteq> set (span_lengths (length (ix_symbols index)) (length actual) i)"
    "st\<lparr>span_workspace := no_workspace\<rparr> = search_spans ps"
  shows "\<exists>st'. for_each (evaluate_span index actual i) st ns = Inr st'
    \<and> st'\<lparr>span_workspace := no_workspace\<rparr>
        = search_spans (ps @ map (\<lambda>n. aligned_path actual (reference_span index i n)) ns)
    \<and> workspace_for index actual (span_workspace st')"
  using assms(2-4)
proof (induction ns arbitrary: st ps)
  case (Cons n ns)
  then have "n \<in> set (span_lengths (length (ix_symbols index)) (length actual) i)" by simp
  from evaluate_span_step [OF assms(1) Cons.prems(1) this] obtain ws where
    ws: "evaluate_span index actual i st n = Inr (take_span st (aligned_path actual (reference_span index i n)) ws)"
      "workspace_for index actual ws" by blast
  let ?st = "take_span st (aligned_path actual (reference_span index i n)) ws"
  have "span_workspace ?st = ws" by (simp add: take_span_def)
  moreover have "?st\<lparr>span_workspace := no_workspace\<rparr>
      = search_spans (ps @ [aligned_path actual (reference_span index i n)])"
    using take_span_workspace [OF Cons.prems(3)] by (simp add: search_spans_snoc)
  ultimately show ?case using Cons.IH [of ?st "ps @ [aligned_path actual (reference_span index i n)]"] Cons.prems ws
    by simp
qed (auto simp: assms)

lemma span_paths_nonempty: "i < length (ix_symbols index) \<Longrightarrow> span_paths index actual i \<noteq> []"
  by (auto simp: span_paths_def span_lengths_def Let_def MAX_REFERENCE_LENGTH_VARIATION_def)

lemma evaluateCandidate_at:
  assumes "length actual < 2 ^ 20" "workspace_for index actual ws" "i < length (ix_symbols index)"
  shows "\<exists>ws'. evaluateCandidate index actual i cursorSymbol committedSymbol ws
      = Inr (candidate_at index actual cursorSymbol committedSymbol i, ws') \<and> workspace_for index actual ws'"
proof -
  let ?st = "\<lparr>span_best = None, secondSpanScore = 0, spanCount = 0, span_workspace = ws\<rparr>"
  have "?st\<lparr>span_workspace := no_workspace\<rparr> = search_spans []" by (simp add: search_spans_def)
  with evaluate_spans [OF assms(1) _ order_refl, where index = index and st = ?st and i = i and ps = "[]"] assms(2)
  obtain st' where st': "for_each (evaluate_span index actual i) ?st
        (span_lengths (length (ix_symbols index)) (length actual) i) = Inr st'"
      "st'\<lparr>span_workspace := no_workspace\<rparr> = search_spans (span_paths index actual i)"
      "workspace_for index actual (span_workspace st')"
    by (auto simp: span_paths_def)
  obtain b where "span_best (search_spans (span_paths index actual i)) = Some b"
    using search_spans_best [OF span_paths_nonempty [OF assms(3)] span_paths_nonneg] by metis
  moreover have "span_best st' = span_best (st'\<lparr>span_workspace := no_workspace\<rparr>)"
      "secondSpanScore st' = secondSpanScore (st'\<lparr>span_workspace := no_workspace\<rparr>)"
      "spanCount st' = spanCount (st'\<lparr>span_workspace := no_workspace\<rparr>)" by simp_all
  ultimately show ?thesis
    using st' by (auto simp: evaluateCandidate_def candidate_at_def Let_def simp del: for_each.simps)
qed

section \<open>All candidates\<close>

interpretation candidate_order: consistent_comparator compareCandidates
  by unfold_locales (auto simp: compareCandidates_def split: if_splits)

lemma evaluate_positions_at:
  assumes "length actual < 2 ^ 20" "workspace_for index actual ws" "distinct ks"
    "\<forall>p \<in> set ps. p < length (ix_symbols index)"
  shows "\<exists>ws'. evaluatePositions index actual c com (map (\<lambda>i. (i, candidate_at index actual c com i)) ks, ws) ps
      = Inr (map (\<lambda>i. (i, candidate_at index actual c com i)) (foldl (\<lambda>s x. js_set_add x s) ks ps), ws')
    \<and> workspace_for index actual ws'"
  using assms(2-4)
proof (induction ps arbitrary: ks ws)
  case (Cons p ps)
  let ?m = "\<lambda>ks. map (\<lambda>i. (i, candidate_at index actual c com i)) ks"
  have has: "js_map_has (?m ks) p \<longleftrightarrow> p \<in> set ks" by (auto simp: js_map_has_iff)
  have "\<exists>ws'. evaluate_position index actual c com (?m ks, ws) p = Inr (?m (js_set_add p ks), ws')
      \<and> workspace_for index actual ws'"
  proof (cases "p \<in> set ks")
    case True
    with Cons.prems has show ?thesis by (simp add: evaluate_position_def js_set_add_def)
  next
    case False
    from evaluateCandidate_at [OF assms(1) Cons.prems(1), of p c com] Cons.prems(3) obtain ws' where
      "evaluateCandidate index actual p c com ws = Inr (candidate_at index actual c com p, ws')"
      "workspace_for index actual ws'" by auto
    with False has show ?thesis
      by (auto simp: evaluate_position_def js_set_add_def js_map_set_fresh comp_def)
  qed
  then obtain ws' where "evaluate_position index actual c com (?m ks, ws) p = Inr (?m (js_set_add p ks), ws')"
      "workspace_for index actual ws'" by blast
  with Cons.IH [of ws' "js_set_add p ks"] Cons.prems show ?case by (simp add: evaluatePositions_def)
qed (simp add: evaluatePositions_def)

lemma js_set_add_all:
  assumes "distinct (ks @ extra)"
  shows "foldl (\<lambda>s x. js_set_add x s) ks (ks @ extra) = ks @ extra"
proof -
  have "foldl (\<lambda>s x. js_set_add x s) s xs = s" if "set xs \<subseteq> set s" for s xs :: "'a list"
    using that by (induction xs) (auto simp: js_set_add_def)
  moreover have "foldl (\<lambda>s x. js_set_add x s) s xs = s @ xs" if "distinct (s @ xs)" for s xs :: "'a list"
    using that by (induction xs arbitrary: s) (auto simp: js_set_add_def)
  ultimately show ?thesis using assms by simp
qed

text \<open>The positions the observation is evaluated at: the local ones, and the global ones when no
  local candidate reaches the threshold.\<close>

definition evaluated_positions :: "indexed_corpus \<Rightarrow> jstring list \<Rightarrow> int \<Rightarrow> int \<Rightarrow> nat list" where
  "evaluated_positions index actual c com =
     (let local = retrieveCandidatePositions index actual c False
      in if foldl max 0 (map (\<lambda>i. cand_score (candidate_at index actual c com i)) local) < GLOBAL_FALLBACK_THRESHOLD
         then retrieveCandidatePositions index actual c True else local)"

lemma evaluated_positions_ok:
  assumes "ix_symbols index \<noteq> []"
  shows "distinct (evaluated_positions index actual c com)
    \<and> (\<forall>p \<in> set (evaluated_positions index actual c com). p < length (ix_symbols index))
    \<and> set (localPositions index c) \<subseteq> set (evaluated_positions index actual c com)
    \<and> evaluated_positions index actual c com \<noteq> []"
proof -
  obtain glob where "evaluated_positions index actual c com = retrieveCandidatePositions index actual c glob"
    by (rule that [of "foldl max 0 (map (\<lambda>i. cand_score (candidate_at index actual c com i))
        (retrieveCandidatePositions index actual c False)) < GLOBAL_FALLBACK_THRESHOLD"])
      (simp add: evaluated_positions_def Let_def)
  moreover from retrieve_ok [OF assms, of actual c glob] obtain extra where
    "retrieveCandidatePositions index actual c glob = localPositions index c @ extra"
    "distinct (localPositions index c @ extra)"
    "\<forall>p \<in> set (localPositions index c @ extra). p < length (ix_symbols index)"
    by (auto simp: search_ok_def)
  moreover have "localPositions index c \<noteq> []"
    using localPositions_ok [OF assms, of c] by (simp add: local_ok_def)
  ultimately show ?thesis by simp
qed

lemma observation_phonemes_bound:
  "validateObservation v = Inr () \<Longrightarrow> length (observation_phonemes (read_observation v)) < 2 ^ 20"
  by (simp add: validateObservation_Inr_iff wf_observation_def maxPhonemes_def)

lemma locate_ranked:
  assumes "validateObservation v = Inr ()" "actual = observation_phonemes (read_observation v)"
    "actual \<noteq> []" "ix_symbols index \<noteq> []" "c = max 0 (min cursor (int (length (ix_symbols index)) - 1))"
  shows "locateObservation index v cursor com
    = Inr (rank_candidates (map (candidate_at index actual c com) (evaluated_positions index actual c com)))"
proof -
  let ?n = "length (ix_symbols index)" and ?cand = "candidate_at index actual c com"
  let ?m = "\<lambda>ks. map (\<lambda>i. (i, ?cand i)) ks"
  let ?ws = "createAlignmentWorkspace (length actual) (min ?n (length actual + MAX_REFERENCE_LENGTH_VARIATION))"
  have len: "length actual < 2 ^ 20" using observation_phonemes_bound [OF assms(1)] assms(2) by simp
  have ws: "workspace_for index actual ?ws"
    by (simp add: workspace_for_def workspace_ok_create) (simp add: createAlignmentWorkspace_def)
  let ?L = "retrieveCandidatePositions index actual c False" and ?G = "retrieveCandidatePositions index actual c True"
  from retrieve_ok [OF assms(4), of actual c True] retrieve_local [OF assms(4), of actual c]
  obtain extra where G: "?G = ?L @ extra" "distinct (?L @ extra)" "\<forall>x \<in> set ?G. x < ?n"
    by (auto simp: search_ok_def)
  have L: "\<forall>x \<in> set ?L. x < ?n" "distinct ?L" using G by auto
  from evaluate_positions_at [OF len ws distinct.simps(1) [THEN iffD2] L(1), of c com] L(2)
  obtain ws1 where first: "evaluatePositions index actual c com ([], ?ws) ?L = Inr (?m ?L, ws1)"
      "workspace_for index actual ws1"
    using js_set_of_distinct [OF L(2)] by (auto simp: js_set_of_def)
  from evaluate_positions_at [OF len first(2) L(2) G(3), of c com] js_set_add_all [OF G(2)]
  obtain ws2 where second: "evaluatePositions index actual c com (?m ?L, ws1) ?G = Inr (?m ?G, ws2)"
    using G(1) by auto
  show ?thesis
    unfolding locateObservation_def assms(1) ebind_simps Let_def assms(2) [symmetric] assms(5) [symmetric]
    using assms(3,4) first(1) second
    by (simp add: evaluated_positions_def Let_def js_map_values_def comp_def)
qed

lemma clamped_cursor:
  "xs \<noteq> [] \<Longrightarrow> c = max 0 (min cursor (int (length xs) - 1)) \<Longrightarrow> clamp_cursor (length xs) c = clamp_cursor (length xs) cursor"
  by (cases xs) (auto simp: clamp_cursor_def)

lemma rank_head:
  assumes "cands \<noteq> []"
  obtains b s where "rank_candidates cands = (Some b, s)" "b \<in> set cands"
    "\<forall>x \<in> set cands. compareCandidates b x \<le> 0" "s = None \<longleftrightarrow> length cands = 1"
proof -
  have "length (js_sort compareCandidates cands) = length cands" by simp
  with assms obtain b rest where sorted: "js_sort compareCandidates cands = b # rest" "length cands = Suc (length rest)"
    by (cases "js_sort compareCandidates cands") auto
  have "b \<in> set cands" using sorted(1) by (metis list.set_intros(1) set_js_sort)
  moreover have "\<forall>x \<in> set cands. compareCandidates b x \<le> 0"
    using candidate_order.js_sort_head_least [OF sorted(1)] by blast
  moreover have "\<exists>s. rank_candidates cands = (Some b, s) \<and> (s = None \<longleftrightarrow> length cands = 1)"
    using sorted by (cases rest) (auto simp: rank_candidates_def)
  ultimately show thesis using that by blast
qed

lemma rank_second:
  assumes "distinct cands" "rank_candidates cands = (Some b, Some s)"
  shows "s \<in> set cands \<and> s \<noteq> b \<and> (\<forall>x \<in> set cands. x \<noteq> b \<longrightarrow> compareCandidates s x \<le> 0)"
proof -
  from assms(2) obtain rest where sorted: "js_sort compareCandidates cands = b # s # rest"
    by (auto simp: rank_candidates_def split: list.splits)
  have "mset (b # s # rest) = mset cands" using sorted by (metis mset_js_sort)
  then have "distinct (b # s # rest)" "set (b # s # rest) = set cands"
    using assms(1) by (metis mset_eq_imp_distinct_iff, metis mset_eq_setD)
  then show ?thesis using candidate_order.js_sort_second_least [OF sorted assms(1)] by auto
qed

lemma candidate_at_select:
  "symbolIndex (candidate_at index actual c com i) = i"
  by (simp add: candidate_at_def candidate_of_def Let_def)

lemma candidate_at_span:
  assumes "i < length (ix_symbols index)"
  shows "cand_alignment (candidate_at index actual c com i) \<in> set (span_paths index actual i)
    \<and> cand_score (candidate_at index actual c com i) = path_score (cand_alignment (candidate_at index actual c com i))
    \<and> (\<forall>p \<in> set (span_paths index actual i). \<not> span_wins p (Some (cand_alignment (candidate_at index actual c com i))))"
proof -
  obtain b where "span_best (search_spans (span_paths index actual i)) = Some b"
      "b \<in> set (span_paths index actual i)" "\<forall>p \<in> set (span_paths index actual i). \<not> span_wins p (Some b)"
    by (rule search_spans_best [OF span_paths_nonempty [OF assms] span_paths_nonneg])
  then show ?thesis by (simp add: candidate_at_def candidate_of_def Let_def)
qed

lemma candidate_at_margin:
  assumes "2 \<le> length (span_paths index actual i)" "i < length (ix_symbols index)"
  shows "scoreMargin (candidate_at index actual c com i) = max 0 (fl (cand_score (candidate_at index actual c com i)
    - sort (map path_score (span_paths index actual i)) ! (length (span_paths index actual i) - 2)))"
proof -
  have "spanCount (search_spans (span_paths index actual i)) = length (span_paths index actual i)"
    using summarises_search [OF span_paths_nonneg] by (simp add: summarises_def)
  then show ?thesis
    using assms(1) search_spans_second [OF assms(1) span_paths_nonneg]
    by (simp add: candidate_at_def candidate_of_def Let_def)
qed

text \<open>A verbatim occurrence scores 1.\<close>

lemma verbatim_score:
  assumes "i < length (ix_symbols index)" "actual \<noteq> []" "length actual < 2 ^ 20"
    "reference_span index i (length actual) = actual"
  shows "cand_score (candidate_at index actual c com i) = 1"
proof -
  have "length (reference_span index i (length actual)) = min (length actual) (length (ix_symbols index) - i)"
    by (simp add: reference_span_def min.commute)
  then have "length actual \<le> length (ix_symbols index) - i" using assms(4) by simp
  moreover have "1 \<le> length actual" using assms(2) by (cases actual) auto
  ultimately have "length actual \<in> set (span_lengths (length (ix_symbols index)) (length actual) i)"
    by (auto simp: span_lengths_def Let_def simp del: upt_Suc)
  then have "aligned_path actual actual \<in> set (span_paths index actual i)"
    unfolding span_paths_def using assms(4) by force
  with candidate_at_span [OF assms(1), of actual c com] span_wins_score
  have "path_score (aligned_path actual actual) \<le> cand_score (candidate_at index actual c com i)" by metis
  moreover have "path_score (aligned_path actual actual) = 1"
    using aligned_path_score_1 [of actual actual] assms(3) by simp
  moreover have "cand_score (candidate_at index actual c com i) \<le> 1"
    using candidate_at_span [OF assms(1), of actual c com] aligned_path_score_range [THEN conjunct2]
    by (auto simp: span_paths_def)
  ultimately show ?thesis by simp
qed

lemma compare_score: "compareCandidates b x \<le> 0 \<Longrightarrow> cand_score x \<le> cand_score b"
  by (auto simp: compareCandidates_def split: if_splits)

section \<open>Properties\<close>

text \<open>\<open>evaluateCandidate\<close> aligns the observation with every reference span starting at the
  position whose length differs from the observation's by at most three, and keeps the best of
  them by score, then fewer edits, then longer lookahead; its margin is the rounded gap between
  the best and the second best span score, and 0 when there is only one span.\<close>

theorem candidate_keeps_best_span:
  assumes "length actual < 2 ^ 20" "workspace_for index actual ws" "i < length (ix_symbols index)"
  shows "\<exists>c ws'. evaluateCandidate index actual i cursor committed ws = Inr (c, ws')
    \<and> cand_alignment c \<in> set (span_paths index actual i)
    \<and> cand_score c = path_score (cand_alignment c)
    \<and> list_all (\<lambda>p. \<not> span_wins p (Some (cand_alignment c))) (span_paths index actual i)
    \<and> scoreMargin c = (if length (span_paths index actual i) < 2 then 0
         else max 0 (fl (cand_score c - sort (map path_score (span_paths index actual i))
                                          ! (length (span_paths index actual i) - 2))))"
proof -
  let ?c = "candidate_at index actual cursor committed i"
  from evaluateCandidate_at [OF assms] obtain ws' where
    "evaluateCandidate index actual i cursor committed ws = Inr (?c, ws')" by blast
  moreover have "scoreMargin ?c = 0" if "length (span_paths index actual i) < 2"
    using that summarises_search [OF span_paths_nonneg, of index actual i]
    by (simp add: candidate_at_def candidate_of_def Let_def summarises_def)
  ultimately show ?thesis
    using candidate_at_span [OF assms(3)] candidate_at_margin [OF _ assms(3)] by (auto simp: list_all_iff)
qed

theorem candidate_keeps_best_span_witness:
  "\<exists>c ws'. evaluateCandidate (build_index (read_corpus sample_corpus)) [lit ''a'', lit ''l''] 1 0 0
      (createAlignmentWorkspace 2 4) = Inr (c, ws')
    \<and> cand_score c = path_score (cand_alignment c)"
proof -
  have "workspace_for (build_index (read_corpus sample_corpus)) [lit ''a'', lit ''l''] (createAlignmentWorkspace 2 4)"
    by code_simp
  moreover have "1 < length (ix_symbols (build_index (read_corpus sample_corpus)))" by code_simp
  ultimately show ?thesis
    using candidate_keeps_best_span [of "[lit ''a'', lit ''l'']" "build_index (read_corpus sample_corpus)"
        "createAlignmentWorkspace 2 4" 1 0 0] by auto
qed

text \<open>C8: \<open>locateObservation\<close> throws only what \<open>validateObservation\<close> throws: on a valid observation
  neither the reused workspace nor a missing symbol nor an endless loop stands in the way, and
  there is no best candidate exactly when the observation has no phonemes or the corpus no
  symbols.\<close>

theorem locate_total_on_valid:
  "case validateObservation v of
     Inl e \<Rightarrow> locateObservation index v cursor committed = Inl e
   | Inr _ \<Rightarrow> \<exists>best second. locateObservation index v cursor committed = Inr (best, second)
       \<and> (best = None \<longleftrightarrow> observation_phonemes (read_observation v) = [] \<or> ix_symbols index = [])"
proof (cases "validateObservation v")
  case (Inl e)
  then show ?thesis by (simp add: locateObservation_def)
next
  case (Inr u)
  let ?actual = "observation_phonemes (read_observation v)"
  show ?thesis
  proof (cases "?actual = [] \<or> ix_symbols index = []")
    case True
    then show ?thesis using Inr by (auto simp: locateObservation_def Let_def)
  next
    case False
    let ?c = "max 0 (min cursor (int (length (ix_symbols index)) - 1))"
    have "validateObservation v = Inr ()" using Inr by simp
    with False have "locateObservation index v cursor committed = Inr (rank_candidates
        (map (candidate_at index ?actual ?c committed) (evaluated_positions index ?actual ?c committed)))"
      by (intro locate_ranked) simp_all
    moreover have "map (candidate_at index ?actual ?c committed) (evaluated_positions index ?actual ?c committed) \<noteq> []"
      using evaluated_positions_ok [of index ?actual ?c committed] False by simp
    then obtain b s where "rank_candidates (map (candidate_at index ?actual ?c committed)
        (evaluated_positions index ?actual ?c committed)) = (Some b, s)"
      by (rule rank_head)
    ultimately show ?thesis using Inr False by auto
  qed
qed

text \<open>C9: the best candidate is the best of all evaluated positions: none compares before it, so
  none has a higher score, and, among those of its score, none a larger margin, a smaller distance
  from the cursor, and so on down to the position itself; the second is the best of the others.
  All local positions are among the evaluated ones.\<close>

theorem locate_best_is_maximal:
  assumes "locateObservation index v cursor committed = Inr (Some b, s)"
    "actual = observation_phonemes (read_observation v)"
    "c = max 0 (min cursor (int (length (ix_symbols index)) - 1))"
    "cands = map (candidate_at index actual c committed) (evaluated_positions index actual c committed)"
  shows "b \<in> set cands \<and> list_all (\<lambda>x. compareCandidates b x \<le> 0 \<and> cand_score x \<le> cand_score b) cands
    \<and> set (localPositions index c) \<subseteq> symbolIndex ` set cands
    \<and> (case s of None \<Rightarrow> length cands = 1
        | Some b' \<Rightarrow> b' \<in> set cands - {b} \<and> (\<forall>x \<in> set cands - {b}. compareCandidates b' x \<le> 0))"
proof -
  from assms(1) have v: "validateObservation v = Inr ()"
    by (cases "validateObservation v") (auto simp: locateObservation_def)
  from assms(1) v assms(2) have ne: "actual \<noteq> []" "ix_symbols index \<noteq> []"
    by (auto simp: locateObservation_def Let_def)
  note pos = evaluated_positions_ok [OF ne(2), of actual c committed]
  have ranked: "rank_candidates cands = (Some b, s)"
    using locate_ranked [OF v assms(2) ne assms(3), of committed] assms(1,4) by simp
  have "cands \<noteq> []" using pos assms(4) by simp
  then obtain b' s' where best: "rank_candidates cands = (Some b', s')" "b' \<in> set cands"
      "\<forall>x \<in> set cands. compareCandidates b' x \<le> 0" "s' = None \<longleftrightarrow> length cands = 1"
    by (rule rank_head)
  have "distinct cands" unfolding assms(4) distinct_map
    using pos by (auto intro!: inj_on_inverseI [where g = symbolIndex] simp: candidate_at_select)
  moreover have "set (localPositions index c) \<subseteq> symbolIndex ` set cands"
    using pos unfolding assms(4) by (simp add: image_image candidate_at_select)
  ultimately show ?thesis
    using best ranked rank_second [of cands b] compare_score by (auto simp: list_all_iff split: option.split)
qed

lemma sample_located:
  "\<exists>b s. locateObservation (build_index (read_corpus sample_corpus)) (js_observation ''o1'' 0 False 10 [''a'', ''l'']) 0 0
     = Inr (Some b, s) \<and> symbolIndex b = 1"
proof -
  have "(case locateObservation (build_index (read_corpus sample_corpus)) (js_observation ''o1'' 0 False 10 [''a'', ''l'']) 0 0
     of Inr (Some b, s) \<Rightarrow> symbolIndex b = 1 | _ \<Rightarrow> False)" by code_simp
  then show ?thesis by (auto split: sum.splits option.splits)
qed

theorem locate_best_is_maximal_witness:
  "\<exists>b s. locateObservation (build_index (read_corpus sample_corpus)) (js_observation ''o1'' 0 False 10 [''a'', ''l'']) 0 0
      = Inr (Some b, s) \<and> symbolIndex b = 1
    \<and> set (localPositions (build_index (read_corpus sample_corpus)) 0) \<subseteq> symbolIndex ` set
        (map (candidate_at (build_index (read_corpus sample_corpus)) [lit ''a'', lit ''l''] 0 0)
          (evaluated_positions (build_index (read_corpus sample_corpus)) [lit ''a'', lit ''l''] 0 0))"
proof -
  let ?ix = "build_index (read_corpus sample_corpus)"
  have actual: "[lit ''a'', lit ''l''] = observation_phonemes (read_observation (js_observation ''o1'' 0 False 10 [''a'', ''l'']))"
    by code_simp
  have cursor: "0 = max 0 (min 0 (int (length (ix_symbols ?ix)) - 1))" by code_simp
  obtain b s where loc: "locateObservation ?ix (js_observation ''o1'' 0 False 10 [''a'', ''l'']) 0 0 = Inr (Some b, s)"
      "symbolIndex b = 1" using sample_located by blast
  from locate_best_is_maximal [OF loc(1) actual cursor refl] loc show ?thesis by blast
qed

text \<open>A verbatim recitation is found: when the observed phonemes stand in the corpus from a
  position of the local search on, the best candidate has score 1.\<close>

theorem verbatim_recitation_scores_1:
  assumes "validateObservation v = Inr ()" "actual = observation_phonemes (read_observation v)" "actual \<noteq> []"
    "reference_span index i (length actual) = actual"
    "i \<in> set (localPositions index (max 0 (min cursor (int (length (ix_symbols index)) - 1))))"
  shows "\<exists>b s. locateObservation index v cursor committed = Inr (Some b, s) \<and> cand_score b = 1"
proof -
  let ?c = "max 0 (min cursor (int (length (ix_symbols index)) - 1))"
  let ?cands = "map (candidate_at index actual ?c committed) (evaluated_positions index actual ?c committed)"
  have ne: "ix_symbols index \<noteq> []" using assms(5) by (auto simp: localPositions_def)
  note pos = evaluated_positions_ok [OF ne, of actual ?c committed]
  have len: "length actual < 2 ^ 20" using observation_phonemes_bound assms(1,2) by blast
  have i: "i \<in> set (evaluated_positions index actual ?c committed)" "i < length (ix_symbols index)"
    using pos assms(5) by auto
  from pos have "?cands \<noteq> []" by simp
  then obtain b s where best: "rank_candidates ?cands = (Some b, s)" "b \<in> set ?cands"
      "\<forall>x \<in> set ?cands. compareCandidates b x \<le> 0"
    by (rule rank_head)
  have "cand_score (candidate_at index actual ?c committed i) \<le> cand_score b"
    using best(3) i(1) compare_score by simp
  moreover have "cand_score b \<le> 1"
  proof -
    from best(2) obtain j where "j < length (ix_symbols index)" "b = candidate_at index actual ?c committed j"
      using pos by auto
    with candidate_at_span [of j index actual ?c committed] aligned_path_score_range [THEN conjunct2] show ?thesis
      by (auto simp: span_paths_def)
  qed
  ultimately have "cand_score b = 1" using verbatim_score [OF i(2) assms(3) len assms(4)] by simp
  with locate_ranked [OF assms(1,2,3) ne refl, of cursor committed] best(1) show ?thesis by auto
qed

theorem verbatim_recitation_scores_1_witness:
  "\<exists>b s. locateObservation (build_index (read_corpus sample_corpus)) (js_observation ''o1'' 0 False 10 [''a'', ''l'']) 0 0
     = Inr (Some b, s) \<and> cand_score b = 1"
proof -
  let ?ix = "build_index (read_corpus sample_corpus)" and ?a = "[lit ''a'', lit ''l'']"
  have "?a = observation_phonemes (read_observation (js_observation ''o1'' 0 False 10 [''a'', ''l'']))" by code_simp
  moreover have "reference_span ?ix 1 (length ?a) = ?a" by code_simp
  moreover have "1 \<in> set (localPositions ?ix (max 0 (min 0 (int (length (ix_symbols ?ix)) - 1))))" by code_simp
  ultimately show ?thesis using verbatim_recitation_scores_1 [OF js_observation_valid] by blast
qed

end
