(* ===== verification/Confidence.thy ===== *)
theory Confidence
  imports Js_Value
begin

text \<open>
  \<open>packages/core/src/confidence/score.ts\<close> and \<open>types.ts\<close>: the evidence computed for one located
  hypothesis and the decision gates.  Inputs are numbers of any kind, infinite and NaN
  included; every addition, product and quotient is rounded to a double where the code computes
  one, in the code's order.

  The lemmas show that all evidence lies in the unit interval, rounding included, that the
  combined score grows with each of its inputs, and how the gates are ordered.
\<close>

section \<open>Types and constants\<close>

record confidence_input =
  in_alignment :: js_num
  in_stability :: js_num
  in_matchedLookaheadCount :: js_num
  in_margin :: js_num
  in_actualPhonemeCount :: js_num
  in_acousticConfidences :: "js list option"

record confidence_evidence =
  ev_alignment :: rat
  ev_stability :: rat
  ev_lookahead :: rat
  ev_matchedLookaheadCount :: nat
  ev_margin :: rat
  ev_acoustic :: "rat option"
  ev_combined :: rat

definition POSITION_ALIGNMENT_THRESHOLD :: rat where "POSITION_ALIGNMENT_THRESHOLD = fl (72 / 100)"
definition POSITION_MARGIN_THRESHOLD :: rat where "POSITION_MARGIN_THRESHOLD = fl (8 / 100)"
definition IMMEDIATE_CONFIDENCE_THRESHOLD :: rat where "IMMEDIATE_CONFIDENCE_THRESHOLD = fl (9 / 10)"
definition IMMEDIATE_MARGIN_THRESHOLD :: rat where "IMMEDIATE_MARGIN_THRESHOLD = fl (15 / 100)"
definition FINAL_CONFIDENCE_THRESHOLD :: rat where "FINAL_CONFIDENCE_THRESHOLD = fl (82 / 100)"
definition FINAL_MARGIN_THRESHOLD :: rat where "FINAL_MARGIN_THRESHOLD = fl (1 / 10)"
definition SOFT_CONFIDENCE_THRESHOLD :: rat where "SOFT_CONFIDENCE_THRESHOLD = fl (88 / 100)"

section \<open>Scoring\<close>

definition clampUnit :: "js_num \<Rightarrow> rat" where
  "clampUnit value = (if \<not> number_isFinite value then 0 else max 0 (min 1 (num_rat value)))"

definition valid_acoustic :: "js \<Rightarrow> bool" where
  "valid_acoustic v \<longleftrightarrow> isNumber v \<and> number_isFinite (the_num v)
     \<and> 0 \<le> num_rat (the_num v) \<and> num_rat (the_num v) \<le> 1"

definition acoustic_sum :: "js list \<Rightarrow> rat \<times> nat" where
  "acoustic_sum vals = foldl (\<lambda>(acc, number) v.
     if valid_acoustic v then (fl (acc + num_rat (the_num v)), number + 1) else (acc, number)) (0, 0) vals"

definition alignedAcousticConfidence :: "confidence_input \<Rightarrow> rat option" where
  "alignedAcousticConfidence input = (case in_acousticConfidences input of
       None \<Rightarrow> None
     | Some vals \<Rightarrow>
         if \<not> isSafeInteger (in_actualPhonemeCount input) \<or> num_int (in_actualPhonemeCount input) \<le> 0
            \<or> int (length vals) \<noteq> num_int (in_actualPhonemeCount input)
         then None
         else case acoustic_sum vals of (acc, number) \<Rightarrow>
           if number = 0 then None else Some (fl (acc / of_nat number)))"

definition combine_without :: "rat \<Rightarrow> rat \<Rightarrow> rat \<Rightarrow> rat \<Rightarrow> rat" where
  "combine_without alignment stability lookahead margin =
     fl (fl (fl (fl (alignment * fl (4 / 10)) + fl (stability * fl (25 / 100)))
       + fl (lookahead * fl (2 / 10))) + fl (margin * fl (15 / 100)))"

definition combine_with :: "rat \<Rightarrow> rat \<Rightarrow> rat \<Rightarrow> rat \<Rightarrow> rat \<Rightarrow> rat" where
  "combine_with alignment stability lookahead margin acoustic =
     fl (fl (fl (fl (fl (alignment * fl (34 / 100)) + fl (stability * fl (2125 / 10000)))
       + fl (lookahead * fl (17 / 100))) + fl (margin * fl (1275 / 10000))) + fl (acoustic * fl (15 / 100)))"

definition scoreConfidence :: "confidence_input \<Rightarrow> confidence_evidence" where
  "scoreConfidence input =
     (let alignment = clampUnit (in_alignment input);
          stability = clampUnit (in_stability input);
          matched = (if isSafeInteger (in_matchedLookaheadCount input)
                     then nat (max 0 (num_int (in_matchedLookaheadCount input))) else 0);
          lookahead = min 1 (fl (of_nat matched / 2));
          margin = clampUnit (in_margin input);
          acoustic = alignedAcousticConfidence input
      in \<lparr>ev_alignment = alignment, ev_stability = stability, ev_lookahead = lookahead,
          ev_matchedLookaheadCount = matched, ev_margin = margin, ev_acoustic = acoustic,
          ev_combined = (case acoustic of
              None \<Rightarrow> combine_without alignment stability lookahead margin
            | Some a \<Rightarrow> combine_with alignment stability lookahead margin a)\<rparr>)"

section \<open>Gates\<close>

definition passesPositionGate :: "confidence_evidence \<Rightarrow> bool" where
  "passesPositionGate ev \<longleftrightarrow> POSITION_ALIGNMENT_THRESHOLD \<le> ev_alignment ev
     \<and> POSITION_MARGIN_THRESHOLD \<le> ev_margin ev"

definition passesImmediateFindingGate :: "confidence_evidence \<Rightarrow> bool" where
  "passesImmediateFindingGate ev \<longleftrightarrow> IMMEDIATE_CONFIDENCE_THRESHOLD \<le> ev_combined ev
     \<and> IMMEDIATE_MARGIN_THRESHOLD \<le> ev_margin ev \<and> 2 \<le> ev_matchedLookaheadCount ev"

definition passesFinalFindingGate :: "confidence_evidence \<Rightarrow> bool" where
  "passesFinalFindingGate ev \<longleftrightarrow> FINAL_CONFIDENCE_THRESHOLD \<le> ev_combined ev
     \<and> FINAL_MARGIN_THRESHOLD \<le> ev_margin ev"

definition passesSoftFindingGate :: "confidence_evidence \<Rightarrow> nat \<Rightarrow> nat \<Rightarrow> bool" where
  "passesSoftFindingGate ev confirmations contextPhonemeCount \<longleftrightarrow>
     SOFT_CONFIDENCE_THRESHOLD \<le> ev_combined ev \<and> 2 \<le> confirmations
     \<and> 2 \<le> contextPhonemeCount \<and> contextPhonemeCount \<le> 3"

section \<open>Bounds and monotonicity\<close>

definition in_unit :: "rat \<Rightarrow> bool" where
  "in_unit x \<longleftrightarrow> 0 \<le> x \<and> x \<le> 1"

lemma clampUnit_unit: "in_unit (clampUnit x)"
  by (auto simp: clampUnit_def in_unit_def)

lemma fl_weight_mono: "x \<le> y \<Longrightarrow> 0 \<le> w \<Longrightarrow> fl (x * fl w) \<le> fl (y * fl w)"
  by (intro fl_mono mult_right_mono fl_nonneg)

lemma fl_weight_nonneg: "0 \<le> x \<Longrightarrow> 0 \<le> w \<Longrightarrow> 0 \<le> fl (x * fl w)"
  by (intro fl_nonneg mult_nonneg_nonneg)

lemma combine_without_mono:
  assumes "a \<le> a'" "s \<le> s'" "l \<le> l'" "m \<le> m'"
  shows "combine_without a s l m \<le> combine_without a' s' l' m'"
  unfolding combine_without_def using assms by (intro fl_mono add_mono mult_right_mono fl_nonneg) simp_all

lemma combine_with_mono:
  assumes "a \<le> a'" "s \<le> s'" "l \<le> l'" "m \<le> m'" "c \<le> c'"
  shows "combine_with a s l m c \<le> combine_with a' s' l' m' c'"
  unfolding combine_with_def using assms by (intro fl_mono add_mono mult_right_mono fl_nonneg) simp_all

text \<open>The weights as doubles, and their sums in the code's order: both end at 1.\<close>

lemma weights_without:
  "fl (4 / 10) = dbl 7205759403792794 (-54)"
  "fl (dbl 7205759403792794 (-54)) = dbl 7205759403792794 (-54)"
  "fl (25 / 100) = dbl 4503599627370496 (-54)"
  "fl (dbl 4503599627370496 (-54)) = dbl 4503599627370496 (-54)"
  "fl (2 / 10) = dbl 7205759403792794 (-55)"
  "fl (dbl 7205759403792794 (-55)) = dbl 7205759403792794 (-55)"
  "fl (15 / 100) = dbl 5404319552844595 (-55)"
  "fl (dbl 5404319552844595 (-55)) = dbl 5404319552844595 (-55)"
  "fl (dbl 7205759403792794 (-54) + dbl 4503599627370496 (-54)) = dbl 5854679515581645 (-53)"
  "fl (dbl 5854679515581645 (-53) + dbl 7205759403792794 (-55)) = dbl 7656119366529844 (-53)"
  "fl (dbl 7656119366529844 (-53) + dbl 5404319552844595 (-55)) = dbl 4503599627370496 (-52)"
  by (rule fl_dbl; simp add: dbl_def pow2_def)+

lemma weights_with:
  "fl (34 / 100) = dbl 6124895493223875 (-54)"
  "fl (dbl 6124895493223875 (-54)) = dbl 6124895493223875 (-54)"
  "fl (2125 / 10000) = dbl 7656119366529843 (-55)"
  "fl (dbl 7656119366529843 (-55)) = dbl 7656119366529843 (-55)"
  "fl (17 / 100) = dbl 6124895493223875 (-55)"
  "fl (dbl 6124895493223875 (-55)) = dbl 6124895493223875 (-55)"
  "fl (1275 / 10000) = dbl 4593671619917906 (-55)"
  "fl (dbl 4593671619917906 (-55)) = dbl 4593671619917906 (-55)"
  "fl (dbl 6124895493223875 (-54) + dbl 7656119366529843 (-55)) = dbl 4976477588244398 (-53)"
  "fl (dbl 4976477588244398 (-53) + dbl 6124895493223875 (-55)) = dbl 6507701461550367 (-53)"
  "fl (dbl 6507701461550367 (-53) + dbl 4593671619917906 (-55)) = dbl 7656119366529844 (-53)"
  by (rule fl_dbl; simp add: dbl_def pow2_def)+

lemma dbl_1: "dbl 4503599627370496 (-52) = 1"
  by (simp add: dbl_def pow2_def)

lemma combine_extremes:
  "combine_without 0 0 0 0 = 0" "combine_without 1 1 1 1 = 1"
  "combine_with 0 0 0 0 0 = 0" "combine_with 1 1 1 1 1 = 1"
  by (simp_all only: combine_without_def combine_with_def mult_1_left mult_zero_left fl_0 add_0_left
      fl_1 weights_without weights_with dbl_1)

lemma combine_without_unit:
  "in_unit a \<Longrightarrow> in_unit s \<Longrightarrow> in_unit l \<Longrightarrow> in_unit m \<Longrightarrow> in_unit (combine_without a s l m)"
  using combine_without_mono [of 0 a 0 s 0 l 0 m] combine_without_mono [of a 1 s 1 l 1 m 1]
  by (simp add: in_unit_def combine_extremes)

lemma combine_with_unit:
  "in_unit a \<Longrightarrow> in_unit s \<Longrightarrow> in_unit l \<Longrightarrow> in_unit m \<Longrightarrow> in_unit c \<Longrightarrow> in_unit (combine_with a s l m c)"
  using combine_with_mono [of 0 a 0 s 0 l 0 m 0 c] combine_with_mono [of a 1 s 1 l 1 m 1 c 1]
  by (simp add: in_unit_def combine_extremes)

text \<open>The running sum of \<open>k\<close> valid confidences lies between 0 and \<open>k\<close>, rounding included.\<close>

lemma acoustic_sum_bounds:
  assumes "length vals \<le> 2 ^ 53" "acoustic_sum vals = (acc, number)"
  shows "number \<le> length vals \<and> 0 \<le> acc \<and> acc \<le> of_nat number"
  using assms
proof (induction vals arbitrary: acc number rule: rev_induct)
  case Nil
  then show ?case by (simp add: acoustic_sum_def)
next
  case (snoc v vals)
  obtain a k where prev: "acoustic_sum vals = (a, k)" by force
  with snoc have IH: "k \<le> length vals" "0 \<le> a" "a \<le> of_nat k" by auto
  show ?case
  proof (cases "valid_acoustic v")
    case True
    then have v: "0 \<le> num_rat (the_num v)" "num_rat (the_num v) \<le> 1" by (simp_all add: valid_acoustic_def)
    from True prev snoc.prems(2) have new: "acc = fl (a + num_rat (the_num v))" "number = k + 1"
      by (simp_all add: acoustic_sum_def)
    have "is_double (of_int (int (k + 1)))" using IH(1) snoc.prems(1) by (intro is_double_int) simp
    moreover have "a + num_rat (the_num v) \<le> of_int (int (k + 1))" using IH v by simp
    ultimately have "acc \<le> of_int (int (k + 1))" unfolding new by (intro fl_le_double)
    then show ?thesis using new IH v by (simp add: fl_nonneg)
  next
    case False
    with prev snoc.prems(2) have "acc = a" "number = k" by (simp_all add: acoustic_sum_def)
    with IH show ?thesis by simp
  qed
qed

lemma alignedAcousticConfidence_unit:
  assumes "alignedAcousticConfidence input = Some a"
  shows "in_unit a"
proof -
  from assms obtain vals acc number where vals: "in_acousticConfidences input = Some vals"
      "isSafeInteger (in_actualPhonemeCount input)" "int (length vals) = num_int (in_actualPhonemeCount input)"
      "acoustic_sum vals = (acc, number)" "number \<noteq> 0" "a = fl (acc / of_nat number)"
    by (auto simp: alignedAcousticConfidence_def split: option.splits if_splits prod.splits)
  from vals(2,3) have "int (length vals) \<le> safe_limit" by (auto simp: isSafeInteger_iff)
  then have "length vals \<le> 2 ^ 53" by (simp add: safe_limit_def)
  from acoustic_sum_bounds [OF this vals(4)] have "0 \<le> acc" "acc \<le> of_nat number" by simp_all
  with vals(5) have "0 \<le> acc / of_nat number" "acc / of_nat number \<le> 1" by (simp_all add: divide_le_eq_1)
  then show ?thesis unfolding vals(6) in_unit_def by (simp add: fl_nonneg fl_le_1)
qed

text \<open>The lookahead score takes three values.\<close>

lemma lookahead_values: "min 1 (fl (of_nat n / 2)) = (if n = 0 then 0 else if n = 1 then fl (1 / 2) else 1)"
proof -
  have "1 \<le> fl (of_nat n / 2)" if "2 \<le> n"
  proof -
    have "(2 :: rat) \<le> of_nat n" using that by (metis of_nat_le_iff of_nat_numeral)
    then have "fl 1 \<le> fl (of_nat n / 2)" by (intro fl_mono) simp
    then show ?thesis by simp
  qed
  moreover have "fl (1 / 2) \<le> (1 :: rat)" by (intro fl_le_1) simp
  ultimately show ?thesis by (cases "n = 0"; cases "n = 1") (auto simp: min_def)
qed

lemma lookahead_unit: "in_unit (min 1 (fl (of_nat n / 2)))"
  by (simp add: in_unit_def fl_nonneg)

lemma scoreConfidence_unit:
  "in_unit (ev_alignment (scoreConfidence input)) \<and> in_unit (ev_stability (scoreConfidence input))
   \<and> in_unit (ev_lookahead (scoreConfidence input)) \<and> in_unit (ev_margin (scoreConfidence input))
   \<and> (case ev_acoustic (scoreConfidence input) of None \<Rightarrow> True | Some a \<Rightarrow> in_unit a)
   \<and> in_unit (ev_combined (scoreConfidence input))"
  using alignedAcousticConfidence_unit [of input]
  by (cases "alignedAcousticConfidence input")
    (simp_all add: scoreConfidence_def Let_def clampUnit_unit lookahead_unit combine_without_unit combine_with_unit)

section \<open>Properties\<close>

text \<open>Whatever numbers it is given (NaN, infinities and misaligned acoustic arrays included),
  \<open>scoreConfidence\<close> gives evidence in [0, 1], the combined score among it, with the rounding of
  every single addition and product accounted for.\<close>

theorem evidence_in_unit_interval:
  "in_unit (ev_alignment (scoreConfidence input)) \<and> in_unit (ev_stability (scoreConfidence input))
   \<and> in_unit (ev_lookahead (scoreConfidence input)) \<and> in_unit (ev_margin (scoreConfidence input))
   \<and> (case ev_acoustic (scoreConfidence input) of None \<Rightarrow> True | Some a \<Rightarrow> in_unit a)
   \<and> in_unit (ev_combined (scoreConfidence input))"
  by (rule scoreConfidence_unit)

text \<open>Without acoustic evidence the combined score never falls when alignment, stability, margin
  or the number of matched lookahead phonemes grows.\<close>

theorem combined_score_monotone:
  assumes "in_acousticConfidences input = None" "in_acousticConfidences input' = None"
    "clampUnit (in_alignment input) \<le> clampUnit (in_alignment input')"
    "clampUnit (in_stability input) \<le> clampUnit (in_stability input')"
    "clampUnit (in_margin input) \<le> clampUnit (in_margin input')"
    "in_matchedLookaheadCount input = Fin (of_nat k)" "in_matchedLookaheadCount input' = Fin (of_nat k')"
    "k \<le> k'" "k' \<le> 2 ^ 52"
  shows "ev_combined (scoreConfidence input) \<le> ev_combined (scoreConfidence input')"
proof -
  have safe: "isSafeInteger (Fin (of_nat j)) \<and> num_int (Fin (of_nat j)) = int j" if "j \<le> 2 ^ 52" for j
    unfolding isSafeInteger_iff using that by (auto simp: safe_limit_def intro!: exI [of _ "int j"])
  have "fl (of_nat k / 2) \<le> fl (of_nat k' / (2 :: rat))" using assms(8) by (intro fl_mono) simp
  moreover have none: "alignedAcousticConfidence input = None" "alignedAcousticConfidence input' = None"
    using assms(1,2) by (simp_all add: alignedAcousticConfidence_def)
  moreover have "k \<le> 2 ^ 52" using assms(8,9) by simp
  ultimately show ?thesis
    using assms safe [of k] safe [of k']
    by (simp add: scoreConfidence_def Let_def) (intro combine_without_mono, auto simp: min_def)
qed

theorem combined_score_monotone_witness:
  "ev_combined (scoreConfidence \<lparr>in_alignment = Fin (1 / 2), in_stability = NaN, in_matchedLookaheadCount = Fin 1,
      in_margin = Fin 0, in_actualPhonemeCount = Fin 3, in_acousticConfidences = None\<rparr>)
   \<le> ev_combined (scoreConfidence \<lparr>in_alignment = Fin 1, in_stability = Fin 1, in_matchedLookaheadCount = Fin 2,
      in_margin = Fin (1 / 4), in_actualPhonemeCount = Fin 3, in_acousticConfidences = None\<rparr>)"
  by (rule combined_score_monotone [where k = 1 and k' = 2]) (simp_all add: clampUnit_def)

end
