(* ===== verification/Findings.thy ===== *)
theory Findings
  imports Locate Confidence
begin

text \<open>
  \<open>packages/core/src/findings/classify.ts\<close> and \<open>types.ts\<close>: a substitution finding is built from
  the first substitution of a candidate's edit path, with the confidence recomputed from the
  matches that follow that very operation.

  The lemmas show that the recomputed confidence stays in the unit interval, that a finding is
  bound to that one operation, and that on a located candidate a finding always names two
  different phonemes and an existing corpus symbol.
\<close>

section \<open>Types\<close>

record substitution_operation =
  so_actualIndex :: int
  so_referenceIndex :: int

datatype finding_confirmation = Immediate | FinalObservation | Soft

record substitution_evidence =
  se_operation :: substitution_operation
  se_confidence :: confidence_evidence

record confirmed_finding =
  cf_confirmation :: finding_confirmation
  cf_observationId :: jstring
  cf_operation :: substitution_operation
  cf_actualPhoneme :: jstring
  cf_referencePhoneme :: jstring
  cf_referenceSymbolId :: jstring
  cf_location :: quran_location
  cf_confidence :: confidence_evidence
  cf_confirmations :: nat

record finding_input =
  fi_corpus :: indexed_corpus
  fi_candidate :: alignment_candidate
  fi_observation :: recitation_observation
  fi_actualPhonemes :: "jstring list"
  fi_confidence :: confidence_evidence
  fi_confirmations :: nat
  fi_contextPhonemeCount :: nat

text \<open>Reading an array at any index: \<open>undefined\<close> outside.\<close>

definition js_at :: "'a list \<Rightarrow> int \<Rightarrow> 'a option" where
  "js_at xs i = (if 0 \<le> i \<and> nat i < length xs then Some (xs ! nat i) else None)"

lemma js_at_mem: "js_at xs i = Some x \<Longrightarrow> x \<in> set xs"
  by (auto simp: js_at_def split: if_splits)

section \<open>Operations\<close>

fun first_substitution :: "alignment_operation list \<Rightarrow> substitution_operation option" where
  "first_substitution [] = None"
| "first_substitution (OpSubstitution a b # ops) = Some \<lparr>so_actualIndex = a, so_referenceIndex = b\<rparr>"
| "first_substitution (_ # ops) = first_substitution ops"

definition substitutionOperation :: "alignment_candidate \<Rightarrow> substitution_operation option" where
  "substitutionOperation candidate = first_substitution (operations (cand_alignment candidate))"

text \<open>\<open>indexOf\<close> finds the operation object itself: the first substitution.\<close>

fun after_first_substitution :: "alignment_operation list \<Rightarrow> alignment_operation list" where
  "after_first_substitution [] = []"
| "after_first_substitution (OpSubstitution a b # ops) = ops"
| "after_first_substitution (_ # ops) = after_first_substitution ops"

definition substitutionLookaheadCount :: "alignment_candidate \<Rightarrow> nat" where
  "substitutionLookaheadCount candidate =
     length (takeWhile is_match (after_first_substitution (operations (cand_alignment candidate))))"

definition adjust_lookahead :: "confidence_evidence \<Rightarrow> nat \<Rightarrow> confidence_evidence" where
  "adjust_lookahead confidence matched =
     (let lookahead = min 1 (fl (of_nat matched / 2));
          lookaheadWeight = (if ev_acoustic confidence = None then fl (2 / 10) else fl (17 / 100))
      in confidence\<lparr>ev_lookahead := lookahead, ev_matchedLookaheadCount := matched,
           ev_combined := fl (ev_combined confidence
             + fl (fl (lookahead - ev_lookahead confidence) * lookaheadWeight))\<rparr>)"

definition deriveSubstitutionEvidence ::
  "alignment_candidate \<Rightarrow> confidence_evidence \<Rightarrow> substitution_evidence option" where
  "deriveSubstitutionEvidence candidate confidence =
     (if isReread candidate then None
      else case substitutionOperation candidate of
        None \<Rightarrow> None
      | Some operation \<Rightarrow> Some \<lparr>se_operation = operation,
          se_confidence = adjust_lookahead confidence (substitutionLookaheadCount candidate)\<rparr>)"

definition confirmationMode :: "finding_input \<Rightarrow> confidence_evidence \<Rightarrow> finding_confirmation option" where
  "confirmationMode input confidence =
     (if \<not> passesPositionGate confidence then None
      else if passesImmediateFindingGate confidence then Some Immediate
      else if isFinal (fi_observation input) \<and> passesFinalFindingGate confidence then Some FinalObservation
      else if passesSoftFindingGate confidence (fi_confirmations input) (fi_contextPhonemeCount input) then Some Soft
      else None)"

definition classifyFindingWithEvidence ::
  "finding_input \<Rightarrow> substitution_evidence option \<Rightarrow> confirmed_finding option" where
  "classifyFindingWithEvidence input evidence =
     (if isReread (fi_candidate input) then None
      else case substitutionOperation (fi_candidate input) of
        None \<Rightarrow> None
      | Some selected \<Rightarrow> (case evidence of
          None \<Rightarrow> None
        | Some ev \<Rightarrow>
            if so_actualIndex (se_operation ev) \<noteq> so_actualIndex selected
               \<or> so_referenceIndex (se_operation ev) \<noteq> so_referenceIndex selected then None
            else case confirmationMode input (se_confidence ev) of
              None \<Rightarrow> None
            | Some confirmation \<Rightarrow>
                (case (js_at (fi_actualPhonemes input) (so_actualIndex (se_operation ev)),
                       js_at (ix_symbols (fi_corpus input))
                         (int (symbolIndex (fi_candidate input)) + so_referenceIndex (se_operation ev))) of
                   (Some actualPhoneme, Some referenceSymbol) \<Rightarrow> Some
                     \<lparr>cf_confirmation = confirmation,
                      cf_observationId = observationId (fi_observation input),
                      cf_operation = se_operation ev, cf_actualPhoneme = actualPhoneme,
                      cf_referencePhoneme = sym_phoneme referenceSymbol,
                      cf_referenceSymbolId = sym_id referenceSymbol,
                      cf_location = sym_location referenceSymbol,
                      cf_confidence = se_confidence ev,
                      cf_confirmations = (if confirmation = Soft then fi_confirmations input else 1)\<rparr>
                 | _ \<Rightarrow> None)))"

definition classifyFinding :: "finding_input \<Rightarrow> confirmed_finding option" where
  "classifyFinding input =
     classifyFindingWithEvidence input (deriveSubstitutionEvidence (fi_candidate input) (fi_confidence input))"

section \<open>The recomputed confidence stays in the unit interval\<close>

lemma adjusted_sums:
  "fl (1 / 2) = dbl 4503599627370496 (-53)"
  "fl (dbl 5854679515581645 (-53)) = dbl 5854679515581645 (-53)"
  "fl (dbl 5854679515581645 (-53) + dbl 5404319552844595 (-55)) = dbl 7205759403792794 (-53)"
  "fl (dbl 7205759403792794 (-53) + dbl 7205759403792794 (-55)) = dbl 4503599627370496 (-52)"
  "fl (dbl 4503599627370496 (-53) * dbl 7205759403792794 (-55)) = dbl 7205759403792794 (-56)"
  "fl (dbl 7205759403792794 (-53) + dbl 7205759403792794 (-56)) = dbl 8106479329266893 (-53)"
  "fl (dbl 5854679515581645 (-53) + dbl 7205759403792794 (-56)) = dbl 6755399441055744 (-53)"
  "fl (dbl 6755399441055744 (-53) + dbl 5404319552844595 (-55)) = dbl 8106479329266893 (-53)"
  "fl (dbl 8106479329266893 (-53) + dbl 7205759403792794 (-56)) = dbl 4503599627370496 (-52)"
  "fl (dbl 4976477588244398 (-53)) = dbl 4976477588244398 (-53)"
  "fl (dbl 4976477588244398 (-53) + dbl 4593671619917906 (-55)) = dbl 6124895493223874 (-53)"
  "fl (dbl 6124895493223874 (-53) + dbl 5404319552844595 (-55)) = dbl 7475975381435023 (-53)"
  "fl (dbl 7475975381435023 (-53) + dbl 6124895493223875 (-55)) = dbl 9007199254740992 (-53)"
  "fl (dbl 4503599627370496 (-53) * dbl 6124895493223875 (-55)) = dbl 6124895493223875 (-56)"
  "fl (dbl 7475975381435023 (-53) + dbl 6124895493223875 (-56)) = dbl 8241587318088007 (-53)"
  "fl (dbl 4976477588244398 (-53) + dbl 6124895493223875 (-56)) = dbl 5742089524897382 (-53)"
  "fl (dbl 5742089524897382 (-53) + dbl 4593671619917906 (-55)) = dbl 6890507429876858 (-53)"
  "fl (dbl 6890507429876858 (-53) + dbl 5404319552844595 (-55)) = dbl 8241587318088007 (-53)"
  "fl (dbl 8241587318088007 (-53) + dbl 6124895493223875 (-56)) = dbl 9007199254740991 (-53)"
  by (rule fl_dbl; simp add: dbl_def pow2_def)+

text \<open>The three values of the lookahead score, and their distances.\<close>

definition lookahead_levels :: "rat set" where
  "lookahead_levels = {0, dbl 4503599627370496 (-53), 1}"

lemma half_steps:
  "1 - dbl 4503599627370496 (-53) = dbl 4503599627370496 (-53)"
  "fl (dbl 4503599627370496 (-53)) = dbl 4503599627370496 (-53)"
  "dbl 4503599627370496 (-53) < 1" "0 < dbl 4503599627370496 (-53)"
  "dbl 9007199254740992 (-53) = 1"
  using adjusted_sums(1) by (simp_all add: dbl_def pow2_def)

lemma dbl_below_1: "dbl 8106479329266893 (-53) \<le> 1" "dbl 8241587318088007 (-53) \<le> 1"
    "dbl 9007199254740991 (-53) \<le> 1"
  by (simp_all add: dbl_def pow2_def)

text \<open>Adding the weighted gain of lookahead to a full score never passes 1.\<close>

lemma adjust_up_without:
  assumes "l \<in> lookahead_levels" "l' \<in> lookahead_levels" "l \<le> l'"
  shows "fl (combine_without 1 1 l 1 + fl (fl (l' - l) * fl (2 / 10))) \<le> 1"
proof -
  have "l = 0 \<and> l' = dbl 4503599627370496 (-53) \<or> l = 0 \<and> l' = 1
      \<or> l = dbl 4503599627370496 (-53) \<and> l' = 1 \<or> l' = l"
    using assms half_steps(3,4) by (auto simp: lookahead_levels_def)
  moreover have "fl (combine_without 1 1 l 1) \<le> 1" if "l \<in> lookahead_levels"
  proof -
    have "combine_without 1 1 l 1 \<le> combine_without 1 1 1 1"
      using that half_steps(3,4) by (intro combine_without_mono) (auto simp: lookahead_levels_def)
    then show ?thesis by (intro fl_le_1) (simp only: combine_extremes)
  qed
  ultimately show ?thesis
    using assms(1)
    by (auto simp only: combine_without_def mult_1_left mult_zero_left diff_zero diff_self fl_0 fl_1 add_0_right
        weights_without adjusted_sums half_steps dbl_below_1 dbl_1 order_refl)
qed

lemma adjust_up_with:
  assumes "l \<in> lookahead_levels" "l' \<in> lookahead_levels" "l \<le> l'"
  shows "fl (combine_with 1 1 l 1 1 + fl (fl (l' - l) * fl (17 / 100))) \<le> 1"
proof -
  have "l = 0 \<and> l' = dbl 4503599627370496 (-53) \<or> l = 0 \<and> l' = 1
      \<or> l = dbl 4503599627370496 (-53) \<and> l' = 1 \<or> l' = l"
    using assms half_steps(3,4) by (auto simp: lookahead_levels_def)
  moreover have "fl (combine_with 1 1 l 1 1) \<le> 1" if "l \<in> lookahead_levels"
  proof -
    have "combine_with 1 1 l 1 1 \<le> combine_with 1 1 1 1 1"
      using that half_steps(3,4) by (intro combine_with_mono) (auto simp: lookahead_levels_def)
    then show ?thesis by (intro fl_le_1) (simp only: combine_extremes)
  qed
  ultimately show ?thesis
    using assms(1)
    by (auto simp only: combine_with_def mult_1_left mult_zero_left diff_zero diff_self fl_0 fl_1 add_0_right
        weights_without weights_with adjusted_sums half_steps dbl_below_1 dbl_1 order_refl)
qed

text \<open>Taking the weighted loss of lookahead from any score leaves it non-negative.\<close>

lemma adjust_down:
  assumes "0 \<le> l'" "l' \<le> l" "0 \<le> w" "fl (l * fl w) \<le> c" "is_double l"
  shows "0 \<le> fl (c + fl (fl (l' - l) * fl w))"
proof -
  have "fl (l - l') \<le> l" using assms(1,5) by (intro fl_le_double) simp_all
  then have "fl (fl (l - l') * fl w) \<le> fl (l * fl w)"
    using assms(3) by (intro fl_mono mult_right_mono fl_nonneg)
  moreover have "fl (fl (l' - l) * fl w) = - fl (fl (l - l') * fl w)"
    using fl_minus [of "l - l'"] fl_minus [of "fl (l - l') * fl w"] by simp
  ultimately show ?thesis using assms(4) by (intro fl_nonneg) simp
qed

lemma lookahead_level: "min 1 (fl (of_nat n / 2)) \<in> lookahead_levels"
  using adjusted_sums(1) by (simp add: lookahead_values lookahead_levels_def)

lemma lookahead_level_unit: "l \<in> lookahead_levels \<Longrightarrow> in_unit l \<and> is_double l"
  using is_double_fl [of "1 / 2"] half_steps(3,4)
  by (auto simp: lookahead_levels_def in_unit_def adjusted_sums(1) dbl_def [of 4503599627370496])

lemma score_at_least_lookahead:
  "in_unit a \<Longrightarrow> in_unit s \<Longrightarrow> in_unit m \<Longrightarrow> fl (l * fl (2 / 10)) \<le> combine_without a s l m"
  "in_unit a \<Longrightarrow> in_unit s \<Longrightarrow> in_unit m \<Longrightarrow> in_unit c \<Longrightarrow> fl (l * fl (17 / 100)) \<le> combine_with a s l m c"
  using combine_without_mono [of 0 a 0 s l l 0 m] combine_with_mono [of 0 a 0 s l l 0 m 0 c]
  by (simp_all add: in_unit_def combine_without_def [of 0 0] combine_with_def [of 0 0])

text \<open>The score adjusted to another lookahead level.\<close>

lemma adjusted_unit:
  assumes "in_unit a" "in_unit s" "in_unit m" "l \<in> lookahead_levels" "l' \<in> lookahead_levels"
  shows "in_unit (fl (combine_without a s l m + fl (fl (l' - l) * fl (2 / 10))))"
    "in_unit c \<Longrightarrow> in_unit (fl (combine_with a s l m c + fl (fl (l' - l) * fl (17 / 100))))"
proof -
  note lev = lookahead_level_unit [OF assms(4)] lookahead_level_unit [OF assms(5)]
  have gain: "0 \<le> fl (fl (l' - l) * fl w)" if "l \<le> l'" "0 \<le> w" for w
    using that by (intro fl_nonneg mult_nonneg_nonneg) simp_all
  have loss: "fl (fl (l' - l) * fl w) \<le> 0" if "l' \<le> l" "0 \<le> w" for w
    using that by (intro fl_nonpos mult_nonpos_nonneg fl_nonneg) simp_all
  show "in_unit (fl (combine_without a s l m + fl (fl (l' - l) * fl (2 / 10))))"
  proof (cases "l \<le> l'")
    case True
    have "fl (combine_without a s l m + fl (fl (l' - l) * fl (2 / 10)))
        \<le> fl (combine_without 1 1 l 1 + fl (fl (l' - l) * fl (2 / 10)))"
      using assms by (intro fl_mono add_right_mono combine_without_mono) (simp_all add: in_unit_def)
    also have "\<dots> \<le> 1" using adjust_up_without [OF assms(4,5) True] .
    finally show ?thesis
      using combine_without_unit [of a s l m] assms lev gain [OF True, of "2 / 10"]
      by (simp add: in_unit_def fl_nonneg)
  next
    case False
    have "fl (combine_without a s l m + fl (fl (l' - l) * fl (2 / 10))) \<le> 1"
      using combine_without_unit [of a s l m] assms lev loss [of "2 / 10"] False
      by (intro fl_le_1) (simp add: in_unit_def)
    moreover have "0 \<le> fl (combine_without a s l m + fl (fl (l' - l) * fl (2 / 10)))"
      using False lev score_at_least_lookahead(1) [OF assms(1-3)] by (intro adjust_down) (simp_all add: in_unit_def)
    ultimately show ?thesis by (simp add: in_unit_def)
  qed
  assume c: "in_unit c"
  show "in_unit (fl (combine_with a s l m c + fl (fl (l' - l) * fl (17 / 100))))"
  proof (cases "l \<le> l'")
    case True
    have "fl (combine_with a s l m c + fl (fl (l' - l) * fl (17 / 100)))
        \<le> fl (combine_with 1 1 l 1 1 + fl (fl (l' - l) * fl (17 / 100)))"
      using assms c by (intro fl_mono add_right_mono combine_with_mono) (simp_all add: in_unit_def)
    also have "\<dots> \<le> 1" using adjust_up_with [OF assms(4,5) True] .
    finally show ?thesis
      using combine_with_unit [of a s l m c] assms c lev gain [OF True, of "17 / 100"]
      by (simp add: in_unit_def fl_nonneg)
  next
    case False
    have "fl (combine_with a s l m c + fl (fl (l' - l) * fl (17 / 100))) \<le> 1"
      using combine_with_unit [of a s l m c] assms c lev loss [of "17 / 100"] False
      by (intro fl_le_1) (simp add: in_unit_def)
    moreover have "0 \<le> fl (combine_with a s l m c + fl (fl (l' - l) * fl (17 / 100)))"
      using False lev score_at_least_lookahead(2) [OF assms(1-3) c] by (intro adjust_down) (simp_all add: in_unit_def)
    ultimately show ?thesis by (simp add: in_unit_def)
  qed
qed

lemma adjust_lookahead_unit:
  "in_unit (ev_combined (adjust_lookahead (scoreConfidence input) k))"
proof -
  let ?m = "if isSafeInteger (in_matchedLookaheadCount input)
      then nat (max 0 (num_int (in_matchedLookaheadCount input))) else 0"
  note unit = clampUnit_unit [of "in_alignment input"] clampUnit_unit [of "in_stability input"]
    clampUnit_unit [of "in_margin input"] lookahead_level [of ?m] lookahead_level [of k]
  show ?thesis
    using adjusted_unit [OF unit] alignedAcousticConfidence_unit [of input]
    by (cases "alignedAcousticConfidence input") (simp_all add: adjust_lookahead_def scoreConfidence_def Let_def)
qed

section \<open>A finding is bound to one operation\<close>

lemma first_substitution_mem:
  "first_substitution ops = Some so \<Longrightarrow> OpSubstitution (so_actualIndex so) (so_referenceIndex so) \<in> set ops"
  by (induction ops rule: first_substitution.induct) auto

lemma classifyFinding_Some:
  assumes "classifyFinding input = Some f"
  obtains so symbol where "\<not> isReread (fi_candidate input)" "substitutionOperation (fi_candidate input) = Some so"
    "cf_operation f = so" "js_at (fi_actualPhonemes input) (so_actualIndex so) = Some (cf_actualPhoneme f)"
    "js_at (ix_symbols (fi_corpus input)) (int (symbolIndex (fi_candidate input)) + so_referenceIndex so) = Some symbol"
    "cf_referencePhoneme f = sym_phoneme symbol" "cf_referenceSymbolId f = sym_id symbol"
    "cf_location f = sym_location symbol"
    "cf_confidence f = adjust_lookahead (fi_confidence input) (substitutionLookaheadCount (fi_candidate input))"
    "confirmationMode input (cf_confidence f) = Some (cf_confirmation f)"
  using assms
  by (auto simp: classifyFinding_def classifyFindingWithEvidence_def deriveSubstitutionEvidence_def
      split: if_splits option.splits)

text \<open>Substitutions of a legal script join different phonemes at existing positions.\<close>

lemma script_substitution:
  "run_script xs ys ops (i, j) = Some q \<Longrightarrow> OpSubstitution a b \<in> set ops
     \<Longrightarrow> 0 \<le> a \<and> nat a < length xs \<and> 0 \<le> b \<and> nat b < length ys \<and> xs ! nat a \<noteq> ys ! nat b"
proof (induction ops arbitrary: i j)
  case (Cons op ops)
  then obtain k l where "op_step xs ys op (i, j) = Some (k, l)" "run_script xs ys ops (k, l) = Some q"
    by (auto split: option.splits)
  with Cons show ?case by (cases op) (auto split: if_splits)
qed simp

lemma located_substitution:
  assumes "i < length (ix_symbols index)"
    "substitutionOperation (candidate_at index actual cur com i) = Some so"
  shows "\<exists>p symbol. js_at actual (so_actualIndex so) = Some p
    \<and> js_at (ix_symbols index) (int i + so_referenceIndex so) = Some symbol \<and> p \<noteq> sym_phoneme symbol"
proof -
  let ?c = "candidate_at index actual cur com i"
  from candidate_at_span [OF assms(1), of actual cur com] obtain n where
    n: "n \<in> set (span_lengths (length (ix_symbols index)) (length actual) i)"
      "cand_alignment ?c = aligned_path actual (reference_span index i n)"
    by (auto simp: span_paths_def)
  let ?ref = "reference_span index i n"
  from aligned_path_facts(1) [of actual ?ref]
  have "run_script actual ?ref (operations (cand_alignment ?c)) (0, 0) = Some (length actual, length ?ref)"
    by (simp add: n(2) valid_script_def)
  from script_substitution [OF this first_substitution_mem [OF assms(2) [unfolded substitutionOperation_def]]]
  have so: "0 \<le> so_actualIndex so" "nat (so_actualIndex so) < length actual" "0 \<le> so_referenceIndex so"
      "nat (so_referenceIndex so) < length ?ref" "actual ! nat (so_actualIndex so) \<noteq> ?ref ! nat (so_referenceIndex so)"
    by simp_all
  have len: "n \<le> length (ix_symbols index) - i" using span_lengths_bounds [OF n(1)] by simp
  then have ref: "?ref ! nat (so_referenceIndex so) = sym_phoneme (ix_symbols index ! (i + nat (so_referenceIndex so)))"
      "i + nat (so_referenceIndex so) < length (ix_symbols index)"
    using so(4) length_reference_span [OF len] by (simp_all add: reference_span_def)
  moreover have "nat (int i + so_referenceIndex so) = i + nat (so_referenceIndex so)" using so(3) by simp
  ultimately show ?thesis using so by (simp add: js_at_def)
qed

section \<open>Properties\<close>

lemma located_finding:
  assumes "classifyFinding input = Some f"
    "fi_candidate input = candidate_at (fi_corpus input) (fi_actualPhonemes input) cur com i"
    "i < length (ix_symbols (fi_corpus input))"
  shows "cf_actualPhoneme f \<noteq> cf_referencePhoneme f
    \<and> (\<exists>s \<in> set (ix_symbols (fi_corpus input)). cf_referenceSymbolId f = sym_id s
         \<and> cf_referencePhoneme f = sym_phoneme s \<and> cf_location f = sym_location s)
    \<and> cf_actualPhoneme f \<in> set (fi_actualPhonemes input)
    \<and> \<not> int i < com \<and> passesPositionGate (cf_confidence f)
    \<and> (case cf_confirmation f of
         Immediate \<Rightarrow> passesImmediateFindingGate (cf_confidence f)
       | FinalObservation \<Rightarrow> isFinal (fi_observation input) \<and> passesFinalFindingGate (cf_confidence f)
       | Soft \<Rightarrow> passesSoftFindingGate (cf_confidence f) (fi_confirmations input) (fi_contextPhonemeCount input))"
proof -
  from classifyFinding_Some [OF assms(1)] obtain so symbol where
    f: "\<not> isReread (fi_candidate input)" "substitutionOperation (fi_candidate input) = Some so"
      "js_at (fi_actualPhonemes input) (so_actualIndex so) = Some (cf_actualPhoneme f)"
      "js_at (ix_symbols (fi_corpus input)) (int (symbolIndex (fi_candidate input)) + so_referenceIndex so) = Some symbol"
      "cf_referencePhoneme f = sym_phoneme symbol" "cf_referenceSymbolId f = sym_id symbol"
      "cf_location f = sym_location symbol" "confirmationMode input (cf_confidence f) = Some (cf_confirmation f)"
    by metis
  have i: "symbolIndex (fi_candidate input) = i" "isReread (fi_candidate input) = (int i < com)"
    using assms(2) by (simp_all add: candidate_at_select candidate_at_def candidate_of_def Let_def)
  from located_substitution [OF assms(3) f(2) [unfolded assms(2)]] f(3,4) i
  have "cf_actualPhoneme f \<noteq> sym_phoneme symbol" by simp
  moreover have "symbol \<in> set (ix_symbols (fi_corpus input))" "cf_actualPhoneme f \<in> set (fi_actualPhonemes input)"
    using f(3,4) by (auto intro: js_at_mem)
  ultimately show ?thesis
    using f i by (auto simp: confirmationMode_def split: if_splits)
qed

text \<open>A candidate with one substitution, for the witnesses.\<close>

definition sample_candidate :: alignment_candidate where
  "sample_candidate = \<lparr>symbolIndex = 0,
     cand_location = \<lparr>loc_surah = 1, loc_ayah = 1, loc_word = 1, loc_symbol = 1\<rparr>,
     cand_alignment = \<lparr>path_score = 1 / 2, editCount = 1, matchedLookaheadCount = 1,
       operations = [OpSubstitution 0 0, OpMatch 1 1]\<rparr>,
     cand_score = 1 / 2, scoreMargin = 0, cursorDistance = 0, continuity = 0, forwardMovement = 0,
     isReread = False\<rparr>"

definition sample_evidence :: confidence_evidence where
  "sample_evidence = \<lparr>ev_alignment = 1, ev_stability = 1, ev_lookahead = 1, ev_matchedLookaheadCount = 2,
     ev_margin = 1, ev_acoustic = None, ev_combined = 1\<rparr>"

definition sample_input :: "alignment_candidate \<Rightarrow> finding_input" where
  "sample_input c = \<lparr>fi_corpus = build_index (read_corpus sample_corpus), fi_candidate = c,
     fi_observation = \<lparr>observationId = lit ''o'', sourceRevision = 0, isFinal = True, receivedAtMs = 0, obs_tokens = []\<rparr>,
     fi_actualPhonemes = [lit ''x'', lit ''a''], fi_confidence = sample_evidence,
     fi_confirmations = 0, fi_contextPhonemeCount = 1\<rparr>"

lemma sample_finding:
  "\<exists>f. classifyFinding (sample_input (candidate_at (build_index (read_corpus sample_corpus))
     [lit ''x'', lit ''a''] 0 0 0)) = Some f"
proof -
  let ?ix = "build_index (read_corpus sample_corpus)" and ?a = "[lit ''x'', lit ''a'']"
  have "workspace_for ?ix ?a (createAlignmentWorkspace 2 4)" "0 < length (ix_symbols ?ix)" by code_simp+
  from evaluateCandidate_at [OF _ this, of 0 0] obtain ws where
    "evaluateCandidate ?ix ?a 0 0 0 (createAlignmentWorkspace 2 4) = Inr (candidate_at ?ix ?a 0 0 0, ws)" by auto
  moreover have "(case evaluateCandidate ?ix ?a 0 0 0 (createAlignmentWorkspace 2 4) of
      Inr (c, _) \<Rightarrow> classifyFinding (sample_input c) \<noteq> None | Inl _ \<Rightarrow> False)" by code_simp
  ultimately show ?thesis by auto
qed

text \<open>The confidence recomputed for a substitution, with the lookahead matched after that very
  operation in place of the hypothesis's own, is again in [0, 1], whether lookahead is gained or
  lost and with both weightings.\<close>

theorem derived_confidence_in_unit:
  assumes "deriveSubstitutionEvidence candidate (scoreConfidence input) = Some ev"
  shows "in_unit (ev_combined (se_confidence ev)) \<and> in_unit (ev_lookahead (se_confidence ev))"
  using assms adjust_lookahead_unit [of input] lookahead_unit
  by (auto simp: deriveSubstitutionEvidence_def adjust_lookahead_def Let_def split: if_splits option.splits)

theorem derived_confidence_in_unit_witness:
  "\<exists>ev. deriveSubstitutionEvidence sample_candidate (scoreConfidence \<lparr>in_alignment = Fin 1, in_stability = Fin 1,
       in_matchedLookaheadCount = Fin 0, in_margin = Fin 1, in_actualPhonemeCount = Fin 2,
       in_acousticConfidences = None\<rparr>) = Some ev \<and> in_unit (ev_combined (se_confidence ev))"
proof -
  have "\<exists>ev. deriveSubstitutionEvidence sample_candidate (scoreConfidence input) = Some ev" for input
    by (simp add: deriveSubstitutionEvidence_def sample_candidate_def substitutionOperation_def)
  with derived_confidence_in_unit show ?thesis by blast
qed

text \<open>A finding on a located candidate always names the first substitution of its edit path: the
  observed and the reference phoneme it reports differ, its symbol, phoneme and location are those
  of one corpus symbol, the candidate is not a re-reading, and its recomputed confidence passes the
  position gate and the gate of its confirmation mode.\<close>

theorem finding_is_a_located_mismatch:
  assumes "classifyFinding input = Some f"
    "fi_candidate input = candidate_at (fi_corpus input) (fi_actualPhonemes input) cur com i"
    "i < length (ix_symbols (fi_corpus input))"
  shows "cf_actualPhoneme f \<noteq> cf_referencePhoneme f
    \<and> (\<exists>s \<in> set (ix_symbols (fi_corpus input)). cf_referenceSymbolId f = sym_id s
         \<and> cf_referencePhoneme f = sym_phoneme s \<and> cf_location f = sym_location s)
    \<and> cf_actualPhoneme f \<in> set (fi_actualPhonemes input)
    \<and> \<not> int i < com \<and> passesPositionGate (cf_confidence f)
    \<and> (case cf_confirmation f of
         Immediate \<Rightarrow> passesImmediateFindingGate (cf_confidence f)
       | FinalObservation \<Rightarrow> isFinal (fi_observation input) \<and> passesFinalFindingGate (cf_confidence f)
       | Soft \<Rightarrow> passesSoftFindingGate (cf_confidence f) (fi_confirmations input) (fi_contextPhonemeCount input))"
  by (rule located_finding [OF assms])

theorem finding_is_a_located_mismatch_witness:
  "\<exists>f. classifyFinding (sample_input (candidate_at (build_index (read_corpus sample_corpus))
       [lit ''x'', lit ''a''] 0 0 0)) = Some f
     \<and> cf_actualPhoneme f \<noteq> cf_referencePhoneme f \<and> passesPositionGate (cf_confidence f)"
proof -
  obtain f where f: "classifyFinding (sample_input (candidate_at (build_index (read_corpus sample_corpus))
       [lit ''x'', lit ''a''] 0 0 0)) = Some f" using sample_finding by blast
  have "0 < length (ix_symbols (build_index (read_corpus sample_corpus)))" by code_simp
  then show ?thesis
    using finding_is_a_located_mismatch [OF f, of 0 0 0] f by (simp add: sample_input_def)
qed

text \<open>\<open>classifyFindingWithEvidence\<close> cannot be fed an operation of the caller's choice: with the
  evidence of any other pair of indexes than the candidate's first substitution it reports
  nothing, and \<open>classifyFinding\<close> uses only evidence recomputed from the candidate.\<close>

theorem forged_operation_is_refused:
  assumes "substitutionOperation (fi_candidate input) \<noteq> Some (se_operation ev)"
  shows "classifyFindingWithEvidence input (Some ev) = None"
  using assms by (auto simp: classifyFindingWithEvidence_def split: option.split)

theorem forged_operation_is_refused_witness:
  "classifyFindingWithEvidence (sample_input sample_candidate)
     (Some \<lparr>se_operation = \<lparr>so_actualIndex = 1, so_referenceIndex = 1\<rparr>, se_confidence = sample_evidence\<rparr>) = None"
  by (rule forged_operation_is_refused) (simp add: sample_input_def sample_candidate_def substitutionOperation_def)

end
