(* ===== verification/Reading_Tracker.thy ===== *)
theory Reading_Tracker
  imports Findings
begin

text \<open>
  \<open>packages/core/src/tracking/reading-tracker.ts\<close> and \<open>types.ts\<close>: the state machine that turns
  observations into display, commit and finding progress.  The variables of the closure are the
  fields of \<open>tracker_state\<close>, the constants those of \<open>tracker_config\<close>; \<open>submit\<close> and \<open>reset\<close> return
  the new state with their result, an exception included, since an exception keeps the changes
  made before it.  The \<open>WeakMap\<close> cache of prepared corpora holds values of a pure function, which
  is called directly here.  The optional metrics sink is not modelled.
\<close>

section \<open>Types\<close>

definition OBSERVATION_ID_LIMIT :: nat where "OBSERVATION_ID_LIMIT = 512"
definition STABILITY_HISTORY_LIMIT :: nat where "STABILITY_HISTORY_LIMIT = 2"
definition PARTIAL_COMMIT_LOOKAHEAD :: nat where "PARTIAL_COMMIT_LOOKAHEAD = 2"

lemmas tracker_limits = OBSERVATION_ID_LIMIT_def STABILITY_HISTORY_LIMIT_def PARTIAL_COMMIT_LOOKAHEAD_def

record ordered_word =
  ow_word :: quran_word
  ow_range :: corpus_range

record prepared_corpus =
  pc_words :: "ordered_word list"
  pc_symbolWordIds :: "jstring option list"
  pc_orderedWordsById :: "(jstring, ordered_word) js_map"

record provisional_finding =
  pf_fingerprint :: jstring
  pf_confirmations :: nat

record reading_snapshot =
  snap_revision :: nat
  snap_observationId :: "jstring option"
  display_location :: quran_location
  display_isReread :: bool
  display_activeWordId :: "jstring option"
  commit_location :: quran_location
  commit_completedWordIds :: "jstring list"
  snap_confidence :: "confidence_evidence option"
  snap_finding :: "confirmed_finding option"

record tracker_config =
  tc_corpus :: indexed_corpus
  tc_prepared :: prepared_corpus
  tc_initialLocation :: quran_location
  tc_findingMode :: jstring

record tracker_state =
  initialSymbol :: nat
  cursorSymbol :: nat
  committedSymbol :: nat
  latestSourceRevision :: int
  observationIds :: "jstring js_set"
  observationIdOrder :: "jstring list"
  hypothesisHistory :: "jstring list"
  provisionalFinding :: "provisional_finding option"
  completedWordIds :: "jstring list"
  completedWordIdSet :: "jstring js_set"
  snapshot :: reading_snapshot

section \<open>Preparing the corpus\<close>

definition symbolIndexAt :: "indexed_corpus \<Rightarrow> quran_location \<Rightarrow> js_error + nat" where
  "symbolIndexAt corpus location =
     (let i = length (takeWhile (\<lambda>s. sym_location s \<noteq> location) (ix_symbols corpus))
      in if i = length (ix_symbols corpus)
         then Inl (RangeError (lit ''reading tracker location is not present in the corpus''))
         else Inr i)"

definition orderedWords :: "indexed_corpus \<Rightarrow> ordered_word list" where
  "orderedWords corpus = js_sort (\<lambda>l r. int (range_start (ow_range l)) - int (range_start (ow_range r)))
     (map (\<lambda>w. \<lparr>ow_word = w, ow_range = the (js_map_get (ix_wordSymbolRanges corpus) (word_id w))\<rparr>)
        (js_map_values (ix_wordsById corpus)))"

definition wordIdsBySymbol :: "indexed_corpus \<Rightarrow> ordered_word list \<Rightarrow> jstring option list" where
  "wordIdsBySymbol corpus ws = foldl (\<lambda>result w.
       foldl (\<lambda>result i. result[i := Some (word_id (ow_word w))]) result
         [range_start (ow_range w)..<range_end (ow_range w)])
     (replicate (length (ix_symbols corpus)) None) ws"

definition prepareTrackerCorpus :: "indexed_corpus \<Rightarrow> prepared_corpus" where
  "prepareTrackerCorpus corpus = (let ws = orderedWords corpus in
     \<lparr>pc_words = ws, pc_symbolWordIds = wordIdsBySymbol corpus ws,
      pc_orderedWordsById = js_map_of (map (\<lambda>w. (word_id (ow_word w), w)) ws)\<rparr>)"

section \<open>Reading one candidate\<close>

definition acousticConfidences :: "recitation_observation \<Rightarrow> js list" where
  "acousticConfidences obs = concat (map (\<lambda>t. map (\<lambda>_. case tok_confidence t of Some c \<Rightarrow> JNum (Fin c) | None \<Rightarrow> JNull)
     (tok_phonemes t)) (obs_tokens obs))"

text \<open>The reference index of an operation that consumes both an observed and a reference phoneme.\<close>

fun paired_reference :: "alignment_operation \<Rightarrow> int option" where
  "paired_reference (OpMatch a b) = Some b"
| "paired_reference (OpSubstitution a b) = Some b"
| "paired_reference _ = None"

fun reference_index :: "alignment_operation \<Rightarrow> int option" where
  "reference_index (OpMatch a b) = Some b"
| "reference_index (OpSubstitution a b) = Some b"
| "reference_index (OpDeletion b) = Some b"
| "reference_index (OpInsertion a) = None"

definition activeReferenceOffset :: "alignment_candidate \<Rightarrow> int" where
  "activeReferenceOffset candidate = foldl (\<lambda>activeOffset op. case paired_reference op of
       Some b \<Rightarrow> max activeOffset b | None \<Rightarrow> activeOffset) 0 (operations (cand_alignment candidate))"

definition hypothesisFingerprint :: "alignment_candidate \<Rightarrow> jstring" where
  "hypothesisFingerprint candidate =
     int_string (int (symbolIndex candidate)) @ 58 # int_string (activeReferenceOffset candidate)"

text \<open>The closure \<open>addAt\<close>: \<open>undefined\<close>, \<open>null\<close> and the empty string are falsy.\<close>

definition add_word_at :: "jstring option list \<Rightarrow> jstring js_set \<Rightarrow> int \<Rightarrow> jstring js_set" where
  "add_word_at wordIds touched i = (case js_at wordIds i of
       Some (Some w) \<Rightarrow> if w \<noteq> [] then js_set_add w touched else touched
     | _ \<Rightarrow> touched)"

definition touch_operation ::
  "nat \<Rightarrow> jstring option list \<Rightarrow> jstring js_set \<times> int \<Rightarrow> alignment_operation \<Rightarrow> jstring js_set \<times> int" where
  "touch_operation start wordIds st op = (case st of (touched, lastReference) \<Rightarrow>
     case reference_index op of
       None \<Rightarrow> (touched, lastReference)
     | Some b \<Rightarrow> (add_word_at wordIds touched (int start + b), max lastReference (int start + b)))"

definition collectTouchedWordIds :: "alignment_candidate \<Rightarrow> jstring option list \<Rightarrow> jstring list" where
  "collectTouchedWordIds candidate wordIds =
     (case foldl (touch_operation (symbolIndex candidate) wordIds) ([], -1) (operations (cand_alignment candidate)) of
        (touched, lastReference) \<Rightarrow>
          if 0 \<le> lastReference
          then foldl (\<lambda>t offset. add_word_at wordIds t (lastReference + int offset)) touched [1..<PARTIAL_COMMIT_LOOKAHEAD + 1]
          else touched)"

definition stabilityFor :: "jstring \<Rightarrow> jstring list \<Rightarrow> rat" where
  "stabilityFor fingerprint history =
     fl (of_nat (length (filter (\<lambda>previous. previous = fingerprint) history)) / of_nat STABILITY_HISTORY_LIMIT)"

definition locationScoreMargin :: "alignment_candidate \<Rightarrow> alignment_candidate option \<Rightarrow> rat" where
  "locationScoreMargin best second =
     max 0 (fl (cand_score best - (case second of None \<Rightarrow> 0 | Some s \<Rightarrow> cand_score s)))"

section \<open>Provisional findings\<close>

definition advanceProvisionalFinding ::
  "provisional_finding option \<Rightarrow> jstring \<Rightarrow> substitution_evidence \<Rightarrow> nat \<Rightarrow> provisional_finding option" where
  "advanceProvisionalFinding previous fingerprint evidence contextPhonemeCount =
     (if \<not> passesSoftFindingGate (se_confidence evidence) 2 contextPhonemeCount then None
      else Some \<lparr>pf_fingerprint = fingerprint, pf_confirmations = (case previous of
             Some p \<Rightarrow> if pf_fingerprint p = fingerprint then pf_confirmations p + 1 else 1
           | None \<Rightarrow> 1)\<rparr>)"

fun same_substitution :: "substitution_operation \<Rightarrow> alignment_operation \<Rightarrow> bool" where
  "same_substitution so (OpSubstitution a b) = (a = so_actualIndex so \<and> b = so_referenceIndex so)"
| "same_substitution so _ = False"

text \<open>Matches next to the substitution, first backwards, then forwards, stopping at four.\<close>

definition countFindingContextPhonemes :: "alignment_operation list \<Rightarrow> substitution_operation \<Rightarrow> nat" where
  "countFindingContextPhonemes ops so =
     (let earlier = takeWhile (\<lambda>op. \<not> same_substitution so op) ops;
          later = drop (length earlier + 1) ops
      in if length earlier = length ops then 0
         else let backward = min 4 (length (takeWhile is_match (rev earlier)))
              in if backward = 4 then 4 else min 4 (backward + length (takeWhile is_match later)))"

definition findingFingerprint ::
  "indexed_corpus \<Rightarrow> alignment_candidate \<Rightarrow> substitution_operation \<Rightarrow> jstring list \<Rightarrow> jstring option" where
  "findingFingerprint corpus candidate so actualPhonemes =
     (case (js_at (ix_symbols corpus) (int (symbolIndex candidate) + so_referenceIndex so),
            js_at actualPhonemes (so_actualIndex so)) of
        (Some reference, Some actual) \<Rightarrow> Some (sym_id reference @ 0 # actual @ 0 # sym_phoneme reference)
      | _ \<Rightarrow> None)"

text \<open>The new provisional finding with the confirmations and the context; an empty fingerprint
  would be falsy, but it contains two separators.\<close>

definition updateProvisionalFinding ::
  "indexed_corpus \<Rightarrow> provisional_finding option \<Rightarrow> alignment_candidate \<Rightarrow> jstring list
     \<Rightarrow> substitution_evidence option \<Rightarrow> provisional_finding option \<times> nat \<times> nat" where
  "updateProvisionalFinding corpus previous candidate actualPhonemes evidence = (case evidence of
       None \<Rightarrow> (None, 0, 0)
     | Some ev \<Rightarrow>
         let context = countFindingContextPhonemes (operations (cand_alignment candidate)) (se_operation ev)
         in case findingFingerprint corpus candidate (se_operation ev) actualPhonemes of
              None \<Rightarrow> (None, 0, context)
            | Some fingerprint \<Rightarrow>
                let p = advanceProvisionalFinding previous fingerprint ev context
                in (p, (case p of None \<Rightarrow> 0 | Some q \<Rightarrow> pf_confirmations q), context))"

section \<open>Remembering and committing\<close>

definition rememberObservationId :: "jstring \<Rightarrow> tracker_state \<Rightarrow> tracker_state" where
  "rememberObservationId i st =
     (let ids = js_set_add i (observationIds st); order = observationIdOrder st @ [i]
      in if OBSERVATION_ID_LIMIT < length order
         then st\<lparr>observationIds := js_set_delete (hd order) ids, observationIdOrder := tl order\<rparr>
         else st\<lparr>observationIds := ids, observationIdOrder := order\<rparr>)"

definition rememberHypothesis :: "jstring \<Rightarrow> tracker_state \<Rightarrow> tracker_state" where
  "rememberHypothesis fingerprint st =
     (let history = hypothesisHistory st @ [fingerprint]
      in st\<lparr>hypothesisHistory := (if STABILITY_HISTORY_LIMIT < length history then tl history else history)\<rparr>)"

definition consumed_symbols :: "alignment_candidate \<Rightarrow> int js_set" where
  "consumed_symbols candidate = foldl (\<lambda>s op. case paired_reference op of
       Some b \<Rightarrow> js_set_add (int (symbolIndex candidate) + b) s | None \<Rightarrow> s) []
     (operations (cand_alignment candidate))"

definition matched_symbols :: "alignment_candidate \<Rightarrow> int js_set" where
  "matched_symbols candidate = foldl (\<lambda>s op. case op of
       OpMatch a b \<Rightarrow> js_set_add (int (symbolIndex candidate) + b) s | _ \<Rightarrow> s) []
     (operations (cand_alignment candidate))"

definition word_supported :: "alignment_candidate \<Rightarrow> bool \<Rightarrow> corpus_range \<Rightarrow> bool" where
  "word_supported candidate final rng \<longleftrightarrow>
     list_all (\<lambda>i. int i \<in> set (consumed_symbols candidate)) [range_start rng..<range_end rng]
     \<and> (final \<or> list_all (\<lambda>offset. int (range_end rng) + int offset \<in> set (matched_symbols candidate))
                  [0..<PARTIAL_COMMIT_LOOKAHEAD])"

definition commit_word :: "tracker_config \<Rightarrow> alignment_candidate \<Rightarrow> bool \<Rightarrow> tracker_state \<Rightarrow> jstring \<Rightarrow> tracker_state" where
  "commit_word config candidate final st wordId =
     (case js_map_get (pc_orderedWordsById (tc_prepared config)) wordId of
        None \<Rightarrow> st
      | Some touched \<Rightarrow>
          let word = ow_word touched; rng = ow_range touched in
          if int (range_end rng) - 1 < int (committedSymbol st) \<or> range_start rng < symbolIndex candidate
             \<or> \<not> word_supported candidate final rng
          then st
          else st\<lparr>completedWordIds := (if word_id word \<in> set (completedWordIdSet st) then completedWordIds st
                     else completedWordIds st @ [word_id word]),
                  completedWordIdSet := js_set_add (word_id word) (completedWordIdSet st),
                  committedSymbol := nat (max (int (committedSymbol st)) (int (range_end rng) - 1))\<rparr>)"

definition commitSupportedWords ::
  "tracker_config \<Rightarrow> alignment_candidate \<Rightarrow> bool \<Rightarrow> tracker_state \<Rightarrow> tracker_state" where
  "commitSupportedWords config candidate final st =
     foldl (commit_word config candidate final) st
       (collectTouchedWordIds candidate (pc_symbolWordIds (tc_prepared config)))"

section \<open>The public operations\<close>

definition initial_snapshot :: "nat \<Rightarrow> quran_location \<Rightarrow> reading_snapshot" where
  "initial_snapshot revision location = \<lparr>snap_revision = revision, snap_observationId = None,
     display_location = location, display_isReread = False, display_activeWordId = None,
     commit_location = location, commit_completedWordIds = [], snap_confidence = None, snap_finding = None\<rparr>"

definition initial_state :: "nat \<Rightarrow> nat \<Rightarrow> quran_location \<Rightarrow> tracker_state" where
  "initial_state symbol revision location = \<lparr>initialSymbol = symbol, cursorSymbol = symbol, committedSymbol = symbol,
     latestSourceRevision = -1, observationIds = [], observationIdOrder = [], hypothesisHistory = [],
     provisionalFinding = None, completedWordIds = [], completedWordIdSet = [],
     snapshot = initial_snapshot revision location\<rparr>"

definition createReadingTracker :: "indexed_corpus \<Rightarrow> quran_location option \<Rightarrow> jstring option
    \<Rightarrow> js_error + tracker_config \<times> tracker_state" where
  "createReadingTracker corpus initialLocation findingModeOption =
     (if ix_symbols corpus = [] then fail ''reading tracker requires a non-empty corpus''
      else
        let prepared = prepareTrackerCorpus corpus;
            location = (case initialLocation of Some l \<Rightarrow> l | None \<Rightarrow> sym_location (ix_symbols corpus ! 0));
            findingMode = (case findingModeOption of Some m \<Rightarrow> m | None \<Rightarrow> lit ''substitutions'')
        in if findingMode \<noteq> lit ''off'' \<and> findingMode \<noteq> lit ''substitutions''
           then fail ''unsupported reading tracker finding mode''
           else ebind (symbolIndexAt corpus location) (\<lambda>symbol.
             Inr (\<lparr>tc_corpus = corpus, tc_prepared = prepared, tc_initialLocation = location,
                   tc_findingMode = findingMode\<rparr>, initial_state symbol 0 location)))"

definition getSnapshot :: "tracker_state \<Rightarrow> reading_snapshot" where
  "getSnapshot st = snapshot st"

definition reset_tracker :: "tracker_config \<Rightarrow> tracker_state \<Rightarrow> quran_location option
    \<Rightarrow> tracker_state \<times> (js_error + reading_snapshot)" where
  "reset_tracker config st locationOption =
     (let location = (case locationOption of Some l \<Rightarrow> l | None \<Rightarrow> tc_initialLocation config) in
      case symbolIndexAt (tc_corpus config) location of
        Inl e \<Rightarrow> (st, Inl e)
      | Inr symbol \<Rightarrow>
          let st' = initial_state symbol (snap_revision (snapshot st) + 1) location
          in (st', Inr (snapshot st')))"

text \<open>The hypothesis step of \<open>submit\<close>: its evidence, and the state with the hypothesis remembered.\<close>

definition score_candidate :: "recitation_observation \<Rightarrow> alignment_candidate \<Rightarrow> alignment_candidate option
    \<Rightarrow> jstring list \<Rightarrow> confidence_evidence" where
  "score_candidate obs candidate second history = scoreConfidence
     \<lparr>in_alignment = Fin (cand_score candidate),
      in_stability = Fin (stabilityFor (hypothesisFingerprint candidate) history),
      in_matchedLookaheadCount = Fin (of_nat (matchedLookaheadCount (cand_alignment candidate))),
      in_margin = Fin (locationScoreMargin candidate second),
      in_actualPhonemeCount = Fin (of_nat (length (observation_phonemes obs))),
      in_acousticConfidences = Some (acousticConfidences obs)\<rparr>"

definition active_symbol :: "tracker_config \<Rightarrow> alignment_candidate \<Rightarrow> nat" where
  "active_symbol config candidate =
     nat (min (int (length (ix_symbols (tc_corpus config))) - 1)
            (int (symbolIndex candidate) + activeReferenceOffset candidate))"

text \<open>The display part of \<open>submit\<close>: location, re-reading mark and active word.\<close>

type_synonym display = "quran_location \<times> bool \<times> jstring option"

definition move_display :: "tracker_config \<Rightarrow> recitation_observation \<Rightarrow> alignment_candidate
    \<Rightarrow> confidence_evidence \<Rightarrow> tracker_state \<Rightarrow> tracker_state \<times> display" where
  "move_display config obs candidate confidence st =
     (if passesPositionGate confidence
      then let active = active_symbol config candidate;
               display = (sym_location (ix_symbols (tc_corpus config) ! active),
                          active < committedSymbol st,
                          (case js_at (pc_symbolWordIds (tc_prepared config)) (int active) of
                             Some w \<Rightarrow> w | None \<Rightarrow> None))
           in (commitSupportedWords config candidate (isFinal obs) (st\<lparr>cursorSymbol := active\<rparr>), display)
      else (st, (display_location (snapshot st), display_isReread (snapshot st), display_activeWordId (snapshot st))))"

definition report_finding :: "tracker_config \<Rightarrow> recitation_observation \<Rightarrow> alignment_candidate
    \<Rightarrow> confidence_evidence \<Rightarrow> tracker_state \<Rightarrow> tracker_state \<times> confirmed_finding option" where
  "report_finding config obs candidate confidence st =
     (if tc_findingMode config = lit ''substitutions'' \<and> \<not> isReread candidate
      then let actual = observation_phonemes obs;
               evidence = deriveSubstitutionEvidence candidate confidence
           in case updateProvisionalFinding (tc_corpus config) (provisionalFinding st) candidate actual evidence of
                (provisional, confirmations, context) \<Rightarrow>
                  (st\<lparr>provisionalFinding := provisional\<rparr>,
                   classifyFindingWithEvidence
                     \<lparr>fi_corpus = tc_corpus config, fi_candidate = candidate, fi_observation = obs,
                      fi_actualPhonemes = actual, fi_confidence = confidence,
                      fi_confirmations = confirmations, fi_contextPhonemeCount = context\<rparr> evidence)
      else (st\<lparr>provisionalFinding := None\<rparr>, None))"

definition process_candidate :: "tracker_config \<Rightarrow> recitation_observation \<Rightarrow> located \<Rightarrow> tracker_state
    \<Rightarrow> tracker_state \<times> display \<times> confidence_evidence option \<times> confirmed_finding option" where
  "process_candidate config obs located st = (case fst located of
       None \<Rightarrow> (st\<lparr>provisionalFinding := None\<rparr>,
         (display_location (snapshot st), display_isReread (snapshot st), display_activeWordId (snapshot st)),
         None, None)
     | Some candidate \<Rightarrow>
         let confidence = score_candidate obs candidate (snd located) (hypothesisHistory st);
             st1 = rememberHypothesis (hypothesisFingerprint candidate) st
         in case move_display config obs candidate confidence st1 of
              (st2, display) \<Rightarrow>
            case report_finding config obs candidate confidence st2 of
              (st3, finding) \<Rightarrow> (st3, display, Some confidence, finding))"

definition submit_observation :: "tracker_config \<Rightarrow> tracker_state \<Rightarrow> js
    \<Rightarrow> tracker_state \<times> (js_error + reading_snapshot)" where
  "submit_observation config st v = (case validateObservation v of
       Inl e \<Rightarrow> (st, Inl e)
     | Inr _ \<Rightarrow>
         let obs = read_observation v in
         if observationId obs \<in> set (observationIds st) \<or> sourceRevision obs < latestSourceRevision st
         then (st, Inr (snapshot st))
         else
           let st1 = (rememberObservationId (observationId obs) st)\<lparr>latestSourceRevision := sourceRevision obs\<rparr> in
           case locateObservation (tc_corpus config) v (int (cursorSymbol st1)) (int (committedSymbol st1)) of
             Inl e \<Rightarrow> (st1, Inl e)
           | Inr located \<Rightarrow>
               (case process_candidate config obs located st1 of
                  (st2, (location, reread, activeWord), confidence, finding) \<Rightarrow>
                    let snap = \<lparr>snap_revision = snap_revision (snapshot st2) + 1,
                          snap_observationId = Some (observationId obs),
                          display_location = location, display_isReread = reread, display_activeWordId = activeWord,
                          commit_location = sym_location (ix_symbols (tc_corpus config) ! committedSymbol st2),
                          commit_completedWordIds = completedWordIds st2,
                          snap_confidence = confidence, snap_finding = finding\<rparr>
                    in (st2\<lparr>snapshot := snap\<rparr>, Inr snap)))"

end
