(* ===== verification/Tracker_Proofs.thy ===== *)
theory Tracker_Proofs
  imports Reading_Tracker
begin

text \<open>
  The reading tracker keeps its invariant in every reachable state, moves only forward in its
  commits, answers repeated and stale observations with the snapshot it has, and commits a word
  only when the best candidate supports it.
\<close>

section \<open>The prepared corpus\<close>

lemma prepared_word:
  assumes "wf_corpus c" "js_map_get (pc_orderedWordsById (prepareTrackerCorpus (build_index c))) i = Some ow"
  shows "word_id (ow_word ow) = i \<and> ow_word ow \<in> set (corpus_words c)
    \<and> range_start (ow_range ow) < range_end (ow_range ow) \<and> range_end (ow_range ow) \<le> length (corpus_symbols c)
    \<and> map sym_id (take (range_end (ow_range ow) - range_start (ow_range ow))
        (drop (range_start (ow_range ow)) (corpus_symbols c))) = word_symbolIds (ow_word ow)"
proof -
  let ?ix = "build_index c"
  let ?ws = "orderedWords ?ix"
  have dist: "distinct (map word_id (corpus_words c))"
    using assms(1) by (auto simp: wf_corpus_def wf_words_def)
  then have vals: "js_map_values (ix_wordsById ?ix) = corpus_words c"
    by (simp add: build_index_def Let_def comp_def js_map_of_distinct js_map_values_def)
  have mset: "mset (map (\<lambda>w. word_id (ow_word w)) ?ws) = mset (map word_id (corpus_words c))"
    by (simp add: orderedWords_def vals image_mset.compositionality comp_def)
  then have "distinct (map (\<lambda>w. word_id (ow_word w)) ?ws)"
    using dist by (metis mset_eq_imp_distinct_iff)
  then have "map_of (map (\<lambda>w. (word_id (ow_word w), w)) ?ws) i = Some ow"
    using assms(2) by (simp add: prepareTrackerCorpus_def Let_def js_map_get_js_map_of comp_def)
  then have ow: "ow \<in> set ?ws" "word_id (ow_word ow) = i" by (auto dest: map_of_SomeD)
  then obtain w where w: "w \<in> set (corpus_words c)"
      "ow = \<lparr>ow_word = w, ow_range = the (js_map_get (ix_wordSymbolRanges ?ix) (word_id w))\<rparr>"
    by (auto simp: orderedWords_def vals)
  then obtain k where k: "k < length (corpus_words c)" "w = corpus_words c ! k" by (auto simp: in_set_conv_nth)
  from build_index_word_ranges [OF assms(1) k(1)] w(2) k(2)
  have range: "ow_range ow = freezeRange (word_offset c k) (word_offset c (Suc k))" by simp
  have "word_symbolIds w \<noteq> []" using assms(1) w(1) by (auto simp: wf_corpus_def wf_words_def wf_word_def list_all_iff)
  moreover have "word_offset c (Suc k) \<le> length (corpus_symbols c)"
    using word_offset_mono [of "Suc k" "length (corpus_words c)" c] word_offset_end [OF assms(1)] k(1) by simp
  ultimately show ?thesis
    using ow(2) w range k word_slice [OF assms(1) k(1)] by (simp add: freezeRange_def word_offset_Suc)
qed

lemma length_wordIdsBySymbol [simp]: "length (wordIdsBySymbol corpus ws) = length (ix_symbols corpus)"
proof -
  have inner: "length (foldl (\<lambda>result i. result[i := v]) r ns) = length r" for r :: "jstring option list" and v ns
    by (induction ns arbitrary: r) auto
  have "length (foldl (\<lambda>result w. foldl (\<lambda>result i. result[i := Some (word_id (ow_word w))]) result
      [range_start (ow_range w)..<range_end (ow_range w)]) r ws) = length r" for r
    by (induction ws arbitrary: r) (auto simp: inner)
  then show ?thesis by (simp add: wordIdsBySymbol_def)
qed

section \<open>What location gives the tracker\<close>

lemma locate_Inr:
  assumes "validateObservation v = Inr ()"
  obtains b s where "locateObservation index v cur com = Inr (b, s)"
    "\<And>cand. b = Some cand \<Longrightarrow> \<exists>i c. i < length (ix_symbols index)
       \<and> cand = candidate_at index (observation_phonemes (read_observation v)) c com i"
proof -
  let ?actual = "observation_phonemes (read_observation v)"
  show thesis
  proof (cases "?actual = [] \<or> ix_symbols index = []")
    case True
    then have "locateObservation index v cur com = Inr (None, None)"
      using assms by (auto simp: locateObservation_def Let_def)
    then show thesis by (intro that [of None None]) simp_all
  next
    case False
    let ?c = "max 0 (min cur (int (length (ix_symbols index)) - 1))"
    let ?cands = "map (candidate_at index ?actual ?c com) (evaluated_positions index ?actual ?c com)"
    have loc: "locateObservation index v cur com = Inr (rank_candidates ?cands)"
      using assms False by (intro locate_ranked) simp_all
    have pos: "evaluated_positions index ?actual ?c com \<noteq> []"
        "\<forall>p \<in> set (evaluated_positions index ?actual ?c com). p < length (ix_symbols index)"
      using evaluated_positions_ok [of index ?actual ?c com] False by simp_all
    then have "?cands \<noteq> []" by simp
    then obtain b s where "rank_candidates ?cands = (Some b, s)" "b \<in> set ?cands" by (rule rank_head)
    with pos(2) loc show thesis by (intro that [of "Some b" s]) auto
  qed
qed

text \<open>The operations of a located candidate stay inside the corpus.\<close>

lemma script_references:
  "run_script xs ys ops (i, j) = Some q \<Longrightarrow> op \<in> set ops \<Longrightarrow> reference_index op = Some b
     \<Longrightarrow> 0 \<le> b \<and> nat b < length ys"
proof (induction ops arbitrary: i j)
  case (Cons op' ops)
  then obtain k l where "op_step xs ys op' (i, j) = Some (k, l)" "run_script xs ys ops (k, l) = Some q"
    by (auto split: option.splits)
  with Cons show ?case by (cases op') (auto split: if_splits)
qed simp

lemma paired_reference_index: "paired_reference op = Some b \<Longrightarrow> reference_index op = Some b"
  by (cases op) auto

lemma located_reference:
  assumes "i < length (ix_symbols index)" "op \<in> set (operations (cand_alignment (candidate_at index actual cur com i)))"
    "reference_index op = Some b"
  shows "0 \<le> b \<and> i + nat b < length (ix_symbols index)"
proof -
  let ?c = "candidate_at index actual cur com i"
  from candidate_at_span [OF assms(1), of actual cur com] obtain n where
    n: "n \<in> set (span_lengths (length (ix_symbols index)) (length actual) i)"
      "cand_alignment ?c = aligned_path actual (reference_span index i n)"
    by (auto simp: span_paths_def)
  have len: "n \<le> length (ix_symbols index) - i" using span_lengths_bounds [OF n(1)] by simp
  from aligned_path_facts(1) [of actual "reference_span index i n"]
  have "run_script actual (reference_span index i n) (operations (cand_alignment ?c)) (0, 0)
      = Some (length actual, length (reference_span index i n))" by (simp add: n(2) valid_script_def)
  from script_references [OF this assms(2,3)] have "0 \<le> b" "nat b < n"
    by (simp_all add: length_reference_span [OF len])
  with len show ?thesis by linarith
qed

lemma activeReferenceOffset_nonneg: "0 \<le> activeReferenceOffset candidate"
proof -
  have "x \<le> foldl (\<lambda>activeOffset op. case paired_reference op of Some b \<Rightarrow> max activeOffset b
      | None \<Rightarrow> activeOffset) x ops" for x ops
  proof (induction ops arbitrary: x)
    case (Cons op ops)
    show ?case
    proof (cases "paired_reference op")
      case (Some b)
      with Cons.IH [of "max x b"] show ?thesis by simp
    qed (use Cons.IH in simp)
  qed simp
  then show ?thesis by (simp add: activeReferenceOffset_def)
qed

lemma active_symbol_less:
  "ix_symbols (tc_corpus config) \<noteq> [] \<Longrightarrow> active_symbol config candidate < length (ix_symbols (tc_corpus config))"
  using activeReferenceOffset_nonneg [of candidate] by (cases "ix_symbols (tc_corpus config)") (auto simp: active_symbol_def)

section \<open>The invariant\<close>

text \<open>A location of the corpus.\<close>

definition hasSymbolAt :: "indexed_corpus \<Rightarrow> quran_location \<Rightarrow> bool" where
  "hasSymbolAt corpus l \<longleftrightarrow> l \<in> sym_location ` set (ix_symbols corpus)"

lemma symbolIndexAt_Inr:
  "symbolIndexAt corpus l = Inr i \<Longrightarrow> i < length (ix_symbols corpus) \<and> sym_location (ix_symbols corpus ! i) = l"
  using nth_length_takeWhile [of "\<lambda>s. sym_location s \<noteq> l" "ix_symbols corpus"]
    length_takeWhile_le [of "\<lambda>s. sym_location s \<noteq> l" "ix_symbols corpus"]
  by (auto simp: symbolIndexAt_def Let_def split: if_splits)

lemma symbolIndexAt_found: "hasSymbolAt corpus l \<longleftrightarrow> (\<exists>i. symbolIndexAt corpus l = Inr i)"
proof
  assume "hasSymbolAt corpus l"
  then obtain s where s: "s \<in> set (ix_symbols corpus)" "sym_location s = l" by (auto simp: hasSymbolAt_def)
  then have "length (takeWhile (\<lambda>s. sym_location s \<noteq> l) (ix_symbols corpus)) \<noteq> length (ix_symbols corpus)"
    using takeWhile_eq_all_conv [of "\<lambda>s. sym_location s \<noteq> l" "ix_symbols corpus"]
    by (metis length_takeWhile_le takeWhile_eq_take take_all order_refl)
  then show "\<exists>i. symbolIndexAt corpus l = Inr i" by (simp add: symbolIndexAt_def Let_def)
next
  assume "\<exists>i. symbolIndexAt corpus l = Inr i"
  then show "hasSymbolAt corpus l" using symbolIndexAt_Inr by (fastforce simp: hasSymbolAt_def)
qed

text \<open>A configuration made for an indexed, validated corpus.\<close>

definition config_ok :: "quran_corpus \<Rightarrow> tracker_config \<Rightarrow> bool" where
  "config_ok c config \<longleftrightarrow> wf_corpus c \<and> corpus_symbols c \<noteq> [] \<and> tc_corpus config = build_index c
     \<and> tc_prepared config = prepareTrackerCorpus (build_index c)
     \<and> tc_findingMode config \<in> {lit ''off'', lit ''substitutions''}
     \<and> hasSymbolAt (build_index c) (tc_initialLocation config)"

text \<open>A completed word ends at or before the committed symbol.\<close>

definition word_committed :: "tracker_config \<Rightarrow> nat \<Rightarrow> jstring \<Rightarrow> bool" where
  "word_committed config committed i \<longleftrightarrow> (\<exists>ow. js_map_get (pc_orderedWordsById (tc_prepared config)) i = Some ow
     \<and> range_end (ow_range ow) \<le> Suc committed)"

definition core_ok :: "quran_corpus \<Rightarrow> tracker_config \<Rightarrow> tracker_state \<Rightarrow> bool" where
  "core_ok c config st \<longleftrightarrow> config_ok c config
     \<and> cursorSymbol st < length (corpus_symbols c) \<and> committedSymbol st < length (corpus_symbols c)
     \<and> initialSymbol st \<le> committedSymbol st \<and> -1 \<le> latestSourceRevision st
     \<and> observationIds st = observationIdOrder st \<and> distinct (observationIdOrder st)
     \<and> length (observationIdOrder st) \<le> OBSERVATION_ID_LIMIT
     \<and> length (hypothesisHistory st) \<le> STABILITY_HISTORY_LIMIT
     \<and> completedWordIdSet st = completedWordIds st \<and> distinct (completedWordIds st)
     \<and> list_all (word_committed config (committedSymbol st)) (completedWordIds st)"

text \<open>What a consumer sees agrees with the state.\<close>

definition tracker_ok :: "quran_corpus \<Rightarrow> tracker_config \<Rightarrow> tracker_state \<Rightarrow> bool" where
  "tracker_ok c config st \<longleftrightarrow> core_ok c config st
     \<and> commit_completedWordIds (snapshot st) = completedWordIds st
     \<and> commit_location (snapshot st) = sym_location (corpus_symbols c ! committedSymbol st)
     \<and> display_location (snapshot st) = sym_location (corpus_symbols c ! cursorSymbol st)"

lemma initial_ok:
  assumes "config_ok c config" "symbolIndexAt (tc_corpus config) l = Inr i"
  shows "tracker_ok c config (initial_state i r l)"
  using assms symbolIndexAt_Inr [OF assms(2)]
  by (simp add: tracker_ok_def core_ok_def initial_state_def initial_snapshot_def config_ok_def)

lemma remember_id_ok:
  assumes "core_ok c config st" "i \<notin> set (observationIds st)"
  shows "core_ok c config (rememberObservationId i st)"
proof -
  let ?order = "observationIdOrder st"
  have st: "observationIds st = ?order" "distinct ?order" "length ?order \<le> OBSERVATION_ID_LIMIT"
    using assms(1) by (simp_all add: core_ok_def)
  have del: "js_set_delete (hd (?order @ [i])) (?order @ [i]) = tl (?order @ [i])"
    using st(1,2) assms(2) by (cases ?order) (auto simp: js_set_delete_def filter_id_conv)
  have add: "js_set_add i (observationIds st) = ?order @ [i]"
    using assms(2) st(1) by (simp add: js_set_add_def)
  have "distinct (tl (?order @ [i]))" using st(1,2) assms(2) by (intro distinct_tl) simp
  then show ?thesis
    using assms st unfolding rememberObservationId_def Let_def add del by (auto simp: core_ok_def)
qed

lemma remember_id_mem: "observationIds (rememberObservationId i st) = observationIds st @ [i] \<or>
    i \<in> set (observationIds st) \<or> OBSERVATION_ID_LIMIT \<le> length (observationIdOrder st)"
  by (auto simp: rememberObservationId_def Let_def js_set_add_def)

lemma remembered:
  assumes "core_ok c config st" "i \<notin> set (observationIds st)"
  shows "i \<in> set (observationIds (rememberObservationId i st))"
proof -
  have "observationIdOrder st \<noteq> []" if "OBSERVATION_ID_LIMIT < length (observationIdOrder st @ [i])"
    using that by (auto simp: OBSERVATION_ID_LIMIT_def)
  then show ?thesis
    using assms by (auto simp: rememberObservationId_def Let_def core_ok_def)
qed

lemma remember_hypothesis_ok: "core_ok c config st \<Longrightarrow> core_ok c config (rememberHypothesis f st)"
  by (auto simp: core_ok_def rememberHypothesis_def Let_def STABILITY_HISTORY_LIMIT_def)

section \<open>Commits\<close>

lemma word_committed_mono: "word_committed config m i \<Longrightarrow> m \<le> n \<Longrightarrow> word_committed config n i"
  by (fastforce simp: word_committed_def)

text \<open>A word is committed only with the support of the candidate.\<close>

definition supported_word :: "tracker_config \<Rightarrow> alignment_candidate \<Rightarrow> bool \<Rightarrow> jstring \<Rightarrow> bool" where
  "supported_word config candidate final i \<longleftrightarrow>
     (\<exists>ow. js_map_get (pc_orderedWordsById (tc_prepared config)) i = Some ow
        \<and> symbolIndex candidate \<le> range_start (ow_range ow) \<and> word_supported candidate final (ow_range ow))"

text \<open>Commits only add: the committed symbol never falls, completed words stay, the rest is kept.\<close>

definition advances :: "(jstring \<Rightarrow> bool) \<Rightarrow> tracker_state \<Rightarrow> tracker_state \<Rightarrow> bool" where
  "advances P st st' \<longleftrightarrow> committedSymbol st \<le> committedSymbol st'
     \<and> (\<exists>new. completedWordIds st' = completedWordIds st @ new \<and> list_all P new)
     \<and> initialSymbol st' = initialSymbol st \<and> cursorSymbol st' = cursorSymbol st
     \<and> latestSourceRevision st' = latestSourceRevision st
     \<and> observationIds st' = observationIds st \<and> observationIdOrder st' = observationIdOrder st
     \<and> hypothesisHistory st' = hypothesisHistory st \<and> provisionalFinding st' = provisionalFinding st
     \<and> snapshot st' = snapshot st"

lemma advances_refl: "advances P st st"
  by (simp add: advances_def)

lemma advances_trans: "advances P st st' \<Longrightarrow> advances P st' st'' \<Longrightarrow> advances P st st''"
  by (fastforce simp: advances_def)

lemma commit_word_step:
  assumes "core_ok c config st"
  shows "core_ok c config (commit_word config cand final st i)
    \<and> advances (supported_word config cand final) st (commit_word config cand final st i)"
proof (cases "js_map_get (pc_orderedWordsById (tc_prepared config)) i")
  case None
  with assms show ?thesis by (simp add: commit_word_def advances_refl)
next
  case (Some ow)
  let ?r = "ow_range ow"
  have cfg: "wf_corpus c" "tc_prepared config = prepareTrackerCorpus (build_index c)"
    using assms by (simp_all add: core_ok_def config_ok_def)
  from prepared_word [OF cfg(1) Some [unfolded cfg(2)]]
  have ow: "word_id (ow_word ow) = i" "range_start ?r < range_end ?r" "range_end ?r \<le> length (corpus_symbols c)"
    by simp_all
  show ?thesis
  proof (cases "int (range_end ?r) - 1 < int (committedSymbol st) \<or> range_start ?r < symbolIndex cand
      \<or> \<not> word_supported cand final ?r")
    case True
    with Some assms show ?thesis by (simp add: commit_word_def Let_def advances_refl)
  next
    case False
    let ?m = "nat (max (int (committedSymbol st)) (int (range_end ?r) - 1))"
    have m: "committedSymbol st \<le> ?m" "range_end ?r \<le> Suc ?m" "?m < length (corpus_symbols c)"
      using ow(2,3) assms by (auto simp: core_ok_def)
    have supp: "supported_word config cand final i"
      using False Some by (auto simp: supported_word_def)
    have "word_committed config ?m i" using Some m(2) by (auto simp: word_committed_def)
    moreover have "list_all (word_committed config ?m) (completedWordIds st)"
      using assms word_committed_mono [OF _ m(1)] by (auto simp: core_ok_def list_all_iff)
    moreover have "commit_word config cand final st i = st\<lparr>
        completedWordIds := js_set_add i (completedWordIds st), completedWordIdSet := js_set_add i (completedWordIds st),
        committedSymbol := ?m\<rparr>"
      using False Some assms ow(1) by (simp add: commit_word_def Let_def js_set_add_def core_ok_def)
    ultimately show ?thesis
      using assms m(1,3) supp by (auto simp: core_ok_def advances_def js_set_add_def)
  qed
qed

lemma commitSupportedWords_step:
  assumes "core_ok c config st"
  shows "core_ok c config (commitSupportedWords config cand final st)
    \<and> advances (supported_word config cand final) st (commitSupportedWords config cand final st)"
proof -
  have "core_ok c config (foldl (commit_word config cand final) st ws)
      \<and> advances (supported_word config cand final) st (foldl (commit_word config cand final) st ws)" for ws
    using assms
  proof (induction ws arbitrary: st)
    case (Cons w ws)
    from commit_word_step [OF Cons.prems, of cand final w] Cons.IH [of "commit_word config cand final st w"]
    show ?case by (auto intro: advances_trans)
  qed (simp add: advances_refl)
  then show ?thesis by (simp add: commitSupportedWords_def)
qed

section \<open>Submitting an observation\<close>

lemma core_ok_cursor: "core_ok c config st \<Longrightarrow> k < length (corpus_symbols c) \<Longrightarrow> core_ok c config (st\<lparr>cursorSymbol := k\<rparr>)"
  by (simp add: core_ok_def)

lemma core_ok_provisional: "core_ok c config st \<Longrightarrow> core_ok c config (st\<lparr>provisionalFinding := p\<rparr>)"
  by (simp add: core_ok_def)

lemma core_ok_snapshot: "core_ok c config st \<Longrightarrow> core_ok c config (st\<lparr>snapshot := s\<rparr>)"
  by (simp add: core_ok_def)

lemma core_ok_revision: "core_ok c config st \<Longrightarrow> -1 \<le> r \<Longrightarrow> core_ok c config (st\<lparr>latestSourceRevision := r\<rparr>)"
  by (simp add: core_ok_def)

text \<open>What processing a located observation does to the state, apart from the provisional finding.\<close>

definition progresses :: "tracker_config \<Rightarrow> bool \<Rightarrow> alignment_candidate option \<Rightarrow> tracker_state \<Rightarrow> tracker_state \<Rightarrow> bool" where
  "progresses config final best st st' \<longleftrightarrow> committedSymbol st \<le> committedSymbol st'
     \<and> (\<exists>new. completedWordIds st' = completedWordIds st @ new
          \<and> list_all (\<lambda>i. \<exists>cand. best = Some cand \<and> supported_word config cand final i) new)
     \<and> latestSourceRevision st' = latestSourceRevision st \<and> observationIds st' = observationIds st
     \<and> observationIdOrder st' = observationIdOrder st
     \<and> initialSymbol st' = initialSymbol st \<and> snapshot st' = snapshot st"

lemma move_display_step:
  assumes "core_ok c config st" "move_display config obs cand ev st = (st', (dl, dr, dw))"
    "display_location (snapshot st) = sym_location (corpus_symbols c ! cursorSymbol st)"
  shows "core_ok c config st' \<and> progresses config (isFinal obs) (Some cand) st st'
    \<and> dl = sym_location (corpus_symbols c ! cursorSymbol st')
    \<and> (\<not> passesPositionGate ev \<longrightarrow> st' = st)"
proof (cases "passesPositionGate ev")
  case False
  with assms show ?thesis by (auto simp: move_display_def progresses_def)
next
  case True
  let ?k = "active_symbol config cand"
  have cfg: "tc_corpus config = build_index c" "corpus_symbols c \<noteq> []"
    using assms(1) by (simp_all add: core_ok_def config_ok_def)
  then have k: "?k < length (corpus_symbols c)" using active_symbol_less [of config cand] by simp
  let ?st = "st\<lparr>cursorSymbol := ?k\<rparr>"
  from commitSupportedWords_step [OF core_ok_cursor [OF assms(1) k], of cand "isFinal obs"]
  have step: "core_ok c config (commitSupportedWords config cand (isFinal obs) ?st)"
    "advances (supported_word config cand (isFinal obs)) ?st (commitSupportedWords config cand (isFinal obs) ?st)"
    by simp_all
  with assms(2) True cfg show ?thesis
    by (auto simp: move_display_def Let_def progresses_def advances_def)
qed

lemma report_finding_step:
  assumes "core_ok c config st" "report_finding config obs cand ev st = (st', f)"
  shows "core_ok c config st' \<and> progresses config final best st st' \<and> cursorSymbol st' = cursorSymbol st"
  using assms core_ok_provisional [OF assms(1)]
  by (auto simp: report_finding_def Let_def progresses_def split: if_splits prod.splits)

text \<open>A finding names two different phonemes, the second one that of a symbol of the corpus at its place, under
  the gates of its confirmation, and only in the mode that asks for it.\<close>

definition finding_ok :: "tracker_config \<Rightarrow> confirmed_finding option \<Rightarrow> bool" where
  "finding_ok config f \<longleftrightarrow> (case f of None \<Rightarrow> True | Some x \<Rightarrow> tc_findingMode config = lit ''substitutions''
     \<and> cf_actualPhoneme x \<noteq> cf_referencePhoneme x \<and> passesPositionGate (cf_confidence x)
     \<and> (\<exists>s \<in> set (ix_symbols (tc_corpus config)). cf_referenceSymbolId x = sym_id s
          \<and> cf_referencePhoneme x = sym_phoneme s \<and> cf_location x = sym_location s)
     \<and> (case cf_confirmation x of
          Immediate \<Rightarrow> passesImmediateFindingGate (cf_confidence x)
        | FinalObservation \<Rightarrow> passesFinalFindingGate (cf_confidence x)
        | Soft \<Rightarrow> SOFT_CONFIDENCE_THRESHOLD \<le> ev_combined (cf_confidence x)))"

lemma report_finding_ok:
  assumes "report_finding config obs cand ev st = (st', f)"
    "cand = candidate_at (tc_corpus config) (observation_phonemes obs) cur com i" "i < length (ix_symbols (tc_corpus config))"
  shows "finding_ok config f"
proof (cases f)
  case (Some x)
  from assms(1) Some obtain conf ctx where mode: "tc_findingMode config = lit ''substitutions''"
    and x: "classifyFinding \<lparr>fi_corpus = tc_corpus config, fi_candidate = cand, fi_observation = obs,
        fi_actualPhonemes = observation_phonemes obs, fi_confidence = ev, fi_confirmations = conf,
        fi_contextPhonemeCount = ctx\<rparr> = Some x"
    by (auto simp: report_finding_def classifyFinding_def Let_def split: if_splits prod.splits)
  from located_finding [OF x, of cur com i] assms(2,3) mode Some show ?thesis
    by (auto simp: finding_ok_def passesSoftFindingGate_def split: finding_confirmation.splits)
qed (simp add: finding_ok_def)

text \<open>Without a pass of the position gate, nothing a consumer sees moves.\<close>

definition gated :: "tracker_state \<Rightarrow> tracker_state \<Rightarrow> display \<Rightarrow> confidence_evidence option \<Rightarrow> bool" where
  "gated st st' d conf \<longleftrightarrow> (case conf of Some ev \<Rightarrow> passesPositionGate ev | None \<Rightarrow> False)
     \<or> (cursorSymbol st' = cursorSymbol st \<and> committedSymbol st' = committedSymbol st
        \<and> completedWordIds st' = completedWordIds st
        \<and> d = (display_location (snapshot st), display_isReread (snapshot st), display_activeWordId (snapshot st)))"

lemma progresses_trans:
  "progresses config final best st st' \<Longrightarrow> progresses config final best st' st'' \<Longrightarrow> progresses config final best st st''"
  by (fastforce simp: progresses_def)

lemma report_finding_frame:
  "report_finding config obs cand ev st = (st', f) \<Longrightarrow> committedSymbol st' = committedSymbol st
     \<and> completedWordIds st' = completedWordIds st \<and> cursorSymbol st' = cursorSymbol st"
  by (auto simp: report_finding_def Let_def split: if_splits prod.splits)

lemma process_candidate_step:
  assumes "core_ok c config st" "process_candidate config obs located st = (st', (dl, dr, dw), conf, f)"
    "display_location (snapshot st) = sym_location (corpus_symbols c ! cursorSymbol st)"
    "\<And>cand. fst located = Some cand \<Longrightarrow> \<exists>i cur com. i < length (ix_symbols (tc_corpus config))
       \<and> cand = candidate_at (tc_corpus config) (observation_phonemes obs) cur com i"
  shows "core_ok c config st' \<and> progresses config (isFinal obs) (fst located) st st'
    \<and> dl = sym_location (corpus_symbols c ! cursorSymbol st') \<and> finding_ok config f \<and> gated st st' (dl, dr, dw) conf"
proof (cases "fst located")
  case None
  with assms(1-3) core_ok_provisional [OF assms(1)] show ?thesis
    by (auto simp: process_candidate_def progresses_def finding_ok_def gated_def)
next
  case (Some cand)
  let ?ev = "score_candidate obs cand (snd located) (hypothesisHistory st)"
  let ?st1 = "rememberHypothesis (hypothesisFingerprint cand) st"
  obtain st2 dl' dr' dw' where md: "move_display config obs cand ?ev ?st1 = (st2, (dl', dr', dw'))"
    by (metis prod_cases4)
  obtain st3 f' where rf: "report_finding config obs cand ?ev st2 = (st3, f')" by force
  have same: "snapshot ?st1 = snapshot st" "cursorSymbol ?st1 = cursorSymbol st"
      "committedSymbol ?st1 = committedSymbol st" "completedWordIds ?st1 = completedWordIds st"
      "progresses config (isFinal obs) (Some cand) st ?st1"
    by (simp_all add: rememberHypothesis_def Let_def progresses_def)
  from move_display_step [OF remember_hypothesis_ok [OF assms(1)] md] same assms(3)
  have two: "core_ok c config st2" "progresses config (isFinal obs) (Some cand) ?st1 st2"
      "dl' = sym_location (corpus_symbols c ! cursorSymbol st2)" "\<not> passesPositionGate ?ev \<longrightarrow> st2 = ?st1" by simp_all
  from report_finding_step [OF two(1) rf, of "isFinal obs" "Some cand"]
  have three: "core_ok c config st3" "progresses config (isFinal obs) (Some cand) st2 st3"
      "cursorSymbol st3 = cursorSymbol st2" by simp_all
  have eqs: "st' = st3" "dl = dl'" "dr = dr'" "dw = dw'" "conf = Some ?ev" "f = f'"
    using assms(2) Some md rf by (simp_all add: process_candidate_def Let_def)
  have "finding_ok config f'" using assms(4) [OF Some] report_finding_ok [OF rf] by blast
  moreover have "gated st st' (dl, dr, dw) conf"
    using md two(4) report_finding_frame [OF rf] same unfolding eqs gated_def
    by (auto simp: move_display_def)
  ultimately show ?thesis
    using eqs three two(3) progresses_trans [OF same(5) progresses_trans [OF two(2) three(2)]] Some by simp
qed

text \<open>The identifiers that stay remembered: the last ones, up to the limit.\<close>

definition last_ids :: "jstring list \<Rightarrow> jstring list" where
  "last_ids order = drop (length order - OBSERVATION_ID_LIMIT) order"

lemma remembered_order:
  assumes "core_ok c config st"
  shows "observationIdOrder (rememberObservationId i st) = last_ids (observationIdOrder st @ [i])"
proof -
  have len: "length (observationIdOrder st) \<le> OBSERVATION_ID_LIMIT" using assms by (simp add: core_ok_def)
  show ?thesis
  proof (cases "length (observationIdOrder st) = OBSERVATION_ID_LIMIT")
    case True
    then show ?thesis
      by (cases "observationIdOrder st") (simp_all add: rememberObservationId_def Let_def last_ids_def OBSERVATION_ID_LIMIT_def)
  next
    case False
    with len have "length (observationIdOrder st @ [i]) \<le> OBSERVATION_ID_LIMIT" by simp
    then show ?thesis by (simp add: rememberObservationId_def Let_def last_ids_def)
  qed
qed

text \<open>An accepted observation.\<close>

definition accepted :: "quran_corpus \<Rightarrow> tracker_config \<Rightarrow> tracker_state \<Rightarrow> js \<Rightarrow> tracker_state \<Rightarrow> bool" where
  "accepted c config st v st' \<longleftrightarrow> tracker_ok c config st'
     \<and> finding_ok config (snap_finding (snapshot st'))
     \<and> gated st st' (display_location (snapshot st'), display_isReread (snapshot st'), display_activeWordId (snapshot st'))
         (snap_confidence (snapshot st'))
     \<and> snap_revision (snapshot st') = Suc (snap_revision (snapshot st))
     \<and> snap_observationId (snapshot st') = Some (observationId (read_observation v))
     \<and> observationId (read_observation v) \<in> set (observationIds st')
     \<and> observationIdOrder st' = last_ids (observationIdOrder st @ [observationId (read_observation v)])
     \<and> latestSourceRevision st' = sourceRevision (read_observation v)
     \<and> committedSymbol st \<le> committedSymbol st' \<and> initialSymbol st' = initialSymbol st
     \<and> (\<exists>new. completedWordIds st' = completedWordIds st @ new
          \<and> list_all (\<lambda>i. \<exists>cand second. locateObservation (tc_corpus config) v (int (cursorSymbol st))
                (int (committedSymbol st)) = Inr (Some cand, second)
              \<and> supported_word config cand (isFinal (read_observation v)) i) new)"

lemma validated_revision:
  "validateObservation v = Inr () \<Longrightarrow> 0 \<le> sourceRevision (read_observation v)"
  by (simp add: validateObservation_Inr_iff wf_observation_def)

lemma submit_cases:
  assumes "tracker_ok c config st"
  shows "case validateObservation v of
      Inl e \<Rightarrow> submit_observation config st v = (st, Inl e)
    | Inr _ \<Rightarrow>
        if observationId (read_observation v) \<in> set (observationIds st)
           \<or> sourceRevision (read_observation v) < latestSourceRevision st
        then submit_observation config st v = (st, Inr (snapshot st))
        else \<exists>st'. submit_observation config st v = (st', Inr (snapshot st')) \<and> accepted c config st v st'"
proof (cases "validateObservation v")
  case (Inl e)
  then show ?thesis by (simp add: submit_observation_def)
next
  case (Inr u)
  let ?obs = "read_observation v"
  show ?thesis
  proof (cases "observationId ?obs \<in> set (observationIds st) \<or> sourceRevision ?obs < latestSourceRevision st")
    case True
    with Inr show ?thesis by (simp add: submit_observation_def Let_def)
  next
    case False
    have core: "core_ok c config st" using assms by (simp add: tracker_ok_def)
    have valid: "validateObservation v = Inr ()" using Inr by simp
    let ?st1 = "(rememberObservationId (observationId ?obs) st)\<lparr>latestSourceRevision := sourceRevision ?obs\<rparr>"
    have st1: "core_ok c config ?st1"
      using remember_id_ok [OF core] False validated_revision [OF valid] by (intro core_ok_revision) simp_all
    have same: "cursorSymbol ?st1 = cursorSymbol st" "committedSymbol ?st1 = committedSymbol st"
        "snapshot ?st1 = snapshot st" "completedWordIds ?st1 = completedWordIds st" "initialSymbol ?st1 = initialSymbol st"
        "hypothesisHistory ?st1 = hypothesisHistory st" "provisionalFinding ?st1 = provisionalFinding st"
      by (simp_all add: rememberObservationId_def Let_def)
    have order: "observationIdOrder ?st1 = last_ids (observationIdOrder st @ [observationId ?obs])"
      using remembered_order [OF core] by simp
    obtain b s where loc: "locateObservation (tc_corpus config) v (int (cursorSymbol st)) (int (committedSymbol st)) = Inr (b, s)"
        "\<And>cand. b = Some cand \<Longrightarrow> \<exists>i c. i < length (ix_symbols (tc_corpus config))
          \<and> cand = candidate_at (tc_corpus config) (observation_phonemes ?obs) c (int (committedSymbol st)) i"
      using locate_Inr [OF valid, of "tc_corpus config" "int (cursorSymbol st)" "int (committedSymbol st)"] by metis
    obtain st2 d conf f where proc0: "process_candidate config ?obs (b, s) ?st1 = (st2, d, conf, f)"
      by (rule prod_cases4)
    obtain dl dr dw where "d = (dl, dr, dw)" by (rule prod_cases3)
    with proc0 have proc: "process_candidate config ?obs (b, s) ?st1 = (st2, (dl, dr, dw), conf, f)" by simp
    have disp: "display_location (snapshot ?st1) = sym_location (corpus_symbols c ! cursorSymbol ?st1)"
      using assms same by (simp add: tracker_ok_def)
    have cand: "\<exists>i cur com. i < length (ix_symbols (tc_corpus config))
       \<and> cand = candidate_at (tc_corpus config) (observation_phonemes ?obs) cur com i" if "fst (b, s) = Some cand" for cand
      using loc(2) [of cand] that by auto
    from process_candidate_step [OF st1 proc disp cand]
    have two: "core_ok c config st2" "progresses config (isFinal ?obs) b ?st1 st2"
        "dl = sym_location (corpus_symbols c ! cursorSymbol st2)" "finding_ok config f"
        "gated ?st1 st2 (dl, dr, dw) conf" unfolding fst_conv by blast+
    let ?snap = "\<lparr>snap_revision = snap_revision (snapshot st2) + 1,
        snap_observationId = Some (observationId ?obs), display_location = dl, display_isReread = dr,
        display_activeWordId = dw,
        commit_location = sym_location (ix_symbols (tc_corpus config) ! committedSymbol st2),
        commit_completedWordIds = completedWordIds st2, snap_confidence = conf, snap_finding = f\<rparr>"
    have result: "submit_observation config st v = (st2\<lparr>snapshot := ?snap\<rparr>, Inr ?snap)"
      using Inr False loc(1) proc same by (simp add: submit_observation_def Let_def)
    have "observationId ?obs \<in> set (observationIds ?st1)" using remembered [OF core] False by simp
    moreover have "tc_corpus config = build_index c" using core by (simp add: core_ok_def config_ok_def)
    ultimately have "accepted c config st v (st2\<lparr>snapshot := ?snap\<rparr>)"
      using two loc(1) same order by (auto simp: accepted_def progresses_def tracker_ok_def core_ok_snapshot gated_def)
    with result Inr False show ?thesis by auto
  qed
qed

section \<open>Reachable states\<close>

text \<open>The life of a tracker of a validated corpus: created, then any observations and resets, the
  refused and failing ones included.\<close>

inductive reachable :: "js \<Rightarrow> tracker_config \<Rightarrow> tracker_state \<Rightarrow> bool" for v where
  created: "indexCorpus v = Inr corpus \<Longrightarrow> createReadingTracker corpus initial mode = Inr (config, st)
     \<Longrightarrow> reachable v config st"
| submitted: "reachable v config st \<Longrightarrow> reachable v config (fst (submit_observation config st obs))"
| restarted: "reachable v config st \<Longrightarrow> reachable v config (fst (reset_tracker config st location))"

inductive_cases reachable_cases: "reachable v config st"

lemma create_ok:
  assumes "wf_corpus c" "createReadingTracker (build_index c) initial mode = Inr (config, st)"
  shows "tracker_ok c config st"
proof -
  from assms(2) obtain symbol l m where
    "corpus_symbols c \<noteq> []" "config = \<lparr>tc_corpus = build_index c, tc_prepared = prepareTrackerCorpus (build_index c),
       tc_initialLocation = l, tc_findingMode = m\<rparr>" "m \<in> {lit ''off'', lit ''substitutions''}"
    "symbolIndexAt (build_index c) l = Inr symbol" "st = initial_state symbol 0 l"
    by (auto simp: createReadingTracker_def Let_def ebind_Inr_iff split: if_splits)
  then show ?thesis
    using assms(1) initial_ok [of c config l symbol 0] symbolIndexAt_found [of "build_index c" l] by (auto simp: config_ok_def)
qed

lemma reset_ok:
  assumes "tracker_ok c config st"
  shows "tracker_ok c config (fst (reset_tracker config st location))"
  using assms initial_ok [of c config]
  by (auto simp: reset_tracker_def Let_def tracker_ok_def [of c config st] core_ok_def split: sum.splits)

lemma submit_ok:
  assumes "tracker_ok c config st"
  shows "tracker_ok c config (fst (submit_observation config st obs))"
  using submit_cases [OF assms, of obs] assms by (auto simp: accepted_def split: sum.splits if_splits)

lemma reachable_ok: "reachable v config st \<Longrightarrow> tracker_ok (read_corpus v) config st"
proof (induction rule: reachable.induct)
  case (created corpus initial mode config st)
  then have "wf_corpus (read_corpus v)" "corpus = build_index (read_corpus v)"
    by (auto simp: indexCorpus_wf indexCorpus_Inr)
  with created(2) show ?case by (auto intro: create_ok)
qed (auto intro: submit_ok reset_ok)

lemma sample_tracker_reachable:
  "\<exists>config st. createReadingTracker (build_index (read_corpus sample_corpus)) None None = Inr (config, st)
     \<and> reachable sample_corpus config st \<and> observationIds st = [] \<and> latestSourceRevision st = -1"
proof -
  have "(case createReadingTracker (build_index (read_corpus sample_corpus)) None None of
      Inr (config, st) \<Rightarrow> observationIds st = [] \<and> latestSourceRevision st = -1 | Inl _ \<Rightarrow> False)" by code_simp
  then obtain config st where
    "createReadingTracker (build_index (read_corpus sample_corpus)) None None = Inr (config, st)"
    "observationIds st = []" "latestSourceRevision st = -1" by (auto split: sum.splits)
  then show ?thesis using reachable.created [OF sample_corpus_index] by blast
qed

section \<open>Properties\<close>

text \<open>C10: in every state a tracker of a validated corpus can reach, cursor and commit point into the
  corpus, the commit is not before the initial symbol, at most 512 distinct observation ids and two
  hypotheses are remembered, the completed words are distinct words of the corpus that end at or
  before the committed symbol, and the snapshot a consumer holds shows exactly this state.\<close>

theorem tracker_invariant:
  assumes "reachable v config st"
  shows "cursorSymbol st < length (ix_symbols (tc_corpus config))
    \<and> committedSymbol st < length (ix_symbols (tc_corpus config)) \<and> initialSymbol st \<le> committedSymbol st
    \<and> distinct (observationIdOrder st) \<and> length (observationIdOrder st) \<le> 512
    \<and> set (observationIds st) = set (observationIdOrder st) \<and> length (hypothesisHistory st) \<le> 2
    \<and> distinct (completedWordIds st) \<and> list_all (word_committed config (committedSymbol st)) (completedWordIds st)
    \<and> commit_completedWordIds (getSnapshot st) = completedWordIds st
    \<and> commit_location (getSnapshot st) = sym_location (ix_symbols (tc_corpus config) ! committedSymbol st)
    \<and> display_location (getSnapshot st) = sym_location (ix_symbols (tc_corpus config) ! cursorSymbol st)"
  using reachable_ok [OF assms] by (auto simp: tracker_ok_def core_ok_def config_ok_def tracker_limits getSnapshot_def)

theorem tracker_invariant_witness:
  "\<exists>config st. reachable sample_corpus config st
     \<and> committedSymbol (fst (submit_observation config st (js_observation ''o1'' 0 False 10 [''a'', ''l''])))
        < length (ix_symbols (tc_corpus config))"
  using sample_tracker_reachable tracker_invariant [OF reachable.submitted] by metis

text \<open>C11: \<open>submit\<close> has exactly three outcomes: an invalid observation is an exception that changes
  nothing; one whose id is remembered or whose source revision is below the latest gets the very
  snapshot the tracker has and changes nothing; any other one is accepted, which never throws,
  raises the snapshot's revision by one, names the observation and records its id and revision.\<close>

theorem submit_outcomes:
  assumes "reachable v config st"
  shows "case validateObservation obs of
      Inl e \<Rightarrow> submit_observation config st obs = (st, Inl e)
    | Inr _ \<Rightarrow>
        if observationId (read_observation obs) \<in> set (observationIds st)
           \<or> sourceRevision (read_observation obs) < latestSourceRevision st
        then submit_observation config st obs = (st, Inr (getSnapshot st))
        else \<exists>st'. submit_observation config st obs = (st', Inr (getSnapshot st'))
          \<and> snap_revision (getSnapshot st') = Suc (snap_revision (getSnapshot st))
          \<and> snap_observationId (getSnapshot st') = Some (observationId (read_observation obs))
          \<and> observationId (read_observation obs) \<in> set (observationIds st')
          \<and> latestSourceRevision st' = sourceRevision (read_observation obs)"
  using submit_cases [OF reachable_ok [OF assms], of obs]
  by (auto simp: accepted_def getSnapshot_def split: sum.splits if_splits)

theorem submit_outcomes_witness:
  "\<exists>config st st'. submit_observation config st (js_observation ''o1'' 0 False 10 [''a'', ''l'']) = (st', Inr (getSnapshot st'))
     \<and> snap_revision (getSnapshot st') = Suc (snap_revision (getSnapshot st))"
proof -
  obtain config st where st: "reachable sample_corpus config st" "observationIds st = []" "latestSourceRevision st = -1"
    using sample_tracker_reachable by blast
  have "sourceRevision (read_observation (js_observation ''o1'' 0 False 10 [''a'', ''l''])) = 0" by code_simp
  with submit_outcomes [OF st(1), of "js_observation ''o1'' 0 False 10 [''a'', ''l'']"] st(2,3) js_observation_valid
  show ?thesis by auto
qed

text \<open>C13: whatever is submitted, commits only move forward: the committed symbol does not fall, every
  completed word stays completed in its place, and neither the latest source revision nor the
  snapshot's revision falls.\<close>

theorem submit_never_regresses:
  assumes "reachable v config st" "submit_observation config st obs = (st', r)"
  shows "committedSymbol st \<le> committedSymbol st' \<and> (\<exists>new. completedWordIds st' = completedWordIds st @ new)
    \<and> latestSourceRevision st \<le> latestSourceRevision st'
    \<and> snap_revision (getSnapshot st) \<le> snap_revision (getSnapshot st')"
  using submit_cases [OF reachable_ok [OF assms(1)], of obs] assms(2)
  by (auto simp: accepted_def getSnapshot_def split: sum.splits if_splits)

theorem submit_never_regresses_witness:
  "\<exists>config st. committedSymbol st
     \<le> committedSymbol (fst (submit_observation config st (js_observation ''o1'' 0 False 10 [''a'', ''l''])))"
proof -
  obtain config st where "reachable sample_corpus config st" using sample_tracker_reachable by blast
  from submit_never_regresses [OF this surjective_pairing] show ?thesis by blast
qed

end
