(* ===== verification/Tracker_Commits.thy ===== *)
theory Tracker_Commits
  imports Tracker_Proofs
begin

text \<open>
  What a commit, a reset, a repetition and a finding of the reading tracker mean, over the
  invariant and the outcomes of \<open>Tracker_Proofs\<close>.
\<close>

section \<open>The symbols a candidate consumes\<close>

lemma set_foldl_adds:
  "set (foldl (\<lambda>s op. case f op of Some b \<Rightarrow> js_set_add (g b) s | None \<Rightarrow> s) s0 ops)
     = set s0 \<union> {g b | b op. op \<in> set ops \<and> f op = Some b}"
proof (induction ops arbitrary: s0)
  case (Cons op ops)
  show ?case
  proof (cases "f op")
    case (Some b)
    then show ?thesis using Cons.IH [of "js_set_add (g b) s0"] by auto
  qed (use Cons.IH in auto)
qed simp

lemma consumed_symbols_iff:
  "k \<in> set (consumed_symbols cand) \<longleftrightarrow> (\<exists>op \<in> set (operations (cand_alignment cand)).
     \<exists>b. paired_reference op = Some b \<and> k = int (symbolIndex cand) + b)"
  unfolding consumed_symbols_def set_foldl_adds by auto

fun matched_reference :: "alignment_operation \<Rightarrow> int option" where
  "matched_reference (OpMatch a b) = Some b"
| "matched_reference _ = None"

lemma matched_symbols_iff:
  "k \<in> set (matched_symbols cand) \<longleftrightarrow> (\<exists>op \<in> set (operations (cand_alignment cand)).
     \<exists>b. matched_reference op = Some b \<and> k = int (symbolIndex cand) + b)"
proof -
  have "(\<lambda>s op. case op of OpMatch a b \<Rightarrow> js_set_add (int (symbolIndex cand) + b) s | _ \<Rightarrow> s)
      = (\<lambda>s op. case matched_reference op of Some b \<Rightarrow> js_set_add (int (symbolIndex cand) + b) s | None \<Rightarrow> s)"
    by (intro ext) (auto split: alignment_operation.splits)
  then show ?thesis unfolding matched_symbols_def by (simp only: set_foldl_adds) auto
qed

lemma word_supported_iff:
  "word_supported cand final rng \<longleftrightarrow>
     (\<forall>k \<in> {range_start rng..<range_end rng}. \<exists>op \<in> set (operations (cand_alignment cand)).
        \<exists>b. paired_reference op = Some b \<and> int k = int (symbolIndex cand) + b)
     \<and> (final \<or> (\<forall>k < 2. \<exists>op \<in> set (operations (cand_alignment cand)).
        \<exists>b. matched_reference op = Some b \<and> int (range_end rng + k) = int (symbolIndex cand) + b))"
  by (auto simp: word_supported_def list_all_iff consumed_symbols_iff matched_symbols_iff PARTIAL_COMMIT_LOOKAHEAD_def)

section \<open>The last accepted observation is remembered\<close>

lemma submit_twice:
  assumes "tracker_ok c config st" "submit_observation config st obs = (st', r)"
  shows "submit_observation config st' obs = (st', r)"
proof (cases "validateObservation obs")
  case (Inl e)
  then show ?thesis using assms(2) by (simp add: submit_observation_def)
next
  case (Inr u)
  show ?thesis
  proof (cases "observationId (read_observation obs) \<in> set (observationIds st)
      \<or> sourceRevision (read_observation obs) < latestSourceRevision st")
    case True
    with Inr assms(2) show ?thesis by (auto simp: submit_observation_def Let_def)
  next
    case False
    with submit_cases [OF assms(1), of obs] Inr assms(2) have "r = Inr (snapshot st')" "accepted c config st obs st'"
      by auto
    with Inr show ?thesis by (simp add: submit_observation_def Let_def accepted_def)
  qed
qed

section \<open>Every finding a consumer sees\<close>

lemma reachable_finding: "reachable v config st \<Longrightarrow> finding_ok config (snap_finding (snapshot st))"
proof (induction rule: reachable.induct)
  case (created corpus initial mode config st)
  then show ?case
    by (auto simp: createReadingTracker_def Let_def ebind_Inr_iff initial_state_def initial_snapshot_def finding_ok_def
        split: if_splits)
next
  case (submitted config st obs)
  with submit_cases [OF reachable_ok [OF submitted.hyps], of obs] show ?case
    by (auto simp: accepted_def split: sum.splits if_splits)
next
  case (restarted config st location)
  then show ?case
    by (auto simp: reset_tracker_def Let_def initial_state_def initial_snapshot_def finding_ok_def split: sum.splits)
qed

section \<open>Soft findings\<close>

text \<open>What is pending before and after a soft finding: the same substitution, once more.\<close>

definition soft_confirmed :: "tracker_state \<Rightarrow> tracker_state \<Rightarrow> confirmed_finding \<Rightarrow> bool" where
  "soft_confirmed st st' f \<longleftrightarrow> (\<exists>p. provisionalFinding st = Some p
     \<and> pf_fingerprint p = cf_referenceSymbolId f @ 0 # cf_actualPhoneme f @ 0 # cf_referencePhoneme f
     \<and> provisionalFinding st' = Some (p\<lparr>pf_confirmations := Suc (pf_confirmations p)\<rparr>)
     \<and> cf_confirmations f = Suc (pf_confirmations p))"

lemma classified_soft:
  assumes "classifyFindingWithEvidence input (Some ev) = Some f" "cf_confirmation f = Soft"
  shows "passesSoftFindingGate (se_confidence ev) (fi_confirmations input) (fi_contextPhonemeCount input)
    \<and> cf_confirmations f = fi_confirmations input
    \<and> js_at (fi_actualPhonemes input) (so_actualIndex (se_operation ev)) = Some (cf_actualPhoneme f)
    \<and> (\<exists>s. js_at (ix_symbols (fi_corpus input))
         (int (symbolIndex (fi_candidate input)) + so_referenceIndex (se_operation ev)) = Some s
       \<and> cf_referencePhoneme f = sym_phoneme s \<and> cf_referenceSymbolId f = sym_id s)"
  using assms
  by (auto simp: classifyFindingWithEvidence_def confirmationMode_def split: if_splits option.splits)

lemma report_finding_soft:
  assumes "report_finding config obs cand ev st = (st', Some f)" "cf_confirmation f = Soft"
  shows "soft_confirmed st st' f"
proof -
  let ?actual = "observation_phonemes obs"
  obtain e where e: "deriveSubstitutionEvidence cand ev = Some e"
    using assms(1) by (cases "deriveSubstitutionEvidence cand ev")
      (auto simp: report_finding_def Let_def classifyFindingWithEvidence_def split: if_splits prod.splits option.splits)
  obtain prov conf ctx where upd: "updateProvisionalFinding (tc_corpus config) (provisionalFinding st) cand ?actual (Some e)
      = (prov, conf, ctx)" by (rule prod_cases3)
  let ?in = "\<lparr>fi_corpus = tc_corpus config, fi_candidate = cand, fi_observation = obs, fi_actualPhonemes = ?actual,
      fi_confidence = ev, fi_confirmations = conf, fi_contextPhonemeCount = ctx\<rparr>"
  have cls: "classifyFindingWithEvidence ?in (Some e) = Some f" and st': "st' = st\<lparr>provisionalFinding := prov\<rparr>"
    using assms(1) e upd by (auto simp: report_finding_def Let_def split: if_splits)
  from classified_soft [OF cls assms(2)] obtain s where
    soft: "passesSoftFindingGate (se_confidence e) conf ctx" "cf_confirmations f = conf"
      "js_at ?actual (so_actualIndex (se_operation e)) = Some (cf_actualPhoneme f)"
      "js_at (ix_symbols (tc_corpus config)) (int (symbolIndex cand) + so_referenceIndex (se_operation e)) = Some s"
      "cf_referencePhoneme f = sym_phoneme s" "cf_referenceSymbolId f = sym_id s" by auto
  then have "2 \<le> conf" by (simp add: passesSoftFindingGate_def)
  with upd soft show ?thesis unfolding st'
    by (auto simp: updateProvisionalFinding_def Let_def findingFingerprint_def advanceProvisionalFinding_def
        soft_confirmed_def split: if_splits option.splits)
qed

lemma move_display_provisional:
  assumes "core_ok c config st" "move_display config obs cand ev st = (st', d)"
  shows "provisionalFinding st' = provisionalFinding st"
proof (cases "passesPositionGate ev")
  case True
  let ?k = "active_symbol config cand"
  have "tc_corpus config = build_index c" "corpus_symbols c \<noteq> []"
    using assms(1) by (simp_all add: core_ok_def config_ok_def)
  then have "?k < length (corpus_symbols c)" using active_symbol_less [of config cand] by simp
  from commitSupportedWords_step [OF core_ok_cursor [OF assms(1) this], of cand "isFinal obs"] assms(2) True
  show ?thesis by (auto simp: move_display_def Let_def advances_def)
qed (use assms(2) in \<open>auto simp: move_display_def\<close>)

lemma submit_soft:
  assumes "tracker_ok c config st" "validateObservation obs = Inr ()"
    "\<not> (observationId (read_observation obs) \<in> set (observationIds st)
        \<or> sourceRevision (read_observation obs) < latestSourceRevision st)"
    "submit_observation config st obs = (st', r)" "snap_finding (snapshot st') = Some f" "cf_confirmation f = Soft"
  shows "soft_confirmed st st' f"
proof -
  let ?obs = "read_observation obs"
  let ?st1 = "(rememberObservationId (observationId ?obs) st)\<lparr>latestSourceRevision := sourceRevision ?obs\<rparr>"
  have core: "core_ok c config st" using assms(1) by (simp add: tracker_ok_def)
  have st1: "core_ok c config ?st1"
    using remember_id_ok [OF core] assms(3) validated_revision [OF assms(2)] by (intro core_ok_revision) simp_all
  have same: "cursorSymbol ?st1 = cursorSymbol st" "committedSymbol ?st1 = committedSymbol st"
      "provisionalFinding ?st1 = provisionalFinding st" by (simp_all add: rememberObservationId_def Let_def)
  obtain b s where loc: "locateObservation (tc_corpus config) obs (int (cursorSymbol st)) (int (committedSymbol st)) = Inr (b, s)"
    using locate_Inr [OF assms(2), of "tc_corpus config" "int (cursorSymbol st)" "int (committedSymbol st)"] by metis
  obtain st2 d conf g where proc: "process_candidate config ?obs (b, s) ?st1 = (st2, d, conf, g)"
    by (rule prod_cases4)
  have st': "provisionalFinding st' = provisionalFinding st2" "g = Some f"
    using assms(2-5) loc proc same by (auto simp: submit_observation_def Let_def split: prod.splits)
  then obtain cand where b: "b = Some cand"
    using proc by (cases b) (auto simp: process_candidate_def)
  let ?ev = "score_candidate ?obs cand s (hypothesisHistory ?st1)"
  let ?sth = "rememberHypothesis (hypothesisFingerprint cand) ?st1"
  obtain stm d' where md: "move_display config ?obs cand ?ev ?sth = (stm, d')" by (rule prod.exhaust)
  have "report_finding config ?obs cand ?ev stm = (st2, Some f)"
    using proc b md st'(2) by (auto simp: process_candidate_def Let_def split: prod.splits)
  from report_finding_soft [OF this assms(6)] have "soft_confirmed stm st2 f" .
  moreover have "provisionalFinding stm = provisionalFinding st"
    using move_display_provisional [OF remember_hypothesis_ok [OF st1] md] same
    by (simp add: rememberHypothesis_def Let_def)
  ultimately show ?thesis using st'(1) by (simp add: soft_confirmed_def)
qed

section \<open>Properties\<close>

text \<open>C12: a word newly completed by an observation is a word the best located candidate supports: every
  symbol of its range is consumed by a match or a substitution of the candidate's edit path, and
  unless the observation is final the two symbols after the word are matched.\<close>

theorem commits_are_supported:
  assumes "reachable v config st" "submit_observation config st obs = (st', r)"
    "w \<in> set (completedWordIds st')" "w \<notin> set (completedWordIds st)"
  shows "\<exists>cand second ow. locateObservation (tc_corpus config) obs (int (cursorSymbol st)) (int (committedSymbol st))
        = Inr (Some cand, second)
    \<and> js_map_get (pc_orderedWordsById (tc_prepared config)) w = Some ow
    \<and> (\<forall>k \<in> {range_start (ow_range ow)..<range_end (ow_range ow)}.
         \<exists>op \<in> set (operations (cand_alignment cand)).
           \<exists>b. paired_reference op = Some b \<and> int k = int (symbolIndex cand) + b)
    \<and> (isFinal (read_observation obs) \<or> (\<forall>k < 2. \<exists>op \<in> set (operations (cand_alignment cand)).
         \<exists>b. matched_reference op = Some b \<and> int (range_end (ow_range ow) + k) = int (symbolIndex cand) + b))"
proof -
  have "validateObservation obs = Inr ()" "\<not> (observationId (read_observation obs) \<in> set (observationIds st)
      \<or> sourceRevision (read_observation obs) < latestSourceRevision st)"
    using submit_cases [OF reachable_ok [OF assms(1)], of obs] assms(2-4) by (auto split: sum.splits if_splits)
  with submit_cases [OF reachable_ok [OF assms(1)], of obs] assms(2)
  have "accepted (read_corpus v) config st obs st'" by auto
  with assms(3,4) show ?thesis
    by (fastforce simp: accepted_def list_all_iff supported_word_def word_supported_iff)
qed

lemma sample_commit:
  "case createReadingTracker (build_index (read_corpus sample_corpus)) None None of Inl e \<Rightarrow> False
   | Inr (config, st) \<Rightarrow> completedWordIds st = [] \<and>
       completedWordIds (fst (submit_observation config st (js_observation ''o1'' 0 True 10 [''b'', ''a'']))) = [lit ''w1'']"
  by code_simp

theorem commits_are_supported_witness:
  "\<exists>config st cand second. locateObservation (tc_corpus config) (js_observation ''o1'' 0 True 10 [''b'', ''a''])
      (int (cursorSymbol st)) (int (committedSymbol st)) = Inr (Some cand, second)
    \<and> lit ''w1'' \<in> set (completedWordIds (fst (submit_observation config st (js_observation ''o1'' 0 True 10 [''b'', ''a'']))))"
proof -
  let ?o = "js_observation ''o1'' 0 True 10 [''b'', ''a'']"
  obtain config st where st: "createReadingTracker (build_index (read_corpus sample_corpus)) None None = Inr (config, st)"
    using sample_tracker_reachable by blast
  then have "reachable sample_corpus config st" by (rule reachable.created [OF sample_corpus_index])
  moreover have "completedWordIds st = []" "completedWordIds (fst (submit_observation config st ?o)) = [lit ''w1'']"
    using sample_commit st by simp_all
  ultimately show ?thesis
    using commits_are_supported [of sample_corpus config st ?o _ _ "lit ''w1''", OF _ surjective_pairing] by fastforce
qed

text \<open>C14: submitting the same observation twice in a row is submitting it once, with the same answer,
  also when it was refused or is invalid.\<close>

theorem submit_idempotent:
  assumes "reachable v config st" "submit_observation config st obs = (st', r)"
  shows "submit_observation config st' obs = (st', r)"
  using submit_twice [OF reachable_ok [OF assms(1)] assms(2)] .

theorem submit_idempotent_witness:
  "\<exists>config st. let once = submit_observation config st (js_observation ''o1'' 0 False 10 [''a'', ''l''])
     in submit_observation config (fst once) (js_observation ''o1'' 0 False 10 [''a'', ''l'']) = once"
proof -
  obtain config st where "reachable sample_corpus config st" using sample_tracker_reachable by blast
  from submit_idempotent [OF this surjective_pairing] show ?thesis by (auto simp: Let_def)
qed

text \<open>After a successful reset the tracker is a freshly created one at the location, apart from the
  revision of the snapshot, which goes on counting.\<close>

theorem reset_is_fresh:
  assumes "reachable v config st" "reset_tracker config st (Some l) = (st', Inr snap)"
  shows "\<exists>config0 st0. createReadingTracker (tc_corpus config) (Some l) (Some (tc_findingMode config)) = Inr (config0, st0)
    \<and> tc_prepared config0 = tc_prepared config
    \<and> st' = st0\<lparr>snapshot := (snapshot st0)\<lparr>snap_revision := Suc (snap_revision (getSnapshot st))\<rparr>\<rparr>
    \<and> snap = getSnapshot st'"
  using reachable_ok [OF assms(1)] assms(2)
  by (auto simp: reset_tracker_def createReadingTracker_def Let_def ebind_def tracker_ok_def core_ok_def config_ok_def
      initial_state_def initial_snapshot_def getSnapshot_def split: sum.splits)

theorem reset_is_fresh_witness:
  "\<exists>config st. let r = reset_tracker config st (Some \<lparr>loc_surah = 1, loc_ayah = 1, loc_word = 2, loc_symbol = 1\<rparr>)
     in cursorSymbol (fst r) = 2 \<and> snap_revision (getSnapshot (fst r)) = Suc (snap_revision (getSnapshot st))"
proof -
  let ?l = "\<lparr>loc_surah = 1, loc_ayah = 1, loc_word = 2, loc_symbol = 1\<rparr>"
  obtain config st where st: "createReadingTracker (build_index (read_corpus sample_corpus)) None None = Inr (config, st)"
    using sample_tracker_reachable by blast
  then have "reachable sample_corpus config st" by (rule reachable.created [OF sample_corpus_index])
  moreover have "case createReadingTracker (build_index (read_corpus sample_corpus)) None None of Inl e \<Rightarrow> False
    | Inr (config, st) \<Rightarrow> (case reset_tracker config st (Some ?l) of (st', Inr snap) \<Rightarrow> cursorSymbol st' = 2 | _ \<Rightarrow> False)"
    by code_simp
  then obtain st' snap where "reset_tracker config st (Some ?l) = (st', Inr snap)" "cursorSymbol st' = 2"
    using st by (auto split: prod.splits sum.splits)
  moreover from calculation(1) reset_is_fresh [of sample_corpus config st ?l st' snap] this(1)
  have "snap_revision (getSnapshot st') = Suc (snap_revision (getSnapshot st))" by (auto simp: getSnapshot_def)
  ultimately show ?thesis
    by (intro exI [of _ config] exI [of _ st]) (simp add: Let_def)
qed

text \<open>An observation whose confidence misses the position gate, or that locates nothing, moves
  neither display nor commit: a consumer sees the place it saw before.\<close>

theorem weak_evidence_moves_nothing:
  assumes "reachable v config st" "submit_observation config st obs = (st', r)"
    "case snap_confidence (getSnapshot st') of None \<Rightarrow> True | Some ev \<Rightarrow> \<not> passesPositionGate ev"
  shows "committedSymbol st' = committedSymbol st \<and> completedWordIds st' = completedWordIds st
    \<and> display_location (getSnapshot st') = display_location (getSnapshot st)
    \<and> display_isReread (getSnapshot st') = display_isReread (getSnapshot st)
    \<and> display_activeWordId (getSnapshot st') = display_activeWordId (getSnapshot st)
    \<and> commit_location (getSnapshot st') = commit_location (getSnapshot st)"
proof -
  have ok: "tracker_ok (read_corpus v) config st" using reachable_ok [OF assms(1)] .
  from submit_cases [OF ok, of obs] assms(2)
  have "st' = st \<or> accepted (read_corpus v) config st obs st'" by (auto split: sum.splits if_splits)
  then show ?thesis
    using ok assms(3) by (auto simp: accepted_def gated_def tracker_ok_def getSnapshot_def split: option.splits)
qed

theorem weak_evidence_moves_nothing_witness:
  "\<exists>config st. committedSymbol (fst (submit_observation config st (js_observation ''o1'' 0 True 10 []))) = committedSymbol st"
proof -
  let ?o = "js_observation ''o1'' 0 True 10 []"
  obtain config st where st: "createReadingTracker (build_index (read_corpus sample_corpus)) None None = Inr (config, st)"
    using sample_tracker_reachable by blast
  then have "reachable sample_corpus config st" by (rule reachable.created [OF sample_corpus_index])
  moreover have "case createReadingTracker (build_index (read_corpus sample_corpus)) None None of Inl e \<Rightarrow> False
    | Inr (config, st) \<Rightarrow> snap_confidence (getSnapshot (fst (submit_observation config st ?o))) = None" by code_simp
  ultimately show ?thesis
    using weak_evidence_moves_nothing [of sample_corpus config st ?o, OF _ surjective_pairing] st by auto
qed

text \<open>A soft finding is never the first sight of a substitution: before the observation the very
  same substitution (reference symbol and both phonemes) was pending, and the finding counts one
  confirmation more.\<close>

theorem soft_finding_needs_confirmation:
  assumes "report_finding config obs cand ev st = (st', Some f)" "cf_confirmation f = Soft"
  shows "\<exists>p. provisionalFinding st = Some p
    \<and> pf_fingerprint p = cf_referenceSymbolId f @ 0 # cf_actualPhoneme f @ 0 # cf_referencePhoneme f
    \<and> provisionalFinding st' = Some (p\<lparr>pf_confirmations := Suc (pf_confirmations p)\<rparr>)
    \<and> cf_confirmations f = Suc (pf_confirmations p)"
  using report_finding_soft [OF assms] by (simp add: soft_confirmed_def)

definition sample_soft :: "(tracker_config \<times> recitation_observation \<times> alignment_candidate \<times> confidence_evidence \<times> tracker_state) option" where
  "sample_soft = (case createReadingTracker (build_index (read_corpus sample_corpus)) None None of Inl e \<Rightarrow> None
   | Inr (config, st) \<Rightarrow> Some (config,
      \<lparr>observationId = lit ''o'', sourceRevision = 0, isFinal = False, receivedAtMs = 0, obs_tokens =
        [\<lparr>tok_id = lit ''t'', tok_text = [], tok_phonemes = [lit ''x'', lit ''a'', lit ''l''],
          tok_startMs = None, tok_endMs = None, tok_confidence = None\<rparr>]\<rparr>,
      sample_candidate\<lparr>cand_alignment := \<lparr>path_score = 2 / 3, editCount = 1, matchedLookaheadCount = 2,
        operations = [OpSubstitution 0 0, OpMatch 1 1, OpMatch 2 2]\<rparr>\<rparr>,
      sample_evidence\<lparr>ev_margin := 1 / 8, ev_combined := 15 / 16\<rparr>,
      st\<lparr>provisionalFinding := Some \<lparr>pf_fingerprint = lit ''s1'' @ 0 # lit ''x'' @ 0 # lit ''b'', pf_confirmations = 1\<rparr>\<rparr>))"

theorem soft_finding_needs_confirmation_witness:
  "\<exists>config obs cand ev st st' f. report_finding config obs cand ev st = (st', Some f)
     \<and> cf_confirmation f = Soft \<and> cf_confirmations f = 2
     \<and> (\<exists>p. provisionalFinding st = Some p \<and> cf_confirmations f = Suc (pf_confirmations p))"
proof -
  have "case sample_soft of None \<Rightarrow> False | Some (config, obs, cand, ev, st) \<Rightarrow>
      (case report_finding config obs cand ev st of (st', Some f) \<Rightarrow> cf_confirmation f = Soft \<and> cf_confirmations f = 2
       | _ \<Rightarrow> False)" by code_simp
  then obtain config obs cand ev st st' f where "report_finding config obs cand ev st = (st', Some f)"
    "cf_confirmation f = Soft" "cf_confirmations f = 2" by (auto split: option.splits prod.splits)
  with soft_finding_needs_confirmation [OF this(1,2)] show ?thesis by blast
qed

end
