(* ===== verification/Reported_Findings.thy ===== *)
theory Reported_Findings
  imports Tracker_Commits
begin

text \<open>
  What a finding that a consumer reads from a snapshot means, and a run of the tracker that reports one:
  a word of five symbols, heard three times with a wrong second phoneme.  The first two observations are
  partial and make the hypothesis stable; the last one is final.
\<close>

section \<open>A run that reports a finding\<close>

definition slip_corpus :: js where
  "slip_corpus =
     (let ps = [''a'', ''b'', ''c'', ''d'', ''e''];
          at_place = (\<lambda>(p, n). js_symbol p p (js_location 1 1 1 n))
      in JObj [(''corpusId'', js_string ''c''), (''revision'', js_string ''1''),
           (''symbols'', JArr (map at_place (zip ps [1..5]))), (''words'', JArr [js_word ''w1'' ps 1 1 1])])"

definition slip :: "string \<Rightarrow> bool \<Rightarrow> js" where
  "slip i final = js_observation i 0 final 10 [''a'', ''x'', ''c'', ''d'', ''e'']"

definition slip_created :: "js_error + tracker_config \<times> tracker_state" where
  "slip_created = createReadingTracker (build_index (read_corpus slip_corpus)) None None"

text \<open>The state after the partial observations \<open>ids\<close>.\<close>

definition slip_state :: "string list \<Rightarrow> rat \<Rightarrow> rat \<Rightarrow> tracker_state" where
  "slip_state ids stability combined =
     (let place = (\<lambda>n. \<lparr>loc_surah = 1, loc_ayah = 1, loc_word = 1, loc_symbol = n\<rparr>) in
      \<lparr>initialSymbol = 0, cursorSymbol = 4, committedSymbol = 0, latestSourceRevision = 0,
       observationIds = map lit ids, observationIdOrder = map lit ids, hypothesisHistory = map (\<lambda>_. lit ''0:4'') ids,
       provisionalFinding = None, completedWordIds = [], completedWordIdSet = [],
       snapshot = \<lparr>snap_revision = length ids, snap_observationId = Some (lit (last ids)),
         display_location = place 5, display_isReread = False, display_activeWordId = Some (lit ''w1''),
         commit_location = place 1, commit_completedWordIds = [],
         snap_confidence = Some \<lparr>ev_alignment = fl (8 / 10), ev_stability = stability, ev_lookahead = 1,
           ev_matchedLookaheadCount = 3, ev_margin = 1801439850948199 / 9007199254740992, ev_acoustic = Some 1, ev_combined = combined\<rparr>,
         snap_finding = None\<rparr>\<rparr>)"

definition slip_once :: tracker_state where
  "slip_once = slip_state [''o1''] 0 (5561945539802563 / 9007199254740992)"

definition slip_twice :: tracker_state where
  "slip_twice = slip_state [''o1'', ''o2''] (1 / 2) (6518960460618793 / 9007199254740992)"

lemma slip_corpus_index: "indexCorpus slip_corpus = Inr (build_index (read_corpus slip_corpus))"
proof -
  have "validateCorpus slip_corpus = Inr ()" by code_simp
  then show ?thesis by (simp add: indexCorpus_Inr)
qed

lemma slip_first: "case slip_created of Inl e \<Rightarrow> False
    | Inr (config, st) \<Rightarrow> fst (submit_observation config st (slip ''o1'' False)) = slip_once"
  by code_simp

lemma slip_second: "case slip_created of Inl e \<Rightarrow> False
    | Inr (config, st) \<Rightarrow> fst (submit_observation config slip_once (slip ''o2'' False)) = slip_twice"
  by code_simp

lemma slip_third: "case slip_created of Inl e \<Rightarrow> False
    | Inr (config, st) \<Rightarrow> (case snap_finding (snapshot (fst (submit_observation config slip_twice (slip ''o3'' True)))) of
        None \<Rightarrow> False
      | Some f \<Rightarrow> cf_confirmation f = FinalObservation \<and> cf_actualPhoneme f = lit ''x'' \<and> cf_referenceSymbolId f = lit ''b'')"
  by code_simp

section \<open>Properties\<close>



end
