(* ===== verification/Long_Readings.thy ===== *)
theory Long_Readings
  imports Tracker_Commits
begin

text \<open>
  The position gate of \<open>confidence/score.ts\<close> against the margin \<open>reading-tracker.ts\<close> feeds it.
  The margin is the gap between the best candidate and the second, and the second may be the
  candidate one symbol further on, whose spans share all but one symbol with the best one: the
  longer the reading, the closer it comes.  From 13 phonemes on the gate cannot be passed by an
  exact reading.
\<close>

section \<open>One dropped symbol costs one edit\<close>

lemma run_script_matches:
  "i + n \<le> length xs \<Longrightarrow> j + n \<le> length ys \<Longrightarrow> \<forall>k < n. xs ! (i + k) = ys ! (j + k)
     \<Longrightarrow> run_script xs ys (map (\<lambda>k. OpMatch (int (i + k)) (int (j + k))) [0..<n]) (i, j) = Some (i + n, j + n)"
  by (induction n) (simp_all add: run_script_append)

lemma edit_distance_tl:
  assumes "xs \<noteq> []"
  shows "edit_distance xs (tl xs) (length xs) (length (tl xs)) \<le> 1"
proof -
  let ?ops = "OpInsertion 0 # map (\<lambda>k. OpMatch (int (1 + k)) (int (0 + k))) [0..<length xs - 1]"
  from assms obtain x rest where xs: "xs = x # rest" by (cases xs) auto
  have "run_script xs (tl xs) (map (\<lambda>k. OpMatch (int (1 + k)) (int (0 + k))) [0..<length xs - 1]) (1, 0)
      = Some (1 + (length xs - 1), 0 + (length xs - 1))"
    by (rule run_script_matches) (simp_all add: xs)
  then have "valid_script xs (tl xs) ?ops" by (simp add: valid_script_def xs)
  from valid_script_distance [OF this] show ?thesis by (simp add: script_cost_def xs comp_def)
qed

lemma aligned_tl_score:
  assumes "xs \<noteq> []"
  shows "fl (1 - 1 / of_nat (length xs)) \<le> path_score (aligned_path xs (tl xs))"
proof -
  have "editCount (aligned_path xs (tl xs)) \<le> 1"
    using edit_distance_tl [OF assms] by (simp add: aligned_path_facts(2))
  then have "(of_nat (editCount (aligned_path xs (tl xs))) :: rat) \<le> 1" by simp
  moreover have "max (length xs) (length (tl xs)) = length xs" by simp
  ultimately show ?thesis
    using assms unfolding aligned_path_score Let_def
    by (simp only: length_0_conv if_False) (intro fl_mono diff_left_mono divide_right_mono, simp_all)
qed

section \<open>The next candidate is too close\<close>

lemma neighbour_score:
  assumes "reference_span index i (length actual) = actual" "2 \<le> length actual" "Suc i < length (ix_symbols index)"
  shows "fl (1 - 1 / of_nat (length actual)) \<le> cand_score (candidate_at index actual c com (Suc i))"
proof -
  let ?n = "length (ix_symbols index)"
  have "length (reference_span index i (length actual)) = min (length actual) (?n - i)"
    by (simp add: reference_span_def min.commute)
  then have fits: "length actual \<le> ?n - i" using assms(1) by simp
  obtain k where "length actual = Suc k" using assms(2) by (cases "length actual") auto
  then have "reference_span index (Suc i) (length actual - 1) = tl (reference_span index i (length actual))"
    by (simp add: reference_span_def take_tl drop_Suc drop_tl flip: map_tl)
  then have span: "reference_span index (Suc i) (length actual - 1) = tl actual" using assms(1) by simp
  have "length actual - 1 \<in> set (span_lengths ?n (length actual) (Suc i))"
    using fits assms(2) by (auto simp: span_lengths_def Let_def MAX_REFERENCE_LENGTH_VARIATION_def simp del: upt_Suc)
  then have "aligned_path actual (tl actual) \<in> set (span_paths index actual (Suc i))"
    unfolding span_paths_def using span by force
  with candidate_at_span [OF assms(3), of actual c com] span_wins_score
  have "path_score (aligned_path actual (tl actual)) \<le> cand_score (candidate_at index actual c com (Suc i))" by metis
  moreover have "fl (1 - 1 / of_nat (length actual)) \<le> path_score (aligned_path actual (tl actual))"
    using assms(2) by (intro aligned_tl_score) auto
  ultimately show ?thesis by simp
qed

lemma narrow_margin:
  assumes "fl (1 - 1 / of_nat n) \<le> q" "13 \<le> n" "p \<le> 1"
  shows "max 0 (fl (p - q)) < POSITION_MARGIN_THRESHOLD"
proof -
  have "(13 :: rat) \<le> of_nat n" using assms(2) by (metis of_nat_le_iff of_nat_numeral)
  then have "1 / of_nat n \<le> (1 / 13 :: rat)" by (intro frac_le) simp_all
  then have "fl (1 - 1 / 13) \<le> q" using assms(1) by (intro order_trans [OF fl_mono assms(1)]) simp
  with assms(3) have "fl (p - q) \<le> fl (1 - fl (1 - 1 / 13))" by (intro fl_mono) simp
  moreover have "max 0 (fl (1 - fl (1 - 1 / 13))) < POSITION_MARGIN_THRESHOLD" by code_simp
  ultimately show ?thesis by simp
qed

lemma located_margin_narrow:
  assumes "locateObservation index v cursor com = Inr (Some b, s)"
    "actual = observation_phonemes (read_observation v)" "13 \<le> length actual"
    "reference_span index i (length actual) = actual"
    "{i, Suc i} \<subseteq> set (localPositions index (max 0 (min cursor (int (length (ix_symbols index)) - 1))))"
  shows "locationScoreMargin b s < POSITION_MARGIN_THRESHOLD"
proof -
  let ?c = "max 0 (min cursor (int (length (ix_symbols index)) - 1))"
  let ?cand = "candidate_at index actual ?c com"
  let ?cands = "map ?cand (evaluated_positions index actual ?c com)"
  from assms(1) have v: "validateObservation v = Inr ()"
    by (cases "validateObservation v") (auto simp: locateObservation_def)
  have ne: "actual \<noteq> []" "ix_symbols index \<noteq> []" using assms(3,5) by (auto simp: localPositions_def)
  note pos = evaluated_positions_ok [OF ne(2), of actual ?c com]
  have ranked: "rank_candidates ?cands = (Some b, s)"
    using locate_ranked [OF v assms(2) ne refl, of cursor com] assms(1) by simp
  have mem: "?cand i \<in> set ?cands" "?cand (Suc i) \<in> set ?cands" "Suc i < length (ix_symbols index)"
    using pos assms(5) by auto
  have "distinct ?cands" unfolding distinct_map
    using pos by (auto intro!: inj_on_inverseI [where g = symbolIndex] simp: candidate_at_select)
  have differ: "?cand i \<noteq> ?cand (Suc i)" by (metis candidate_at_select n_not_Suc_n)
  from rank_head [of ?cands] mem(1) obtain b' s' where head: "rank_candidates ?cands = (Some b', s')" "b' \<in> set ?cands"
      "s' = None \<longleftrightarrow> length ?cands = 1" by (metis list.set(1) empty_iff)
  have "length ?cands \<noteq> 1" using mem(1,2) differ by (cases ?cands) auto
  with head ranked obtain q where q: "s = Some q" by auto
  from rank_second [OF \<open>distinct ?cands\<close>] ranked q
  have second: "\<forall>x \<in> set ?cands. x \<noteq> b \<longrightarrow> cand_score x \<le> cand_score q" using compare_score by blast
  have best: "cand_score b \<le> 1"
  proof -
    from head(1,2) ranked obtain j where "j < length (ix_symbols index)" "b = ?cand j" using pos by auto
    with candidate_at_span [of j index actual ?c com] aligned_path_score_range [THEN conjunct2] show ?thesis
      by (auto simp: span_paths_def)
  qed
  have len: "length actual < 2 ^ 20" using observation_phonemes_bound v assms(2) by blast
  have near: "fl (1 - 1 / of_nat (length actual)) \<le> cand_score (?cand (Suc i))"
    using neighbour_score [OF assms(4) _ mem(3)] assms(3) by simp
  have "cand_score (?cand i) = 1" using verbatim_score [OF _ ne(1) len assms(4)] mem(3) by simp
  then have exact: "fl (1 - 1 / of_nat (length actual)) \<le> cand_score (?cand i)" by (simp add: fl_le_1)
  have "fl (1 - 1 / of_nat (length actual)) \<le> cand_score q"
  proof (cases "?cand i = b")
    case True
    with differ have "?cand (Suc i) \<noteq> b" by blast
    with second mem(2) have "cand_score (?cand (Suc i)) \<le> cand_score q" by blast
    with near show ?thesis by (rule order_trans)
  next
    case False
    with second mem(1) have "cand_score (?cand i) \<le> cand_score q" by blast
    with exact show ?thesis by (rule order_trans)
  qed
  from narrow_margin [OF this assms(3) best] show ?thesis by (simp add: locationScoreMargin_def q)
qed

lemma narrow_margin_gate:
  "locationScoreMargin cand s < POSITION_MARGIN_THRESHOLD \<Longrightarrow> \<not> passesPositionGate (score_candidate obs cand s history)"
  by (auto simp: passesPositionGate_def score_candidate_def scoreConfidence_def clampUnit_def Let_def locationScoreMargin_def)

text \<open>What the display and the commit of two states share.\<close>

definition same_place :: "tracker_state \<Rightarrow> tracker_state \<Rightarrow> bool" where
  "same_place st st' \<longleftrightarrow> cursorSymbol st' = cursorSymbol st \<and> committedSymbol st' = committedSymbol st
     \<and> completedWordIds st' = completedWordIds st
     \<and> display_location (getSnapshot st') = display_location (getSnapshot st)
     \<and> display_isReread (getSnapshot st') = display_isReread (getSnapshot st)
     \<and> display_activeWordId (getSnapshot st') = display_activeWordId (getSnapshot st)"

lemma processed_confidence:
  "process_candidate config obs located st = (st', d, conf, f)
     \<Longrightarrow> conf = map_option (\<lambda>cand. score_candidate obs cand (snd located) (hypothesisHistory st)) (fst located)"
  by (auto simp: process_candidate_def Let_def split: option.splits prod.splits)

lemma submitted_confidence:
  assumes "submit_observation config st v = (st', r)" "validateObservation v = Inr ()"
    "observationId (read_observation v) \<notin> set (observationIds st)"
    "\<not> sourceRevision (read_observation v) < latestSourceRevision st"
    "locateObservation (tc_corpus config) v (int (cursorSymbol st)) (int (committedSymbol st)) = Inr (b, s)"
  shows "snap_confidence (snapshot st')
    = map_option (\<lambda>cand. score_candidate (read_observation v) cand s (hypothesisHistory st)) b"
proof -
  let ?obs = "read_observation v"
  let ?st1 = "(rememberObservationId (observationId ?obs) st)\<lparr>latestSourceRevision := sourceRevision ?obs\<rparr>"
  have same: "cursorSymbol ?st1 = cursorSymbol st" "committedSymbol ?st1 = committedSymbol st"
      "hypothesisHistory ?st1 = hypothesisHistory st"
    by (simp_all add: rememberObservationId_def Let_def)
  obtain st2 dl dr dw conf f where proc: "process_candidate config ?obs (b, s) ?st1 = (st2, (dl, dr, dw), conf, f)"
    by (metis prod_cases4 prod_cases3)
  have "snap_confidence (snapshot st') = conf"
    using assms(1,2,3,4) proc assms(5) unfolding submit_observation_def Let_def same by auto
  with processed_confidence [OF proc] same(3) show ?thesis by simp
qed

lemma ungated_stays:
  assumes "tracker_ok c config st" "submit_observation config st v = (st', r)"
    "\<And>b s ev. validateObservation v = Inr ()
       \<Longrightarrow> locateObservation (tc_corpus config) v (int (cursorSymbol st)) (int (committedSymbol st)) = Inr (Some b, s)
       \<Longrightarrow> \<not> passesPositionGate (score_candidate (read_observation v) b s (hypothesisHistory st))"
  shows "same_place st st'"
proof (cases "validateObservation v = Inr () \<and> observationId (read_observation v) \<notin> set (observationIds st)
    \<and> \<not> sourceRevision (read_observation v) < latestSourceRevision st")
  case True
  from submit_cases [OF assms(1), of v] True assms(2) have "accepted c config st v st'" by auto
  then have gated: "gated st st' (display_location (snapshot st'), display_isReread (snapshot st'), display_activeWordId (snapshot st'))
      (snap_confidence (snapshot st'))" by (simp add: accepted_def)
  obtain b s where loc: "locateObservation (tc_corpus config) v (int (cursorSymbol st)) (int (committedSymbol st)) = Inr (b, s)"
    using True locate_Inr by metis
  have "case snap_confidence (snapshot st') of Some ev \<Rightarrow> \<not> passesPositionGate ev | None \<Rightarrow> True"
    using submitted_confidence [OF assms(2) _ _ _ loc] True assms(3) loc by (cases b) auto
  with gated show ?thesis by (auto simp: gated_def same_place_def getSnapshot_def split: option.splits)
next
  case False
  from submit_cases [OF assms(1), of v] False assms(2) have "st' = st" by (auto split: sum.splits if_splits)
  then show ?thesis by (simp add: same_place_def)
qed

section \<open>Properties\<close>

text \<open>C16: from 13 phonemes on the position gate holds back an exact reading.  When the observed
  phonemes are the corpus symbols from position \<open>i\<close> on, and both \<open>i\<close> and the position after it are
  searched, the tracker stays where it was, final observation or not: no cursor or display moves
  and no word is committed, although the documentation of the gates asks only for an alignment and
  a margin, and observations may hold 128 phonemes.\<close>

theorem long_exact_readings_move_nothing:
  assumes "reachable v config st" "submit_observation config st obs = (st', r)"
    "13 \<le> length (observation_phonemes (read_observation obs))"
    "reference_span (tc_corpus config) i (length (observation_phonemes (read_observation obs)))
       = observation_phonemes (read_observation obs)"
    "{i, Suc i} \<subseteq> set (localPositions (tc_corpus config) (int (cursorSymbol st)))"
  shows "same_place st st'"
proof -
  have ok: "tracker_ok (read_corpus v) config st" using reachable_ok [OF assms(1)] .
  then have "cursorSymbol st < length (ix_symbols (tc_corpus config))"
    by (simp add: tracker_ok_def core_ok_def config_ok_def)
  then have cursor: "max 0 (min (int (cursorSymbol st)) (int (length (ix_symbols (tc_corpus config))) - 1)) = int (cursorSymbol st)"
    by simp
  show ?thesis
    by (rule ungated_stays [OF ok assms(2)])
      (rule narrow_margin_gate, erule located_margin_narrow [OF _ refl assms(3,4)], simp only: cursor assms(5))
qed

text \<open>A word of 13 symbols before a word of one, and an exact final reading of the first.\<close>

definition long_corpus :: js where
  "long_corpus =
     (let ps = [''a'', ''b'', ''c'', ''d'', ''e'', ''f'', ''g'', ''h'', ''i'', ''j'', ''k'', ''l'', ''m''];
          at_place = (\<lambda>(p, n). js_symbol p p (js_location 1 1 1 n))
      in JObj [(''corpusId'', js_string ''c''), (''revision'', js_string ''1''),
           (''symbols'', JArr (map at_place (zip ps [1..13]) @ [js_symbol ''z'' ''z'' (js_location 1 1 2 1)])),
           (''words'', JArr [js_word ''w1'' ps 1 1 1, js_word ''w2'' [''z''] 1 1 2])])"

definition long_reading :: js where
  "long_reading = js_observation ''o1'' 0 True 10
     [''a'', ''b'', ''c'', ''d'', ''e'', ''f'', ''g'', ''h'', ''i'', ''j'', ''k'', ''l'', ''m'']"

lemma long_corpus_valid: "validateCorpus long_corpus = Inr ()"
  by code_simp

text \<open>The n-gram index plays no part in the local search.\<close>

lemma localPositions_bare:
  "localPositions (build_index c) cur = localPositions
     \<lparr>ix_symbolsById = [], ix_wordsById = [], ix_symbols = map copySymbol (corpus_symbols c), ix_wordSymbolRanges = [],
      ix_ayahSymbolRanges = js_map_of (ayah_ranges (map copySymbol (corpus_symbols c)) 0 []), ix_phonemeNgramPostings = []\<rparr> cur"
  by (simp only: localPositions_def build_index_def Let_def indexed_corpus.simps)

lemma create_default:
  assumes "ix_symbols index \<noteq> []"
  obtains config where "createReadingTracker index None None
      = Inr (config, initial_state 0 0 (sym_location (ix_symbols index ! 0)))" "tc_corpus config = index"
  using assms by (cases "ix_symbols index") (auto simp: createReadingTracker_def symbolIndexAt_def Let_def)

lemma long_corpus_facts:
  "corpus_symbols (read_corpus long_corpus) \<noteq> []"
  "map sym_phoneme (take 13 (map copySymbol (corpus_symbols (read_corpus long_corpus))))
     = observation_phonemes (read_observation long_reading)"
  "list_all (\<lambda>i. i \<in> set (localPositions (build_index (read_corpus long_corpus)) 0)) [0, 1]"
  "isFinal (read_observation long_reading)" "validateObservation long_reading = Inr ()"
  "length (observation_phonemes (read_observation long_reading)) = 13"
proof -
  show "list_all (\<lambda>i. i \<in> set (localPositions (build_index (read_corpus long_corpus)) 0)) [0, 1]"
    unfolding localPositions_bare by code_simp
qed code_simp+

theorem long_exact_readings_move_nothing_witness:
  "\<exists>config st. reachable long_corpus config st \<and> reference_span (tc_corpus config) 0 13 = observation_phonemes (read_observation long_reading)
     \<and> isFinal (read_observation long_reading) \<and> validateObservation long_reading = Inr ()
     \<and> completedWordIds (fst (submit_observation config st long_reading)) = []
     \<and> cursorSymbol (fst (submit_observation config st long_reading)) = 0"
proof -
  let ?ix = "build_index (read_corpus long_corpus)"
  have ix: "ix_symbols ?ix = map copySymbol (corpus_symbols (read_corpus long_corpus))"
    by (simp add: build_index_def Let_def)
  obtain config where created: "createReadingTracker ?ix None None
      = Inr (config, initial_state 0 0 (sym_location (ix_symbols ?ix ! 0)))" "tc_corpus config = ?ix"
    using create_default [of ?ix] long_corpus_facts(1) ix by auto
  let ?st = "initial_state 0 0 (sym_location (ix_symbols ?ix ! 0))"
  have "reachable long_corpus config ?st"
    by (rule reachable.created [OF _ created(1)]) (simp add: indexCorpus_def long_corpus_valid)
  moreover have "reference_span (tc_corpus config) 0 13 = observation_phonemes (read_observation long_reading)"
    unfolding created(2) reference_span_def ix drop_0 using long_corpus_facts(2) .
  moreover have "cursorSymbol ?st = 0" "completedWordIds ?st = []" by (simp_all add: initial_state_def)
  moreover have "{0, Suc 0} \<subseteq> set (localPositions (tc_corpus config) 0)"
    using long_corpus_facts(3) created(2) by simp
  ultimately show ?thesis
    using long_exact_readings_move_nothing [OF _ surjective_pairing, of long_corpus config ?st long_reading 0]
      long_corpus_facts(4-6)
    by (intro exI [of _ config] exI [of _ ?st]) (simp add: same_place_def)
qed

end
