(* ===== verification/Plain_Json.thy ===== *)
theory Plain_Json
  imports Js_Value
begin

text \<open>
  \<open>isPlainJsonValue\<close> of \<open>packages/protocol/src/errors.ts\<close>, which decides without recursion and
  without running getters whether a value is lossless JSON.  Here values live in a heap of objects
  with prototypes, own property descriptors and references, so that cycles, shared substructures,
  accessors, symbol keys and exotic objects are inputs like any other.

  The theory shows that the loop returns on every heap and answers yes exactly for the values an
  inductive specification calls plain: scalars, and containers whose own properties are the data
  of an array or object literal and lead to plain values.  Cyclic values are not plain, shared
  ones are.
\<close>

section \<open>Values in a heap\<close>

datatype heap_value =
    HUndefined
  | HNull
  | HBool bool
  | HNum js_num
  | HStr jstring
  | HOther
  | HRef nat

datatype property_key = KString jstring | KSymbol nat

text \<open>A property descriptor; the value is absent for an accessor.\<close>

record property_descriptor =
  desc_enumerable :: bool
  desc_value :: "heap_value option"

datatype object_prototype = ArrayPrototype | ObjectPrototype | NullPrototype | OtherPrototype

text \<open>An object: \<open>ho_throws\<close> marks a proxy whose traps throw; the own keys of an array hold
  \<open>length\<close> too.\<close>

record heap_object =
  ho_isArray :: bool
  ho_prototype :: object_prototype
  ho_length :: nat
  ho_properties :: "(property_key \<times> property_descriptor) list"
  ho_throws :: bool

type_synonym heap = "heap_object list"

section \<open>The check\<close>

definition enumerable_data :: "property_descriptor option \<Rightarrow> heap_value option" where
  "enumerable_data d = (case d of None \<Rightarrow> None
     | Some d \<Rightarrow> if desc_enumerable d then desc_value d else None)"

definition plainArrayValues :: "heap_object \<Rightarrow> heap_value list option" where
  "plainArrayValues ob =
     (if ho_prototype ob \<noteq> ArrayPrototype then None
      else let keys = map fst (ho_properties ob) in
        if length keys \<noteq> ho_length ob + 1 \<or> KString (lit ''length'') \<notin> set keys then None
        else those (map (\<lambda>i. enumerable_data (map_of (ho_properties ob) (KString (dec i)))) [0..<ho_length ob]))"

definition plainObjectValues :: "heap_object \<Rightarrow> heap_value list option" where
  "plainObjectValues ob =
     (if ho_prototype ob \<noteq> ObjectPrototype \<and> ho_prototype ob \<noteq> NullPrototype then None
      else those (map (\<lambda>k. case k of KSymbol n \<Rightarrow> None
             | KString s \<Rightarrow> enumerable_data (map_of (ho_properties ob) k)) (map fst (ho_properties ob))))"

text \<open>The children of a container, or none where the code answers \<open>false\<close>, exceptions included.\<close>

definition container_children :: "heap \<Rightarrow> nat \<Rightarrow> heap_value list option" where
  "container_children h a =
     (if length h \<le> a \<or> ho_throws (h ! a) then None
      else if ho_isArray (h ! a) then plainArrayValues (h ! a) else plainObjectValues (h ! a))"

datatype traversal_frame = Visiting heap_value | Exiting nat

partial_function (option) plain_loop :: "heap \<Rightarrow> traversal_frame list \<Rightarrow> nat list \<Rightarrow> bool option" where
  "plain_loop h stack active = (case stack of
       [] \<Rightarrow> Some True
     | Exiting a # rest \<Rightarrow> plain_loop h rest (removeAll a active)
     | Visiting v # rest \<Rightarrow> (case v of
           HNull \<Rightarrow> plain_loop h rest active
         | HStr s \<Rightarrow> plain_loop h rest active
         | HBool b \<Rightarrow> plain_loop h rest active
         | HNum n \<Rightarrow> if number_isFinite n then plain_loop h rest active else Some False
         | HUndefined \<Rightarrow> Some False
         | HOther \<Rightarrow> Some False
         | HRef a \<Rightarrow>
             if a \<in> set active then Some False
             else (case container_children h a of
                 None \<Rightarrow> Some False
               | Some children \<Rightarrow> plain_loop h (map Visiting children @ Exiting a # rest) (a # active))))"

definition isPlainJsonValue :: "heap \<Rightarrow> heap_value \<Rightarrow> bool option" where
  "isPlainJsonValue h v = plain_loop h [Visiting v] []"

definition assertPlainJsonObject :: "heap \<Rightarrow> heap_value \<Rightarrow> string \<Rightarrow> js_error + unit" where
  "assertPlainJsonObject h v label = (case v of
       HRef a \<Rightarrow> if a < length h \<and> ho_isArray (h ! a) then fail (label @ '' must be a cycle-free plain JSON object'')
         else (case isPlainJsonValue h v of
             None \<Rightarrow> Inl Diverged
           | Some True \<Rightarrow> Inr ()
           | Some False \<Rightarrow> fail (label @ '' must be a cycle-free plain JSON object''))
     | _ \<Rightarrow> fail (label @ '' must be a cycle-free plain JSON object''))"

section \<open>Specification\<close>

text \<open>Plain values, inductively: a derivation is finite, so nothing cyclic is plain.\<close>

inductive plain :: "heap \<Rightarrow> heap_value \<Rightarrow> bool" for h where
  plain_null: "plain h HNull"
| plain_string: "plain h (HStr s)"
| plain_boolean: "plain h (HBool b)"
| plain_number: "number_isFinite n \<Longrightarrow> plain h (HNum n)"
| plain_container: "container_children h a = Some children \<Longrightarrow> (\<And>c. c \<in> set children \<Longrightarrow> plain h c)
     \<Longrightarrow> plain h (HRef a)"

inductive_cases plain_refE: "plain h (HRef a)"
inductive_simps plain_scalars [simp]: "plain h HNull" "plain h (HStr s)" "plain h (HBool b)" "plain h (HNum n)"
  "plain h HUndefined" "plain h HOther"

text \<open>The recursive check the loop unrolls: the active containers are an argument.\<close>

lemma active_measure:
  assumes "a \<notin> set active" "a < n"
  shows "n - card (set (a # active) \<inter> {..<n}) < n - card (set active \<inter> {..<n})"
proof -
  have "set (a # active) \<inter> {..<n} = insert a (set active \<inter> {..<n})" using assms(2) by auto
  moreover have "card (insert a (set active \<inter> {..<n})) = Suc (card (set active \<inter> {..<n}))"
    using assms(1) by simp
  moreover have "card (insert a (set active \<inter> {..<n})) \<le> card {..<n}"
    using assms(2) by (intro card_mono) auto
  ultimately show ?thesis by simp
qed

lemma container_children_less: "container_children h a = Some children \<Longrightarrow> a < length h"
  by (auto simp: container_children_def split: if_splits)

function visit :: "heap \<Rightarrow> nat list \<Rightarrow> heap_value \<Rightarrow> bool" where
  "visit h active (HRef a) = (if a \<in> set active then False else (case container_children h a of
       None \<Rightarrow> False | Some children \<Rightarrow> (\<forall>c \<in> set children. visit h (a # active) c)))"
| "visit h active HUndefined = False"
| "visit h active HOther = False"
| "visit h active HNull = True"
| "visit h active (HStr s) = True"
| "visit h active (HBool b) = True"
| "visit h active (HNum n) = number_isFinite n"
  by pat_completeness auto
termination
  by (relation "measure (\<lambda>(h, active, v). length h - card (set active \<inter> {..<length h}))")
    (use active_measure container_children_less in \<open>auto simp del: set_simps\<close>)

lemma plain_loop_Nil [simp]: "plain_loop h [] active = Some True"
  by (subst plain_loop.simps) simp

lemma plain_loop_Exiting [simp]: "plain_loop h (Exiting a # rest) active = plain_loop h rest (removeAll a active)"
  by (subst plain_loop.simps) simp

lemma plain_loop_children:
  assumes "\<And>c rest. c \<in> set children \<Longrightarrow> plain_loop h (Visiting c # rest) active
      = (if visit h active c then plain_loop h rest active else Some False)"
  shows "plain_loop h (map Visiting children @ rest) active
      = (if \<forall>c \<in> set children. visit h active c then plain_loop h rest active else Some False)"
  using assms by (induction children) auto

lemma plain_loop_visit:
  "plain_loop h (Visiting v # rest) active
     = (if visit h active v then plain_loop h rest active else Some False)"
proof (induction h active v arbitrary: rest rule: visit.induct)
  case (1 h active a)
  show ?case
  proof (cases "a \<in> set active")
    case True
    then show ?thesis by (subst plain_loop.simps) simp
  next
    case False
    show ?thesis
    proof (cases "container_children h a")
      case None
      with False show ?thesis by (subst plain_loop.simps) simp
    next
      case (Some children)
      from 1 [OF False Some] have loop: "plain_loop h (map Visiting children @ Exiting a # rest) (a # active)
          = (if \<forall>c \<in> set children. visit h (a # active) c
             then plain_loop h (Exiting a # rest) (a # active) else Some False)"
        by (rule plain_loop_children)
      have "plain_loop h (Visiting (HRef a) # rest) active
          = plain_loop h (map Visiting children @ Exiting a # rest) (a # active)"
        using False Some by (subst plain_loop.simps) simp
      with loop False Some show ?thesis by simp
    qed
  qed
qed (subst plain_loop.simps; simp)+

section \<open>The check decides plainness\<close>

inductive reaches :: "heap \<Rightarrow> heap_value \<Rightarrow> nat \<Rightarrow> bool" for h where
  reaches_self: "reaches h (HRef a) a"
| reaches_child: "container_children h b = Some children \<Longrightarrow> c \<in> set children \<Longrightarrow> reaches h c a
     \<Longrightarrow> reaches h (HRef b) a"

lemma reaches_trans:
  "reaches h c b \<Longrightarrow> container_children h b = Some children \<Longrightarrow> d \<in> set children \<Longrightarrow> reaches h d a
     \<Longrightarrow> reaches h c a"
  by (induction rule: reaches.induct) (auto intro: reaches.intros)

lemma plain_acyclic:
  "plain h v \<Longrightarrow> v = HRef a \<Longrightarrow> container_children h a = Some children \<Longrightarrow> c \<in> set children \<Longrightarrow> \<not> reaches h c a"
proof (induction arbitrary: a children c rule: plain.induct)
  case (plain_container b kids)
  then have eq: "b = a" "kids = children" by auto
  show ?case
  proof
    assume "reaches h c a"
    then show False
    proof cases
      case reaches_self
      with plain_container.IH [of c a children c] plain_container.prems eq show False
        by (auto intro: reaches.reaches_self)
    next
      case (reaches_child d grandkids e)
      have "reaches h e d"
        using reaches_trans [OF reaches_child(4) plain_container.prems(2,3), of d] reaches_child(1)
        by (auto intro: reaches.reaches_self)
      with plain_container.IH [of c d grandkids e] plain_container.prems(3) eq reaches_child show False by simp
    qed
  qed
qed auto

lemma visit_plain: "visit h active v \<Longrightarrow> plain h v"
  by (induction h active v rule: visit.induct) (auto intro: plain.intros split: if_splits option.splits)

lemma plain_visit: "plain h v \<Longrightarrow> (\<And>a. a \<in> set active \<Longrightarrow> \<not> reaches h v a) \<Longrightarrow> visit h active v"
proof (induction arbitrary: active rule: plain.induct)
  case (plain_container a children)
  have "visit h (a # active) c" if c: "c \<in> set children" for c
  proof (rule plain_container.IH [OF c])
    fix b assume "b \<in> set (a # active)"
    moreover have "\<not> reaches h c a"
      using plain_acyclic [OF plain.plain_container [OF plain_container.hyps(1)] refl plain_container.hyps(1) c]
        plain_container.hyps(2) by blast
    ultimately show "\<not> reaches h c b"
      using plain_container.prems plain_container.hyps(1) c by (auto intro: reaches.intros)
  qed
  then show ?case using plain_container.prems plain_container.hyps(1) by (auto intro: reaches.intros)
qed auto

lemma isPlainJsonValue_plain: "isPlainJsonValue h v = Some (plain h v)"
  using visit_plain plain_visit [of h v "[]"] by (auto simp: isPlainJsonValue_def plain_loop_visit)

end
