(* ===== verification/Protocol.thy ===== *)
theory Protocol
  imports Plain_Json Reading_Tracker
begin

text \<open>
  \<open>packages/protocol/src\<close> (\<open>version.ts\<close>, \<open>errors.ts\<close>, \<open>messages.ts\<close>, \<open>schemas.ts\<close>,
  \<open>validate.ts\<close>) and \<open>packages/server/src/trusted-error.ts\<close>: the typed errors, the envelopes and
  the assertions at the boundary.  The schema validator Ajv is third-party code, an argument
  \<open>ajv\<close> that maps a schema and a value to the list of its issues, empty when the value is valid.
\<close>

section \<open>Errors\<close>

definition PROTOCOL_VERSION :: int where "PROTOCOL_VERSION = 1"

datatype qaraa_error_code =
  INVALID_CORPUS | INVALID_OBSERVATION | STALE_REVISION | UNSUPPORTED_PROTOCOL | SESSION_NOT_FOUND | INTERNAL_ERROR

text \<open>A protocol error; \<open>qe_trusted\<close> tells whether it is a \<open>TrustedProtocolError\<close>.\<close>

record qaraa_error =
  qe_code :: qaraa_error_code
  qe_message :: jstring
  qe_retryable :: bool
  qe_details :: js
  qe_trusted :: bool

text \<open>What the server's code can throw: a protocol error, an error of the core, an error of the store.\<close>

datatype server_error =
    ProtocolFailure qaraa_error
  | CoreFailure js_error
  | RecordNotFound jstring
  | RecordExists jstring

text \<open>The check of \<open>Plain_Json\<close> on values without sharing.\<close>

fun json_plain :: "js \<Rightarrow> bool" where
  "json_plain JUndefined = False"
| "json_plain JNull = True"
| "json_plain (JBool b) = True"
| "json_plain (JNum n) = number_isFinite n"
| "json_plain (JStr s) = True"
| "json_plain JFun = False"
| "json_plain (JArr xs) = list_all json_plain xs"
| "json_plain (JObj fs) = list_all (\<lambda>f. json_plain (snd f)) fs"

definition json_object :: "js \<Rightarrow> bool" where
  "json_object v \<longleftrightarrow> \<not> isArray v \<and> isRecord v \<and> json_plain v"

definition details_error :: js_error where
  "details_error = TypeError (lit ''QARAA protocol error details must be a cycle-free plain JSON object'')"

text \<open>\<open>throw new QaraaProtocolError(...)\<close>: what is thrown, the constructor's own exception included.\<close>

definition protocolError :: "bool \<Rightarrow> qaraa_error_code \<Rightarrow> jstring \<Rightarrow> bool \<Rightarrow> js \<Rightarrow> server_error" where
  "protocolError trusted code message retryable details =
     (if json_object details
      then ProtocolFailure \<lparr>qe_code = code, qe_message = message, qe_retryable = retryable,
             qe_details = details, qe_trusted = trusted\<rparr>
      else CoreFailure details_error)"

abbreviation trustedError :: "qaraa_error_code \<Rightarrow> string \<Rightarrow> bool \<Rightarrow> js \<Rightarrow> server_error" where
  "trustedError code message \<equiv> protocolError True code (lit message)"

definition trustProtocolError :: "qaraa_error \<Rightarrow> server_error" where
  "trustProtocolError e = (if qe_trusted e then ProtocolFailure e
     else protocolError True (qe_code e) (qe_message e) (qe_retryable e) (qe_details e))"

record error_envelope =
  env_protocolVersion :: int
  env_requestId :: jstring
  env_code :: qaraa_error_code
  env_message :: jstring
  env_retryable :: bool
  env_details :: js

definition toEnvelope :: "qaraa_error \<Rightarrow> jstring \<Rightarrow> js_error + error_envelope" where
  "toEnvelope e requestId =
     (if json_object (qe_details e)
      then Inr \<lparr>env_protocolVersion = PROTOCOL_VERSION, env_requestId = requestId, env_code = qe_code e,
             env_message = qe_message e, env_retryable = qe_retryable e, env_details = qe_details e\<rparr>
      else Inl details_error)"

section \<open>Events\<close>

datatype qaraa_event =
    SessionCreated (ev_version: int) (ev_requestId: jstring) (ev_sessionId: jstring) (ev_snapshot: reading_snapshot)
  | SnapshotUpdated (ev_version: int) (ev_requestId: jstring) (ev_sessionId: jstring) (ev_snapshot: reading_snapshot)
  | SessionDeleted (ev_version: int) (ev_requestId: jstring) (ev_sessionId: jstring)

section \<open>Validators\<close>

datatype protocol_schema = CorpusSchema | ObservationSchema | SnapshotSchema | CommandSchema | EventSchema | ErrorSchema

record schema_issue =
  si_instancePath :: jstring
  si_keyword :: jstring
  si_message :: "jstring option"

type_synonym ajv = "protocol_schema \<Rightarrow> js \<Rightarrow> schema_issue list"

definition NON_JSON_ERROR :: schema_issue where
  "NON_JSON_ERROR = \<lparr>si_instancePath = [], si_keyword = lit ''plainJson'',
     si_message = Some (lit ''must be a cycle-free plain JSON value'')\<rparr>"

text \<open>A compiled validator behind the JSON preflight: its issues.\<close>

definition withJsonPreflight :: "ajv \<Rightarrow> protocol_schema \<Rightarrow> js \<Rightarrow> schema_issue list" where
  "withJsonPreflight ajv schema v = (if \<not> json_plain v then [NON_JSON_ERROR] else ajv schema v)"

definition schemaDetails :: "schema_issue list \<Rightarrow> js" where
  "schemaDetails issues = JObj [(''kind'', js_string ''schema-validation''),
     (''errors'', JArr (map (\<lambda>e. JObj [(''instancePath'', JStr (si_instancePath e)), (''keyword'', JStr (si_keyword e)),
        (''message'', JStr (case si_message e of Some m \<Rightarrow> m | None \<Rightarrow> lit ''Schema validation failed''))]) issues))]"

definition domain_details :: js where
  "domain_details = JObj [(''kind'', js_string ''domain-validation'')]"

definition assertValidCorpus :: "ajv \<Rightarrow> js \<Rightarrow> server_error + unit" where
  "assertValidCorpus ajv v =
     (let issues = withJsonPreflight ajv CorpusSchema v in
      if issues \<noteq> [] then Inl (protocolError False INVALID_CORPUS (lit ''Corpus payload is invalid'') False (schemaDetails issues))
      else
        let symbolIds = map (\<lambda>s. the_str (js_get s ''id'')) (the_elems (js_get v ''symbols''));
            ws = the_elems (js_get v ''words'');
            wordIds = map (\<lambda>w. the_str (js_get w ''id'')) ws
        in if \<not> distinct symbolIds \<or> \<not> distinct wordIds \<or> list_ex (\<lambda>i. js_trim i = []) symbolIds
              \<or> list_ex (\<lambda>w. let references = map the_str (the_elems (js_get w ''symbolIds'')) in
                   js_trim (the_str (js_get w ''id'')) = [] \<or> \<not> distinct references
                   \<or> list_ex (\<lambda>r. js_trim r = [] \<or> r \<notin> set symbolIds) references) ws
           then Inl (protocolError False INVALID_CORPUS (lit ''Corpus payload is invalid'') False domain_details)
           else Inr ())"

definition assertObservationDomain :: "js \<Rightarrow> server_error + unit" where
  "assertObservationDomain v = (case validateObservation v of
       Inr _ \<Rightarrow> Inr ()
     | Inl (TypeError m) \<Rightarrow>
         Inl (protocolError False INVALID_OBSERVATION (lit ''Observation payload is invalid'') False domain_details)
     | Inl e \<Rightarrow> Inl (CoreFailure e))"

definition assertValidObservation :: "ajv \<Rightarrow> js \<Rightarrow> server_error + unit" where
  "assertValidObservation ajv v =
     (let issues = withJsonPreflight ajv ObservationSchema v in
      if issues \<noteq> [] then Inl (protocolError False INVALID_OBSERVATION (lit ''Observation payload is invalid'') False (schemaDetails issues))
      else assertObservationDomain v)"

definition assertValidCommand :: "ajv \<Rightarrow> js \<Rightarrow> server_error + unit" where
  "assertValidCommand ajv v =
     (let issues = withJsonPreflight ajv CommandSchema v in
      if issues \<noteq> []
      then Inl (protocolError False
             (if isRecord v \<and> js_get v ''type'' = js_string ''observation.submit'' then INVALID_OBSERVATION else INVALID_CORPUS)
             (lit ''Command payload is invalid'') False (schemaDetails issues))
      else if js_get v ''type'' = js_string ''observation.submit'' then assertObservationDomain v
      else Inr ())"

section \<open>Every error can be sent\<close>

lemma domain_details_json [simp]: "json_object domain_details"
  by (simp add: domain_details_def json_object_def js_string_def)

lemma schemaDetails_json [simp]: "json_object (schemaDetails issues)"
  by (simp add: schemaDetails_def json_object_def js_string_def list_all_iff)

lemma protocolError_Failure [simp]:
  "protocolError trusted code message retryable details = ProtocolFailure e
     \<longleftrightarrow> json_object details \<and> e = \<lparr>qe_code = code, qe_message = message, qe_retryable = retryable,
             qe_details = details, qe_trusted = trusted\<rparr>"
  by (auto simp: protocolError_def)

text \<open>An error whose details are JSON, as every constructed error's are.\<close>

definition sendable :: "qaraa_error \<Rightarrow> bool" where
  "sendable e \<longleftrightarrow> json_object (qe_details e)"

lemma protocolError_sendable: "protocolError trusted code message retryable details = ProtocolFailure e \<Longrightarrow> sendable e"
  by (auto simp: sendable_def)

lemma trustProtocolError_eq: "sendable e \<Longrightarrow> trustProtocolError e = ProtocolFailure (e\<lparr>qe_trusted := True\<rparr>)"
  by (simp add: trustProtocolError_def sendable_def protocolError_def)

lemma toEnvelope_sendable: "sendable e \<Longrightarrow> \<exists>env. toEnvelope e i = Inr env \<and> env_code env = qe_code e
    \<and> env_message env = qe_message e \<and> env_details env = qe_details e \<and> env_requestId env = i"
  by (simp add: toEnvelope_def sendable_def)

end
