(* ===== verification/Domain_Errors.thy ===== *)
theory Domain_Errors
  imports Protocol Corpus_Index
begin

text \<open>
  The error table of \<open>packages/server/src/session-service.ts\<close> (lines 66 to 201): the server turns a
  \<open>TypeError\<close> of the core into a protocol error only if its message is in a table of anchored
  patterns; any other exception becomes an internal error further out.

  The theory shows that the tables are complete: every exception the core's validators throw is
  covered, up to a missing-symbol identifier with a line terminator, which \<open>.\<close> does not match
  and which the preceding protocol check refuses.
\<close>

section \<open>Patterns\<close>

text \<open>The regular expressions the tables use: literals, alternatives, \<open>\<close>\<open>d+\<close> and \<open>.+\<close>.\<close>

datatype message_part = Text string | Choice "string list" | Digits | AnyText

definition line_terminator :: "16 word \<Rightarrow> bool" where
  "line_terminator c \<longleftrightarrow> c \<in> set [10, 13, 0x2028, 0x2029]"

definition is_digit :: "16 word \<Rightarrow> bool" where
  "is_digit c \<longleftrightarrow> 48 \<le> unat c \<and> unat c < 58"

fun matches :: "message_part list \<Rightarrow> jstring \<Rightarrow> bool" where
  "matches [] s \<longleftrightarrow> s = []"
| "matches (Text w # ps) s \<longleftrightarrow> take (length w) s = lit w \<and> matches ps (drop (length w) s)"
| "matches (Choice ws # ps) s \<longleftrightarrow>
     list_ex (\<lambda>w. take (length w) s = lit w \<and> matches ps (drop (length w) s)) ws"
| "matches (Digits # ps) s \<longleftrightarrow>
     list_ex (\<lambda>n. list_all is_digit (take n s) \<and> matches ps (drop n s)) [1..<length s + 1]"
| "matches (AnyText # ps) s \<longleftrightarrow>
     list_ex (\<lambda>n. list_all (\<lambda>c. \<not> line_terminator c) (take n s) \<and> matches ps (drop n s)) [1..<length s + 1]"

definition CORPUS_VALIDATION_MESSAGES :: "message_part list list" where
  "CORPUS_VALIDATION_MESSAGES = [
     [Text ''corpus must be an object''],
     [Text ''corpus '', Choice [''id'', ''revision''], Text '' must be a non-empty string''],
     [Text ''corpus symbols and words must be arrays''],
     [Text ''symbol must be an object''],
     [Text ''symbol '', Choice [''id'', ''phoneme''], Text '' must be a non-empty string''],
     [Text ''symbol text must be a string''],
     [Text ''symbol location'', Choice ['''', ''.surah'', ''.ayah'', ''.word'', ''.symbol''], Text '' must be '',
        Choice [''an address'', ''a positive integer'']],
     [Text ''duplicate symbol id''],
     [Text ''symbol locations must be strictly monotonic''],
     [Text ''word must be an object''],
     [Text ''word id must be a non-empty string''],
     [Text ''word text must be a string''],
     [Text ''word must reference at least one symbol''],
     [Text ''word symbol id must be a non-empty string''],
     [Text ''word location'', Choice ['''', ''.surah'', ''.ayah'', ''.word''], Text '' must be '',
        Choice [''an address'', ''a positive integer'']],
     [Text ''duplicate word id''],
     [Text ''word locations must be strictly monotonic''],
     [Text ''word references missing symbol: '', AnyText],
     [Text ''word symbols must not span multiple ayat''],
     [Text ''word symbols must match the word location''],
     [Text ''word symbol IDs must be strictly ordered''],
     [Text ''symbol is referenced by multiple words''],
     [Text ''symbol is missing from its word'']]"

definition OBSERVATION_VALIDATION_MESSAGES :: "message_part list list" where
  "OBSERVATION_VALIDATION_MESSAGES = [
     [Text ''observation must be an object''],
     [Text ''observation id must be a non-empty string''],
     [Text ''source revision must be a non-negative integer''],
     [Text ''observation isFinal must be a boolean''],
     [Text ''observation receivedAtMs must be a non-negative finite timestamp''],
     [Text ''observation tokens must be an array''],
     [Text ''partial observation must contain at least one token''],
     [Text ''observation token must be an object''],
     [Text ''observation token id must be a non-empty string''],
     [Text ''observation token text must be a string''],
     [Text ''observation token phonemes must be strings''],
     [Text ''observation token '', Choice [''startMs'', ''endMs''], Text '' must be a non-negative finite timestamp''],
     [Text ''observation token timestamps must not decrease''],
     [Text ''observation token confidence must be finite and between 0 and 1''],
     [Text ''duplicate token id''],
     [Text ''observation must contain at most '', Digits, Text '' tokens''],
     [Text ''observation must contain at most '', Digits, Text '' phonemes''],
     [Text ''observation id must contain at most '', Digits, Text '' UTF-16 code units''],
     [Text ''observation token '', Choice [''id'', ''text'', ''phoneme''], Text '' must contain at most '', Digits,
        Text '' UTF-16 code units'']]"

definition isKnownDomainError :: "js_error \<Rightarrow> message_part list list \<Rightarrow> bool" where
  "isKnownDomainError e patterns = (case e of TypeError m \<Rightarrow> list_ex (\<lambda>p. matches p m) patterns | _ \<Rightarrow> False)"

section \<open>Domain assertions\<close>

definition invalidDomainPayload :: "qaraa_error_code \<Rightarrow> server_error" where
  "invalidDomainPayload code = trustedError code
     (if code = INVALID_CORPUS then ''Corpus payload is invalid'' else ''Observation payload is invalid'') False domain_details"

definition assertDomainCorpus :: "js \<Rightarrow> server_error + unit" where
  "assertDomainCorpus v = (case validateCorpus v of
       Inl e \<Rightarrow> if isKnownDomainError e CORPUS_VALIDATION_MESSAGES then Inl (invalidDomainPayload INVALID_CORPUS)
                else Inl (CoreFailure e)
     | Inr _ \<Rightarrow> if corpus_symbols (read_corpus v) = [] then Inl (invalidDomainPayload INVALID_CORPUS) else Inr ())"

definition assertDomainObservation :: "js \<Rightarrow> server_error + unit" where
  "assertDomainObservation v = (case validateObservation v of
       Inl e \<Rightarrow> if isKnownDomainError e OBSERVATION_VALIDATION_MESSAGES then Inl (invalidDomainPayload INVALID_OBSERVATION)
                else Inl (CoreFailure e)
     | Inr _ \<Rightarrow> Inr ())"

section \<open>The messages the validators throw\<close>

text \<open>\<open>throws_in M m\<close>: whatever \<open>m\<close> throws is an exception of \<open>M\<close>.\<close>

definition throws_in :: "js_error set \<Rightarrow> js_error + 'a \<Rightarrow> bool" where
  "throws_in M m \<longleftrightarrow> (\<forall>e. m = Inl e \<longrightarrow> e \<in> M)"

lemma throws_Inr [simp]: "throws_in M (Inr x)"
  by (simp add: throws_in_def)

lemma throws_Inl [simp]: "throws_in M (Inl e) \<longleftrightarrow> e \<in> M"
  by (simp add: throws_in_def)

lemma throws_ebind: "throws_in M m \<Longrightarrow> (\<And>x. m = Inr x \<Longrightarrow> throws_in M (f x)) \<Longrightarrow> throws_in M (ebind m f)"
  by (cases m) (auto simp: throws_in_def)

lemma throws_if: "(c \<Longrightarrow> throws_in M a) \<Longrightarrow> (\<not> c \<Longrightarrow> throws_in M b) \<Longrightarrow> throws_in M (if c then a else b)"
  by simp

lemma throws_for_each: "(\<And>s x. x \<in> set xs \<Longrightarrow> throws_in M (body s x)) \<Longrightarrow> throws_in M (for_each body s xs)"
proof (induction xs arbitrary: s)
  case (Cons x xs)
  then show ?case by (auto intro!: throws_ebind)
qed simp

lemma throws_mono: "throws_in M m \<Longrightarrow> M \<subseteq> N \<Longrightarrow> throws_in N m"
  by (auto simp: throws_in_def)

lemmas throws_rules = throws_ebind throws_if throws_for_each

text \<open>Exceptions with one of the given literals, possibly after a prefix and with a rest.\<close>

definition literals :: "string list \<Rightarrow> js_error set" where
  "literals ms = TypeError ` lit ` set ms"

lemma throws_fail: "m \<in> set ms \<Longrightarrow> throws_in (literals ms) (fail m)"
  by (simp add: literals_def)

lemma throws_string: "label @ '' must be a non-empty string'' \<in> set ms
    \<Longrightarrow> throws_in (literals ms) (requireNonEmptyString v label)"
  by (simp add: requireNonEmptyString_def literals_def)

lemma throws_positive: "label @ '' must be a positive integer'' \<in> set ms
    \<Longrightarrow> throws_in (literals ms) (requirePositiveInteger v label)"
  by (simp add: requirePositiveInteger_def literals_def)

lemma throws_timestamp: "label @ '' must be a non-negative finite timestamp'' \<in> set ms
    \<Longrightarrow> throws_in (literals ms) (requireFiniteTimestamp v label)"
  by (simp add: requireFiniteTimestamp_def literals_def)

definition corpus_literals :: "string list" where
  "corpus_literals = [''corpus must be an object'', ''corpus id must be a non-empty string'',
     ''corpus revision must be a non-empty string'', ''corpus symbols and words must be arrays'',
     ''symbol must be an object'', ''symbol id must be a non-empty string'', ''symbol phoneme must be a non-empty string'',
     ''symbol text must be a string'', ''symbol location must be an address'',
     ''symbol location.surah must be a positive integer'', ''symbol location.ayah must be a positive integer'',
     ''symbol location.word must be a positive integer'', ''symbol location.symbol must be a positive integer'',
     ''duplicate symbol id'', ''symbol locations must be strictly monotonic'', ''word must be an object'',
     ''word id must be a non-empty string'', ''word text must be a string'', ''word must reference at least one symbol'',
     ''word symbol id must be a non-empty string'', ''word location must be an address'',
     ''word location.surah must be a positive integer'', ''word location.ayah must be a positive integer'',
     ''word location.word must be a positive integer'', ''duplicate word id'', ''word locations must be strictly monotonic'',
     ''word symbols must not span multiple ayat'', ''word symbols must match the word location'',
     ''word symbol IDs must be strictly ordered'', ''symbol is referenced by multiple words'',
     ''symbol is missing from its word'']"

lemma throws_location:
  "throws_in (literals corpus_literals) (validateLocation v ''symbol location'' True)"
  "throws_in (literals corpus_literals) (validateLocation v ''word location'' False)"
  unfolding validateLocation_def
  by (intro throws_rules throws_fail throws_positive throws_Inr; simp add: corpus_literals_def)+

lemma throws_validateSymbol: "throws_in (literals corpus_literals) (validateSymbol v)"
  unfolding validateSymbol_def
  by (intro throws_rules throws_fail throws_string throws_location; simp add: corpus_literals_def)

lemma throws_validateWord: "throws_in (literals corpus_literals) (validateWord v)"
  unfolding validateWord_def
  by (intro throws_rules throws_fail throws_string throws_location; simp add: corpus_literals_def)

lemma throws_scan_symbol: "throws_in (literals corpus_literals) (scan_symbol st entry)"
  unfolding scan_symbol_def Let_def by (cases entry; simp only: prod.case)
    (intro throws_rules throws_fail throws_validateSymbol throws_Inr; simp add: corpus_literals_def)

text \<open>A missing symbol is one some word lists and no symbol has as its identifier.\<close>

definition unresolved :: "js \<Rightarrow> jstring \<Rightarrow> bool" where
  "unresolved v i \<longleftrightarrow> i \<notin> sym_id ` set (corpus_symbols (read_corpus v))
     \<and> (\<exists>w \<in> set (corpus_words (read_corpus v)). i \<in> set (word_symbolIds w))"

definition missing_symbol :: "js \<Rightarrow> js_error set" where
  "missing_symbol v = {TypeError (lit ''word references missing symbol: '' @ i) | i. unresolved v i}"

lemma throws_scan_reference:
  assumes "i \<in> set (word_symbolIds w)" "w \<in> set (corpus_words (read_corpus v))"
    "js_map_get (scan_symbolsById sc) i = None \<Longrightarrow> i \<notin> sym_id ` set (corpus_symbols (read_corpus v))"
  shows "throws_in (literals corpus_literals \<union> missing_symbol v) (scan_reference sc w st i)"
  using assms by (cases st; cases "js_map_get (scan_symbolsById sc) i")
    (auto simp: scan_reference_def Let_def missing_symbol_def unresolved_def literals_def corpus_literals_def)

lemma throws_scan_word:
  assumes "read_word x \<in> set (corpus_words (read_corpus v))"
    "\<And>i. js_map_get (scan_symbolsById sc) i = None \<Longrightarrow> i \<notin> sym_id ` set (corpus_symbols (read_corpus v))"
  shows "throws_in (literals corpus_literals \<union> missing_symbol v) (scan_word sc st x)"
  unfolding scan_word_def Let_def
  by (intro throws_rules throws_scan_reference [OF _ assms] throws_mono [OF throws_validateWord] throws_mono [OF throws_fail])
    (auto simp: corpus_literals_def split: prod.splits)

lemma symbols_scanned:
  assumes "for_each scan_symbol \<lparr>scan_symbolsById = [], scan_symbolIndexes = [], scan_previousSymbol = None\<rparr>
      (enumerate 0 vs) = Inr sc" "js_map_get (scan_symbolsById sc) i = None"
  shows "i \<notin> sym_id ` set (map read_symbol vs)"
proof -
  have start: "scanned [] = \<lparr>scan_symbolsById = [], scan_symbolIndexes = [], scan_previousSymbol = None\<rparr>"
    by (simp add: scanned_def)
  have "sc = scanned (map read_symbol vs)" "distinct (map sym_id (map read_symbol vs))"
    using assms(1) scan_symbols_iff [of "[]" vs sc] by (simp_all add: start)
  with assms(2) show ?thesis by (simp add: scanned_symbolsById symbol_index_None image_image)
qed

lemma throws_validateCorpus: "throws_in (literals corpus_literals \<union> missing_symbol v) (validateCorpus v)"
proof -
  let ?N = "literals corpus_literals \<union> missing_symbol v"
  have "throws_in ?N (scan_word sc st x)"
    if sc: "for_each scan_symbol \<lparr>scan_symbolsById = [], scan_symbolIndexes = [], scan_previousSymbol = None\<rparr>
      (enumerate 0 (the_elems (js_get v ''symbols''))) = Inr sc" and x: "x \<in> set (the_elems (js_get v ''words''))" for sc st x
  proof (rule throws_scan_word)
    show "read_word x \<in> set (corpus_words (read_corpus v))" using x by (simp add: read_corpus_def)
    show "i \<notin> sym_id ` set (corpus_symbols (read_corpus v))" if "js_map_get (scan_symbolsById sc) i = None" for i
      using symbols_scanned [OF sc that] by (simp add: read_corpus_def)
  qed
  note words = this
  have fails: "throws_in ?N (fail m)" if "m \<in> set corpus_literals" for m
    using throws_mono [OF throws_fail [OF that]] by blast
  have strings: "throws_in ?N (requireNonEmptyString x label)"
    if "label @ '' must be a non-empty string'' \<in> set corpus_literals" for x label
    using throws_mono [OF throws_string [OF that]] by blast
  have symbols: "throws_in ?N (scan_symbol st entry)" for st entry
    using throws_mono [OF throws_scan_symbol] by blast
  show ?thesis
    unfolding validateCorpus_def
    by (intro throws_ebind throws_if throws_for_each fails symbols strings throws_Inr;
        (erule (1) words | simp add: corpus_literals_def))
qed

definition observation_literals :: "string list" where
  "observation_literals = [''observation must be an object'', ''observation id must be a non-empty string'',
     ''source revision must be a non-negative integer'', ''observation isFinal must be a boolean'',
     ''observation receivedAtMs must be a non-negative finite timestamp'', ''observation tokens must be an array'',
     ''partial observation must contain at least one token'', ''observation token must be an object'',
     ''observation token id must be a non-empty string'', ''observation token text must be a string'',
     ''observation token phonemes must be strings'',
     ''observation token startMs must be a non-negative finite timestamp'',
     ''observation token endMs must be a non-negative finite timestamp'',
     ''observation token timestamps must not decrease'',
     ''observation token confidence must be finite and between 0 and 1'', ''duplicate token id'']"

text \<open>The messages with a limit in decimal.\<close>

definition limit_messages :: "jstring list" where
  "limit_messages = [lit ''observation must contain at most '' @ dec maxTokens @ lit '' tokens'',
     lit ''observation must contain at most '' @ dec maxPhonemes @ lit '' phonemes'',
     lit ''observation id must contain at most '' @ dec maxObservationIdLength @ lit '' UTF-16 code units'',
     lit ''observation token id must contain at most '' @ dec maxTokenIdLength @ lit '' UTF-16 code units'',
     lit ''observation token text must contain at most '' @ dec maxTokenTextLength @ lit '' UTF-16 code units'',
     lit ''observation token phoneme must contain at most '' @ dec maxPhonemeLength @ lit '' UTF-16 code units'']"

definition observation_errors :: "js_error set" where
  "observation_errors = literals observation_literals \<union> TypeError ` set limit_messages"

lemma throws_observation_fail: "m \<in> set observation_literals \<Longrightarrow> throws_in observation_errors (fail m)"
  by (auto simp: observation_errors_def literals_def)

lemma throws_observation_limit: "m \<in> set limit_messages \<Longrightarrow> throws_in observation_errors (Inl (TypeError m))"
  by (auto simp: observation_errors_def)

lemma throws_length: "lit (label @ '' must contain at most '') @ dec n @ lit '' UTF-16 code units'' \<in> set limit_messages
    \<Longrightarrow> throws_in observation_errors (requireStringLength s n label)"
  by (simp add: requireStringLength_def observation_errors_def)

lemma throws_observation_string: "label @ '' must be a non-empty string'' \<in> set observation_literals
    \<Longrightarrow> throws_in observation_errors (requireNonEmptyString v label)"
  using throws_mono [OF throws_string] by (simp add: observation_errors_def)

lemma throws_observation_time: "label @ '' must be a non-negative finite timestamp'' \<in> set observation_literals
    \<Longrightarrow> throws_in observation_errors (requireFiniteTimestamp v label)"
  using throws_mono [OF throws_timestamp] by (simp add: observation_errors_def)

lemmas throws_observation = throws_observation_fail throws_observation_limit throws_length throws_observation_string
  throws_observation_time

lemma throws_check_timestamp:
  "fst entry \<in> {''startMs'', ''endMs''} \<Longrightarrow> throws_in observation_errors (check_timestamp latest entry)"
  unfolding check_timestamp_def Let_def
  by (cases entry; simp only: prod.case)
    (intro throws_rules throws_observation throws_Inr; auto simp: observation_literals_def)

lemma throws_validateObservationToken: "throws_in observation_errors (validateObservationToken v t)"
  unfolding validateObservationToken_def
  by (intro throws_rules throws_observation throws_check_timestamp throws_Inr)
    (auto simp: observation_literals_def limit_messages_def)

lemma throws_scan_token: "throws_in observation_errors (scan_token st v)"
  unfolding scan_token_def Let_def
  by (intro throws_rules throws_observation throws_validateObservationToken throws_Inr)
    (auto simp: observation_literals_def limit_messages_def)

lemma throws_validateObservation: "throws_in observation_errors (validateObservation v)"
  unfolding validateObservation_def
  by (intro throws_rules throws_observation throws_scan_token throws_Inr)
    (auto simp: observation_literals_def limit_messages_def)

section \<open>The tables cover them\<close>

definition known :: "message_part list list \<Rightarrow> js_error set" where
  "known patterns = {e. isKnownDomainError e patterns}"

lemma take_lit: "take n (lit s) = lit (take n s)" and drop_lit: "drop n (lit s) = lit (drop n s)"
  by (simp_all add: lit_def take_map drop_map)

lemma lit_Nil: "lit s = [] \<longleftrightarrow> s = []"
  by (simp add: lit_def)

text \<open>Matching a literal without the open parts, on its characters.\<close>

fun string_matches :: "message_part list \<Rightarrow> string \<Rightarrow> bool" where
  "string_matches [] s \<longleftrightarrow> s = []"
| "string_matches (Text w # ps) s \<longleftrightarrow> take (length w) s = w \<and> string_matches ps (drop (length w) s)"
| "string_matches (Choice ws # ps) s \<longleftrightarrow>
     list_ex (\<lambda>w. take (length w) s = w \<and> string_matches ps (drop (length w) s)) ws"
| "string_matches (_ # ps) s \<longleftrightarrow> False"

lemma string_matches_lit: "string_matches ps s \<Longrightarrow> matches ps (lit s)"
  by (induction ps s rule: string_matches.induct) (auto simp: take_lit drop_lit lit_Nil list_ex_iff)

lemma literals_known:
  assumes "list_all (\<lambda>m. list_ex (\<lambda>p. string_matches p m) patterns) ms"
  shows "literals ms \<subseteq> known patterns"
  using assms
  by (fastforce simp: known_def isKnownDomainError_def literals_def list_all_iff list_ex_iff intro: string_matches_lit)

text \<open>Matching a message with a number in it.\<close>

lemma matches_Text: "matches (Text w # ps) (lit w @ s) \<longleftrightarrow> matches ps s"
  by (simp add: lit_def)

lemma matches_Digits: "matches ps s \<Longrightarrow> matches (Digits # ps) (dec n @ s)"
  using dec_digits [of _ n]
  by (auto simp: list_ex_iff list_all_iff is_digit_def Suc_le_eq intro!: bexI [of _ "length (dec n)"])

lemma matches_end: "matches [Text w] (lit w)"
  by (simp add: lit_def)

lemma matches_limit: "matches [Text a, Digits, Text b] (lit a @ dec n @ lit b)"
  unfolding matches_Text by (rule matches_Digits) (rule matches_end)

lemma matches_limit_choice:
  assumes "w \<in> set ws"
  shows "matches [Text a, Choice ws, Text b, Digits, Text d] (lit a @ lit w @ lit b @ dec n @ lit d)"
proof -
  have "matches [Text w, Text b, Digits, Text d] (lit w @ lit b @ dec n @ lit d)"
    unfolding matches_Text by (rule matches_Digits) (rule matches_end)
  then have "matches [Choice ws, Text b, Digits, Text d] (lit w @ lit b @ dec n @ lit d)"
    using assms unfolding matches.simps list_ex_iff by blast
  then show ?thesis unfolding matches_Text .
qed

lemma token_limit:
  "lit ''observation token id must contain at most '' @ t
     = lit ''observation token '' @ lit ''id'' @ lit '' must contain at most '' @ t"
  "lit ''observation token text must contain at most '' @ t
     = lit ''observation token '' @ lit ''text'' @ lit '' must contain at most '' @ t"
  "lit ''observation token phoneme must contain at most '' @ t
     = lit ''observation token '' @ lit ''phoneme'' @ lit '' must contain at most '' @ t"
  by (simp_all add: lit_def)

lemma limit_messages_matched:
  assumes "m \<in> set limit_messages"
  shows "\<exists>p \<in> set OBSERVATION_VALIDATION_MESSAGES. matches p m"
proof -
  consider "m = lit ''observation must contain at most '' @ dec maxTokens @ lit '' tokens''"
    | "m = lit ''observation must contain at most '' @ dec maxPhonemes @ lit '' phonemes''"
    | "m = lit ''observation id must contain at most '' @ dec maxObservationIdLength @ lit '' UTF-16 code units''"
    | w n where "w \<in> set [''id'', ''text'', ''phoneme'']"
        "m = lit ''observation token '' @ lit w @ lit '' must contain at most '' @ dec n @ lit '' UTF-16 code units''"
    using assms unfolding limit_messages_def token_limit by auto
  then show ?thesis
  proof cases
    case (4 w n)
    have "[Text ''observation token '', Choice [''id'', ''text'', ''phoneme''], Text '' must contain at most '', Digits,
        Text '' UTF-16 code units''] \<in> set OBSERVATION_VALIDATION_MESSAGES" by (simp add: OBSERVATION_VALIDATION_MESSAGES_def)
    moreover note matches_limit_choice [OF 4(1), of "''observation token ''" "'' must contain at most ''"
        "'' UTF-16 code units''" n]
    ultimately show ?thesis unfolding 4(2) by blast
  qed (use matches_limit in \<open>auto simp: OBSERVATION_VALIDATION_MESSAGES_def simp del: matches.simps\<close>)
qed

lemma corpus_literals_known: "literals corpus_literals \<subseteq> known CORPUS_VALIDATION_MESSAGES"
  by (rule literals_known) code_simp

lemma observation_errors_known: "observation_errors \<subseteq> known OBSERVATION_VALIDATION_MESSAGES"
proof -
  have "literals observation_literals \<subseteq> known OBSERVATION_VALIDATION_MESSAGES"
    by (rule literals_known) code_simp
  moreover note limit_messages_matched
  ultimately show ?thesis by (auto simp: known_def isKnownDomainError_def observation_errors_def list_ex_iff)
qed

section \<open>No exception of the validators gets through\<close>

lemma domain_observation_errors:
  "assertDomainObservation v = Inl e \<Longrightarrow> e = invalidDomainPayload INVALID_OBSERVATION"
  using throws_validateObservation [of v] observation_errors_known
  by (auto simp: assertDomainObservation_def throws_in_def known_def split: sum.splits if_splits)

lemma missing_symbol_known:
  assumes "i \<noteq> []" "list_all (\<lambda>c. \<not> line_terminator c) i"
  shows "isKnownDomainError (TypeError (lit ''word references missing symbol: '' @ i)) CORPUS_VALIDATION_MESSAGES"
proof -
  have "1 \<le> length i" using assms(1) by (cases i) simp_all
  then have "length i \<in> set [1..<length i + 1]" by simp
  with assms(2) have "matches [AnyText] i" unfolding matches.simps list_ex_iff by (metis drop_all order_refl take_all)
  then have "matches [Text ''word references missing symbol: '', AnyText] (lit ''word references missing symbol: '' @ i)"
    unfolding matches_Text .
  moreover have "[Text ''word references missing symbol: '', AnyText] \<in> set CORPUS_VALIDATION_MESSAGES"
    by (simp add: CORPUS_VALIDATION_MESSAGES_def)
  ultimately show ?thesis by (simp only: isKnownDomainError_def js_error.case list_ex_iff) blast
qed

lemma domain_corpus_errors:
  assumes "assertDomainCorpus v = Inl e"
  shows "e = invalidDomainPayload INVALID_CORPUS \<or> (\<exists>i. unresolved v i)"
  using assms throws_validateCorpus [of v] corpus_literals_known
  by (auto simp: assertDomainCorpus_def throws_in_def known_def missing_symbol_def split: sum.splits if_splits)

lemma assertValidCorpus_resolved:
  assumes "assertValidCorpus ajv v = Inr ()"
  shows "\<not> unresolved v i"
  using assms
  by (fastforce simp: assertValidCorpus_def Let_def unresolved_def read_corpus_def read_word_def read_symbol_def list_ex_iff
      image_image split: if_splits)

end
