(* ===== verification/Session_Store.thy ===== *)
theory Session_Store
  imports Protocol
begin

text \<open>
  \<open>packages/server/src/store.ts\<close> and \<open>memory-store.ts\<close>: the storage boundary of the session
  service.  The locale \<open>session_storage\<close> is the contract the service relies on; the volatile store
  is its interpretation.  The store runs the operations on one session one after the other, so each
  is one step here; the callback of \<open>update\<close> also changes variables of its caller, the \<open>world\<close>.
\<close>

record session_record =
  rec_sessionId :: jstring
  rec_corpusId :: jstring
  rec_snapshot :: reading_snapshot
  rec_snapshots :: "reading_snapshot list"
  rec_observationIds :: "jstring list"
  rec_latestSourceRevision :: int

type_synonym 'w mutation = "session_record \<Rightarrow> 'w \<Rightarrow> 'w \<times> (server_error + session_record)"

text \<open>The operations of a \<open>SessionStore\<close>.\<close>

record ('s, 'w) session_store =
  store_create :: "'s \<Rightarrow> session_record \<Rightarrow> 's \<times> (server_error + unit)"
  store_get :: "'s \<Rightarrow> jstring \<Rightarrow> session_record option"
  store_update :: "'s \<Rightarrow> jstring \<Rightarrow> 'w mutation \<Rightarrow> 'w \<Rightarrow> 's \<times> 'w \<times> (server_error + session_record)"
  store_delete :: "'s \<Rightarrow> jstring \<Rightarrow> 's \<times> bool"

section \<open>The contract\<close>

text \<open>\<open>records\<close> says what a store holds; every operation acts on it like on a finite map, and an
  exception of the callback leaves it as it was.\<close>

locale session_storage =
  fixes S :: "('s, 'w) session_store" and records :: "'s \<Rightarrow> jstring \<Rightarrow> session_record option"
  assumes get: "store_get S s i = records s i"
    and create_new: "records s (rec_sessionId r) = None
      \<Longrightarrow> \<exists>s'. store_create S s r = (s', Inr ()) \<and> records s' = (records s)(rec_sessionId r \<mapsto> r)"
    and create_taken: "records s (rec_sessionId r) \<noteq> None
      \<Longrightarrow> \<exists>s'. store_create S s r = (s', Inl (RecordExists (rec_sessionId r))) \<and> records s' = records s"
    and update_missing: "records s i = None
      \<Longrightarrow> \<exists>s'. store_update S s i mutate w = (s', w, Inl (RecordNotFound i)) \<and> records s' = records s"
    and update_throws: "records s i = Some r \<Longrightarrow> mutate r w = (w', Inl e)
      \<Longrightarrow> \<exists>s'. store_update S s i mutate w = (s', w', Inl e) \<and> records s' = records s"
    and update_returns: "records s i = Some r \<Longrightarrow> mutate r w = (w', Inr r')
      \<Longrightarrow> \<exists>s'. store_update S s i mutate w = (s', w', Inr r') \<and> records s' = (records s)(i \<mapsto> r')"
    and delete_record: "\<exists>s'. store_delete S s i = (s', records s i \<noteq> None) \<and> records s' = (records s)(i := None)"
begin

lemma created_get:
  assumes "records s (rec_sessionId r) = None"
  shows "store_get S (fst (store_create S s r)) i = (if i = rec_sessionId r then Some r else store_get S s i)"
  using create_new [OF assms] by (auto simp: get)

lemma deleted_get: "store_get S (fst (store_delete S s i)) j = (if j = i then None else store_get S s j)"
  using delete_record [of s i] by (auto simp: get)

lemma update_cases:
  obtains (missing) s' where "records s i = None" "store_update S s i mutate w = (s', w, Inl (RecordNotFound i))"
      "records s' = records s"
  | (throws) r w' e s' where "records s i = Some r" "mutate r w = (w', Inl e)"
      "store_update S s i mutate w = (s', w', Inl e)" "records s' = records s"
  | (returns) r w' r' s' where "records s i = Some r" "mutate r w = (w', Inr r')"
      "store_update S s i mutate w = (s', w', Inr r')" "records s' = (records s)(i \<mapsto> r')"
proof (cases "records s i")
  case None
  with update_missing [OF None, of mutate w] missing show thesis by blast
next
  case (Some r)
  obtain w' x where m: "mutate r w = (w', x)" by (rule prod.exhaust)
  show thesis
  proof (cases x)
    case (Inl e)
    with update_throws [OF Some, of mutate w w' e] m Some throws show thesis by blast
  next
    case (Inr r')
    with update_returns [OF Some, of mutate w w' r'] m Some returns show thesis by blast
  qed
qed

end

section \<open>The volatile store\<close>

type_synonym memory_store = "(jstring, session_record) js_map"

definition memory_create :: "memory_store \<Rightarrow> session_record \<Rightarrow> memory_store \<times> (server_error + unit)" where
  "memory_create m r =
     (if js_map_has m (rec_sessionId r) then (m, Inl (RecordExists (rec_sessionId r)))
      else (js_map_set (rec_sessionId r) r m, Inr ()))"

definition memory_get :: "memory_store \<Rightarrow> jstring \<Rightarrow> session_record option" where
  "memory_get m i = js_map_get m i"

definition memory_update :: "memory_store \<Rightarrow> jstring \<Rightarrow> 'w mutation \<Rightarrow> 'w
    \<Rightarrow> memory_store \<times> 'w \<times> (server_error + session_record)" where
  "memory_update m i mutate w = (case js_map_get m i of
       None \<Rightarrow> (m, w, Inl (RecordNotFound i))
     | Some current \<Rightarrow> (case mutate current w of
           (w', Inl e) \<Rightarrow> (m, w', Inl e)
         | (w', Inr updated) \<Rightarrow> (js_map_set i updated m, w', Inr updated)))"

definition memory_delete :: "memory_store \<Rightarrow> jstring \<Rightarrow> memory_store \<times> bool" where
  "memory_delete m i = (js_map_delete i m, js_map_has m i)"

definition MemorySessionStore :: "(memory_store, 'w) session_store" where
  "MemorySessionStore = \<lparr>store_create = memory_create, store_get = memory_get,
     store_update = memory_update, store_delete = memory_delete\<rparr>"

interpretation memory: session_storage MemorySessionStore js_map_get
  by unfold_locales
    (auto simp: MemorySessionStore_def memory_create_def memory_get_def memory_update_def memory_delete_def
      js_map_has_def fun_eq_iff)

end
