(* ===== verification/Session_Service.thy ===== *)
theory Session_Service
  imports Domain_Errors Session_Store
begin

text \<open>
  \<open>packages/server/src/session-service.ts\<close>: the life of sessions over the reading tracker.  The
  fields of the class are the fields of \<open>service_state\<close>, its options those of \<open>service_config\<close>.

  The class runs the operations on one session one after the other (\<open>#enqueue\<close>), so an operation is
  one step here, except \<open>create\<close>, which reserves its place when it is called and runs later: it
  is the two steps \<open>create_call\<close> and \<open>create_run\<close>.  The store is an argument \<open>S\<close>, with the
  contract of \<open>Session_Store\<close>; the corpus resolver, Ajv and the listeners are arguments as well.  A
  listener is a number; the calls of listeners are recorded in order, and \<open>sc_accepts\<close> tells
  which of them return.  The cache of the fixed corpus' index, which holds the value of a pure
  function, is in \<open>Corpus_Cache\<close>; the queue of promises is in \<open>Session_Queue\<close>.
\<close>

section \<open>State\<close>

definition SNAPSHOT_LIMIT :: nat where "SNAPSHOT_LIMIT = 256"
definition SERVICE_OBSERVATION_ID_LIMIT :: nat where "SERVICE_OBSERVATION_ID_LIMIT = 512"
definition DEFAULT_MAX_SESSIONS :: int where "DEFAULT_MAX_SESSIONS = 1024"
definition DEFAULT_MAX_SUBSCRIBERS :: int where "DEFAULT_MAX_SUBSCRIBERS = 4096"

record service_config =
  sc_corpus :: "js option"
  sc_resolveCorpus :: "(jstring \<Rightarrow> server_error + js option) option"
  sc_ajv :: ajv
  sc_maxSessions :: int
  sc_maxSubscribers :: int
  sc_accepts :: "nat \<Rightarrow> qaraa_event \<Rightarrow> bool"

record session_runtime =
  rt_config :: tracker_config
  rt_tracker :: tracker_state

record session_subscriber =
  sub_identity :: nat
  sub_requestId :: jstring
  sub_listener :: nat

record 's service_state =
  sv_store :: 's
  sv_sessions :: "(jstring, session_runtime) js_map"
  sv_subscribers :: "(jstring, session_subscriber list) js_map"
  sv_reservedSessions :: int
  sv_subscriberCount :: int
  sv_nextIdentity :: nat
  sv_calls :: "(nat \<times> qaraa_event) list"

text \<open>What the callbacks of \<open>store.update\<close> change: the trackers, and the flag \<open>changed\<close>.\<close>

type_synonym update_world = "(jstring, session_runtime) js_map \<times> bool"

section \<open>Errors and options\<close>

definition session_details :: "jstring \<Rightarrow> js" where
  "session_details sessionId = JObj [(''sessionId'', JStr sessionId)]"

definition sessionNotFound :: "jstring \<Rightarrow> server_error" where
  "sessionNotFound sessionId = trustedError SESSION_NOT_FOUND ''Session was not found'' False (session_details sessionId)"

definition assertPositiveCapacity :: "js \<Rightarrow> string \<Rightarrow> js_error + int" where
  "assertPositiveCapacity v label =
     (let resolved = (if v = JUndefined \<or> v = JNull
            then Fin (of_int (if label = ''maxSessions'' then DEFAULT_MAX_SESSIONS else DEFAULT_MAX_SUBSCRIBERS))
            else the_num v)
      in if \<not> isSafeInteger resolved \<or> js_less resolved (Fin 1) then fail (label @ '' must be a positive integer'')
         else Inr (num_int resolved))"

definition capacityExhausted :: "string \<Rightarrow> int \<Rightarrow> server_error" where
  "capacityExhausted resource limit = trustedError INTERNAL_ERROR
     (if resource = ''sessions'' then ''Session capacity is exhausted'' else ''Subscriber capacity is exhausted'') True
     (JObj [(''kind'', js_string ''capacity''), (''resource'', js_string resource), (''limit'', js_int limit)])"

definition hasLocation :: "indexed_corpus \<Rightarrow> quran_location \<Rightarrow> bool" where
  "hasLocation corpus location \<longleftrightarrow> list_ex (\<lambda>s. sym_location s = location) (ix_symbols corpus)"

definition createSessionService :: "ajv \<Rightarrow> js option \<Rightarrow> (jstring \<Rightarrow> server_error + js option) option \<Rightarrow> js \<Rightarrow> js
    \<Rightarrow> (nat \<Rightarrow> qaraa_event \<Rightarrow> bool) \<Rightarrow> 's \<Rightarrow> server_error + service_config \<times> 's service_state" where
  "createSessionService ajv corpus resolveCorpus maxSessions maxSubscribers accepts store =
     (if corpus = None \<and> resolveCorpus = None
      then Inl (CoreFailure (TypeError (lit ''SessionService requires a corpus or resolveCorpus callback'')))
      else ebind (case corpus of Some c \<Rightarrow> assertValidCorpus ajv c | None \<Rightarrow> Inr ()) (\<lambda>_.
        case assertPositiveCapacity maxSessions ''maxSessions'' of
          Inl e \<Rightarrow> Inl (CoreFailure e)
        | Inr ms \<Rightarrow> (case assertPositiveCapacity maxSubscribers ''maxSubscribers'' of
            Inl e \<Rightarrow> Inl (CoreFailure e)
          | Inr mb \<Rightarrow> Inr (\<lparr>sc_corpus = corpus, sc_resolveCorpus = resolveCorpus, sc_ajv = ajv,
                sc_maxSessions = ms, sc_maxSubscribers = mb, sc_accepts = accepts\<rparr>,
              \<lparr>sv_store = store, sv_sessions = [], sv_subscribers = [], sv_reservedSessions = 0,
                sv_subscriberCount = 0, sv_nextIdentity = 0, sv_calls = []\<rparr>))))"

section \<open>Corpora\<close>

definition corpus_details :: "jstring \<Rightarrow> js" where
  "corpus_details i = JObj [(''corpusId'', JStr i)]"

definition corpusFor :: "service_config \<Rightarrow> jstring \<Rightarrow> server_error + js" where
  "corpusFor config i =
     (let fixed = (case sc_corpus config of
            Some c \<Rightarrow> if js_get c ''corpusId'' = JStr i then Some c else None
          | None \<Rightarrow> None)
      in ebind (case fixed of Some c \<Rightarrow> Inr (Some c)
                | None \<Rightarrow> (case sc_resolveCorpus config of Some resolve \<Rightarrow> resolve i | None \<Rightarrow> Inr None)) (\<lambda>found.
         case found of
           None \<Rightarrow> Inl (trustedError INVALID_CORPUS ''Corpus was not found'' False (corpus_details i))
         | Some c \<Rightarrow>
             (case assertValidCorpus (sc_ajv config) c of
                Inl (ProtocolFailure e) \<Rightarrow> Inl (trustProtocolError e)
              | Inl e \<Rightarrow> Inl e
              | Inr _ \<Rightarrow> ebind (assertDomainCorpus c) (\<lambda>_.
                  if js_get c ''corpusId'' \<noteq> JStr i
                  then Inl (trustedError INVALID_CORPUS ''Resolved corpus identifier does not match the request'' False
                         (corpus_details i))
                  else Inr c))))"

definition indexedCorpusFor :: "service_config \<Rightarrow> jstring \<Rightarrow> server_error + indexed_corpus" where
  "indexedCorpusFor config i = ebind (corpusFor config i) (\<lambda>c. case indexCorpus c of
     Inl e \<Rightarrow> Inl (CoreFailure e) | Inr index \<Rightarrow> Inr index)"

section \<open>Capacity and subscribers\<close>

definition reserveSession :: "service_config \<Rightarrow> 's service_state \<Rightarrow> 's service_state \<times> (server_error + unit)" where
  "reserveSession config st =
     (if sc_maxSessions config \<le> int (length (sv_sessions st)) + sv_reservedSessions st
      then (st, Inl (capacityExhausted ''sessions'' (sc_maxSessions config)))
      else (st\<lparr>sv_reservedSessions := sv_reservedSessions st + 1\<rparr>, Inr ()))"

definition releaseSessionReservation :: "'s service_state \<Rightarrow> 's service_state" where
  "releaseSessionReservation st = st\<lparr>sv_reservedSessions := sv_reservedSessions st - 1\<rparr>"

definition releaseSubscriber :: "jstring \<Rightarrow> nat \<Rightarrow> 's service_state \<Rightarrow> 's service_state" where
  "releaseSubscriber sessionId identity st = (case js_map_get (sv_subscribers st) sessionId of
       None \<Rightarrow> st
     | Some active \<Rightarrow>
         if identity \<notin> set (map sub_identity active) then st
         else let active' = filter (\<lambda>s. sub_identity s \<noteq> identity) active in
           st\<lparr>sv_subscriberCount := sv_subscriberCount st - 1,
              sv_subscribers := (if active' = [] then js_map_delete sessionId (sv_subscribers st)
                                 else js_map_set sessionId active' (sv_subscribers st))\<rparr>)"

definition snapshot_event :: "jstring \<Rightarrow> jstring \<Rightarrow> reading_snapshot \<Rightarrow> qaraa_event" where
  "snapshot_event sessionId requestId snap = SnapshotUpdated PROTOCOL_VERSION requestId sessionId snap"

text \<open>Calling one listener: the call is recorded; one that throws loses its subscription.\<close>

definition call_listener :: "nat \<Rightarrow> qaraa_event \<Rightarrow> 's service_state \<Rightarrow> 's service_state" where
  "call_listener listener event st = st\<lparr>sv_calls := sv_calls st @ [(listener, event)]\<rparr>"

definition deliver :: "service_config \<Rightarrow> jstring \<Rightarrow> reading_snapshot \<Rightarrow> 's service_state \<Rightarrow> session_subscriber
    \<Rightarrow> 's service_state" where
  "deliver config sessionId snap st sub =
     (let event = snapshot_event sessionId (sub_requestId sub) snap;
          st' = call_listener (sub_listener sub) event st
      in if sc_accepts config (sub_listener sub) event then st'
         else releaseSubscriber sessionId (sub_identity sub) st')"

definition publish :: "service_config \<Rightarrow> jstring \<Rightarrow> reading_snapshot \<Rightarrow> 's service_state \<Rightarrow> 's service_state" where
  "publish config sessionId snap st = (case js_map_get (sv_subscribers st) sessionId of
       None \<Rightarrow> st
     | Some subscribers \<Rightarrow>
         let st' = foldl (deliver config sessionId snap) st subscribers
         in if js_map_get (sv_subscribers st') sessionId = Some []
            then st'\<lparr>sv_subscribers := js_map_delete sessionId (sv_subscribers st')\<rparr> else st')"

section \<open>Operations\<close>

definition command_location :: "js \<Rightarrow> string \<Rightarrow> quran_location option" where
  "command_location cmd k = (if js_get cmd k = JUndefined then None else Some (read_location (js_get cmd k)))"

definition command_mode :: "js \<Rightarrow> jstring option" where
  "command_mode cmd = (if js_get cmd ''findingMode'' = JUndefined then None else Some (the_str (js_get cmd ''findingMode'')))"

definition last_snapshots :: "reading_snapshot list \<Rightarrow> reading_snapshot list" where
  "last_snapshots xs = drop (length xs - SNAPSHOT_LIMIT) xs"

definition create_call :: "service_config \<Rightarrow> 's service_state \<Rightarrow> 's service_state \<times> (server_error + unit)" where
  "create_call config st = reserveSession config st"

definition create_body :: "('s, update_world) session_store \<Rightarrow> service_config \<Rightarrow> jstring \<Rightarrow> js \<Rightarrow> 's service_state
    \<Rightarrow> 's service_state \<times> (server_error + qaraa_event)" where
  "create_body S config sessionId cmd st =
     (case indexedCorpusFor config (the_str (js_get cmd ''corpusId'')) of
        Inl e \<Rightarrow> (st, Inl e)
      | Inr index \<Rightarrow>
          let initial = command_location cmd ''initialLocation'' in
          if (case initial of None \<Rightarrow> False | Some l \<Rightarrow> \<not> hasLocation index l)
          then (st, Inl (invalidDomainPayload INVALID_CORPUS))
          else (case createReadingTracker index initial (command_mode cmd) of
              Inl e \<Rightarrow> (st, Inl (CoreFailure e))
            | Inr (tracker_config, tracker) \<Rightarrow>
                let snap = getSnapshot tracker in
                (case store_create S (sv_store st)
                    \<lparr>rec_sessionId = sessionId, rec_corpusId = the_str (js_get cmd ''corpusId''), rec_snapshot = snap,
                     rec_snapshots = [snap], rec_observationIds = [], rec_latestSourceRevision = -1\<rparr> of
                   (s', Inl e) \<Rightarrow> (st\<lparr>sv_store := s'\<rparr>, Inl e)
                 | (s', Inr _) \<Rightarrow>
                     (st\<lparr>sv_store := s', sv_sessions := js_map_set sessionId
                           \<lparr>rt_config = tracker_config, rt_tracker = tracker\<rparr> (sv_sessions st)\<rparr>,
                      Inr (SessionCreated PROTOCOL_VERSION (the_str (js_get cmd ''requestId'')) sessionId snap)))))"

definition create_run :: "('s, update_world) session_store \<Rightarrow> service_config \<Rightarrow> jstring \<Rightarrow> js \<Rightarrow> 's service_state
    \<Rightarrow> 's service_state \<times> (server_error + qaraa_event)" where
  "create_run S config sessionId cmd st = (case create_body S config sessionId cmd st of
     (st', result) \<Rightarrow> (releaseSessionReservation st', result))"

definition get_session :: "('s, update_world) session_store \<Rightarrow> js \<Rightarrow> 's service_state \<Rightarrow> server_error + qaraa_event" where
  "get_session S cmd st = (let sessionId = the_str (js_get cmd ''sessionId'') in
     case store_get S (sv_store st) sessionId of
       None \<Rightarrow> Inl (sessionNotFound sessionId)
     | Some r \<Rightarrow> Inr (snapshot_event sessionId (the_str (js_get cmd ''requestId'')) (rec_snapshot r)))"

text \<open>The callback of \<open>reset\<close>.\<close>

definition reset_mutation :: "jstring \<Rightarrow> quran_location option \<Rightarrow> session_runtime \<Rightarrow> update_world mutation" where
  "reset_mutation sessionId location runtime current w = (case w of (sessions, changed) \<Rightarrow>
     (case reset_tracker (rt_config runtime) (rt_tracker runtime) location of
        (tracker, result) \<Rightarrow>
          ((js_map_set sessionId (runtime\<lparr>rt_tracker := tracker\<rparr>) sessions, changed),
           (case result of
              Inl e \<Rightarrow> Inl (CoreFailure e)
            | Inr snap \<Rightarrow> Inr (current\<lparr>rec_snapshot := snap,
                rec_snapshots := last_snapshots (rec_snapshots current @ [snap]),
                rec_observationIds := [], rec_latestSourceRevision := -1\<rparr>)))))"

text \<open>A missing record of the store is a missing session.\<close>

definition session_failure :: "jstring \<Rightarrow> server_error \<Rightarrow> server_error" where
  "session_failure sessionId e = (case e of RecordNotFound _ \<Rightarrow> sessionNotFound sessionId | _ \<Rightarrow> e)"

definition reset_session :: "('s, update_world) session_store \<Rightarrow> service_config \<Rightarrow> js \<Rightarrow> 's service_state
    \<Rightarrow> 's service_state \<times> (server_error + qaraa_event)" where
  "reset_session S config cmd st =
     (let sessionId = the_str (js_get cmd ''sessionId''); location = command_location cmd ''location'' in
      case js_map_get (sv_sessions st) sessionId of
        None \<Rightarrow> (st, Inl (sessionNotFound sessionId))
      | Some runtime \<Rightarrow>
          if (case location of None \<Rightarrow> False | Some l \<Rightarrow> \<not> hasLocation (tc_corpus (rt_config runtime)) l)
          then (st, Inl (invalidDomainPayload INVALID_CORPUS))
          else (case store_update S (sv_store st) sessionId (reset_mutation sessionId location runtime)
                     (sv_sessions st, False) of
              (s', (sessions, _), result) \<Rightarrow>
                let st' = st\<lparr>sv_store := s', sv_sessions := sessions\<rparr> in
                (case result of
                   Inl e \<Rightarrow> (st', Inl (session_failure sessionId e))
                 | Inr r \<Rightarrow> (publish config sessionId (rec_snapshot r) st',
                     Inr (snapshot_event sessionId (the_str (js_get cmd ''requestId'')) (rec_snapshot r))))))"

definition command_observation :: "js \<Rightarrow> js" where
  "command_observation cmd = JObj (map (\<lambda>k. (k, js_get cmd k))
     [''observationId'', ''sourceRevision'', ''isFinal'', ''receivedAtMs'', ''tokens''])"

definition stale_details :: "int \<Rightarrow> int \<Rightarrow> js" where
  "stale_details latest revision = JObj [(''latestSourceRevision'', js_int latest), (''sourceRevision'', js_int revision)]"

text \<open>The callback of \<open>submit\<close>.\<close>

definition submit_mutation :: "jstring \<Rightarrow> js \<Rightarrow> update_world mutation" where
  "submit_mutation sessionId observation current w = (case w of (sessions, changed) \<Rightarrow>
     let obs = read_observation observation in
     if observationId obs \<in> set (rec_observationIds current) then (w, Inr current)
     else if sourceRevision obs < rec_latestSourceRevision current
     then (w, Inl (trustedError STALE_REVISION ''Observation source revision is stale'' False
             (stale_details (rec_latestSourceRevision current) (sourceRevision obs))))
     else (case js_map_get sessions sessionId of
         None \<Rightarrow> (w, Inl (sessionNotFound sessionId))
       | Some runtime \<Rightarrow>
           let previousRevision = snap_revision (getSnapshot (rt_tracker runtime)) in
           (case submit_observation (rt_config runtime) (rt_tracker runtime) observation of
              (tracker, result) \<Rightarrow>
                let sessions' = js_map_set sessionId (runtime\<lparr>rt_tracker := tracker\<rparr>) sessions in
                (case result of
                   Inl e \<Rightarrow> ((sessions', changed), Inl (CoreFailure e))
                 | Inr snap \<Rightarrow>
                     if snap_revision snap = previousRevision then ((sessions', changed), Inr current)
                     else ((sessions', True), Inr (current\<lparr>rec_snapshot := snap,
                       rec_snapshots := last_snapshots (rec_snapshots current @ [snap]),
                       rec_observationIds := (let ids = rec_observationIds current @ [observationId obs]
                          in drop (length ids - SERVICE_OBSERVATION_ID_LIMIT) ids),
                       rec_latestSourceRevision := sourceRevision obs\<rparr>))))))"

definition submit_session :: "('s, update_world) session_store \<Rightarrow> service_config \<Rightarrow> js \<Rightarrow> 's service_state
    \<Rightarrow> 's service_state \<times> (server_error + qaraa_event)" where
  "submit_session S config cmd st =
     (let observation = command_observation cmd; sessionId = the_str (js_get cmd ''sessionId'') in
      case assertValidObservation (sc_ajv config) observation of
        Inl (ProtocolFailure e) \<Rightarrow> (st, Inl (trustProtocolError e))
      | Inl e \<Rightarrow> (st, Inl e)
      | Inr _ \<Rightarrow> (case assertDomainObservation observation of
          Inl e \<Rightarrow> (st, Inl e)
        | Inr _ \<Rightarrow>
            (case store_update S (sv_store st) sessionId (submit_mutation sessionId observation) (sv_sessions st, False) of
               (s', (sessions, changed), result) \<Rightarrow>
                 let st' = st\<lparr>sv_store := s', sv_sessions := sessions\<rparr> in
                 (case result of
                    Inl e \<Rightarrow> (st', Inl (session_failure sessionId e))
                  | Inr r \<Rightarrow> (if changed then publish config sessionId (rec_snapshot r) st' else st',
                      Inr (snapshot_event sessionId (the_str (js_get cmd ''requestId'')) (rec_snapshot r)))))))"

definition missed_snapshots :: "int \<Rightarrow> reading_snapshot list \<Rightarrow> reading_snapshot list" where
  "missed_snapshots lastRevision snapshots = filter (\<lambda>s. lastRevision < int (snap_revision s)) snapshots"

definition resume_session :: "('s, update_world) session_store \<Rightarrow> js \<Rightarrow> 's service_state \<Rightarrow> server_error + qaraa_event list" where
  "resume_session S cmd st = (let sessionId = the_str (js_get cmd ''sessionId'') in
     case store_get S (sv_store st) sessionId of
       None \<Rightarrow> Inl (sessionNotFound sessionId)
     | Some r \<Rightarrow> Inr (map (snapshot_event sessionId (the_str (js_get cmd ''requestId'')))
         (missed_snapshots (the_int (js_get cmd ''lastSnapshotRevision'')) (rec_snapshots r))))"

text \<open>The replay of \<open>subscribe\<close>: the first listener call that throws ends it.\<close>

fun replay :: "service_config \<Rightarrow> nat \<Rightarrow> qaraa_event list \<Rightarrow> 's service_state \<Rightarrow> 's service_state \<times> bool" where
  "replay config listener [] st = (st, True)"
| "replay config listener (event # events) st =
     (let st' = call_listener listener event st
      in if sc_accepts config listener event then replay config listener events st' else (st', False))"

definition listener_error :: server_error where
  "listener_error = CoreFailure (PlainError (lit ''listener''))"

text \<open>\<open>subscribe\<close> returns the identity its stop function releases.\<close>

definition subscribe_session :: "('s, update_world) session_store \<Rightarrow> service_config \<Rightarrow> js \<Rightarrow> nat \<Rightarrow> 's service_state
    \<Rightarrow> 's service_state \<times> (server_error + nat)" where
  "subscribe_session S config cmd listener st =
     (let sessionId = the_str (js_get cmd ''sessionId''); requestId = the_str (js_get cmd ''requestId'') in
      case store_get S (sv_store st) sessionId of
        None \<Rightarrow> (st, Inl (sessionNotFound sessionId))
      | Some r \<Rightarrow>
          if sc_maxSubscribers config \<le> sv_subscriberCount st
          then (st, Inl (capacityExhausted ''subscribers'' (sc_maxSubscribers config)))
          else
            let identity = sv_nextIdentity st;
                sub = \<lparr>sub_identity = identity, sub_requestId = requestId, sub_listener = listener\<rparr>;
                subscribers = (case js_map_get (sv_subscribers st) sessionId of Some xs \<Rightarrow> xs | None \<Rightarrow> []);
                st1 = st\<lparr>sv_nextIdentity := Suc identity, sv_subscriberCount := sv_subscriberCount st + 1,
                   sv_subscribers := js_map_set sessionId (subscribers @ [sub]) (sv_subscribers st)\<rparr>
            in (case replay config listener (map (snapshot_event sessionId requestId)
                       (missed_snapshots (the_int (js_get cmd ''lastSnapshotRevision'')) (rec_snapshots r))) st1 of
                  (st2, True) \<Rightarrow> (st2, Inr identity)
                | (st2, False) \<Rightarrow> (releaseSubscriber sessionId identity st2, Inl listener_error)))"

definition delete_session :: "('s, update_world) session_store \<Rightarrow> js \<Rightarrow> 's service_state
    \<Rightarrow> 's service_state \<times> (server_error + qaraa_event)" where
  "delete_session S cmd st =
     (let sessionId = the_str (js_get cmd ''sessionId'') in
      case store_delete S (sv_store st) sessionId of
        (s', deleted) \<Rightarrow>
          if \<not> deleted then (st\<lparr>sv_store := s'\<rparr>, Inl (sessionNotFound sessionId))
          else (st\<lparr>sv_store := s', sv_sessions := js_map_delete sessionId (sv_sessions st),
                   sv_subscriberCount := (case js_map_get (sv_subscribers st) sessionId of
                       Some xs \<Rightarrow> sv_subscriberCount st - int (length xs) | None \<Rightarrow> sv_subscriberCount st),
                   sv_subscribers := js_map_delete sessionId (sv_subscribers st)\<rparr>,
                Inr (SessionDeleted PROTOCOL_VERSION (the_str (js_get cmd ''requestId'')) sessionId)))"

end
