(* ===== verification/Service_Proofs.thy ===== *)
theory Service_Proofs
  imports Session_Service Tracker_Commits
begin

text \<open>
  The session service over any store that keeps the contract of \<open>Session_Store\<close>: its tables stay
  in step with one another and within their bounds whatever the order of the operations, and each
  operation answers as its command asks.  The client's lemmas are in the locale
  \<open>service_storage\<close>; they are interpreted on the volatile store.
\<close>

section \<open>Subscribers\<close>

definition total_subscribers :: "(jstring, session_subscriber list) js_map \<Rightarrow> int" where
  "total_subscribers m = sum_list (map (\<lambda>e. int (length (snd e))) m)"

definition subscribers_at :: "'s service_state \<Rightarrow> jstring \<Rightarrow> session_subscriber list" where
  "subscribers_at st i = (case js_map_get (sv_subscribers st) i of Some xs \<Rightarrow> xs | None \<Rightarrow> [])"

lemma total_set:
  "distinct (map fst m) \<Longrightarrow> total_subscribers (js_map_set k xs m)
     = total_subscribers m - int (length (case js_map_get m k of Some ys \<Rightarrow> ys | None \<Rightarrow> [])) + int (length xs)"
  by (induction k xs m rule: js_map_set.induct) (auto simp: total_subscribers_def js_map_get_def split: option.splits)

lemma js_map_delete_absent: "k \<notin> fst ` set m \<Longrightarrow> js_map_delete k m = m"
  by (force simp: js_map_delete_def filter_id_conv)

lemma total_delete:
  "distinct (map fst m) \<Longrightarrow> total_subscribers (js_map_delete k m)
     = total_subscribers m - int (length (case js_map_get m k of Some ys \<Rightarrow> ys | None \<Rightarrow> []))"
proof (induction m)
  case (Cons e m)
  show ?case
  proof (cases "fst e = k")
    case True
    then have "js_map_delete k (e # m) = m" using Cons.prems js_map_delete_absent [of k m] by (auto simp: js_map_delete_def)
    then show ?thesis using True by (cases e) (simp add: total_subscribers_def js_map_get_def)
  next
    case False
    then have "js_map_delete k (e # m) = e # js_map_delete k m" by (simp add: js_map_delete_def)
    then show ?thesis using False Cons by (cases e) (simp add: total_subscribers_def js_map_get_def)
  qed
qed (simp add: total_subscribers_def js_map_delete_def js_map_get_def)

definition subs_ok :: "'s service_state \<Rightarrow> bool" where
  "subs_ok st \<longleftrightarrow> distinct (map fst (sv_subscribers st))
     \<and> (\<forall>i xs. js_map_get (sv_subscribers st) i = Some xs \<longrightarrow> xs \<noteq> [] \<and> distinct (map sub_identity xs)
          \<and> (\<forall>x \<in> set xs. sub_identity x < sv_nextIdentity st))
     \<and> sv_subscriberCount st = total_subscribers (sv_subscribers st)"

lemma total_nonneg: "0 \<le> total_subscribers m"
  by (induction m) (simp_all add: total_subscribers_def)

text \<open>What calling and dropping listeners leaves alone.\<close>

definition only_drops :: "'s service_state \<Rightarrow> 's service_state \<Rightarrow> bool" where
  "only_drops st st' \<longleftrightarrow> sv_store st' = sv_store st \<and> sv_sessions st' = sv_sessions st
     \<and> sv_reservedSessions st' = sv_reservedSessions st \<and> sv_nextIdentity st' = sv_nextIdentity st
     \<and> sv_subscriberCount st' \<le> sv_subscriberCount st
     \<and> (\<forall>i. set (subscribers_at st' i) \<subseteq> set (subscribers_at st i))
     \<and> fst ` set (sv_subscribers st') \<subseteq> fst ` set (sv_subscribers st)
     \<and> (subs_ok st \<longrightarrow> subs_ok st')"

lemma only_drops_refl: "only_drops st st"
  by (simp add: only_drops_def)

lemma only_drops_trans:
  assumes "only_drops st st'" "only_drops st' st''"
  shows "only_drops st st''"
proof -
  have "set (subscribers_at st'' i) \<subseteq> set (subscribers_at st i)" for i
    using assms unfolding only_drops_def by (meson subset_trans)
  moreover have "fst ` set (sv_subscribers st'') \<subseteq> fst ` set (sv_subscribers st)"
    using assms unfolding only_drops_def by (meson subset_trans)
  moreover have "sv_subscriberCount st'' \<le> sv_subscriberCount st"
    using assms unfolding only_drops_def by (meson order_trans)
  moreover have "subs_ok st \<longrightarrow> subs_ok st''" using assms unfolding only_drops_def by meson
  moreover have "sv_store st'' = sv_store st" "sv_sessions st'' = sv_sessions st"
      "sv_reservedSessions st'' = sv_reservedSessions st" "sv_nextIdentity st'' = sv_nextIdentity st"
    using assms unfolding only_drops_def by metis+
  ultimately show ?thesis unfolding only_drops_def by meson
qed

lemma only_drops_call: "only_drops st (call_listener l e st)"
  by (simp add: only_drops_def call_listener_def subs_ok_def subscribers_at_def)

lemma distinct_identity_filter:
  "distinct (map sub_identity xs) \<Longrightarrow> a \<in> set (map sub_identity xs)
     \<Longrightarrow> int (length (filter (\<lambda>s. sub_identity s \<noteq> a) xs)) = int (length xs) - 1"
proof (induction xs)
  case (Cons x xs)
  show ?case
  proof (cases "sub_identity x = a")
    case True
    then have "filter (\<lambda>s. sub_identity s \<noteq> a) xs = xs" using Cons.prems(1) by (auto simp: filter_id_conv) (metis imageI)
    with True show ?thesis by simp
  qed (use Cons in auto)
qed simp

lemma js_map_delete_keys: "fst ` set (js_map_delete k m) = fst ` set m - {k}"
  by (force simp: js_map_delete_def)

lemma js_map_set_keys: "fst ` set (js_map_set k v m) = insert k (fst ` set m)"
  using keys_js_map_set [of k v m] by (metis (no_types, lifting) insert_absorb list.set_map list.simps(15) rotate1.simps(2) set_rotate1)

lemma only_drops_release: "only_drops st (releaseSubscriber i a st)"
proof (cases "js_map_get (sv_subscribers st) i")
  case None
  then show ?thesis by (simp add: releaseSubscriber_def only_drops_refl)
next
  case (Some xs)
  show ?thesis
  proof (cases "a \<in> set (map sub_identity xs)")
    case False
    with Some show ?thesis by (simp add: releaseSubscriber_def only_drops_refl)
  next
    case True
    let ?xs = "filter (\<lambda>s. sub_identity s \<noteq> a) xs"
    let ?m = "if ?xs = [] then js_map_delete i (sv_subscribers st) else js_map_set i ?xs (sv_subscribers st)"
    have rel: "releaseSubscriber i a st = st\<lparr>sv_subscriberCount := sv_subscriberCount st - 1, sv_subscribers := ?m\<rparr>"
      using True Some by (simp add: releaseSubscriber_def Let_def)
    have get: "js_map_get ?m j = (if j = i then if ?xs = [] then None else Some ?xs else js_map_get (sv_subscribers st) j)" for j
      by simp
    have keys: "fst ` set ?m \<subseteq> fst ` set (sv_subscribers st)"
      using Some by (auto simp: js_map_delete_keys js_map_set_keys js_map_get_def image_iff dest!: map_of_SomeD) force
    have "subs_ok (st\<lparr>sv_subscriberCount := sv_subscriberCount st - 1, sv_subscribers := ?m\<rparr>)" if ok: "subs_ok st"
    proof -
      from ok Some have d: "distinct (map fst (sv_subscribers st))" "distinct (map sub_identity xs)"
        by (auto simp: subs_ok_def)
      have "total_subscribers ?m = total_subscribers (sv_subscribers st) - 1"
        using total_set [OF d(1), of i ?xs] total_delete [OF d(1), of i] Some distinct_identity_filter [OF d(2) True] by auto
      moreover have "distinct (map fst ?m)" using d(1) by (simp add: distinct_js_map_set distinct_js_map_delete)
      ultimately show ?thesis
        using ok Some unfolding subs_ok_def service_state.simps get by (auto simp: distinct_map_filter split: if_splits)
    qed
    moreover have "set (subscribers_at (st\<lparr>sv_subscriberCount := c, sv_subscribers := ?m\<rparr>) j) \<subseteq> set (subscribers_at st j)" for j c
      using Some unfolding subscribers_at_def service_state.simps get by auto
    ultimately show ?thesis using keys unfolding rel only_drops_def by simp
  qed
qed

lemma release_calls [simp]: "sv_calls (releaseSubscriber i a st) = sv_calls st"
  by (auto simp: releaseSubscriber_def Let_def split: option.splits)

lemma only_drops_deliver: "only_drops st (deliver config i snap st sub)"
  by (auto simp: deliver_def Let_def intro: only_drops_trans [OF only_drops_call only_drops_release] only_drops_call)

lemma deliver_calls:
  "sv_calls (deliver config i snap st sub) = sv_calls st @ [(sub_listener sub, snapshot_event i (sub_requestId sub) snap)]"
  by (simp add: deliver_def Let_def call_listener_def)

lemma delivered:
  "only_drops st (foldl (deliver config i snap) st subs)
   \<and> sv_calls (foldl (deliver config i snap) st subs)
       = sv_calls st @ map (\<lambda>s. (sub_listener s, snapshot_event i (sub_requestId s) snap)) subs"
proof (induction subs arbitrary: st)
  case (Cons s subs)
  from Cons [of "deliver config i snap st s"] show ?case
    by (auto simp: deliver_calls intro: only_drops_trans [OF only_drops_deliver])
qed (simp add: only_drops_refl)

text \<open>Publishing calls every subscriber of the session once, in order, and drops those that throw.\<close>

lemma published:
  "only_drops st (publish config i snap st)
   \<and> sv_calls (publish config i snap st)
       = sv_calls st @ map (\<lambda>s. (sub_listener s, snapshot_event i (sub_requestId s) snap)) (subscribers_at st i)"
proof (cases "js_map_get (sv_subscribers st) i")
  case None
  then show ?thesis by (simp add: publish_def only_drops_refl subscribers_at_def)
next
  case (Some subs)
  let ?st = "foldl (deliver config i snap) st subs"
  have "only_drops ?st (?st\<lparr>sv_subscribers := js_map_delete i (sv_subscribers ?st)\<rparr>)"
    if "js_map_get (sv_subscribers ?st) i = Some []"
    using that total_delete [of "sv_subscribers ?st" i]
    by (auto simp: only_drops_def subs_ok_def distinct_js_map_delete js_map_delete_keys subscribers_at_def split: option.splits)
  with delivered [of st config i snap subs] Some show ?thesis
    by (auto simp: publish_def Let_def subscribers_at_def intro: only_drops_trans)
qed

lemma replayed:
  "only_drops st (fst (replay config l events st))"
proof (induction events arbitrary: st)
  case (Cons e events)
  show ?case
    using Cons [of "call_listener l e st"]
    by (auto simp: Let_def intro: only_drops_trans [OF only_drops_call] only_drops_call)
qed (simp add: only_drops_refl)

end
