(* ===== verification/Service_Invariant.thy ===== *)
theory Service_Invariant
  imports Service_Proofs
begin

text \<open>
  The invariant of the session service, over any store with the contract of \<open>Session_Store\<close>: the
  store, the trackers and the subscriptions agree with one another and stay within their bounds.
\<close>

section \<open>Agreement of a record and its tracker\<close>

definition kept_snapshots :: "reading_snapshot list \<Rightarrow> reading_snapshot \<Rightarrow> bool" where
  "kept_snapshots snaps snap \<longleftrightarrow> snaps \<noteq> [] \<and> last snaps = snap
     \<and> map snap_revision snaps = [Suc (snap_revision snap) - SNAPSHOT_LIMIT..<Suc (snap_revision snap)]"

lemma kept_single: "snap_revision snap = 0 \<Longrightarrow> kept_snapshots [snap] snap"
  by (simp add: kept_snapshots_def SNAPSHOT_LIMIT_def)

lemma kept_push:
  assumes "kept_snapshots snaps old" "snap_revision snap = Suc (snap_revision old)"
  shows "kept_snapshots (last_snapshots (snaps @ [snap])) snap"
proof -
  let ?R = "snap_revision old"
  have rev: "map snap_revision snaps = [Suc ?R - SNAPSHOT_LIMIT..<Suc ?R]" using assms(1) by (simp add: kept_snapshots_def)
  have len: "length snaps = Suc ?R - (Suc ?R - SNAPSHOT_LIMIT)" using arg_cong [OF rev, of length] by (simp del: upt_Suc)
  have "map snap_revision (last_snapshots (snaps @ [snap]))
      = drop (Suc (length snaps) - SNAPSHOT_LIMIT) [Suc ?R - SNAPSHOT_LIMIT..<Suc (Suc ?R)]"
    by (simp add: last_snapshots_def drop_map [symmetric] rev assms(2) upt_Suc_append del: drop_append upt_Suc)
  also have "\<dots> = [Suc (snap_revision snap) - SNAPSHOT_LIMIT..<Suc (snap_revision snap)]"
    unfolding drop_upt len assms(2) by (intro arg_cong2 [where f = upt]) (simp_all add: SNAPSHOT_LIMIT_def)
  finally have "map snap_revision (last_snapshots (snaps @ [snap]))
      = [Suc (snap_revision snap) - SNAPSHOT_LIMIT..<Suc (snap_revision snap)]" .
  moreover have "last_snapshots (snaps @ [snap]) \<noteq> []" "last (last_snapshots (snaps @ [snap])) = snap"
    by (simp_all add: last_snapshots_def SNAPSHOT_LIMIT_def)
  ultimately show ?thesis by (simp add: kept_snapshots_def)
qed

definition session_ok :: "session_runtime \<Rightarrow> session_record \<Rightarrow> bool" where
  "session_ok rt r \<longleftrightarrow> (\<exists>c. tracker_ok c (rt_config rt) (rt_tracker rt))
     \<and> rec_snapshot r = snapshot (rt_tracker rt)
     \<and> rec_observationIds r = observationIdOrder (rt_tracker rt)
     \<and> rec_latestSourceRevision r = latestSourceRevision (rt_tracker rt)
     \<and> kept_snapshots (rec_snapshots r) (rec_snapshot r)"

lemma session_ok_kept: "session_ok rt r \<Longrightarrow> kept_snapshots (rec_snapshots r) (snapshot (rt_tracker rt))"
  unfolding session_ok_def by metis

text \<open>What the callback of \<open>submit\<close> does to a session in agreement.\<close>

definition submitted_record :: "session_record \<Rightarrow> recitation_observation \<Rightarrow> reading_snapshot \<Rightarrow> session_record" where
  "submitted_record r obs snap = r\<lparr>rec_snapshot := snap, rec_snapshots := last_snapshots (rec_snapshots r @ [snap]),
     rec_observationIds := last_ids (rec_observationIds r @ [observationId obs]),
     rec_latestSourceRevision := sourceRevision obs\<rparr>"

lemma submit_mutation_cases:
  assumes "session_ok rt r" "js_map_get sessions i = Some rt" "validateObservation v = Inr ()"
  shows "submit_mutation i v r (sessions, changed) =
      (if observationId (read_observation v) \<in> set (rec_observationIds r) then ((sessions, changed), Inr r)
       else if sourceRevision (read_observation v) < rec_latestSourceRevision r
       then ((sessions, changed), Inl (trustedError STALE_REVISION ''Observation source revision is stale'' False
              (stale_details (rec_latestSourceRevision r) (sourceRevision (read_observation v)))))
       else (let tracker = fst (submit_observation (rt_config rt) (rt_tracker rt) v)
             in ((js_map_set i (rt\<lparr>rt_tracker := tracker\<rparr>) sessions, True),
                 Inr (submitted_record r (read_observation v) (snapshot tracker)))))
    \<and> (observationId (read_observation v) \<notin> set (rec_observationIds r)
       \<longrightarrow> rec_latestSourceRevision r \<le> sourceRevision (read_observation v)
       \<longrightarrow> (let tracker = fst (submit_observation (rt_config rt) (rt_tracker rt) v)
           in session_ok (rt\<lparr>rt_tracker := tracker\<rparr>) (submitted_record r (read_observation v) (snapshot tracker))
              \<and> snap_revision (snapshot tracker) = Suc (snap_revision (rec_snapshot r))
              \<and> snap_observationId (snapshot tracker) = Some (observationId (read_observation v))))"
proof (cases "observationId (read_observation v) \<in> set (rec_observationIds r)
    \<or> sourceRevision (read_observation v) < rec_latestSourceRevision r")
  case True
  then show ?thesis by (auto simp: submit_mutation_def Let_def)
next
  case False
  let ?obs = "read_observation v"
  obtain c where ok: "tracker_ok c (rt_config rt) (rt_tracker rt)" using assms(1) by (auto simp: session_ok_def)
  then have ids: "observationIds (rt_tracker rt) = observationIdOrder (rt_tracker rt)" by (simp add: tracker_ok_def core_ok_def)
  have agree: "rec_snapshot r = snapshot (rt_tracker rt)" "rec_observationIds r = observationIdOrder (rt_tracker rt)"
      "rec_latestSourceRevision r = latestSourceRevision (rt_tracker rt)" "kept_snapshots (rec_snapshots r) (rec_snapshot r)"
    using assms(1) unfolding session_ok_def by blast+
  from submit_cases [OF ok, of v] assms(3) False agree ids obtain t where
    t: "submit_observation (rt_config rt) (rt_tracker rt) v = (t, Inr (snapshot t))" "accepted c (rt_config rt) (rt_tracker rt) v t"
    by auto
  have acc: "tracker_ok c (rt_config rt) t" "snap_revision (snapshot t) = Suc (snap_revision (snapshot (rt_tracker rt)))"
      "snap_observationId (snapshot t) = Some (observationId ?obs)"
      "observationIdOrder t = last_ids (observationIdOrder (rt_tracker rt) @ [observationId ?obs])"
      "latestSourceRevision t = sourceRevision ?obs"
    using t(2) unfolding accepted_def by blast+
  have "session_ok (rt\<lparr>rt_tracker := t\<rparr>) (submitted_record r ?obs (snapshot t))"
    using acc agree kept_push [OF agree(4)] by (auto simp: session_ok_def submitted_record_def)
  moreover have "submit_mutation i v r (sessions, changed) =
      ((js_map_set i (rt\<lparr>rt_tracker := t\<rparr>) sessions, True), Inr (submitted_record r ?obs (snapshot t)))"
    using False t(1) assms(2) acc(2)
    by (simp add: submit_mutation_def Let_def getSnapshot_def submitted_record_def last_ids_def
        OBSERVATION_ID_LIMIT_def SERVICE_OBSERVATION_ID_LIMIT_def)
  ultimately show ?thesis using t(1) False acc(2,3) agree(1) by (simp add: Let_def)
qed

text \<open>What the callback of \<open>reset\<close> does.\<close>

lemma reset_mutation_cases:
  assumes "session_ok rt r" "reset_mutation i location rt r (sessions, changed) = (w, result)"
  shows "\<exists>t. w = (js_map_set i (rt\<lparr>rt_tracker := t\<rparr>) sessions, changed)
    \<and> (case result of Inl e \<Rightarrow> session_ok (rt\<lparr>rt_tracker := t\<rparr>) r
       | Inr r' \<Rightarrow> session_ok (rt\<lparr>rt_tracker := t\<rparr>) r' \<and> rec_snapshot r' = snapshot t
           \<and> snap_revision (snapshot t) = Suc (snap_revision (rec_snapshot r)))"
proof -
  obtain c where ok: "tracker_ok c (rt_config rt) (rt_tracker rt)" using assms(1) by (auto simp: session_ok_def)
  obtain t x where reset: "reset_tracker (rt_config rt) (rt_tracker rt) location = (t, x)" by (rule prod.exhaust)
  have t: "tracker_ok c (rt_config rt) t" using reset_ok [OF ok, of location] reset by simp
  show ?thesis
  proof (cases x)
    case (Inl e)
    then have "t = rt_tracker rt" using reset by (auto simp: reset_tracker_def Let_def split: sum.splits)
    with Inl reset assms show ?thesis by (intro exI [of _ t]) (auto simp: reset_mutation_def)
  next
    case (Inr snap)
    then have st: "snap = snapshot t" "observationIdOrder t = []" "latestSourceRevision t = -1"
        "snap_revision (snapshot t) = Suc (snap_revision (snapshot (rt_tracker rt)))"
      using reset by (auto simp: reset_tracker_def Let_def initial_state_def initial_snapshot_def split: sum.splits)
    have "kept_snapshots (last_snapshots (rec_snapshots r @ [snapshot t])) (snapshot t)"
      using kept_push [OF session_ok_kept [OF assms(1)] st(4)] .
    then show ?thesis
      using Inr reset assms st t by (intro exI [of _ t]) (auto simp: reset_mutation_def session_ok_def)
  qed
qed

section \<open>The invariant\<close>

definition service_ok :: "service_config \<Rightarrow> ('s \<Rightarrow> jstring \<Rightarrow> session_record option) \<Rightarrow> 's service_state \<Rightarrow> bool" where
  "service_ok config records st \<longleftrightarrow>
     (\<forall>i. records (sv_store st) i = None \<longleftrightarrow> js_map_get (sv_sessions st) i = None)
     \<and> (\<forall>i rt r. js_map_get (sv_sessions st) i = Some rt \<longrightarrow> records (sv_store st) i = Some r \<longrightarrow> session_ok rt r)
     \<and> distinct (map fst (sv_sessions st)) \<and> 0 \<le> sv_reservedSessions st
     \<and> int (length (sv_sessions st)) + sv_reservedSessions st \<le> sc_maxSessions config
     \<and> subs_ok st \<and> sv_subscriberCount st \<le> sc_maxSubscribers config
     \<and> (\<forall>i \<in> fst ` set (sv_subscribers st). js_map_get (sv_sessions st) i \<noteq> None)"

lemma service_ok_drops: "service_ok config records st \<Longrightarrow> only_drops st st' \<Longrightarrow> service_ok config records st'"
  unfolding service_ok_def only_drops_def by (elim conjE, intro conjI) (simp_all, force+)

lemma length_js_map_set:
  "length (js_map_set k v m) = (if k \<in> fst ` set m then length m else Suc (length m))"
  using arg_cong [OF keys_js_map_set [of k v m], of length] by (auto split: if_splits)

lemma get_some_key: "js_map_get m k = Some v \<Longrightarrow> k \<in> fst ` set m"
  using js_map_has_iff [of m k] by (simp add: js_map_has_def)

lemma get_none_key: "js_map_get m k = None \<Longrightarrow> k \<notin> fst ` set m"
  using js_map_has_iff [of m k] by (simp add: js_map_has_def)

lemma service_ok_session:
  assumes "service_ok config records st" "js_map_get (sv_sessions st) i = Some rt"
    "session_ok rt' r'" "records s' = (records (sv_store st))(i \<mapsto> r')"
  shows "service_ok config records (st\<lparr>sv_store := s', sv_sessions := js_map_set i rt' (sv_sessions st)\<rparr>)"
  using assms get_some_key [OF assms(2)]
  by (auto simp: service_ok_def length_js_map_set distinct_js_map_set subs_ok_def)

lemma service_ok_same:
  assumes "service_ok config records st" "records s' = records (sv_store st)"
  shows "service_ok config records (st\<lparr>sv_store := s'\<rparr>)"
  using assms by (auto simp: service_ok_def subs_ok_def)

section \<open>Every operation keeps it\<close>

lemma create_location_symbol:
  "createReadingTracker index initial mode = Inr (config, t) \<Longrightarrow> snap_revision (snapshot t) = 0
     \<and> observationIdOrder t = [] \<and> latestSourceRevision t = -1"
  by (auto simp: createReadingTracker_def Let_def ebind_Inr_iff initial_state_def initial_snapshot_def split: if_splits)

lemma corpusFor_indexed:
  assumes "indexedCorpusFor config i = Inr index"
  shows "\<exists>v. index = build_index (read_corpus v) \<and> wf_corpus (read_corpus v)"
proof -
  from assms obtain v where "(case indexCorpus v of Inl e \<Rightarrow> Inl (CoreFailure e) | Inr ix \<Rightarrow> Inr ix) = Inr index"
    by (auto simp: indexedCorpusFor_def ebind_Inr_iff)
  then have "indexCorpus v = Inr index" by (cases "indexCorpus v") auto
  then show ?thesis using indexCorpus_wf [of v] indexCorpus_Inr [of v index] by blast
qed

locale service_storage = session_storage S records
  for S :: "('s, update_world) session_store" and records :: "'s \<Rightarrow> jstring \<Rightarrow> session_record option"
begin

lemma create_call_ok:
  "service_ok config records st \<Longrightarrow> service_ok config records (fst (create_call config st))"
  by (auto simp: create_call_def reserveSession_def service_ok_def subs_ok_def)

lemma create_body_ok:
  assumes ok: "service_ok config records st" and reserved: "0 < sv_reservedSessions st"
  shows "service_ok config records (releaseSessionReservation (fst (create_body S config i cmd st)))
    \<and> sv_reservedSessions (fst (create_body S config i cmd st)) = sv_reservedSessions st"
proof -
  have rel: "service_ok config records (releaseSessionReservation st)"
    using ok reserved by (auto simp: releaseSessionReservation_def service_ok_def subs_ok_def)
  show ?thesis
  proof (cases "indexedCorpusFor config (the_str (js_get cmd ''corpusId''))")
    case (Inl e)
    with rel show ?thesis by (simp add: create_body_def)
  next
    case (Inr index)
    let ?l = "command_location cmd ''initialLocation''"
    show ?thesis
    proof (cases "createReadingTracker index ?l (command_mode cmd)")
      case (Inl e)
      with Inr rel show ?thesis by (simp add: create_body_def Let_def)
    next
      case (Inr ct)
      obtain tc t where ct: "ct = (tc, t)" by (rule prod.exhaust)
      from corpusFor_indexed [OF \<open>indexedCorpusFor _ _ = Inr index\<close>] obtain v where
        v: "index = build_index (read_corpus v)" "wf_corpus (read_corpus v)" by blast
      have tracker: "tracker_ok (read_corpus v) tc t" using create_ok [OF v(2)] Inr ct v(1) by blast
      let ?r = "\<lparr>rec_sessionId = i, rec_corpusId = the_str (js_get cmd ''corpusId''), rec_snapshot = getSnapshot t,
          rec_snapshots = [getSnapshot t], rec_observationIds = [], rec_latestSourceRevision = -1\<rparr>"
      have new: "session_ok \<lparr>rt_config = tc, rt_tracker = t\<rparr> ?r"
        using tracker create_location_symbol [OF Inr [unfolded ct]] kept_single [of "snapshot t"]
        by (auto simp: session_ok_def getSnapshot_def)
      show ?thesis
      proof (cases "records (sv_store st) i")
        case None
        with create_new [of "sv_store st" ?r] obtain s' where
          s': "store_create S (sv_store st) ?r = (s', Inr ())" "records s' = (records (sv_store st))(i \<mapsto> ?r)" by auto
        have "js_map_get (sv_sessions st) i = None" using ok None by (simp add: service_ok_def)
        then have "service_ok config records (st\<lparr>sv_store := s',
            sv_sessions := js_map_set i \<lparr>rt_config = tc, rt_tracker = t\<rparr> (sv_sessions st),
            sv_reservedSessions := sv_reservedSessions st - 1\<rparr>)"
          using ok reserved s'(2) new get_none_key [of "sv_sessions st" i]
          by (auto simp: service_ok_def length_js_map_set distinct_js_map_set subs_ok_def)
        with \<open>indexedCorpusFor _ _ = Inr index\<close> Inr ct s'(1) rel show ?thesis
          by (simp add: create_body_def Let_def releaseSessionReservation_def)
      next
        case (Some r0)
        with create_taken [of "sv_store st" ?r] obtain s' where
          s': "store_create S (sv_store st) ?r = (s', Inl (RecordExists i))" "records s' = records (sv_store st)" by auto
        have "service_ok config records (releaseSessionReservation (st\<lparr>sv_store := s'\<rparr>))"
          using rel s'(2) by (auto simp: releaseSessionReservation_def service_ok_def subs_ok_def)
        with \<open>indexedCorpusFor _ _ = Inr index\<close> Inr ct s'(1) rel show ?thesis
          by (simp add: create_body_def Let_def)
      qed
    qed
  qed
qed

lemma create_run_ok:
  "service_ok config records st \<Longrightarrow> 0 < sv_reservedSessions st
     \<Longrightarrow> service_ok config records (fst (create_run S config i cmd st))
       \<and> sv_reservedSessions (fst (create_run S config i cmd st)) = sv_reservedSessions st - 1"
  using create_body_ok [of config st i cmd]
  by (cases "create_body S config i cmd st") (auto simp: create_run_def releaseSessionReservation_def)

lemma reset_session_ok:
  assumes "service_ok config records st"
  shows "service_ok config records (fst (reset_session S config cmd st))
    \<and> sv_reservedSessions (fst (reset_session S config cmd st)) = sv_reservedSessions st"
proof -
  let ?i = "the_str (js_get cmd ''sessionId'')" and ?l = "command_location cmd ''location''"
  show ?thesis
  proof (cases "js_map_get (sv_sessions st) ?i")
    case None
    with assms show ?thesis by (simp add: reset_session_def Let_def)
  next
    case (Some rt)
    then have "records (sv_store st) ?i \<noteq> None" using assms by (simp add: service_ok_def)
    then obtain r where r: "records (sv_store st) ?i = Some r" by blast
    with Some assms have ok: "session_ok rt r" by (auto simp: service_ok_def)
    show ?thesis
    proof (cases rule: update_cases [of "sv_store st" ?i "reset_mutation ?i ?l rt" "(sv_sessions st, False)"])
      case (missing s')
      with r show ?thesis by simp
    next
      case (throws r0 w e s')
      with r have r0: "r0 = r" by simp
      from reset_mutation_cases [OF ok throws(2) [unfolded r0]] obtain t where
        t: "w = (js_map_set ?i (rt\<lparr>rt_tracker := t\<rparr>) (sv_sessions st), False)" "session_ok (rt\<lparr>rt_tracker := t\<rparr>) r" by auto
      have "records s' = (records (sv_store st))(?i \<mapsto> r)" using throws(4) r by auto
      from service_ok_session [OF assms Some t(2) this] throws(3) t(1) Some assms show ?thesis
        by (simp add: reset_session_def Let_def)
    next
      case (returns r0 w r' s')
      with r have r0: "r0 = r" by simp
      from reset_mutation_cases [OF ok returns(2) [unfolded r0]] obtain t where
        t: "w = (js_map_set ?i (rt\<lparr>rt_tracker := t\<rparr>) (sv_sessions st), False)" "session_ok (rt\<lparr>rt_tracker := t\<rparr>) r'" by auto
      let ?st = "st\<lparr>sv_store := s', sv_sessions := js_map_set ?i (rt\<lparr>rt_tracker := t\<rparr>) (sv_sessions st)\<rparr>"
      have "only_drops ?st (publish config ?i (rec_snapshot r') ?st)" using published by blast
      with service_ok_session [OF assms Some t(2) returns(4)] have
        "service_ok config records (publish config ?i (rec_snapshot r') ?st)"
        "sv_reservedSessions (publish config ?i (rec_snapshot r') ?st) = sv_reservedSessions st"
        by (auto intro: service_ok_drops simp: only_drops_def)
      with returns(3) t(1) Some assms show ?thesis by (simp add: reset_session_def Let_def)
    qed
  qed
qed

end

end
