(* ===== verification/Service_Outcomes.thy ===== *)
theory Service_Outcomes
  imports Service_Invariant
begin

text \<open>
  How the session service answers: \<open>submit\<close> on every branch, \<open>resume\<close>, \<open>subscribe\<close> and \<open>delete\<close>,
  over any store with the contract of \<open>Session_Store\<close>; then the states the service over the
  volatile store can reach by any order of operations, and the properties of the service.
\<close>

section \<open>Refused observations\<close>

definition submit_input_ok :: "service_config \<Rightarrow> js \<Rightarrow> bool" where
  "submit_input_ok config cmd \<longleftrightarrow> withJsonPreflight (sc_ajv config) ObservationSchema (command_observation cmd) = []
     \<and> validateObservation (command_observation cmd) = Inr ()"

lemma validateObservation_TypeError: "validateObservation v = Inl e \<Longrightarrow> \<exists>m. e = TypeError m"
  using throws_validateObservation [of v] by (auto simp: throws_in_def observation_errors_def literals_def)

lemma assertValidObservation_cases:
  "assertValidObservation ajv v = Inr () \<longleftrightarrow>
     withJsonPreflight ajv ObservationSchema v = [] \<and> validateObservation v = Inr ()"
  "assertValidObservation ajv v = Inl x \<Longrightarrow> \<exists>e. x = ProtocolFailure e \<and> sendable e \<and> qe_code e = INVALID_OBSERVATION"
proof -
  show "assertValidObservation ajv v = Inr () \<longleftrightarrow>
     withJsonPreflight ajv ObservationSchema v = [] \<and> validateObservation v = Inr ()"
    by (auto simp: assertValidObservation_def Let_def assertObservationDomain_def split: sum.splits js_error.splits)
  show "\<exists>e. x = ProtocolFailure e \<and> sendable e \<and> qe_code e = INVALID_OBSERVATION"
    if "assertValidObservation ajv v = Inl x"
    using that validateObservation_TypeError [of v]
    by (auto simp: assertValidObservation_def Let_def assertObservationDomain_def protocolError_def sendable_def
        split: sum.splits js_error.splits if_splits)
qed

lemma submit_refused:
  assumes "\<not> submit_input_ok config cmd"
  shows "\<exists>e. submit_session S config cmd st = (st, Inl (ProtocolFailure e))
    \<and> qe_code e = INVALID_OBSERVATION \<and> qe_trusted e \<and> sendable e"
proof (cases "assertValidObservation (sc_ajv config) (command_observation cmd)")
  case (Inl x)
  from assertValidObservation_cases(2) [OF this] obtain e where
    e: "x = ProtocolFailure e" "sendable e" "qe_code e = INVALID_OBSERVATION" by blast
  with Inl trustProtocolError_eq [OF e(2)] show ?thesis
    by (simp add: submit_session_def Let_def sendable_def)
next
  case (Inr u)
  with assms assertValidObservation_cases(1) [of "sc_ajv config" "command_observation cmd"] show ?thesis
    by (simp add: submit_input_ok_def)
qed

section \<open>Refused corpora\<close>

text \<open>A trusted protocol error of the given code, which can be sent.\<close>

definition typed_failure :: "qaraa_error_code \<Rightarrow> server_error \<Rightarrow> bool" where
  "typed_failure code x \<longleftrightarrow> (\<exists>e. x = ProtocolFailure e \<and> qe_code e = code \<and> qe_trusted e \<and> sendable e)"

lemma trustedError_typed [simp]: "json_object details \<Longrightarrow> typed_failure code (protocolError True code m b details)"
  by (simp add: typed_failure_def protocolError_def sendable_def)

lemma invalidDomainPayload_typed [simp]: "typed_failure code (invalidDomainPayload code)"
  by (simp add: invalidDomainPayload_def)

lemma details_json [simp]: "json_object (corpus_details i)" "json_object (session_details i)"
  by (simp_all add: corpus_details_def session_details_def json_object_def)

lemma assertValidCorpus_failure:
  assumes "assertValidCorpus ajv v = Inl x"
  obtains e where "x = ProtocolFailure e" "typed_failure INVALID_CORPUS (trustProtocolError e)"
proof -
  let ?issues = "withJsonPreflight ajv CorpusSchema v"
  have "x = protocolError False INVALID_CORPUS (lit ''Corpus payload is invalid'') False (schemaDetails ?issues)
      \<or> x = protocolError False INVALID_CORPUS (lit ''Corpus payload is invalid'') False domain_details"
    using assms unfolding assertValidCorpus_def Let_def by (simp split: if_splits)
  then obtain details where
    "json_object details" "x = protocolError False INVALID_CORPUS (lit ''Corpus payload is invalid'') False details"
    using schemaDetails_json domain_details_json by metis
  then show thesis
    using that by (auto simp: protocolError_def trustProtocolError_def typed_failure_def sendable_def)
qed

lemma assertDomainCorpus_valid: "assertDomainCorpus v = Inr () \<Longrightarrow> validateCorpus v = Inr ()"
  by (auto simp: assertDomainCorpus_def split: sum.splits if_splits)

lemma corpusFor_failure:
  assumes "\<And>resolve j x. sc_resolveCorpus config = Some resolve \<Longrightarrow> resolve j \<noteq> Inl x" "corpusFor config i = Inl x"
  shows "typed_failure INVALID_CORPUS x"
proof -
  let ?fixed = "case sc_corpus config of Some c \<Rightarrow> if js_get c ''corpusId'' = JStr i then Some c else None | None \<Rightarrow> None"
  let ?found = "case ?fixed of Some c \<Rightarrow> Inr (Some c)
      | None \<Rightarrow> (case sc_resolveCorpus config of Some resolve \<Rightarrow> resolve i | None \<Rightarrow> Inr None)"
  obtain found where found: "?found = Inr found"
    using assms(1) by (cases ?found) (auto split: option.splits)
  show ?thesis
  proof (cases found)
    case None
    then show ?thesis using assms(2) found by (auto simp: corpusFor_def Let_def)
  next
    case (Some c)
    show ?thesis
    proof (cases "assertValidCorpus (sc_ajv config) c")
      case (Inl y)
      from assertValidCorpus_failure [OF Inl] obtain e where
        "y = ProtocolFailure e" "typed_failure INVALID_CORPUS (trustProtocolError e)" .
      with Inl Some assms(2) found show ?thesis by (auto simp: corpusFor_def Let_def)
    next
      case (Inr u)
      show ?thesis
      proof (cases "assertDomainCorpus c")
        case (Inl y)
        then have "y = invalidDomainPayload INVALID_CORPUS"
          using domain_corpus_errors [OF Inl] assertValidCorpus_resolved [of "sc_ajv config" c] \<open>assertValidCorpus _ c = Inr u\<close> by auto
        with Inl Inr Some assms(2) found show ?thesis by (auto simp: corpusFor_def Let_def)
      next
        case domain: (Inr u)
        with Inr Some assms(2) found show ?thesis by (auto simp: corpusFor_def Let_def split: if_splits)
      qed
    qed
  qed
qed

lemma indexedCorpusFor_failure:
  assumes "\<And>resolve j x. sc_resolveCorpus config = Some resolve \<Longrightarrow> resolve j \<noteq> Inl x" "indexedCorpusFor config i = Inl x"
  shows "typed_failure INVALID_CORPUS x"
proof (cases "corpusFor config i")
  case (Inl y)
  then have "typed_failure INVALID_CORPUS y" by (rule corpusFor_failure [rotated]) (rule assms(1))
  with Inl assms(2) show ?thesis by (simp add: indexedCorpusFor_def)
next
  case (Inr c)
  then have "assertDomainCorpus c = Inr ()"
    by (auto simp: corpusFor_def Let_def ebind_Inr_iff split: option.splits sum.splits server_error.splits if_splits)
  then have "indexCorpus c = Inr (build_index (read_corpus c))" by (simp add: indexCorpus_Inr assertDomainCorpus_valid)
  with Inr assms(2) show ?thesis by (simp add: indexedCorpusFor_def)
qed

section \<open>The operations over a store with the contract\<close>

text \<open>Nothing a consumer can see has changed.\<close>

definition unchanged :: "('s \<Rightarrow> jstring \<Rightarrow> session_record option) \<Rightarrow> 's service_state \<Rightarrow> 's service_state \<Rightarrow> bool" where
  "unchanged records st st' \<longleftrightarrow> records (sv_store st') = records (sv_store st) \<and> sv_sessions st' = sv_sessions st
     \<and> sv_subscribers st' = sv_subscribers st \<and> sv_subscriberCount st' = sv_subscriberCount st
     \<and> sv_reservedSessions st' = sv_reservedSessions st \<and> sv_calls st' = sv_calls st"

lemma unchanged_store: "records s' = records (sv_store st) \<Longrightarrow> unchanged records st (st\<lparr>sv_store := s'\<rparr>)"
  by (simp add: unchanged_def)

text \<open>The answer to a well-formed observation for a session with record \<open>r\<close>.\<close>

definition submit_answer :: "service_config \<Rightarrow> ('s \<Rightarrow> jstring \<Rightarrow> session_record option) \<Rightarrow> js \<Rightarrow> session_record
    \<Rightarrow> 's service_state \<Rightarrow> 's service_state \<Rightarrow> server_error + qaraa_event \<Rightarrow> bool" where
  "submit_answer config records cmd r st st' result \<longleftrightarrow>
     (let i = the_str (js_get cmd ''sessionId''); requestId = the_str (js_get cmd ''requestId'');
          obs = read_observation (command_observation cmd) in
      if observationId obs \<in> set (rec_observationIds r)
      then result = Inr (snapshot_event i requestId (rec_snapshot r)) \<and> unchanged records st st'
      else if sourceRevision obs < rec_latestSourceRevision r
      then result = Inl (trustedError STALE_REVISION ''Observation source revision is stale'' False
             (stale_details (rec_latestSourceRevision r) (sourceRevision obs))) \<and> unchanged records st st'
      else (\<exists>snap. snap_revision snap = Suc (snap_revision (rec_snapshot r))
          \<and> snap_observationId snap = Some (observationId obs)
          \<and> result = Inr (snapshot_event i requestId snap)
          \<and> records (sv_store st') = (records (sv_store st))(i \<mapsto> submitted_record r obs snap)
          \<and> sv_calls st' = sv_calls st @ map (\<lambda>s. (sub_listener s, snapshot_event i (sub_requestId s) snap)) (subscribers_at st i)))"

lemma session_present:
  assumes "service_ok config records st" "records (sv_store st) i = Some r"
  obtains rt where "js_map_get (sv_sessions st) i = Some rt" "session_ok rt r"
proof (cases "js_map_get (sv_sessions st) i")
  case None
  have "records (sv_store st) i = None \<longleftrightarrow> js_map_get (sv_sessions st) i = None"
    using assms(1) unfolding service_ok_def by blast
  with None assms(2) show thesis by simp
next
  case (Some rt)
  with assms that show thesis unfolding service_ok_def by blast
qed

lemma missed_revisions:
  assumes "kept_snapshots snaps snap" "-1 \<le> l" "int (snap_revision snap) \<le> l + int SNAPSHOT_LIMIT"
  shows "map snap_revision (missed_snapshots l snaps) = [nat (l + 1)..<Suc (snap_revision snap)]"
proof -
  have upt: "filter (\<lambda>n. l < int n) [a..<b] = [nat (l + 1)..<b]" if "-1 \<le> l" "int a \<le> l + 1" for a b
    using that by (induction b) (auto simp: nat_le_iff)
  have "map snap_revision (missed_snapshots l snaps) = filter (\<lambda>n. l < int n) (map snap_revision snaps)"
    by (simp add: missed_snapshots_def filter_map comp_def)
  also have "\<dots> = [nat (l + 1)..<Suc (snap_revision snap)]"
    using assms unfolding kept_snapshots_def by (simp add: upt SNAPSHOT_LIMIT_def del: upt_Suc)
  finally show ?thesis .
qed

context service_storage
begin

lemma submit_session_known:
  assumes ok: "service_ok config records st" and input: "submit_input_ok config cmd"
    and r: "records (sv_store st) (the_str (js_get cmd ''sessionId'')) = Some r"
  shows "case submit_session S config cmd st of (st', result) \<Rightarrow>
    service_ok config records st' \<and> sv_reservedSessions st' = sv_reservedSessions st
    \<and> submit_answer config records cmd r st st' result"
proof -
  let ?i = "the_str (js_get cmd ''sessionId'')" and ?v = "command_observation cmd"
  let ?obs = "read_observation ?v"
  obtain rt where rt: "js_map_get (sv_sessions st) ?i = Some rt" and agree: "session_ok rt r"
    by (rule session_present [OF ok r])
  have valid: "validateObservation ?v = Inr ()" "assertValidObservation (sc_ajv config) ?v = Inr ()"
      "assertDomainObservation ?v = Inr ()"
    using input assertValidObservation_cases(1) by (simp_all add: submit_input_ok_def assertDomainObservation_def)
  note mut = submit_mutation_cases [OF agree rt valid(1), of False]
  show ?thesis
  proof (cases rule: update_cases [of "sv_store st" ?i "submit_mutation ?i ?v" "(sv_sessions st, False)"])
    case (missing s')
    with r show ?thesis by simp
  next
    case (throws r0 w e s')
    with r have r0: "r0 = r" by simp
    have stale: "observationId ?obs \<notin> set (rec_observationIds r)" "sourceRevision ?obs < rec_latestSourceRevision r"
        "w = (sv_sessions st, False)"
        "e = trustedError STALE_REVISION ''Observation source revision is stale'' False
           (stale_details (rec_latestSourceRevision r) (sourceRevision ?obs))"
      using mut throws(2) unfolding r0 by (auto simp: Let_def split: if_splits)
    have fail: "session_failure ?i e = e"
      by (simp add: stale(4) session_failure_def protocolError_def split: server_error.splits if_splits)
    have "submit_session S config cmd st = (st\<lparr>sv_store := s'\<rparr>, Inl e)"
      using throws(3) valid stale(3) fail by (simp add: submit_session_def Let_def)
    then show ?thesis
      using stale service_ok_same [OF ok throws(4)] unchanged_store [OF throws(4)]
      by (simp add: submit_answer_def Let_def)
  next
    case (returns r0 w r' s')
    with r have r0: "r0 = r" by simp
    show ?thesis
    proof (cases "observationId ?obs \<in> set (rec_observationIds r)")
      case True
      then have same: "w = (sv_sessions st, False)" "r' = r" using mut returns(2) unfolding r0 by auto
      have rec: "records s' = records (sv_store st)" using returns(4) r same(2) by auto
      have "submit_session S config cmd st = (st\<lparr>sv_store := s'\<rparr>,
          Inr (snapshot_event ?i (the_str (js_get cmd ''requestId'')) (rec_snapshot r)))"
        using returns(3) valid same by (simp add: submit_session_def Let_def)
      then show ?thesis
        using True service_ok_same [OF ok rec] unchanged_store [OF rec] by (simp add: submit_answer_def Let_def)
    next
      case False
      let ?t = "fst (submit_observation (rt_config rt) (rt_tracker rt) ?v)"
      have new: "\<not> sourceRevision ?obs < rec_latestSourceRevision r"
          "w = (js_map_set ?i (rt\<lparr>rt_tracker := ?t\<rparr>) (sv_sessions st), True)"
          "r' = submitted_record r ?obs (snapshot ?t)"
        using mut returns(2) False unfolding r0 by (auto simp: Let_def split: if_splits)
      have acc: "session_ok (rt\<lparr>rt_tracker := ?t\<rparr>) r'" "snap_revision (snapshot ?t) = Suc (snap_revision (rec_snapshot r))"
          "snap_observationId (snapshot ?t) = Some (observationId ?obs)"
        using mut False new by (auto simp: Let_def)
      let ?st = "st\<lparr>sv_store := s', sv_sessions := js_map_set ?i (rt\<lparr>rt_tracker := ?t\<rparr>) (sv_sessions st)\<rparr>"
      have snap: "rec_snapshot r' = snapshot ?t" by (simp add: new(3) submitted_record_def)
      have result: "submit_session S config cmd st = (publish config ?i (snapshot ?t) ?st,
          Inr (snapshot_event ?i (the_str (js_get cmd ''requestId'')) (snapshot ?t)))"
        using returns(3) valid new(2) snap by (simp add: submit_session_def Let_def)
      have pub: "only_drops ?st (publish config ?i (snapshot ?t) ?st)"
          "sv_calls (publish config ?i (snapshot ?t) ?st) = sv_calls st
             @ map (\<lambda>s. (sub_listener s, snapshot_event ?i (sub_requestId s) (snapshot ?t))) (subscribers_at st ?i)"
        using published [of ?st config ?i "snapshot ?t"] by (simp_all add: subscribers_at_def)
      have "service_ok config records (publish config ?i (snapshot ?t) ?st)"
        using service_ok_drops [OF service_ok_session [OF ok rt acc(1) returns(4)] pub(1)] .
      moreover have "records (sv_store (publish config ?i (snapshot ?t) ?st)) = (records (sv_store st))(?i \<mapsto> r')"
          "sv_reservedSessions (publish config ?i (snapshot ?t) ?st) = sv_reservedSessions st"
        using pub(1) returns(4) by (simp_all add: only_drops_def)
      ultimately show ?thesis
        using result False new acc pub(2) by (auto simp: submit_answer_def Let_def)
    qed
  qed
qed

lemma submit_session_unknown:
  assumes ok: "service_ok config records st" and input: "submit_input_ok config cmd"
    and r: "records (sv_store st) (the_str (js_get cmd ''sessionId'')) = None"
  shows "\<exists>st'. submit_session S config cmd st = (st', Inl (sessionNotFound (the_str (js_get cmd ''sessionId''))))
    \<and> unchanged records st st' \<and> service_ok config records st'"
proof -
  let ?i = "the_str (js_get cmd ''sessionId'')" and ?v = "command_observation cmd"
  have valid: "assertValidObservation (sc_ajv config) ?v = Inr ()" "assertDomainObservation ?v = Inr ()"
    using input assertValidObservation_cases(1) by (simp_all add: submit_input_ok_def assertDomainObservation_def)
  from update_missing [OF r, of "submit_mutation ?i ?v" "(sv_sessions st, False)"] obtain s' where
    s': "store_update S (sv_store st) ?i (submit_mutation ?i ?v) (sv_sessions st, False)
        = (s', (sv_sessions st, False), Inl (RecordNotFound ?i))" "records s' = records (sv_store st)" by blast
  then have "submit_session S config cmd st = (st\<lparr>sv_store := s'\<rparr>, Inl (sessionNotFound ?i))"
    using valid by (simp add: submit_session_def Let_def session_failure_def)
  then show ?thesis using service_ok_same [OF ok s'(2)] unchanged_store [of records s' st] s'(2) by blast
qed

lemma submit_session_ok:
  assumes "service_ok config records st"
  shows "service_ok config records (fst (submit_session S config cmd st))
    \<and> sv_reservedSessions (fst (submit_session S config cmd st)) = sv_reservedSessions st"
proof (cases "submit_input_ok config cmd")
  case False
  with submit_refused [OF False, of S st] assms show ?thesis by auto
next
  case True
  show ?thesis
  proof (cases "records (sv_store st) (the_str (js_get cmd ''sessionId''))")
    case None
    with submit_session_unknown [OF assms True None] show ?thesis by (auto simp: unchanged_def)
  next
    case (Some r)
    with submit_session_known [OF assms True Some] show ?thesis by (auto split: prod.splits)
  qed
qed

lemma resume_session_revisions:
  assumes ok: "service_ok config records st" and r: "records (sv_store st) (the_str (js_get cmd ''sessionId'')) = Some r"
    and last: "-1 \<le> the_int (js_get cmd ''lastSnapshotRevision'')"
      "int (snap_revision (rec_snapshot r)) \<le> the_int (js_get cmd ''lastSnapshotRevision'') + int SNAPSHOT_LIMIT"
  shows "\<exists>events. resume_session S cmd st = Inr events
    \<and> map (\<lambda>e. snap_revision (ev_snapshot e)) events
        = [nat (the_int (js_get cmd ''lastSnapshotRevision'') + 1)..<Suc (snap_revision (rec_snapshot r))]"
proof -
  let ?i = "the_str (js_get cmd ''sessionId'')" and ?l = "the_int (js_get cmd ''lastSnapshotRevision'')"
  have "kept_snapshots (rec_snapshots r) (rec_snapshot r)"
    by (rule session_present [OF ok r]) (unfold session_ok_def, blast)
  from missed_revisions [OF this last] show ?thesis
    using r by (simp add: resume_session_def Let_def get comp_def snapshot_event_def del: upt_Suc)
qed

lemma subscribe_session_ok:
  assumes ok: "service_ok config records st"
  shows "service_ok config records (fst (subscribe_session S config cmd listener st))
    \<and> sv_reservedSessions (fst (subscribe_session S config cmd listener st)) = sv_reservedSessions st"
proof -
  let ?i = "the_str (js_get cmd ''sessionId'')" and ?q = "the_str (js_get cmd ''requestId'')"
  show ?thesis
  proof (cases "store_get S (sv_store st) ?i")
    case None
    with ok show ?thesis by (simp add: subscribe_session_def Let_def)
  next
    case (Some r)
    then have r: "records (sv_store st) ?i = Some r" by (simp add: get)
    obtain rt where rt: "js_map_get (sv_sessions st) ?i = Some rt" by (rule session_present [OF ok r])
    show ?thesis
    proof (cases "sc_maxSubscribers config \<le> sv_subscriberCount st")
      case True
      with Some ok show ?thesis by (simp add: subscribe_session_def Let_def)
    next
      case False
      let ?sub = "\<lparr>sub_identity = sv_nextIdentity st, sub_requestId = ?q, sub_listener = listener\<rparr>"
      let ?st1 = "st\<lparr>sv_nextIdentity := Suc (sv_nextIdentity st), sv_subscriberCount := sv_subscriberCount st + 1,
          sv_subscribers := js_map_set ?i (subscribers_at st ?i @ [?sub]) (sv_subscribers st)\<rparr>"
      let ?events = "map (snapshot_event ?i ?q) (missed_snapshots (the_int (js_get cmd ''lastSnapshotRevision'')) (rec_snapshots r))"
      obtain st2 fine where st2: "replay config listener ?events ?st1 = (st2, fine)" by (rule prod.exhaust)
      have subs: "subs_ok st" using ok by (simp add: service_ok_def)
      then have d: "distinct (map fst (sv_subscribers st))" by (simp add: subs_ok_def)
      have "subs_ok ?st1"
        using subs total_set [OF d, of ?i "subscribers_at st ?i @ [?sub]"]
        by (fastforce simp: subs_ok_def distinct_js_map_set subscribers_at_def split: option.splits if_splits)
      then have "service_ok config records ?st1"
        using ok False rt by (auto simp: service_ok_def js_map_set_keys)
      moreover have "only_drops ?st1 st2" using replayed [of ?st1 config listener ?events] st2 by simp
      ultimately have two: "service_ok config records st2" "sv_reservedSessions st2 = sv_reservedSessions st"
        by (auto intro: service_ok_drops simp: only_drops_def)
      have "subscribe_session S config cmd listener st =
          (if fine then (st2, Inr (sv_nextIdentity st))
           else (releaseSubscriber ?i (sv_nextIdentity st) st2, Inl listener_error))"
        using Some False st2 by (simp add: subscribe_session_def Let_def subscribers_at_def)
      moreover have "only_drops st2 (releaseSubscriber ?i (sv_nextIdentity st) st2)" by (rule only_drops_release)
      ultimately show ?thesis using two by (auto intro: service_ok_drops simp: only_drops_def)
    qed
  qed
qed

lemma release_ok:
  assumes "service_ok config records st"
  shows "service_ok config records (releaseSubscriber i a st)
    \<and> sv_reservedSessions (releaseSubscriber i a st) = sv_reservedSessions st"
proof -
  have "only_drops st (releaseSubscriber i a st)" by (rule only_drops_release)
  with assms show ?thesis by (auto intro: service_ok_drops simp: only_drops_def)
qed

lemma delete_session_ok:
  assumes ok: "service_ok config records st"
  shows "service_ok config records (fst (delete_session S cmd st))
    \<and> sv_reservedSessions (fst (delete_session S cmd st)) = sv_reservedSessions st"
proof -
  let ?i = "the_str (js_get cmd ''sessionId'')"
  from delete_record [of "sv_store st" ?i] obtain s' where
    s': "store_delete S (sv_store st) ?i = (s', records (sv_store st) ?i \<noteq> None)"
      "records s' = (records (sv_store st))(?i := None)" by blast
  show ?thesis
  proof (cases "records (sv_store st) ?i")
    case None
    then have "records s' = records (sv_store st)" using s'(2) by auto
    then show ?thesis using None s'(1) service_ok_same [OF ok] by (simp add: delete_session_def Let_def)
  next
    case (Some r)
    have subs: "subs_ok st" using ok by (simp add: service_ok_def)
    then have d: "distinct (map fst (sv_subscribers st))" by (simp add: subs_ok_def)
    let ?n = "case js_map_get (sv_subscribers st) ?i of Some xs \<Rightarrow> sv_subscriberCount st - int (length xs) | None \<Rightarrow> sv_subscriberCount st"
    let ?st = "st\<lparr>sv_store := s', sv_sessions := js_map_delete ?i (sv_sessions st), sv_subscriberCount := ?n,
        sv_subscribers := js_map_delete ?i (sv_subscribers st)\<rparr>"
    have "subs_ok ?st"
      using subs total_delete [OF d, of ?i] by (auto simp: subs_ok_def distinct_js_map_delete split: option.splits if_splits)
    moreover have "?n \<le> sv_subscriberCount st" by (simp split: option.splits)
    moreover have "length (js_map_delete ?i (sv_sessions st)) \<le> length (sv_sessions st)" by (simp add: js_map_delete_def)
    ultimately have "service_ok config records ?st"
      using ok s'(2) by (auto simp: service_ok_def distinct_js_map_delete js_map_delete_keys)
    with Some s'(1) show ?thesis by (simp add: delete_session_def Let_def)
  qed
qed

end

interpretation service: service_storage MemorySessionStore js_map_get
  by unfold_locales

section \<open>Reachable states\<close>

text \<open>One step of a service over the volatile store, from a state and the creations that hold a
  reservation and have not run yet.  A step that adds a subscription is labelled with its listener.\<close>

inductive service_step :: "service_config \<Rightarrow> nat option \<Rightarrow> memory_store service_state \<Rightarrow> (jstring \<times> js) list
    \<Rightarrow> memory_store service_state \<Rightarrow> (jstring \<times> js) list \<Rightarrow> bool" for config where
  create_called: "create_call config st = (st', Inr ()) \<Longrightarrow> service_step config None st pending st' ((i, cmd) # pending)"
| create_ran: "(i, cmd) \<in> set pending
     \<Longrightarrow> service_step config None st pending (fst (create_run MemorySessionStore config i cmd st)) (remove1 (i, cmd) pending)"
| reset_ran: "service_step config None st pending (fst (reset_session MemorySessionStore config cmd st)) pending"
| submit_ran: "service_step config None st pending (fst (submit_session MemorySessionStore config cmd st)) pending"
| subscribe_ran: "service_step config (Some listener) st pending
     (fst (subscribe_session MemorySessionStore config cmd listener st)) pending"
| stopped: "service_step config None st pending (releaseSubscriber i identity st) pending"
| delete_ran: "service_step config None st pending (fst (delete_session MemorySessionStore cmd st)) pending"

inductive_cases service_stepE: "service_step config listener st pending st' pending'"

text \<open>The life of a service: made by its constructor, then any order of the operations.\<close>

inductive service_reachable :: "service_config \<Rightarrow> memory_store service_state \<Rightarrow> (jstring \<times> js) list \<Rightarrow> bool" where
  started: "createSessionService ajv corpus resolve maxSessions maxSubscribers accepts [] = Inr (config, st)
     \<Longrightarrow> service_reachable config st []"
| stepped: "service_reachable config st pending \<Longrightarrow> service_step config listener st pending st' pending'
     \<Longrightarrow> service_reachable config st' pending'"

lemma service_start_ok:
  assumes "createSessionService ajv corpus resolve maxSessions maxSubscribers accepts [] = Inr (config, st)"
  shows "service_ok config js_map_get st \<and> sv_reservedSessions st = 0"
proof -
  have pos: "0 < n" if "assertPositiveCapacity v l = Inr n" for v l n
    using that
    by (auto simp: assertPositiveCapacity_def Let_def isSafeInteger_iff DEFAULT_MAX_SESSIONS_def DEFAULT_MAX_SUBSCRIBERS_def
        split: if_splits)
  show ?thesis
    using assms
    by (auto simp: createSessionService_def ebind_Inr_iff service_ok_def subs_ok_def total_subscribers_def
        dest!: pos split: if_splits sum.splits)
qed

lemma service_step_ok:
  assumes "service_step config listener st pending st' pending'"
    "service_ok config js_map_get st" "sv_reservedSessions st = int (length pending)"
  shows "service_ok config js_map_get st' \<and> sv_reservedSessions st' = int (length pending')"
  using assms(1)
proof cases
  case (create_called i cmd)
  with service.create_call_ok [OF assms(2)] assms(3) show ?thesis
    by (auto simp: create_call_def reserveSession_def split: if_splits)
next
  case (create_ran i cmd)
  then have "0 < length pending" by (cases pending) auto
  with create_ran assms service.create_run_ok [of config st i cmd] show ?thesis
    by (simp add: length_remove1 of_nat_diff Suc_leI)
qed (use assms(2,3) service.reset_session_ok service.submit_session_ok service.subscribe_session_ok service.release_ok
       service.delete_session_ok in auto)

lemma service_reachable_ok:
  "service_reachable config st pending
     \<Longrightarrow> service_ok config js_map_get st \<and> sv_reservedSessions st = int (length pending)"
  by (induction rule: service_reachable.induct) (use service_start_ok service_step_ok in auto)

section \<open>A service with a session\<close>

definition sample_command :: "string \<Rightarrow> (string \<times> js) list \<Rightarrow> js" where
  "sample_command kind fs = JObj ([(''protocolVersion'', js_int 1), (''requestId'', js_string ''q''),
     (''type'', js_string kind), (''sessionId'', js_string ''s'')] @ fs)"

definition sample_submit :: "js \<Rightarrow> js" where
  "sample_submit v = (case v of JObj fs \<Rightarrow> sample_command ''observation.submit'' fs | _ \<Rightarrow> JNull)"

text \<open>A schema validator that looks at the finding mode of a command only.\<close>

definition known_mode :: "js \<Rightarrow> bool" where
  "known_mode v \<longleftrightarrow> v \<in> set [JUndefined, js_string ''off'', js_string ''substitutions'']"

definition sample_ajv :: ajv where
  "sample_ajv schema v = (if schema = CommandSchema \<and> \<not> known_mode (js_get v ''findingMode'')
     then [\<lparr>si_instancePath = lit ''/findingMode'', si_keyword = lit ''enum'', si_message = None\<rparr>] else [])"

definition sample_start :: "server_error + service_config \<times> memory_store service_state" where
  "sample_start = createSessionService sample_ajv (Some sample_corpus) None JUndefined JUndefined (\<lambda>_ _. True) []"

definition sample_create :: js where
  "sample_create = sample_command ''session.create'' [(''corpusId'', js_string ''c'')]"

definition sample_service :: "service_config \<times> memory_store service_state" where
  "sample_service = (case sample_start of Inr (config, st) \<Rightarrow>
     (config, fst (create_run MemorySessionStore config (lit ''s'') sample_create (fst (create_call config st)))))"

lemma sample_started:
  obtains config st where "sample_start = Inr (config, st)" "sc_resolveCorpus config = None" "sc_ajv config = sample_ajv"
    "sc_accepts config = (\<lambda>_ _. True)" "sc_maxSubscribers config = 4096" "snd (create_call config st) = Inr ()"
    "sv_subscribers st = []" "sv_calls st = []" "sv_subscriberCount st = 0"
    "sample_service = (config, fst (create_run MemorySessionStore config (lit ''s'') sample_create (fst (create_call config st))))"
proof -
  have "case sample_start of Inl e \<Rightarrow> False | Inr x \<Rightarrow> True" by code_simp
  then obtain config st where c: "sample_start = Inr (config, st)" by (auto split: sum.splits)
  have "assertPositiveCapacity JUndefined ''maxSessions'' = Inr 1024" "assertPositiveCapacity JUndefined ''maxSubscribers'' = Inr 4096"
    by code_simp+
  with c show thesis
    by (intro that [of config st])
      (auto simp: sample_start_def sample_service_def createSessionService_def ebind_Inr_iff create_call_def reserveSession_def
        split: if_splits sum.splits)
qed

lemma sample_service_config:
  "sc_resolveCorpus (fst sample_service) = None" "sc_ajv (fst sample_service) = sample_ajv"
  "sc_accepts (fst sample_service) l e" "sc_maxSubscribers (fst sample_service) = 4096"
proof -
  obtain config st where "fst sample_service = config" "sc_resolveCorpus config = None" "sc_ajv config = sample_ajv"
      "sc_accepts config = (\<lambda>_ _. True)" "sc_maxSubscribers config = 4096"
    by (rule sample_started) (metis fst_conv)
  then show "sc_resolveCorpus (fst sample_service) = None" "sc_ajv (fst sample_service) = sample_ajv"
      "sc_accepts (fst sample_service) l e" "sc_maxSubscribers (fst sample_service) = 4096"
    by simp_all
qed

lemma sample_service_store:
  "case sv_store (snd sample_service) of [(i, r)] \<Rightarrow> i = lit ''s'' \<and> rec_observationIds r = []
     \<and> rec_latestSourceRevision r = -1 \<and> snap_revision (rec_snapshot r) = 0 | _ \<Rightarrow> False"
  by code_simp

lemma sample_service_session:
  obtains r where "js_map_get (sv_store (snd sample_service)) = [lit ''s'' \<mapsto> r]" "rec_observationIds r = []"
    "rec_latestSourceRevision r = -1" "snap_revision (rec_snapshot r) = 0"
proof (cases "sv_store (snd sample_service)")
  case Nil
  with sample_service_store show thesis by simp
next
  case (Cons p ps)
  with sample_service_store that show thesis by (cases p; cases ps) (auto simp: js_map_get_def fun_eq_iff)
qed

lemma sample_service_reachable: "service_reachable (fst sample_service) (snd sample_service) []"
proof -
  obtain config st where c: "sample_start = Inr (config, st)" "snd (create_call config st) = Inr ()"
      "sample_service = (config, fst (create_run MemorySessionStore config (lit ''s'') sample_create (fst (create_call config st))))"
    by (rule sample_started)
  have "service_reachable config (fst (create_call config st)) [(lit ''s'', sample_create)]"
    using service_reachable.stepped [OF service_reachable.started [OF c(1) [unfolded sample_start_def]] service_step.create_called] c(2)
    by (metis prod.collapse)
  from service_reachable.stepped [OF this service_step.create_ran [of "lit ''s''" sample_create]] show ?thesis
    by (simp add: c(3))
qed

section \<open>Properties\<close>

text \<open>C17: in every state the service can reach, whatever the order of the operations on all its
  sessions, the sessions and the creations on their way stay within the capacity, the subscriptions
  counted are those in the table and within theirs, and each session has both a record and a
  tracker that agree: same snapshot, same remembered observations and source revision, and the
  record keeps the last 256 snapshots without a gap.\<close>

theorem service_stays_consistent:
  assumes "service_reachable config st pending"
  shows "int (length (sv_sessions st) + length pending) \<le> sc_maxSessions config
    \<and> sv_subscriberCount st = total_subscribers (sv_subscribers st) \<and> sv_subscriberCount st \<le> sc_maxSubscribers config
    \<and> (\<forall>i. js_map_has (sv_store st) i = js_map_has (sv_sessions st) i)
    \<and> (\<forall>i rt r. js_map_get (sv_sessions st) i = Some rt \<longrightarrow> js_map_get (sv_store st) i = Some r \<longrightarrow>
         rec_snapshot r = getSnapshot (rt_tracker rt) \<and> rec_observationIds r = observationIdOrder (rt_tracker rt)
         \<and> rec_latestSourceRevision r = latestSourceRevision (rt_tracker rt)
         \<and> map snap_revision (rec_snapshots r)
             = [Suc (snap_revision (rec_snapshot r)) - 256..<Suc (snap_revision (rec_snapshot r))])"
proof -
  from service_reachable_ok [OF assms] have ok: "service_ok config js_map_get st"
    "sv_reservedSessions st = int (length pending)" by simp_all
  have "rec_snapshot r = getSnapshot (rt_tracker rt) \<and> rec_observationIds r = observationIdOrder (rt_tracker rt)
       \<and> rec_latestSourceRevision r = latestSourceRevision (rt_tracker rt)
       \<and> map snap_revision (rec_snapshots r)
           = [Suc (snap_revision (rec_snapshot r)) - 256..<Suc (snap_revision (rec_snapshot r))]"
    if "js_map_get (sv_sessions st) i = Some rt" "js_map_get (sv_store st) i = Some r" for i rt r
  proof -
    have "session_ok rt r" using ok(1) that unfolding service_ok_def by blast
    then show ?thesis unfolding session_ok_def kept_snapshots_def SNAPSHOT_LIMIT_def getSnapshot_def by metis
  qed
  then show ?thesis
    using ok by (simp add: service_ok_def subs_ok_def js_map_has_def)
qed

theorem service_stays_consistent_witness:
  "int (length (sv_sessions (snd sample_service))) \<le> sc_maxSessions (fst sample_service)
     \<and> js_map_has (sv_sessions (snd sample_service)) (lit ''s'')"
proof -
  have "js_map_has (sv_store (snd sample_service)) (lit ''s'')"
    by (rule sample_service_session) (simp add: js_map_has_def)
  with service_stays_consistent [OF sample_service_reachable] show ?thesis by simp
qed

text \<open>C18: \<open>submit\<close> of the service answers on every branch: an observation that Ajv or the core refuses
  is a trusted INVALID_OBSERVATION and changes nothing; an unknown session is SESSION_NOT_FOUND; a
  repeated identifier gets the present snapshot and a lower source revision is STALE_REVISION, both
  without any change or any call of a listener; any other observation is answered with the next
  revision, recorded, and sent to every subscriber of the session exactly once and in order.\<close>

theorem service_submit_outcomes:
  assumes "service_reachable config st pending"
  shows "case submit_session MemorySessionStore config cmd st of (st', result) \<Rightarrow>
    if \<not> submit_input_ok config cmd
    then st' = st \<and> (\<exists>e. result = Inl (ProtocolFailure e) \<and> qe_code e = INVALID_OBSERVATION \<and> qe_trusted e)
    else (case js_map_get (sv_store st) (the_str (js_get cmd ''sessionId'')) of
        None \<Rightarrow> result = Inl (sessionNotFound (the_str (js_get cmd ''sessionId''))) \<and> unchanged js_map_get st st'
      | Some r \<Rightarrow> submit_answer config js_map_get cmd r st st' result)"
proof -
  have ok: "service_ok config js_map_get st" using service_reachable_ok [OF assms] by simp
  show ?thesis
  proof (cases "submit_input_ok config cmd")
    case False
    with submit_refused [OF False, of MemorySessionStore st] show ?thesis by auto
  next
    case True
    show ?thesis
    proof (cases "js_map_get (sv_store st) (the_str (js_get cmd ''sessionId''))")
      case None
      with service.submit_session_unknown [OF ok True None] True show ?thesis by auto
    next
      case (Some r)
      with service.submit_session_known [OF ok True Some] True show ?thesis by (auto split: prod.splits)
    qed
  qed
qed

lemma sample_submit_input: "submit_input_ok (fst sample_service) (sample_submit (js_observation ''o1'' 0 False 10 [''a'', ''l'']))"
  by code_simp

theorem service_submit_outcomes_witness:
  "\<exists>st' snap. submit_session MemorySessionStore (fst sample_service)
       (sample_submit (js_observation ''o1'' 0 False 10 [''a'', ''l''])) (snd sample_service)
     = (st', Inr (snapshot_event (lit ''s'') (lit ''q'') snap)) \<and> snap_revision snap = 1"
proof -
  let ?cmd = "sample_submit (js_observation ''o1'' 0 False 10 [''a'', ''l''])"
  have cmd: "the_str (js_get ?cmd ''sessionId'') = lit ''s''" "the_str (js_get ?cmd ''requestId'') = lit ''q''"
      "sourceRevision (read_observation (command_observation ?cmd)) = 0" by code_simp+
  obtain r where r: "js_map_get (sv_store (snd sample_service)) (lit ''s'') = Some r"
      "rec_observationIds r = []" "rec_latestSourceRevision r = -1" "snap_revision (rec_snapshot r) = 0"
    by (rule sample_service_session) simp
  from service_submit_outcomes [OF sample_service_reachable, of ?cmd] sample_submit_input r cmd
  show ?thesis by (auto simp: submit_answer_def Let_def split: prod.splits)
qed

text \<open>C19: a client that resumes from a revision at most 256 behind gets exactly the snapshots it missed:
  every later revision once, in increasing order, up to the present one.\<close>

theorem resume_has_no_gap:
  assumes "service_reachable config st pending"
    "js_map_get (sv_store st) (the_str (js_get cmd ''sessionId'')) = Some r"
    "-1 \<le> the_int (js_get cmd ''lastSnapshotRevision'')"
    "int (snap_revision (rec_snapshot r)) \<le> the_int (js_get cmd ''lastSnapshotRevision'') + 256"
  shows "\<exists>events. resume_session MemorySessionStore cmd st = Inr events
    \<and> map (\<lambda>e. snap_revision (ev_snapshot e)) events
        = [nat (the_int (js_get cmd ''lastSnapshotRevision'') + 1)..<Suc (snap_revision (rec_snapshot r))]"
  using service.resume_session_revisions [OF conjunct1 [OF service_reachable_ok [OF assms(1)]] assms(2,3)] assms(4)
  by (simp add: SNAPSHOT_LIMIT_def del: upt_Suc)

theorem resume_has_no_gap_witness:
  "\<exists>events. resume_session MemorySessionStore
       (sample_command ''session.resume'' [(''lastSnapshotRevision'', js_int (-1))]) (snd sample_service) = Inr events
     \<and> map (\<lambda>e. snap_revision (ev_snapshot e)) events = [0]"
proof -
  let ?cmd = "sample_command ''session.resume'' [(''lastSnapshotRevision'', js_int (-1))]"
  obtain r where r: "js_map_get (sv_store (snd sample_service)) (lit ''s'') = Some r" "snap_revision (rec_snapshot r) = 0"
    by (rule sample_service_session) simp
  have "the_str (js_get ?cmd ''sessionId'') = lit ''s''" "the_int (js_get ?cmd ''lastSnapshotRevision'') = -1" by code_simp+
  with resume_has_no_gap [OF sample_service_reachable, of ?cmd r] r show ?thesis by simp
qed

text \<open>As long as the resolver itself does not throw, every failure to get the corpus of a session is a
  trusted INVALID_CORPUS that can be sent: no exception of the schema check, of the core's validator
  or of the indexer reaches a client as an internal error, whatever its message.\<close>

theorem corpus_failures_are_typed:
  assumes "\<And>resolve j x. sc_resolveCorpus config = Some resolve \<Longrightarrow> resolve j \<noteq> Inl x"
    "indexedCorpusFor config i = Inl x"
  shows "\<exists>e. x = ProtocolFailure e \<and> qe_code e = INVALID_CORPUS \<and> qe_trusted e
    \<and> (\<exists>env. toEnvelope e requestId = Inr env \<and> env_code env = INVALID_CORPUS)"
proof -
  have "typed_failure INVALID_CORPUS x" using assms(2) by (rule indexedCorpusFor_failure [rotated]) (rule assms(1))
  then show ?thesis using toEnvelope_sendable by (fastforce simp: typed_failure_def)
qed

theorem corpus_failures_are_typed_witness:
  "\<exists>x e. indexedCorpusFor (fst sample_service) (lit ''other'') = Inl x \<and> x = ProtocolFailure e \<and> qe_code e = INVALID_CORPUS"
proof -
  have "case indexedCorpusFor (fst sample_service) (lit ''other'') of Inl x \<Rightarrow> True | Inr ix \<Rightarrow> False" by code_simp
  then obtain x where x: "indexedCorpusFor (fst sample_service) (lit ''other'') = Inl x" by (auto split: sum.splits)
  note sample_service_config(1)
  then have "\<exists>e. x = ProtocolFailure e \<and> qe_code e = INVALID_CORPUS \<and> qe_trusted e
      \<and> (\<exists>env. toEnvelope e [] = Inr env \<and> env_code env = INVALID_CORPUS)"
    by (intro corpus_failures_are_typed [OF _ x]) simp
  with x show ?thesis by blast
qed

end
