(* ===== verification/Service_Delivery.thy ===== *)
theory Service_Delivery
  imports Service_Outcomes
begin

text \<open>
  What a subscriber receives: the snapshots it missed when it subscribed, then every later one,
  each exactly once and in order, whatever other operations run in between, until its
  subscription ends.
\<close>

section \<open>Runs in which a listener is not used again\<close>

inductive service_runs :: "service_config \<Rightarrow> nat \<Rightarrow> memory_store service_state \<Rightarrow> (jstring \<times> js) list
    \<Rightarrow> memory_store service_state \<Rightarrow> (jstring \<times> js) list \<Rightarrow> bool" for config n st pending where
  no_run: "service_runs config n st pending st pending"
| run_step: "service_runs config n st pending st' pending' \<Longrightarrow> service_step config listener st' pending' st'' pending''
     \<Longrightarrow> listener \<noteq> Some n \<Longrightarrow> service_runs config n st pending st'' pending''"

section \<open>What an operation does to the listeners\<close>

definition calls_of :: "nat \<Rightarrow> 's service_state \<Rightarrow> nat list" where
  "calls_of n st = map (\<lambda>c. snap_revision (ev_snapshot (snd c))) (filter (\<lambda>c. fst c = n) (sv_calls st))"

text \<open>No subscription appears.\<close>

definition shrinks :: "'s service_state \<Rightarrow> 's service_state \<Rightarrow> bool" where
  "shrinks st st' \<longleftrightarrow> (\<forall>j. set (subscribers_at st' j) \<subseteq> set (subscribers_at st j)) \<and> sv_nextIdentity st' = sv_nextIdentity st"

lemma shrinks_drops: "only_drops st st' \<Longrightarrow> shrinks st st'"
  by (simp add: only_drops_def shrinks_def)

lemma shrinks_refl [simp]: "shrinks st st"
  by (simp add: shrinks_def)

lemma shrinks_fields [simp]:
  "shrinks (st\<lparr>sv_store := s, sv_sessions := m\<rparr>) st' = shrinks st st'" "shrinks (st\<lparr>sv_store := s\<rparr>) st' = shrinks st st'"
  "shrinks st (st'\<lparr>sv_store := s, sv_sessions := m\<rparr>) = shrinks st st'" "shrinks st (st'\<lparr>sv_store := s\<rparr>) = shrinks st st'"
  "shrinks st (st'\<lparr>sv_reservedSessions := k\<rparr>) = shrinks st st'"
  by (simp_all add: shrinks_def subscribers_at_def)

lemma publish_shrinks: "shrinks st (publish config i snap (st\<lparr>sv_store := s, sv_sessions := m\<rparr>))"
  using shrinks_drops [of "st\<lparr>sv_store := s, sv_sessions := m\<rparr>"] published [of "st\<lparr>sv_store := s, sv_sessions := m\<rparr>" config i snap]
  by simp

text \<open>Either no record and no call changes, or one session advances by a revision and all its
  subscribers are called with the new snapshot.\<close>

definition answered_by :: "('s \<Rightarrow> jstring \<Rightarrow> session_record option) \<Rightarrow> jstring \<Rightarrow> 's service_state \<Rightarrow> 's service_state \<Rightarrow> bool" where
  "answered_by records j st st' \<longleftrightarrow>
     (records (sv_store st') = records (sv_store st) \<and> sv_calls st' = sv_calls st)
     \<or> (\<exists>r r'. records (sv_store st) j = Some r \<and> records (sv_store st') = (records (sv_store st))(j \<mapsto> r')
         \<and> snap_revision (rec_snapshot r') = Suc (snap_revision (rec_snapshot r))
         \<and> sv_calls st' = sv_calls st
             @ map (\<lambda>s. (sub_listener s, snapshot_event j (sub_requestId s) (rec_snapshot r'))) (subscribers_at st j))"

lemma submit_session_shrinks: "shrinks st (fst (submit_session S config cmd st))"
proof -
  let ?i = "the_str (js_get cmd ''sessionId'')" and ?v = "command_observation cmd"
  obtain s' m c result where u: "store_update S (sv_store st) ?i (submit_mutation ?i ?v) (sv_sessions st, False) = (s', (m, c), result)"
    by (metis prod.exhaust)
  show ?thesis
    using publish_shrinks [where st = st and config = config and i = ?i and s = s' and m = m]
    by (auto simp: submit_session_def Let_def u split: sum.splits server_error.splits)
qed

lemma reset_session_shrinks: "shrinks st (fst (reset_session S config cmd st))"
proof -
  let ?i = "the_str (js_get cmd ''sessionId'')" and ?l = "command_location cmd ''location''"
  show ?thesis
  proof (cases "js_map_get (sv_sessions st) ?i")
    case (Some rt)
    obtain s' m c result where u: "store_update S (sv_store st) ?i (reset_mutation ?i ?l rt) (sv_sessions st, False) = (s', (m, c), result)"
      by (metis prod.exhaust)
    show ?thesis
      using publish_shrinks [where st = st and config = config and i = ?i and s = s' and m = m] Some
      by (auto simp: reset_session_def Let_def u split: sum.splits)
  qed (simp add: reset_session_def Let_def)
qed

context service_storage
begin

lemma submit_session_answered:
  assumes ok: "service_ok config records st"
  shows "answered_by records (the_str (js_get cmd ''sessionId'')) st (fst (submit_session S config cmd st))"
proof (cases "submit_input_ok config cmd")
  case False
  with submit_refused [OF False, of S st] show ?thesis by (auto simp: answered_by_def)
next
  case True
  show ?thesis
  proof (cases "records (sv_store st) (the_str (js_get cmd ''sessionId''))")
    case None
    with submit_session_unknown [OF ok True None] show ?thesis by (auto simp: answered_by_def unchanged_def)
  next
    case (Some r)
    with submit_session_known [OF ok True Some] show ?thesis
      by (auto simp: answered_by_def submit_answer_def unchanged_def submitted_record_def Let_def split: prod.splits if_splits)
  qed
qed

lemma reset_session_answered:
  assumes ok: "service_ok config records st"
  shows "answered_by records (the_str (js_get cmd ''sessionId'')) st (fst (reset_session S config cmd st))"
proof -
  let ?i = "the_str (js_get cmd ''sessionId'')" and ?l = "command_location cmd ''location''"
  show ?thesis
  proof (cases "js_map_get (sv_sessions st) ?i")
    case None
    then show ?thesis by (simp add: reset_session_def Let_def answered_by_def)
  next
    case (Some rt)
    then have "records (sv_store st) ?i \<noteq> None" using ok by (simp add: service_ok_def)
    then obtain r where r: "records (sv_store st) ?i = Some r" by blast
    with Some ok have agree: "session_ok rt r" by (auto simp: service_ok_def)
    show ?thesis
    proof (cases rule: update_cases [of "sv_store st" ?i "reset_mutation ?i ?l rt" "(sv_sessions st, False)"])
      case (missing s')
      with r show ?thesis by simp
    next
      case (throws r0 w e s')
      then show ?thesis using Some by (cases w) (simp add: reset_session_def Let_def answered_by_def)
    next
      case (returns r0 w r' s')
      with r have r0: "r0 = r" by simp
      from reset_mutation_cases [OF agree returns(2) [unfolded r0]] obtain t where
        t: "w = (js_map_set ?i (rt\<lparr>rt_tracker := t\<rparr>) (sv_sessions st), False)"
          "rec_snapshot r' = snapshot t" "snap_revision (snapshot t) = Suc (snap_revision (rec_snapshot r))" by auto
      let ?st = "st\<lparr>sv_store := s', sv_sessions := js_map_set ?i (rt\<lparr>rt_tracker := t\<rparr>) (sv_sessions st)\<rparr>"
      have "sv_store (publish config ?i (rec_snapshot r') ?st) = s'"
          "sv_calls (publish config ?i (rec_snapshot r') ?st) = sv_calls st
             @ map (\<lambda>s. (sub_listener s, snapshot_event ?i (sub_requestId s) (rec_snapshot r'))) (subscribers_at st ?i)"
        using published [of ?st config ?i "rec_snapshot r'"] by (simp_all add: only_drops_def subscribers_at_def)
      then show ?thesis
        using returns(3,4) t Some r by (auto simp: reset_session_def Let_def answered_by_def)
    qed
  qed
qed

end

section \<open>The replay\<close>

lemma replay_calls:
  "replay config n events st = (st', True) \<Longrightarrow> sv_calls st' = sv_calls st @ map (Pair n) events"
  by (induction events arbitrary: st) (auto simp: Let_def call_listener_def split: if_splits)

lemma replay_listener:
  "replay config n events st = (st', fine) \<Longrightarrow> \<exists>es. sv_calls st' = sv_calls st @ map (Pair n) es"
proof (induction events arbitrary: st)
  case (Cons e events)
  show ?case
  proof (cases "sc_accepts config n e")
    case True
    with Cons.prems have "replay config n events (call_listener n e st) = (st', fine)" by (simp add: Let_def)
    from Cons.IH [OF this] obtain es where "sv_calls st' = sv_calls st @ [(n, e)] @ map (Pair n) es" by (auto simp: call_listener_def)
    then have "sv_calls st' = sv_calls st @ map (Pair n) (e # es)" by simp
    then show ?thesis ..
  next
    case False
    with Cons.prems have "sv_calls st' = sv_calls st @ map (Pair n) [e]" by (auto simp: Let_def call_listener_def)
    then show ?thesis ..
  qed
qed (auto intro: exI [of _ "[]"])

lemma replay_same:
  "replay config n events st = (st', fine) \<Longrightarrow> sv_store st' = sv_store st \<and> sv_subscribers st' = sv_subscribers st
     \<and> sv_nextIdentity st' = sv_nextIdentity st"
  by (induction events arbitrary: st) (auto simp: Let_def call_listener_def split: if_splits)

section \<open>Following one subscription\<close>

text \<open>Identity \<open>a\<close> of session \<open>i\<close> is the only subscription with listener \<open>n\<close>, and while it lasts the
  calls of \<open>n\<close> are the revisions after \<open>l\<close> up to the present one.\<close>

definition tracked :: "('s \<Rightarrow> jstring \<Rightarrow> session_record option) \<Rightarrow> jstring \<Rightarrow> nat \<Rightarrow> nat \<Rightarrow> int \<Rightarrow> 's service_state \<Rightarrow> bool" where
  "tracked records i a n l st \<longleftrightarrow> a < sv_nextIdentity st
     \<and> (\<forall>j. \<forall>s \<in> set (subscribers_at st j). sub_listener s = n \<longleftrightarrow> j = i \<and> sub_identity s = a)
     \<and> (a \<in> sub_identity ` set (subscribers_at st i) \<longrightarrow>
          (\<exists>r. records (sv_store st) i = Some r \<and> calls_of n st = [nat (l + 1)..<Suc (snap_revision (rec_snapshot r))]
            \<and> nat (l + 1) \<le> Suc (snap_revision (rec_snapshot r))))"

lemma tracked_quiet:
  assumes "tracked records i a n l st" "shrinks st st'" "sv_calls st' = sv_calls st"
    "\<And>r. records (sv_store st) i = Some r \<Longrightarrow> records (sv_store st') i = Some r \<or> subscribers_at st' i = []"
  shows "tracked records i a n l st'"
proof -
  have subs: "set (subscribers_at st' j) \<subseteq> set (subscribers_at st j)" for j using assms(2) by (simp add: shrinks_def)
  have "\<exists>r. records (sv_store st') i = Some r \<and> calls_of n st' = [nat (l + 1)..<Suc (snap_revision (rec_snapshot r))]
      \<and> nat (l + 1) \<le> Suc (snap_revision (rec_snapshot r))" if a: "a \<in> sub_identity ` set (subscribers_at st' i)"
  proof -
    have "a \<in> sub_identity ` set (subscribers_at st i)" using a subs by blast
    then obtain r where "records (sv_store st) i = Some r" "calls_of n st = [nat (l + 1)..<Suc (snap_revision (rec_snapshot r))]"
      "nat (l + 1) \<le> Suc (snap_revision (rec_snapshot r))" using assms(1) unfolding tracked_def by blast
    moreover have "subscribers_at st' i \<noteq> []" using a by auto
    ultimately show ?thesis using assms(3,4) by (auto simp: calls_of_def)
  qed
  moreover have "\<forall>j. \<forall>s \<in> set (subscribers_at st' j). sub_listener s = n \<longleftrightarrow> j = i \<and> sub_identity s = a"
    using assms(1) subs unfolding tracked_def by blast
  ultimately show ?thesis using assms(1,2) by (simp add: tracked_def shrinks_def)
qed

lemma filter_single: "distinct (map f xs) \<Longrightarrow> a \<in> f ` set xs \<Longrightarrow> \<exists>x. filter (\<lambda>x. f x = a) xs = [x]"
proof (induction xs)
  case (Cons y ys)
  show ?case
  proof (cases "f y = a")
    case True
    then have "filter (\<lambda>x. f x = a) ys = []" using Cons.prems(1) by (auto simp: filter_empty_conv image_iff)
    with True show ?thesis by simp
  qed (use Cons in auto)
qed simp

lemma tracked_answered:
  assumes "tracked records i a n l st" "shrinks st st'" "answered_by records j st st'" "subs_ok st"
  shows "tracked records i a n l st'"
proof (cases "records (sv_store st') = records (sv_store st) \<and> sv_calls st' = sv_calls st")
  case True
  then show ?thesis by (intro tracked_quiet [OF assms(1,2)]) simp_all
next
  case False
  then obtain r r' where r: "records (sv_store st) j = Some r" "records (sv_store st') = (records (sv_store st))(j \<mapsto> r')"
      "snap_revision (rec_snapshot r') = Suc (snap_revision (rec_snapshot r))"
      and calls: "sv_calls st' = sv_calls st
         @ map (\<lambda>s. (sub_listener s, snapshot_event j (sub_requestId s) (rec_snapshot r'))) (subscribers_at st j)"
    using assms(3) unfolding answered_by_def by blast
  have subs: "set (subscribers_at st' k) \<subseteq> set (subscribers_at st k)" for k using assms(2) by (simp add: shrinks_def)
  have added: "calls_of n st' = calls_of n st
      @ map (\<lambda>s. Suc (snap_revision (rec_snapshot r))) (filter (\<lambda>s. sub_listener s = n) (subscribers_at st j))"
    by (simp add: calls_of_def calls filter_map comp_def r(3) snapshot_event_def)
  have only: "\<forall>j. \<forall>s \<in> set (subscribers_at st j). sub_listener s = n \<longleftrightarrow> j = i \<and> sub_identity s = a"
    using assms(1) unfolding tracked_def by blast
  have "\<exists>r. records (sv_store st') i = Some r \<and> calls_of n st' = [nat (l + 1)..<Suc (snap_revision (rec_snapshot r))]
      \<and> nat (l + 1) \<le> Suc (snap_revision (rec_snapshot r))" if a: "a \<in> sub_identity ` set (subscribers_at st' i)"
  proof -
    have a': "a \<in> sub_identity ` set (subscribers_at st i)" using a subs by blast
    with assms(1) obtain q where q: "records (sv_store st) i = Some q"
        "calls_of n st = [nat (l + 1)..<Suc (snap_revision (rec_snapshot q))]" "nat (l + 1) \<le> Suc (snap_revision (rec_snapshot q))"
      unfolding tracked_def by blast
    show ?thesis
    proof (cases "j = i")
      case True
      have "distinct (map sub_identity (subscribers_at st i))"
        using assms(4) by (auto simp: subs_ok_def subscribers_at_def split: option.splits)
      then obtain x where x: "filter (\<lambda>s. sub_identity s = a) (subscribers_at st i) = [x]" using filter_single a' by fast
      have "filter (\<lambda>s. sub_listener s = n) (subscribers_at st i) = filter (\<lambda>s. sub_identity s = a) (subscribers_at st i)"
        by (rule filter_cong [OF refl]) (use only in blast)
      then show ?thesis using q r added x True by auto
    next
      case False
      then have "filter (\<lambda>s. sub_listener s = n) (subscribers_at st j) = []" using only by (auto simp: filter_empty_conv)
      then show ?thesis using q r(2) added False by auto
    qed
  qed
  moreover have "\<forall>j. \<forall>s \<in> set (subscribers_at st' j). sub_listener s = n \<longleftrightarrow> j = i \<and> sub_identity s = a"
    using only subs by blast
  ultimately show ?thesis using assms(1,2) by (simp add: tracked_def shrinks_def)
qed

context service_storage
begin

lemma create_run_quiet:
  "shrinks st (fst (create_run S config j cmd st)) \<and> sv_calls (fst (create_run S config j cmd st)) = sv_calls st
   \<and> (records (sv_store st) i = Some r \<longrightarrow> records (sv_store (fst (create_run S config j cmd st))) i = Some r)"
proof -
  let ?r = "\<lambda>t. \<lparr>rec_sessionId = j, rec_corpusId = the_str (js_get cmd ''corpusId''), rec_snapshot = getSnapshot t,
      rec_snapshots = [getSnapshot t], rec_observationIds = [], rec_latestSourceRevision = -1\<rparr>"
  have create: "records s' i = Some r" if "store_create S (sv_store st) (?r t) = (s', x)" "records (sv_store st) i = Some r" for s' x t
    using that create_new [of "sv_store st" "?r t"] create_taken [of "sv_store st" "?r t"]
    by (cases "records (sv_store st) j") auto
  show ?thesis
    by (auto simp: create_run_def create_body_def releaseSessionReservation_def Let_def shrinks_def subscribers_at_def
        split: prod.splits sum.splits if_splits dest: create)
qed

lemma subscribe_other:
  assumes t: "tracked records i a n l st" and other: "m \<noteq> n"
  shows "tracked records i a n l (fst (subscribe_session S config cmd m st))"
proof -
  let ?j = "the_str (js_get cmd ''sessionId'')" and ?q = "the_str (js_get cmd ''requestId'')"
  show ?thesis
  proof (cases "store_get S (sv_store st) ?j = None \<or> sc_maxSubscribers config \<le> sv_subscriberCount st")
    case True
    with t show ?thesis by (auto simp: subscribe_session_def Let_def split: option.splits)
  next
    case False
    then obtain r where r: "store_get S (sv_store st) ?j = Some r" by auto
    let ?sub = "\<lparr>sub_identity = sv_nextIdentity st, sub_requestId = ?q, sub_listener = m\<rparr>"
    let ?st1 = "st\<lparr>sv_nextIdentity := Suc (sv_nextIdentity st), sv_subscriberCount := sv_subscriberCount st + 1,
        sv_subscribers := js_map_set ?j (subscribers_at st ?j @ [?sub]) (sv_subscribers st)\<rparr>"
    let ?events = "map (snapshot_event ?j ?q) (missed_snapshots (the_int (js_get cmd ''lastSnapshotRevision'')) (rec_snapshots r))"
    obtain st2 fine where st2: "replay config m ?events ?st1 = (st2, fine)" by (rule prod.exhaust)
    obtain es where calls: "sv_calls st2 = sv_calls st @ map (Pair m) es" using replay_listener [OF st2] by auto
    have subs: "subscribers_at st2 k = (if k = ?j then subscribers_at st ?j @ [?sub] else subscribers_at st k)" for k
      using replay_same [OF st2] by (simp add: subscribers_at_def)
    have same: "sv_store st2 = sv_store st" "sv_nextIdentity st2 = Suc (sv_nextIdentity st)"
      using replay_same [OF st2] by auto
    have "calls_of n st2 = calls_of n st" using other by (simp add: calls_of_def calls filter_map comp_def)
    moreover have "\<forall>k. \<forall>s \<in> set (subscribers_at st2 k). sub_listener s = n \<longleftrightarrow> k = i \<and> sub_identity s = a"
      using t other unfolding tracked_def by (auto simp: subs)
    moreover have "a \<in> sub_identity ` set (subscribers_at st2 i) \<longleftrightarrow> a \<in> sub_identity ` set (subscribers_at st i)"
      using t by (auto simp: subs tracked_def)
    ultimately have t2: "tracked records i a n l st2" using t by (simp add: tracked_def same)
    then have "tracked records i a n l (releaseSubscriber ?j (sv_nextIdentity st) st2)"
      using shrinks_drops [OF only_drops_release [of st2 ?j "sv_nextIdentity st"]] only_drops_release [of st2 ?j "sv_nextIdentity st"]
      by (intro tracked_quiet [OF t2]) (auto simp: only_drops_def)
    with t2 show ?thesis
      using r False st2 by (cases fine) (simp_all add: subscribe_session_def Let_def subscribers_at_def [symmetric])
  qed
qed

lemma delete_quiet:
  "shrinks st (fst (delete_session S cmd st)) \<and> sv_calls (fst (delete_session S cmd st)) = sv_calls st
   \<and> (records (sv_store st) i = Some r \<longrightarrow> records (sv_store (fst (delete_session S cmd st))) i = Some r
        \<or> subscribers_at (fst (delete_session S cmd st)) i = [])"
proof -
  let ?j = "the_str (js_get cmd ''sessionId'')"
  from delete_record [of "sv_store st" ?j] obtain s' where
    "store_delete S (sv_store st) ?j = (s', records (sv_store st) ?j \<noteq> None)" "records s' = (records (sv_store st))(?j := None)" by blast
  then show ?thesis by (auto simp: delete_session_def Let_def shrinks_def subscribers_at_def)
qed

end

section \<open>The subscription begins\<close>

context service_storage
begin

lemma subscribe_tracked:
  assumes ok: "service_ok config records st"
    and new: "\<forall>j. \<forall>s \<in> set (subscribers_at st j). sub_listener s \<noteq> n" "calls_of n st = []"
    and r: "records (sv_store st) (the_str (js_get cmd ''sessionId'')) = Some r"
    and last: "-1 \<le> the_int (js_get cmd ''lastSnapshotRevision'')"
      "int (snap_revision (rec_snapshot r)) \<le> the_int (js_get cmd ''lastSnapshotRevision'') + int SNAPSHOT_LIMIT"
      "the_int (js_get cmd ''lastSnapshotRevision'') \<le> int (snap_revision (rec_snapshot r))"
    and sub: "subscribe_session S config cmd n st = (st1, Inr a)"
  shows "tracked records (the_str (js_get cmd ''sessionId'')) a n (the_int (js_get cmd ''lastSnapshotRevision'')) st1"
proof -
  let ?j = "the_str (js_get cmd ''sessionId'')" and ?q = "the_str (js_get cmd ''requestId'')"
  let ?l = "the_int (js_get cmd ''lastSnapshotRevision'')"
  let ?sub = "\<lparr>sub_identity = sv_nextIdentity st, sub_requestId = ?q, sub_listener = n\<rparr>"
  let ?st1 = "st\<lparr>sv_nextIdentity := Suc (sv_nextIdentity st), sv_subscriberCount := sv_subscriberCount st + 1,
      sv_subscribers := js_map_set ?j (subscribers_at st ?j @ [?sub]) (sv_subscribers st)\<rparr>"
  let ?events = "map (snapshot_event ?j ?q) (missed_snapshots ?l (rec_snapshots r))"
  obtain st2 fine where st2: "replay config n ?events ?st1 = (st2, fine)" by (rule prod.exhaust)
  have room: "\<not> sc_maxSubscribers config \<le> sv_subscriberCount st"
    using sub r by (auto simp: subscribe_session_def Let_def get)
  then have "subscribe_session S config cmd n st = (if fine then (st2, Inr (sv_nextIdentity st))
      else (releaseSubscriber ?j (sv_nextIdentity st) st2, Inl listener_error))"
    using r st2 by (simp add: subscribe_session_def Let_def get subscribers_at_def)
  then have ends: "fine" "st1 = st2" "a = sv_nextIdentity st" using sub by (auto split: if_splits)
  have calls: "sv_calls st2 = sv_calls st @ map (Pair n) ?events" using replay_calls st2 ends(1) by fastforce
  have kept: "kept_snapshots (rec_snapshots r) (rec_snapshot r)"
    by (rule session_present [OF ok r]) (unfold session_ok_def, blast)
  have "calls_of n st2 = map snap_revision (missed_snapshots ?l (rec_snapshots r))"
    using new(2) by (simp add: calls_of_def calls filter_map comp_def snapshot_event_def)
  then have all: "calls_of n st2 = [nat (?l + 1)..<Suc (snap_revision (rec_snapshot r))]"
    using missed_revisions [OF kept last(1,2)] by simp
  have subs: "subscribers_at st2 k = (if k = ?j then subscribers_at st ?j @ [?sub] else subscribers_at st k)" for k
    using replay_same [OF st2] by (simp add: subscribers_at_def)
  have same: "sv_store st2 = sv_store st" "sv_nextIdentity st2 = Suc (sv_nextIdentity st)" using replay_same [OF st2] by auto
  have older: "s \<in> set (subscribers_at st ?j) \<Longrightarrow> sub_identity s < sv_nextIdentity st" for s
    using ok by (cases "js_map_get (sv_subscribers st) ?j") (auto simp: service_ok_def subs_ok_def subscribers_at_def)
  have "\<forall>k. \<forall>s \<in> set (subscribers_at st2 k). sub_listener s = n \<longleftrightarrow> k = ?j \<and> sub_identity s = a"
    using new(1) by (auto simp: subs ends(3) dest: older)
  moreover have "nat (?l + 1) \<le> Suc (snap_revision (rec_snapshot r))" using last(3) by linarith
  ultimately show ?thesis using r all same ends(2,3) by (simp add: tracked_def)
qed

end

lemma step_tracked:
  assumes "service_step config listener st pending st' pending'" "listener \<noteq> Some n"
    "service_ok config js_map_get st" "tracked js_map_get i a n l st"
  shows "tracked js_map_get i a n l st'"
  using assms(1)
proof cases
  case (create_called j cmd)
  then have "shrinks st st'" "sv_calls st' = sv_calls st" "sv_store st' = sv_store st"
    by (auto simp: create_call_def reserveSession_def split: if_splits)
  then show ?thesis by (intro tracked_quiet [OF assms(4)]) auto
next
  case (create_ran j cmd)
  then show ?thesis using service.create_run_quiet by (intro tracked_quiet [OF assms(4)]) auto
next
  case (reset_ran cmd)
  then show ?thesis
    using tracked_answered [OF assms(4) reset_session_shrinks service.reset_session_answered [OF assms(3)]] assms(3)
    by (simp add: service_ok_def)
next
  case (submit_ran cmd)
  then show ?thesis
    using tracked_answered [OF assms(4) submit_session_shrinks service.submit_session_answered [OF assms(3)]] assms(3)
    by (simp add: service_ok_def)
next
  case (subscribe_ran m cmd)
  then show ?thesis using service.subscribe_other [OF assms(4), of m] assms(2) by auto
next
  case (stopped j identity)
  then show ?thesis
    using only_drops_release [of st j identity] by (intro tracked_quiet [OF assms(4) shrinks_drops]) (auto simp: only_drops_def)
next
  case (delete_ran cmd)
  then show ?thesis using service.delete_quiet by (intro tracked_quiet [OF assms(4)]) auto
qed

lemma runs_tracked:
  "service_runs config n st pending st' pending' \<Longrightarrow> service_ok config js_map_get st
     \<Longrightarrow> sv_reservedSessions st = int (length pending) \<Longrightarrow> tracked js_map_get i a n l st
     \<Longrightarrow> service_ok config js_map_get st' \<and> sv_reservedSessions st' = int (length pending') \<and> tracked js_map_get i a n l st'"
proof (induction rule: service_runs.induct)
  case (run_step st' pending' listener st'' pending'')
  with service_step_ok [OF run_step.hyps(2)] step_tracked [OF run_step.hyps(2,3)] show ?case by blast
qed simp

section \<open>Properties\<close>

text \<open>C22: a subscriber misses nothing and gets nothing twice: when it subscribes from a revision at most
  256 behind, then, whatever operations of any sessions run afterwards and in whatever order, as long
  as its subscription is there its listener has been called exactly once with every later revision,
  in increasing order, up to the present one.\<close>

theorem subscribers_miss_nothing:
  assumes "service_reachable config st pending"
    "\<forall>j. \<forall>s \<in> set (subscribers_at st j). sub_listener s \<noteq> n" "calls_of n st = []"
    "js_map_get (sv_store st) (the_str (js_get cmd ''sessionId'')) = Some r"
    "-1 \<le> the_int (js_get cmd ''lastSnapshotRevision'')"
    "int (snap_revision (rec_snapshot r)) \<le> the_int (js_get cmd ''lastSnapshotRevision'') + 256"
    "the_int (js_get cmd ''lastSnapshotRevision'') \<le> int (snap_revision (rec_snapshot r))"
    "subscribe_session MemorySessionStore config cmd n st = (st1, Inr identity)"
    "service_runs config n st1 pending st2 pending2"
    "identity \<in> sub_identity ` set (subscribers_at st2 (the_str (js_get cmd ''sessionId'')))"
  shows "\<exists>r2. js_map_get (sv_store st2) (the_str (js_get cmd ''sessionId'')) = Some r2
    \<and> calls_of n st2 = [nat (the_int (js_get cmd ''lastSnapshotRevision'') + 1)..<Suc (snap_revision (rec_snapshot r2))]"
proof -
  have ok: "service_ok config js_map_get st" "sv_reservedSessions st = int (length pending)"
    using service_reachable_ok [OF assms(1)] by simp_all
  have "tracked js_map_get (the_str (js_get cmd ''sessionId'')) identity n (the_int (js_get cmd ''lastSnapshotRevision'')) st1"
    using assms(6) by (intro service.subscribe_tracked [OF ok(1) assms(2-5) _ assms(7,8)]) (simp add: SNAPSHOT_LIMIT_def)
  moreover have "service_ok config js_map_get st1" "sv_reservedSessions st1 = int (length pending)"
    using service.subscribe_session_ok [OF ok(1), of cmd n] ok(2) assms(8) by simp_all
  ultimately have "tracked js_map_get (the_str (js_get cmd ''sessionId'')) identity n (the_int (js_get cmd ''lastSnapshotRevision'')) st2"
    using runs_tracked [OF assms(9)] by blast
  with assms(10) show ?thesis unfolding tracked_def by blast
qed

lemma deliver_keeps: "(\<And>l e. sc_accepts config l e) \<Longrightarrow> sv_subscribers (foldl (deliver config i snap) st subs) = sv_subscribers st"
  by (induction subs arbitrary: st) (simp_all add: deliver_def Let_def call_listener_def)

lemma submit_keeps_subscribers:
  assumes "\<And>l e. sc_accepts config l e" "subs_ok st"
  shows "sv_subscribers (fst (submit_session S config cmd st)) = sv_subscribers st"
proof -
  let ?i = "the_str (js_get cmd ''sessionId'')" and ?v = "command_observation cmd"
  obtain s' m c result where u: "store_update S (sv_store st) ?i (submit_mutation ?i ?v) (sv_sessions st, False) = (s', (m, c), result)"
    by (metis prod.exhaust)
  have "sv_subscribers (publish config ?i snap (st\<lparr>sv_store := s', sv_sessions := m\<rparr>)) = sv_subscribers st" for snap
    using assms by (auto simp: publish_def Let_def deliver_keeps subs_ok_def split: option.splits)
  then show ?thesis by (auto simp: submit_session_def Let_def u split: sum.splits server_error.splits)
qed

lemma subscribe_session_store: "sv_store (fst (subscribe_session S config cmd n st)) = sv_store st"
proof -
  have "sv_store (releaseSubscriber i a st') = sv_store st'" for i a and st' :: "'a service_state"
    using only_drops_release [of st' i a] by (simp add: only_drops_def)
  then show ?thesis
    by (auto simp: subscribe_session_def Let_def dest!: replay_same split: option.splits prod.splits bool.splits)
qed

lemma replay_accepted: "(\<And>l e. sc_accepts config l e) \<Longrightarrow> snd (replay config n events st)"
  by (induction events arbitrary: st) (simp_all add: Let_def)

lemma subscribe_accepted:
  assumes "\<And>l e. sc_accepts config l e" "store_get S (sv_store st) (the_str (js_get cmd ''sessionId'')) = Some r"
    "sv_subscriberCount st < sc_maxSubscribers config"
  shows "\<exists>st1. subscribe_session S config cmd n st = (st1, Inr (sv_nextIdentity st))
    \<and> sv_nextIdentity st \<in> sub_identity ` set (subscribers_at st1 (the_str (js_get cmd ''sessionId'')))"
proof -
  let ?j = "the_str (js_get cmd ''sessionId'')" and ?q = "the_str (js_get cmd ''requestId'')"
  let ?sub = "\<lparr>sub_identity = sv_nextIdentity st, sub_requestId = ?q, sub_listener = n\<rparr>"
  let ?st1 = "st\<lparr>sv_nextIdentity := Suc (sv_nextIdentity st), sv_subscriberCount := sv_subscriberCount st + 1,
      sv_subscribers := js_map_set ?j (subscribers_at st ?j @ [?sub]) (sv_subscribers st)\<rparr>"
  let ?events = "map (snapshot_event ?j ?q) (missed_snapshots (the_int (js_get cmd ''lastSnapshotRevision'')) (rec_snapshots r))"
  obtain st2 fine where "replay config n ?events ?st1 = (st2, fine)" by (rule prod.exhaust)
  with replay_accepted [OF assms(1), of n ?events ?st1] have st2: "replay config n ?events ?st1 = (st2, True)" by simp
  then have "subscribe_session S config cmd n st = (st2, Inr (sv_nextIdentity st))"
    using assms(2,3) by (simp add: subscribe_session_def Let_def subscribers_at_def)
  moreover have "sv_nextIdentity st \<in> sub_identity ` set (subscribers_at st2 ?j)"
    using replay_same [OF st2] by (simp add: subscribers_at_def)
  ultimately show ?thesis by blast
qed

lemma sample_service_idle:
  "subscribers_at (snd sample_service) j = []" "sv_calls (snd sample_service) = []" "sv_subscriberCount (snd sample_service) = 0"
proof -
  obtain config st where c: "sv_subscribers st = []" "sv_calls st = []"
      "sample_service = (config, fst (create_run MemorySessionStore config (lit ''s'') sample_create (fst (create_call config st))))"
    by (rule sample_started)
  let ?st1 = "fst (create_call config st)"
  have called: "subscribers_at ?st1 k = []" "sv_calls ?st1 = []" for k
    using c by (auto simp: create_call_def reserveSession_def subscribers_at_def js_map_get_def)
  from service.create_run_quiet [of ?st1 config "lit ''s''" sample_create] have
    "set (subscribers_at (snd sample_service) k) \<subseteq> set (subscribers_at ?st1 k)"
    and calls: "sv_calls (snd sample_service) = sv_calls ?st1" for k
    unfolding c(3) snd_conv shrinks_def by blast+
  then have none: "subscribers_at (snd sample_service) k = []" for k using called(1) by simp
  then show "subscribers_at (snd sample_service) j = []" .
  show "sv_calls (snd sample_service) = []" using calls called(2) by simp
  have ok: "subs_ok (snd sample_service)" using service_reachable_ok [OF sample_service_reachable] by (simp add: service_ok_def)
  have "sv_subscribers (snd sample_service) = []"
  proof (rule ccontr)
    assume "sv_subscribers (snd sample_service) \<noteq> []"
    then obtain i xs m where m: "sv_subscribers (snd sample_service) = (i, xs) # m" by (cases "sv_subscribers (snd sample_service)") auto
    then have "js_map_get (sv_subscribers (snd sample_service)) i = Some xs" by (simp add: js_map_get_def)
    moreover from this none [of i] have "xs = []" by (simp add: subscribers_at_def)
    ultimately show False using ok unfolding subs_ok_def by blast
  qed
  with ok show "sv_subscriberCount (snd sample_service) = 0" by (simp add: subs_ok_def total_subscribers_def)
qed

text \<open>The sample service: subscribe listener 7, then submit an observation.\<close>

theorem subscribers_miss_nothing_witness:
  "\<exists>st1 identity st2. subscribe_session MemorySessionStore (fst sample_service)
       (sample_command ''session.resume'' [(''lastSnapshotRevision'', js_int 0)]) 7 (snd sample_service) = (st1, Inr identity)
     \<and> st2 = fst (submit_session MemorySessionStore (fst sample_service)
         (sample_submit (js_observation ''o1'' 0 False 10 [''a'', ''l''])) st1)
     \<and> calls_of 7 st2 = [1]"
proof -
  let ?config = "fst sample_service" and ?st = "snd sample_service"
  let ?cmd = "sample_command ''session.resume'' [(''lastSnapshotRevision'', js_int 0)]"
  let ?sub = "subscribe_session MemorySessionStore ?config ?cmd 7 ?st"
  let ?submit = "sample_submit (js_observation ''o1'' 0 False 10 [''a'', ''l''])"
  have cmd: "the_str (js_get ?cmd ''sessionId'') = lit ''s''" "the_int (js_get ?cmd ''lastSnapshotRevision'') = 0" by code_simp+
  have submit: "the_str (js_get ?submit ''sessionId'') = lit ''s''"
      "sourceRevision (read_observation (command_observation ?submit)) = 0" by code_simp+
  obtain r where r: "js_map_get (sv_store ?st) (lit ''s'') = Some r" "snap_revision (rec_snapshot r) = 0"
      "rec_observationIds r = []" "rec_latestSourceRevision r = -1"
    by (rule sample_service_session) simp
  have room: "sv_subscriberCount ?st < sc_maxSubscribers ?config" by (simp add: sample_service_idle sample_service_config)
  have "store_get MemorySessionStore (sv_store ?st) (the_str (js_get ?cmd ''sessionId'')) = Some r"
    unfolding cmd memory.get by (rule r(1))
  from subscribe_accepted [OF sample_service_config(3) this room, of 7] obtain st1 identity where sub: "?sub = (st1, Inr identity)"
      and subs: "identity \<in> sub_identity ` set (subscribers_at st1 (lit ''s''))"
    unfolding cmd by blast
  let ?st2 = "fst (submit_session MemorySessionStore ?config ?submit st1)"
  have runs: "service_runs ?config 7 st1 [] ?st2 []"
    by (rule service_runs.run_step [OF service_runs.no_run service_step.submit_ran]) simp
  have ok: "service_ok ?config js_map_get st1"
    using service.subscribe_session_ok [of ?config ?st ?cmd 7] service_reachable_ok [OF sample_service_reachable] sub by simp
  have "sv_subscribers ?st2 = sv_subscribers st1"
    using ok by (intro submit_keeps_subscribers) (simp_all add: sample_service_config service_ok_def)
  then have there: "identity \<in> sub_identity ` set (subscribers_at ?st2 (lit ''s''))" using subs by (simp add: subscribers_at_def)
  have "sv_store st1 = sv_store ?st" using subscribe_session_store [of MemorySessionStore ?config ?cmd 7 ?st] sub by simp
  then have r1: "js_map_get (sv_store st1) (the_str (js_get ?submit ''sessionId'')) = Some r" using r(1) submit by simp
  from service.submit_session_known [OF ok sample_submit_input this] have
    "\<exists>r2. js_map_get (sv_store ?st2) (lit ''s'') = Some r2 \<and> snap_revision (rec_snapshot r2) = 1"
    using r submit by (auto simp: submit_answer_def Let_def submitted_record_def split: prod.splits)
  moreover have "\<exists>r2. js_map_get (sv_store ?st2) (lit ''s'') = Some r2 \<and> calls_of 7 ?st2 = [nat (0 + 1)..<Suc (snap_revision (rec_snapshot r2))]"
    using subscribers_miss_nothing [OF sample_service_reachable _ _ _ _ _ _ sub runs, of r] r there
    unfolding cmd by (simp add: sample_service_idle calls_of_def)
  ultimately have "calls_of 7 ?st2 = [1]" by auto
  with sub show ?thesis by blast
qed

end
