(* ===== verification/Json_Refinement.thy ===== *)
theory Json_Refinement
  imports Protocol
begin

text \<open>
  The two models of \<open>isPlainJsonValue\<close> agree: \<open>represents\<close> says that a value in a heap is a tree of
  array and object literals, however much of it is shared, and the loop of \<open>Plain_Json\<close> gives on
  such a heap the answer of \<open>json_plain\<close> on the tree.  This is what allows the rest of the
  development to work with values as trees.
\<close>

definition data_property :: "heap_value \<Rightarrow> property_descriptor" where
  "data_property c = \<lparr>desc_enumerable = True, desc_value = Some c\<rparr>"

definition array_literal :: "heap_value list \<Rightarrow> heap_object" where
  "array_literal cs = \<lparr>ho_isArray = True, ho_prototype = ArrayPrototype, ho_length = length cs,
     ho_properties = map (\<lambda>i. (KString (dec i), data_property (cs ! i))) [0..<length cs]
       @ [(KString (lit ''length''), \<lparr>desc_enumerable = False, desc_value = Some (HNum (Fin (of_nat (length cs))))\<rparr>)],
     ho_throws = False\<rparr>"

definition object_literal :: "(string \<times> heap_value) list \<Rightarrow> heap_object" where
  "object_literal kcs = \<lparr>ho_isArray = False, ho_prototype = ObjectPrototype, ho_length = 0,
     ho_properties = map (\<lambda>(k, c). (KString (lit k), data_property c)) kcs, ho_throws = False\<rparr>"

inductive represents :: "heap \<Rightarrow> heap_value \<Rightarrow> js \<Rightarrow> bool" for h where
  rep_undefined: "represents h HUndefined JUndefined"
| rep_null: "represents h HNull JNull"
| rep_boolean: "represents h (HBool b) (JBool b)"
| rep_number: "represents h (HNum n) (JNum n)"
| rep_string: "represents h (HStr s) (JStr s)"
| rep_function: "represents h HOther JFun"
| rep_array: "a < length h \<Longrightarrow> h ! a = array_literal cs \<Longrightarrow> length xs = length cs
    \<Longrightarrow> (\<And>i. i < length cs \<Longrightarrow> represents h (cs ! i) (xs ! i)) \<Longrightarrow> represents h (HRef a) (JArr xs)"
| rep_object: "a < length h \<Longrightarrow> h ! a = object_literal (zip ks cs) \<Longrightarrow> distinct (map lit ks)
    \<Longrightarrow> length cs = length ks \<Longrightarrow> length xs = length ks
    \<Longrightarrow> (\<And>i. i < length ks \<Longrightarrow> represents h (cs ! i) (xs ! i)) \<Longrightarrow> represents h (HRef a) (JObj (zip ks xs))"

section \<open>The children of a literal\<close>

lemma those_map_Some: "(\<And>x. x \<in> set xs \<Longrightarrow> f x = Some (g x)) \<Longrightarrow> those (map f xs) = Some (map g xs)"
  by (induction xs) auto

lemma enumerable_data_property [simp]: "enumerable_data (Some (data_property c)) = Some c"
  by (simp add: enumerable_data_def data_property_def)

lemma literal_simps [simp]:
  "ho_isArray (array_literal cs)" "\<not> ho_isArray (object_literal kcs)"
  "\<not> ho_throws (array_literal cs)" "\<not> ho_throws (object_literal kcs)"
  "ho_prototype (array_literal cs) = ArrayPrototype" "ho_prototype (object_literal kcs) = ObjectPrototype"
  "ho_length (array_literal cs) = length cs"
  by (simp_all add: array_literal_def object_literal_def)

lemma array_literal_children:
  assumes "a < length h" "h ! a = array_literal cs"
  shows "container_children h a = Some cs"
proof -
  let ?ps = "map (\<lambda>i. (KString (dec i), data_property (cs ! i))) [0..<length cs]"
  have "map_of ?ps (KString (dec i)) = Some (data_property (cs ! i))" if "i < length cs" for i
    using that by (intro map_of_is_SomeI) (auto simp: distinct_map inj_on_def)
  then have "those (map (\<lambda>i. enumerable_data (map_of (ho_properties (array_literal cs)) (KString (dec i)))) [0..<length cs])
      = Some (map ((!) cs) [0..<length cs])"
    by (intro those_map_Some) (simp add: array_literal_def map_add_find_right)
  moreover have "length (map fst (ho_properties (array_literal cs))) = length cs + 1"
      "KString (lit ''length'') \<in> set (map fst (ho_properties (array_literal cs)))"
    by (simp_all add: array_literal_def)
  ultimately show ?thesis
    using assms by (simp add: container_children_def plainArrayValues_def Let_def map_nth)
qed

lemma object_literal_children:
  assumes "a < length h" "h ! a = object_literal (zip ks cs)" "distinct (map lit ks)" "length cs = length ks"
  shows "container_children h a = Some cs"
proof -
  let ?ps = "ho_properties (object_literal (zip ks cs))"
  let ?F = "\<lambda>k. case k of KSymbol n \<Rightarrow> None | KString s \<Rightarrow> enumerable_data (map_of ?ps k)"
  have keys: "map fst ?ps = map (\<lambda>k. KString (lit k)) ks"
    using assms(4) by (induction ks cs rule: list_induct2') (auto simp: object_literal_def)
  have "distinct (map fst ?ps)" using assms(3) unfolding keys by (simp add: distinct_map inj_on_def)
  then have look: "map_of ?ps k = Some d" if "(k, d) \<in> set ?ps" for k d using that by (simp add: map_of_is_SomeI)
  have shape: "\<exists>s c. p = (KString s, data_property c)" if "p \<in> set ?ps" for p
    using that by (auto simp: object_literal_def)
  have "?F (fst p) = Some (the (desc_value (snd p)))" if p: "p \<in> set ?ps" for p
  proof -
    from shape [OF p] obtain s c where "p = (KString s, data_property c)" by blast
    with look p show ?thesis by (simp add: data_property_def enumerable_data_def)
  qed
  then have "those (map (\<lambda>p. ?F (fst p)) ?ps) = Some (map (\<lambda>p. the (desc_value (snd p))) ?ps)"
    by (rule those_map_Some)
  moreover have "map (\<lambda>p. the (desc_value (snd p))) ?ps = cs"
    using assms(4) by (induction ks cs rule: list_induct2') (auto simp: object_literal_def data_property_def)
  ultimately have "plainObjectValues (object_literal (zip ks cs)) = Some cs"
    unfolding plainObjectValues_def by (simp add: comp_def)
  then show ?thesis using assms(1,2) by (simp add: container_children_def)
qed

lemma plain_container_iff:
  "container_children h a = Some children \<Longrightarrow> plain h (HRef a) \<longleftrightarrow> (\<forall>c \<in> set children. plain h c)"
  by (auto elim: plain_refE intro: plain.intros)

lemma represents_plain: "represents h c v \<Longrightarrow> plain h c \<longleftrightarrow> json_plain v"
proof (induction rule: represents.induct)
  case (rep_array a cs xs)
  then show ?case
    by (simp add: plain_container_iff [OF array_literal_children] list_all_length all_set_conv_all_nth)
next
  case (rep_object a ks cs xs)
  then show ?case
    by (simp add: plain_container_iff [OF object_literal_children] list_all_length all_set_conv_all_nth)
qed simp_all

section \<open>Properties\<close>

text \<open>C20: the iterative JSON check returns on every heap, cyclic and shared structures, accessors, symbol
  keys and foreign prototypes included, and answers yes exactly for the values that a finite derivation
  shows plain: scalars, and containers all of whose own properties are the data of a literal and lead to
  plain values.\<close>

theorem isPlainJsonValue_decides:
  "isPlainJsonValue h v \<noteq> None \<and> (isPlainJsonValue h v = Some True \<longleftrightarrow> plain h v)"
  by (simp add: isPlainJsonValue_plain)

text \<open>C21: on a heap that represents a tree of literals, with any sharing, the iterative check of the heap
  gives the answer of the structural check of the tree that the validators' model uses.\<close>

theorem plain_check_refines_tree_check:
  assumes "represents h c v"
  shows "isPlainJsonValue h c = Some (json_plain v)"
  using represents_plain [OF assms] by (simp add: isPlainJsonValue_plain)

text \<open>An array that holds one object twice.\<close>

definition shared_heap :: heap where
  "shared_heap = [array_literal [HRef 1, HRef 1], object_literal (zip [''k''] [HNum NaN])]"

theorem plain_check_refines_tree_check_witness:
  "isPlainJsonValue shared_heap (HRef 0) = Some (json_plain (JArr [JObj [(''k'', JNum NaN)], JObj [(''k'', JNum NaN)]]))"
proof (rule plain_check_refines_tree_check)
  have obj: "represents shared_heap (HRef 1) (JObj [(''k'', JNum NaN)])"
    using rep_object [of 1 shared_heap "[''k'']" "[HNum NaN]" "[JNum NaN]"]
    by (simp add: shared_heap_def rep_number)
  have "represents shared_heap ([HRef 1, HRef 1] ! i)
      ([JObj [(''k'', JNum NaN)], JObj [(''k'', JNum NaN)]] ! i)" if "i < length [HRef 1, HRef 1]" for i
    using that obj by (auto simp: less_Suc_eq)
  then show "represents shared_heap (HRef 0) (JArr [JObj [(''k'', JNum NaN)], JObj [(''k'', JNum NaN)]])"
    by (intro rep_array [of 0 shared_heap "[HRef 1, HRef 1]"]) (simp_all add: shared_heap_def)
qed

end
