(* ===== verification/Js_Parse.thy ===== *)
theory Js_Parse
  imports Js_Value
begin

text \<open>
  \<open>Number(text)\<close> of JavaScript, which the transports apply to query parameters and headers: white
  space is trimmed, the empty text is 0, prefixes select base 16, 8 or 2, decimal literals are
  rounded to a double, and anything else is NaN.
\<close>

definition digit_value :: "16 word \<Rightarrow> nat" where
  "digit_value c = (let n = unat c in if 48 \<le> n \<and> n \<le> 57 then n - 48
     else if 97 \<le> n \<and> n \<le> 122 then n - 87 else if 65 \<le> n \<and> n \<le> 90 then n - 55 else 36)"

definition radix_value :: "int \<Rightarrow> jstring \<Rightarrow> int" where
  "radix_value b s = foldl (\<lambda>v c. b * v + int (digit_value c)) 0 s"

definition digits_of :: "int \<Rightarrow> jstring \<Rightarrow> bool" where
  "digits_of b s \<longleftrightarrow> s \<noteq> [] \<and> list_all (\<lambda>c. int (digit_value c) < b) s"

definition to_double :: "rat \<Rightarrow> js_num" where
  "to_double x = (let y = fl x in if y \<noteq> 0 \<and> 1024 \<le> exponent y then (if 0 < y then PosInf else NegInf) else Fin y)"

definition scaled :: "int \<Rightarrow> int \<Rightarrow> rat" where
  "scaled v e = (if 0 \<le> e then of_int (v * 10 ^ nat e) else of_int v / of_int (10 ^ nat (- e)))"

definition negate :: "js_num \<Rightarrow> js_num" where
  "negate n = (case n of Fin r \<Rightarrow> Fin (- r) | PosInf \<Rightarrow> NegInf | NegInf \<Rightarrow> PosInf | NaN \<Rightarrow> NaN)"

text \<open>A sign: whether it is a minus, and the text after it.\<close>

definition split_sign :: "jstring \<Rightarrow> bool \<times> jstring" where
  "split_sign s = (case s of [] \<Rightarrow> (False, []) | c # r \<Rightarrow>
     if c = 45 then (True, r) else if c = 43 then (False, r) else (False, s))"

text \<open>The exponent of a decimal literal, if the rest of the text is one.\<close>

definition exponent_part :: "jstring \<Rightarrow> int option" where
  "exponent_part s = (case s of [] \<Rightarrow> Some 0 | c # r \<Rightarrow>
     if c = 101 \<or> c = 69 then (case split_sign r of (neg, ds) \<Rightarrow>
       if digits_of 10 ds then Some (if neg then - radix_value 10 ds else radix_value 10 ds) else None)
     else None)"

definition decimal_literal :: "jstring \<Rightarrow> js_num" where
  "decimal_literal s =
     (if s = lit ''Infinity'' then PosInf
      else let isdec = (\<lambda>c. digit_value c < 10);
               whole = takeWhile isdec s; rest = dropWhile isdec s;
               (fraction, tail) = (case rest of [] \<Rightarrow> ([], []) | c # r \<Rightarrow>
                 if c = 46 then (takeWhile isdec r, dropWhile isdec r) else ([], rest))
           in if whole = [] \<and> fraction = [] then NaN
              else (case exponent_part tail of None \<Rightarrow> NaN
                | Some e \<Rightarrow> to_double (scaled (radix_value 10 (whole @ fraction)) (e - int (length fraction)))))"

definition string_to_number :: "jstring \<Rightarrow> js_num" where
  "string_to_number text =
     (let s = js_trim text; body = drop 2 s;
          radix = (\<lambda>b. if digits_of b body then to_double (of_int (radix_value b body)) else NaN)
      in if s = [] then Fin 0
         else if take 2 s \<in> {lit ''0x'', lit ''0X''} then radix 16
         else if take 2 s \<in> {lit ''0o'', lit ''0O''} then radix 8
         else if take 2 s \<in> {lit ''0b'', lit ''0B''} then radix 2
         else (case split_sign s of (neg, r) \<Rightarrow> if neg then negate (decimal_literal r) else decimal_literal r))"

text \<open>\<open>Number\<close> of a field of a query: absent, a text, or the list of texts of a repeated name, which
  is converted through its elements joined by commas.\<close>

fun comma_join :: "jstring list \<Rightarrow> jstring" where
  "comma_join [] = []"
| "comma_join [s] = s"
| "comma_join (s # ss) = s @ lit '','' @ comma_join ss"

fun to_number :: "js \<Rightarrow> js_num" where
  "to_number (JStr s) = string_to_number s"
| "to_number (JNum n) = n"
| "to_number (JBool b) = Fin (if b then 1 else 0)"
| "to_number JNull = Fin 0"
| "to_number (JArr xs) = string_to_number (comma_join (map the_str xs))"
| "to_number _ = NaN"

text \<open>\<open>/\S/u.test(s)\<close>.\<close>

definition has_text :: "jstring \<Rightarrow> bool" where
  "has_text s \<longleftrightarrow> list_ex (\<lambda>c. \<not> whitespace c) s"

lemma string_to_number_samples:
  "string_to_number (lit ''1'') = Fin 1" "string_to_number (lit '' 1.0 '') = Fin 1" "string_to_number (lit ''0x1'') = Fin 1"
  "string_to_number (lit ''-12e-1'') = Fin (fl (- 12 / 10))" "string_to_number (lit ''1,1'') = NaN"
  "string_to_number [] = Fin 0" "string_to_number (lit ''.'') = NaN"
  by code_simp+

section \<open>Decimal texts as numbers\<close>

lemma digit_value_digit: "d < 10 \<Longrightarrow> digit_value (digit d) = d"
  by (simp add: digit_value_def unat_digit)

lemma digit_value_dec: "c \<in> set (dec n) \<Longrightarrow> digit_value c < 10"
  using dec_digits [of c n] by (auto simp: digit_value_def Let_def)

lemma radix_value_dec: "radix_value 10 (dec n) = int n"
proof (induction n rule: dec.induct)
  case (1 n)
  show ?case
  proof (cases "n < 10")
    case True
    then show ?thesis by (subst dec_unfold) (simp add: radix_value_def digit_value_digit)
  next
    case False
    with 1 have "radix_value 10 (dec (n div 10)) = int (n div 10)" by simp
    then have "radix_value 10 (dec n) = 10 * int (n div 10) + int (n mod 10)"
      using False by (subst dec_unfold) (simp add: radix_value_def digit_value_digit)
    then show ?thesis by presburger
  qed
qed

lemma dec_not_space: "c \<in> set (dec n) \<Longrightarrow> \<not> whitespace c"
proof
  assume c: "c \<in> set (dec n)" "whitespace c"
  have "unat c < 48 \<or> 58 \<le> unat c" if "whitespace c" for c :: "16 word"
    using that by (auto simp: whitespace_def)
  with dec_digits [OF c(1)] c(2) show False by fastforce
qed

lemma trim_dec [simp]: "js_trim (dec n) = dec n"
proof -
  have keep: "dropWhile whitespace xs = xs" if "\<forall>c \<in> set xs. \<not> whitespace c" for xs
    using that by (cases xs) auto
  have "dropWhile whitespace (dec n) = dec n" "dropWhile whitespace (rev (dec n)) = rev (dec n)"
    by (rule keep; use dec_not_space in auto)+
  then show ?thesis by (simp add: js_trim_def)
qed

lemma decimal_literal_dec:
  assumes "int n \<le> 2 ^ 53"
  shows "decimal_literal (dec n) = Fin (of_nat n)"
proof -
  have digits: "takeWhile (\<lambda>c. digit_value c < 10) (dec n) = dec n" "dropWhile (\<lambda>c. digit_value c < 10) (dec n) = []"
    using digit_value_dec by (auto simp: takeWhile_eq_all_conv dropWhile_eq_Nil_conv)
  have "73 \<notin> set (dec n)" using dec_digits [of 73 n] by auto
  then have notinf: "dec n \<noteq> lit ''Infinity''" by (auto simp: lit_def)
  have "to_double (of_nat n) = Fin (of_nat n)"
  proof (cases "n = 0")
    case False
    have "pow2 1024 \<le> (of_nat n :: rat) \<Longrightarrow> False"
    proof -
      assume "pow2 1024 \<le> (of_nat n :: rat)"
      also have "(of_nat n :: rat) \<le> of_int (2 ^ 53)" using assms by (metis of_int_le_iff of_int_of_nat_eq)
      finally show False by (simp add: pow2_def)
    qed
    then have "\<not> 1024 \<le> exponent (of_nat n)"
      using exponent_bounds(1) [of "of_nat n"] False pow2_mono [of 1024 "exponent (of_nat n)"] by auto
    with assms show ?thesis using fl_of_int [of "int n"] by (simp add: to_double_def)
  qed (simp add: to_double_def)
  then show ?thesis
    by (simp add: decimal_literal_def Let_def digits notinf exponent_part_def radix_value_dec scaled_def)
qed

lemma string_to_number_dec:
  assumes "int n \<le> 2 ^ 53"
  shows "string_to_number (dec n) = Fin (of_nat n)"
proof -
  obtain c cs where dec: "dec n = c # cs" by (cases "dec n") auto
  have c: "48 \<le> unat c" "unat c < 58" using dec_digits [of c n] dec by simp_all
  then have sign: "split_sign (dec n) = (False, dec n)" by (auto simp: split_sign_def dec)
  have letters: "d \<notin> set (dec n)" if "unat d < 48 \<or> 58 \<le> unat d" for d using that dec_digits [of d n] by auto
  have "take 2 (dec n) \<noteq> [48, d]" if "unat d < 48 \<or> 58 \<le> unat d" for d
    using letters [OF that] by (metis in_set_takeD list.set_intros(1,2))
  from this [of 120] this [of 88] this [of 111] this [of 79] this [of 98] this [of 66] have
    "take 2 (dec n) \<notin> {lit ''0x'', lit ''0X''}" "take 2 (dec n) \<notin> {lit ''0o'', lit ''0O''}" "take 2 (dec n) \<notin> {lit ''0b'', lit ''0B''}"
    by (simp_all add: lit_def)
  with sign decimal_literal_dec [OF assms] show ?thesis by (simp add: string_to_number_def Let_def)
qed

end
