(* ===== verification/Http.thy ===== *)
theory Http
  imports Service_Outcomes Js_Parse
begin

text \<open>
  \<open>packages/server/src/http.ts\<close>: the REST adapter over the session service.  Fastify is third-party
  code: which handler it calls, with which body, parameters, query and headers, is an input, and
  its reply is the value a handler returns.  \<open>randomUUID\<close> is an argument, the sequence of the
  identifiers one request draws.  The service runs a request as one step; a creation is the
  reservation followed at once by the queued operation.
\<close>

section \<open>Requests and replies\<close>

record http_request =
  rq_body :: js
  rq_sessionId :: js
  rq_query :: js
  rq_headers :: js
  rq_url :: jstring

datatype http_body = SnapshotBody qaraa_event | SnapshotsBody "qaraa_event list" | ErrorBody error_envelope

record http_response =
  rs_status :: nat
  rs_body :: http_body

datatype http_route =
  CreateSession | GetSession | ResetSession | SubmitObservation | ResumeSession | DeleteSession

text \<open>What Fastify calls: the handler of a route, the handler of unknown routes, or the error handler, for
  a body that is not JSON or any other exception.\<close>

datatype http_call = RouteHandler http_route | NotFoundHandler | ErrorHandler bool server_error

section \<open>Checks\<close>

definition validationDetails :: js where
  "validationDetails = JObj [(''kind'', js_string ''command-validation'')]"

definition commandValidator :: "ajv \<Rightarrow> js \<Rightarrow> bool" where
  "commandValidator ajv v \<longleftrightarrow> withJsonPreflight ajv CommandSchema v = []"

definition assertCommand :: "ajv \<Rightarrow> js \<Rightarrow> string \<Rightarrow> server_error + unit" where
  "assertCommand ajv v type =
     (if isRecord v \<and> has_field v ''protocolVersion'' \<and> js_get v ''protocolVersion'' \<noteq> js_int PROTOCOL_VERSION
      then Inl (trustedError UNSUPPORTED_PROTOCOL ''Protocol version is not supported'' False
             (JObj [(''supportedProtocolVersion'', js_int PROTOCOL_VERSION)]))
      else if \<not> commandValidator ajv v \<or> js_get v ''type'' \<noteq> js_string type
      then Inl (trustedError (if type = ''observation.submit'' then INVALID_OBSERVATION else INVALID_CORPUS)
             ''Request payload is invalid'' False validationDetails)
      else (case assertValidCommand ajv v of
          Inl (ProtocolFailure e) \<Rightarrow> Inl (trustProtocolError e)
        | Inl e \<Rightarrow> Inl e
        | Inr _ \<Rightarrow> Inr ()))"

definition text_field :: "js \<Rightarrow> bool" where
  "text_field v \<longleftrightarrow> isString v \<and> has_text (the_str v)"

definition requestId :: "jstring \<Rightarrow> http_request \<Rightarrow> jstring" where
  "requestId uuid rq =
     (if isRecord (rq_body rq) \<and> has_field (rq_body rq) ''requestId'' \<and> text_field (js_get (rq_body rq) ''requestId'')
      then the_str (js_get (rq_body rq) ''requestId'')
      else if text_field (js_get (rq_query rq) ''requestId'') then the_str (js_get (rq_query rq) ''requestId'')
      else if text_field (js_get (rq_headers rq) ''x-request-id'') then the_str (js_get (rq_headers rq) ''x-request-id'')
      else uuid)"

definition requestedProtocolVersion :: "http_request \<Rightarrow> js_num" where
  "requestedProtocolVersion rq =
     (let queryVersion = js_get (rq_query rq) ''protocolVersion'';
          headerVersion = js_get (rq_headers rq) ''x-qaraa-protocol-version''
      in if queryVersion \<noteq> JUndefined then to_number queryVersion
         else if isString headerVersion then to_number headerVersion
         else Fin (of_int PROTOCOL_VERSION))"

definition ends_with :: "jstring \<Rightarrow> jstring \<Rightarrow> bool" where
  "ends_with s t \<longleftrightarrow> length t \<le> length s \<and> drop (length s - length t) s = t"

definition bodyValidationCode :: "http_request \<Rightarrow> qaraa_error_code" where
  "bodyValidationCode rq = (if ends_with (rq_url rq) (lit ''/observations'') then INVALID_OBSERVATION else INVALID_CORPUS)"

definition errorStatus :: "qaraa_error \<Rightarrow> nat" where
  "errorStatus e = (case qe_code e of
       SESSION_NOT_FOUND \<Rightarrow> 404
     | STALE_REVISION \<Rightarrow> 409
     | INTERNAL_ERROR \<Rightarrow> if qe_retryable e then 503 else 500
     | _ \<Rightarrow> 400)"

section \<open>Replies\<close>

definition internalError :: server_error where
  "internalError = trustedError INTERNAL_ERROR ''An internal error occurred'' False (JObj [])"

text \<open>\<open>reply.status(status).send(error.toEnvelope(id))\<close>: the reply, or what is thrown instead when the
  error or its envelope cannot be made.\<close>

definition send_error :: "server_error \<Rightarrow> (qaraa_error \<Rightarrow> nat) \<Rightarrow> jstring \<Rightarrow> server_error + http_response" where
  "send_error x status i = (case x of
       ProtocolFailure e \<Rightarrow> (case toEnvelope e i of
           Inl err \<Rightarrow> Inl (CoreFailure err)
         | Inr envelope \<Rightarrow> Inr \<lparr>rs_status = status e, rs_body = ErrorBody envelope\<rparr>)
     | _ \<Rightarrow> Inl x)"

definition is_trusted :: "server_error \<Rightarrow> bool" where
  "is_trusted x = (case x of ProtocolFailure e \<Rightarrow> qe_trusted e | _ \<Rightarrow> False)"

text \<open>\<open>respond\<close>, after its operation: what is logged, and the reply or the exception.\<close>

definition respond :: "jstring \<Rightarrow> http_request \<Rightarrow> nat \<Rightarrow> server_error + http_body
    \<Rightarrow> server_error list \<times> (server_error + http_response)" where
  "respond uuid rq successStatus outcome = (case outcome of
       Inr result \<Rightarrow> ([], Inr \<lparr>rs_status = successStatus, rs_body = result\<rparr>)
     | Inl error \<Rightarrow>
         let safeError = (if is_trusted error then error else internalError) in
         (if is_trusted error then [] else [error], send_error safeError errorStatus (requestId uuid rq)))"

definition error_handler :: "jstring \<Rightarrow> http_request \<Rightarrow> bool \<Rightarrow> server_error
    \<Rightarrow> server_error list \<times> (server_error + http_response)" where
  "error_handler uuid rq invalidJson error =
     (if invalidJson
      then ([], send_error (trustedError (bodyValidationCode rq) ''Request body is not valid JSON'' False (JObj []))
              (\<lambda>_. 400) (requestId uuid rq))
      else ([error], send_error internalError (\<lambda>_. 500) (requestId uuid rq)))"

definition not_found_handler :: "jstring \<Rightarrow> http_request \<Rightarrow> server_error + http_response" where
  "not_found_handler uuid rq =
     send_error (trustedError SESSION_NOT_FOUND ''Route was not found'' False (JObj [])) (\<lambda>_. 404) (requestId uuid rq)"

section \<open>Routes\<close>

definition on_result :: "('a \<Rightarrow> 'b) \<Rightarrow> 's \<times> ('e + 'a) \<Rightarrow> 's \<times> ('e + 'b)" where
  "on_result f x = (fst x, case snd x of Inl e \<Rightarrow> Inl e | Inr y \<Rightarrow> Inr (f y))"

definition service_create :: "('s, update_world) session_store \<Rightarrow> service_config \<Rightarrow> jstring \<Rightarrow> js \<Rightarrow> 's service_state
    \<Rightarrow> 's service_state \<times> (server_error + qaraa_event)" where
  "service_create S config i cmd st = (case create_call config st of
       (st', Inl e) \<Rightarrow> (st', Inl e)
     | (st', Inr _) \<Rightarrow> create_run S config i cmd st')"

text \<open>The command a route without a body makes from its path.\<close>

definition path_command :: "jstring \<Rightarrow> http_request \<Rightarrow> string \<Rightarrow> js" where
  "path_command uuid rq type = JObj [(''protocolVersion'', JNum (requestedProtocolVersion rq)),
     (''requestId'', JStr (requestId uuid rq)), (''type'', js_string type), (''sessionId'', rq_sessionId rq)]"

definition path_mismatch :: "http_request \<Rightarrow> server_error" where
  "path_mismatch rq = trustedError SESSION_NOT_FOUND ''Session path does not match the request payload'' False
     (JObj [(''sessionId'', if rq_sessionId rq = JUndefined then js_string '''' else rq_sessionId rq)])"

text \<open>The body of a route whose payload names the session of the path.\<close>

definition body_route :: "ajv \<Rightarrow> http_request \<Rightarrow> string \<Rightarrow> (js \<Rightarrow> 's \<Rightarrow> 's \<times> (server_error + http_body)) \<Rightarrow> 's
    \<Rightarrow> 's \<times> (server_error + http_body)" where
  "body_route ajv rq type operation st = (case assertCommand ajv (rq_body rq) type of
       Inl e \<Rightarrow> (st, Inl e)
     | Inr _ \<Rightarrow> if js_get (rq_body rq) ''sessionId'' \<noteq> rq_sessionId rq then (st, Inl (path_mismatch rq))
         else operation (rq_body rq) st)"

definition path_route :: "ajv \<Rightarrow> jstring \<Rightarrow> http_request \<Rightarrow> string \<Rightarrow> (js \<Rightarrow> 's \<Rightarrow> 's \<times> (server_error + http_body)) \<Rightarrow> 's
    \<Rightarrow> 's \<times> (server_error + http_body)" where
  "path_route ajv uuid rq type operation st = (case assertCommand ajv (path_command uuid rq type) type of
       Inl e \<Rightarrow> (st, Inl e)
     | Inr _ \<Rightarrow> operation (path_command uuid rq type) st)"

definition route_operation :: "('s, update_world) session_store \<Rightarrow> service_config \<Rightarrow> jstring \<Rightarrow> jstring \<Rightarrow> http_request
    \<Rightarrow> http_route \<Rightarrow> 's service_state \<Rightarrow> 's service_state \<times> (server_error + http_body)" where
  "route_operation S config newSessionId uuid rq route st = (case route of
       CreateSession \<Rightarrow> (case assertCommand (sc_ajv config) (rq_body rq) ''session.create'' of
           Inl e \<Rightarrow> (st, Inl e)
         | Inr _ \<Rightarrow> on_result SnapshotBody (service_create S config newSessionId (rq_body rq) st))
     | GetSession \<Rightarrow> path_route (sc_ajv config) uuid rq ''session.get''
         (\<lambda>cmd st. on_result SnapshotBody (st, get_session S cmd st)) st
     | ResetSession \<Rightarrow> body_route (sc_ajv config) rq ''session.reset''
         (\<lambda>cmd st. on_result SnapshotBody (reset_session S config cmd st)) st
     | SubmitObservation \<Rightarrow> body_route (sc_ajv config) rq ''observation.submit''
         (\<lambda>cmd st. on_result SnapshotBody (submit_session S config cmd st)) st
     | ResumeSession \<Rightarrow> body_route (sc_ajv config) rq ''session.resume''
         (\<lambda>cmd st. on_result SnapshotsBody (st, resume_session S cmd st)) st
     | DeleteSession \<Rightarrow> path_route (sc_ajv config) uuid rq ''session.delete''
         (\<lambda>cmd st. on_result SnapshotBody (delete_session S cmd st)) st)"

text \<open>One request: the new state, what is logged, the reply.  An exception of \<open>respond\<close> itself goes to
  the error handler.  \<open>uuids\<close> are the identifiers drawn for the command and for the error.\<close>

definition serve :: "('s, update_world) session_store \<Rightarrow> service_config \<Rightarrow> jstring \<Rightarrow> jstring \<times> jstring \<Rightarrow> http_request
    \<Rightarrow> http_call \<Rightarrow> 's service_state \<Rightarrow> 's service_state \<times> server_error list \<times> (server_error + http_response)" where
  "serve S config newSessionId uuids rq call st = (case call of
       NotFoundHandler \<Rightarrow> (st, [], not_found_handler (snd uuids) rq)
     | ErrorHandler invalidJson error \<Rightarrow> (st, error_handler (snd uuids) rq invalidJson error)
     | RouteHandler route \<Rightarrow>
         (case route_operation S config newSessionId (fst uuids) rq route st of
            (st', outcome) \<Rightarrow>
              (case respond (snd uuids) rq (if route = CreateSession then 201 else 200) outcome of
                 (logged, Inr reply) \<Rightarrow> (st', logged, Inr reply)
               | (logged, Inl error) \<Rightarrow> (case error_handler (snd uuids) rq False error of
                     (again, reply) \<Rightarrow> (st', logged @ again, reply)))))"

end
