(* ===== verification/Http_Proofs.thy ===== *)
theory Http_Proofs
  imports Http
begin

text \<open>
  The REST adapter never answers 500 for a request that reaches one of its routes: every way in which
  an operation of the service fails is a trusted error with a status of its own.  A request that the body
  parser refuses, for its size or its content type, reaches no route; the error handler answers
  it with 500.
\<close>

section \<open>Failures a client can be told\<close>

definition client_failure :: "server_error \<Rightarrow> bool" where
  "client_failure x \<longleftrightarrow> (\<exists>e. x = ProtocolFailure e \<and> qe_trusted e \<and> sendable e
     \<and> (qe_code e = INTERNAL_ERROR \<longrightarrow> qe_retryable e))"

lemma typed_client: "typed_failure code x \<Longrightarrow> code \<noteq> INTERNAL_ERROR \<Longrightarrow> client_failure x"
  by (auto simp: typed_failure_def client_failure_def)

lemma trustedError_client [simp]:
  "json_object details \<Longrightarrow> code \<noteq> INTERNAL_ERROR \<or> b \<Longrightarrow> client_failure (protocolError True code m b details)"
  by (auto simp: client_failure_def protocolError_def sendable_def)

lemma json_objects [simp]:
  "json_object (JObj [])" "json_object (JObj [(k, js_int n)])" "json_object (JObj [(k, JStr s)])"
  "json_object (JObj [(k, js_string t)])" "json_object (stale_details a b)" "json_object validationDetails"
  by (simp_all add: json_object_def js_int_def js_string_def stale_details_def validationDetails_def)

lemma sessionNotFound_client [simp]: "client_failure (sessionNotFound i)"
  by (simp add: sessionNotFound_def)

lemma invalidDomainPayload_client [simp]: "code \<noteq> INTERNAL_ERROR \<Longrightarrow> client_failure (invalidDomainPayload code)"
  by (simp add: invalidDomainPayload_def)

lemma capacityExhausted_client [simp]: "client_failure (capacityExhausted resource limit)"
  by (simp add: capacityExhausted_def json_object_def js_int_def js_string_def)

lemma trust_client: "sendable e \<Longrightarrow> qe_code e \<noteq> INTERNAL_ERROR \<Longrightarrow> client_failure (trustProtocolError e)"
  by (simp add: trustProtocolError_eq client_failure_def sendable_def)

lemma path_mismatch_client: "json_plain (rq_sessionId rq) \<or> rq_sessionId rq = JUndefined \<Longrightarrow> client_failure (path_mismatch rq)"
  by (auto simp: path_mismatch_def json_object_def js_string_def)

section \<open>Commands\<close>

lemma assertValidCommand_failure:
  assumes "assertValidCommand ajv v = Inl x"
  obtains e where "x = ProtocolFailure e" "sendable e" "qe_code e \<noteq> INTERNAL_ERROR"
proof -
  have "\<exists>e. x = ProtocolFailure e \<and> sendable e \<and> qe_code e \<noteq> INTERNAL_ERROR"
    using assms validateObservation_TypeError [of v]
    by (auto simp: assertValidCommand_def Let_def assertObservationDomain_def protocolError_def sendable_def
        split: sum.splits js_error.splits if_splits)
  with that show thesis by blast
qed

lemma assertCommand_failure: "assertCommand ajv v type = Inl x \<Longrightarrow> client_failure x"
proof -
  assume x: "assertCommand ajv v type = Inl x"
  show "client_failure x"
  proof (cases "assertValidCommand ajv v")
    case (Inl y)
    then obtain e where "y = ProtocolFailure e" "sendable e" "qe_code e \<noteq> INTERNAL_ERROR"
      by (rule assertValidCommand_failure)
    with x Inl show ?thesis by (auto simp: assertCommand_def trust_client split: if_splits)
  next
    case (Inr u)
    with x show ?thesis by (auto simp: assertCommand_def split: if_splits)
  qed
qed

lemma assertCommand_valid: "assertCommand ajv v type = Inr u \<Longrightarrow> ajv CommandSchema v = []"
  by (auto simp: assertCommand_def commandValidator_def withJsonPreflight_def split: if_splits)

section \<open>Operations\<close>

text \<open>The documented behaviour of Ajv that matters here: an accepted command has a known finding mode.\<close>

definition ajv_checks_modes :: "ajv \<Rightarrow> bool" where
  "ajv_checks_modes ajv \<longleftrightarrow> (\<forall>v. ajv CommandSchema v = [] \<longrightarrow> known_mode (js_get v ''findingMode''))"

lemma hasLocation_symbol: "hasLocation corpus l \<longleftrightarrow> hasSymbolAt corpus l"
  by (auto simp: hasLocation_def hasSymbolAt_def list_ex_iff)

lemma createReadingTracker_total:
  assumes "ix_symbols index \<noteq> []" "case initial of None \<Rightarrow> True | Some l \<Rightarrow> hasLocation index l"
    "mode \<in> {None, Some (lit ''off''), Some (lit ''substitutions'')}"
  shows "createReadingTracker index initial mode \<noteq> Inl e"
proof -
  let ?l = "case initial of Some l \<Rightarrow> l | None \<Rightarrow> sym_location (ix_symbols index ! 0)"
  have "hasSymbolAt index ?l"
    using assms(1,2) by (cases initial) (auto simp: hasLocation_symbol hasSymbolAt_def)
  then obtain i where "symbolIndexAt index ?l = Inr i" by (auto simp: symbolIndexAt_found)
  with assms(1,3) show ?thesis by (auto simp: createReadingTracker_def Let_def)
qed

lemma command_mode_known: "known_mode (js_get cmd ''findingMode'')
    \<Longrightarrow> command_mode cmd \<in> {None, Some (lit ''off''), Some (lit ''substitutions'')}"
  by (auto simp: known_mode_def command_mode_def js_string_def)

lemma indexedCorpusFor_symbols: "indexedCorpusFor config i = Inr index \<Longrightarrow> ix_symbols index \<noteq> []"
proof -
  assume "indexedCorpusFor config i = Inr index"
  then obtain v where "corpusFor config i = Inr v"
      "(case indexCorpus v of Inl e \<Rightarrow> Inl (CoreFailure e) | Inr ix \<Rightarrow> Inr ix) = Inr index"
    by (auto simp: indexedCorpusFor_def ebind_Inr_iff)
  then have v: "corpusFor config i = Inr v" "indexCorpus v = Inr index" by (cases "indexCorpus v"; simp)+
  then have "assertDomainCorpus v = Inr ()"
    by (auto simp: corpusFor_def Let_def ebind_Inr_iff split: option.splits sum.splits server_error.splits if_splits)
  then have "corpus_symbols (read_corpus v) \<noteq> []" by (auto simp: assertDomainCorpus_def split: sum.splits if_splits)
  with v(2) show ?thesis by (auto simp: indexCorpus_Inr build_index_def Let_def)
qed

context service_storage
begin

lemma service_create_failure:
  assumes "\<And>resolve j x. sc_resolveCorpus config = Some resolve \<Longrightarrow> resolve j \<noteq> Inl x"
    "known_mode (js_get cmd ''findingMode'')" "records (sv_store st) i = None"
    "service_create S config i cmd st = (st', Inl x)"
  shows "client_failure x"
proof (cases "create_call config st")
  case (Pair st1 r)
  show ?thesis
  proof (cases r)
    case (Inl e)
    with Pair assms(4) show ?thesis
      by (auto simp: service_create_def create_call_def reserveSession_def split: if_splits)
  next
    case (Inr u)
    with Pair assms(4) obtain st2 where body: "create_body S config i cmd st1 = (st2, Inl x)"
      by (auto simp: service_create_def create_run_def split: prod.splits)
    have store: "sv_store st1 = sv_store st"
      using Pair by (auto simp: create_call_def reserveSession_def split: if_splits)
    show ?thesis
    proof (cases "indexedCorpusFor config (the_str (js_get cmd ''corpusId''))")
      case (Inl e)
      then have "typed_failure INVALID_CORPUS e" by (rule indexedCorpusFor_failure [rotated]) (rule assms(1))
      with Inl body show ?thesis by (auto simp: create_body_def intro: typed_client)
    next
      case (Inr index)
      let ?l = "command_location cmd ''initialLocation''"
      show ?thesis
      proof (cases "case ?l of None \<Rightarrow> False | Some l \<Rightarrow> \<not> hasLocation index l")
        case True
        with Inr body show ?thesis by (auto simp: create_body_def Let_def)
      next
        case False
        then have "case ?l of None \<Rightarrow> True | Some l \<Rightarrow> hasLocation index l" by (simp split: option.splits)
        from createReadingTracker_total [OF indexedCorpusFor_symbols [OF Inr] this command_mode_known [OF assms(2)]]
        obtain tc t where tracker: "createReadingTracker index ?l (command_mode cmd) = Inr (tc, t)"
          by (metis sum.exhaust surj_pair)
        let ?r = "\<lparr>rec_sessionId = i, rec_corpusId = the_str (js_get cmd ''corpusId''), rec_snapshot = getSnapshot t,
            rec_snapshots = [getSnapshot t], rec_observationIds = [], rec_latestSourceRevision = -1\<rparr>"
        from create_new [of "sv_store st1" ?r] assms(3) store obtain s' where "store_create S (sv_store st1) ?r = (s', Inr ())" by auto
        with Inr False tracker body show ?thesis by (simp add: create_body_def Let_def)
      qed
    qed
  qed
qed

lemma get_session_failure: "get_session S cmd st = Inl x \<Longrightarrow> client_failure x"
  by (auto simp: get_session_def Let_def split: option.splits)

lemma resume_session_failure: "resume_session S cmd st = Inl x \<Longrightarrow> client_failure x"
  by (auto simp: resume_session_def Let_def split: option.splits)

lemma delete_session_failure: "delete_session S cmd st = (st', Inl x) \<Longrightarrow> client_failure x"
  by (auto simp: delete_session_def Let_def split: prod.splits if_splits)

lemma submit_session_failure:
  assumes ok: "service_ok config records st" and x: "submit_session S config cmd st = (st', Inl x)"
  shows "client_failure x"
proof (cases "submit_input_ok config cmd")
  case False
  with submit_refused [OF False, of S st] x show ?thesis by (auto simp: client_failure_def)
next
  case True
  show ?thesis
  proof (cases "records (sv_store st) (the_str (js_get cmd ''sessionId''))")
    case None
    with submit_session_unknown [OF ok True None] x show ?thesis by auto
  next
    case (Some r)
    with submit_session_known [OF ok True Some] x show ?thesis
      by (auto simp: submit_answer_def Let_def snapshot_event_def split: if_splits)
  qed
qed

lemma reset_tracker_total:
  assumes "tracker_ok c config t" "case location of None \<Rightarrow> True | Some l \<Rightarrow> hasLocation (tc_corpus config) l"
  shows "reset_tracker config t location = (t', Inl e) \<Longrightarrow> False"
proof -
  let ?l = "case location of Some l \<Rightarrow> l | None \<Rightarrow> tc_initialLocation config"
  have "hasSymbolAt (tc_corpus config) ?l"
    using assms by (cases location) (auto simp: hasLocation_symbol tracker_ok_def core_ok_def config_ok_def)
  then obtain i where "symbolIndexAt (tc_corpus config) ?l = Inr i" by (auto simp: symbolIndexAt_found)
  then show "reset_tracker config t location = (t', Inl e) \<Longrightarrow> False" by (simp add: reset_tracker_def Let_def)
qed

lemma reset_session_failure:
  assumes ok: "service_ok config records st" and x: "reset_session S config cmd st = (st', Inl x)"
  shows "client_failure x"
proof -
  let ?i = "the_str (js_get cmd ''sessionId'')" and ?l = "command_location cmd ''location''"
  show ?thesis
  proof (cases "js_map_get (sv_sessions st) ?i")
    case None
    with x show ?thesis by (auto simp: reset_session_def Let_def)
  next
    case (Some rt)
    then have "records (sv_store st) ?i \<noteq> None" using ok by (simp add: service_ok_def)
    then obtain r where r: "records (sv_store st) ?i = Some r" by blast
    with Some ok have "session_ok rt r" by (auto simp: service_ok_def)
    then obtain c where tracker: "tracker_ok c (rt_config rt) (rt_tracker rt)" by (auto simp: session_ok_def)
    show ?thesis
    proof (cases "case ?l of None \<Rightarrow> False | Some l \<Rightarrow> \<not> hasLocation (tc_corpus (rt_config rt)) l")
      case True
      with Some x show ?thesis by (auto simp: reset_session_def Let_def)
    next
      case False
      then have loc: "case ?l of None \<Rightarrow> True | Some l \<Rightarrow> hasLocation (tc_corpus (rt_config rt)) l"
        by (simp split: option.splits)
      obtain t y where t: "reset_tracker (rt_config rt) (rt_tracker rt) ?l = (t, y)" by (rule prod.exhaust)
      obtain snap where y: "y = Inr snap" using reset_tracker_total [OF tracker loc, of t] t by (cases y) auto
      show ?thesis
      proof (cases rule: update_cases [of "sv_store st" ?i "reset_mutation ?i ?l rt" "(sv_sessions st, False)"])
        case (missing s')
        with r show ?thesis by simp
      next
        case (throws r0 w e s')
        with t y show ?thesis by (simp add: reset_mutation_def)
      next
        case (returns r0 w r' s')
        with Some False x show ?thesis by (simp add: reset_session_def Let_def split: prod.splits)
      qed
    qed
  qed
qed

end

section \<open>Replies\<close>

lemma send_client_failure:
  assumes "client_failure x"
  shows "\<exists>e env. x = ProtocolFailure e \<and> is_trusted x \<and> send_error x errorStatus i = Inr \<lparr>rs_status = errorStatus e, rs_body = ErrorBody env\<rparr>
    \<and> errorStatus e \<in> {400, 404, 409, 503} \<and> env_code env = qe_code e \<and> env_requestId env = i"
proof -
  obtain e where e: "x = ProtocolFailure e" "qe_trusted e" "sendable e" "qe_code e = INTERNAL_ERROR \<longrightarrow> qe_retryable e"
    using assms by (auto simp: client_failure_def)
  from toEnvelope_sendable [OF e(3), of i] obtain env where
    "toEnvelope e i = Inr env" "env_code env = qe_code e" "env_requestId env = i" by blast
  with e show ?thesis
    by (auto simp: send_error_def is_trusted_def errorStatus_def split: qaraa_error_code.splits)
qed

context service_storage
begin

lemma route_failure:
  assumes "service_ok config records st" "ajv_checks_modes (sc_ajv config)"
    "\<And>resolve j x. sc_resolveCorpus config = Some resolve \<Longrightarrow> resolve j \<noteq> Inl x"
    "records (sv_store st) newSessionId = None" "rq_sessionId rq = JUndefined \<or> isString (rq_sessionId rq)"
    "route_operation S config newSessionId uuid rq route st = (st', Inl x)"
  shows "client_failure x"
proof -
  have path: "client_failure (path_mismatch rq)" using assms(5) by (intro path_mismatch_client) (auto simp: isString_iff)
  have lift: "on_result f y = (st'', Inl z) \<Longrightarrow> y = (st'', Inl z)" for f :: "'x \<Rightarrow> http_body" and y st'' z
    by (cases y) (auto simp: on_result_def split: sum.splits)
  show ?thesis
  proof (cases route)
    case CreateSession
    show ?thesis
    proof (cases "assertCommand (sc_ajv config) (rq_body rq) ''session.create''")
      case (Inl e)
      with CreateSession assms(6) show ?thesis by (auto simp: route_operation_def dest: assertCommand_failure)
    next
      case (Inr u)
      then have mode: "known_mode (js_get (rq_body rq) ''findingMode'')"
        using assertCommand_valid assms(2) by (auto simp: ajv_checks_modes_def)
      from CreateSession Inr assms(6) have "service_create S config newSessionId (rq_body rq) st = (st', Inl x)"
        by (auto simp: route_operation_def dest!: lift)
      then show ?thesis by (rule service_create_failure [OF _ mode assms(4), rotated]) (rule assms(3))
    qed
  qed (use assms(6) path assertCommand_failure get_session_failure resume_session_failure delete_session_failure
      reset_session_failure [OF assms(1)] submit_session_failure [OF assms(1)]
      in \<open>auto simp: route_operation_def path_route_def body_route_def dest!: lift split: sum.splits if_splits\<close>)
qed

end

section \<open>Properties\<close>


definition sample_request :: "js \<Rightarrow> http_request" where
  "sample_request body = \<lparr>rq_body = body, rq_sessionId = js_string ''s'', rq_query = JObj [], rq_headers = JObj [],
     rq_url = lit ''/v1/sessions/:sessionId''\<rparr>"


end
