(* ===== verification/Sherpa.thy ===== *)
theory Sherpa
  imports Observation_Validate
begin

text \<open>
  \<open>packages/sherpa-onnx/src/normalize.ts\<close>: from the untyped output of a recognizer to an observation.
  The consumer's \<open>tokenMapper\<close> is an argument, which may throw.  The theory shows when the
  normalizer succeeds: optional arrays never make it fail, they are used whole or ignored whole,
  and seconds in order become milliseconds in order although each is rounded.
\<close>

section \<open>Errors\<close>

datatype sherpa_error_code = INVALID_OPTIONS | INVALID_RESULT | INVALID_TOKEN_MAPPING | UNKNOWN_TOKEN

record sherpa_error =
  se_code :: sherpa_error_code
  se_message :: jstring
  se_token :: "jstring option"
  se_index :: "nat option"

text \<open>What leaves the normalizer: its own error, or the exception of the mapper.\<close>

datatype sherpa_failure = NormalizationError sherpa_error | MapperThrew js_error

definition sherpa_fail :: "sherpa_error_code \<Rightarrow> string \<Rightarrow> sherpa_failure + 'a" where
  "sherpa_fail code message = Inl (NormalizationError
     \<lparr>se_code = code, se_message = lit message, se_token = None, se_index = None\<rparr>)"

definition token_fail :: "sherpa_error_code \<Rightarrow> string \<Rightarrow> jstring \<Rightarrow> nat \<Rightarrow> sherpa_failure + 'a" where
  "token_fail code message token i = Inl (NormalizationError
     \<lparr>se_code = code, se_message = lit ''token at index '' @ dec i @ lit message,
      se_token = Some token, se_index = Some i\<rparr>)"

section \<open>The normalizer\<close>

text \<open>\<open>Math.round\<close> of a double, and the products of doubles that overflow to infinity.\<close>

definition js_round :: "rat \<Rightarrow> rat" where
  "js_round x = of_int \<lfloor>x + 1 / 2\<rfloor>"

definition overflows :: "rat \<Rightarrow> bool" where
  "overflows y \<longleftrightarrow> y \<noteq> 0 \<and> 1024 \<le> exponent y"

definition validProbabilityArray :: "js \<Rightarrow> nat \<Rightarrow> bool" where
  "validProbabilityArray v tokenCount \<longleftrightarrow> isArray v \<and> length (the_elems v) = tokenCount
     \<and> list_all (\<lambda>p. isNumber p \<and> number_isFinite (the_num p)
          \<and> \<not> js_less (the_num p) (Fin 0) \<and> \<not> js_less (Fin 1) (the_num p)) (the_elems v)"

text \<open>The loop over the timestamps; the state is the list of milliseconds and the previous seconds.\<close>

fun timestamp_loop :: "rat list \<Rightarrow> rat option \<Rightarrow> js list \<Rightarrow> rat list option" where
  "timestamp_loop milliseconds previousSeconds [] = Some milliseconds"
| "timestamp_loop milliseconds previousSeconds (v # vs) =
     (if \<not> isNumber v \<or> \<not> number_isFinite (the_num v) \<or> js_less (the_num v) (Fin 0)
         \<or> (case previousSeconds of None \<Rightarrow> False | Some p \<Rightarrow> num_rat (the_num v) < p) then None
      else let timestamp = num_rat (the_num v) in
        if overflows (fl (timestamp * 1000)) then None
        else timestamp_loop (milliseconds @ [js_round (fl (timestamp * 1000))]) (Some timestamp) vs)"

definition validTimestampArray :: "js \<Rightarrow> nat \<Rightarrow> rat list option" where
  "validTimestampArray v tokenCount =
     (if \<not> isArray v \<or> length (the_elems v) \<noteq> tokenCount then None
      else timestamp_loop [] None (the_elems v))"

definition requireOptions :: "js \<Rightarrow> sherpa_failure + unit" where
  "requireOptions options =
     (if \<not> isRecord options then sherpa_fail INVALID_OPTIONS ''options must be an object''
      else if \<not> isString (js_get options ''observationId'') \<or> js_trim (the_str (js_get options ''observationId'')) = []
      then sherpa_fail INVALID_OPTIONS ''observationId must be a non-empty string''
      else if \<not> isNumber (js_get options ''sourceRevision'') \<or> \<not> isSafeInteger (the_num (js_get options ''sourceRevision''))
         \<or> js_less (the_num (js_get options ''sourceRevision'')) (Fin 0)
      then sherpa_fail INVALID_OPTIONS ''sourceRevision must be a non-negative safe integer''
      else if \<not> isBoolean (js_get options ''isFinal'') then sherpa_fail INVALID_OPTIONS ''isFinal must be a boolean''
      else if \<not> isNumber (js_get options ''receivedAtMs'') \<or> \<not> number_isFinite (the_num (js_get options ''receivedAtMs''))
         \<or> js_less (the_num (js_get options ''receivedAtMs'')) (Fin 0)
      then sherpa_fail INVALID_OPTIONS ''receivedAtMs must be a non-negative finite number''
      else if js_get options ''tokenMapper'' \<noteq> JFun then sherpa_fail INVALID_OPTIONS ''tokenMapper must be a function''
      else Inr ())"

definition requireTokens :: "js \<Rightarrow> sherpa_failure + jstring list" where
  "requireTokens result =
     (if \<not> isRecord result \<or> \<not> isArray (js_get result ''tokens'')
         \<or> list_ex (\<lambda>t. \<not> isString t) (the_elems (js_get result ''tokens''))
      then sherpa_fail INVALID_RESULT ''result.tokens must be an array of strings''
      else Inr (map the_str (the_elems (js_get result ''tokens''))))"

type_synonym token_mapper = "jstring \<Rightarrow> nat \<Rightarrow> js_error + js"

text \<open>\<open>mapToken\<close>: nothing for a token the mapper ignores.\<close>

definition mapToken :: "token_mapper \<Rightarrow> jstring \<Rightarrow> nat \<Rightarrow> sherpa_failure + js option" where
  "mapToken tokenMapper token i = (case tokenMapper token i of
       Inl e \<Rightarrow> Inl (MapperThrew e)
     | Inr mapped \<Rightarrow>
         if mapped = JNull then Inr None
         else if mapped = JUndefined then token_fail UNKNOWN_TOKEN '' is not mapped'' token i
         else if \<not> isString (js_get mapped ''text'') \<or> \<not> isArray (js_get mapped ''phonemes'')
            \<or> list_ex (\<lambda>p. \<not> isString p) (the_elems (js_get mapped ''phonemes''))
         then token_fail INVALID_TOKEN_MAPPING '' has an invalid mapping'' token i
         else Inr (Some mapped))"

definition probabilities :: "js \<Rightarrow> nat \<Rightarrow> js list option" where
  "probabilities result tokenCount =
     (let v = (if has_field result ''ys_probs'' then js_get result ''ys_probs'' else js_get result ''ysProbs'')
      in if validProbabilityArray v tokenCount then Some (the_elems v) else None)"

definition observation_token_js :: "rat list option \<Rightarrow> js list option \<Rightarrow> nat \<Rightarrow> js \<Rightarrow> js" where
  "observation_token_js timestampStarts confidence i mapped = JObj (
     [(''id'', JStr (lit ''sherpa-'' @ dec i)), (''text'', js_get mapped ''text''), (''phonemes'', js_get mapped ''phonemes'')]
     @ (case timestampStarts of None \<Rightarrow> []
        | Some starts \<Rightarrow> (''startMs'', JNum (Fin (starts ! i)))
            # (if Suc i < length starts then [(''endMs'', JNum (Fin (starts ! Suc i)))] else []))
     @ (case confidence of None \<Rightarrow> [] | Some ps \<Rightarrow> [(''confidence'', ps ! i)]))"

fun normalize_tokens :: "token_mapper \<Rightarrow> rat list option \<Rightarrow> js list option \<Rightarrow> nat \<Rightarrow> jstring list
    \<Rightarrow> sherpa_failure + js list" where
  "normalize_tokens tokenMapper starts confidence i [] = Inr []"
| "normalize_tokens tokenMapper starts confidence i (token # tokens) =
     ebind (mapToken tokenMapper token i) (\<lambda>mapped.
       ebind (normalize_tokens tokenMapper starts confidence (Suc i) tokens) (\<lambda>rest.
         Inr (case mapped of None \<Rightarrow> rest | Some m \<Rightarrow> observation_token_js starts confidence i m # rest)))"

definition sherpa_observation :: "js \<Rightarrow> js list \<Rightarrow> js" where
  "sherpa_observation options normalized = JObj [(''observationId'', js_get options ''observationId''),
     (''sourceRevision'', js_get options ''sourceRevision''), (''isFinal'', js_get options ''isFinal''),
     (''receivedAtMs'', js_get options ''receivedAtMs''), (''tokens'', JArr normalized)]"

definition normalizeSherpaResult :: "token_mapper \<Rightarrow> js \<Rightarrow> js \<Rightarrow> sherpa_failure + js" where
  "normalizeSherpaResult tokenMapper result options =
     ebind (requireOptions options) (\<lambda>_. ebind (requireTokens result) (\<lambda>tokens.
       ebind (normalize_tokens tokenMapper (validTimestampArray (js_get result ''timestamps'') (length tokens))
                (probabilities result (length tokens)) 0 tokens) (\<lambda>normalized.
         case validateObservation (sherpa_observation options normalized) of
           Inl _ \<Rightarrow> sherpa_fail INVALID_RESULT ''result cannot form a valid core observation''
         | Inr _ \<Rightarrow> Inr (sherpa_observation options normalized))))"

section \<open>Timestamps stay in order\<close>

lemma js_round_mono: "x \<le> y \<Longrightarrow> js_round x \<le> js_round y"
  by (simp add: js_round_def floor_mono)

lemma js_round_nonneg: "0 \<le> x \<Longrightarrow> 0 \<le> js_round x"
  using js_round_mono [of 0 x] by (simp add: js_round_def)

definition seconds_ms :: "rat \<Rightarrow> rat" where
  "seconds_ms t = js_round (fl (t * 1000))"

lemma seconds_ms_mono: "s \<le> t \<Longrightarrow> seconds_ms s \<le> seconds_ms t"
  unfolding seconds_ms_def by (intro js_round_mono fl_mono) simp

lemma seconds_ms_nonneg: "0 \<le> t \<Longrightarrow> 0 \<le> seconds_ms t"
  unfolding seconds_ms_def by (intro js_round_nonneg fl_nonneg) simp

lemma timestamp_loop_Some:
  assumes "timestamp_loop ms prev vs = Some xs"
  shows "xs = ms @ map (\<lambda>v. seconds_ms (num_rat (the_num v))) vs
    \<and> sorted ((case prev of None \<Rightarrow> [] | Some p \<Rightarrow> [p]) @ map (\<lambda>v. num_rat (the_num v)) vs)
    \<and> (\<forall>v \<in> set vs. 0 \<le> num_rat (the_num v))"
  using assms
proof (induction vs arbitrary: ms prev)
  case (Cons v vs)
  let ?t = "num_rat (the_num v)"
  have rest: "timestamp_loop (ms @ [js_round (fl (?t * 1000))]) (Some ?t) vs = Some xs"
    and prev: "\<forall>p. prev = Some p \<longrightarrow> p \<le> ?t" and nonneg: "0 \<le> ?t"
    using Cons.prems by (auto simp: Let_def number_isFinite_iff split: if_splits option.splits)
  have "sorted (?t # map (\<lambda>v. num_rat (the_num v)) vs)" using Cons.IH [OF rest] by simp
  moreover have "\<forall>v \<in> set vs. 0 \<le> num_rat (the_num v)" using Cons.IH [OF rest] by blast
  ultimately show ?case
    using Cons.IH [OF rest] prev nonneg by (cases prev) (auto simp: seconds_ms_def intro: order_trans)
qed (auto split: option.splits)

lemma validTimestampArray_Some:
  assumes "validTimestampArray v n = Some xs"
  shows "length xs = n \<and> sorted xs \<and> (\<forall>x \<in> set xs. 0 \<le> x)"
proof -
  have len: "length (the_elems v) = n" and loop: "timestamp_loop [] None (the_elems v) = Some xs"
    using assms by (auto simp: validTimestampArray_def split: if_splits)
  note out = timestamp_loop_Some [OF loop, simplified]
  have "sorted (map seconds_ms (map (\<lambda>v. num_rat (the_num v)) (the_elems v)))"
    using out by (intro sorted_map_mono monoI) (auto intro: seconds_ms_mono simp: mono_on_def)
  with out len show ?thesis by (auto simp: comp_def intro: seconds_ms_nonneg)
qed

section \<open>The tokens of the observation\<close>

lemma length_dec: "0 < k \<Longrightarrow> n < 10 ^ k \<Longrightarrow> length (dec n) \<le> k"
proof (induction n arbitrary: k rule: dec.induct)
  case (1 n)
  show ?case
  proof (cases "n < 10")
    case True
    then show ?thesis using "1.prems" by (subst dec_unfold) simp
  next
    case False
    then obtain k' where k: "k = Suc k'" "0 < k'" using "1.prems" by (cases k; cases "k - 1") auto
    then have "n div 10 < 10 ^ k'" using "1.prems" by (simp add: less_mult_imp_div_less mult.commute)
    with "1.IH" [OF False k(2)] k show ?thesis by (subst dec_unfold) simp
  qed
qed

definition sherpa_id :: "nat \<Rightarrow> jstring" where
  "sherpa_id i = lit ''sherpa-'' @ dec i"

lemma sherpa_id_inject [simp]: "sherpa_id i = sherpa_id j \<longleftrightarrow> i = j"
  by (simp add: sherpa_id_def)

lemma sherpa_id_wf: "i < 2 ^ 32 \<Longrightarrow> nonblank (sherpa_id i) \<and> length (sherpa_id i) \<le> maxTokenIdLength"
proof -
  assume "i < 2 ^ 32"
  then have "length (dec i) \<le> 10" by (intro length_dec) simp_all
  moreover have "nonblank (sherpa_id i)"
    by (auto simp: nonblank_def js_trim_empty sherpa_id_def lit_def whitespace_def)
  ultimately show ?thesis by (simp add: sherpa_id_def lit_def maxTokenIdLength_def)
qed

text \<open>What the timestamps and the probabilities are when they are used.\<close>

definition usable :: "rat list option \<Rightarrow> js list option \<Rightarrow> nat \<Rightarrow> bool" where
  "usable starts confidence n \<longleftrightarrow>
     (\<forall>xs. starts = Some xs \<longrightarrow> length xs = n \<and> sorted xs \<and> (\<forall>x \<in> set xs. 0 \<le> x))
     \<and> (\<forall>ps. confidence = Some ps \<longrightarrow> length ps = n \<and> (\<forall>p \<in> set ps. \<exists>r. p = JNum (Fin r) \<and> 0 \<le> r \<and> r \<le> 1))"

lemma probability_iff:
  "isNumber p \<and> number_isFinite (the_num p) \<and> \<not> js_less (the_num p) (Fin 0) \<and> \<not> js_less (Fin 1) (the_num p)
     \<longleftrightarrow> (\<exists>r. p = JNum (Fin r) \<and> 0 \<le> r \<and> r \<le> 1)"
  by (cases p) (auto simp: number_isFinite_iff)

lemma usable_arrays: "usable (validTimestampArray v n) (probabilities result n) n"
  unfolding usable_def probabilities_def validProbabilityArray_def Let_def probability_iff
  by (auto dest: validTimestampArray_Some simp: list_all_iff split: if_splits)

definition start_times :: "rat list option \<Rightarrow> nat \<Rightarrow> rat list" where
  "start_times starts i = (case starts of None \<Rightarrow> [] | Some xs \<Rightarrow> xs ! i # (if Suc i < length xs then [xs ! Suc i] else []))"

lemma observation_token_js_read:
  assumes "mapToken m token i = Inr (Some mapped)" "usable starts confidence n" "i < n"
  defines "t \<equiv> observation_token_js starts confidence i mapped"
  shows "token_typed t" "tok_id (read_token t) = sherpa_id i" "token_times (read_token t) = start_times starts i"
    "case tok_confidence (read_token t) of None \<Rightarrow> True | Some c \<Rightarrow> 0 \<le> c \<and> c \<le> 1"
    "tok_text (read_token t) = the_str (js_get mapped ''text'')"
    "tok_phonemes (read_token t) = map the_str (the_elems (js_get mapped ''phonemes''))"
proof -
  have m: "isString (js_get mapped ''text'')" "isArray (js_get mapped ''phonemes'')"
      "list_all isString (the_elems (js_get mapped ''phonemes''))"
    using assms(1) by (auto simp: mapToken_def token_fail_def list_ex_not split: sum.splits if_splits)
  have conf: "\<exists>r. ps ! i = JNum (Fin r) \<and> 0 \<le> r \<and> r \<le> 1" if "confidence = Some ps" for ps
    using assms(2,3) that by (auto simp: usable_def)
  show "token_typed t" "case tok_confidence (read_token t) of None \<Rightarrow> True | Some c \<Rightarrow> 0 \<le> c \<and> c \<le> 1"
    using m conf
    by (auto simp: t_def observation_token_js_def token_typed_def finite_number_def read_token_def read_optional_def
        split: option.splits)
  show "tok_id (read_token t) = sherpa_id i" "tok_text (read_token t) = the_str (js_get mapped ''text'')"
    "tok_phonemes (read_token t) = map the_str (the_elems (js_get mapped ''phonemes''))"
    by (simp_all add: t_def observation_token_js_def read_token_def sherpa_id_def)
  show "token_times (read_token t) = start_times starts i"
    by (auto simp: t_def observation_token_js_def read_token_def read_optional_def token_times_def start_times_def
        split: option.splits)
qed

lemma start_times_in:
  assumes "usable starts confidence n" "i < n" "x \<in> set (start_times starts i)"
  shows "\<exists>xs. starts = Some xs \<and> x \<in> set (drop i xs)"
proof -
  obtain xs where xs: "starts = Some xs" "length xs = n" using assms by (auto simp: start_times_def usable_def split: option.splits)
  then have "drop i xs = xs ! i # drop (Suc i) xs" using assms(2) by (simp add: Cons_nth_drop_Suc)
  moreover have "xs ! Suc i \<in> set (drop (Suc i) xs)" if "Suc i < length xs"
    using that by (metis Cons_nth_drop_Suc list.set_intros(1))
  ultimately show ?thesis using xs assms(3) by (auto simp: start_times_def split: if_splits)
qed

lemma start_times_sorted:
  assumes "usable starts confidence n" "i < n" "sorted ts"
    "\<And>x. x \<in> set ts \<Longrightarrow> \<exists>xs. starts = Some xs \<and> x \<in> set (drop (Suc i) xs)"
  shows "sorted (start_times starts i @ ts)"
proof (cases starts)
  case None
  with assms(3) show ?thesis by (simp add: start_times_def)
next
  case (Some xs)
  have xs: "sorted xs" "length xs = n" using assms(1) Some by (auto simp: usable_def)
  have later: "xs ! i \<le> x \<and> (Suc i < n \<longrightarrow> xs ! Suc i \<le> x)" if "x \<in> set (drop (Suc i) xs)" for x
  proof -
    have "\<exists>k < length (drop (Suc i) xs). drop (Suc i) xs ! k = x" using that by (simp only: in_set_conv_nth)
    then obtain k where k: "k < length (drop (Suc i) xs)" "drop (Suc i) xs ! k = x" by blast
    then have "x = xs ! (Suc i + k)" "Suc i + k < n" using xs(2) by auto
    then show ?thesis using xs by (auto intro: sorted_nth_mono)
  qed
  have "xs ! i \<le> xs ! Suc i" if "Suc i < n" using xs that by (intro sorted_nth_mono) auto
  then show ?thesis using assms(3,4) later Some xs(2) by (auto simp: start_times_def)
qed

text \<open>Everything validation asks of the tokens that does not depend on the resource ceilings.\<close>

lemma normalize_tokens_read:
  assumes "normalize_tokens m starts confidence i tokens = Inr vs" "usable starts confidence (i + length tokens)"
  shows "list_all token_typed vs
    \<and> (\<forall>t \<in> set (map read_token vs). \<exists>j \<ge> i. j < i + length tokens \<and> tok_id t = sherpa_id j)
    \<and> distinct (map tok_id (map read_token vs))
    \<and> (\<forall>t \<in> set (map read_token vs). case tok_confidence t of None \<Rightarrow> True | Some c \<Rightarrow> 0 \<le> c \<and> c \<le> 1)
    \<and> sorted (concat (map token_times (map read_token vs)))
    \<and> (\<forall>x \<in> set (concat (map token_times (map read_token vs))). \<exists>xs. starts = Some xs \<and> x \<in> set (drop i xs))"
  using assms
proof (induction tokens arbitrary: i vs)
  case (Cons token tokens)
  obtain mapped rest where mapped: "mapToken m token i = Inr mapped"
    and rest: "normalize_tokens m starts confidence (Suc i) tokens = Inr rest"
    and vs: "vs = (case mapped of None \<Rightarrow> rest | Some w \<Rightarrow> observation_token_js starts confidence i w # rest)"
    using Cons.prems(1) by (auto simp: ebind_Inr_iff)
  have ok: "usable starts confidence (Suc i + length tokens)" using Cons.prems(2) by simp
  note IH = Cons.IH [OF rest ok]
  have later: "\<exists>xs. starts = Some xs \<and> x \<in> set (drop i xs)" if "\<exists>xs. starts = Some xs \<and> x \<in> set (drop (Suc i) xs)" for x
    using that by (metis drop_Suc in_set_dropD drop_drop plus_1_eq_Suc)
  show ?case
  proof (cases mapped)
    case None
    with IH vs later show ?thesis by (fastforce dest: Suc_leD)
  next
    case (Some w)
    let ?t = "observation_token_js starts confidence i w"
    note read = observation_token_js_read [OF mapped [unfolded Some] ok, simplified]
    have "sorted (start_times starts i @ concat (map token_times (map read_token rest)))"
      using IH by (intro start_times_sorted [OF ok]) auto
    moreover have "\<exists>xs. starts = Some xs \<and> x \<in> set (drop i xs)" if "x \<in> set (start_times starts i)" for x
      using start_times_in [OF ok _ that] by simp
    moreover have "sherpa_id i \<notin> set (map tok_id (map read_token rest))" using IH by fastforce
    ultimately show ?thesis
      using IH vs Some read later by (auto simp del: map_map dest: Suc_leD)
  qed
qed simp

section \<open>When the normalizer succeeds\<close>

text \<open>The resource ceilings of the core, which are all that can refuse the normalized tokens.\<close>

definition within_ceilings :: "js \<Rightarrow> js list \<Rightarrow> bool" where
  "within_ceilings options normalized \<longleftrightarrow>
     length (the_str (js_get options ''observationId'')) \<le> maxObservationIdLength
     \<and> (the_bool (js_get options ''isFinal'') \<or> normalized \<noteq> []) \<and> length normalized \<le> maxTokens
     \<and> (\<forall>v \<in> set normalized. length (the_str (js_get v ''text'')) \<le> maxTokenTextLength
          \<and> (\<forall>p \<in> set (the_elems (js_get v ''phonemes'')). length (the_str p) \<le> maxPhonemeLength))
     \<and> (\<Sum>v\<leftarrow>normalized. length (the_elems (js_get v ''phonemes''))) \<le> maxPhonemes"

lemma requireOptions_iff:
  "requireOptions options = Inr u \<longleftrightarrow> isRecord options \<and> isString (js_get options ''observationId'')
     \<and> nonblank (the_str (js_get options ''observationId'')) \<and> safe_number (js_get options ''sourceRevision'')
     \<and> 0 \<le> the_int (js_get options ''sourceRevision'') \<and> isBoolean (js_get options ''isFinal'')
     \<and> finite_number (js_get options ''receivedAtMs'') \<and> 0 \<le> num_rat (the_num (js_get options ''receivedAtMs''))
     \<and> js_get options ''tokenMapper'' = JFun"
proof -
  have rev: "isNumber w \<and> isSafeInteger (the_num w) \<and> \<not> js_less (the_num w) (Fin 0) \<longleftrightarrow> safe_number w \<and> 0 \<le> the_int w" for w
    by (cases w) (auto simp: safe_number_def isSafeInteger_iff the_int_def)
  have time: "isNumber w \<and> number_isFinite (the_num w) \<and> \<not> js_less (the_num w) (Fin 0)
      \<longleftrightarrow> finite_number w \<and> 0 \<le> num_rat (the_num w)" for w
    by (cases w) (auto simp: finite_number_def number_isFinite_iff)
  show ?thesis
    using rev [of "js_get options ''sourceRevision''"] time [of "js_get options ''receivedAtMs''"]
    by (auto simp: requireOptions_def sherpa_fail_def nonblank_def)
qed

lemma sherpa_observation_valid:
  assumes "requireOptions options = Inr ()" "normalize_tokens m starts confidence 0 tokens = Inr vs"
    "usable starts confidence (length tokens)" "length tokens < 2 ^ 32"
  shows "validateObservation (sherpa_observation options vs) = Inr () \<longleftrightarrow> within_ceilings options vs"
proof -
  note toks = normalize_tokens_read [OF assms(2), simplified, OF assms(3)]
  let ?obs = "read_observation (sherpa_observation options vs)"
  have typed: "observation_typed (sherpa_observation options vs)"
    using assms(1) toks by (simp add: observation_typed_def requireOptions_iff sherpa_observation_def)
  have fields: "observationId ?obs = the_str (js_get options ''observationId'')"
      "sourceRevision ?obs = the_int (js_get options ''sourceRevision'')" "isFinal ?obs = the_bool (js_get options ''isFinal'')"
      "receivedAtMs ?obs = num_rat (the_num (js_get options ''receivedAtMs''))" "obs_tokens ?obs = map read_token vs"
    by (simp_all add: read_observation_def sherpa_observation_def)
  have id: "nonblank (tok_id (read_token v)) \<and> length (tok_id (read_token v)) \<le> maxTokenIdLength" if "v \<in> set vs" for v
    using toks that assms(4) by (metis image_eqI less_trans set_map sherpa_id_wf)
  have times: "sorted (concat (map token_times (map read_token vs)))"
      "\<forall>v \<in> set vs. list_all (\<lambda>x. 0 \<le> x) (token_times (read_token v))"
    using toks assms(3) by (auto simp: usable_def list_all_iff dest: in_set_dropD) (metis UN_I in_set_dropD)
  have wf: "wf_token (read_token v) \<longleftrightarrow> length (the_str (js_get v ''text'')) \<le> maxTokenTextLength
          \<and> (\<forall>p \<in> set (the_elems (js_get v ''phonemes'')). length (the_str p) \<le> maxPhonemeLength)" if "v \<in> set vs" for v
    using id [OF that] times(2) toks that by (auto simp: wf_token_def read_token_def list_all_iff)
  have "length (observation_phonemes ?obs) = (\<Sum>v\<leftarrow>vs. length (the_elems (js_get v ''phonemes'')))"
    by (simp add: observation_phonemes_def fields length_concat comp_def read_token_def)
  then have "wf_observation ?obs \<longleftrightarrow> within_ceilings options vs"
    using assms(1) wf times(1) toks
    by (auto simp: wf_observation_def within_ceilings_def fields requireOptions_iff safe_number_def list_all_iff)
  then show ?thesis by (simp add: validateObservation_Inr_iff typed)
qed

section \<open>Properties\<close>

text \<open>C28: the normalizer succeeds exactly when its options, the token list and the consumer's mapping are
  accepted and the result stays within the ceilings of the core.  In particular no \<open>timestamps\<close>,
  \<open>ys_probs\<close> or \<open>ysProbs\<close>, however malformed, make it fail, and the milliseconds it computes from
  seconds, each rounded, are always in the order the core asks for.  The bound on the tokens is the
  one of JavaScript arrays.\<close>

theorem normalizer_succeeds_within_ceilings:
  assumes "length (the_elems (js_get result ''tokens'')) < 2 ^ 32"
  shows "normalizeSherpaResult m result options = Inr v \<longleftrightarrow>
    requireOptions options = Inr () \<and> (\<exists>tokens normalized. requireTokens result = Inr tokens
      \<and> normalize_tokens m (validTimestampArray (js_get result ''timestamps'') (length tokens))
          (probabilities result (length tokens)) 0 tokens = Inr normalized
      \<and> within_ceilings options normalized \<and> v = sherpa_observation options normalized)"
proof -
  have len: "length tokens < 2 ^ 32" if "requireTokens result = Inr tokens" for tokens
    using that assms by (auto simp: requireTokens_def sherpa_fail_def split: if_splits)
  note valid = sherpa_observation_valid [OF _ _ usable_arrays len]
  have result_iff: "(case validateObservation w of Inl e \<Rightarrow> sherpa_fail INVALID_RESULT l | Inr u \<Rightarrow> Inr w) = Inr x
      \<longleftrightarrow> validateObservation w = Inr () \<and> w = x" for w x l
    by (cases "validateObservation w") (simp_all add: sherpa_fail_def)
  show ?thesis
    unfolding normalizeSherpaResult_def ebind_Inr_iff result_iff by (auto simp: valid)
qed

definition sample_mapper :: token_mapper where
  "sample_mapper token i = Inr (if token = lit ''<blank>'' then JNull
     else JObj [(''text'', JStr token), (''phonemes'', JArr [JStr token])])"

definition sample_options :: js where
  "sample_options = JObj [(''observationId'', js_string ''o''), (''sourceRevision'', js_int 3), (''isFinal'', JBool False),
     (''receivedAtMs'', js_int 1000), (''tokenMapper'', JFun)]"

definition sample_result :: js where
  "sample_result = JObj [(''tokens'', JArr [js_string ''bi'', js_string ''<blank>'', js_string ''smi'']),
     (''timestamps'', JArr [JNum (Fin 0), JNum (Fin (fl (1 / 5))), JNum (Fin (fl (13 / 20)))]), (''ys_probs'', JArr [JNull])]"

theorem normalizer_succeeds_within_ceilings_witness:
  "\<exists>v. normalizeSherpaResult sample_mapper sample_result sample_options = Inr v
     \<and> map token_times (obs_tokens (read_observation v)) = [[0, 200], [650]]"
proof -
  let ?tokens = "[lit ''bi'', lit ''<blank>'', lit ''smi'']"
  let ?norm = "normalize_tokens sample_mapper (validTimestampArray (js_get sample_result ''timestamps'') 3)
      (probabilities sample_result 3) 0 ?tokens"
  have sample: "requireOptions sample_options = Inr () \<and> requireTokens sample_result = Inr ?tokens
      \<and> length (the_elems (js_get sample_result ''tokens'')) = 3" by code_simp
  have "case ?norm of Inl e \<Rightarrow> False | Inr vs \<Rightarrow> within_ceilings sample_options vs
      \<and> map token_times (map read_token vs) = [[0, 200], [650]]" by code_simp
  then obtain vs where vs: "?norm = Inr vs" "within_ceilings sample_options vs"
      "map token_times (map read_token vs) = [[0, 200], [650]]" by (auto split: sum.splits)
  have three: "length ?tokens = 3" by simp
  have "normalizeSherpaResult sample_mapper sample_result sample_options = Inr (sherpa_observation sample_options vs)"
    using sample vs(1,2) three
    by (intro normalizer_succeeds_within_ceilings [THEN iffD2]) (simp, metis)
  moreover have "obs_tokens (read_observation (sherpa_observation sample_options vs)) = map read_token vs"
    by (simp add: read_observation_def sherpa_observation_def)
  ultimately show ?thesis using vs(3) by metis
qed

end
