(* ===== verification/Client_Session.thy ===== *)
theory Client_Session
  imports Reading_Tracker
begin

text \<open>
  What the two sessions of \<open>packages/client/src\<close> share: the contract \<open>QaraaSession\<close> of \<open>types.ts\<close> and
  the table of listeners, which \<open>local-session.ts\<close> and \<open>remote-session.ts\<close> keep with the same code.
  A listener is a number; what it does when it is called is an argument: it may call stop
  functions, close the session, and throw.  A listener that submits or subscribes from inside its
  call is not modelled.  Every call of a listener is recorded.
\<close>

section \<open>State\<close>

record 'v session_base =
  sb_snapshot :: 'v
  sb_closed :: bool
  sb_listeners :: "nat js_set"
  sb_stops :: "(nat \<times> bool) list"
  sb_calls :: "(nat \<times> 'v) list"

text \<open>What a listener does with a snapshot: the stop functions it calls, by number, whether it
  closes the session, whether it throws.\<close>

record reaction =
  re_stops :: "nat list"
  re_closes :: bool
  re_throws :: bool

type_synonym 'v listeners = "nat \<Rightarrow> 'v \<Rightarrow> reaction"

datatype session_error = SessionClosed | ListenerThrew

section \<open>Operations\<close>

definition drop_listener :: "nat \<Rightarrow> ('v, 'm) session_base_scheme \<Rightarrow> ('v, 'm) session_base_scheme" where
  "drop_listener l st = st\<lparr>sb_listeners := removeAll l (sb_listeners st)\<rparr>"

text \<open>The stop function a subscription returned: \<open>subscribed\<close> is the flag of its closure.\<close>

definition run_stop :: "('v, 'm) session_base_scheme \<Rightarrow> nat \<Rightarrow> ('v, 'm) session_base_scheme" where
  "run_stop st h =
     (if h < length (sb_stops st) \<and> snd (sb_stops st ! h)
      then drop_listener (fst (sb_stops st ! h)) (st\<lparr>sb_stops := (sb_stops st)[h := (fst (sb_stops st ! h), False)]\<rparr>)
      else st)"

text \<open>The common part of \<open>close\<close>.\<close>

definition close_base :: "('v, 'm) session_base_scheme \<Rightarrow> ('v, 'm) session_base_scheme" where
  "close_base st = (if sb_closed st then st else st\<lparr>sb_closed := True, sb_listeners := []\<rparr>)"

text \<open>One call of a listener, with everything it does; \<open>close\<close> is the \<open>close\<close> of the session.\<close>

definition call_session_listener :: "(('v, 'm) session_base_scheme \<Rightarrow> ('v, 'm) session_base_scheme) \<Rightarrow> 'v listeners \<Rightarrow> nat
    \<Rightarrow> ('v, 'm) session_base_scheme \<Rightarrow> ('v, 'm) session_base_scheme \<times> bool" where
  "call_session_listener close react l st =
     (let r = react l (sb_snapshot st);
          st1 = st\<lparr>sb_calls := sb_calls st @ [(l, sb_snapshot st)]\<rparr>;
          st2 = foldl run_stop st1 (re_stops r)
      in (if re_closes r then close st2 else st2, \<not> re_throws r))"

definition broadcast_step :: "(('v, 'm) session_base_scheme \<Rightarrow> ('v, 'm) session_base_scheme) \<Rightarrow> 'v listeners
    \<Rightarrow> ('v, 'm) session_base_scheme \<Rightarrow> nat \<Rightarrow> ('v, 'm) session_base_scheme" where
  "broadcast_step close react st l =
     (if sb_closed st \<or> l \<notin> set (sb_listeners st) then st
      else (case call_session_listener close react l st of
          (st', True) \<Rightarrow> st'
        | (st', False) \<Rightarrow> drop_listener l st'))"

text \<open>The loop over a copy of the listeners.\<close>

definition broadcast :: "(('v, 'm) session_base_scheme \<Rightarrow> ('v, 'm) session_base_scheme) \<Rightarrow> 'v listeners
    \<Rightarrow> ('v, 'm) session_base_scheme \<Rightarrow> ('v, 'm) session_base_scheme" where
  "broadcast close react st = foldl (broadcast_step close react) st (sb_listeners st)"

definition accept_snapshot :: "('v \<Rightarrow> int) \<Rightarrow> (('v, 'm) session_base_scheme \<Rightarrow> ('v, 'm) session_base_scheme) \<Rightarrow> 'v listeners \<Rightarrow> 'v
    \<Rightarrow> ('v, 'm) session_base_scheme \<Rightarrow> ('v, 'm) session_base_scheme" where
  "accept_snapshot revision close react nxt st =
     (if revision nxt \<le> revision (sb_snapshot st) then st
      else broadcast close react (st\<lparr>sb_snapshot := nxt\<rparr>))"

text \<open>\<open>subscribe\<close> returns the number of its stop function.\<close>

definition subscribe_base :: "(('v, 'm) session_base_scheme \<Rightarrow> ('v, 'm) session_base_scheme) \<Rightarrow> 'v listeners \<Rightarrow> nat
    \<Rightarrow> ('v, 'm) session_base_scheme \<Rightarrow> ('v, 'm) session_base_scheme \<times> (session_error + nat)" where
  "subscribe_base close react l st =
     (if sb_closed st then (st, Inl SessionClosed)
      else (case call_session_listener close react l (st\<lparr>sb_listeners := js_set_add l (sb_listeners st)\<rparr>) of
          (st', False) \<Rightarrow> (drop_listener l st', Inl ListenerThrew)
        | (st', True) \<Rightarrow> (st'\<lparr>sb_stops := sb_stops st' @ [(l, True)]\<rparr>, Inr (length (sb_stops st')))))"

section \<open>What the table of listeners keeps\<close>

definition base_ok :: "('v, 'm) session_base_scheme \<Rightarrow> bool" where
  "base_ok st \<longleftrightarrow> distinct (sb_listeners st) \<and> (sb_closed st \<longrightarrow> sb_listeners st = [])"

text \<open>Nothing but the subscriptions and the flag \<open>closed\<close> changes, and no subscription appears.\<close>

definition calmer :: "('v, 'm) session_base_scheme \<Rightarrow> ('v, 'm) session_base_scheme \<Rightarrow> bool" where
  "calmer st st' \<longleftrightarrow> sb_snapshot st' = sb_snapshot st \<and> (sb_closed st \<longrightarrow> sb_closed st')
     \<and> set (sb_listeners st') \<subseteq> set (sb_listeners st) \<and> (base_ok st \<longrightarrow> base_ok st')"

definition closes_quietly :: "(('v, 'm) session_base_scheme \<Rightarrow> ('v, 'm) session_base_scheme) \<Rightarrow> bool" where
  "closes_quietly close \<longleftrightarrow> (\<forall>st. calmer st (close st) \<and> sb_calls (close st) = sb_calls st)"

lemma calmer_refl [simp]: "calmer st st"
  by (simp add: calmer_def)

lemma calmer_trans: "calmer st st' \<Longrightarrow> calmer st' st'' \<Longrightarrow> calmer st st''"
  unfolding calmer_def by auto

lemma closes_quietlyD: "closes_quietly close \<Longrightarrow> calmer st (close st)" "closes_quietly close \<Longrightarrow> sb_calls (close st) = sb_calls st"
  by (simp_all add: closes_quietly_def)

lemma close_base_quiet: "closes_quietly close_base"
  by (auto simp: closes_quietly_def close_base_def calmer_def base_ok_def)

lemma drop_listener_calmer [simp]: "calmer st (drop_listener l st)" "sb_calls (drop_listener l st) = sb_calls st"
  by (auto simp: drop_listener_def calmer_def base_ok_def distinct_removeAll)

lemma run_stop_calmer [simp]: "calmer st (run_stop st h)" "sb_calls (run_stop st h) = sb_calls st"
  by (auto simp: run_stop_def drop_listener_def calmer_def base_ok_def distinct_removeAll)

lemma run_stops_calmer: "calmer st (foldl run_stop st hs) \<and> sb_calls (foldl run_stop st hs) = sb_calls st"
  by (induction hs arbitrary: st) (auto intro: calmer_trans [OF run_stop_calmer(1)])

lemma call_session_listener_calmer:
  assumes "closes_quietly close" "call_session_listener close react l st = (st', ok)"
  shows "calmer st st' \<and> sb_calls st' = sb_calls st @ [(l, sb_snapshot st)]"
proof -
  let ?st1 = "st\<lparr>sb_calls := sb_calls st @ [(l, sb_snapshot st)]\<rparr>" and ?r = "react l (sb_snapshot st)"
  let ?st2 = "foldl run_stop ?st1 (re_stops ?r)"
  have one: "calmer st ?st1" by (simp add: calmer_def base_ok_def)
  from run_stops_calmer [of ?st1 "re_stops ?r"] have two: "calmer ?st1 ?st2" "sb_calls ?st2 = sb_calls ?st1" by simp_all
  have "st' = (if re_closes ?r then close ?st2 else ?st2)" using assms(2) by (simp add: call_session_listener_def Let_def)
  then show ?thesis
    using calmer_trans [OF one two(1)] two(2) closes_quietlyD [OF assms(1), of ?st2] by (auto intro: calmer_trans)
qed

lemma broadcast_loop:
  assumes "closes_quietly close" "distinct ls"
  shows "\<exists>ks. calmer st (foldl (broadcast_step close react) st ls)
    \<and> sb_calls (foldl (broadcast_step close react) st ls) = sb_calls st @ map (\<lambda>l. (l, sb_snapshot st)) ks
    \<and> distinct ks \<and> set ks \<subseteq> set ls
    \<and> (\<not> sb_closed (foldl (broadcast_step close react) st ls) \<longrightarrow>
         set ls \<inter> set (sb_listeners (foldl (broadcast_step close react) st ls)) \<subseteq> set ks)"
  using assms(2)
proof (induction ls arbitrary: st)
  case Nil
  then show ?case by (intro exI [of _ "[]"]) simp
next
  case (Cons l ls)
  let ?st = "broadcast_step close react st l" and ?fin = "foldl (broadcast_step close react) st (l # ls)"
  from Cons.IH [of ?st] Cons.prems obtain ks where ks: "calmer ?st ?fin"
      "sb_calls ?fin = sb_calls ?st @ map (\<lambda>l. (l, sb_snapshot ?st)) ks" "distinct ks" "set ks \<subseteq> set ls"
      "\<not> sb_closed ?fin \<longrightarrow> set ls \<inter> set (sb_listeners ?fin) \<subseteq> set ks" by auto
  show ?case
  proof (cases "sb_closed st \<or> l \<notin> set (sb_listeners st)")
    case True
    then have same: "?st = st" by (simp add: broadcast_step_def)
    have "l \<notin> set (sb_listeners ?fin) \<or> sb_closed ?fin" using True ks(1) same by (auto simp: calmer_def)
    with ks same show ?thesis by (intro exI [of _ ks]) auto
  next
    case False
    obtain st' ok where call: "call_session_listener close react l st = (st', ok)" by (rule prod.exhaust)
    from call_session_listener_calmer [OF assms(1) this] have c: "calmer st st'"
      "sb_calls st' = sb_calls st @ [(l, sb_snapshot st)]" by simp_all
    have step: "?st = (if ok then st' else drop_listener l st')" using False call by (simp add: broadcast_step_def)
    then have one: "calmer st ?st" "sb_calls ?st = sb_calls st @ [(l, sb_snapshot st)]"
      using c by (auto intro: calmer_trans)
    then have "sb_snapshot ?st = sb_snapshot st" by (simp add: calmer_def)
    then have "sb_calls ?fin = sb_calls st @ map (\<lambda>l. (l, sb_snapshot st)) (l # ks)" using ks(2) one(2) by simp
    moreover have "calmer st ?fin" using calmer_trans [OF one(1) ks(1)] .
    moreover have "distinct (l # ks)" using ks(3,4) Cons.prems by auto
    moreover have "\<not> sb_closed ?fin \<longrightarrow> set (l # ls) \<inter> set (sb_listeners ?fin) \<subseteq> set (l # ks)" using ks(5) by auto
    moreover have "set (l # ks) \<subseteq> set (l # ls)" using ks(4) by auto
    ultimately show ?thesis by blast
  qed
qed

lemma base_closed: "base_ok st \<Longrightarrow> sb_closed st \<Longrightarrow> sb_listeners st = []"
  by (simp add: base_ok_def)

lemma accept_snapshot_facts:
  assumes "closes_quietly close" "base_ok st"
    and st'_def: "st' = accept_snapshot revision close react nxt st"
  shows "base_ok st' \<and> (sb_closed st \<longrightarrow> sb_closed st') \<and> set (sb_listeners st') \<subseteq> set (sb_listeners st)
    \<and> (if revision nxt \<le> revision (sb_snapshot st) then st' = st else sb_snapshot st' = nxt)
    \<and> (\<exists>ls. sb_calls st' = sb_calls st @ map (\<lambda>l. (l, sb_snapshot st')) ls \<and> distinct ls \<and> (st' = st \<longrightarrow> ls = [])
        \<and> (sb_snapshot st' \<noteq> sb_snapshot st \<longrightarrow> set (sb_listeners st') \<subseteq> set ls))"
proof (cases "revision nxt \<le> revision (sb_snapshot st)")
  case True
  with assms(2) show ?thesis by (auto simp: st'_def accept_snapshot_def intro: exI [of _ "[]"])
next
  case False
  let ?st = "st\<lparr>sb_snapshot := nxt\<rparr>"
  have ok: "base_ok ?st" "distinct (sb_listeners st)" using assms(2) by (simp_all add: base_ok_def)
  have st': "st' = foldl (broadcast_step close react) ?st (sb_listeners ?st)"
    using False by (simp add: st'_def accept_snapshot_def broadcast_def)
  from broadcast_loop [OF assms(1) ok(2), of ?st react] st' obtain ks where ks: "calmer ?st st'"
      "sb_calls st' = sb_calls st @ map (\<lambda>l. (l, nxt)) ks" "distinct ks"
      "\<not> sb_closed st' \<longrightarrow> set (sb_listeners st) \<inter> set (sb_listeners st') \<subseteq> set ks" by auto
  have "base_ok st'" "sb_snapshot st' = nxt" "set (sb_listeners st') \<subseteq> set (sb_listeners st)" "sb_closed st \<longrightarrow> sb_closed st'"
    using ks(1) ok(1) by (auto simp: calmer_def)
  moreover have "set (sb_listeners st') \<subseteq> set ks" using ks(4) calculation base_closed [of st'] by auto
  moreover have "st' \<noteq> st" using calculation(2) False by auto
  ultimately show ?thesis using ks(2,3) False by auto
qed

lemma subscribe_base_facts:
  assumes "closes_quietly close" "base_ok st"
    and st'_def: "st' = fst (subscribe_base close react l st)"
  shows "base_ok st' \<and> sb_snapshot st' = sb_snapshot st \<and> (sb_closed st \<longrightarrow> st' = st)
    \<and> set (sb_listeners st') \<subseteq> insert l (set (sb_listeners st))
    \<and> (\<exists>ls. sb_calls st' = sb_calls st @ map (\<lambda>l. (l, sb_snapshot st)) ls \<and> length ls \<le> 1
         \<and> (set (sb_listeners st') \<subseteq> set ls \<union> set (sb_listeners st)))"
proof (cases "sb_closed st")
  case True
  then have "st' = st" by (simp add: st'_def subscribe_base_def)
  then show ?thesis using assms(2) by (auto intro: exI [of _ "[]"])
next
  case False
  let ?st = "st\<lparr>sb_listeners := js_set_add l (sb_listeners st)\<rparr>"
  obtain st1 ok where call: "call_session_listener close react l ?st = (st1, ok)" by (rule prod.exhaust)
  from call_session_listener_calmer [OF assms(1) this] have c: "calmer ?st st1"
    "sb_calls st1 = sb_calls st @ [(l, sb_snapshot st)]" by simp_all
  have "base_ok ?st" using assms(2) False by (simp add: base_ok_def)
  then have one: "base_ok st1" "sb_snapshot st1 = sb_snapshot st" "set (sb_listeners st1) \<subseteq> insert l (set (sb_listeners st))"
    using c(1) by (auto simp: calmer_def)
  have st': "st' = (if ok then st1\<lparr>sb_stops := sb_stops st1 @ [(l, True)]\<rparr> else drop_listener l st1)"
    using False call by (simp add: st'_def subscribe_base_def)
  then have "base_ok st'" "sb_snapshot st' = sb_snapshot st" "set (sb_listeners st') \<subseteq> insert l (set (sb_listeners st))"
      "sb_calls st' = sb_calls st @ map (\<lambda>l. (l, sb_snapshot st)) [l]"
    using one c(2) by (auto simp: base_ok_def drop_listener_def distinct_removeAll)
  with False show ?thesis by (intro conjI exI [of _ "[l]"]) auto
qed

section \<open>What a session keeps besides\<close>

text \<open>A relation between states that no change of the fields of \<open>session_base\<close> and no \<open>close\<close> leaves is
  kept whatever the listeners do.\<close>

locale listener_frame =
  fixes R :: "('v, 'm) session_base_scheme \<Rightarrow> ('v, 'm) session_base_scheme \<Rightarrow> bool"
    and close :: "('v, 'm) session_base_scheme \<Rightarrow> ('v, 'm) session_base_scheme"
  assumes same: "R st st" and along: "R st st' \<Longrightarrow> R st' st'' \<Longrightarrow> R st st''" and closes: "R st (close st)"
    and base_fields: "R st (st\<lparr>sb_calls := c\<rparr>)" "R st (st\<lparr>sb_listeners := ls\<rparr>)" "R st (st\<lparr>sb_stops := hs\<rparr>)"
      "R st (st\<lparr>sb_snapshot := v\<rparr>)"
begin

lemma drop_frame: "R st (drop_listener l st)"
  by (simp add: drop_listener_def base_fields)

lemma run_stop_frame: "R st (run_stop st h)"
proof -
  let ?st = "st\<lparr>sb_stops := (sb_stops st)[h := (fst (sb_stops st ! h), False)]\<rparr>"
  have "R st (drop_listener (fst (sb_stops st ! h)) ?st)" using along [OF base_fields(3) drop_frame] .
  then show ?thesis by (simp add: run_stop_def same)
qed

lemma run_stops_frame: "R st (foldl run_stop st hs)"
  by (induction hs arbitrary: st) (auto intro: same along run_stop_frame)

lemma call_frame: "R st (fst (call_session_listener close react l st))"
  using along [OF along [OF base_fields(1) run_stops_frame] closes] along [OF base_fields(1) run_stops_frame]
  by (simp add: call_session_listener_def Let_def)

lemma broadcast_step_frame: "R st (broadcast_step close react st l)"
  using call_frame [of st react l] along [OF call_frame [of st react l] drop_frame]
  by (auto simp: broadcast_step_def same split: prod.splits bool.splits)

lemma broadcast_frame: "R st (foldl (broadcast_step close react) st ls)"
  by (induction ls arbitrary: st) (auto intro: same along broadcast_step_frame)

lemma accept_frame: "R st (accept_snapshot revision close react nxt st)"
  using along [OF base_fields(4) broadcast_frame] by (simp add: accept_snapshot_def broadcast_def same)

lemma subscribe_frame: "R st (fst (subscribe_base close react l st))"
proof -
  let ?st = "st\<lparr>sb_listeners := js_set_add l (sb_listeners st)\<rparr>"
  have "R st (fst (call_session_listener close react l ?st))" using along [OF base_fields(2) call_frame] .
  then have "R st st1" "R st (drop_listener l st1)" "R st (st1\<lparr>sb_stops := hs\<rparr>)"
    if "call_session_listener close react l ?st = (st1, ok)" for st1 ok hs
    using that along [OF _ drop_frame] along [OF _ base_fields(3)] by auto
  then show ?thesis by (auto simp: subscribe_base_def same split: prod.splits bool.splits)
qed

end

section \<open>The contract\<close>

text \<open>A session seen from its consumer: its snapshot only moves forward; a listener is only called
  with the present snapshot; each listener that listens gets each new snapshot once, and gets the
  present one when it joins; a closed session is silent for ever.\<close>

locale qaraa_session =
  fixes valid :: "'s \<Rightarrow> bool" and step :: "'s \<Rightarrow> 's \<Rightarrow> bool" and snap :: "'s \<Rightarrow> 'v" and calls :: "'s \<Rightarrow> (nat \<times> 'v) list"
    and listening :: "'s \<Rightarrow> nat set" and closed :: "'s \<Rightarrow> bool" and revision :: "'v \<Rightarrow> int"
  assumes valid_step: "valid s \<Longrightarrow> step s s' \<Longrightarrow> valid s'"
    and forward: "valid s \<Longrightarrow> step s s' \<Longrightarrow> snap s' = snap s \<or> revision (snap s) < revision (snap s')"
    and present_calls: "valid s \<Longrightarrow> step s s' \<Longrightarrow> \<exists>ls. calls s' = calls s @ map (\<lambda>l. (l, snap s')) ls \<and> distinct ls
      \<and> (snap s' = snap s \<longrightarrow> length ls \<le> 1)
      \<and> (\<forall>l \<in> listening s'. l \<notin> listening s \<or> snap s' \<noteq> snap s \<longrightarrow> l \<in> set ls)"
    and silent: "valid s \<Longrightarrow> step s s' \<Longrightarrow> closed s \<Longrightarrow> closed s' \<and> snap s' = snap s \<and> calls s' = calls s"
begin

definition revisions :: "nat \<Rightarrow> 's \<Rightarrow> int list" where
  "revisions l s = map (\<lambda>c. revision (snd c)) (filter (\<lambda>c. fst c = l) (calls s))"

lemma forward_le: "valid s \<Longrightarrow> step s s' \<Longrightarrow> revision (snap s) \<le> revision (snap s')"
  using forward by force

lemma runs_valid: "step\<^sup>*\<^sup>* s s' \<Longrightarrow> valid s \<Longrightarrow> valid s'"
  by (induction rule: rtranclp_induct) (auto intro: valid_step)

lemma runs_forward: "step\<^sup>*\<^sup>* s s' \<Longrightarrow> valid s \<Longrightarrow> revision (snap s) \<le> revision (snap s')"
  by (induction rule: rtranclp_induct) (auto intro: order_trans forward_le runs_valid)

text \<open>Each listener sees revisions in order, and one that listens has seen the present one.\<close>

lemma revisions_in_order:
  assumes "step\<^sup>*\<^sup>* s s'" "valid s" "calls s = []" "listening s = {}"
  shows "sorted (revisions l s') \<and> (\<forall>r \<in> set (revisions l s'). r \<le> revision (snap s'))
    \<and> (l \<in> listening s' \<longrightarrow> revision (snap s') \<in> set (revisions l s'))"
  using assms(1)
proof (induction rule: rtranclp_induct)
  case base
  with assms(3,4) show ?case by (simp add: revisions_def)
next
  case (step t u)
  have t: "valid t" using runs_valid [OF step.hyps(1) assms(2)] .
  from present_calls [OF t step.hyps(2)] obtain ls where ls: "calls u = calls t @ map (\<lambda>l. (l, snap u)) ls"
    "\<forall>l \<in> listening u. l \<notin> listening t \<or> snap u \<noteq> snap t \<longrightarrow> l \<in> set ls" by blast
  have new: "revisions l u = revisions l t @ map (\<lambda>_. revision (snap u)) (filter (\<lambda>k. k = l) ls)"
    by (simp add: revisions_def ls(1) filter_map comp_def)
  have "sorted (map (\<lambda>_ :: nat. revision (snap u)) ks)" for ks by (induction ks) auto
  then have "sorted (revisions l u)" "\<forall>r \<in> set (revisions l u). r \<le> revision (snap u)"
    using step.IH forward_le [OF t step.hyps(2)] by (auto simp: new sorted_append intro: order_trans)
  moreover have "revision (snap u) \<in> set (revisions l u)" if "l \<in> listening u"
    using that ls(2) step.IH by (cases "l \<in> set ls") (auto simp: new)
  ultimately show ?case by blast
qed

lemma silent_runs:
  "step\<^sup>*\<^sup>* s s' \<Longrightarrow> valid s \<Longrightarrow> closed s \<Longrightarrow> closed s' \<and> snap s' = snap s \<and> calls s' = calls s"
proof (induction rule: rtranclp_induct)
  case (step t u)
  with silent [OF runs_valid [OF step.hyps(1)] step.hyps(2)] show ?case by simp
qed simp

end

end
