(* ===== verification/Local_Session.thy ===== *)
theory Local_Session
  imports Client_Session Tracker_Commits
begin

text \<open>
  \<open>packages/client/src/local-session.ts\<close>: the session over a tracker in the same process, and the
  proof that it keeps the contract of \<open>Client_Session\<close> and shows its consumer exactly the tracker.
\<close>

record local_session = "reading_snapshot session_base" +
  ls_tracker :: tracker_state

section \<open>Operations\<close>

definition createLocalSession :: "js \<Rightarrow> quran_location option \<Rightarrow> jstring option \<Rightarrow> js_error + tracker_config \<times> local_session" where
  "createLocalSession corpus initialLocation findingMode =
     ebind (indexCorpus corpus) (\<lambda>index. ebind (createReadingTracker index initialLocation findingMode) (\<lambda>(config, tracker).
       Inr (config, \<lparr>sb_snapshot = getSnapshot tracker, sb_closed = False, sb_listeners = [], sb_stops = [], sb_calls = [],
              ls_tracker = tracker\<rparr>)))"

definition local_close :: "local_session \<Rightarrow> local_session" where
  "local_close st = close_base st"

definition snapshot_revision :: "reading_snapshot \<Rightarrow> int" where
  "snapshot_revision s = int (snap_revision s)"

text \<open>\<open>publish\<close> returns the present snapshot.\<close>

definition local_publish :: "reading_snapshot listeners \<Rightarrow> reading_snapshot \<Rightarrow> local_session \<Rightarrow> local_session \<times> reading_snapshot" where
  "local_publish react nxt st =
     (let st' = accept_snapshot snapshot_revision local_close react nxt st in (st', sb_snapshot st'))"

datatype local_error = LocalClosed | LocalTracker js_error

text \<open>\<open>publish(...)\<close> on what the tracker returned or threw.\<close>

definition local_answer :: "reading_snapshot listeners \<Rightarrow> tracker_state \<times> (js_error + reading_snapshot) \<Rightarrow> local_session
    \<Rightarrow> local_session \<times> (local_error + reading_snapshot)" where
  "local_answer react answer st = (case answer of
       (tracker, Inl e) \<Rightarrow> (st\<lparr>ls_tracker := tracker\<rparr>, Inl (LocalTracker e))
     | (tracker, Inr snap) \<Rightarrow> (case local_publish react snap (st\<lparr>ls_tracker := tracker\<rparr>) of (st', result) \<Rightarrow> (st', Inr result)))"

definition local_submit :: "tracker_config \<Rightarrow> reading_snapshot listeners \<Rightarrow> js \<Rightarrow> local_session
    \<Rightarrow> local_session \<times> (local_error + reading_snapshot)" where
  "local_submit config react observation st =
     (if sb_closed st then (st, Inl LocalClosed)
      else local_answer react (submit_observation config (ls_tracker st) observation) st)"

definition local_reset :: "tracker_config \<Rightarrow> reading_snapshot listeners \<Rightarrow> quran_location option \<Rightarrow> local_session
    \<Rightarrow> local_session \<times> (local_error + reading_snapshot)" where
  "local_reset config react location st =
     (if sb_closed st then (st, Inl LocalClosed)
      else local_answer react (reset_tracker config (ls_tracker st) location) st)"

definition local_subscribe :: "reading_snapshot listeners \<Rightarrow> nat \<Rightarrow> local_session \<Rightarrow> local_session \<times> (session_error + nat)" where
  "local_subscribe react l st = subscribe_base local_close react l st"

text \<open>Everything a consumer can do.\<close>

inductive local_step :: "tracker_config \<Rightarrow> reading_snapshot listeners \<Rightarrow> local_session \<Rightarrow> local_session \<Rightarrow> bool" for config react where
  local_submits: "local_step config react st (fst (local_submit config react observation st))"
| local_resets: "local_step config react st (fst (local_reset config react location st))"
| local_subscribes: "local_step config react st (fst (local_subscribe react l st))"
| local_stops: "local_step config react st (run_stop st h)"
| local_closes: "local_step config react st (local_close st)"

section \<open>The session shows the tracker\<close>

definition local_ok :: "tracker_config \<Rightarrow> local_session \<Rightarrow> bool" where
  "local_ok config st \<longleftrightarrow> base_ok st \<and> (\<exists>c. tracker_ok c config (ls_tracker st)) \<and> sb_snapshot st = getSnapshot (ls_tracker st)"

lemma local_close_quiet: "closes_quietly local_close"
  using close_base_quiet by (simp add: closes_quietly_def local_close_def)

interpretation tracker_frame: listener_frame "\<lambda>st st'. ls_tracker st' = ls_tracker st" local_close
  by unfold_locales (simp_all add: local_close_def close_base_def)

lemmas tracker_kept [simp] = tracker_frame.run_stop_frame tracker_frame.accept_frame tracker_frame.subscribe_frame

text \<open>What a tracker answers, and what the session makes of it.\<close>

definition answers :: "tracker_config \<Rightarrow> tracker_state \<Rightarrow> tracker_state \<times> (js_error + reading_snapshot) \<Rightarrow> bool" where
  "answers config t answer \<longleftrightarrow> (\<exists>c. tracker_ok c config (fst answer))
     \<and> (case snd answer of Inl e \<Rightarrow> fst answer = t
        | Inr snap \<Rightarrow> snap = snapshot (fst answer) \<and> (snapshot (fst answer) = snapshot t
            \<or> snap_revision (snapshot (fst answer)) = Suc (snap_revision (snapshot t))))"

lemma submit_answers: "tracker_ok c config t \<Longrightarrow> answers config t (submit_observation config t v)"
  using submit_cases [of c config t v]
  by (cases "validateObservation v") (auto simp: answers_def accepted_def split: if_splits)

lemma reset_answers: "tracker_ok c config t \<Longrightarrow> answers config t (reset_tracker config t location)"
  using reset_ok [of c config t location]
  by (auto simp: answers_def reset_tracker_def Let_def initial_state_def initial_snapshot_def split: sum.splits)

lemma local_answer_facts:
  assumes "local_ok config st" "answers config (ls_tracker st) answer" "local_answer react answer st = (st', result)"
  shows "local_ok config st' \<and> ls_tracker st' = fst answer \<and> (sb_closed st \<longrightarrow> sb_closed st')
    \<and> result = (case snd answer of Inl e \<Rightarrow> Inl (LocalTracker e) | Inr snap \<Rightarrow> Inr snap)
    \<and> (sb_snapshot st' = sb_snapshot st \<or> snapshot_revision (sb_snapshot st) < snapshot_revision (sb_snapshot st'))
    \<and> (\<exists>ls. sb_calls st' = sb_calls st @ map (\<lambda>l. (l, sb_snapshot st')) ls \<and> distinct ls
         \<and> (sb_snapshot st' = sb_snapshot st \<longrightarrow> ls = [])
         \<and> (sb_snapshot st' \<noteq> sb_snapshot st \<longrightarrow> set (sb_listeners st') \<subseteq> set ls))
    \<and> set (sb_listeners st') \<subseteq> set (sb_listeners st)"
proof -
  obtain t x where answer: "answer = (t, x)" by (rule prod.exhaust)
  have shown: "sb_snapshot st = snapshot (ls_tracker st)" and ok: "base_ok (st\<lparr>ls_tracker := t\<rparr>)"
    using assms(1) by (simp_all add: local_ok_def getSnapshot_def base_ok_def)
  show ?thesis
  proof (cases x)
    case (Inl e)
    with answer assms show ?thesis by (auto simp: local_answer_def answers_def intro: exI [of _ "[]"])
  next
    case (Inr snap)
    let ?st = "st\<lparr>ls_tracker := t\<rparr>"
    have t: "\<exists>c. tracker_ok c config t" "snap = snapshot t"
        "snapshot t = snapshot (ls_tracker st) \<or> snap_revision (snapshot t) = Suc (snap_revision (snapshot (ls_tracker st)))"
      using assms(2) answer Inr by (auto simp: answers_def)
    have st': "st' = accept_snapshot snapshot_revision local_close react snap ?st" "result = Inr (sb_snapshot st')"
      using assms(3) answer Inr by (auto simp: local_answer_def local_publish_def Let_def)
    note facts = accept_snapshot_facts [OF local_close_quiet ok st'(1)]
    have same: "snapshot_revision snap \<le> snapshot_revision (sb_snapshot ?st) \<longleftrightarrow> snap = sb_snapshot st"
      using t shown by (auto simp: snapshot_revision_def)
    have snap: "sb_snapshot st' = snap" using facts same by (auto split: if_splits)
    have "local_ok config st'" "ls_tracker st' = t" using facts snap t(1,2) st'(1) by (auto simp: local_ok_def getSnapshot_def)
    moreover have "st' = ?st" if "snap = sb_snapshot st" using facts same that by simp
    ultimately show ?thesis
      using facts snap same answer Inr st'(2) by (auto simp: snapshot_revision_def)
  qed
qed

lemma local_ok_calm: "local_ok config st \<Longrightarrow> calmer st st' \<Longrightarrow> ls_tracker st' = ls_tracker st \<Longrightarrow> local_ok config st'"
  by (auto simp: local_ok_def calmer_def)

lemma calm_step:
  assumes "local_ok config st" "calmer st st'" "ls_tracker st' = ls_tracker st" "sb_calls st' = sb_calls st"
  shows "local_ok config st' \<and> (sb_closed st \<longrightarrow> sb_closed st') \<and> sb_snapshot st' = sb_snapshot st
    \<and> set (sb_listeners st') \<subseteq> set (sb_listeners st)"
  using assms local_ok_calm by (auto simp: calmer_def)

text \<open>One step keeps everything the contract asks.\<close>

lemma local_step_facts:
  assumes "local_step config react st st'" "local_ok config st"
  shows "local_ok config st' \<and> (sb_closed st \<longrightarrow> sb_closed st' \<and> sb_snapshot st' = sb_snapshot st \<and> sb_calls st' = sb_calls st)
    \<and> (sb_snapshot st' = sb_snapshot st \<or> snapshot_revision (sb_snapshot st) < snapshot_revision (sb_snapshot st'))
    \<and> (\<exists>ls. sb_calls st' = sb_calls st @ map (\<lambda>l. (l, sb_snapshot st')) ls \<and> distinct ls
         \<and> (sb_snapshot st' = sb_snapshot st \<longrightarrow> length ls \<le> 1)
         \<and> (\<forall>l \<in> set (sb_listeners st'). l \<notin> set (sb_listeners st) \<or> sb_snapshot st' \<noteq> sb_snapshot st \<longrightarrow> l \<in> set ls))"
  using assms(1)
proof cases
  case (local_submits v)
  obtain c where "tracker_ok c config (ls_tracker st)" using assms(2) by (auto simp: local_ok_def)
  from local_answer_facts [OF assms(2) submit_answers [OF this]] local_submits assms(2) show ?thesis
    by (cases "sb_closed st"; cases "local_answer react (submit_observation config (ls_tracker st) v) st")
      (auto simp: local_submit_def intro: exI [of _ "[]"], fastforce+)
next
  case (local_resets location)
  obtain c where "tracker_ok c config (ls_tracker st)" using assms(2) by (auto simp: local_ok_def)
  from local_answer_facts [OF assms(2) reset_answers [OF this]] local_resets assms(2) show ?thesis
    by (cases "sb_closed st"; cases "local_answer react (reset_tracker config (ls_tracker st) location) st")
      (auto simp: local_reset_def intro: exI [of _ "[]"], fastforce+)
next
  case (local_subscribes l)
  have "base_ok st" using assms(2) by (simp add: local_ok_def)
  from subscribe_base_facts [OF local_close_quiet this refl, of react l] tracker_frame.subscribe_frame [of react l st] assms(2) local_subscribes
  show ?thesis by (auto simp: local_subscribe_def local_ok_def) (metis (no_types, lifting) One_nat_def UnE distinct_conv_nth less_one order_less_le_trans subsetD)+
next
  case (local_stops h)
  then show ?thesis using calm_step [OF assms(2), of st'] by (auto intro: exI [of _ "[]"])
next
  case local_closes
  then show ?thesis
    using calm_step [OF assms(2), of st'] closes_quietlyD [OF local_close_quiet, of st]
    by (auto simp: local_close_def close_base_def intro: exI [of _ "[]"])
qed

interpretation local_contract: qaraa_session "local_ok config" "local_step config react" sb_snapshot sb_calls
    "\<lambda>st. set (sb_listeners st)" sb_closed snapshot_revision for config react
  by unfold_locales (use local_step_facts in blast)+

lemma created_local_ok:
  assumes "createLocalSession corpus initial mode = Inr (config, st)"
  shows "local_ok config st \<and> sb_calls st = [] \<and> sb_listeners st = [] \<and> \<not> sb_closed st"
proof -
  from assms obtain index tracker where t: "indexCorpus corpus = Inr index" "createReadingTracker index initial mode = Inr (config, tracker)"
      "st = \<lparr>sb_snapshot = getSnapshot tracker, sb_closed = False, sb_listeners = [], sb_stops = [], sb_calls = [], ls_tracker = tracker\<rparr>"
    by (auto simp: createLocalSession_def ebind_Inr_iff)
  then have "wf_corpus (read_corpus corpus)" "index = build_index (read_corpus corpus)"
    using indexCorpus_wf indexCorpus_Inr by blast+
  then have "tracker_ok (read_corpus corpus) config tracker" using create_ok t(2) by blast
  then show ?thesis by (auto simp: t(3) local_ok_def base_ok_def)
qed

section \<open>Properties\<close>

text \<open>C29: whatever a consumer does, a local session shows its tracker's snapshot and answers as the tracker
  does, and its listeners are served in order: each is called with revisions that never decrease and
  never pass the present one, and each that listens has been given the present one, though listeners
  may stop themselves or each other, close the session or throw while they are called.\<close>

theorem local_session_refines_tracker:
  assumes "createLocalSession corpus initial mode = Inr (config, st)" "(local_step config react)\<^sup>*\<^sup>* st st'"
  shows "sb_snapshot st' = getSnapshot (ls_tracker st')
    \<and> (\<not> sb_closed st' \<longrightarrow> snd (local_submit config react v st')
         = (case snd (submit_observation config (ls_tracker st') v) of Inl e \<Rightarrow> Inl (LocalTracker e) | Inr snap \<Rightarrow> Inr snap))
    \<and> (let seen = map (\<lambda>c. snapshot_revision (snd c)) (filter (\<lambda>c. fst c = l) (sb_calls st')) in
         sorted seen \<and> (\<forall>r \<in> set seen. r \<le> snapshot_revision (sb_snapshot st'))
         \<and> (l \<in> set (sb_listeners st') \<longrightarrow> snapshot_revision (sb_snapshot st') \<in> set seen))"
proof -
  note start = created_local_ok [OF assms(1)]
  have ok: "local_ok config st'" using local_contract.runs_valid [OF assms(2)] start by blast
  then obtain c where "tracker_ok c config (ls_tracker st')" by (auto simp: local_ok_def)
  note answer = local_answer_facts [OF ok submit_answers [OF this, of v] surjective_pairing, of react]
  have "sb_snapshot st' = getSnapshot (ls_tracker st')" using ok by (simp add: local_ok_def)
  moreover have "\<not> sb_closed st' \<longrightarrow> snd (local_submit config react v st')
      = (case snd (submit_observation config (ls_tracker st') v) of Inl e \<Rightarrow> Inl (LocalTracker e) | Inr snap \<Rightarrow> Inr snap)"
    using answer by (simp add: local_submit_def)
  moreover note local_contract.revisions_in_order [OF assms(2), of l, unfolded local_contract.revisions_def]
  ultimately show ?thesis using start by (simp add: Let_def)
qed

definition calm_listeners :: "'v listeners" where
  "calm_listeners l v = \<lparr>re_stops = [], re_closes = False, re_throws = False\<rparr>"

theorem local_session_refines_tracker_witness:
  "\<exists>config st. createLocalSession sample_corpus None None = Inr (config, st)
     \<and> (\<forall>st'. st' = fst (local_subscribe calm_listeners 7 st) \<longrightarrow> sb_snapshot st' = getSnapshot (ls_tracker st')
          \<and> snapshot_revision (sb_snapshot st') \<in> snapshot_revision ` snd ` set (sb_calls st'))"
proof -
  have "case createLocalSession sample_corpus None None of Inl e \<Rightarrow> False | Inr x \<Rightarrow> True" by code_simp
  then obtain config st where st: "createLocalSession sample_corpus None None = Inr (config, st)" by (auto split: sum.splits)
  let ?st = "fst (local_subscribe calm_listeners 7 st)"
  have run: "(local_step config calm_listeners)\<^sup>*\<^sup>* st ?st" by (intro r_into_rtranclp local_subscribes)
  have "7 \<in> set (sb_listeners ?st)"
    using created_local_ok [OF st]
    by (auto simp: local_subscribe_def subscribe_base_def call_session_listener_def calm_listeners_def)
  note facts = local_session_refines_tracker [OF st run, of undefined 7, unfolded Let_def]
  from facts have snap: "sb_snapshot ?st = getSnapshot (ls_tracker ?st)" by (rule conjunct1)
  from facts \<open>7 \<in> set (sb_listeners ?st)\<close> have seen: "snapshot_revision (sb_snapshot ?st)
      \<in> set (map (\<lambda>c. snapshot_revision (snd c)) (filter (\<lambda>c. fst c = 7) (sb_calls ?st)))"
    by blast
  from seen have "snapshot_revision (sb_snapshot ?st) \<in> snapshot_revision ` snd ` set (sb_calls ?st)" by force
  with snap have "sb_snapshot ?st = getSnapshot (ls_tracker ?st)
    \<and> snapshot_revision (sb_snapshot ?st) \<in> snapshot_revision ` snd ` set (sb_calls ?st)" by (rule conjI)
  with st show ?thesis by blast
qed

end
