(* ===== verification/Remote_Request.thy ===== *)
theory Remote_Request
  imports Client_Session Protocol Js_Parse
begin

text \<open>
  The requests of \<open>packages/client/src/remote-session.ts\<close>: its URLs, its retry policy, and one request
  to the server as a machine that waits for a response or for a delay.  The transport is an
  argument of the session: what \<open>fetch\<close>, the body of a response and the delays did is the input of the
  machine.  Validation is that of \<open>Protocol\<close>.
\<close>

section \<open>Errors\<close>

record transport_error =
  te_message :: jstring
  te_retryable :: bool

text \<open>What a transport threw: a \<open>QaraaTransportError\<close> or anything else.\<close>

datatype thrown = TransportError transport_error | OtherError

datatype remote_error = Thrown thrown | ServerFailure server_error | ClosedError

definition transportFailure :: "thrown \<Rightarrow> transport_error" where
  "transportFailure t = (case t of TransportError e \<Rightarrow> e
     | OtherError \<Rightarrow> \<lparr>te_message = lit ''QARAA transport request failed'', te_retryable = True\<rparr>)"

definition transport_failed :: "string \<Rightarrow> remote_error" where
  "transport_failed message = Thrown (TransportError \<lparr>te_message = lit message, te_retryable = False\<rparr>)"

definition read_error_code :: "jstring \<Rightarrow> qaraa_error_code" where
  "read_error_code s =
     (if s = lit ''INVALID_CORPUS'' then INVALID_CORPUS
      else if s = lit ''INVALID_OBSERVATION'' then INVALID_OBSERVATION
      else if s = lit ''STALE_REVISION'' then STALE_REVISION
      else if s = lit ''UNSUPPORTED_PROTOCOL'' then UNSUPPORTED_PROTOCOL
      else if s = lit ''SESSION_NOT_FOUND'' then SESSION_NOT_FOUND
      else INTERNAL_ERROR)"

definition protocolFailure :: "js \<Rightarrow> remote_error" where
  "protocolFailure envelope = ServerFailure (protocolError False (read_error_code (the_str (js_get envelope ''code'')))
     (the_str (js_get envelope ''message'')) (the_bool (js_get envelope ''retryable'')) (js_get envelope ''details''))"

section \<open>URLs\<close>

definition starts_with :: "jstring \<Rightarrow> jstring \<Rightarrow> bool" where
  "starts_with s t \<longleftrightarrow> take (length t) s = t"

definition normalizedBaseUrl :: "jstring \<Rightarrow> js_error + jstring" where
  "normalizedBaseUrl baseUrl =
     (let normalized = rev (dropWhile (\<lambda>c. c = 47) (rev baseUrl)) in
      if \<not> (starts_with normalized (lit ''http://'') \<or> starts_with normalized (lit ''https://''))
      then fail ''baseUrl must use http or https'' else Inr normalized)"

definition websocketBaseUrl :: "jstring \<Rightarrow> jstring" where
  "websocketBaseUrl baseUrl = (if starts_with baseUrl (lit ''https://'')
     then lit ''wss://'' @ drop (length (lit ''https://'')) baseUrl
     else lit ''ws://'' @ drop (length (lit ''http://'')) baseUrl)"

text \<open>\<open>encodeURIComponent\<close>: the code points in UTF-8, percent-encoded; a lone surrogate throws.\<close>

definition uri_unescaped :: "16 word \<Rightarrow> bool" where
  "uri_unescaped c \<longleftrightarrow> (48 \<le> c \<and> c \<le> 57) \<or> (65 \<le> c \<and> c \<le> 90) \<or> (97 \<le> c \<and> c \<le> 122)
     \<or> c \<in> set (lit (''-_.!~*()'' @ [CHR 0x27]))"

definition hex_digit :: "int \<Rightarrow> 16 word" where
  "hex_digit d = word_of_int (if d < 10 then 48 + d else 55 + d)"

definition percent :: "int \<Rightarrow> jstring" where
  "percent b = [37, hex_digit (b div 16), hex_digit (b mod 16)]"

definition utf8 :: "int \<Rightarrow> int list" where
  "utf8 cp = (if cp < 0x80 then [cp]
     else if cp < 0x800 then [0xC0 + cp div 64, 0x80 + cp mod 64]
     else if cp < 0x10000 then [0xE0 + cp div 4096, 0x80 + cp div 64 mod 64, 0x80 + cp mod 64]
     else [0xF0 + cp div 262144, 0x80 + cp div 4096 mod 64, 0x80 + cp div 64 mod 64, 0x80 + cp mod 64])"

definition high_surrogate :: "16 word \<Rightarrow> bool" where
  "high_surrogate c \<longleftrightarrow> 0xD800 \<le> c \<and> c \<le> 0xDBFF"

definition low_surrogate :: "16 word \<Rightarrow> bool" where
  "low_surrogate c \<longleftrightarrow> 0xDC00 \<le> c \<and> c \<le> 0xDFFF"

fun code_points :: "jstring \<Rightarrow> int list option" where
  "code_points [] = Some []"
| "code_points (c # s) =
     (if high_surrogate c then (case s of
          d # r \<Rightarrow> if low_surrogate d
            then map_option ((#) (0x10000 + (uint c - 0xD800) * 0x400 + (uint d - 0xDC00))) (code_points r) else None
        | [] \<Rightarrow> None)
      else if low_surrogate c then None
      else map_option ((#) (uint c)) (code_points s))"

definition encode_point :: "int \<Rightarrow> jstring" where
  "encode_point cp = (if cp < 0x80 \<and> uri_unescaped (word_of_int cp) then [word_of_int cp]
     else concat (map percent (utf8 cp)))"

definition encodeURIComponent :: "jstring \<Rightarrow> jstring option" where
  "encodeURIComponent s = map_option (\<lambda>cps. concat (map encode_point cps)) (code_points s)"

definition session_url :: "jstring \<Rightarrow> jstring \<Rightarrow> jstring" where
  "session_url baseUrl encodedSessionId = baseUrl @ lit ''/v1/sessions/'' @ encodedSessionId"

definition stream_url :: "jstring \<Rightarrow> jstring \<Rightarrow> nat \<Rightarrow> jstring" where
  "stream_url baseUrl encodedSessionId revision =
     websocketBaseUrl baseUrl @ lit ''/v1/sessions/'' @ encodedSessionId @ lit ''/stream''
     @ lit ''?protocolVersion='' @ dec (nat PROTOCOL_VERSION) @ lit ''&lastSnapshotRevision='' @ dec revision"

section \<open>The retry policy\<close>

record retry_policy =
  po_maxAttempts :: int
  po_initialDelayMs :: int
  po_maxDelayMs :: int

definition or_default :: "js \<Rightarrow> int \<Rightarrow> js" where
  "or_default v d = (if v = JUndefined \<or> v = JNull then js_int d else v)"

definition assertPositiveInteger :: "js \<Rightarrow> string \<Rightarrow> js_error + int" where
  "assertPositiveInteger v label =
     (if \<not> (isNumber v \<and> isSafeInteger (the_num v)) \<or> the_int v < 1 then fail (label @ '' must be a positive integer'')
      else Inr (the_int v))"

definition retryPolicy :: "js \<Rightarrow> js_error + retry_policy" where
  "retryPolicy options =
     ebind (assertPositiveInteger (or_default (js_get options ''maxAttempts'') 3) ''maxAttempts'') (\<lambda>maxAttempts.
     ebind (assertPositiveInteger (or_default (js_get options ''initialDelayMs'') 100) ''initialDelayMs'') (\<lambda>initialDelayMs.
     ebind (assertPositiveInteger (or_default (js_get options ''maxDelayMs'') 5000) ''maxDelayMs'') (\<lambda>maxDelayMs.
       if maxDelayMs < initialDelayMs then fail ''maxDelayMs must be greater than or equal to initialDelayMs''
       else Inr \<lparr>po_maxAttempts = maxAttempts, po_initialDelayMs = initialDelayMs, po_maxDelayMs = maxDelayMs\<rparr>)))"

text \<open>Products and minima of positive doubles.\<close>

definition positive_times :: "int \<Rightarrow> js_num \<Rightarrow> js_num" where
  "positive_times a x = (case x of Fin r \<Rightarrow> to_double (of_int a * r) | _ \<Rightarrow> x)"

definition js_min :: "js_num \<Rightarrow> js_num \<Rightarrow> js_num" where
  "js_min x y = (if js_less y x then y else x)"

definition retryDelay :: "retry_policy \<Rightarrow> int \<Rightarrow> js_num" where
  "retryDelay policy failedAttempt =
     js_min (Fin (of_int (po_maxDelayMs policy))) (positive_times (po_initialDelayMs policy) (to_double (pow2 (failedAttempt - 1))))"

section \<open>One request\<close>

datatype request_state = AwaitResponse int | AwaitSleep int

text \<open>What ends a wait: \<open>fetch\<close> threw, the body was not JSON, a response with its \<open>ok\<close> and its payload;
  the delay ended or threw.\<close>

datatype request_answer = FetchThrew thrown | BodyThrew | Replied bool js | Slept | SleepThrew thrown

datatype request_outcome = Ongoing request_state | Settled "remote_error + js"

definition check_reply :: "ajv \<Rightarrow> jstring \<Rightarrow> bool \<Rightarrow> js \<Rightarrow> remote_error + js" where
  "check_reply ajv sessionId ok payload =
     (if withJsonPreflight ajv EventSchema payload \<noteq> [] then Inl (transport_failed ''QARAA transport returned an invalid event'')
      else if js_get payload ''type'' = js_string ''error'' then Inl (protocolFailure payload)
      else if \<not> ok \<or> js_get payload ''type'' \<noteq> js_string ''snapshot.updated'' \<or> js_get payload ''sessionId'' \<noteq> JStr sessionId
      then Inl (transport_failed ''QARAA transport returned an unexpected event'')
      else Inr (js_get payload ''snapshot''))"

text \<open>The head of the loop: the next attempt fetches.\<close>

definition attempt_request :: "retry_policy \<Rightarrow> int \<Rightarrow> request_outcome" where
  "attempt_request policy attempt =
     (if attempt \<le> po_maxAttempts policy then Ongoing (AwaitResponse attempt)
      else Settled (Inl (transport_failed ''QARAA transport retry limit was exhausted'')))"

fun request_step :: "retry_policy \<Rightarrow> ajv \<Rightarrow> jstring \<Rightarrow> bool \<Rightarrow> bool \<Rightarrow> request_state \<Rightarrow> request_answer \<Rightarrow> request_outcome option" where
  "request_step policy ajv sessionId retryTransport gone (AwaitResponse attempt) (FetchThrew t) =
     (let failure = transportFailure t in
      if \<not> retryTransport \<or> \<not> te_retryable failure \<or> attempt = po_maxAttempts policy
      then Some (Settled (Inl (Thrown (TransportError failure)))) else Some (Ongoing (AwaitSleep attempt)))"
| "request_step policy ajv sessionId retryTransport gone (AwaitResponse attempt) BodyThrew =
     Some (Settled (Inl (transport_failed ''QARAA transport returned invalid JSON'')))"
| "request_step policy ajv sessionId retryTransport gone (AwaitResponse attempt) (Replied ok payload) =
     Some (Settled (check_reply ajv sessionId ok payload))"
| "request_step policy ajv sessionId retryTransport gone (AwaitSleep attempt) Slept =
     (if gone then Some (Settled (Inl ClosedError)) else Some (attempt_request policy (attempt + 1)))"
| "request_step policy ajv sessionId retryTransport gone (AwaitSleep attempt) (SleepThrew t) =
     Some (Settled (Inl (Thrown t)))"
| "request_step policy ajv sessionId retryTransport gone _ _ = None"

text \<open>The request of \<open>createRemoteSession\<close> itself: nothing can close the session before it exists.\<close>

fun request_run :: "retry_policy \<Rightarrow> ajv \<Rightarrow> jstring \<Rightarrow> request_outcome \<Rightarrow> request_answer list \<Rightarrow> (remote_error + js) option" where
  "request_run policy ajv sessionId (Settled result) answers = (if answers = [] then Some result else None)"
| "request_run policy ajv sessionId (Ongoing st) [] = None"
| "request_run policy ajv sessionId (Ongoing st) (a # answers) =
     (case request_step policy ajv sessionId True False st a of
        None \<Rightarrow> None | Some out \<Rightarrow> request_run policy ajv sessionId out answers)"

end
