(* ===== verification/Remote_Session.thy ===== *)
theory Remote_Session
  imports Remote_Request
begin

text \<open>
  \<open>createRemoteSession\<close> of \<open>packages/client/src/remote-session.ts\<close>: the variables of its closure are the
  fields of \<open>remote_session\<close>, and each callback the runtime can run between two waits is one
  operation here: the calls of the consumer, the start of the next mutation, the end of a wait of
  its request, the \<open>finally\<close> handlers of a settled mutation, the events of a socket, a queued
  notification, and the two parts of a reconnection.  A mutation is numbered; its number stands for
  its promise.  What goes over the wire is recorded in \<open>rs_wire\<close>; the requests, the
  openings and the closings of streams and the delays before them are recorded in \<open>rs_streams\<close>.
\<close>

section \<open>State\<close>

record remote_config =
  rm_baseUrl :: jstring
  rm_sessionId :: jstring
  rm_encodedId :: jstring
  rm_policy :: retry_policy
  rm_ajv :: ajv
  rm_requestId :: "nat \<Rightarrow> jstring"
  rm_parse :: "jstring \<Rightarrow> js option"

datatype mutation_kind = SubmitMutation js | ResetMutation js

record remote_mutation =
  mu_number :: nat
  mu_kind :: mutation_kind

record running_mutation =
  ru_mutation :: remote_mutation
  ru_url :: jstring
  ru_body :: js
  ru_request :: request_state

datatype wire_event =
    Fetched remote_mutation jstring js
  | Delayed remote_mutation js_num
  | Completed remote_mutation "remote_error + js"

datatype stream_event = StreamRequested jstring | ReconnectDelay js_num | StreamOpened nat | StreamClosed nat

datatype reconnect_phase = Delaying | Finishing

record remote_session = "js session_base" +
  rs_acknowledged :: "jstring js_set"
  rs_submissions :: "(jstring, nat \<times> nat) js_map"
  rs_scheduledResets :: nat
  rs_pendingResets :: int
  rs_requestSequence :: nat
  rs_mutations :: nat
  rs_waiting :: "remote_mutation list"
  rs_running :: "running_mutation option"
  rs_finals :: "remote_mutation list"
  rs_queue :: "js list"
  rs_socket :: "nat option"
  rs_attached :: "nat list"
  rs_disposer :: "nat option"
  rs_generation :: nat
  rs_reconnectAttempts :: int
  rs_reconnectTask :: bool
  rs_task :: "reconnect_phase option"
  rs_wire :: "wire_event list"
  rs_streams :: "stream_event list"

definition js_revision :: "js \<Rightarrow> int" where
  "js_revision v = the_int (js_get v ''revision'')"

section \<open>Closing\<close>

definition dispose_socket :: "nat \<Rightarrow> remote_session \<Rightarrow> remote_session" where
  "dispose_socket g st = st\<lparr>rs_attached := removeAll g (rs_attached st),
     rs_disposer := (if rs_disposer st = Some g then None else rs_disposer st)\<rparr>"

definition remote_close :: "remote_session \<Rightarrow> remote_session" where
  "remote_close st =
     (if sb_closed st then st
      else
        let st1 = (close_base st)\<lparr>rs_acknowledged := [], rs_submissions := [], rs_queue := [], rs_reconnectTask := False\<rparr>;
            st2 = (case rs_disposer st1 of Some g \<Rightarrow> dispose_socket g st1 | None \<Rightarrow> st1)
        in st2\<lparr>rs_disposer := None, rs_socket := None, rs_generation := rs_generation st2 + 1,
             rs_streams := rs_streams st2 @ (case rs_socket st of Some g \<Rightarrow> [StreamClosed g] | None \<Rightarrow> [])\<rparr>)"

section \<open>Snapshots\<close>

definition remote_notify :: "js listeners \<Rightarrow> js \<Rightarrow> remote_session \<Rightarrow> remote_session" where
  "remote_notify react nxt st = (if sb_closed st then st else accept_snapshot js_revision remote_close react nxt st)"

definition remote_enqueue :: "js \<Rightarrow> remote_session \<Rightarrow> remote_session" where
  "remote_enqueue nxt st =
     (if sb_closed st \<or> js_revision nxt \<le> js_revision (sb_snapshot st) then st else st\<lparr>rs_queue := rs_queue st @ [nxt]\<rparr>)"

definition run_notification :: "js listeners \<Rightarrow> remote_session \<Rightarrow> remote_session" where
  "run_notification react st = (case rs_queue st of [] \<Rightarrow> st
     | nxt # queue \<Rightarrow>
         let st' = st\<lparr>rs_queue := queue\<rparr> in
         if sb_closed st' \<or> js_revision nxt \<le> js_revision (sb_snapshot st') then st' else remote_notify react nxt st')"

section \<open>The stream\<close>

text \<open>\<open>openSocket\<close>: the number of the new socket or what it threw; \<open>refused\<close> is what the socket factory throws.\<close>

definition open_socket :: "remote_config \<Rightarrow> thrown option \<Rightarrow> remote_session \<Rightarrow> remote_session \<times> thrown option" where
  "open_socket config refused st =
     (if sb_closed st then (st, Some OtherError)
      else
        let url = stream_url (rm_baseUrl config) (rm_encodedId config) (nat (js_revision (sb_snapshot st)));
            st1 = st\<lparr>rs_streams := rs_streams st @ [StreamRequested url]\<rparr>
        in (case refused of
            Some t \<Rightarrow> (st1, Some t)
          | None \<Rightarrow>
              let generation = rs_generation st1 + 1
              in (st1\<lparr>rs_generation := generation, rs_socket := Some generation, rs_disposer := Some generation,
                     rs_attached := rs_attached st1 @ [generation]\<rparr>, None)))"

definition schedule_reconnect :: "remote_config \<Rightarrow> remote_session \<Rightarrow> remote_session" where
  "schedule_reconnect config st =
     (if sb_closed st \<or> rs_reconnectTask st \<or> rs_socket st \<noteq> None \<or> po_maxAttempts (rm_policy config) \<le> rs_reconnectAttempts st
      then st
      else
        let attempt = rs_reconnectAttempts st + 1
        in st\<lparr>rs_reconnectAttempts := attempt, rs_reconnectTask := True, rs_task := Some Delaying,
             rs_streams := rs_streams st @ [ReconnectDelay (retryDelay (rm_policy config) attempt)]\<rparr>)"

text \<open>The body of the reconnection after its delay, which ended or failed.\<close>

definition reconnect_attempt :: "remote_config \<Rightarrow> bool \<Rightarrow> thrown option \<Rightarrow> remote_session \<Rightarrow> remote_session" where
  "reconnect_attempt config delayed refused st =
     (let st0 = st\<lparr>rs_task := Some Finishing\<rparr>; exhausted = (\<lambda>s. s\<lparr>rs_reconnectAttempts := po_maxAttempts (rm_policy config)\<rparr>)
      in if \<not> delayed then exhausted st0
         else if sb_closed st0 \<or> rs_socket st0 \<noteq> None then st0
         else (case open_socket config refused st0 of
             (st', None) \<Rightarrow> st'
           | (st', Some t) \<Rightarrow> if te_retryable (transportFailure t) then st' else exhausted st'))"

text \<open>Its \<open>finally\<close> handler.\<close>

definition reconnect_finally :: "remote_config \<Rightarrow> remote_session \<Rightarrow> remote_session" where
  "reconnect_finally config st =
     (let st' = st\<lparr>rs_task := None, rs_reconnectTask := False\<rparr>
      in if \<not> sb_closed st' \<and> rs_socket st' = None \<and> rs_reconnectAttempts st' < po_maxAttempts (rm_policy config)
         then schedule_reconnect config st' else st')"

definition open_listener :: "nat \<Rightarrow> remote_session \<Rightarrow> remote_session" where
  "open_listener g st = (if \<not> sb_closed st \<and> g = rs_generation st
     then st\<lparr>rs_reconnectAttempts := 0, rs_streams := rs_streams st @ [StreamOpened g]\<rparr> else st)"

text \<open>The data of a message: a string, an object with the text it turns into, or anything else.\<close>

datatype message_data = TextData jstring | ObjectData jstring | OtherData

definition messageText :: "message_data \<Rightarrow> jstring option" where
  "messageText v = (case v of TextData s \<Rightarrow> Some s
     | ObjectData s \<Rightarrow> if s = lit ''[object Object]'' then None else Some s
     | OtherData \<Rightarrow> None)"

definition message_listener :: "remote_config \<Rightarrow> nat \<Rightarrow> message_data option \<Rightarrow> remote_session \<Rightarrow> remote_session" where
  "message_listener config g event st =
     (if sb_closed st \<or> g \<noteq> rs_generation st \<or> event = None then st
      else (case messageText (the event) of None \<Rightarrow> st | Some text \<Rightarrow>
        (case rm_parse config text of None \<Rightarrow> st | Some payload \<Rightarrow>
           if withJsonPreflight (rm_ajv config) EventSchema payload \<noteq> [] then st
           else if js_get payload ''type'' = js_string ''snapshot.updated''
             \<and> js_get payload ''sessionId'' = JStr (rm_sessionId config)
           then remote_enqueue (js_get payload ''snapshot'') st else st)))"

definition retryableSocketClose :: "js_num \<Rightarrow> bool" where
  "retryableSocketClose code \<longleftrightarrow> code \<noteq> Fin 1000 \<and> code \<noteq> Fin 1008 \<and> code \<noteq> Fin 4404 \<and> code \<noteq> Fin 4406"

definition close_listener :: "remote_config \<Rightarrow> nat \<Rightarrow> js_num option \<Rightarrow> remote_session \<Rightarrow> remote_session" where
  "close_listener config g code st =
     (if g \<noteq> rs_generation st then st
      else
        let st' = (dispose_socket g st)\<lparr>rs_socket := None\<rparr>
        in if sb_closed st' \<or> code = None then st'
           else if retryableSocketClose (the code) then schedule_reconnect config st' else st')"

section \<open>Mutations\<close>

definition observation_id :: "js \<Rightarrow> jstring" where
  "observation_id observation = the_str (js_get observation ''observationId'')"

definition enqueue_mutation :: "mutation_kind \<Rightarrow> remote_session \<Rightarrow> remote_session" where
  "enqueue_mutation kind st = st\<lparr>rs_mutations := Suc (rs_mutations st),
     rs_waiting := rs_waiting st @ [\<lparr>mu_number = rs_mutations st, mu_kind = kind\<rparr>]\<rparr>"

text \<open>What \<open>submit\<close> and \<open>reset\<close> return: a snapshot at once, or the promise of a mutation.\<close>

datatype remote_promise = Resolved js | Promised nat

definition remote_submit :: "js \<Rightarrow> remote_session \<Rightarrow> remote_session \<times> (remote_error + remote_promise)" where
  "remote_submit observation st =
     (if sb_closed st then (st, Inl ClosedError)
      else
        let resetSequence = rs_scheduledResets st; i = observation_id observation
        in if rs_pendingResets st = 0 \<and> i \<in> set (rs_acknowledged st) then (st, Inr (Resolved (sb_snapshot st)))
           else
             let fresh = (let n = rs_mutations st; st1 = enqueue_mutation (SubmitMutation observation) st in
                 (st1\<lparr>rs_submissions := js_map_set i (resetSequence, n) (rs_submissions st1)\<rparr>, Inr (Promised n)))
             in (case js_map_get (rs_submissions st) i of
                 Some (s, n) \<Rightarrow> if s = resetSequence then (st, Inr (Promised n)) else fresh
               | None \<Rightarrow> fresh))"

definition remote_reset :: "js \<Rightarrow> remote_session \<Rightarrow> remote_session \<times> (remote_error + remote_promise)" where
  "remote_reset location st =
     (if sb_closed st then (st, Inl ClosedError)
      else
        let st1 = st\<lparr>rs_scheduledResets := rs_scheduledResets st + 1, rs_pendingResets := rs_pendingResets st + 1\<rparr>
        in (enqueue_mutation (ResetMutation location) st1, Inr (Promised (rs_mutations st1))))"

text \<open>The URL and the body of the request of a mutation.\<close>

definition mutation_request :: "remote_config \<Rightarrow> jstring \<Rightarrow> mutation_kind \<Rightarrow> jstring \<times> js" where
  "mutation_request config requestId kind =
     (let url = session_url (rm_baseUrl config) (rm_encodedId config);
          head = (\<lambda>type. [(''protocolVersion'', js_int PROTOCOL_VERSION), (''requestId'', JStr requestId),
             (''type'', js_string type), (''sessionId'', JStr (rm_sessionId config))])
      in case kind of
           SubmitMutation observation \<Rightarrow> (url @ lit ''/observations'', JObj (head ''observation.submit''
             @ map (\<lambda>k. (k, js_get observation k)) [''observationId'', ''sourceRevision'', ''isFinal'', ''receivedAtMs'', ''tokens'']))
         | ResetMutation location \<Rightarrow> (url @ lit ''/reset'', JObj (head ''session.reset''
             @ (if location = JUndefined then [] else [(''location'', location)]))))"

definition retries_transport :: "mutation_kind \<Rightarrow> bool" where
  "retries_transport kind = (case kind of SubmitMutation _ \<Rightarrow> True | ResetMutation _ \<Rightarrow> False)"

definition settle_mutation :: "remote_mutation \<Rightarrow> remote_error + js \<Rightarrow> remote_session \<Rightarrow> remote_session" where
  "settle_mutation m result st = st\<lparr>rs_running := None, rs_finals := rs_finals st @ [m],
     rs_wire := rs_wire st @ [Completed m result]\<rparr>"

text \<open>What an operation does with the snapshot its request returned.\<close>

definition acknowledge_mutation :: "mutation_kind \<Rightarrow> remote_session \<Rightarrow> remote_session" where
  "acknowledge_mutation kind st = (case kind of
       SubmitMutation observation \<Rightarrow>
         if sb_closed st then st else st\<lparr>rs_acknowledged := js_set_add (observation_id observation) (rs_acknowledged st)\<rparr>
     | ResetMutation _ \<Rightarrow> st\<lparr>rs_acknowledged := []\<rparr>)"

definition complete_mutation :: "js listeners \<Rightarrow> remote_mutation \<Rightarrow> js \<Rightarrow> remote_session \<Rightarrow> remote_session" where
  "complete_mutation react m snap st =
     (let st' = remote_notify react snap (acknowledge_mutation (mu_kind m) st)
      in settle_mutation m (Inr (sb_snapshot st')) st')"

text \<open>The request of a mutation goes on.\<close>

definition proceed_mutation :: "remote_config \<Rightarrow> js listeners \<Rightarrow> remote_mutation \<Rightarrow> jstring \<Rightarrow> js \<Rightarrow> request_outcome
    \<Rightarrow> remote_session \<Rightarrow> remote_session" where
  "proceed_mutation config react m url body outcome st = (case outcome of
       Settled (Inl e) \<Rightarrow> settle_mutation m (Inl e) st
     | Settled (Inr snap) \<Rightarrow> complete_mutation react m snap st
     | Ongoing request \<Rightarrow> st\<lparr>
         rs_running := Some \<lparr>ru_mutation = m, ru_url = url, ru_body = body, ru_request = request\<rparr>,
         rs_wire := rs_wire st @ (case request of
             AwaitResponse _ \<Rightarrow> [Fetched m url body]
           | AwaitSleep attempt \<Rightarrow> [Delayed m (retryDelay (rm_policy config) attempt)])\<rparr>)"

definition run_operation :: "remote_config \<Rightarrow> js listeners \<Rightarrow> remote_mutation \<Rightarrow> remote_session \<Rightarrow> remote_session" where
  "run_operation config react m st =
     (if (case mu_kind m of SubmitMutation observation \<Rightarrow> observation_id observation \<in> set (rs_acknowledged st)
          | ResetMutation _ \<Rightarrow> False)
      then settle_mutation m (Inr (sb_snapshot st)) st
      else
        let n = Suc (rs_requestSequence st); (url, body) = mutation_request config (rm_requestId config n) (mu_kind m)
        in proceed_mutation config react m url body (attempt_request (rm_policy config) 1) (st\<lparr>rs_requestSequence := n\<rparr>))"

text \<open>The next mutation of the queue starts when none runs.\<close>

definition start_mutation :: "remote_config \<Rightarrow> js listeners \<Rightarrow> remote_session \<Rightarrow> remote_session" where
  "start_mutation config react st = (case rs_waiting st of [] \<Rightarrow> st
     | m # waiting \<Rightarrow>
         let st' = st\<lparr>rs_waiting := waiting\<rparr>
         in if sb_closed st' then settle_mutation m (Inl ClosedError) st' else run_operation config react m st')"

definition answer_request :: "remote_config \<Rightarrow> js listeners \<Rightarrow> request_answer \<Rightarrow> remote_session \<Rightarrow> remote_session option" where
  "answer_request config react answer st = (case rs_running st of None \<Rightarrow> None
     | Some r \<Rightarrow> map_option (\<lambda>outcome. proceed_mutation config react (ru_mutation r) (ru_url r) (ru_body r) outcome st)
         (request_step (rm_policy config) (rm_ajv config) (rm_sessionId config)
            (retries_transport (mu_kind (ru_mutation r))) (sb_closed st) (ru_request r) answer))"

text \<open>The \<open>finally\<close> handler of a settled mutation.\<close>

definition mutation_finally :: "remote_mutation \<Rightarrow> remote_session \<Rightarrow> remote_session" where
  "mutation_finally m st = (let st' = st\<lparr>rs_finals := remove1 m (rs_finals st)\<rparr> in
     case mu_kind m of
       SubmitMutation observation \<Rightarrow>
         (case js_map_get (rs_submissions st') (observation_id observation) of
            Some (s, n) \<Rightarrow> if n = mu_number m
              then st'\<lparr>rs_submissions := js_map_delete (observation_id observation) (rs_submissions st')\<rparr> else st'
          | None \<Rightarrow> st')
     | ResetMutation _ \<Rightarrow> st'\<lparr>rs_pendingResets := rs_pendingResets st' - 1\<rparr>)"

definition remote_subscribe :: "js listeners \<Rightarrow> nat \<Rightarrow> remote_session \<Rightarrow> remote_session \<times> (session_error + nat)" where
  "remote_subscribe react l st = subscribe_base remote_close react l st"

section \<open>Creation\<close>

datatype create_error = BadOptions js_error | BadSessionId | CreateFailed remote_error

definition default_request_id :: "nat \<Rightarrow> jstring" where
  "default_request_id n = lit ''qaraa-client-'' @ dec n"

definition remote_start :: "js \<Rightarrow> remote_session" where
  "remote_start snap = \<lparr>sb_snapshot = snap, sb_closed = False, sb_listeners = [], sb_stops = [], sb_calls = [],
     rs_acknowledged = [], rs_submissions = [], rs_scheduledResets = 0, rs_pendingResets = 0, rs_requestSequence = 0,
     rs_mutations = 0, rs_waiting = [], rs_running = None, rs_finals = [], rs_queue = [],
     rs_socket = None, rs_attached = [], rs_disposer = None, rs_generation = 0,
     rs_reconnectAttempts = 0, rs_reconnectTask = False, rs_task = None, rs_wire = [], rs_streams = []\<rparr>"

text \<open>The options, and what they make.\<close>

definition configure_remote :: "ajv \<Rightarrow> (jstring \<Rightarrow> js option) \<Rightarrow> jstring \<Rightarrow> jstring \<Rightarrow> js \<Rightarrow> (nat \<Rightarrow> jstring) option
    \<Rightarrow> create_error + remote_config" where
  "configure_remote ajv parse baseUrl sessionId retry createRequestId =
     (case normalizedBaseUrl baseUrl of Inl e \<Rightarrow> Inl (BadOptions e) | Inr base \<Rightarrow>
     (case encodeURIComponent sessionId of None \<Rightarrow> Inl BadSessionId | Some encoded \<Rightarrow>
     (case retryPolicy retry of Inl e \<Rightarrow> Inl (BadOptions e) | Inr policy \<Rightarrow>
        Inr \<lparr>rm_baseUrl = base, rm_sessionId = sessionId, rm_encodedId = encoded, rm_policy = policy, rm_ajv = ajv,
          rm_requestId = (case createRequestId of Some f \<Rightarrow> f | None \<Rightarrow> default_request_id), rm_parse = parse\<rparr>)))"

text \<open>The first snapshot came, or the request for it failed; then the first stream is opened.\<close>

definition open_remote :: "remote_config \<Rightarrow> thrown option \<Rightarrow> remote_error + js \<Rightarrow> create_error + remote_config \<times> remote_session" where
  "open_remote config refused initial = (case initial of
       Inl e \<Rightarrow> Inl (CreateFailed e)
     | Inr snap \<Rightarrow> (case open_socket config refused (remote_start snap) of
         (st, None) \<Rightarrow> Inr (config, st)
       | (st, Some t) \<Rightarrow>
           let failure = transportFailure t
           in if \<not> te_retryable failure then Inl (CreateFailed (Thrown (TransportError failure)))
              else Inr (config, schedule_reconnect config st)))"

text \<open>\<open>answers\<close> is what ends the waits of the first request; without enough of them there is no result.\<close>

definition createRemoteSession :: "ajv \<Rightarrow> (jstring \<Rightarrow> js option) \<Rightarrow> jstring \<Rightarrow> jstring \<Rightarrow> js \<Rightarrow> (nat \<Rightarrow> jstring) option
    \<Rightarrow> request_answer list \<Rightarrow> thrown option \<Rightarrow> (create_error + remote_config \<times> remote_session) option" where
  "createRemoteSession ajv parse baseUrl sessionId retry createRequestId answers refused =
     (case configure_remote ajv parse baseUrl sessionId retry createRequestId of
        Inl e \<Rightarrow> Some (Inl e)
      | Inr config \<Rightarrow> map_option (open_remote config refused)
          (request_run (rm_policy config) ajv sessionId (attempt_request (rm_policy config) 1) answers))"

section \<open>Runs\<close>

text \<open>Everything that can happen to a session.\<close>

inductive remote_step :: "remote_config \<Rightarrow> js listeners \<Rightarrow> remote_session \<Rightarrow> remote_session \<Rightarrow> bool" for config react where
  submit_called: "remote_step config react st (fst (remote_submit observation st))"
| reset_called: "remote_step config react st (fst (remote_reset location st))"
| subscribe_called: "remote_step config react st (fst (remote_subscribe react l st))"
| stop_called: "remote_step config react st (run_stop st h)"
| close_called: "remote_step config react st (remote_close st)"
| mutation_started: "rs_running st = None \<Longrightarrow> rs_waiting st \<noteq> [] \<Longrightarrow> remote_step config react st (start_mutation config react st)"
| request_answered: "answer_request config react answer st = Some st' \<Longrightarrow> remote_step config react st st'"
| finally_ran: "m \<in> set (rs_finals st) \<Longrightarrow> remote_step config react st (mutation_finally m st)"
| socket_opened: "g \<in> set (rs_attached st) \<Longrightarrow> remote_step config react st (open_listener g st)"
| message_came: "g \<in> set (rs_attached st) \<Longrightarrow> remote_step config react st (message_listener config g event st)"
| socket_closed: "g \<in> set (rs_attached st) \<Longrightarrow> remote_step config react st (close_listener config g code st)"
| notification_ran: "rs_queue st \<noteq> [] \<Longrightarrow> remote_step config react st (run_notification react st)"
| delay_over: "rs_task st = Some Delaying \<Longrightarrow> remote_step config react st (reconnect_attempt config delayed refused st)"
| reconnect_over: "rs_task st = Some Finishing \<Longrightarrow> remote_step config react st (reconnect_finally config st)"

inductive_cases remote_stepE: "remote_step config react st st'"

end
