(* ===== verification/Remote_Contract.thy ===== *)
theory Remote_Contract
  imports Remote_Session
begin

text \<open>
  The remote session keeps the contract of \<open>Client_Session\<close>: what one operation tells the listeners,
  and the interpretation of the contract on the steps of \<open>Remote_Session\<close>.
\<close>

section \<open>What a step tells\<close>

text \<open>The part of the state a consumer sees.\<close>

definition view :: "remote_session \<Rightarrow> js \<times> bool \<times> nat js_set \<times> (nat \<times> js) list" where
  "view st = (sb_snapshot st, sb_closed st, sb_listeners st, sb_calls st)"

definition view_ok :: "js \<times> bool \<times> nat js_set \<times> (nat \<times> js) list \<Rightarrow> bool" where
  "view_ok v \<longleftrightarrow> (case v of (snap, gone, ls, calls) \<Rightarrow> distinct ls \<and> (gone \<longrightarrow> ls = []))"

definition view_tells :: "js \<times> bool \<times> nat js_set \<times> (nat \<times> js) list \<Rightarrow> js \<times> bool \<times> nat js_set \<times> (nat \<times> js) list \<Rightarrow> bool" where
  "view_tells v v' \<longleftrightarrow> view_ok v' \<and> (case v of (snap, gone, ls, calls) \<Rightarrow> case v' of (snap', gone', ls', calls') \<Rightarrow>
     (snap' = snap \<or> js_revision snap < js_revision snap')
     \<and> (\<exists>ks. calls' = calls @ map (\<lambda>l. (l, snap')) ks \<and> distinct ks \<and> (snap' = snap \<longrightarrow> length ks \<le> 1)
          \<and> (\<forall>l \<in> set ls'. l \<notin> set ls \<or> snap' \<noteq> snap \<longrightarrow> l \<in> set ks))
     \<and> (gone \<longrightarrow> gone' \<and> snap' = snap \<and> calls' = calls))"

definition tells :: "remote_session \<Rightarrow> remote_session \<Rightarrow> bool" where
  "tells st st' \<longleftrightarrow> view_tells (view st) (view st')"

lemma base_ok_iff: "base_ok st \<longleftrightarrow> view_ok (view st)"
  by (simp add: base_ok_def view_ok_def view_def)

lemma tells_iff: "tells st st' \<longleftrightarrow> base_ok st'
     \<and> (sb_snapshot st' = sb_snapshot st \<or> js_revision (sb_snapshot st) < js_revision (sb_snapshot st'))
     \<and> (\<exists>ls. sb_calls st' = sb_calls st @ map (\<lambda>l. (l, sb_snapshot st')) ls \<and> distinct ls
          \<and> (sb_snapshot st' = sb_snapshot st \<longrightarrow> length ls \<le> 1)
          \<and> (\<forall>l \<in> set (sb_listeners st'). l \<notin> set (sb_listeners st) \<or> sb_snapshot st' \<noteq> sb_snapshot st \<longrightarrow> l \<in> set ls))
     \<and> (sb_closed st \<longrightarrow> sb_closed st' \<and> sb_snapshot st' = sb_snapshot st \<and> sb_calls st' = sb_calls st)"
  by (simp add: tells_def view_tells_def base_ok_iff) (simp add: view_def)

lemma view_updates [simp]:
  "view (st\<lparr>rs_acknowledged := x0\<rparr>) = view st" "view (st\<lparr>rs_submissions := x1\<rparr>) = view st" "view (st\<lparr>rs_scheduledResets := x2\<rparr>) = view st"
  "view (st\<lparr>rs_pendingResets := x3\<rparr>) = view st" "view (st\<lparr>rs_requestSequence := x4\<rparr>) = view st" "view (st\<lparr>rs_mutations := x5\<rparr>) = view st"
  "view (st\<lparr>rs_waiting := x6\<rparr>) = view st" "view (st\<lparr>rs_running := x7\<rparr>) = view st" "view (st\<lparr>rs_finals := x8\<rparr>) = view st"
  "view (st\<lparr>rs_queue := x9\<rparr>) = view st" "view (st\<lparr>rs_socket := x10\<rparr>) = view st" "view (st\<lparr>rs_attached := x11\<rparr>) = view st"
  "view (st\<lparr>rs_disposer := x12\<rparr>) = view st" "view (st\<lparr>rs_generation := x13\<rparr>) = view st" "view (st\<lparr>rs_reconnectAttempts := x14\<rparr>) = view st"
  "view (st\<lparr>rs_reconnectTask := x15\<rparr>) = view st" "view (st\<lparr>rs_task := x16\<rparr>) = view st" "view (st\<lparr>rs_wire := x17\<rparr>) = view st"
  "view (st\<lparr>rs_streams := x18\<rparr>) = view st"
  by (simp_all add: view_def)

lemma tells_transfer: "tells st1 st2 \<Longrightarrow> view st1 = view st \<Longrightarrow> view st2 = view st' \<Longrightarrow> tells st st'"
  by (simp add: tells_def)

lemma tells_same: "base_ok st \<Longrightarrow> view st' = view st \<Longrightarrow> tells st st'"
  by (cases "view st") (auto simp: tells_def base_ok_iff view_tells_def)

lemma tells_calmer: "base_ok st \<Longrightarrow> calmer st st' \<Longrightarrow> sb_calls st' = sb_calls st \<Longrightarrow> tells st st'"
  by (auto simp: tells_iff calmer_def intro: exI [of _ "[]"])

lemma view_dispose [simp]: "view (dispose_socket g st) = view st"
  by (simp add: dispose_socket_def)

lemma remote_close_quiet: "closes_quietly remote_close"
proof -
  have "view (remote_close st) = view (close_base st)" for st
    by (simp add: remote_close_def close_base_def view_def Let_def dispose_socket_def split: option.split)
  then have "calmer st (remote_close st) \<longleftrightarrow> calmer st (close_base st)" "sb_calls (remote_close st) = sb_calls (close_base st)" for st
    by (simp_all add: view_def calmer_def base_ok_def)
  with close_base_quiet show ?thesis by (simp add: closes_quietly_def)
qed

lemma notify_tells:
  assumes "base_ok st"
  shows "tells st (remote_notify react nxt st)"
proof (cases "sb_closed st")
  case True
  with tells_same [OF assms] show ?thesis by (simp add: remote_notify_def)
next
  case False
  from accept_snapshot_facts [OF remote_close_quiet assms refl, of js_revision react nxt] False
  show ?thesis
    unfolding tells_iff remote_notify_def by (auto split: if_splits)
qed

lemma subscribe_tells:
  assumes "base_ok st"
  shows "tells st (fst (remote_subscribe react l st))"
proof -
  let ?st = "fst (remote_subscribe react l st)"
  from subscribe_base_facts [OF remote_close_quiet assms, of ?st react l] have facts:
    "base_ok ?st" "sb_snapshot ?st = sb_snapshot st" "sb_closed st \<longrightarrow> ?st = st"
    "\<exists>ls. sb_calls ?st = sb_calls st @ map (\<lambda>l. (l, sb_snapshot st)) ls \<and> length ls \<le> 1
       \<and> set (sb_listeners ?st) \<subseteq> set ls \<union> set (sb_listeners st)"
    by (simp_all add: remote_subscribe_def)
  from facts(4) obtain ls where ls: "sb_calls ?st = sb_calls st @ map (\<lambda>l. (l, sb_snapshot st)) ls" "length ls \<le> 1"
    "set (sb_listeners ?st) \<subseteq> set ls \<union> set (sb_listeners st)" by blast
  then have "distinct ls" by (cases ls) auto
  with ls facts(1-3) show ?thesis unfolding tells_iff by auto
qed

section \<open>Operations that tell nothing\<close>

lemma view_simps [simp]:
  "view (schedule_reconnect config st) = view st" "view (fst (open_socket config refused st)) = view st"
  "view (open_listener g st) = view st" "view (remote_enqueue nxt st) = view st" "view (enqueue_mutation kind st) = view st"
  "view (settle_mutation m result st) = view st" "view (acknowledge_mutation kind st) = view st"
  by (simp_all add: schedule_reconnect_def open_socket_def open_listener_def remote_enqueue_def enqueue_mutation_def
      settle_mutation_def acknowledge_mutation_def Let_def split: option.split mutation_kind.split)

lemma view_finally [simp]: "view (mutation_finally m st) = view st"
  by (simp add: mutation_finally_def Let_def split: option.split mutation_kind.split)

lemma open_socket_view: "open_socket config refused st = (st', r) \<Longrightarrow> view st' = view st"
  using view_simps(2) [of config refused st] by simp

lemma view_reconnect_attempt [simp]: "view (reconnect_attempt config delayed refused st) = view st"
  by (auto simp: reconnect_attempt_def Let_def dest: open_socket_view split: option.split prod.split)

lemma view_reconnect_finally [simp]: "view (reconnect_finally config st) = view st"
  by (simp add: reconnect_finally_def Let_def)

lemma view_message [simp]: "view (message_listener config g event st) = view st"
  by (simp add: message_listener_def split: option.split)

lemma view_close_listener [simp]: "view (close_listener config g code st) = view st"
  by (simp add: close_listener_def Let_def)

lemma view_submit [simp]: "view (fst (remote_submit observation st)) = view st"
  by (simp add: remote_submit_def Let_def split: option.split)

lemma view_reset [simp]: "view (fst (remote_reset location st)) = view st"
  by (simp add: remote_reset_def Let_def)

section \<open>Mutations\<close>

lemma complete_tells:
  assumes "base_ok st"
  shows "tells st (complete_mutation react m snap st)"
proof -
  let ?st = "acknowledge_mutation (mu_kind m) st"
  have "tells ?st (remote_notify react snap ?st)" using notify_tells [of ?st] assms by (simp add: base_ok_iff)
  then show ?thesis by (rule tells_transfer) (simp_all add: complete_mutation_def Let_def)
qed

lemma proceed_tells:
  assumes "base_ok st"
  shows "tells st (proceed_mutation config react m url body outcome st)"
proof (cases outcome)
  case (Ongoing request)
  with tells_same [OF assms] show ?thesis by (simp add: proceed_mutation_def)
next
  case (Settled result)
  with tells_same [OF assms] complete_tells [OF assms] show ?thesis
    by (cases result) (simp_all add: proceed_mutation_def)
qed

lemma operation_tells:
  assumes "base_ok st"
  shows "tells st (run_operation config react m st)"
proof -
  obtain url body where r: "mutation_request config (rm_requestId config (Suc (rs_requestSequence st))) (mu_kind m) = (url, body)"
    by (rule prod.exhaust)
  let ?st = "st\<lparr>rs_requestSequence := Suc (rs_requestSequence st)\<rparr>"
  have "base_ok ?st" using assms by (simp add: base_ok_iff)
  from proceed_tells [OF this] have "tells st (proceed_mutation config react m url body outcome ?st)" for outcome
    by (rule tells_transfer) simp_all
  with tells_same [OF assms] r show ?thesis by (simp add: run_operation_def Let_def)
qed

lemma start_tells:
  assumes "base_ok st"
  shows "tells st (start_mutation config react st)"
proof (cases "rs_waiting st")
  case Nil
  with tells_same [OF assms] show ?thesis by (simp add: start_mutation_def)
next
  case (Cons m waiting)
  let ?st = "st\<lparr>rs_waiting := waiting\<rparr>"
  have "base_ok ?st" using assms by (simp add: base_ok_iff)
  from operation_tells [OF this] tells_same [OF this] have "tells ?st (start_mutation config react st)"
    by (simp add: start_mutation_def Cons Let_def)
  then show ?thesis by (rule tells_transfer) simp_all
qed

lemma notification_tells:
  assumes "base_ok st"
  shows "tells st (run_notification react st)"
proof (cases "rs_queue st")
  case Nil
  with tells_same [OF assms] show ?thesis by (simp add: run_notification_def)
next
  case (Cons nxt queue)
  let ?st = "st\<lparr>rs_queue := queue\<rparr>"
  have "base_ok ?st" using assms by (simp add: base_ok_iff)
  from notify_tells [OF this] tells_same [OF this] have "tells ?st (run_notification react st)"
    by (simp add: run_notification_def Cons Let_def)
  then show ?thesis by (rule tells_transfer) simp_all
qed

lemma remote_step_tells:
  assumes "remote_step config react st st'" "base_ok st"
  shows "tells st st'"
  using assms(1)
proof cases
  case (request_answered answer)
  then show ?thesis using proceed_tells [OF assms(2)]
    by (auto simp: answer_request_def split: option.splits)
next
  case (close_called)
  then show ?thesis using tells_calmer [OF assms(2)] remote_close_quiet by (simp add: closes_quietly_def)
next
  case (stop_called h)
  then show ?thesis using tells_calmer [OF assms(2)] by simp
qed (use assms(2) tells_same subscribe_tells start_tells notification_tells in auto)

interpretation remote_contract: qaraa_session base_ok "remote_step config react" sb_snapshot sb_calls
  "\<lambda>st. set (sb_listeners st)" sb_closed js_revision for config react
  by unfold_locales (use remote_step_tells in \<open>auto simp: tells_iff\<close>)

section \<open>Sessions\<close>

lemma configured:
  assumes "configure_remote ajv parse baseUrl sessionId retry ids = Inr config"
  shows "retryPolicy retry = Inr (rm_policy config) \<and> rm_ajv config = ajv \<and> rm_sessionId config = sessionId \<and> rm_parse config = parse"
  using assms by (auto simp: configure_remote_def split: sum.splits option.splits)

lemma policy_positive:
  assumes "retryPolicy options = Inr policy"
  shows "1 \<le> po_maxAttempts policy \<and> 1 \<le> po_initialDelayMs policy \<and> po_initialDelayMs policy \<le> po_maxDelayMs policy
    \<and> po_maxDelayMs policy \<le> safe_limit"
proof -
  have small: "1 \<le> n \<and> n \<le> safe_limit" if "assertPositiveInteger v label = Inr n" for v label n
    using that by (auto simp: assertPositiveInteger_def isSafeInteger_iff the_int_def split: if_splits)
  from assms show ?thesis
    by (auto simp: retryPolicy_def ebind_Inr_iff split: if_splits dest!: small)
qed

lemma opened_remote:
  assumes "open_remote config refused initial = Inr (config', st)"
  obtains snap where "config' = config" "initial = Inr snap" "open_socket config refused (remote_start snap) = (st, None)"
    | snap st1 t where "config' = config" "initial = Inr snap" "open_socket config refused (remote_start snap) = (st1, Some t)"
        "st = schedule_reconnect config st1"
  using assms by (auto simp: open_remote_def Let_def split: sum.splits prod.splits option.splits if_splits)

lemma view_start [simp]: "view (remote_start snap) = (snap, False, [], [])"
  by (simp add: remote_start_def view_def)

lemma opened_view:
  assumes "open_remote config refused initial = Inr (config', st)"
  shows "\<exists>snap. initial = Inr snap \<and> view st = (snap, False, [], [])"
  using assms by (rule opened_remote) (auto dest!: open_socket_view)

lemma created_remote:
  assumes "createRemoteSession ajv parse baseUrl sessionId retry ids answers refused = Some (Inr (config, st))"
  obtains initial where "configure_remote ajv parse baseUrl sessionId retry ids = Inr config"
    "open_remote config refused initial = Inr (config, st)"
proof -
  from assms obtain config' initial where c: "configure_remote ajv parse baseUrl sessionId retry ids = Inr config'"
    "open_remote config' refused initial = Inr (config, st)"
    by (auto simp: createRemoteSession_def split: sum.splits)
  moreover from c(2) have "config' = config" by (auto elim: opened_remote)
  ultimately show ?thesis using that by blast
qed

end
