(* ===== verification/Remote_Wire.thy ===== *)
theory Remote_Wire
  imports Remote_Contract
begin

text \<open>
  What a remote session sends.  Its mutations are served one at a time in the order of their calls, an
  observation the server has confirmed since the last reset is not sent again, a reset is sent once
  and a submission at most as often as the policy allows, and every mutation is settled once the
  transport has answered a bounded number of times.
\<close>

section \<open>Reading the wire\<close>

definition is_submit :: "remote_mutation \<Rightarrow> bool" where
  "is_submit m = retries_transport (mu_kind m)"

definition submitted_id :: "remote_mutation \<Rightarrow> jstring" where
  "submitted_id m = (case mu_kind m of SubmitMutation observation \<Rightarrow> observation_id observation | ResetMutation _ \<Rightarrow> [])"

text \<open>The observations confirmed since the last reset that succeeded.\<close>

fun confirm :: "jstring set \<Rightarrow> wire_event \<Rightarrow> jstring set" where
  "confirm c (Completed m (Inr snap)) = (if is_submit m then insert (submitted_id m) c else {})"
| "confirm c _ = c"

definition confirmed :: "wire_event list \<Rightarrow> jstring set" where
  "confirmed wire = foldl confirm {} wire"

fun is_completed :: "wire_event \<Rightarrow> bool" where
  "is_completed (Completed m r) = True"
| "is_completed _ = False"

definition completions :: "wire_event list \<Rightarrow> nat" where
  "completions wire = length (filter is_completed wire)"

fun is_fetch_of :: "nat \<Rightarrow> wire_event \<Rightarrow> bool" where
  "is_fetch_of n (Fetched m url body) \<longleftrightarrow> mu_number m = n"
| "is_fetch_of n _ \<longleftrightarrow> False"

definition fetches :: "nat \<Rightarrow> wire_event list \<Rightarrow> nat" where
  "fetches n wire = length (filter (is_fetch_of n) wire)"

fun is_delay_of :: "nat \<Rightarrow> wire_event \<Rightarrow> bool" where
  "is_delay_of n (Delayed m d) \<longleftrightarrow> mu_number m = n"
| "is_delay_of n _ \<longleftrightarrow> False"

definition waits :: "nat \<Rightarrow> wire_event list \<Rightarrow> nat" where
  "waits n wire = length (filter (is_delay_of n) wire)"

lemma wire_snoc [simp]:
  "confirmed (wire @ [e]) = confirm (confirmed wire) e"
  "completions (wire @ [e]) = completions wire + (if is_completed e then 1 else 0)"
  "fetches n (wire @ [e]) = fetches n wire + (if is_fetch_of n e then 1 else 0)"
  "waits n (wire @ [e]) = waits n wire + (if is_delay_of n e then 1 else 0)"
  by (simp_all add: confirmed_def completions_def fetches_def waits_def)

lemma wire_Nil [simp]: "confirmed [] = {}" "completions [] = 0" "fetches n [] = 0" "waits n [] = 0"
  by (simp_all add: confirmed_def completions_def fetches_def waits_def)

section \<open>A disciplined wire\<close>

definition send_limit :: "remote_config \<Rightarrow> remote_mutation \<Rightarrow> int" where
  "send_limit config m = (if is_submit m then po_maxAttempts (rm_policy config) else 1)"

text \<open>What may follow what has been on the wire.\<close>

definition event_ok :: "remote_config \<Rightarrow> wire_event list \<Rightarrow> wire_event \<Rightarrow> bool" where
  "event_ok config wire e = (case e of
       Fetched m url body \<Rightarrow> mu_number m = completions wire
         \<and> int (fetches (mu_number m) wire) < send_limit config m
         \<and> waits (mu_number m) wire = fetches (mu_number m) wire
         \<and> (is_submit m \<longrightarrow> submitted_id m \<notin> confirmed wire)
         \<and> (\<forall>m' url' body'. Fetched m' url' body' \<in> set wire \<longrightarrow> mu_number m' = mu_number m \<longrightarrow> m' = m \<and> url' = url \<and> body' = body)
     | Delayed m delay \<Rightarrow> mu_number m = completions wire \<and> 0 < fetches (mu_number m) wire
         \<and> delay = retryDelay (rm_policy config) (int (fetches (mu_number m) wire))
     | Completed m result \<Rightarrow> mu_number m = completions wire
         \<and> (\<forall>snap. result = Inr snap \<longrightarrow> fetches (mu_number m) wire = 0 \<longrightarrow> is_submit m \<and> submitted_id m \<in> confirmed wire))"

definition wire_ok :: "remote_config \<Rightarrow> wire_event list \<Rightarrow> bool" where
  "wire_ok config wire \<longleftrightarrow> (\<forall>i < length wire. event_ok config (take i wire) (wire ! i))"

lemma wire_ok_Nil [simp]: "wire_ok config []"
  by (simp add: wire_ok_def)

lemma wire_ok_snoc [simp]: "wire_ok config (wire @ [e]) \<longleftrightarrow> wire_ok config wire \<and> event_ok config wire e"
  by (auto simp: wire_ok_def nth_append less_Suc_eq)

lemma wire_ok_split: "wire_ok config (pre @ e # post) \<Longrightarrow> event_ok config pre e"
  unfolding wire_ok_def by (elim allE [of _ "length pre"]) simp

lemma fetches_later: "wire_ok config wire \<Longrightarrow> completions wire < n \<Longrightarrow> fetches n wire = 0"
proof (induction wire rule: rev_induct)
  case (snoc e wire)
  then show ?case by (cases e) (auto simp: event_ok_def split: if_splits)
qed simp

lemma waits_none: "wire_ok config wire \<Longrightarrow> fetches n wire = 0 \<Longrightarrow> waits n wire = 0"
proof (induction wire rule: rev_induct)
  case (snoc e wire)
  then show ?case by (cases e) (auto simp: event_ok_def split: if_splits)
qed simp

lemma fetched_later: "wire_ok config wire \<Longrightarrow> Fetched m url body \<in> set wire \<Longrightarrow> mu_number m \<le> completions wire"
  using fetches_later [of config wire "mu_number m"]
  by (force simp: fetches_def filter_empty_conv not_le [symmetric])

section \<open>The invariant\<close>

text \<open>The running mutation: the requests it has sent are all the same one and as many as its attempts.\<close>

definition running_ok :: "remote_config \<Rightarrow> bool \<Rightarrow> wire_event list \<Rightarrow> running_mutation \<Rightarrow> bool" where
  "running_ok config gone wire r \<longleftrightarrow>
     (let m = ru_mutation r; n = mu_number m in
      (case ru_request r of
         AwaitResponse k \<Rightarrow> 1 \<le> k \<and> k \<le> send_limit config m \<and> int (fetches n wire) = k \<and> int (waits n wire) = k - 1
       | AwaitSleep k \<Rightarrow> is_submit m \<and> 1 \<le> k \<and> k < send_limit config m \<and> int (fetches n wire) = k \<and> int (waits n wire) = k)
      \<and> (\<not> gone \<and> is_submit m \<longrightarrow> submitted_id m \<notin> confirmed wire)
      \<and> (\<forall>m' url body. Fetched m' url body \<in> set wire \<longrightarrow> mu_number m' = n \<longrightarrow> m' = m \<and> url = ru_url r \<and> body = ru_body r))"

definition remote_ok :: "remote_config \<Rightarrow> remote_session \<Rightarrow> bool" where
  "remote_ok config st \<longleftrightarrow> wire_ok config (rs_wire st)
     \<and> (\<not> sb_closed st \<longrightarrow> set (rs_acknowledged st) = confirmed (rs_wire st))
     \<and> map mu_number (map ru_mutation (case rs_running st of None \<Rightarrow> [] | Some r \<Rightarrow> [r]) @ rs_waiting st)
         = [completions (rs_wire st)..<rs_mutations st]
     \<and> completions (rs_wire st) \<le> rs_mutations st
     \<and> (case rs_running st of None \<Rightarrow> fetches (completions (rs_wire st)) (rs_wire st) = 0 | Some r \<Rightarrow> running_ok config (sb_closed st) (rs_wire st) r)"

lemma idle_fetches: "remote_ok config st \<Longrightarrow> rs_running st = None \<Longrightarrow> fetches (completions (rs_wire st)) (rs_wire st) = 0"
  by (simp add: remote_ok_def)

text \<open>Nothing changes of the mutations, unless the session is closed.\<close>

definition mutations_kept :: "remote_session \<Rightarrow> remote_session \<Rightarrow> bool" where
  "mutations_kept st st' \<longleftrightarrow> rs_running st' = rs_running st \<and> rs_waiting st' = rs_waiting st \<and> rs_mutations st' = rs_mutations st
     \<and> rs_wire st' = rs_wire st \<and> (sb_closed st \<longrightarrow> sb_closed st')
     \<and> (\<not> sb_closed st' \<longrightarrow> rs_acknowledged st' = rs_acknowledged st)"

lemma running_ok_gone: "running_ok config gone wire r \<Longrightarrow> (gone \<longrightarrow> gone') \<Longrightarrow> running_ok config gone' wire r"
  by (auto simp: running_ok_def Let_def)

lemma kept_ok:
  assumes "mutations_kept st st'" "remote_ok config st"
  shows "remote_ok config st'"
proof -
  from assms(1) have same: "rs_running st' = rs_running st" "rs_waiting st' = rs_waiting st" "rs_mutations st' = rs_mutations st"
    "rs_wire st' = rs_wire st" and gone: "sb_closed st \<longrightarrow> sb_closed st'" "\<not> sb_closed st' \<longrightarrow> rs_acknowledged st' = rs_acknowledged st"
    by (simp_all add: mutations_kept_def)
  from assms(2) gone show ?thesis
    unfolding remote_ok_def same by (auto split: option.splits elim: running_ok_gone)
qed

interpretation kept_frame: listener_frame mutations_kept remote_close
  by unfold_locales
    (auto simp: mutations_kept_def remote_close_def close_base_def dispose_socket_def Let_def split: option.splits)

lemma kept_refl [simp]: "mutations_kept st st"
  by (rule kept_frame.same)

lemma kept_updates [simp]:
  "mutations_kept st (st'\<lparr>rs_submissions := a\<rparr>) = mutations_kept st st'" "mutations_kept st (st'\<lparr>rs_scheduledResets := b\<rparr>) = mutations_kept st st'"
  "mutations_kept st (st'\<lparr>rs_pendingResets := c\<rparr>) = mutations_kept st st'" "mutations_kept st (st'\<lparr>rs_requestSequence := d\<rparr>) = mutations_kept st st'"
  "mutations_kept st (st'\<lparr>rs_finals := e\<rparr>) = mutations_kept st st'" "mutations_kept st (st'\<lparr>rs_queue := f\<rparr>) = mutations_kept st st'"
  "mutations_kept st (st'\<lparr>rs_socket := g\<rparr>) = mutations_kept st st'" "mutations_kept st (st'\<lparr>rs_attached := h\<rparr>) = mutations_kept st st'"
  "mutations_kept st (st'\<lparr>rs_disposer := i\<rparr>) = mutations_kept st st'" "mutations_kept st (st'\<lparr>rs_generation := j\<rparr>) = mutations_kept st st'"
  "mutations_kept st (st'\<lparr>rs_reconnectAttempts := k\<rparr>) = mutations_kept st st'" "mutations_kept st (st'\<lparr>rs_reconnectTask := l\<rparr>) = mutations_kept st st'"
  "mutations_kept st (st'\<lparr>rs_task := m\<rparr>) = mutations_kept st st'" "mutations_kept st (st'\<lparr>rs_streams := n\<rparr>) = mutations_kept st st'"
  by (simp_all add: mutations_kept_def)

lemma kept_dispose [simp]: "mutations_kept st (dispose_socket g st') = mutations_kept st st'"
  by (simp add: dispose_socket_def)

lemma kept_schedule [simp]: "mutations_kept st (schedule_reconnect config st') = mutations_kept st st'"
  by (simp add: schedule_reconnect_def Let_def)

lemma kept_open_socket: "open_socket config refused st' = (st'', r) \<Longrightarrow> mutations_kept st st'' = mutations_kept st st'"
  by (auto simp: open_socket_def Let_def split: option.splits if_splits)

lemma notify_kept: "mutations_kept st (remote_notify react nxt st)"
  by (simp add: remote_notify_def kept_frame.accept_frame)

lemma notification_kept: "mutations_kept st (run_notification react st)"
proof (cases "rs_queue st")
  case (Cons nxt queue)
  have "mutations_kept st (st\<lparr>rs_queue := queue\<rparr>)" by simp
  from kept_frame.along [OF this notify_kept] this show ?thesis by (simp add: run_notification_def Cons Let_def)
qed (simp add: run_notification_def)

lemma finally_kept: "mutations_kept st (mutation_finally m st)"
  by (simp add: mutation_finally_def Let_def split: option.split mutation_kind.split)

lemma message_kept: "mutations_kept st (message_listener config g event st)"
  by (simp add: message_listener_def remote_enqueue_def split: option.split)

lemma reconnect_kept: "mutations_kept st (reconnect_attempt config delayed refused st)"
  by (auto simp: reconnect_attempt_def Let_def kept_open_socket split: option.split prod.split)

section \<open>The mutations\<close>

text \<open>The mutation at hand, already taken from the queue.\<close>

definition current_ok :: "remote_config \<Rightarrow> remote_mutation \<Rightarrow> remote_session \<Rightarrow> bool" where
  "current_ok config m st \<longleftrightarrow> wire_ok config (rs_wire st) \<and> mu_number m = completions (rs_wire st)
     \<and> map mu_number (rs_waiting st) = [Suc (completions (rs_wire st))..<rs_mutations st]
     \<and> completions (rs_wire st) < rs_mutations st"

lemma current_kept: "mutations_kept st st' \<Longrightarrow> current_ok config m st' = current_ok config m st"
  by (simp add: current_ok_def mutations_kept_def)

lemma current_of_list:
  assumes "mu_number m # map mu_number ms = [a..<b]"
  shows "mu_number m = a \<and> map mu_number ms = [Suc a..<b] \<and> a < b"
  using assms by (cases "a < b") (auto simp: upt_conv_Cons)

lemma running_current: "remote_ok config st \<Longrightarrow> rs_running st = Some r \<Longrightarrow> current_ok config (ru_mutation r) st"
  by (auto simp: remote_ok_def current_ok_def dest!: current_of_list)

lemma waiting_current:
  "remote_ok config st \<Longrightarrow> rs_running st = None \<Longrightarrow> rs_waiting st = m # ms \<Longrightarrow> current_ok config m (st\<lparr>rs_waiting := ms\<rparr>)"
  by (auto simp: remote_ok_def current_ok_def dest!: current_of_list)

lemma enqueue_ok: "remote_ok config st \<Longrightarrow> remote_ok config (enqueue_mutation kind st)"
  by (auto simp: remote_ok_def enqueue_mutation_def split: option.splits)

lemma settle_ok:
  assumes "current_ok config m st"
    and "\<not> sb_closed st \<longrightarrow> set (rs_acknowledged st) = confirm (confirmed (rs_wire st)) (Completed m result)"
    and "\<And>snap. result = Inr snap \<Longrightarrow> fetches (mu_number m) (rs_wire st) = 0 \<Longrightarrow> is_submit m \<and> submitted_id m \<in> confirmed (rs_wire st)"
  shows "remote_ok config (settle_mutation m result st)"
proof -
  have "event_ok config (rs_wire st) (Completed m result)" using assms by (auto simp: event_ok_def current_ok_def)
  moreover have "fetches (Suc (completions (rs_wire st))) (rs_wire st) = 0"
    using assms(1) fetches_later [of config] by (simp add: current_ok_def)
  ultimately show ?thesis using assms(1,2) by (simp add: remote_ok_def settle_mutation_def current_ok_def)
qed

lemma acknowledge_confirms:
  assumes "\<not> sb_closed st \<longrightarrow> set (rs_acknowledged st) = c" "\<not> sb_closed st"
  shows "set (rs_acknowledged (acknowledge_mutation (mu_kind m) st)) = confirm c (Completed m (Inr snap))"
  using assms by (auto simp: acknowledge_mutation_def is_submit_def submitted_id_def retries_transport_def split: mutation_kind.split)

lemma complete_ok:
  assumes "current_ok config m st" "\<not> sb_closed st \<longrightarrow> set (rs_acknowledged st) = confirmed (rs_wire st)"
    "fetches (mu_number m) (rs_wire st) \<noteq> 0"
  shows "remote_ok config (complete_mutation react m snap st)"
proof -
  let ?st = "acknowledge_mutation (mu_kind m) st"
  let ?st' = "remote_notify react snap ?st"
  have a: "rs_wire ?st = rs_wire st" "sb_closed ?st = sb_closed st" "rs_waiting ?st = rs_waiting st" "rs_mutations ?st = rs_mutations st"
    by (simp_all add: acknowledge_mutation_def split: mutation_kind.split)
  have kept: "mutations_kept ?st ?st'" by (rule notify_kept)
  then have wire: "rs_wire ?st' = rs_wire st" by (simp add: mutations_kept_def a)
  have "remote_ok config (settle_mutation m (Inr (sb_snapshot ?st')) ?st')"
  proof (rule settle_ok)
    have "current_ok config m ?st" using assms(1) by (simp add: current_ok_def a)
    with kept show "current_ok config m ?st'" by (simp add: current_kept)
    have "\<not> sb_closed ?st' \<longrightarrow> \<not> sb_closed st \<and> rs_acknowledged ?st' = rs_acknowledged ?st"
      using kept a(2) unfolding mutations_kept_def by blast
    with acknowledge_confirms [OF assms(2), of m "sb_snapshot ?st'"]
    show "\<not> sb_closed ?st' \<longrightarrow> set (rs_acknowledged ?st') = confirm (confirmed (rs_wire ?st')) (Completed m (Inr (sb_snapshot ?st')))"
      unfolding wire by simp
  qed (use assms(3) wire in simp)
  then show ?thesis by (simp add: complete_mutation_def Let_def)
qed

lemma failed_ok:
  assumes "current_ok config m st" "\<not> sb_closed st \<longrightarrow> set (rs_acknowledged st) = confirmed (rs_wire st)"
  shows "remote_ok config (settle_mutation m (Inl e) st)"
  using assms by (intro settle_ok) simp_all

text \<open>Another attempt is sent.\<close>

lemma fetch_ok:
  assumes "current_ok config m st" "set (rs_acknowledged st) = confirmed (rs_wire st)"
    "1 \<le> k" "k \<le> send_limit config m" "int (fetches (mu_number m) (rs_wire st)) = k - 1"
    "int (waits (mu_number m) (rs_wire st)) = k - 1"
    "is_submit m \<longrightarrow> submitted_id m \<notin> confirmed (rs_wire st)"
    "\<forall>m' url' body'. Fetched m' url' body' \<in> set (rs_wire st) \<longrightarrow> mu_number m' = mu_number m \<longrightarrow> m' = m \<and> url' = url \<and> body' = body"
  shows "remote_ok config (proceed_mutation config react m url body (Ongoing (AwaitResponse k)) st)"
proof -
  have "event_ok config (rs_wire st) (Fetched m url body)"
    using assms by (simp add: event_ok_def current_ok_def)
  moreover have "running_ok config (sb_closed st) (rs_wire st @ [Fetched m url body])
      \<lparr>ru_mutation = m, ru_url = url, ru_body = body, ru_request = AwaitResponse k\<rparr>"
    using assms(3-8) by (auto simp: running_ok_def)
  ultimately show ?thesis
    using assms(1,2) by (simp add: remote_ok_def proceed_mutation_def current_ok_def upt_conv_Cons)
qed

lemma delay_ok:
  assumes "remote_ok config st" "rs_running st = Some r" "ru_request r = AwaitResponse k" "is_submit (ru_mutation r)"
    "k \<noteq> po_maxAttempts (rm_policy config)"
  shows "remote_ok config (proceed_mutation config react (ru_mutation r) (ru_url r) (ru_body r) (Ongoing (AwaitSleep k)) st)"
proof -
  let ?m = "ru_mutation r"
  note c = running_current [OF assms(1,2)]
  have ok: "running_ok config (sb_closed st) (rs_wire st) r" and ack: "\<not> sb_closed st \<longrightarrow> set (rs_acknowledged st) = confirmed (rs_wire st)"
    using assms(1,2) by (simp_all add: remote_ok_def)
  then have "int (fetches (mu_number ?m) (rs_wire st)) = k" "1 \<le> k" using assms(3) by (simp_all add: running_ok_def Let_def)
  then have "event_ok config (rs_wire st) (Delayed ?m (retryDelay (rm_policy config) k))"
    using c by (simp add: event_ok_def current_ok_def)
  moreover have "running_ok config (sb_closed st) (rs_wire st @ [Delayed ?m (retryDelay (rm_policy config) k)])
      \<lparr>ru_mutation = ?m, ru_url = ru_url r, ru_body = ru_body r, ru_request = AwaitSleep k\<rparr>"
    using ok assms(3-5) by (auto simp: running_ok_def Let_def send_limit_def)
  ultimately show ?thesis
    using c ack by (simp add: remote_ok_def proceed_mutation_def current_ok_def upt_conv_Cons)
qed

text \<open>The answer of the transport.\<close>

lemma request_step_response:
  "request_step policy ajv sessionId retryTransport gone (AwaitResponse k) answer = Some outcome
     \<Longrightarrow> (\<exists>result. outcome = Settled result) \<or> (outcome = Ongoing (AwaitSleep k) \<and> retryTransport \<and> k \<noteq> po_maxAttempts policy)"
  by (cases answer) (auto simp: Let_def split: if_splits)

lemma request_step_sleep:
  "request_step policy ajv sessionId retryTransport gone (AwaitSleep k) answer = Some outcome
     \<Longrightarrow> (\<exists>e. outcome = Settled (Inl e)) \<or> (outcome = Ongoing (AwaitResponse (k + 1)) \<and> \<not> gone \<and> k + 1 \<le> po_maxAttempts policy)"
  by (cases answer) (auto simp: attempt_request_def split: if_splits)

lemma answer_ok:
  assumes "remote_ok config st" "answer_request config react answer st = Some st'"
  shows "remote_ok config st'"
proof -
  from assms(2) obtain r outcome where r: "rs_running st = Some r"
      "request_step (rm_policy config) (rm_ajv config) (rm_sessionId config) (retries_transport (mu_kind (ru_mutation r)))
         (sb_closed st) (ru_request r) answer = Some outcome"
      "st' = proceed_mutation config react (ru_mutation r) (ru_url r) (ru_body r) outcome st"
    by (auto simp: answer_request_def split: option.splits)
  let ?m = "ru_mutation r"
  note c = running_current [OF assms(1) r(1)]
  have ok: "running_ok config (sb_closed st) (rs_wire st) r" and ack: "\<not> sb_closed st \<longrightarrow> set (rs_acknowledged st) = confirmed (rs_wire st)"
    using assms(1) r(1) by (simp_all add: remote_ok_def)
  have failed: ?thesis if "outcome = Settled (Inl e)" for e
    using failed_ok [OF c ack] that r(3) by (simp add: proceed_mutation_def)
  show ?thesis
  proof (cases "ru_request r")
    case (AwaitResponse k)
    with ok have sent: "fetches (mu_number ?m) (rs_wire st) \<noteq> 0" by (auto simp: running_ok_def Let_def)
    from request_step_response r(2) AwaitResponse consider e where "outcome = Settled (Inl e)"
      | snap where "outcome = Settled (Inr snap)"
      | "outcome = Ongoing (AwaitSleep k)" "retries_transport (mu_kind ?m)" "k \<noteq> po_maxAttempts (rm_policy config)"
      by (metis sum.exhaust)
    then show ?thesis
    proof cases
      case 1
      then show ?thesis by (rule failed)
    next
      case 2
      with complete_ok [OF c ack sent] r(3) show ?thesis by (simp add: proceed_mutation_def)
    next
      case 3
      with delay_ok [OF assms(1) r(1) AwaitResponse] r(3) show ?thesis by (simp add: is_submit_def)
    qed
  next
    case (AwaitSleep k)
    from request_step_sleep r(2) AwaitSleep consider e where "outcome = Settled (Inl e)"
      | "outcome = Ongoing (AwaitResponse (k + 1))" "\<not> sb_closed st" "k + 1 \<le> po_maxAttempts (rm_policy config)"
      by metis
    then show ?thesis
    proof cases
      case 1
      then show ?thesis by (rule failed)
    next
      case 2
      with ok AwaitSleep ack have "1 \<le> k + 1" "k + 1 \<le> send_limit config ?m" "int (fetches (mu_number ?m) (rs_wire st)) = k + 1 - 1"
        "int (waits (mu_number ?m) (rs_wire st)) = k + 1 - 1"
        "is_submit ?m \<longrightarrow> submitted_id ?m \<notin> confirmed (rs_wire st)" "set (rs_acknowledged st) = confirmed (rs_wire st)"
        "\<forall>m' url' body'. Fetched m' url' body' \<in> set (rs_wire st) \<longrightarrow> mu_number m' = mu_number ?m \<longrightarrow> m' = ?m \<and> url' = ru_url r \<and> body' = ru_body r"
        by (auto simp: running_ok_def Let_def)
      from fetch_ok [OF c this(6,1,2,3,4,5,7)] show ?thesis by (simp only: r(3) 2(1))
    qed
  qed
qed

lemma start_ok:
  assumes "remote_ok config st" "rs_running st = None" "1 \<le> po_maxAttempts (rm_policy config)"
  shows "remote_ok config (start_mutation config react st)"
proof (cases "rs_waiting st")
  case Nil
  with assms(1) show ?thesis by (simp add: start_mutation_def)
next
  case (Cons m ms)
  let ?st = "st\<lparr>rs_waiting := ms\<rparr>"
  note c = waiting_current [OF assms(1,2) Cons]
  have ack: "\<not> sb_closed ?st \<longrightarrow> set (rs_acknowledged ?st) = confirmed (rs_wire ?st)" using assms(1) by (simp add: remote_ok_def)
  have none: "fetches (mu_number m) (rs_wire ?st) = 0" using assms(1,2) c by (simp add: remote_ok_def current_ok_def)
  then have unwaited: "waits (mu_number m) (rs_wire ?st) = 0" using waits_none [of config] c by (simp add: current_ok_def)
  show ?thesis
  proof (cases "sb_closed st")
    case True
    with failed_ok [OF c ack] Cons show ?thesis by (simp add: start_mutation_def)
  next
    case False
    have "remote_ok config (run_operation config react m ?st)"
    proof (cases "is_submit m \<and> submitted_id m \<in> set (rs_acknowledged st)")
      case True
      then have op: "run_operation config react m ?st = settle_mutation m (Inr (sb_snapshot ?st)) ?st"
        by (auto simp: run_operation_def is_submit_def submitted_id_def retries_transport_def split: mutation_kind.splits)
      show ?thesis
        unfolding op using True False ack by (intro settle_ok [OF c]) auto
    next
      case fresh: False
      let ?n = "Suc (rs_requestSequence st)"
      obtain url body where u: "mutation_request config (rm_requestId config ?n) (mu_kind m) = (url, body)" by (rule prod.exhaust)
      let ?st1 = "?st\<lparr>rs_requestSequence := ?n\<rparr>"
      have op: "run_operation config react m ?st = proceed_mutation config react m url body (Ongoing (AwaitResponse 1)) ?st1"
        using fresh u assms(3)
        by (auto simp: run_operation_def Let_def attempt_request_def is_submit_def submitted_id_def retries_transport_def
            split: mutation_kind.splits)
      have "Fetched m' url' body' \<notin> set (rs_wire st)" if "mu_number m' = mu_number m" for m' url' body'
        using none that by (auto simp: fetches_def filter_empty_conv)
      moreover have "current_ok config m ?st1" using c by (simp add: current_ok_def)
      ultimately show ?thesis
        unfolding op using fresh ack False none unwaited assms(3) by (intro fetch_ok) (auto simp: send_limit_def)
    qed
    with False Cons show ?thesis by (simp add: start_mutation_def)
  qed
qed

lemma submit_call_ok: "remote_ok config st \<Longrightarrow> remote_ok config (fst (remote_submit observation st))"
proof -
  assume ok: "remote_ok config st"
  let ?st = "enqueue_mutation (SubmitMutation observation) st"
  have "remote_ok config (?st\<lparr>rs_submissions := m\<rparr>)" for m
    using kept_ok [OF _ enqueue_ok [OF ok], of "SubmitMutation observation" "?st\<lparr>rs_submissions := m\<rparr>"] by simp
  with ok show ?thesis by (simp add: remote_submit_def Let_def split: option.split)
qed

lemma reset_call_ok: "remote_ok config st \<Longrightarrow> remote_ok config (fst (remote_reset location st))"
proof -
  assume ok: "remote_ok config st"
  have "remote_ok config (st\<lparr>rs_scheduledResets := a, rs_pendingResets := b\<rparr>)" for a b
    by (rule kept_ok [OF _ ok]) simp
  with ok show ?thesis by (simp add: remote_reset_def Let_def enqueue_ok)
qed

lemma remote_step_ok:
  assumes "remote_step config react st st'" "remote_ok config st" "1 \<le> po_maxAttempts (rm_policy config)"
  shows "remote_ok config st'"
  using assms(1)
proof cases
  case (socket_opened g)
  have "mutations_kept st st'" by (simp add: socket_opened open_listener_def)
  then show ?thesis by (rule kept_ok) (rule assms(2))
next
  case (socket_closed g code)
  have "mutations_kept st st'" by (simp add: socket_closed close_listener_def Let_def)
  then show ?thesis by (rule kept_ok) (rule assms(2))
next
  case reconnect_over
  have "mutations_kept st st'" by (simp add: reconnect_over reconnect_finally_def Let_def)
  then show ?thesis by (rule kept_ok) (rule assms(2))
qed (use assms(2,3) submit_call_ok reset_call_ok start_ok answer_ok kept_ok [OF notification_kept] kept_ok [OF finally_kept]
       kept_ok [OF message_kept] kept_ok [OF reconnect_kept] kept_ok [OF kept_frame.subscribe_frame] kept_ok [OF kept_frame.run_stop_frame]
       kept_ok [OF kept_frame.closes] remote_subscribe_def in metis)+

end
