(* ===== verification/Remote_Proofs.thy ===== *)
theory Remote_Proofs
  imports Remote_Wire
begin

text \<open>
  The properties of the remote session: its listeners are served in order, mutations are sent in order and
  not twice, every mutation is settled, reconnections and delays are bounded, and a closed session is
  silent.
\<close>

section \<open>Delays\<close>

lemma to_double_exact: "is_double x \<Longrightarrow> 0 < x \<Longrightarrow> to_double x = (if pow2 1024 \<le> x then PosInf else Fin x)"
proof -
  assume d: "is_double x" and pos: "0 < x"
  have "pow2 1024 \<le> x \<longleftrightarrow> 1024 \<le> exponent x"
    using exponent_bounds [of x] pos pow2_mono [of 1024 "exponent x"] pow2_less_cancel [of 1024 "exponent x + 1"]
    by auto
  with d pos show ?thesis by (simp add: to_double_def fl_double)
qed

text \<open>The delay doubles with every attempt up to its maximum; the arithmetic is exact, overflow included.\<close>

lemma retryDelay_eq:
  assumes "1 \<le> po_initialDelayMs policy" "po_initialDelayMs policy \<le> po_maxDelayMs policy" "po_maxDelayMs policy \<le> safe_limit"
    "1 \<le> k"
  shows "retryDelay policy k = Fin (of_int (min (po_maxDelayMs policy) (po_initialDelayMs policy * 2 ^ nat (k - 1))))"
proof -
  let ?i = "po_initialDelayMs policy" and ?m = "po_maxDelayMs policy" and ?p = "pow2 (k - 1)"
  have p: "?p = 2 ^ nat (k - 1)" "0 < ?p" using assms(4) by (simp_all add: pow2_def)
  have big: "of_int ?m < pow2 1024"
  proof -
    have "of_int ?m \<le> (of_int safe_limit :: rat)" using assms(3) by (simp only: of_int_le_iff)
    also have "\<dots> < pow2 1024" by (simp add: safe_limit_def pow2_def)
    finally show ?thesis .
  qed
  have i: "\<bar>?i\<bar> \<le> 2 ^ 53" using assms(1-3) by (simp add: safe_limit_def)
  have scaled: "is_double (of_int n * ?p)" if "\<bar>n\<bar> \<le> 2 ^ 53" for n
    unfolding is_double_def using that assms(4) by (intro exI [of _ n] exI [of _ "k - 1"]) simp
  from scaled [of 1] scaled [OF i] have d: "is_double ?p" "is_double (of_int ?i * ?p)" by simp_all
  have one: "?p \<le> of_int ?i * ?p" using assms(1) p(2) by simp
  have "0 < of_int ?i * ?p" using one p(2) by linarith
  note t = to_double_exact [OF d(1) p(2)] to_double_exact [OF d(2) this]
  have prod: "of_int ?i * ?p = of_int (?i * 2 ^ nat (k - 1))" by (simp add: p(1))
  show ?thesis
  proof (cases "pow2 1024 \<le> of_int ?i * ?p")
    case True
    then have "of_int ?m < (of_int (?i * 2 ^ nat (k - 1)) :: rat)" using big unfolding prod by linarith
    then have "min ?m (?i * 2 ^ nat (k - 1)) = ?m" by (simp only: of_int_less_iff min_def) simp
    moreover have "positive_times ?i (to_double ?p) = PosInf" using True by (simp add: t positive_times_def)
    ultimately show ?thesis by (simp add: retryDelay_def js_min_def)
  next
    case False
    with one have "\<not> pow2 1024 \<le> ?p" by linarith
    then have "positive_times ?i (to_double ?p) = Fin (of_int ?i * ?p)" using False by (simp add: t positive_times_def)
    also have "\<dots> = Fin (of_int (?i * 2 ^ nat (k - 1)))" by (simp only: prod)
    finally have "positive_times ?i (to_double ?p) = Fin (of_int (?i * 2 ^ nat (k - 1)))" .
    then show ?thesis by (simp add: retryDelay_def js_min_def min_def del: of_int_mult)
  qed
qed

lemma retryDelay_bounds:
  assumes "1 \<le> po_initialDelayMs policy" "po_initialDelayMs policy \<le> po_maxDelayMs policy" "1 \<le> k"
  shows "po_initialDelayMs policy \<le> min (po_maxDelayMs policy) (po_initialDelayMs policy * 2 ^ nat (k - 1))"
proof -
  have "po_initialDelayMs policy * 1 \<le> po_initialDelayMs policy * 2 ^ nat (k - 1)"
    using assms(1) by (intro mult_left_mono) simp_all
  with assms(2) show ?thesis by simp
qed

section \<open>The stream\<close>

text \<open>The reconnections in a row: the delays since a stream was last open.\<close>

fun count_failure :: "nat \<Rightarrow> stream_event \<Rightarrow> nat" where
  "count_failure n (ReconnectDelay d) = Suc n"
| "count_failure n (StreamOpened g) = 0"
| "count_failure n _ = n"

definition failures :: "stream_event list \<Rightarrow> nat" where
  "failures past = foldl count_failure 0 past"

fun is_stream_request :: "stream_event \<Rightarrow> bool" where
  "is_stream_request (StreamRequested url) = True"
| "is_stream_request _ = False"

fun is_reconnect_delay :: "stream_event \<Rightarrow> bool" where
  "is_reconnect_delay (ReconnectDelay d) = True"
| "is_reconnect_delay _ = False"

definition stream_requests :: "stream_event list \<Rightarrow> nat" where
  "stream_requests past = length (filter is_stream_request past)"

definition stream_delays :: "stream_event list \<Rightarrow> nat" where
  "stream_delays past = length (filter is_reconnect_delay past)"

lemma stream_log_snoc [simp]:
  "failures (past @ [e]) = count_failure (failures past) e"
  "stream_requests (past @ [e]) = stream_requests past + (if is_stream_request e then 1 else 0)"
  "stream_delays (past @ [e]) = stream_delays past + (if is_reconnect_delay e then 1 else 0)"
  by (simp_all add: failures_def stream_requests_def stream_delays_def)

lemma stream_log_Nil [simp]: "failures [] = 0" "stream_requests [] = 0" "stream_delays [] = 0"
  by (simp_all add: failures_def stream_requests_def stream_delays_def)

text \<open>What may follow what has been recorded: a delay while attempts are left, as long as their number in a
  row asks for; a request of a stream after the first one only with a delay of its own.\<close>

definition stream_event_ok :: "retry_policy \<Rightarrow> stream_event list \<Rightarrow> stream_event \<Rightarrow> bool" where
  "stream_event_ok policy past e = (case e of
       ReconnectDelay d \<Rightarrow> int (failures past) < po_maxAttempts policy \<and> d = retryDelay policy (int (failures past) + 1)
     | StreamRequested url \<Rightarrow> stream_requests past \<le> stream_delays past
     | _ \<Rightarrow> True)"

definition stream_log_ok :: "retry_policy \<Rightarrow> stream_event list \<Rightarrow> bool" where
  "stream_log_ok policy past \<longleftrightarrow> (\<forall>i < length past. stream_event_ok policy (take i past) (past ! i))"

lemma stream_log_ok_Nil [simp]: "stream_log_ok policy []"
  by (simp add: stream_log_ok_def)

lemma stream_log_ok_snoc [simp]:
  "stream_log_ok policy (past @ [e]) \<longleftrightarrow> stream_log_ok policy past \<and> stream_event_ok policy past e"
  by (auto simp: stream_log_ok_def nth_append less_Suc_eq)

lemma stream_log_ok_split: "stream_log_ok policy (pre @ e # post) \<Longrightarrow> stream_event_ok policy pre e"
  unfolding stream_log_ok_def by (elim allE [of _ "length pre"]) simp

text \<open>There is at most one socket, the counter of the session is the number of its reconnections in a row
  unless it has given up, what is recorded is in order, and a closed session holds nothing.\<close>

definition stream_ok :: "remote_config \<Rightarrow> remote_session \<Rightarrow> bool" where
  "stream_ok config st \<longleftrightarrow> rs_attached st = (case rs_socket st of None \<Rightarrow> [] | Some g \<Rightarrow> [g])
     \<and> rs_disposer st = rs_socket st \<and> rs_socket st \<in> {None, Some (rs_generation st)}
     \<and> int (failures (rs_streams st)) \<le> rs_reconnectAttempts st \<and> rs_reconnectAttempts st \<le> po_maxAttempts (rm_policy config)
     \<and> (rs_reconnectAttempts st < po_maxAttempts (rm_policy config) \<longrightarrow> rs_reconnectAttempts st = int (failures (rs_streams st)))
     \<and> stream_requests (rs_streams st) + (if rs_task st = Some Delaying then 1 else 0) \<le> 1 + stream_delays (rs_streams st)
     \<and> (\<not> sb_closed st \<longrightarrow> rs_reconnectTask st = (rs_task st \<noteq> None))
     \<and> (sb_closed st \<longrightarrow> rs_socket st = None \<and> \<not> rs_reconnectTask st \<and> rs_queue st = [] \<and> rs_acknowledged st = [] \<and> rs_submissions st = [])
     \<and> stream_log_ok (rm_policy config) (rs_streams st)"

lemma close_stream_ok: "stream_ok config st \<Longrightarrow> stream_ok config (remote_close st)"
  by (auto simp: stream_ok_def remote_close_def close_base_def dispose_socket_def Let_def stream_event_ok_def split: option.splits)

lemma stream_ok_base [simp]:
  "stream_ok config (st\<lparr>sb_calls := c\<rparr>) = stream_ok config st" "stream_ok config (st\<lparr>sb_listeners := ls\<rparr>) = stream_ok config st"
  "stream_ok config (st\<lparr>sb_stops := hs\<rparr>) = stream_ok config st" "stream_ok config (st\<lparr>sb_snapshot := v\<rparr>) = stream_ok config st"
  by (simp_all add: stream_ok_def)

interpretation stream_frame: listener_frame "\<lambda>st st'. stream_ok config st \<longrightarrow> stream_ok config st'" remote_close for config
  by unfold_locales (simp_all add: close_stream_ok)

lemma stream_ok_updates [simp]:
  "stream_ok config (st\<lparr>rs_scheduledResets := a\<rparr>) = stream_ok config st" "stream_ok config (st\<lparr>rs_pendingResets := b\<rparr>) = stream_ok config st"
  "stream_ok config (st\<lparr>rs_requestSequence := c\<rparr>) = stream_ok config st" "stream_ok config (st\<lparr>rs_mutations := d\<rparr>) = stream_ok config st"
  "stream_ok config (st\<lparr>rs_waiting := e\<rparr>) = stream_ok config st" "stream_ok config (st\<lparr>rs_running := f\<rparr>) = stream_ok config st"
  "stream_ok config (st\<lparr>rs_finals := g\<rparr>) = stream_ok config st" "stream_ok config (st\<lparr>rs_wire := h\<rparr>) = stream_ok config st"
  by (simp_all add: stream_ok_def)

lemma schedule_stream_ok:
  assumes "stream_ok config st"
  shows "stream_ok config (schedule_reconnect config st)"
  using assms by (auto simp: stream_ok_def schedule_reconnect_def Let_def stream_event_ok_def)

lemma open_stream_ok:
  assumes "stream_ok config st" "rs_socket st = None" "open_socket config refused st = (st', r)"
    "stream_requests (rs_streams st) \<le> stream_delays (rs_streams st)" "rs_task st \<noteq> Some Delaying"
  shows "stream_ok config st'"
proof (cases "sb_closed st")
  case True
  with assms(1,3) show ?thesis by (simp add: open_socket_def)
next
  case False
  let ?log = "rs_streams st @ [StreamRequested (stream_url (rm_baseUrl config) (rm_encodedId config) (nat (js_revision (sb_snapshot st))))]"
  have "stream_log_ok (rm_policy config) ?log" using assms(1,4) by (simp add: stream_ok_def stream_event_ok_def)
  with assms(1,2,4,5) False have "stream_ok config (st\<lparr>rs_streams := ?log\<rparr>)" by (simp add: stream_ok_def)
  with assms(2,3) False show ?thesis
    by (cases refused) (simp_all add: open_socket_def Let_def, auto simp: stream_ok_def)
qed

lemma notify_stream_ok: "stream_ok config st \<Longrightarrow> stream_ok config (remote_notify react nxt st)"
  using stream_frame.accept_frame by (auto simp: remote_notify_def)

lemma notification_stream_ok:
  assumes "stream_ok config st"
  shows "stream_ok config (run_notification react st)"
proof (cases "rs_queue st")
  case (Cons nxt queue)
  have "stream_ok config (st\<lparr>rs_queue := queue\<rparr>)" using assms Cons by (auto simp: stream_ok_def)
  with notify_stream_ok [OF this] show ?thesis by (simp add: run_notification_def Cons Let_def)
qed (use assms in \<open>simp add: run_notification_def\<close>)

lemma acknowledge_stream_ok: "stream_ok config st \<Longrightarrow> stream_ok config (acknowledge_mutation kind st)"
  by (auto simp: stream_ok_def acknowledge_mutation_def split: mutation_kind.split)

lemma proceed_stream_ok:
  assumes "stream_ok config st"
  shows "stream_ok config (proceed_mutation config react m url body outcome st)"
  using assms notify_stream_ok acknowledge_stream_ok
  by (auto simp: proceed_mutation_def complete_mutation_def settle_mutation_def Let_def split: request_outcome.split sum.split)

lemma operation_stream_ok:
  assumes "stream_ok config st"
  shows "stream_ok config (run_operation config react m st)"
  using assms proceed_stream_ok [of config "st\<lparr>rs_requestSequence := Suc (rs_requestSequence st)\<rparr>"]
  by (auto simp: run_operation_def settle_mutation_def Let_def split: prod.split)

lemma start_stream_ok:
  assumes "stream_ok config st"
  shows "stream_ok config (start_mutation config react st)"
  using assms operation_stream_ok
  by (auto simp: start_mutation_def settle_mutation_def Let_def split: list.split)

lemma enqueue_stream_ok: "stream_ok config st \<Longrightarrow> \<not> sb_closed st \<Longrightarrow> stream_ok config (remote_enqueue nxt st)"
  by (auto simp: remote_enqueue_def stream_ok_def)

lemma message_stream_ok: "stream_ok config st \<Longrightarrow> stream_ok config (message_listener config g event st)"
  by (auto simp: message_listener_def enqueue_stream_ok split: option.split)

lemma close_listener_stream_ok:
  assumes "stream_ok config st" "g \<in> set (rs_attached st)"
  shows "stream_ok config (close_listener config g code st)"
proof -
  from assms have s: "rs_socket st = Some g" "g = rs_generation st" by (auto simp: stream_ok_def split: option.splits)
  let ?st = "(dispose_socket g st)\<lparr>rs_socket := None\<rparr>"
  have "stream_ok config ?st" using assms(1) s by (auto simp: stream_ok_def dispose_socket_def)
  with schedule_stream_ok [OF this] assms(1) show ?thesis by (simp add: close_listener_def Let_def flip: s(2))
qed

lemma reconnect_attempt_stream_ok:
  assumes "stream_ok config st" "rs_task st = Some Delaying" "1 \<le> po_maxAttempts (rm_policy config)"
  shows "stream_ok config (reconnect_attempt config delayed refused st)"
proof -
  let ?st = "st\<lparr>rs_task := Some Finishing\<rparr>"
  have ok: "stream_ok config ?st" using assms(1,2) by (auto simp: stream_ok_def)
  have due: "stream_requests (rs_streams ?st) \<le> stream_delays (rs_streams ?st)" "rs_task ?st \<noteq> Some Delaying"
    using assms(1,2) by (auto simp: stream_ok_def)
  have exhausted: "stream_ok config (s\<lparr>rs_reconnectAttempts := po_maxAttempts (rm_policy config)\<rparr>)" if "stream_ok config s" for s
    using that assms(3) by (auto simp: stream_ok_def)
  from ok exhausted open_stream_ok [OF ok _ _ due] show ?thesis
    by (auto simp: reconnect_attempt_def Let_def split: option.split prod.split)
qed

lemma reconnect_finally_stream_ok: "stream_ok config st \<Longrightarrow> stream_ok config (reconnect_finally config st)"
proof -
  assume "stream_ok config st"
  then have "stream_ok config (st\<lparr>rs_task := None, rs_reconnectTask := False\<rparr>)" by (auto simp: stream_ok_def)
  with schedule_stream_ok [OF this] show ?thesis by (simp add: reconnect_finally_def Let_def)
qed

lemma submit_stream_ok: "stream_ok config st \<Longrightarrow> stream_ok config (fst (remote_submit observation st))"
  by (auto simp: remote_submit_def enqueue_mutation_def Let_def split: option.split) (auto simp: stream_ok_def)

lemma finally_stream_ok: "stream_ok config st \<Longrightarrow> stream_ok config (mutation_finally m st)"
  by (auto simp: mutation_finally_def Let_def split: option.split mutation_kind.split)
    (auto simp: stream_ok_def js_map_delete_def)

lemma remote_step_stream_ok:
  assumes "remote_step config react st st'" "stream_ok config st" "1 \<le> po_maxAttempts (rm_policy config)"
  shows "stream_ok config st'"
  using assms(1)
proof cases
  case (reset_called location)
  then show ?thesis using assms(2) by (simp add: remote_reset_def enqueue_mutation_def Let_def)
next
  case (request_answered answer)
  then show ?thesis using proceed_stream_ok [OF assms(2)] by (auto simp: answer_request_def split: option.splits)
next
  case (socket_opened g)
  then show ?thesis using assms(2,3) by (auto simp: open_listener_def stream_ok_def stream_event_ok_def)
next
  case (subscribe_called l)
  then show ?thesis using stream_frame.subscribe_frame assms(2) by (auto simp: remote_subscribe_def)
next
  case (stop_called h)
  then show ?thesis using stream_frame.run_stop_frame assms(2) by blast
next
  case (message_came g event)
  then show ?thesis using message_stream_ok [OF assms(2)] by simp
next
  case (socket_closed g code)
  then show ?thesis using close_listener_stream_ok [OF assms(2)] by simp
next
  case (delay_over delayed refused)
  then show ?thesis using reconnect_attempt_stream_ok [OF assms(2) _ assms(3)] by simp
qed (use assms(2) submit_stream_ok close_stream_ok start_stream_ok finally_stream_ok notification_stream_ok
       reconnect_finally_stream_ok in simp_all)

section \<open>Progress\<close>

text \<open>The steps that serve the mutations: the next one starts, or the transport answers the running one.\<close>

inductive serves :: "remote_config \<Rightarrow> js listeners \<Rightarrow> remote_session \<Rightarrow> remote_session \<Rightarrow> bool" for config react where
  serve_start: "rs_running st = None \<Longrightarrow> rs_waiting st \<noteq> [] \<Longrightarrow> serves config react st (start_mutation config react st)"
| serve_answer: "answer_request config react answer st = Some st' \<Longrightarrow> serves config react st st'"

lemma serves_step: "serves config react st st' \<Longrightarrow> remote_step config react st st'"
  by (induction rule: serves.induct) (auto intro: remote_step.intros)

text \<open>The answers a wait can get.\<close>

fun fits :: "request_state \<Rightarrow> request_answer \<Rightarrow> bool" where
  "fits (AwaitResponse k) (FetchThrew t) = True"
| "fits (AwaitResponse k) BodyThrew = True"
| "fits (AwaitResponse k) (Replied ok payload) = True"
| "fits (AwaitSleep k) Slept = True"
| "fits (AwaitSleep k) (SleepThrew t) = True"
| "fits _ _ = False"

lemma fits_answered: "rs_running st = Some r \<Longrightarrow> fits (ru_request r) answer \<longleftrightarrow> answer_request config react answer st \<noteq> None"
  by (cases "(ru_request r, answer)" rule: fits.cases) (auto simp: answer_request_def Let_def)

text \<open>How many steps the mutations can still take.\<close>

definition request_weight :: "int \<Rightarrow> request_state \<Rightarrow> int" where
  "request_weight limit request = (case request of AwaitResponse k \<Rightarrow> 2 * (limit - k) + 1 | AwaitSleep k \<Rightarrow> 2 * (limit - k))"

definition mutation_weight :: "remote_config \<Rightarrow> remote_session \<Rightarrow> int" where
  "mutation_weight config st = 2 * po_maxAttempts (rm_policy config) * int (length (rs_waiting st))
     + (case rs_running st of None \<Rightarrow> 0 | Some r \<Rightarrow> request_weight (po_maxAttempts (rm_policy config)) (ru_request r))"

definition unsettled :: "remote_session \<Rightarrow> nat" where
  "unsettled st = rs_mutations st - completions (rs_wire st)"

lemma unsettled_list:
  "remote_ok config st \<Longrightarrow> unsettled st = length (rs_waiting st) + (case rs_running st of None \<Rightarrow> 0 | Some _ \<Rightarrow> 1)"
  by (auto simp: unsettled_def remote_ok_def dest!: arg_cong [of _ _ length] split: option.splits)

lemma running_limit:
  assumes "remote_ok config st" "rs_running st = Some r" "1 \<le> po_maxAttempts (rm_policy config)"
  shows "case ru_request r of AwaitResponse k \<Rightarrow> 1 \<le> k \<and> k \<le> po_maxAttempts (rm_policy config)
    | AwaitSleep k \<Rightarrow> 1 \<le> k \<and> k < po_maxAttempts (rm_policy config)"
  using assms by (auto simp: remote_ok_def running_ok_def Let_def send_limit_def split: request_state.splits if_splits)

lemma weight_bounds:
  assumes "remote_ok config st" "1 \<le> po_maxAttempts (rm_policy config)"
  shows "0 \<le> mutation_weight config st" "mutation_weight config st \<le> 2 * po_maxAttempts (rm_policy config) * int (unsettled st)"
  using assms(2) running_limit [OF assms(1) _ assms(2)] unsettled_list [OF assms(1)]
  by (auto simp: mutation_weight_def request_weight_def distrib_left split: option.splits request_state.splits)

lemma settled_weight:
  "mutation_weight config (settle_mutation m result st) = 2 * po_maxAttempts (rm_policy config) * int (length (rs_waiting st))"
  by (simp add: mutation_weight_def settle_mutation_def)

lemma complete_slot: "rs_running (complete_mutation react m snap st) = None \<and> rs_waiting (complete_mutation react m snap st) = rs_waiting st
    \<and> rs_mutations (complete_mutation react m snap st) = rs_mutations st"
proof -
  have "mutations_kept (acknowledge_mutation (mu_kind m) st) (remote_notify react snap (acknowledge_mutation (mu_kind m) st))"
    by (rule notify_kept)
  then show ?thesis
    by (auto simp: complete_mutation_def settle_mutation_def Let_def mutations_kept_def acknowledge_mutation_def split: mutation_kind.splits)
qed

lemma proceed_slot: "rs_waiting (proceed_mutation config react m url body outcome st) = rs_waiting st
    \<and> rs_mutations (proceed_mutation config react m url body outcome st) = rs_mutations st
    \<and> map_option ru_request (rs_running (proceed_mutation config react m url body outcome st))
       = (case outcome of Ongoing request \<Rightarrow> Some request | Settled _ \<Rightarrow> None)"
  using complete_slot [of react m _ st]
  by (auto simp: proceed_mutation_def settle_mutation_def split: request_outcome.split sum.split)

lemma proceed_weight: "mutation_weight config (proceed_mutation config react m url body outcome st)
    = 2 * po_maxAttempts (rm_policy config) * int (length (rs_waiting st))
      + (case outcome of Ongoing request \<Rightarrow> request_weight (po_maxAttempts (rm_policy config)) request | Settled _ \<Rightarrow> 0)"
  using proceed_slot [of config react m url body outcome st]
  by (auto simp: mutation_weight_def split: option.splits request_outcome.splits)

lemma answer_weight:
  assumes "remote_ok config st" "1 \<le> po_maxAttempts (rm_policy config)" "answer_request config react answer st = Some st'"
  shows "mutation_weight config st' < mutation_weight config st"
proof -
  let ?max = "po_maxAttempts (rm_policy config)"
  from assms(3) obtain r outcome where r: "rs_running st = Some r"
      "request_step (rm_policy config) (rm_ajv config) (rm_sessionId config) (retries_transport (mu_kind (ru_mutation r)))
         (sb_closed st) (ru_request r) answer = Some outcome"
      "st' = proceed_mutation config react (ru_mutation r) (ru_url r) (ru_body r) outcome st"
    by (auto simp: answer_request_def split: option.splits)
  note limit = running_limit [OF assms(1) r(1) assms(2)]
  have "(case outcome of Ongoing request \<Rightarrow> request_weight ?max request | Settled _ \<Rightarrow> 0) < request_weight ?max (ru_request r)"
  proof (cases "ru_request r")
    case (AwaitResponse k)
    with limit request_step_response r(2) show ?thesis by (fastforce simp: request_weight_def)
  next
    case (AwaitSleep k)
    with limit request_step_sleep r(2) show ?thesis by (fastforce simp: request_weight_def)
  qed
  then show ?thesis by (simp add: r(1,3) proceed_weight) (simp add: mutation_weight_def r(1))
qed

lemma operation_weight:
  assumes "1 \<le> po_maxAttempts (rm_policy config)"
  shows "mutation_weight config (run_operation config react m st)
     < 2 * po_maxAttempts (rm_policy config) * (int (length (rs_waiting st)) + 1)"
  using assms
  by (auto simp: run_operation_def Let_def proceed_weight attempt_request_def request_weight_def distrib_left settled_weight
      split: prod.split)

lemma start_weight:
  assumes "1 \<le> po_maxAttempts (rm_policy config)" "rs_running st = None" "rs_waiting st \<noteq> []"
  shows "mutation_weight config (start_mutation config react st) < mutation_weight config st"
proof -
  from assms(3) obtain m ms where w: "rs_waiting st = m # ms" by (cases "rs_waiting st") auto
  have "mutation_weight config (start_mutation config react st) < 2 * po_maxAttempts (rm_policy config) * (int (length ms) + 1)"
    using operation_weight [OF assms(1), of react m "st\<lparr>rs_waiting := ms\<rparr>"] assms(1)
    by (simp add: start_mutation_def w Let_def settled_weight distrib_left)
  then show ?thesis by (simp add: mutation_weight_def assms(2) w distrib_left)
qed

lemma serves_weight:
  assumes "serves config react st st'" "remote_ok config st" "1 \<le> po_maxAttempts (rm_policy config)"
  shows "mutation_weight config st' < mutation_weight config st"
  using assms by (cases rule: serves.cases) (auto intro: start_weight answer_weight)

lemma serves_mutations: "serves config react st st' \<Longrightarrow> rs_mutations st' = rs_mutations st"
proof (induction rule: serves.induct)
  case (serve_start st)
  then show ?case
    by (auto simp: start_mutation_def run_operation_def settle_mutation_def Let_def proceed_slot split: list.split prod.split)
next
  case (serve_answer answer st st')
  then show ?case by (auto simp: answer_request_def proceed_slot split: option.splits)
qed

text \<open>Any other step adds at most the mutation it was called for.\<close>

lemma kept_weight: "mutations_kept st st' \<Longrightarrow> mutation_weight config st' = mutation_weight config st \<and> rs_mutations st' = rs_mutations st"
  by (simp add: mutation_weight_def mutations_kept_def)

lemma enqueue_weight: "mutation_weight config (enqueue_mutation kind st) = mutation_weight config st + 2 * po_maxAttempts (rm_policy config)
    \<and> rs_mutations (enqueue_mutation kind st) = Suc (rs_mutations st)"
  by (simp add: mutation_weight_def enqueue_mutation_def distrib_left)

lemma step_kinds:
  assumes "remote_step config react st st'"
  shows "mutations_kept st st' \<or> serves config react st st' \<or> (\<exists>kind. mutations_kept (enqueue_mutation kind st) st')"
  using assms
proof cases
  case (submit_called observation)
  then have "st' = st \<or> mutations_kept (enqueue_mutation (SubmitMutation observation) st) st'"
    by (auto simp: remote_submit_def Let_def split: option.split)
  then show ?thesis by auto
next
  case (reset_called location)
  then have "st' = st \<or> mutations_kept (enqueue_mutation (ResetMutation location) st) st'"
    by (simp add: remote_reset_def Let_def) (simp add: mutations_kept_def enqueue_mutation_def)
  then show ?thesis by auto
next
  case (socket_opened g)
  then show ?thesis by (simp add: open_listener_def)
next
  case (socket_closed g code)
  then show ?thesis by (simp add: close_listener_def Let_def)
next
  case reconnect_over
  then show ?thesis by (simp add: reconnect_finally_def Let_def)
qed (use notification_kept finally_kept message_kept reconnect_kept kept_frame.subscribe_frame kept_frame.run_stop_frame
       kept_frame.closes remote_subscribe_def serves.intros in auto)

lemma step_weight:
  assumes "remote_step config react st st'" "remote_ok config st" "1 \<le> po_maxAttempts (rm_policy config)"
  shows "mutation_weight config st' \<le> mutation_weight config st + 2 * po_maxAttempts (rm_policy config) * (int (rs_mutations st') - int (rs_mutations st))"
proof -
  from step_kinds [OF assms(1)] consider "mutations_kept st st'" | "serves config react st st'"
    | kind where "mutations_kept (enqueue_mutation kind st) st'" by blast
  then show ?thesis
  proof cases
    case 1
    then show ?thesis using kept_weight [OF 1, of config] by simp
  next
    case 2
    then show ?thesis using serves_weight [OF 2 assms(2,3)] serves_mutations by fastforce
  next
    case 3
    then show ?thesis using kept_weight [OF 3, of config] enqueue_weight [of config kind st] by simp
  qed
qed

text \<open>Runs that count the serving steps.\<close>

inductive serving :: "remote_config \<Rightarrow> js listeners \<Rightarrow> nat \<Rightarrow> remote_session \<Rightarrow> remote_session \<Rightarrow> bool" for config react where
  serving_none: "serving config react 0 st st"
| serving_served: "serving config react n st st1 \<Longrightarrow> serves config react st1 st2 \<Longrightarrow> serving config react (Suc n) st st2"
| serving_other: "serving config react n st st1 \<Longrightarrow> remote_step config react st1 st2 \<Longrightarrow> serving config react n st st2"

lemma serving_weight:
  assumes "serving config react n st st'" "remote_ok config st" "1 \<le> po_maxAttempts (rm_policy config)"
  shows "remote_ok config st' \<and> int n + mutation_weight config st'
     \<le> mutation_weight config st + 2 * po_maxAttempts (rm_policy config) * (int (rs_mutations st') - int (rs_mutations st))"
  using assms
proof (induction rule: serving.induct)
  case (serving_served n st st1 st2)
  then have "remote_ok config st1" by blast
  with serving_served serves_weight [OF serving_served.hyps(2)] serves_mutations [OF serving_served.hyps(2)]
    remote_step_ok [OF serves_step [OF serving_served.hyps(2)]]
  show ?case by force
next
  case (serving_other n st st1 st2)
  then have "remote_ok config st1" by blast
  with serving_other step_weight [OF serving_other.hyps(2)] remote_step_ok [OF serving_other.hyps(2)]
  show ?case by (force simp: right_diff_distrib)
qed simp

end
