(* ===== verification/Remote_Properties.thy ===== *)
theory Remote_Properties
  imports Remote_Proofs
begin

text \<open>
  The properties of the remote session, on every run of a session that \<open>createRemoteSession\<close> made.
\<close>

section \<open>Runs of a session\<close>

lemma created_start:
  assumes "createRemoteSession ajv parse baseUrl sessionId retry ids answers refused = Some (Inr (config, st))"
  shows "retryPolicy retry = Inr (rm_policy config) \<and> 1 \<le> po_maxAttempts (rm_policy config)
    \<and> remote_ok config st \<and> stream_ok config st \<and> (\<exists>snap. view st = (snap, False, [], []))"
proof -
  from assms obtain initial where c: "configure_remote ajv parse baseUrl sessionId retry ids = Inr config"
      "open_remote config refused initial = Inr (config, st)" by (rule created_remote)
  have policy: "retryPolicy retry = Inr (rm_policy config)" using configured [OF c(1)] by blast
  then have limit: "1 \<le> po_maxAttempts (rm_policy config)" using policy_positive by blast
  have start: "remote_ok config (remote_start snap)" "stream_ok config (remote_start snap)" for snap
    using limit by (simp_all add: remote_ok_def stream_ok_def remote_start_def)
  have "remote_ok config st \<and> stream_ok config st"
    using c(2)
  proof (rule opened_remote)
    fix snap assume "open_socket config refused (remote_start snap) = (st, None)"
    with kept_open_socket [OF this, of "remote_start snap"] open_stream_ok [OF start(2) _ this]
    show ?thesis using kept_ok [OF _ start(1)] by (simp add: remote_start_def)
  next
    fix snap st1 t assume o: "open_socket config refused (remote_start snap) = (st1, Some t)" "st = schedule_reconnect config st1"
    from kept_open_socket [OF o(1), of "remote_start snap"] have "mutations_kept (remote_start snap) st" by (simp add: o(2))
    moreover have "stream_ok config st1" using open_stream_ok [OF start(2) _ o(1)] by (simp add: remote_start_def)
    ultimately show ?thesis using kept_ok [OF _ start(1)] schedule_stream_ok o(2) by blast
  qed
  with policy limit opened_view [OF c(2)] show ?thesis by blast
qed

lemma runs_ok:
  assumes "(remote_step config react)\<^sup>*\<^sup>* st st'" "remote_ok config st \<and> stream_ok config st" "1 \<le> po_maxAttempts (rm_policy config)"
  shows "remote_ok config st' \<and> stream_ok config st'"
  using assms by (induction rule: rtranclp_induct) (auto intro: remote_step_ok remote_step_stream_ok)

text \<open>A session that was created and has run.\<close>

inductive remote_run :: "remote_config \<Rightarrow> js listeners \<Rightarrow> remote_session \<Rightarrow> bool" for config react where
  created: "createRemoteSession ajv parse baseUrl sessionId retry ids answers refused = Some (Inr (config, st)) \<Longrightarrow> remote_run config react st"
| continued: "remote_run config react st \<Longrightarrow> remote_step config react st st' \<Longrightarrow> remote_run config react st'"

lemma run_facts:
  assumes "remote_run config react st"
  shows "1 \<le> po_maxAttempts (rm_policy config) \<and> remote_ok config st \<and> stream_ok config st \<and> base_ok st
    \<and> (\<exists>options. retryPolicy options = Inr (rm_policy config))
    \<and> (\<exists>st0. (remote_step config react)\<^sup>*\<^sup>* st0 st \<and> base_ok st0 \<and> sb_calls st0 = [] \<and> sb_listeners st0 = [])"
  using assms
proof (induction rule: remote_run.induct)
  case (created ajv parse baseUrl sessionId retry ids answers refused st)
  from created_start [OF this] obtain snap where c: "retryPolicy retry = Inr (rm_policy config)" "1 \<le> po_maxAttempts (rm_policy config)"
    "remote_ok config st" "stream_ok config st" "view st = (snap, False, [], [])" by blast
  then have "base_ok st" "sb_calls st = []" "sb_listeners st = []" by (simp_all add: base_ok_iff view_ok_def) (simp_all add: view_def)
  with c show ?case by blast
next
  case (continued st st')
  then show ?case using remote_step_ok remote_step_stream_ok remote_contract.valid_step
    by (meson rtranclp.rtrancl_into_rtrancl)
qed

section \<open>Silence\<close>

fun is_fetch :: "wire_event \<Rightarrow> bool" where
  "is_fetch (Fetched m url body) = True"
| "is_fetch _ = False"

lemma notify_closed: "sb_closed st \<Longrightarrow> remote_notify react nxt st = st"
  by (simp add: remote_notify_def)

lemma acknowledge_closed [simp]: "sb_closed (acknowledge_mutation kind st) = sb_closed st"
    "rs_streams (acknowledge_mutation kind st) = rs_streams st" "rs_wire (acknowledge_mutation kind st) = rs_wire st"
  by (simp_all add: acknowledge_mutation_def split: mutation_kind.split)

lemma proceed_closed:
  assumes "sb_closed st" "\<And>k. outcome \<noteq> Ongoing (AwaitResponse k)"
  shows "rs_streams (proceed_mutation config react m url body outcome st) = rs_streams st
    \<and> filter is_fetch (rs_wire (proceed_mutation config react m url body outcome st)) = filter is_fetch (rs_wire st)"
  using assms
  by (auto simp: proceed_mutation_def complete_mutation_def settle_mutation_def notify_closed Let_def
      split: request_outcome.split sum.split request_state.split)

lemma serves_closed:
  assumes "serves config react st st'" "sb_closed st"
  shows "rs_streams st' = rs_streams st \<and> filter is_fetch (rs_wire st') = filter is_fetch (rs_wire st)"
  using assms
proof cases
  case serve_start
  with assms(2) show ?thesis by (auto simp: start_mutation_def settle_mutation_def Let_def split: list.split)
next
  case (serve_answer answer)
  then obtain r where "rs_running st = Some r" by (auto simp: answer_request_def split: option.splits)
  with serve_answer assms(2) obtain outcome where r:
      "request_step (rm_policy config) (rm_ajv config) (rm_sessionId config) (retries_transport (mu_kind (ru_mutation r)))
         True (ru_request r) answer = Some outcome"
      "st' = proceed_mutation config react (ru_mutation r) (ru_url r) (ru_body r) outcome st"
    by (auto simp: answer_request_def)
  have "outcome \<noteq> Ongoing (AwaitResponse k)" for k
    using r(1) by (cases "ru_request r") (auto dest!: request_step_response request_step_sleep)
  from proceed_closed [OF assms(2) this] show ?thesis by (simp add: r(2))
qed

lemma run_stop_streams [simp]: "rs_streams (run_stop st h) = rs_streams st"
  by (simp add: run_stop_def drop_listener_def)

lemma finally_streams [simp]: "rs_streams (mutation_finally m st) = rs_streams st"
  by (simp add: mutation_finally_def Let_def split: option.split mutation_kind.split)

lemma schedule_closed: "sb_closed st \<Longrightarrow> schedule_reconnect config st = st"
  by (simp add: schedule_reconnect_def)

lemma dispose_streams [simp]: "rs_streams (dispose_socket g st) = rs_streams st" "sb_closed (dispose_socket g st) = sb_closed st"
  by (simp_all add: dispose_socket_def)

lemma step_streams_closed:
  assumes "remote_step config react st st'" "sb_closed st"
  shows "rs_streams st' = rs_streams st"
  using assms(1)
proof cases
  case mutation_started
  with assms(2) serves_closed [OF serve_start] show ?thesis by blast
next
  case (request_answered answer)
  with assms(2) serves_closed [OF serve_answer] show ?thesis by blast
next
  case (notification_ran)
  with assms(2) show ?thesis by (auto simp: run_notification_def Let_def split: list.split)
qed (use assms(2) in \<open>simp_all add: remote_submit_def remote_reset_def remote_subscribe_def subscribe_base_def remote_close_def
        open_listener_def message_listener_def close_listener_def reconnect_attempt_def reconnect_finally_def Let_def\<close>)

lemma step_fetches_closed:
  assumes "remote_step config react st st'" "sb_closed st"
  shows "filter is_fetch (rs_wire st') = filter is_fetch (rs_wire st)"
  using step_kinds [OF assms(1)] serves_closed [OF _ assms(2)]
  by (auto simp: mutations_kept_def enqueue_mutation_def)

lemma runs_closed:
  assumes "(remote_step config react)\<^sup>*\<^sup>* st st'" "base_ok st" "sb_closed st"
  shows "rs_streams st' = rs_streams st \<and> filter is_fetch (rs_wire st') = filter is_fetch (rs_wire st)"
  using assms(1)
proof (induction rule: rtranclp_induct)
  case (step t u)
  have "sb_closed t" using remote_contract.silent_runs [OF step.hyps(1) assms(2,3)] by blast
  with step step_streams_closed step_fetches_closed show ?case by metis
qed simp

section \<open>A session\<close>

definition sample_reply :: js where
  "sample_reply = JObj [(''type'', js_string ''snapshot.updated''), (''sessionId'', js_string ''s''),
     (''snapshot'', JObj [(''revision'', js_int 3)])]"

definition sample_created :: "(create_error + remote_config \<times> remote_session) option" where
  "sample_created = createRemoteSession (\<lambda>_ _. []) (\<lambda>_. None) (lit ''https://h/'') (lit ''s'') (JObj []) None
     [FetchThrew OtherError, Slept, Replied True sample_reply] None"

text \<open>It was created after one failed fetch; then an observation is submitted and its request sent.\<close>

definition quiet_listeners :: "js listeners" where
  "quiet_listeners l v = \<lparr>re_stops = [], re_closes = False, re_throws = False\<rparr>"

definition sample_submitted :: js where
  "sample_submitted = JObj [(''observationId'', js_string ''o'')]"

definition sample_sent :: "remote_config \<Rightarrow> remote_session \<Rightarrow> remote_session" where
  "sample_sent config st = start_mutation config quiet_listeners (fst (remote_submit sample_submitted st))"

fun sent_submission :: "wire_event list \<Rightarrow> bool" where
  "sent_submission [Fetched m url body] = is_submit m"
| "sent_submission _ = False"

lemma sent_submission_iff: "sent_submission wire \<longleftrightarrow> (\<exists>m url body. wire = [Fetched m url body] \<and> is_submit m)"
  by (cases wire rule: sent_submission.cases) auto

lemma sample_created_Inr:
  obtains config st m url body where "sample_created = Some (Inr (config, st))" "rs_running st = None" "rs_waiting st = []"
    "\<not> sb_closed st" "rs_wire (sample_sent config st) = [Fetched m url body]" "is_submit m"
proof -
  have "case sample_created of
      Some (Inr (config, st)) \<Rightarrow> rs_running st = None \<and> rs_waiting st = [] \<and> \<not> sb_closed st
        \<and> sent_submission (rs_wire (sample_sent config st))
    | _ \<Rightarrow> False" by code_simp
  with that show ?thesis by (auto simp: sent_submission_iff split: option.splits sum.splits)
qed

lemma sample_run:
  obtains config st m url body where "remote_run config quiet_listeners st" "remote_run config quiet_listeners (sample_sent config st)"
    "\<not> sb_closed st" "rs_wire (sample_sent config st) = [Fetched m url body]" "is_submit m"
proof -
  obtain config st m url body where s: "sample_created = Some (Inr (config, st))" "rs_running st = None" "rs_waiting st = []"
    "\<not> sb_closed st" "rs_wire (sample_sent config st) = [Fetched m url body]" "is_submit m" by (rule sample_created_Inr)
  have one: "remote_run config quiet_listeners st" by (rule remote_run.created [OF s(1) [unfolded sample_created_def]])
  let ?st = "fst (remote_submit sample_submitted st)"
  have "remote_run config quiet_listeners ?st" by (rule remote_run.continued [OF one submit_called])
  moreover have "rs_running ?st = None \<and> (rs_waiting ?st \<noteq> [] \<or> ?st = st)"
    using s(2,3) by (auto simp: remote_submit_def enqueue_mutation_def Let_def split: option.split)
  moreover have "start_mutation config quiet_listeners st = st" by (simp add: start_mutation_def s(3))
  ultimately have "remote_run config quiet_listeners (sample_sent config st)"
    unfolding sample_sent_def using one remote_run.continued [OF _ mutation_started, of config quiet_listeners ?st] by auto
  with one s that show ?thesis by blast
qed

section \<open>Properties\<close>

text \<open>C32: whatever a consumer, the server and the network do, the listeners of a remote session are served in
  order: each is called with revisions that never decrease and never pass the present one, and each
  that listens has been given the present one.\<close>

theorem remote_session_serves_in_order:
  assumes "remote_run config react st"
  shows "let seen = map (\<lambda>c. js_revision (snd c)) (filter (\<lambda>c. fst c = l) (sb_calls st)) in
    sorted seen \<and> (\<forall>r \<in> set seen. r \<le> js_revision (sb_snapshot st))
    \<and> (l \<in> set (sb_listeners st) \<longrightarrow> js_revision (sb_snapshot st) \<in> set seen)"
proof -
  from run_facts [OF assms] obtain st0 where "(remote_step config react)\<^sup>*\<^sup>* st0 st" "base_ok st0" "sb_calls st0 = []"
    "set (sb_listeners st0) = {}" by auto
  from remote_contract.revisions_in_order [OF this, of l, unfolded remote_contract.revisions_def] show ?thesis by (simp add: Let_def)
qed

theorem remote_session_serves_in_order_witness:
  "\<exists>config st. remote_run config quiet_listeners st \<and> (\<forall>r \<in> snd ` set (sb_calls st). js_revision r \<le> js_revision (sb_snapshot st))"
proof -
  obtain config st m url body where r: "remote_run config quiet_listeners (sample_sent config st)" by (rule sample_run)
  let ?st = "sample_sent config st"
  have "js_revision r \<le> js_revision (sb_snapshot ?st)" if "(l, r) \<in> set (sb_calls ?st)" for l r
    using remote_session_serves_in_order [OF r, of l, unfolded Let_def] that by force
  with r show ?thesis by fastforce
qed

text \<open>C33: a closed remote session is silent for ever: whatever was on its way when it was closed, it stays closed,
  calls no listener, sends no request, opens no stream and waits for no reconnection, and it holds no socket.\<close>

theorem closed_remote_session_is_silent:
  assumes "remote_run config react st" "sb_closed st" "(remote_step config react)\<^sup>*\<^sup>* st st'"
  shows "sb_closed st' \<and> sb_snapshot st' = sb_snapshot st \<and> sb_calls st' = sb_calls st
    \<and> filter is_fetch (rs_wire st') = filter is_fetch (rs_wire st) \<and> rs_streams st' = rs_streams st
    \<and> rs_attached st' = [] \<and> rs_socket st' = None \<and> rs_queue st' = []"
proof -
  note facts = run_facts [OF assms(1)]
  then have "stream_ok config st'" using runs_ok [OF assms(3)] by blast
  moreover have "sb_closed st' \<and> sb_snapshot st' = sb_snapshot st \<and> sb_calls st' = sb_calls st"
    using remote_contract.silent_runs [OF assms(3) _ assms(2)] facts by blast
  moreover note runs_closed [OF assms(3) _ assms(2)]
  ultimately show ?thesis using facts by (auto simp: stream_ok_def)
qed

theorem closed_remote_session_is_silent_witness:
  "\<exists>config st m url body. rs_wire st = [Fetched m url body]
     \<and> (\<forall>st'. (remote_step config quiet_listeners)\<^sup>*\<^sup>* (remote_close st) st' \<longrightarrow> filter is_fetch (rs_wire st') = [Fetched m url body])"
proof -
  obtain config st m url body where r: "remote_run config quiet_listeners (sample_sent config st)"
    "rs_wire (sample_sent config st) = [Fetched m url body]" by (rule sample_run)
  let ?st = "sample_sent config st"
  have wire: "rs_wire (remote_close ?st) = [Fetched m url body]" using kept_frame.closes [of ?st] r(2) by (simp add: mutations_kept_def)
  have "remote_run config quiet_listeners (remote_close ?st)" by (rule remote_run.continued [OF r(1) close_called])
  moreover have "sb_closed (remote_close ?st)" by (simp add: remote_close_def close_base_def dispose_socket_def Let_def split: option.split)
  ultimately have "filter is_fetch (rs_wire st') = [Fetched m url body]"
    if "(remote_step config quiet_listeners)\<^sup>*\<^sup>* (remote_close ?st) st'" for st'
    using closed_remote_session_is_silent [OF _ _ that] wire by simp
  with r(2) show ?thesis by blast
qed

text \<open>C30: mutations go out one at a time in the order of their calls: when a request of a mutation is sent, exactly
  the mutations called before it are settled.  A submission is sent at most as often as the policy
  allows, a reset once, and every time it is the same request; an observation that the server confirmed
  since the last reset that succeeded is not sent, and only such an observation is answered without a
  request.\<close>

theorem mutations_go_out_in_order:
  assumes "remote_run config react st"
  shows "(\<forall>pre m url body post. rs_wire st = pre @ Fetched m url body # post \<longrightarrow>
        mu_number m = completions pre
        \<and> int (fetches (mu_number m) pre) < (if is_submit m then po_maxAttempts (rm_policy config) else 1)
        \<and> (is_submit m \<longrightarrow> submitted_id m \<notin> confirmed pre)
        \<and> (\<forall>m' url' body'. Fetched m' url' body' \<in> set pre \<longrightarrow> mu_number m' = mu_number m \<longrightarrow> m' = m \<and> url' = url \<and> body' = body))
    \<and> (\<forall>pre m snap post. rs_wire st = pre @ Completed m (Inr snap) # post \<longrightarrow>
        mu_number m = completions pre
        \<and> (0 < fetches (mu_number m) pre \<or> is_submit m \<and> submitted_id m \<in> confirmed pre))"
proof -
  have ok: "wire_ok config (rs_wire st)" using run_facts [OF assms] by (simp add: remote_ok_def)
  have event: "event_ok config pre e" if "rs_wire st = pre @ e # post" for pre e post
    using ok wire_ok_split unfolding that by blast
  have "mu_number m = completions pre
      \<and> int (fetches (mu_number m) pre) < (if is_submit m then po_maxAttempts (rm_policy config) else 1)
      \<and> (is_submit m \<longrightarrow> submitted_id m \<notin> confirmed pre)
      \<and> (\<forall>m' url' body'. Fetched m' url' body' \<in> set pre \<longrightarrow> mu_number m' = mu_number m \<longrightarrow> m' = m \<and> url' = url \<and> body' = body)"
    if "rs_wire st = pre @ Fetched m url body # post" for pre m url body post
    using event [OF that] unfolding event_ok_def send_limit_def wire_event.case by blast
  moreover have "mu_number m = completions pre \<and> (0 < fetches (mu_number m) pre \<or> is_submit m \<and> submitted_id m \<in> confirmed pre)"
    if "rs_wire st = pre @ Completed m (Inr snap) # post" for pre m snap post
    using event [OF that] by (auto simp: event_ok_def)
  ultimately show ?thesis by blast
qed

theorem mutations_go_out_in_order_witness:
  "\<exists>config st m url body. rs_wire (sample_sent config st) = [Fetched m url body] \<and> mu_number m = 0 \<and> submitted_id m \<notin> confirmed []"
proof -
  obtain config st m url body where r: "remote_run config quiet_listeners (sample_sent config st)"
    "rs_wire (sample_sent config st) = [Fetched m url body]" "is_submit m" by (rule sample_run)
  from mutations_go_out_in_order [OF r(1), THEN conjunct1, rule_format, of "[]" m url body "[]"] r(2,3)
  have "mu_number m = 0 \<and> submitted_id m \<notin> confirmed []" by simp
  with r(2) show ?thesis by blast
qed

text \<open>C31: every mutation is settled after finitely many answers of the transport: while one is unsettled the next
  can start or whatever answer the running request waits for is taken, and among any steps at all
  at most twice the attempts of the policy for each mutation serve mutations.\<close>

theorem mutations_settle:
  assumes "remote_run config react st" "serving config react n st st'"
  shows "(unsettled st' \<noteq> 0 \<longrightarrow> (case rs_running st' of
        None \<Rightarrow> serves config react st' (start_mutation config react st')
      | Some r \<Rightarrow> \<forall>answer. fits (ru_request r) answer \<longrightarrow> (\<exists>st''. answer_request config react answer st' = Some st'')))
    \<and> int n \<le> 2 * po_maxAttempts (rm_policy config) * (int (unsettled st) + int (rs_mutations st') - int (rs_mutations st))"
proof -
  from run_facts [OF assms(1)] have ok: "remote_ok config st" and limit: "1 \<le> po_maxAttempts (rm_policy config)" by simp_all
  from serving_weight [OF assms(2) this] have ok': "remote_ok config st'" and weight: "int n + mutation_weight config st'
     \<le> mutation_weight config st + 2 * po_maxAttempts (rm_policy config) * (int (rs_mutations st') - int (rs_mutations st))" by simp_all
  have "int n \<le> 2 * po_maxAttempts (rm_policy config) * (int (unsettled st) + int (rs_mutations st') - int (rs_mutations st))"
    using weight weight_bounds(1) [OF ok' limit] weight_bounds(2) [OF ok limit] by (simp add: right_diff_distrib distrib_left)
  moreover have "unsettled st' \<noteq> 0 \<longrightarrow> rs_running st' = None \<longrightarrow> rs_waiting st' \<noteq> []"
    using unsettled_list [OF ok'] by auto
  ultimately show ?thesis by (auto split: option.split simp: fits_answered [of st' _ _ config react] intro: serve_start)
qed

theorem mutations_settle_witness:
  "\<exists>config st. unsettled (sample_sent config st) \<noteq> 0
     \<and> (\<exists>r. rs_running (sample_sent config st) = Some r \<and> (\<forall>answer. fits (ru_request r) answer
          \<longrightarrow> (\<exists>st''. answer_request config quiet_listeners answer (sample_sent config st) = Some st'')))"
proof -
  obtain config st m url body where s: "remote_run config quiet_listeners (sample_sent config st)"
    "rs_wire (sample_sent config st) = [Fetched m url body]" by (rule sample_run)
  let ?st = "sample_sent config st"
  have ok: "remote_ok config ?st" using run_facts [OF s(1)] by simp
  from wire_ok_split [of config "[]" "Fetched m url body" "[]"] ok s(2) have "mu_number m = 0"
    by (simp add: remote_ok_def event_ok_def)
  then have "completions (rs_wire ?st) = 0" "fetches 0 (rs_wire ?st) = 1" by (simp_all add: s(2) completions_def fetches_def)
  then have running: "rs_running ?st \<noteq> None" using idle_fetches [OF ok] by auto
  then have "unsettled ?st \<noteq> 0" using unsettled_list [OF ok] by auto
  with mutations_settle [OF s(1) serving_none] running show ?thesis by (intro exI [of _ config] exI [of _ st]) (auto split: option.splits)
qed

text \<open>A session whose socket factory fails twice: when it is created, and when its first delay is over.\<close>

definition refused_created :: "(create_error + remote_config \<times> remote_session) option" where
  "refused_created = createRemoteSession (\<lambda>_ _. []) (\<lambda>_. None) (lit ''https://h/'') (lit ''s'') (JObj []) None
     [Replied True sample_reply] (Some OtherError)"

definition refused_again :: "remote_config \<Rightarrow> remote_session \<Rightarrow> remote_session" where
  "refused_again config st = reconnect_finally config (reconnect_attempt config True (Some OtherError) st)"

fun waited_twice :: "stream_event list \<Rightarrow> bool" where
  "waited_twice [StreamRequested u, ReconnectDelay d1, StreamRequested v, ReconnectDelay d2] \<longleftrightarrow> u = v"
| "waited_twice _ \<longleftrightarrow> False"

lemma waited_twice_iff: "waited_twice past \<longleftrightarrow> (\<exists>u d1 d2. past = [StreamRequested u, ReconnectDelay d1, StreamRequested u, ReconnectDelay d2])"
  by (cases past rule: waited_twice.cases) auto

lemma refused_run:
  obtains config st d1 d2 url where "remote_run config quiet_listeners st"
    "rs_streams st = [StreamRequested url, ReconnectDelay d1, StreamRequested url, ReconnectDelay d2]"
    "po_initialDelayMs (rm_policy config) = 100" "po_maxDelayMs (rm_policy config) = 5000"
proof -
  have "case refused_created of
      Some (Inr (config, st)) \<Rightarrow> rs_task st = Some Delaying \<and> rs_task (reconnect_attempt config True (Some OtherError) st) = Some Finishing
        \<and> waited_twice (rs_streams (refused_again config st))
        \<and> po_initialDelayMs (rm_policy config) = 100 \<and> po_maxDelayMs (rm_policy config) = 5000
    | _ \<Rightarrow> False" by code_simp
  then obtain config st u d1 d2 where c: "refused_created = Some (Inr (config, st))" "rs_task st = Some Delaying"
      "rs_task (reconnect_attempt config True (Some OtherError) st) = Some Finishing"
      "rs_streams (refused_again config st) = [StreamRequested u, ReconnectDelay d1, StreamRequested u, ReconnectDelay d2]"
      "po_initialDelayMs (rm_policy config) = 100" "po_maxDelayMs (rm_policy config) = 5000"
    by (auto simp: waited_twice_iff split: option.splits sum.splits)
  have "remote_run config quiet_listeners st" by (rule remote_run.created [OF c(1) [unfolded refused_created_def]])
  from remote_run.continued [OF this delay_over] c(2)
  have "remote_run config quiet_listeners (reconnect_attempt config True (Some OtherError) st)" .
  from remote_run.continued [OF this reconnect_over] c(3) have "remote_run config quiet_listeners (refused_again config st)"
    by (simp add: refused_again_def)
  with c(4-6) that show thesis by blast
qed

text \<open>C34: a session holds at most one socket.  Since its stream was last open, it has waited for at most as many
  reconnections as its policy allows, and the first waits for the initial delay, the next for twice as
  long, and so on up to the maximum, computed without a rounding error even where the powers overflow;
  every stream it requests after the first has its own such delay before it.  In the same way every
  time a mutation's request is sent again it has waited once more, and the delays double from the
  first failed attempt on.\<close>

theorem reconnections_are_bounded:
  assumes "remote_run config react st"
  defines "doubled \<equiv> \<lambda>n. Fin (of_int (min (po_maxDelayMs (rm_policy config)) (po_initialDelayMs (rm_policy config) * 2 ^ n)))"
  shows "length (rs_attached st) \<le> 1
    \<and> (\<forall>pre d post. rs_streams st = pre @ ReconnectDelay d # post \<longrightarrow>
         int (failures pre) < po_maxAttempts (rm_policy config) \<and> d = doubled (failures pre))
    \<and> (\<forall>pre url post. rs_streams st = pre @ StreamRequested url # post \<longrightarrow> stream_requests pre \<le> stream_delays pre)
    \<and> (\<forall>pre m d post. rs_wire st = pre @ Delayed m d # post \<longrightarrow>
         0 < fetches (mu_number m) pre \<and> d = doubled (fetches (mu_number m) pre - 1))
    \<and> (\<forall>pre m url body post. rs_wire st = pre @ Fetched m url body # post \<longrightarrow> waits (mu_number m) pre = fetches (mu_number m) pre)"
proof -
  note facts = run_facts [OF assms(1)]
  then have ok: "stream_ok config st" "wire_ok config (rs_wire st)" by (simp_all add: remote_ok_def)
  from facts have "1 \<le> po_initialDelayMs (rm_policy config)" "po_initialDelayMs (rm_policy config) \<le> po_maxDelayMs (rm_policy config)"
    "po_maxDelayMs (rm_policy config) \<le> safe_limit" using policy_positive by blast+
  from retryDelay_eq [OF this] have delay: "retryDelay (rm_policy config) (int n + 1) = doubled n" for n
    by (simp add: doubled_def)
  have stream: "stream_event_ok (rm_policy config) pre e" if "rs_streams st = pre @ e # post" for pre e post
    using ok(1) stream_log_ok_split unfolding stream_ok_def that by blast
  have wire: "event_ok config pre e" if "rs_wire st = pre @ e # post" for pre e post
    using ok(2) wire_ok_split unfolding that by blast
  have "0 < fetches (mu_number m) pre \<and> d = doubled (fetches (mu_number m) pre - 1)" if "rs_wire st = pre @ Delayed m d # post" for pre m d post
    using wire [OF that] delay by (cases "fetches (mu_number m) pre") (auto simp: event_ok_def add.commute)
  moreover have "waits (mu_number m) pre = fetches (mu_number m) pre" if "rs_wire st = pre @ Fetched m url body # post" for pre m url body post
    using wire [OF that] unfolding event_ok_def wire_event.case by blast
  moreover have "length (rs_attached st) \<le> 1" using ok(1) by (auto simp: stream_ok_def split: option.splits)
  moreover have "int (failures pre) < po_maxAttempts (rm_policy config) \<and> d = doubled (failures pre)"
    if "rs_streams st = pre @ ReconnectDelay d # post" for pre d post
    using stream [OF that] by (simp add: stream_event_ok_def delay)
  moreover have "stream_requests pre \<le> stream_delays pre" if "rs_streams st = pre @ StreamRequested url # post" for pre url post
    using stream [OF that] by (simp add: stream_event_ok_def)
  ultimately show ?thesis by blast
qed

theorem reconnections_are_bounded_witness:
  "\<exists>config st url. remote_run config quiet_listeners st
     \<and> rs_streams st = [StreamRequested url, ReconnectDelay (Fin 100), StreamRequested url, ReconnectDelay (Fin 200)]"
proof -
  obtain config st d1 d2 url where r: "remote_run config quiet_listeners st"
    "rs_streams st = [StreamRequested url, ReconnectDelay d1, StreamRequested url, ReconnectDelay d2]"
    "po_initialDelayMs (rm_policy config) = 100" "po_maxDelayMs (rm_policy config) = 5000" by (rule refused_run)
  note delays = reconnections_are_bounded [OF r(1), THEN conjunct2, THEN conjunct1, rule_format]
  from delays [of "[StreamRequested url]" d1 "[StreamRequested url, ReconnectDelay d2]"] r(2-4)
  have "d1 = Fin 100" by (simp add: failures_def)
  moreover from delays [of "[StreamRequested url, ReconnectDelay d1, StreamRequested url]" d2 "[]"] r(2-4)
  have "d2 = Fin 200" by (simp add: failures_def)
  ultimately show ?thesis using r(1,2) by blast
qed

section \<open>A lost reset\<close>

text \<open>When the response to a reset is lost, the client does not know that the server applied it: the
  acknowledged identifiers stay, and a later submission of one of them is answered with the old
  snapshot and nothing is sent.\<close>

theorem lost_reset_keeps_identifiers:
  assumes "rs_running st = Some r" "mu_kind (ru_mutation r) = ResetMutation l" "ru_request r = AwaitResponse attempt"
    "observation_id observation \<in> set (rs_acknowledged st)" "mu_kind m = SubmitMutation observation"
  shows "\<exists>st'. answer_request config react (FetchThrew t) st = Some st' \<and> rs_acknowledged st' = rs_acknowledged st
    \<and> run_operation config react m st' = settle_mutation m (Inr (sb_snapshot st)) st'"
  using assms by (simp add: answer_request_def retries_transport_def proceed_mutation_def settle_mutation_def run_operation_def)

end
