(* ===== verification/Adapter_Controller.thy ===== *)
theory Adapter_Controller
  imports Js_Collections
begin

text \<open>
  \<open>packages/client/src/adapter-controller.ts\<close>: the reactive state the framework adapters share.  The
  session it controls is an input: which snapshots it hands over and when, and how its promises
  settle.  Each piece of code the runtime runs between two waits is one operation: the calls of the
  adapter, a queued snapshot, the end of an action, the two continuations of \<open>close\<close>.  What the
  controller does to its session and what it shows its listeners is recorded.  A listener may remove
  listeners, dispose the controller and throw while it is called.
\<close>

section \<open>State\<close>

datatype qaraa_status = Idle | Ready | Submitting | Closed

record 'v qaraa_state =
  qs_snapshot :: 'v
  qs_status :: qaraa_status
  qs_error :: "jstring option"

datatype session_call = SubscribeCall | ReleaseCall | ActionCall | CloseCall

text \<open>How far \<open>close\<close> has come: not called, before the call of \<open>session.close\<close>, waiting for it, over.\<close>

datatype close_phase = NotClosing | Disposed | AwaitSession | ClosedDown

record 'v controller =
  ac_state :: "'v qaraa_state"
  ac_unsubscribe :: bool
  ac_closed :: bool
  ac_lifecycle :: nat
  ac_closing :: close_phase
  ac_listeners :: "nat js_set"
  ac_pending :: "('v \<times> nat) list"
  ac_actions :: nat
  ac_calls :: "(nat \<times> 'v qaraa_state) list"
  ac_session :: "session_call list"

record adapter_reaction =
  ar_removes :: "nat list"
  ar_disposes :: bool
  ar_throws :: bool

type_synonym 'v state_listeners = "nat \<Rightarrow> 'v qaraa_state \<Rightarrow> adapter_reaction"

section \<open>Operations\<close>

definition createAdapterController :: "'v \<Rightarrow> 'v controller" where
  "createAdapterController snap = \<lparr>ac_state = \<lparr>qs_snapshot = snap, qs_status = Idle, qs_error = None\<rparr>,
     ac_unsubscribe = False, ac_closed = False, ac_lifecycle = 0, ac_closing = NotClosing, ac_listeners = [],
     ac_pending = [], ac_actions = 0, ac_calls = [], ac_session = []\<rparr>"

definition remove_state_listener :: "'v controller \<Rightarrow> nat \<Rightarrow> 'v controller" where
  "remove_state_listener st l = st\<lparr>ac_listeners := removeAll l (ac_listeners st)\<rparr>"

definition dispose :: "'v controller \<Rightarrow> 'v controller" where
  "dispose st = st\<lparr>ac_lifecycle := ac_lifecycle st + 1, ac_unsubscribe := False,
     ac_session := ac_session st @ (if ac_unsubscribe st then [ReleaseCall] else [])\<rparr>"

definition call_state_listener :: "'v state_listeners \<Rightarrow> nat \<Rightarrow> 'v controller \<Rightarrow> 'v controller" where
  "call_state_listener react l st =
     (let r = react l (ac_state st);
          st1 = foldl remove_state_listener (st\<lparr>ac_calls := ac_calls st @ [(l, ac_state st)]\<rparr>) (ar_removes r);
          st2 = (if ar_disposes r then dispose st1 else st1)
      in if ar_throws r then remove_state_listener st2 l else st2)"

definition notify_step :: "'v state_listeners \<Rightarrow> 'v controller \<Rightarrow> nat \<Rightarrow> 'v controller" where
  "notify_step react st l = (if l \<notin> set (ac_listeners st) then st else call_state_listener react l st)"

definition notify_listeners :: "'v state_listeners \<Rightarrow> 'v controller \<Rightarrow> 'v controller" where
  "notify_listeners react st = foldl (notify_step react) st (ac_listeners st)"

definition set_state :: "'v state_listeners \<Rightarrow> 'v qaraa_state \<Rightarrow> 'v controller \<Rightarrow> 'v controller" where
  "set_state react nxt st = notify_listeners react (st\<lparr>ac_state := nxt\<rparr>)"

definition acceptSnapshot :: "('v \<Rightarrow> int) \<Rightarrow> 'v controller \<Rightarrow> 'v \<Rightarrow> 'v controller" where
  "acceptSnapshot revision st nxt =
     (if revision nxt \<le> revision (qs_snapshot (ac_state st)) then st
      else st\<lparr>ac_pending := ac_pending st @ [(nxt, ac_lifecycle st)]\<rparr>)"

text \<open>The queued part of \<open>acceptSnapshot\<close>.\<close>

definition run_accepted :: "('v \<Rightarrow> int) \<Rightarrow> 'v state_listeners \<Rightarrow> 'v controller \<Rightarrow> 'v controller" where
  "run_accepted revision react st = (case ac_pending st of [] \<Rightarrow> st
     | (nxt, acceptedAt) # pending \<Rightarrow>
         let st' = st\<lparr>ac_pending := pending\<rparr> in
         if ac_closed st' \<or> acceptedAt \<noteq> ac_lifecycle st' \<or> revision nxt \<le> revision (qs_snapshot (ac_state st')) then st'
         else set_state react ((ac_state st')\<lparr>qs_snapshot := nxt, qs_status := Ready\<rparr>) st')"

text \<open>\<open>session.subscribe\<close> hands over the snapshots \<open>given\<close> before it returns, or throws.\<close>

definition connect :: "('v \<Rightarrow> int) \<Rightarrow> 'v state_listeners \<Rightarrow> 'v list \<Rightarrow> jstring option \<Rightarrow> 'v controller \<Rightarrow> 'v controller \<times> jstring option" where
  "connect revision react given thrown st =
     (if ac_closed st \<or> ac_unsubscribe st then (st, None)
      else
        let st1 = foldl (acceptSnapshot revision) st given
        in (case thrown of
            Some e \<Rightarrow> (st1, Some e)
          | None \<Rightarrow> (set_state react ((ac_state st1)\<lparr>qs_status := Ready\<rparr>)
              (st1\<lparr>ac_unsubscribe := True, ac_session := ac_session st1 @ [SubscribeCall]\<rparr>), None)))"

text \<open>\<open>action\<close> up to the call of the session, and after its promise settled with or without an error.\<close>

definition action_begin :: "'v state_listeners \<Rightarrow> 'v controller \<Rightarrow> 'v controller \<times> jstring option" where
  "action_begin react st =
     (if ac_closed st then (st, Some (lit ''QARAA session is closed''))
      else
        let st1 = set_state react ((ac_state st)\<lparr>qs_status := Submitting, qs_error := None\<rparr>) st
        in (st1\<lparr>ac_actions := ac_actions st1 + 1, ac_session := ac_session st1 @ [ActionCall]\<rparr>, None))"

definition action_end :: "'v state_listeners \<Rightarrow> jstring option \<Rightarrow> 'v controller \<Rightarrow> 'v controller" where
  "action_end react error st =
     (let st1 = st\<lparr>ac_actions := ac_actions st - 1\<rparr>
      in if \<not> ac_closed st1 then set_state react ((ac_state st1)\<lparr>qs_status := Ready, qs_error := error\<rparr>) st1 else st1)"

definition close_begin :: "'v controller \<Rightarrow> 'v controller" where
  "close_begin st = (if ac_closing st \<noteq> NotClosing then st else dispose (st\<lparr>ac_closed := True, ac_closing := Disposed\<rparr>))"

definition close_session :: "'v controller \<Rightarrow> 'v controller" where
  "close_session st = st\<lparr>ac_closing := AwaitSession, ac_session := ac_session st @ [CloseCall]\<rparr>"

definition close_end :: "'v state_listeners \<Rightarrow> 'v controller \<Rightarrow> 'v controller" where
  "close_end react st =
     (let st1 = set_state react ((ac_state st)\<lparr>qs_status := Closed\<rparr>) st
      in st1\<lparr>ac_listeners := [], ac_closing := ClosedDown\<rparr>)"

definition subscribe_state :: "nat \<Rightarrow> 'v controller \<Rightarrow> 'v controller" where
  "subscribe_state l st = st\<lparr>ac_listeners := js_set_add l (ac_listeners st)\<rparr>"

text \<open>Everything that can happen to a controller.\<close>

inductive controller_step :: "('v \<Rightarrow> int) \<Rightarrow> 'v state_listeners \<Rightarrow> 'v controller \<Rightarrow> 'v controller \<Rightarrow> bool" for revision react where
  snapshot_came: "ac_unsubscribe st \<Longrightarrow> controller_step revision react st (acceptSnapshot revision st nxt)"
| accepted_ran: "controller_step revision react st (run_accepted revision react st)"
| connected: "controller_step revision react st (fst (connect revision react given thrown st))"
| disposed: "controller_step revision react st (dispose st)"
| action_began: "controller_step revision react st (fst (action_begin react st))"
| action_ended: "0 < ac_actions st \<Longrightarrow> controller_step revision react st (action_end react error st)"
| close_began: "controller_step revision react st (close_begin st)"
| session_close_called: "ac_closing st = Disposed \<Longrightarrow> controller_step revision react st (close_session st)"
| close_ended: "ac_closing st = AwaitSession \<Longrightarrow> controller_step revision react st (close_end react st)"
| state_subscribed: "controller_step revision react st (subscribe_state l st)"
| state_unsubscribed: "controller_step revision react st (remove_state_listener st l)"

inductive_cases controller_stepE: "controller_step revision react st st'"

section \<open>What a notification does\<close>

text \<open>The listeners are called with one state; they can only leave and dispose.\<close>

definition subscriptions :: "session_call list \<Rightarrow> int" where
  "subscriptions calls = int (length (filter ((=) SubscribeCall) calls)) - int (length (filter ((=) ReleaseCall) calls))"

definition balanced :: "'v controller \<Rightarrow> bool" where
  "balanced st \<longleftrightarrow> subscriptions (ac_session st) = (if ac_unsubscribe st then 1 else 0)"

definition notified :: "'v controller \<Rightarrow> 'v controller \<Rightarrow> bool" where
  "notified st st' \<longleftrightarrow> ac_state st' = ac_state st \<and> ac_closed st' = ac_closed st \<and> ac_closing st' = ac_closing st
     \<and> ac_pending st' = ac_pending st \<and> ac_actions st' = ac_actions st \<and> ac_lifecycle st \<le> ac_lifecycle st'
     \<and> (ac_unsubscribe st' \<longrightarrow> ac_unsubscribe st) \<and> set (ac_listeners st') \<subseteq> set (ac_listeners st)
     \<and> (\<exists>ls. ac_calls st' = ac_calls st @ map (\<lambda>l. (l, ac_state st)) ls \<and> set ls \<subseteq> set (ac_listeners st))
     \<and> filter (\<lambda>c. c \<noteq> ReleaseCall) (ac_session st') = filter (\<lambda>c. c \<noteq> ReleaseCall) (ac_session st)
     \<and> (\<not> ac_unsubscribe st \<longrightarrow> ac_session st' = ac_session st) \<and> (balanced st \<longrightarrow> balanced st')"

lemma notified_refl [simp]: "notified st st"
  by (auto simp: notified_def intro: exI [of _ "[]"])

lemma notified_trans:
  assumes "notified st st'" "notified st' st''"
  shows "notified st st''"
proof -
  from assms(1) obtain ls where "ac_calls st' = ac_calls st @ map (\<lambda>l. (l, ac_state st)) ls" "set ls \<subseteq> set (ac_listeners st)"
    unfolding notified_def by blast
  moreover from assms(2) obtain ks where "ac_calls st'' = ac_calls st' @ map (\<lambda>l. (l, ac_state st')) ks" "set ks \<subseteq> set (ac_listeners st')"
    unfolding notified_def by blast
  moreover have "ac_state st' = ac_state st" "set (ac_listeners st') \<subseteq> set (ac_listeners st)"
    using assms(1) by (simp_all add: notified_def)
  ultimately have "ac_calls st'' = ac_calls st @ map (\<lambda>l. (l, ac_state st)) (ls @ ks) \<and> set (ls @ ks) \<subseteq> set (ac_listeners st)"
    by auto
  then have "\<exists>ls. ac_calls st'' = ac_calls st @ map (\<lambda>l. (l, ac_state st)) ls \<and> set ls \<subseteq> set (ac_listeners st)" by blast
  moreover have "ac_state st'' = ac_state st" "ac_closed st'' = ac_closed st" "ac_closing st'' = ac_closing st"
      "ac_pending st'' = ac_pending st" "ac_actions st'' = ac_actions st"
      "filter (\<lambda>c. c \<noteq> ReleaseCall) (ac_session st'') = filter (\<lambda>c. c \<noteq> ReleaseCall) (ac_session st)"
    using assms by (simp_all add: notified_def)
  moreover have "ac_lifecycle st \<le> ac_lifecycle st''" "ac_unsubscribe st'' \<longrightarrow> ac_unsubscribe st"
      "set (ac_listeners st'') \<subseteq> set (ac_listeners st)" "balanced st \<longrightarrow> balanced st''"
    using assms unfolding notified_def by (blast intro: order_trans)+
  moreover have "\<not> ac_unsubscribe st \<longrightarrow> ac_session st' = ac_session st" "ac_unsubscribe st' \<longrightarrow> ac_unsubscribe st"
      "\<not> ac_unsubscribe st' \<longrightarrow> ac_session st'' = ac_session st'"
    using assms by (simp_all add: notified_def)
  then have "\<not> ac_unsubscribe st \<longrightarrow> ac_session st'' = ac_session st" by metis
  ultimately show ?thesis unfolding notified_def by blast
qed

lemma subscriptions_append [simp]: "subscriptions (xs @ ys) = subscriptions xs + subscriptions ys"
  by (simp add: subscriptions_def)

lemma subscriptions_simps [simp]: "subscriptions [] = 0" "subscriptions [SubscribeCall] = 1" "subscriptions [ReleaseCall] = -1"
    "subscriptions [ActionCall] = 0" "subscriptions [CloseCall] = 0"
  by (simp_all add: subscriptions_def)

lemma remove_notified [simp]: "notified st (remove_state_listener st l)"
  by (auto simp: notified_def remove_state_listener_def balanced_def intro: exI [of _ "[]"])

lemma dispose_notified [simp]: "notified st (dispose st)"
  by (auto simp: notified_def dispose_def balanced_def intro: exI [of _ "[]"])

lemma removes_notified: "notified st (foldl remove_state_listener st ls)"
  by (induction ls arbitrary: st) (auto intro: notified_trans [OF remove_notified])

lemma call_notified:
  assumes "l \<in> set (ac_listeners st)"
  shows "notified st (call_state_listener react l st)"
proof -
  let ?st = "st\<lparr>ac_calls := ac_calls st @ [(l, ac_state st)]\<rparr>"
  have "notified st ?st" using assms by (auto simp: notified_def balanced_def intro: exI [of _ "[l]"])
  then have one: "notified st (foldl remove_state_listener ?st ls)" for ls using notified_trans removes_notified by blast
  then have two: "notified st (dispose (foldl remove_state_listener ?st ls))" for ls using notified_trans dispose_notified by blast
  show ?thesis using one two notified_trans [OF one remove_notified] notified_trans [OF two remove_notified]
    by (simp add: call_state_listener_def Let_def)
qed

lemma notify_notified: "notified st (foldl (notify_step react) st ls)"
proof (induction ls arbitrary: st)
  case (Cons l ls)
  have "notified st (notify_step react st l)" by (simp add: notify_step_def call_notified)
  with Cons notified_trans show ?case by fastforce
qed simp

lemma set_state_notified: "notified (st\<lparr>ac_state := nxt\<rparr>) (set_state react nxt st)"
  by (simp add: set_state_def notify_listeners_def notify_notified)

section \<open>The invariant\<close>

definition shown_revisions :: "('v \<Rightarrow> int) \<Rightarrow> 'v controller \<Rightarrow> int list" where
  "shown_revisions revision st = map (\<lambda>c. revision (qs_snapshot (snd c))) (ac_calls st)"

definition close_calls :: "session_call list \<Rightarrow> bool \<Rightarrow> bool" where
  "close_calls calls over \<longleftrightarrow> (if over then calls \<noteq> [] \<and> List.last calls = CloseCall \<and> CloseCall \<notin> set (butlast calls)
     else CloseCall \<notin> set calls)"

definition controller_ok :: "('v \<Rightarrow> int) \<Rightarrow> 'v controller \<Rightarrow> bool" where
  "controller_ok revision st \<longleftrightarrow> sorted (shown_revisions revision st)
     \<and> (\<forall>r \<in> set (shown_revisions revision st). r \<le> revision (qs_snapshot (ac_state st)))
     \<and> balanced st \<and> (ac_closed st \<longrightarrow> \<not> ac_unsubscribe st)
     \<and> (ac_closed st \<longleftrightarrow> ac_closing st \<noteq> NotClosing)
     \<and> close_calls (ac_session st) (ac_closing st \<in> {AwaitSession, ClosedDown})
     \<and> (qs_status (ac_state st) = Closed \<longleftrightarrow> ac_closing st = ClosedDown)"

lemma notified_ok:
  assumes "notified st st'" "controller_ok revision st"
  shows "controller_ok revision st'"
proof -
  from assms(1) obtain ls where calls: "ac_calls st' = ac_calls st @ map (\<lambda>l. (l, ac_state st)) ls" by (auto simp: notified_def)
  have same: "ac_state st' = ac_state st" "ac_closed st' = ac_closed st" "ac_closing st' = ac_closing st"
    "filter (\<lambda>c. c \<noteq> ReleaseCall) (ac_session st') = filter (\<lambda>c. c \<noteq> ReleaseCall) (ac_session st)"
    using assms(1) by (simp_all add: notified_def)
  have shown: "shown_revisions revision st' = shown_revisions revision st @ map (\<lambda>_. revision (qs_snapshot (ac_state st))) ls"
    by (simp add: shown_revisions_def calls comp_def)
  have "sorted (map (\<lambda>_. c) ls)" for c :: int by (induction ls) auto
  then have "sorted (shown_revisions revision st') \<and> (\<forall>r \<in> set (shown_revisions revision st'). r \<le> revision (qs_snapshot (ac_state st)))"
    using assms(2) by (auto simp: shown controller_ok_def sorted_append)
  moreover have "balanced st'" "ac_closed st \<longrightarrow> \<not> ac_unsubscribe st'"
    using assms(1,2) unfolding notified_def controller_ok_def by blast+
  moreover have "close_calls (ac_session st') (ac_closing st' \<in> {AwaitSession, ClosedDown})"
  proof (cases "ac_closed st")
    case True
    then have "ac_session st' = ac_session st" using assms unfolding notified_def controller_ok_def by blast
    with assms(2) show ?thesis by (simp add: controller_ok_def same)
  next
    case False
    then have "ac_closing st = NotClosing" "CloseCall \<notin> set (ac_session st)"
      using assms(2) by (auto simp: controller_ok_def close_calls_def)
    moreover have "CloseCall \<in> set calls \<longleftrightarrow> CloseCall \<in> set (filter (\<lambda>c. c \<noteq> ReleaseCall) calls)" for calls by simp
    ultimately show ?thesis using same(4) unfolding close_calls_def same(3) by (metis insertE singletonD close_phase.distinct(3,5))
  qed
  ultimately show ?thesis using assms(2) by (simp add: controller_ok_def same)
qed

text \<open>A new state: its snapshot is not older, and its status is closed exactly when closing ends.\<close>

lemma set_state_ok:
  assumes "controller_ok revision (st\<lparr>ac_state := nxt\<rparr>)"
  shows "controller_ok revision (set_state react nxt st)"
  using notified_ok [OF set_state_notified assms] .

lemma new_state_ok:
  assumes "controller_ok revision st" "revision (qs_snapshot (ac_state st)) \<le> revision (qs_snapshot nxt)" "qs_status nxt \<noteq> Closed"
    "ac_closing st \<noteq> ClosedDown"
  shows "controller_ok revision (set_state react nxt st)"
proof (rule set_state_ok)
  show "controller_ok revision (st\<lparr>ac_state := nxt\<rparr>)"
    using assms by (auto simp: controller_ok_def shown_revisions_def balanced_def)
qed

lemma controller_ok_updates [simp]:
  "controller_ok revision (st\<lparr>ac_pending := p\<rparr>) = controller_ok revision st"
  "controller_ok revision (st\<lparr>ac_actions := n\<rparr>) = controller_ok revision st"
  "controller_ok revision (st\<lparr>ac_listeners := ls\<rparr>) = controller_ok revision st"
  by (simp_all add: controller_ok_def shown_revisions_def balanced_def)

lemma open_phase: "controller_ok revision st \<Longrightarrow> \<not> ac_closed st \<Longrightarrow> ac_closing st = NotClosing"
  by (simp add: controller_ok_def)

lemma accept_ok: "controller_ok revision st \<Longrightarrow> controller_ok revision (acceptSnapshot revision st nxt)"
  by (simp add: acceptSnapshot_def)

lemma accept_same [simp]: "ac_state (acceptSnapshot revision st nxt) = ac_state st" "ac_closed (acceptSnapshot revision st nxt) = ac_closed st"
    "ac_unsubscribe (acceptSnapshot revision st nxt) = ac_unsubscribe st" "ac_session (acceptSnapshot revision st nxt) = ac_session st"
    "ac_calls (acceptSnapshot revision st nxt) = ac_calls st" "ac_closing (acceptSnapshot revision st nxt) = ac_closing st"
  by (simp_all add: acceptSnapshot_def)

lemma accepts_ok: "controller_ok revision st \<Longrightarrow> controller_ok revision (foldl (acceptSnapshot revision) st given)
    \<and> ac_closed (foldl (acceptSnapshot revision) st given) = ac_closed st
    \<and> ac_unsubscribe (foldl (acceptSnapshot revision) st given) = ac_unsubscribe st"
  by (induction given arbitrary: st) (simp_all add: accept_ok)

lemma run_accepted_ok:
  assumes "controller_ok revision st"
  shows "controller_ok revision (run_accepted revision react st)"
proof (cases "ac_pending st")
  case (Cons p pending)
  let ?st = "st\<lparr>ac_pending := pending\<rparr>"
  have "controller_ok revision (set_state react ((ac_state ?st)\<lparr>qs_snapshot := fst p, qs_status := Ready\<rparr>) ?st)"
    if "\<not> ac_closed st" "revision (qs_snapshot (ac_state st)) < revision (fst p)"
    using assms that open_phase [OF assms] by (intro new_state_ok) simp_all
  with assms show ?thesis by (cases p) (simp add: run_accepted_def Cons Let_def)
qed (use assms in \<open>simp add: run_accepted_def\<close>)

lemma controller_connect_ok:
  assumes "controller_ok revision st"
  shows "controller_ok revision (fst (connect revision react given thrown st))"
proof -
  let ?st = "foldl (acceptSnapshot revision) st given"
  let ?st1 = "?st\<lparr>ac_unsubscribe := True, ac_session := ac_session ?st @ [SubscribeCall]\<rparr>"
  note ok = accepts_ok [OF assms, of given]
  have "controller_ok revision (set_state react ((ac_state ?st)\<lparr>qs_status := Ready\<rparr>) ?st1)"
    if "\<not> ac_closed st" "\<not> ac_unsubscribe st"
  proof (rule new_state_ok)
    have "ac_closing ?st = NotClosing" using ok that open_phase by metis
    then show "controller_ok revision ?st1" "ac_closing ?st1 \<noteq> ClosedDown"
      using ok that by (simp_all add: controller_ok_def shown_revisions_def balanced_def close_calls_def)
  qed simp_all
  with ok assms show ?thesis by (simp add: connect_def Let_def split: option.split)
qed

lemma action_begin_ok:
  assumes "controller_ok revision st"
  shows "controller_ok revision (fst (action_begin react st))"
proof (cases "ac_closed st")
  case False
  let ?st = "set_state react ((ac_state st)\<lparr>qs_status := Submitting, qs_error := None\<rparr>) st"
  have phase: "ac_closing st = NotClosing" using open_phase [OF assms False] .
  with assms have ok: "controller_ok revision ?st" by (intro new_state_ok) simp_all
  have "ac_closing ?st = NotClosing" "ac_closed ?st = False"
    using set_state_notified [of _ st react] phase False by (simp_all add: notified_def)
  with ok have "controller_ok revision (?st\<lparr>ac_actions := n, ac_session := ac_session ?st @ [ActionCall]\<rparr>)" for n
    by (simp add: controller_ok_def shown_revisions_def balanced_def close_calls_def)
  with False show ?thesis by (simp add: action_begin_def Let_def)
qed (use assms in \<open>simp add: action_begin_def\<close>)

lemma action_end_ok:
  assumes "controller_ok revision st"
  shows "controller_ok revision (action_end react error st)"
proof -
  have "controller_ok revision (set_state react ((ac_state st)\<lparr>qs_status := Ready, qs_error := error\<rparr>) (st\<lparr>ac_actions := n\<rparr>))"
    if "\<not> ac_closed st" for n
    using assms open_phase [OF assms that] by (intro new_state_ok) simp_all
  with assms show ?thesis by (simp add: action_end_def Let_def)
qed

lemma dispose_ok: "controller_ok revision st \<Longrightarrow> controller_ok revision (dispose st)"
  by (rule notified_ok [OF dispose_notified])

lemma close_begin_ok:
  assumes "controller_ok revision st"
  shows "controller_ok revision (close_begin st)"
proof (cases "ac_closing st = NotClosing")
  case True
  have "controller_ok revision ((dispose st)\<lparr>ac_closed := True, ac_closing := Disposed\<rparr>)"
    using dispose_ok [OF assms] True assms
    by (auto simp: controller_ok_def shown_revisions_def balanced_def close_calls_def dispose_def)
  moreover have "dispose (st\<lparr>ac_closed := True, ac_closing := Disposed\<rparr>) = (dispose st)\<lparr>ac_closed := True, ac_closing := Disposed\<rparr>"
    by (simp add: dispose_def)
  ultimately show ?thesis using True by (simp add: close_begin_def)
qed (use assms in \<open>simp add: close_begin_def\<close>)

lemma close_session_ok: "controller_ok revision st \<Longrightarrow> ac_closing st = Disposed \<Longrightarrow> controller_ok revision (close_session st)"
  by (auto simp: controller_ok_def close_session_def shown_revisions_def balanced_def close_calls_def)

lemma close_end_ok:
  assumes "controller_ok revision st" "ac_closing st = AwaitSession"
  shows "controller_ok revision (close_end react st)"
proof -
  let ?nxt = "(ac_state st)\<lparr>qs_status := Closed\<rparr>"
  have "controller_ok revision (st\<lparr>ac_state := ?nxt, ac_closing := ClosedDown\<rparr>)"
    using assms by (auto simp: controller_ok_def shown_revisions_def balanced_def)
  moreover have "notified (st\<lparr>ac_state := ?nxt, ac_closing := ClosedDown\<rparr>) ((set_state react ?nxt st)\<lparr>ac_closing := ClosedDown\<rparr>)"
    using set_state_notified [of ?nxt st react] by (simp add: notified_def balanced_def)
  ultimately have "controller_ok revision ((set_state react ?nxt st)\<lparr>ac_closing := ClosedDown\<rparr>)" by (rule notified_ok [rotated])
  then have "controller_ok revision ((set_state react ?nxt st)\<lparr>ac_closing := ClosedDown\<rparr>\<lparr>ac_listeners := []\<rparr>)"
    by (simp only: controller_ok_updates)
  moreover have "(set_state react ?nxt st)\<lparr>ac_closing := ClosedDown\<rparr>\<lparr>ac_listeners := []\<rparr> = close_end react st"
    by (simp add: close_end_def Let_def)
  ultimately show ?thesis by simp
qed

lemma controller_step_ok:
  assumes "controller_step revision react st st'" "controller_ok revision st"
  shows "controller_ok revision st'"
  using assms(1)
proof cases
  case (state_unsubscribed l)
  with notified_ok [OF remove_notified] assms(2) show ?thesis by blast
qed (use assms(2) accept_ok run_accepted_ok controller_connect_ok dispose_ok action_begin_ok action_end_ok close_begin_ok close_session_ok close_end_ok
       in \<open>simp_all add: subscribe_state_def\<close>)

lemma controller_start_ok: "controller_ok revision (createAdapterController snap)"
  by (simp add: controller_ok_def createAdapterController_def shown_revisions_def balanced_def close_calls_def)

lemma controller_run_ok: "(controller_step revision react)\<^sup>*\<^sup>* st st' \<Longrightarrow> controller_ok revision st \<Longrightarrow> controller_ok revision st'"
  by (induction rule: rtranclp_induct) (auto intro: controller_step_ok)

text \<open>Once it is closed down, nothing changes but the snapshots and actions still on their way.\<close>

lemma closed_step:
  assumes "controller_step revision react st st'" "controller_ok revision st" "ac_closing st = ClosedDown"
  shows "ac_closing st' = ClosedDown \<and> ac_state st' = ac_state st \<and> ac_calls st' = ac_calls st \<and> ac_session st' = ac_session st"
proof -
  have c: "ac_closed st" "\<not> ac_unsubscribe st" using assms(2,3) by (auto simp: controller_ok_def)
  from assms(1) show ?thesis
    by cases (use c assms(3) in \<open>auto simp: run_accepted_def connect_def dispose_def action_begin_def action_end_def close_begin_def
        subscribe_state_def remove_state_listener_def Let_def split: list.split\<close>)
qed

lemma closed_run:
  assumes "(controller_step revision react)\<^sup>*\<^sup>* st st'" "controller_ok revision st" "ac_closing st = ClosedDown"
  shows "ac_closing st' = ClosedDown \<and> ac_state st' = ac_state st \<and> ac_calls st' = ac_calls st \<and> ac_session st' = ac_session st"
  using assms(1)
proof (induction rule: rtranclp_induct)
  case (step t u)
  from closed_step [OF step.hyps(2) controller_run_ok [OF step.hyps(1) assms(2)]] step.IH show ?case by simp
qed (use assms(3) in simp)

section \<open>Properties\<close>

text \<open>C35: whatever the adapter, the session and the listeners do, the states a controller shows have revisions that
  never go back, it holds exactly the subscription it has not released, it calls \<open>close\<close> of its session at
  most once and does nothing to the session afterwards, and it shows the status closed only when that
  call has settled.\<close>

theorem controller_shows_and_releases:
  assumes "(controller_step revision react)\<^sup>*\<^sup>* (createAdapterController snap) st"
  shows "sorted (map (\<lambda>c. revision (qs_snapshot (snd c))) (ac_calls st))
    \<and> (\<forall>c \<in> set (ac_calls st). revision (qs_snapshot (snd c)) \<le> revision (qs_snapshot (ac_state st)))
    \<and> subscriptions (ac_session st) = (if ac_unsubscribe st then 1 else 0) \<and> (ac_closed st \<longrightarrow> \<not> ac_unsubscribe st)
    \<and> (\<forall>pre post. ac_session st = pre @ CloseCall # post \<longrightarrow> post = [] \<and> ac_closed st)
    \<and> (qs_status (ac_state st) = Closed \<longleftrightarrow> ac_closing st = ClosedDown)"
proof -
  have ok: "controller_ok revision st" using controller_run_ok [OF assms controller_start_ok] .
  have "post = [] \<and> ac_closed st" if eq: "ac_session st = pre @ CloseCall # post" for pre post
  proof -
    have "CloseCall \<in> set (ac_session st)" by (simp add: eq)
    then have "ac_closing st \<in> {AwaitSession, ClosedDown}" using ok by (auto simp: controller_ok_def close_calls_def split: if_splits)
    then have "CloseCall \<notin> set (butlast (ac_session st))" "ac_closed st" using ok by (auto simp: controller_ok_def close_calls_def)
    then show ?thesis by (cases post rule: rev_cases) (auto simp: eq butlast_append)
  qed
  with ok show ?thesis by (auto simp: controller_ok_def shown_revisions_def balanced_def)
qed

definition still_listeners :: "int state_listeners" where
  "still_listeners l s = \<lparr>ar_removes = [], ar_disposes = False, ar_throws = False\<rparr>"

definition sample_controller :: "int controller" where
  "sample_controller = run_accepted (\<lambda>v. v) still_listeners
     (fst (connect (\<lambda>v. v) still_listeners [3] None (subscribe_state 7 (createAdapterController 2))))"

lemma sample_controller_run: "(controller_step (\<lambda>v. v) still_listeners)\<^sup>*\<^sup>* (createAdapterController 2) sample_controller"
proof -
  let ?step = "controller_step (\<lambda>v. v) still_listeners"
  let ?st = "subscribe_state 7 (createAdapterController 2)"
  have "?step\<^sup>*\<^sup>* (createAdapterController 2) ?st" by (rule r_into_rtranclp, rule state_subscribed)
  from rtranclp.rtrancl_into_rtrancl [OF this connected] have "?step\<^sup>*\<^sup>* (createAdapterController 2) (fst (connect (\<lambda>v. v) still_listeners [3] None ?st))" .
  from rtranclp.rtrancl_into_rtrancl [OF this accepted_ran] show ?thesis by (simp only: sample_controller_def)
qed

theorem controller_shows_and_releases_witness:
  "map (\<lambda>c. qs_snapshot (snd c)) (ac_calls sample_controller) = [2, 3]
     \<and> sorted (map (\<lambda>c. qs_snapshot (snd c)) (ac_calls sample_controller)) \<and> subscriptions (ac_session sample_controller) = 1"
proof -
  have "map (\<lambda>c. qs_snapshot (snd c)) (ac_calls sample_controller) = [2, 3] \<and> ac_unsubscribe sample_controller" by code_simp
  with controller_shows_and_releases [OF sample_controller_run] show ?thesis by simp
qed

text \<open>C36: closing is final: when the close of the session has settled, no later event changes the state shown, calls
  a listener or touches the session, though snapshots, actions and calls of the adapter still arrive.\<close>

theorem controller_close_is_final:
  assumes "(controller_step revision react)\<^sup>*\<^sup>* (createAdapterController snap) st" "ac_closing st = ClosedDown"
    "(controller_step revision react)\<^sup>*\<^sup>* st st'"
  shows "qs_status (ac_state st') = Closed \<and> ac_state st' = ac_state st \<and> ac_calls st' = ac_calls st \<and> ac_session st' = ac_session st"
proof -
  have ok: "controller_ok revision st" using controller_run_ok [OF assms(1) controller_start_ok] .
  with closed_run [OF assms(3) ok assms(2)] assms(2) show ?thesis by (simp add: controller_ok_def)
qed

definition sample_closed :: "int controller" where
  "sample_closed = close_end still_listeners (close_session (close_begin sample_controller))"

theorem controller_close_is_final_witness:
  "let later = fst (connect (\<lambda>v. v) still_listeners [9] None (subscribe_state 8 sample_closed))
   in qs_status (ac_state later) = Closed \<and> qs_snapshot (ac_state later) = 3 \<and> ac_calls later = ac_calls sample_closed
     \<and> ac_session later = ac_session sample_closed"
proof -
  let ?step = "controller_step (\<lambda>v. v) still_listeners"
  have phases: "ac_closing (close_begin sample_controller) = Disposed \<and> ac_closing (close_session (close_begin sample_controller)) = AwaitSession
      \<and> ac_closing sample_closed = ClosedDown \<and> qs_snapshot (ac_state sample_closed) = 3" by code_simp
  from rtranclp.rtrancl_into_rtrancl [OF sample_controller_run close_began]
  have "?step\<^sup>*\<^sup>* (createAdapterController 2) (close_begin sample_controller)" .
  from rtranclp.rtrancl_into_rtrancl [OF this session_close_called] phases
  have "?step\<^sup>*\<^sup>* (createAdapterController 2) (close_session (close_begin sample_controller))" by blast
  from rtranclp.rtrancl_into_rtrancl [OF this close_ended] phases have "?step\<^sup>*\<^sup>* (createAdapterController 2) sample_closed"
    unfolding sample_closed_def by blast
  note closed_down = controller_close_is_final [OF this phases [THEN conjunct2, THEN conjunct2, THEN conjunct1]]
  have "?step\<^sup>*\<^sup>* sample_closed (subscribe_state 8 sample_closed)" by (rule r_into_rtranclp, rule state_subscribed)
  from closed_down [OF rtranclp.rtrancl_into_rtrancl [OF this connected]] closed_down [OF rtranclp.rtrancl_refl] phases
  show ?thesis unfolding Let_def by metis
qed

end
