(* ===== verification/Websocket.thy ===== *)
theory Websocket
  imports Service_Delivery Http
begin

text \<open>
  \<open>packages/server/src/websocket.ts\<close>: the stream of a session.  A connection is numbered, and its number is
  the listener it subscribes with.  Fastify and the socket are third-party code: the query and the
  path parameter, the events of the socket and whether a \<open>send\<close> throws are inputs; what the handler
  does to the socket is recorded.  \<open>randomUUID\<close> is an argument.  The promise of \<open>subscribe\<close> settles
  before its continuation runs, so both are steps of their own and a disconnection can come first,
  in between or last.
\<close>

section \<open>One connection\<close>

datatype socket_action = SendEvent qaraa_event | SendEnvelope error_envelope | CloseSocket nat qaraa_error_code

text \<open>Where the handler is: before the subscription runs, before its continuation, after it.\<close>

datatype stream_phase = Subscribing js | Answered "server_error + nat" | Over

record stream =
  sm_sessionId :: jstring
  sm_requestId :: jstring
  sm_disconnected :: bool
  sm_unsubscribe :: "nat option"
  sm_phase :: stream_phase
  sm_actions :: "socket_action list"
  sm_closing :: "(nat \<times> qaraa_error_code) option"
  sm_logged :: "server_error list"

definition stream_requestId :: "jstring \<Rightarrow> js \<Rightarrow> jstring" where
  "stream_requestId uuid query =
     (if text_field (js_get query ''requestId'') then the_str (js_get query ''requestId'') else uuid)"

definition negotiationError :: server_error where
  "negotiationError = trustedError UNSUPPORTED_PROTOCOL ''WebSocket protocol negotiation is invalid'' False
     (JObj [(''supportedProtocolVersion'', js_int PROTOCOL_VERSION)])"

text \<open>The revision a stream starts from, if the query is acceptable.\<close>

definition negotiate :: "js \<Rightarrow> js_num option" where
  "negotiate query =
     (let requestedVersion = (if js_get query ''protocolVersion'' = JUndefined then Fin (of_int PROTOCOL_VERSION)
            else to_number (js_get query ''protocolVersion''));
          lastSnapshotRevision = (if js_get query ''lastSnapshotRevision'' = JUndefined then Fin 0
            else to_number (js_get query ''lastSnapshotRevision''))
      in if requestedVersion \<noteq> Fin (of_int PROTOCOL_VERSION) \<or> \<not> isSafeInteger lastSnapshotRevision
           \<or> js_less lastSnapshotRevision (Fin 0)
         then None else Some lastSnapshotRevision)"

text \<open>\<open>sendErrorAndClose\<close>: the socket is closed when the envelope was sent, at once when \<open>send\<close> throws.\<close>

definition sendErrorAndClose :: "bool \<Rightarrow> error_envelope \<Rightarrow> nat \<Rightarrow> stream \<Rightarrow> stream" where
  "sendErrorAndClose throws envelope closeCode st =
     (if throws then st\<lparr>sm_actions := sm_actions st @ [CloseSocket closeCode (env_code envelope)]\<rparr>
      else st\<lparr>sm_actions := sm_actions st @ [SendEnvelope envelope], sm_closing := Some (closeCode, env_code envelope)\<rparr>)"

text \<open>The callback of \<open>send\<close>; only its first call closes.\<close>

definition envelope_sent :: "stream \<Rightarrow> stream" where
  "envelope_sent st = (case sm_closing st of None \<Rightarrow> st
     | Some (closeCode, code) \<Rightarrow> st\<lparr>sm_closing := None, sm_actions := sm_actions st @ [CloseSocket closeCode code]\<rparr>)"

definition send_failure :: "bool \<Rightarrow> server_error \<Rightarrow> nat \<Rightarrow> stream \<Rightarrow> stream" where
  "send_failure throws error closeCode st = (case error of
       ProtocolFailure e \<Rightarrow> (case toEnvelope e (sm_requestId st) of
           Inr envelope \<Rightarrow> sendErrorAndClose throws envelope closeCode st
         | Inl _ \<Rightarrow> st)
     | _ \<Rightarrow> st)"

definition stream_command :: "jstring \<Rightarrow> jstring \<Rightarrow> js_num \<Rightarrow> js" where
  "stream_command i sessionId lastSnapshotRevision = JObj [(''protocolVersion'', js_int PROTOCOL_VERSION),
     (''requestId'', JStr i), (''type'', js_string ''session.resume''), (''sessionId'', JStr sessionId),
     (''lastSnapshotRevision'', JNum lastSnapshotRevision)]"

definition open_stream :: "jstring \<Rightarrow> jstring \<Rightarrow> js \<Rightarrow> bool \<Rightarrow> stream" where
  "open_stream uuid sessionId query throws =
     (let st = \<lparr>sm_sessionId = sessionId, sm_requestId = stream_requestId uuid query, sm_disconnected = False,
            sm_unsubscribe = None, sm_phase = Over, sm_actions = [], sm_closing = None, sm_logged = []\<rparr>
      in case negotiate query of
           None \<Rightarrow> send_failure throws negotiationError 4406 st
         | Some revision \<Rightarrow> st\<lparr>sm_phase := Subscribing (stream_command (sm_requestId st) sessionId revision)\<rparr>)"

text \<open>The listener of the subscription.\<close>

definition stream_listener :: "qaraa_event \<Rightarrow> stream \<Rightarrow> stream" where
  "stream_listener event st = (if sm_disconnected st then st else st\<lparr>sm_actions := sm_actions st @ [SendEvent event]\<rparr>)"

definition closeCode :: "qaraa_error \<Rightarrow> nat" where
  "closeCode e = (if qe_code e = SESSION_NOT_FOUND then 4404 else if qe_retryable e then 1013 else 1008)"

text \<open>The \<open>catch\<close> handler.\<close>

definition stream_failed :: "bool \<Rightarrow> server_error \<Rightarrow> stream \<Rightarrow> stream" where
  "stream_failed throws error st =
     (if sm_disconnected st then st
      else (case error of
          ProtocolFailure e \<Rightarrow> if qe_trusted e then send_failure throws error (closeCode e) st
            else send_failure throws internalError 1011 (st\<lparr>sm_logged := sm_logged st @ [error]\<rparr>)
        | _ \<Rightarrow> send_failure throws internalError 1011 (st\<lparr>sm_logged := sm_logged st @ [error]\<rparr>)))"

section \<open>Connections over the service\<close>

record ws_world =
  ww_service :: "memory_store service_state"
  ww_pending :: "(jstring \<times> js) list"
  ww_streams :: "stream list"

text \<open>The calls of listeners that one operation of the service made reach their connections.\<close>

definition receive :: "stream list \<Rightarrow> nat \<times> qaraa_event \<Rightarrow> stream list" where
  "receive streams c = (if fst c < length streams then streams[fst c := stream_listener (snd c) (streams ! fst c)] else streams)"

definition service_moved :: "memory_store service_state \<Rightarrow> ws_world \<Rightarrow> ws_world" where
  "service_moved sv w = w\<lparr>ww_service := sv,
     ww_streams := foldl receive (ww_streams w) (drop (length (sv_calls (ww_service w))) (sv_calls sv))\<rparr>"

definition set_stream :: "nat \<Rightarrow> stream \<Rightarrow> ws_world \<Rightarrow> ws_world" where
  "set_stream n st w = w\<lparr>ww_streams := (ww_streams w)[n := st]\<rparr>"

definition connect_stream :: "stream \<Rightarrow> ws_world \<Rightarrow> ws_world" where
  "connect_stream st w = w\<lparr>ww_streams := ww_streams w @ [st]\<rparr>"

text \<open>The subscription runs in the service.\<close>

definition run_subscription :: "service_config \<Rightarrow> nat \<Rightarrow> js \<Rightarrow> ws_world \<Rightarrow> ws_world" where
  "run_subscription config n cmd w = (case subscribe_session MemorySessionStore config cmd n (ww_service w) of
     (sv, result) \<Rightarrow>
       let w' = service_moved sv w in set_stream n ((ww_streams w' ! n)\<lparr>sm_phase := Answered result\<rparr>) w')"

definition release :: "stream \<Rightarrow> nat \<Rightarrow> ws_world \<Rightarrow> ws_world" where
  "release st identity w = w\<lparr>ww_service := releaseSubscriber (sm_sessionId st) identity (ww_service w)\<rparr>"

text \<open>Its continuation.\<close>

definition subscription_settled :: "bool \<Rightarrow> nat \<Rightarrow> server_error + nat \<Rightarrow> ws_world \<Rightarrow> ws_world" where
  "subscription_settled throws n result w =
     (let st = (ww_streams w ! n)\<lparr>sm_phase := Over\<rparr> in
      case result of
        Inr identity \<Rightarrow>
          let w' = set_stream n (st\<lparr>sm_unsubscribe := Some identity\<rparr>) w
          in if sm_disconnected st then release st identity w' else w'
      | Inl error \<Rightarrow> set_stream n (stream_failed throws error st) w)"

definition disconnect_stream :: "nat \<Rightarrow> ws_world \<Rightarrow> ws_world" where
  "disconnect_stream n w =
     (let st = ww_streams w ! n; w' = set_stream n (st\<lparr>sm_disconnected := True\<rparr>) w
      in case sm_unsubscribe st of Some identity \<Rightarrow> release st identity w' | None \<Rightarrow> w')"

inductive ws_step :: "service_config \<Rightarrow> ws_world \<Rightarrow> ws_world \<Rightarrow> bool" for config where
  connection_opened: "ws_step config w (connect_stream (open_stream uuid sessionId query throws) w)"
| subscription_ran: "n < length (ww_streams w) \<Longrightarrow> sm_phase (ww_streams w ! n) = Subscribing cmd
     \<Longrightarrow> ws_step config w (run_subscription config n cmd w)"
| continuation_ran: "n < length (ww_streams w) \<Longrightarrow> sm_phase (ww_streams w ! n) = Answered result
     \<Longrightarrow> ws_step config w (subscription_settled throws n result w)"
| connection_closed: "n < length (ww_streams w) \<Longrightarrow> ws_step config w (disconnect_stream n w)"
| callback_ran: "n < length (ww_streams w) \<Longrightarrow> ws_step config w (set_stream n (envelope_sent (ww_streams w ! n)) w)"
| service_ran: "service_step config None (ww_service w) (ww_pending w) sv pending
     \<Longrightarrow> ws_step config w ((service_moved sv w)\<lparr>ww_pending := pending\<rparr>)"

inductive_cases ws_stepE: "ws_step config w w'"

text \<open>A server that just started.\<close>

inductive ws_run :: "service_config \<Rightarrow> ws_world \<Rightarrow> bool" for config where
  server_started: "createSessionService ajv corpus resolve maxSessions maxSubscribers accepts [] = Inr (config, sv)
     \<Longrightarrow> ws_run config \<lparr>ww_service = sv, ww_pending = [], ww_streams = []\<rparr>"
| server_ran: "ws_run config w \<Longrightarrow> ws_step config w w' \<Longrightarrow> ws_run config w'"

end
