(* ===== verification/Websocket_Proofs.thy ===== *)
theory Websocket_Proofs
  imports Websocket Remote_Request
begin

text \<open>
  Streams release what they hold: no subscription outlives its connection, whichever comes first, the
  disconnection or the end of the subscription.  And the revision a remote client writes into the
  URL of its stream is the one the server reads.
\<close>

section \<open>Subscriptions of the service\<close>

lemma release_gone: "s \<in> set (subscribers_at (releaseSubscriber i a st) i) \<Longrightarrow> sub_identity s \<noteq> a"
  by (auto simp: releaseSubscriber_def subscribers_at_def Let_def split: option.splits if_splits)

lemma release_shrinks: "shrinks st (releaseSubscriber i a st)"
  using only_drops_release by (rule shrinks_drops)

lemma step_shrinks:
  assumes "service_step config None st pending st' pending'"
  shows "shrinks st st'"
  using assms
proof cases
  case (create_called i cmd)
  then show ?thesis by (auto simp: create_call_def reserveSession_def split: if_splits)
next
  case (create_ran i cmd)
  with service.create_run_quiet show ?thesis by blast
next
  case (delete_ran cmd)
  with service.delete_quiet show ?thesis by blast
qed (use submit_session_shrinks reset_session_shrinks release_shrinks in auto)

text \<open>A subscription adds at most itself.\<close>

lemma subscribe_adds:
  assumes "subscribe_session S config cmd n st = (st', result)" "s \<in> set (subscribers_at st' j)"
  shows "s \<in> set (subscribers_at st j) \<or> (j = the_str (js_get cmd ''sessionId'') \<and> sub_listener s = n \<and> result = Inr (sub_identity s))"
proof -
  let ?j = "the_str (js_get cmd ''sessionId'')" and ?q = "the_str (js_get cmd ''requestId'')"
  show ?thesis
  proof (cases "store_get S (sv_store st) ?j = None \<or> sc_maxSubscribers config \<le> sv_subscriberCount st")
    case True
    with assms show ?thesis by (auto simp: subscribe_session_def Let_def split: option.splits)
  next
    case False
    then obtain r where r: "store_get S (sv_store st) ?j = Some r" by auto
    let ?sub = "\<lparr>sub_identity = sv_nextIdentity st, sub_requestId = ?q, sub_listener = n\<rparr>"
    let ?st1 = "st\<lparr>sv_nextIdentity := Suc (sv_nextIdentity st), sv_subscriberCount := sv_subscriberCount st + 1,
        sv_subscribers := js_map_set ?j (subscribers_at st ?j @ [?sub]) (sv_subscribers st)\<rparr>"
    let ?events = "map (snapshot_event ?j ?q) (missed_snapshots (the_int (js_get cmd ''lastSnapshotRevision'')) (rec_snapshots r))"
    obtain st2 fine where st2: "replay config n ?events ?st1 = (st2, fine)" by (rule prod.exhaust)
    have subs: "subscribers_at st2 k = (if k = ?j then subscribers_at st ?j @ [?sub] else subscribers_at st k)" for k
      using replay_same [OF st2] by (simp add: subscribers_at_def)
    have ends: "(st', result) = (if fine then (st2, Inr (sv_nextIdentity st))
        else (releaseSubscriber ?j (sv_nextIdentity st) st2, Inl listener_error))"
      using assms(1) r False st2 by (cases fine) (simp_all add: subscribe_session_def Let_def subscribers_at_def [symmetric])
    show ?thesis
    proof (cases fine)
      case True
      with ends assms(2) show ?thesis by (auto simp: subs split: if_splits)
    next
      case notfine: False
      with ends have st': "st' = releaseSubscriber ?j (sv_nextIdentity st) st2" by simp
      have "s \<in> set (subscribers_at st2 j)" using assms(2) release_shrinks unfolding st' shrinks_def by blast
      moreover have "j = ?j \<Longrightarrow> sub_identity s \<noteq> sv_nextIdentity st" using assms(2) release_gone unfolding st' by blast
      ultimately show ?thesis by (auto simp: subs split: if_splits)
    qed
  qed
qed

section \<open>No subscription outlives its connection\<close>

text \<open>Why the subscription \<open>s\<close> of the session \<open>j\<close> is there: its connection still waits for the continuation of
  its subscription, or is connected and holds the stop function.\<close>

definition held :: "stream list \<Rightarrow> jstring \<Rightarrow> session_subscriber \<Rightarrow> bool" where
  "held streams j s \<longleftrightarrow> sub_listener s < length streams
     \<and> (let st = streams ! sub_listener s in sm_sessionId st = j
         \<and> (sm_phase st = Answered (Inr (sub_identity s))
            \<or> sm_phase st = Over \<and> sm_unsubscribe st = Some (sub_identity s) \<and> \<not> sm_disconnected st))"

definition streams_ok :: "stream list \<Rightarrow> bool" where
  "streams_ok streams \<longleftrightarrow> (\<forall>st \<in> set streams. sm_phase st \<noteq> Over \<longrightarrow> sm_unsubscribe st = None)
     \<and> (\<forall>st \<in> set streams. \<forall>cmd. sm_phase st = Subscribing cmd \<longrightarrow> the_str (js_get cmd ''sessionId'') = sm_sessionId st)"

definition world_ok :: "ws_world \<Rightarrow> bool" where
  "world_ok w \<longleftrightarrow> streams_ok (ww_streams w)
     \<and> (\<forall>j. \<forall>s \<in> set (subscribers_at (ww_service w) j). held (ww_streams w) j s)"

text \<open>A stream that keeps what \<open>held\<close> looks at.\<close>

definition same_hold :: "stream \<Rightarrow> stream \<Rightarrow> bool" where
  "same_hold st st' \<longleftrightarrow> sm_sessionId st' = sm_sessionId st \<and> sm_phase st' = sm_phase st \<and> sm_unsubscribe st' = sm_unsubscribe st
     \<and> sm_disconnected st' = sm_disconnected st"

lemma same_hold_listener [simp]: "same_hold st (stream_listener event st)"
  by (simp add: same_hold_def stream_listener_def)

lemma same_hold_sent [simp]: "same_hold st (envelope_sent st)"
  by (simp add: same_hold_def envelope_sent_def split: option.split)

lemma same_hold_failure: "same_hold st (send_failure throws error code st)"
  by (simp add: same_hold_def send_failure_def sendErrorAndClose_def split: server_error.split sum.split)

lemma same_hold_failed: "same_hold st (stream_failed throws error st)"
proof -
  have "same_hold st (send_failure throws e code (st\<lparr>sm_logged := l\<rparr>))" for e code l
    using same_hold_failure [of "st\<lparr>sm_logged := l\<rparr>" throws e code] by (simp add: same_hold_def)
  moreover have "same_hold st st" by (simp add: same_hold_def)
  ultimately show ?thesis using same_hold_failure by (simp add: stream_failed_def split: server_error.split)
qed

definition same_holds :: "stream list \<Rightarrow> stream list \<Rightarrow> bool" where
  "same_holds streams streams' \<longleftrightarrow> length streams' = length streams \<and> (\<forall>n < length streams. same_hold (streams ! n) (streams' ! n))"

lemma same_hold_refl [simp]: "same_hold st st"
  by (simp add: same_hold_def)

lemma same_holds_update:
  assumes "same_hold (streams ! n) st"
  shows "same_holds streams (streams[n := st])"
proof -
  have "same_hold (streams ! k) (streams[n := st] ! k)" if "k < length streams" for k
    using assms that by (cases "n = k") simp_all
  then show ?thesis by (simp add: same_holds_def)
qed

lemma same_holds_receives: "same_holds streams (foldl receive streams cs)"
proof (induction cs arbitrary: streams)
  case (Cons c cs)
  have "same_holds streams (receive streams c)"
    by (simp add: receive_def same_holds_update) (simp add: same_holds_def same_hold_def)
  with Cons [of "receive streams c"] show ?case by (simp add: same_holds_def same_hold_def)
qed (simp add: same_holds_def same_hold_def)

lemma same_holds_held: "same_holds streams streams' \<Longrightarrow> held streams' j s = held streams j s"
  by (auto simp: held_def same_holds_def same_hold_def Let_def)

lemma same_holds_ok:
  assumes "same_holds streams streams'" "streams_ok streams"
  shows "streams_ok streams'"
proof -
  have "\<exists>st0 \<in> set streams. same_hold st0 st" if "st \<in> set streams'" for st
    using that assms(1) by (metis in_set_conv_nth same_holds_def)
  with assms(2) show ?thesis unfolding streams_ok_def same_hold_def by metis
qed

lemma service_moved_ok:
  assumes "world_ok w" "shrinks (ww_service w) sv"
  shows "world_ok (service_moved sv w)"
  using assms same_holds_receives same_holds_held same_holds_ok
  unfolding world_ok_def service_moved_def shrinks_def by (simp, blast)

lemma held_update:
  assumes "held streams j s" "n < length streams"
    and "sub_listener s = n \<Longrightarrow> sm_sessionId (streams ! n) = j
       \<Longrightarrow> sm_phase (streams ! n) = Answered (Inr (sub_identity s))
          \<or> sm_phase (streams ! n) = Over \<and> sm_unsubscribe (streams ! n) = Some (sub_identity s) \<and> \<not> sm_disconnected (streams ! n)
       \<Longrightarrow> sm_sessionId st = j \<and> (sm_phase st = Answered (Inr (sub_identity s))
          \<or> sm_phase st = Over \<and> sm_unsubscribe st = Some (sub_identity s) \<and> \<not> sm_disconnected st)"
  shows "held (streams[n := st]) j s"
  using assms by (cases "sub_listener s = n") (auto simp: held_def Let_def)

lemma streams_ok_update:
  assumes "streams_ok streams" "sm_phase st = Over \<or> (\<exists>result. sm_phase st = Answered result) \<and> sm_unsubscribe st = None"
  shows "streams_ok (streams[n := st])"
  using assms set_update_subset_insert [of streams n st] unfolding streams_ok_def by fastforce

lemma stream_connect_ok:
  assumes "world_ok w" "sm_phase st = Over \<or> sm_unsubscribe st = None"
    "\<And>cmd. sm_phase st = Subscribing cmd \<Longrightarrow> the_str (js_get cmd ''sessionId'') = sm_sessionId st"
  shows "world_ok (connect_stream st w)"
  using assms by (fastforce simp: world_ok_def connect_stream_def streams_ok_def held_def nth_append Let_def)

lemma open_stream_phase:
  "sm_unsubscribe (open_stream uuid sessionId query throws) = None"
  "sm_phase (open_stream uuid sessionId query throws) = Subscribing cmd
     \<Longrightarrow> the_str (js_get cmd ''sessionId'') = sm_sessionId (open_stream uuid sessionId query throws)"
  using same_hold_failure [of "\<lparr>sm_sessionId = sessionId, sm_requestId = stream_requestId uuid query, sm_disconnected = False,
      sm_unsubscribe = None, sm_phase = Over, sm_actions = [], sm_closing = None, sm_logged = []\<rparr>" throws negotiationError 4406]
  by (auto simp: open_stream_def Let_def same_hold_def stream_command_def split: option.splits)

lemma run_subscription_ok:
  assumes "world_ok w" "n < length (ww_streams w)" "sm_phase (ww_streams w ! n) = Subscribing cmd"
  shows "world_ok (run_subscription config n cmd w)"
proof -
  obtain sv result where sub: "subscribe_session MemorySessionStore config cmd n (ww_service w) = (sv, result)" by (rule prod.exhaust)
  let ?w = "service_moved sv w"
  let ?st = "ww_streams ?w ! n"
  have same: "same_holds (ww_streams w) (ww_streams ?w)" by (simp add: service_moved_def same_holds_receives)
  have ok: "streams_ok (ww_streams w)" and held: "held (ww_streams w) j s" if "s \<in> set (subscribers_at (ww_service w) j)" for j s
    using assms(1) that by (auto simp: world_ok_def)
  have ok: "streams_ok (ww_streams ?w)" using assms(1) same same_holds_ok by (auto simp: world_ok_def)
  have st: "sm_phase ?st = Subscribing cmd" "n < length (ww_streams ?w)" using same assms(2,3) by (auto simp: same_holds_def same_hold_def)
  then have none: "sm_unsubscribe ?st = None" "the_str (js_get cmd ''sessionId'') = sm_sessionId ?st"
    using ok nth_mem [OF st(2)] unfolding streams_ok_def by (force, blast)
  have "held ((ww_streams ?w)[n := ?st\<lparr>sm_phase := Answered result\<rparr>]) j s" if "s \<in> set (subscribers_at sv j)" for j s
  proof -
    from subscribe_adds [OF sub that] consider "s \<in> set (subscribers_at (ww_service w) j)"
      | "j = the_str (js_get cmd ''sessionId'')" "sub_listener s = n" "result = Inr (sub_identity s)" by blast
    then show ?thesis
    proof cases
      case 1
      then have "held (ww_streams ?w) j s" using held same_holds_held [OF same] by blast
      then show ?thesis by (rule held_update [OF _ st(2)]) (simp add: st(1))
    next
      case 2
      then show ?thesis using st(2) none(2) by (simp add: held_def)
    qed
  qed
  moreover have "streams_ok ((ww_streams ?w)[n := ?st\<lparr>sm_phase := Answered result\<rparr>])"
    by (rule streams_ok_update [OF ok]) (simp add: none(1))
  ultimately show ?thesis by (simp add: world_ok_def run_subscription_def sub set_stream_def Let_def) (simp add: service_moved_def)
qed

lemma stream_release_ok:
  assumes "streams_ok (ww_streams w)"
    "\<And>j s. s \<in> set (subscribers_at (ww_service w) j) \<Longrightarrow> \<not> (j = sm_sessionId st \<and> sub_identity s = identity) \<Longrightarrow> held (ww_streams w) j s"
  shows "world_ok (release st identity w)"
proof -
  have "held (ww_streams w) j s" if "s \<in> set (subscribers_at (releaseSubscriber (sm_sessionId st) identity (ww_service w)) j)" for j s
  proof (rule assms(2))
    show "s \<in> set (subscribers_at (ww_service w) j)" using that release_shrinks unfolding shrinks_def by blast
    show "\<not> (j = sm_sessionId st \<and> sub_identity s = identity)" using that release_gone by blast
  qed
  with assms(1) show ?thesis by (simp add: world_ok_def release_def)
qed

lemma settled_ok:
  assumes "world_ok w" "n < length (ww_streams w)" "sm_phase (ww_streams w ! n) = Answered result"
  shows "world_ok (subscription_settled throws n result w)"
proof -
  let ?st = "(ww_streams w ! n)\<lparr>sm_phase := Over\<rparr>"
  have ok: "streams_ok (ww_streams w)" and held: "\<And>j s. s \<in> set (subscribers_at (ww_service w) j) \<Longrightarrow> held (ww_streams w) j s"
    using assms(1) by (auto simp: world_ok_def)
  show ?thesis
  proof (cases result)
    case (Inl error)
    have same: "same_hold ?st (stream_failed throws error ?st)" by (rule same_hold_failed)
    have "held ((ww_streams w)[n := stream_failed throws error ?st]) j s" if "s \<in> set (subscribers_at (ww_service w) j)" for j s
      by (rule held_update [OF held [OF that] assms(2)]) (simp add: assms(3) Inl)
    moreover have "streams_ok ((ww_streams w)[n := stream_failed throws error ?st])"
      using same by (intro streams_ok_update [OF ok]) (simp add: same_hold_def)
    ultimately show ?thesis by (simp add: subscription_settled_def Let_def Inl set_stream_def world_ok_def)
  next
    case (Inr identity)
    let ?new = "?st\<lparr>sm_unsubscribe := Some identity\<rparr>"
    let ?w = "set_stream n ?new w"
    have ok': "streams_ok (ww_streams ?w)" unfolding set_stream_def by (simp add: streams_ok_update [OF ok])
    have one: "held (ww_streams ?w) j s"
      if "s \<in> set (subscribers_at (ww_service w) j)" "\<not> sm_disconnected ?st \<or> \<not> (j = sm_sessionId ?st \<and> sub_identity s = identity)" for j s
      unfolding set_stream_def using that(2) assms(3) Inr by (simp, intro held_update [OF held [OF that(1)] assms(2)]) auto
    show ?thesis
    proof (cases "sm_disconnected ?st")
      case True
      then have "world_ok (release ?st identity ?w)"
        using one by (intro stream_release_ok [OF ok']) (simp add: set_stream_def)
      with True show ?thesis by (simp add: subscription_settled_def Let_def Inr)
    next
      case False
      then have "world_ok ?w" using one ok' by (simp add: world_ok_def set_stream_def)
      with False show ?thesis by (simp add: subscription_settled_def Let_def Inr)
    qed
  qed
qed

lemma disconnect_ok:
  assumes "world_ok w" "n < length (ww_streams w)"
  shows "world_ok (disconnect_stream n w)"
proof -
  let ?st = "ww_streams w ! n"
  let ?new = "?st\<lparr>sm_disconnected := True\<rparr>"
  let ?w = "set_stream n ?new w"
  have ok: "streams_ok (ww_streams w)" and held: "\<And>j s. s \<in> set (subscribers_at (ww_service w) j) \<Longrightarrow> held (ww_streams w) j s"
    using assms(1) by (auto simp: world_ok_def)
  have "?st \<in> set (ww_streams w)" using assms(2) by simp
  with ok have new: "sm_phase ?st \<noteq> Over \<longrightarrow> sm_unsubscribe ?st = None"
    "\<forall>cmd. sm_phase ?st = Subscribing cmd \<longrightarrow> the_str (js_get cmd ''sessionId'') = sm_sessionId ?st"
    unfolding streams_ok_def by blast+
  then have ok': "streams_ok (ww_streams ?w)"
    using ok set_update_subset_insert [of "ww_streams w" n ?new] unfolding streams_ok_def set_stream_def by fastforce
  have one: "held (ww_streams ?w) j s"
    if "s \<in> set (subscribers_at (ww_service w) j)" "\<not> (j = sm_sessionId ?st \<and> sm_unsubscribe ?st = Some (sub_identity s))" for j s
    unfolding set_stream_def using that(2) by (simp, intro held_update [OF held [OF that(1)] assms(2)]) auto
  show ?thesis
  proof (cases "sm_unsubscribe ?st")
    case None
    then have "world_ok ?w" using one ok' by (simp add: world_ok_def set_stream_def)
    with None show ?thesis by (simp add: disconnect_stream_def Let_def)
  next
    case (Some identity)
    have "world_ok (release ?st identity ?w)"
      using one Some by (intro stream_release_ok [OF ok']) (auto simp: set_stream_def)
    with Some show ?thesis by (simp add: disconnect_stream_def Let_def)
  qed
qed

lemma ws_step_ok:
  assumes "ws_step config w w'" "world_ok w"
  shows "world_ok w'"
  using assms(1)
proof cases
  case (connection_opened uuid sessionId query throws)
  then show ?thesis using stream_connect_ok [OF assms(2)] open_stream_phase by blast
next
  case (callback_ran n)
  have "same_holds (ww_streams w) (ww_streams w')" by (simp add: callback_ran set_stream_def same_holds_update)
  with assms(2) same_holds_held same_holds_ok show ?thesis by (auto simp: world_ok_def callback_ran set_stream_def)
next
  case (service_ran sv pending)
  from service_moved_ok [OF assms(2) step_shrinks [OF service_ran(2)]] show ?thesis by (simp add: service_ran(1) world_ok_def)
qed (use assms(2) run_subscription_ok settled_ok disconnect_ok in blast)+

lemma ws_run_ok: "ws_run config w \<Longrightarrow> world_ok w"
proof (induction rule: ws_run.induct)
  case (server_started ajv corpus resolve maxSessions maxSubscribers accepts sv)
  then have "sv_subscribers sv = []"
    by (auto simp: createSessionService_def ebind_Inr_iff split: if_splits sum.splits)
  then show ?case by (simp add: world_ok_def streams_ok_def subscribers_at_def)
next
  case (server_ran w w')
  then show ?case by (blast intro: ws_step_ok)
qed

section \<open>The negotiated revision\<close>

lemma negotiate_dec:
  assumes "int n \<le> safe_limit" "js_get query ''protocolVersion'' = JStr (dec (nat PROTOCOL_VERSION))"
    "js_get query ''lastSnapshotRevision'' = JStr (dec n)"
  shows "negotiate query = Some (Fin (of_nat n))"
proof -
  have "string_to_number (dec (nat PROTOCOL_VERSION)) = Fin (of_int PROTOCOL_VERSION)"
    using string_to_number_dec [of "nat PROTOCOL_VERSION"] by (simp add: PROTOCOL_VERSION_def)
  moreover have "string_to_number (dec n) = Fin (of_nat n)" using assms(1) by (intro string_to_number_dec) (simp add: safe_limit_def)
  moreover have "isSafeInteger (Fin (of_nat n))" using assms(1) by (simp add: isSafeInteger_iff) (metis abs_of_nat of_int_of_nat_eq)
  ultimately show ?thesis using assms(2,3) by (simp add: negotiate_def Let_def)
qed

section \<open>Properties\<close>

text \<open>C37: no subscription outlives its connection: in every state a server reaches, whatever the order of the
  connections, their disconnections, the subscriptions, their continuations and all other operations,
  a subscription in the table of the service belongs to a connection of its session that is either
  still connected and can stop it or still waits for the continuation that will stop it.\<close>

theorem subscriptions_end_with_connections:
  assumes "ws_run config w" "s \<in> set (subscribers_at (ww_service w) j)"
  shows "sub_listener s < length (ww_streams w) \<and> sm_sessionId (ww_streams w ! sub_listener s) = j
    \<and> (sm_phase (ww_streams w ! sub_listener s) = Answered (Inr (sub_identity s))
       \<or> \<not> sm_disconnected (ww_streams w ! sub_listener s) \<and> sm_unsubscribe (ww_streams w ! sub_listener s) = Some (sub_identity s))"
  using ws_run_ok [OF assms(1)] assms(2) by (auto simp: world_ok_def held_def Let_def)

lemma moved_without_streams: "(service_moved sv \<lparr>ww_service = sv0, ww_pending = p, ww_streams = []\<rparr>)\<lparr>ww_pending := q\<rparr>
    = \<lparr>ww_service = sv, ww_pending = q, ww_streams = []\<rparr>"
proof -
  have "foldl receive [] cs = []" for cs by (induction cs) (simp_all add: receive_def)
  then show ?thesis by (simp add: service_moved_def)
qed

lemma sample_world: "ws_run (fst sample_service) \<lparr>ww_service = snd sample_service, ww_pending = [], ww_streams = []\<rparr>"
proof -
  obtain config st where c: "sample_start = Inr (config, st)" "snd (create_call config st) = Inr ()"
      "sample_service = (config, fst (create_run MemorySessionStore config (lit ''s'') sample_create (fst (create_call config st))))"
    by (rule sample_started)
  let ?sv = "fst (create_call config st)" and ?p = "[(lit ''s'', sample_create)]"
  have "ws_run config \<lparr>ww_service = st, ww_pending = [], ww_streams = []\<rparr>"
    by (rule ws_run.server_started [OF c(1) [unfolded sample_start_def]])
  moreover have "service_step config None st [] ?sv ?p" using c(2) by (intro service_step.create_called) (metis prod.collapse)
  ultimately have one: "ws_run config \<lparr>ww_service = ?sv, ww_pending = ?p, ww_streams = []\<rparr>"
    using ws_run.server_ran [OF _ ws_step.service_ran] moved_without_streams by (metis ws_world.select_convs(1,2))
  have "service_step config None ?sv ?p (snd sample_service) []"
    using service_step.create_ran [of "lit ''s''" sample_create ?p config ?sv] by (simp add: c(3))
  with one have "ws_run config \<lparr>ww_service = snd sample_service, ww_pending = [], ww_streams = []\<rparr>"
    using ws_run.server_ran [OF _ ws_step.service_ran] moved_without_streams by (metis ws_world.select_convs(1,2))
  then show ?thesis by (simp add: c(3))
qed

text \<open>A client connects and its subscription runs.\<close>

theorem subscriptions_end_with_connections_witness:
  "\<exists>w s. ws_run (fst sample_service) w \<and> s \<in> set (subscribers_at (ww_service w) (lit ''s''))
     \<and> sm_sessionId (ww_streams w ! sub_listener s) = lit ''s''"
proof -
  let ?config = "fst sample_service" and ?st = "open_stream (lit ''u'') (lit ''s'') (JObj []) False"
  let ?w = "connect_stream ?st \<lparr>ww_service = snd sample_service, ww_pending = [], ww_streams = []\<rparr>"
  have "case sm_phase ?st of Subscribing cmd \<Rightarrow> the_str (js_get cmd ''sessionId'') = lit ''s'' | _ \<Rightarrow> False" by code_simp
  then obtain cmd where cmd: "sm_phase ?st = Subscribing cmd" "the_str (js_get cmd ''sessionId'') = lit ''s''"
    by (auto split: stream_phase.splits)
  have "ws_run ?config ?w" by (rule ws_run.server_ran [OF sample_world ws_step.connection_opened])
  moreover have "0 < length (ww_streams ?w)" "sm_phase (ww_streams ?w ! 0) = Subscribing cmd" by (simp_all add: connect_stream_def cmd)
  ultimately have run: "ws_run ?config (run_subscription ?config 0 cmd ?w)" by (blast intro: ws_run.server_ran ws_step.subscription_ran)
  obtain r where r: "js_map_get (sv_store (snd sample_service)) (lit ''s'') = Some r" by (rule sample_service_session) simp
  then have found: "store_get MemorySessionStore (sv_store (snd sample_service)) (the_str (js_get cmd ''sessionId'')) = Some r"
    unfolding cmd memory.get .
  have room: "sv_subscriberCount (snd sample_service) < sc_maxSubscribers ?config" by (simp add: sample_service_idle sample_service_config)
  from subscribe_accepted [OF sample_service_config(3) found room, of 0] obtain st1 identity where
    sub: "subscribe_session MemorySessionStore ?config cmd 0 (snd sample_service) = (st1, Inr identity)"
    and "identity \<in> sub_identity ` set (subscribers_at st1 (lit ''s''))" unfolding cmd by blast
  then obtain s where s: "s \<in> set (subscribers_at st1 (lit ''s''))" by blast
  have "ww_service (run_subscription ?config 0 cmd ?w) = st1"
    by (simp add: run_subscription_def connect_stream_def sub set_stream_def service_moved_def Let_def)
  with s have "s \<in> set (subscribers_at (ww_service (run_subscription ?config 0 cmd ?w)) (lit ''s''))" by simp
  with subscriptions_end_with_connections [OF run this] run show ?thesis by blast
qed

text \<open>C38: the revision a remote client writes into the URL of its stream is the revision the server reads from the
  query and asks the service for, for every revision a number can hold exactly.\<close>

theorem stream_revision_roundtrip:
  assumes "int n \<le> safe_limit"
  shows "\<exists>path version revision. stream_url base encodedId n
      = path @ lit ''?protocolVersion='' @ version @ lit ''&lastSnapshotRevision='' @ revision
    \<and> (\<forall>query uuid sessionId throws. js_get query ''protocolVersion'' = JStr version \<longrightarrow> js_get query ''lastSnapshotRevision'' = JStr revision \<longrightarrow>
         negotiate query = Some (Fin (of_nat n))
         \<and> (\<exists>cmd. sm_phase (open_stream uuid sessionId query throws) = Subscribing cmd
              \<and> the_str (js_get cmd ''sessionId'') = sessionId \<and> the_int (js_get cmd ''lastSnapshotRevision'') = int n))"
proof (intro exI conjI allI impI)
  show "stream_url base encodedId n = (websocketBaseUrl base @ lit ''/v1/sessions/'' @ encodedId @ lit ''/stream'')
      @ lit ''?protocolVersion='' @ dec (nat PROTOCOL_VERSION) @ lit ''&lastSnapshotRevision='' @ dec n"
    by (simp add: stream_url_def)
next
  fix query
  assume q: "js_get query ''protocolVersion'' = JStr (dec (nat PROTOCOL_VERSION))" "js_get query ''lastSnapshotRevision'' = JStr (dec n)"
  show "negotiate query = Some (Fin (of_nat n))" by (rule negotiate_dec [OF assms q])
next
  fix query uuid sessionId throws
  assume q: "js_get query ''protocolVersion'' = JStr (dec (nat PROTOCOL_VERSION))" "js_get query ''lastSnapshotRevision'' = JStr (dec n)"
  have "the_int (JNum (Fin (of_nat n))) = int n" by (metis of_int_of_nat_eq the_int_of_int)
  with negotiate_dec [OF assms q] show "sm_phase (open_stream uuid sessionId query throws)
        = Subscribing (stream_command (stream_requestId uuid query) sessionId (Fin (of_nat n)))"
    "the_str (js_get (stream_command (stream_requestId uuid query) sessionId (Fin (of_nat n))) ''sessionId'') = sessionId"
    "the_int (js_get (stream_command (stream_requestId uuid query) sessionId (Fin (of_nat n))) ''lastSnapshotRevision'') = int n"
    by (simp_all add: open_stream_def Let_def stream_command_def)
qed

theorem stream_revision_roundtrip_witness:
  "\<exists>path version revision. stream_url (lit ''https://h'') (lit ''s'') 41 = path @ lit ''?protocolVersion='' @ version @ lit ''&lastSnapshotRevision='' @ revision
     \<and> negotiate (JObj [(''protocolVersion'', JStr version), (''lastSnapshotRevision'', JStr revision)]) = Some (Fin 41)"
proof -
  have "int 41 \<le> safe_limit" by (simp add: safe_limit_def)
  from stream_revision_roundtrip [OF this, of "lit ''https://h''" "lit ''s''"] obtain path version revision where
    u: "stream_url (lit ''https://h'') (lit ''s'') 41 = path @ lit ''?protocolVersion='' @ version @ lit ''&lastSnapshotRevision='' @ revision"
    and n: "\<And>query. js_get query ''protocolVersion'' = JStr version \<Longrightarrow> js_get query ''lastSnapshotRevision'' = JStr revision
       \<Longrightarrow> negotiate query = Some (Fin (of_nat 41))" by blast
  have "negotiate (JObj [(''protocolVersion'', JStr version), (''lastSnapshotRevision'', JStr revision)]) = Some (Fin (of_nat 41))"
    by (rule n) simp_all
  with u show ?thesis by (intro exI [of _ path] exI [of _ version] exI [of _ revision]) simp
qed

end
