(* ===== verification/Uri_Component.thy ===== *)
theory Uri_Component
  imports Remote_Request
begin

text \<open>
  Identifiers in URLs.  \<open>decodeURIComponent\<close> is the function of the ECMAScript standard with which a
  router reads a path segment; it undoes \<open>encodeURIComponent\<close> of \<open>Remote_Request\<close>, whose text is one
  segment of a path.  Both are functions of the standard library that the client and a router rely on;
  what the client makes of them is in \<open>Session_Urls\<close>.
\<close>

section \<open>Decoding\<close>

definition hex_value :: "16 word \<Rightarrow> int option" where
  "hex_value c = (if 48 \<le> c \<and> c \<le> 57 then Some (uint c - 48)
     else if 65 \<le> c \<and> c \<le> 70 then Some (uint c - 55)
     else if 97 \<le> c \<and> c \<le> 102 then Some (uint c - 87) else None)"

text \<open>A percent-encoded byte at the front of a text, and what follows it.\<close>

definition percent_byte :: "jstring \<Rightarrow> (int \<times> jstring) option" where
  "percent_byte s = (case s of p # a # b # r \<Rightarrow>
       (case (hex_value a, hex_value b) of (Some x, Some y) \<Rightarrow> if p = 37 then Some (16 * x + y, r) else None | _ \<Rightarrow> None)
     | _ \<Rightarrow> None)"

fun continuation :: "nat \<Rightarrow> int \<Rightarrow> jstring \<Rightarrow> (int \<times> jstring) option" where
  "continuation 0 cp s = Some (cp, s)"
| "continuation (Suc n) cp s = (case percent_byte s of
       Some (b, r) \<Rightarrow> if b div 64 = 2 then continuation n (cp * 64 + b mod 64) r else None
     | None \<Rightarrow> None)"

text \<open>The code point that starts with a byte: no overlong form, no surrogate, nothing past U+10FFFF.\<close>

definition valid_point :: "int \<Rightarrow> int \<Rightarrow> bool" where
  "valid_point least cp \<longleftrightarrow> least \<le> cp \<and> cp \<le> 0x10FFFF \<and> \<not> (0xD800 \<le> cp \<and> cp \<le> 0xDFFF)"

definition decode_point :: "int \<Rightarrow> jstring \<Rightarrow> (int \<times> jstring) option" where
  "decode_point b s =
     (let checked = (\<lambda>least x. case x of Some (cp, r) \<Rightarrow> if valid_point least cp then Some (cp, r) else None | None \<Rightarrow> None) in
      if b < 0x80 then Some (b, s)
      else if b div 32 = 6 then checked 0x80 (continuation 1 (b mod 32) s)
      else if b div 16 = 14 then checked 0x800 (continuation 2 (b mod 16) s)
      else if b div 8 = 30 then checked 0x10000 (continuation 3 (b mod 8) s)
      else None)"

definition code_units :: "int \<Rightarrow> jstring" where
  "code_units cp = (if cp < 0x10000 then [word_of_int cp]
     else [word_of_int (0xD800 + (cp - 0x10000) div 0x400), word_of_int (0xDC00 + (cp - 0x10000) mod 0x400)])"

lemma percent_byte_shorter: "percent_byte s = Some (b, r) \<Longrightarrow> length r < length s"
  by (auto simp: percent_byte_def split: list.splits option.splits if_splits)

lemma continuation_shorter: "continuation n cp s = Some (cp', r) \<Longrightarrow> length r \<le> length s"
  by (induction n cp s rule: continuation.induct) (fastforce split: option.splits if_splits dest: percent_byte_shorter)+

lemma decode_point_shorter: "decode_point b s = Some (cp, r) \<Longrightarrow> length r \<le> length s"
  by (auto simp: decode_point_def Let_def simp del: continuation.simps One_nat_def split: if_splits option.splits
      dest: continuation_shorter)

function decodeURIComponent :: "jstring \<Rightarrow> jstring option" where
  "decodeURIComponent [] = Some []"
| "decodeURIComponent (c # s) =
     (if c \<noteq> 37 then map_option ((#) c) (decodeURIComponent s)
      else (case percent_byte (c # s) of None \<Rightarrow> None | Some (b, r) \<Rightarrow>
        (case decode_point b r of None \<Rightarrow> None | Some (cp, r') \<Rightarrow> map_option ((@) (code_units cp)) (decodeURIComponent r'))))"
  by pat_completeness auto

termination
  by (relation "measure length") (auto dest!: percent_byte_shorter decode_point_shorter)

section \<open>The encoded text\<close>

lemma uint_hex: "0 \<le> d \<Longrightarrow> d < 16 \<Longrightarrow> uint (hex_digit d) = (if d < 10 then 48 + d else 55 + d)"
  by (simp add: hex_digit_def uint_word_of_int)

lemma hex_value_digit [simp]: "0 \<le> d \<Longrightarrow> d < 16 \<Longrightarrow> hex_value (hex_digit d) = Some d"
  using uint_hex [of d] by (auto simp: hex_value_def word_le_def split: if_splits)

lemma percent_byte_percent: "0 \<le> b \<Longrightarrow> b < 256 \<Longrightarrow> percent_byte (percent b @ r) = Some (b, r)"
  by (simp add: percent_byte_def percent_def)

lemma continuation_percent:
  assumes "0 \<le> x" "x < 64"
  shows "continuation (Suc n) cp (percent (0x80 + x) @ r) = continuation n (cp * 64 + x) r"
proof -
  have "(0x80 + x) div 64 = 2" by (rule int_div_pos_eq [where r = x]) (use assms in simp_all)
  moreover have "(0x80 + x) mod 64 = x" by (rule int_mod_pos_eq [where q = 2]) (use assms in simp_all)
  ultimately show ?thesis using assms by (simp add: percent_byte_percent)
qed

lemma byte_parts:
  fixes q :: int
  assumes "0 \<le> q" "q < k" "0 < k"
  shows "(k * m + q) div k = m" "(k * m + q) mod k = q"
  using int_div_pos_eq [of "k * m + q" k m q] int_mod_pos_eq [of "k * m + q" k m q] assms by simp_all

lemma lead_byte:
  "0 \<le> q \<Longrightarrow> q < 32 \<Longrightarrow> continuation 1 q s = Some (cp, r) \<Longrightarrow> valid_point 0x80 cp \<Longrightarrow> decode_point (0xC0 + q) s = Some (cp, r)"
  "0 \<le> q \<Longrightarrow> q < 16 \<Longrightarrow> continuation 2 q s = Some (cp, r) \<Longrightarrow> valid_point 0x800 cp \<Longrightarrow> decode_point (0xE0 + q) s = Some (cp, r)"
  "0 \<le> q \<Longrightarrow> q < 8 \<Longrightarrow> continuation 3 q s = Some (cp, r) \<Longrightarrow> valid_point 0x10000 cp \<Longrightarrow> decode_point (0xF0 + q) s = Some (cp, r)"
proof -
  assume q: "0 \<le> q" "q < 32" "continuation 1 q s = Some (cp, r)" "valid_point 0x80 cp"
  from byte_parts [OF q(1,2), of 6] q show "decode_point (0xC0 + q) s = Some (cp, r)"
    unfolding decode_point_def Let_def by (simp del: continuation.simps One_nat_def)
next
  assume q: "0 \<le> q" "q < 16" "continuation 2 q s = Some (cp, r)" "valid_point 0x800 cp"
  have "(0xE0 + q) div 32 = 7" using byte_parts [of q 32 7] q(1,2) by simp
  with byte_parts [OF q(1,2), of 14] q show "decode_point (0xE0 + q) s = Some (cp, r)"
    unfolding decode_point_def Let_def by (simp del: continuation.simps)
next
  assume q: "0 \<le> q" "q < 8" "continuation 3 q s = Some (cp, r)" "valid_point 0x10000 cp"
  have "(0xF0 + q) div 32 = 7" "(0xF0 + q) div 16 = 15" using byte_parts [of "16 + q" 32 7] byte_parts [of q 16 15] q(1,2) by simp_all
  with byte_parts [OF q(1,2), of 30] q show "decode_point (0xF0 + q) s = Some (cp, r)"
    unfolding decode_point_def Let_def by (simp del: continuation.simps)
qed

lemma percent_head: "\<exists>t. percent b @ r = 37 # t"
  by (simp add: percent_def)

lemma decode_percent:
  assumes "0 \<le> b" "b < 256" "decode_point b s = Some (cp, r)"
  shows "decodeURIComponent (percent b @ s) = map_option ((@) (code_units cp)) (decodeURIComponent r)"
proof -
  obtain t where t: "percent b @ s = 37 # t" using percent_head by blast
  then have "percent_byte (37 # t) = Some (b, s)" using percent_byte_percent [OF assms(1,2), of s] by simp
  with assms(3) show ?thesis unfolding t by simp
qed

lemma decode_utf8:
  assumes "valid_point 0 cp" "0x80 \<le> cp"
  shows "decodeURIComponent (concat (map percent (utf8 cp)) @ s) = map_option ((@) (code_units cp)) (decodeURIComponent s)"
proof -
  have cp: "0 \<le> cp" "cp \<le> 0x10FFFF" "\<not> (0xD800 \<le> cp \<and> cp \<le> 0xDFFF)" using assms by (auto simp: valid_point_def)
  have parts: "cp div 4096 * 64 + cp div 64 mod 64 = cp div 64" "cp div 262144 * 64 + cp div 4096 mod 64 = cp div 4096"
    using div_mult_mod_eq [of "cp div 64" 64] div_mult_mod_eq [of "cp div 4096" 64]
    by (simp_all add: zdiv_zmult2_eq [symmetric])
  consider "cp < 0x800" | "0x800 \<le> cp" "cp < 0x10000" | "0x10000 \<le> cp" by linarith
  then show ?thesis
  proof cases
    case 1
    have "continuation 1 (cp div 64) (percent (0x80 + cp mod 64) @ s) = Some (cp, s)"
      using continuation_percent [of "cp mod 64" 0 "cp div 64" s] by simp
    from lead_byte(1) [OF _ _ this] have "decode_point (0xC0 + cp div 64) (percent (0x80 + cp mod 64) @ s) = Some (cp, s)"
      using 1 assms(2) by (simp add: valid_point_def)
    with 1 assms(2) decode_percent [of "0xC0 + cp div 64"] show ?thesis by (simp add: utf8_def)
  next
    case 2
    have "continuation 2 (cp div 4096) (percent (0x80 + cp div 64 mod 64) @ percent (0x80 + cp mod 64) @ s) = Some (cp, s)"
      using continuation_percent [of "cp div 64 mod 64" 1 "cp div 4096" "percent (0x80 + cp mod 64) @ s"]
        continuation_percent [of "cp mod 64" 0 "cp div 64" s] by (simp add: numeral_2_eq_2 parts)
    from lead_byte(2) [OF _ _ this] have
      "decode_point (0xE0 + cp div 4096) (percent (0x80 + cp div 64 mod 64) @ percent (0x80 + cp mod 64) @ s) = Some (cp, s)"
      using 2 cp by (simp add: valid_point_def)
    with 2 decode_percent [of "0xE0 + cp div 4096"] show ?thesis by (simp add: utf8_def)
  next
    case 3
    have "continuation 3 (cp div 262144)
        (percent (0x80 + cp div 4096 mod 64) @ percent (0x80 + cp div 64 mod 64) @ percent (0x80 + cp mod 64) @ s) = Some (cp, s)"
      using continuation_percent [of "cp div 4096 mod 64" 2 "cp div 262144"]
        continuation_percent [of "cp div 64 mod 64" 1 "cp div 4096" "percent (0x80 + cp mod 64) @ s"]
        continuation_percent [of "cp mod 64" 0 "cp div 64" s] by (simp add: numeral_3_eq_3 numeral_2_eq_2 parts)
    from lead_byte(3) [OF _ _ this] have "decode_point (0xF0 + cp div 262144)
        (percent (0x80 + cp div 4096 mod 64) @ percent (0x80 + cp div 64 mod 64) @ percent (0x80 + cp mod 64) @ s) = Some (cp, s)"
      using 3 cp by (simp add: valid_point_def)
    with 3 cp decode_percent [of "0xF0 + cp div 262144"] show ?thesis by (simp add: utf8_def)
  qed
qed

section \<open>The round trip\<close>

lemma decode_encoded_point:
  assumes "valid_point 0 cp"
  shows "decodeURIComponent (encode_point cp @ s) = map_option ((@) (code_units cp)) (decodeURIComponent s)"
proof (cases "cp < 0x80")
  case False
  with assms decode_utf8 show ?thesis by (simp add: encode_point_def)
next
  case True
  have cp: "0 \<le> cp" using assms by (simp add: valid_point_def)
  show ?thesis
  proof (cases "uri_unescaped (word_of_int cp)")
    case unescaped: True
    then have "word_of_int cp \<noteq> (37 :: 16 word)" by (auto simp: uri_unescaped_def lit_def)
    moreover have "map_option ((#) c) x = map_option ((@) [c]) x" for c :: "16 word" and x by (cases x) simp_all
    ultimately show ?thesis using True unescaped by (simp add: encode_point_def code_units_def)
  next
    case False
    have "decode_point cp s = Some (cp, s)" using True by (simp add: decode_point_def)
    with True False cp decode_percent [of cp s cp s] show ?thesis by (simp add: encode_point_def utf8_def)
  qed
qed

lemma unit_range: "uint (c :: 16 word) < 0x10000"
  using unsigned_less [of c] by simp

lemma code_units_unit [simp]: "code_units (uint (c :: 16 word)) = [c]"
  using unit_range [of c] by (simp add: code_units_def)

lemma code_units_pair:
  assumes "high_surrogate c" "low_surrogate d"
  shows "code_units (0x10000 + (uint c - 0xD800) * 0x400 + (uint d - 0xDC00)) = [c, d]"
    and "valid_point 0 (0x10000 + (uint c - 0xD800) * 0x400 + (uint d - 0xDC00))"
proof -
  have b: "0xD800 \<le> uint c" "uint c \<le> 0xDBFF" "0xDC00 \<le> uint d" "uint d \<le> 0xDFFF"
    using assms by (simp_all add: high_surrogate_def low_surrogate_def word_le_def)
  let ?h = "uint c - 0xD800" and ?l = "uint d - 0xDC00"
  have "(?h * 0x400 + ?l) div 0x400 = ?h" by (rule int_div_pos_eq [where r = ?l]) (use b in simp_all)
  moreover have "(?h * 0x400 + ?l) mod 0x400 = ?l" by (rule int_mod_pos_eq [where q = ?h]) (use b in simp_all)
  moreover have "0x10000 + ?h * 0x400 + ?l - 0x10000 = ?h * 0x400 + ?l" "\<not> 0x10000 + ?h * 0x400 + ?l < 0x10000"
    using b by simp_all
  ultimately show "code_units (0x10000 + ?h * 0x400 + ?l) = [c, d]" unfolding code_units_def by simp
  show "valid_point 0 (0x10000 + ?h * 0x400 + ?l)" using b by (simp add: valid_point_def)
qed

lemma code_points_valid:
  "code_points s = Some cps \<Longrightarrow> list_all (valid_point 0) cps \<and> concat (map code_units cps) = s"
proof (induction s arbitrary: cps rule: code_points.induct)
  case (2 c s)
  show ?case
  proof (cases "high_surrogate c")
    case True
    with 2(3) obtain d r ds where r: "s = d # r" "low_surrogate d" "code_points r = Some ds"
      "cps = (0x10000 + (uint c - 0xD800) * 0x400 + (uint d - 0xDC00)) # ds"
      by (auto split: list.splits if_splits)
    with 2(1) [OF True r(1,2) r(3)] code_units_pair [OF True r(2)] show ?thesis by simp
  next
    case False
    with 2(3) obtain ds where r: "\<not> low_surrogate c" "code_points s = Some ds" "cps = uint c # ds" by (auto split: if_splits)
    have "valid_point 0 (uint c)"
      using False r(1) unit_range [of c] by (auto simp: valid_point_def high_surrogate_def low_surrogate_def word_le_def)
    with 2(2) [OF False r(1,2)] r(3) show ?thesis by simp
  qed
qed simp

lemma decode_encoded_points:
  "list_all (valid_point 0) cps \<Longrightarrow> decodeURIComponent (concat (map encode_point cps)) = Some (concat (map code_units cps))"
  by (induction cps) (simp_all add: decode_encoded_point)

lemma decode_encoded: "encodeURIComponent s = Some e \<Longrightarrow> decodeURIComponent e = Some s"
  using code_points_valid [of s] by (auto simp: encodeURIComponent_def decode_encoded_points)

text \<open>The characters of encoded text, none of which ends a segment or a path.\<close>

definition separator :: "16 word \<Rightarrow> bool" where
  "separator c \<longleftrightarrow> c \<in> set (lit ''/?#'')"

definition segment_text :: "jstring \<Rightarrow> bool" where
  "segment_text s \<longleftrightarrow> s \<noteq> [] \<and> list_all (\<lambda>c. \<not> separator c) s"

lemma hex_digit_char: "0 \<le> d \<Longrightarrow> d < 16 \<Longrightarrow> \<not> separator (hex_digit d)"
  using uint_hex [of d] by (auto simp: separator_def lit_def split: if_splits)

lemma percent_chars: "0 \<le> b \<Longrightarrow> b < 256 \<Longrightarrow> c \<in> set (percent b) \<Longrightarrow> \<not> separator c"
proof -
  have "b div 16 < 16" if "b < 256" using that by simp
  moreover have "\<not> separator 37" by (simp add: separator_def lit_def)
  ultimately show "0 \<le> b \<Longrightarrow> b < 256 \<Longrightarrow> c \<in> set (percent b) \<Longrightarrow> \<not> separator c"
    using hex_digit_char [of "b div 16"] hex_digit_char [of "b mod 16"] by (auto simp: percent_def pos_imp_zdiv_nonneg_iff)
qed

lemma utf8_bytes: "valid_point 0 cp \<Longrightarrow> b \<in> set (utf8 cp) \<Longrightarrow> 0 \<le> b \<and> b < 256"
  by (auto simp: utf8_def valid_point_def split: if_splits)

lemma unescaped_char: "uri_unescaped c \<Longrightarrow> \<not> separator c"
  by (auto simp: uri_unescaped_def separator_def lit_def)

lemma encode_point_chars: "valid_point 0 cp \<Longrightarrow> c \<in> set (encode_point cp) \<Longrightarrow> \<not> separator c"
  using utf8_bytes [of cp] percent_chars unescaped_char by (auto simp: encode_point_def split: if_splits)

lemma encoded_segment: "encodeURIComponent s = Some e \<Longrightarrow> s \<noteq> [] \<Longrightarrow> segment_text e"
proof -
  assume e: "encodeURIComponent s = Some e" and s: "s \<noteq> []"
  then obtain cps where cps: "code_points s = Some cps" "e = concat (map encode_point cps)" by (auto simp: encodeURIComponent_def)
  with code_points_valid [OF cps(1)] encode_point_chars have "list_all (\<lambda>c. \<not> separator c) e" by (fastforce simp: list_all_iff)
  moreover have "e \<noteq> []" using decode_encoded [OF e] s by (cases e) auto
  ultimately show "segment_text e" by (simp add: segment_text_def)
qed

text \<open>An encoded identifier reads back from the front of a path, whatever follows its segment.\<close>

lemma encoded_front:
  assumes "encodeURIComponent s = Some e" "t = [] \<or> separator (hd t)"
  shows "takeWhile (\<lambda>c. \<not> separator c) (e @ t) = e"
proof -
  have "list_all (\<lambda>c. \<not> separator c) e"
  proof (cases "s = []")
    case True
    with assms(1) show ?thesis by (simp add: encodeURIComponent_def)
  next
    case False
    with encoded_segment [OF assms(1)] show ?thesis by (simp add: segment_text_def)
  qed
  with assms(2) show ?thesis by (cases t) (simp_all add: list_all_iff takeWhile_append2 takeWhile_eq_all_conv [THEN iffD2])
qed

end
