(* ===== verification/Json_Schema.thy ===== *)
theory Json_Schema
  imports Protocol Js_Parse
begin

text \<open>
  The schemas of protocol version 1 (\<open>schemas/v1\<close>, of which \<open>packages/protocol/src/schemas/v1\<close> holds a
  copy), as predicates on values: one definition per document and per entry of its \<open>$defs\<close>, one
  predicate per keyword.  What the documents mean is the JSON Schema standard; Ajv, which decides
  them, stays a parameter of the model, and \<open>ajv_decides\<close> says that it follows the standard.
\<close>

section \<open>Keywords\<close>

text \<open>\<open>type: object\<close> with \<open>properties\<close>, \<open>required\<close> and \<open>additionalProperties: false\<close>: name, whether it
  is required, schema.\<close>

type_synonym property_schema = "string \<times> bool \<times> (js \<Rightarrow> bool)"

fun object_schema :: "property_schema list \<Rightarrow> js \<Rightarrow> bool" where
  "object_schema props (JObj fs) \<longleftrightarrow> list_all (\<lambda>f. fst f \<in> set (map fst props)) fs
     \<and> list_all (\<lambda>(k, required, P). if js_get (JObj fs) k = JUndefined then \<not> required else P (js_get (JObj fs) k)) props"
| "object_schema props v \<longleftrightarrow> False"

abbreviation needed :: "string \<Rightarrow> (js \<Rightarrow> bool) \<Rightarrow> property_schema" where
  "needed k P \<equiv> (k, True, P)"

abbreviation optional :: "string \<Rightarrow> (js \<Rightarrow> bool) \<Rightarrow> property_schema" where
  "optional k P \<equiv> (k, False, P)"

definition number_schema :: "(rat \<Rightarrow> bool) \<Rightarrow> js \<Rightarrow> bool" where
  "number_schema P v \<longleftrightarrow> (case v of JNum (Fin r) \<Rightarrow> P r | _ \<Rightarrow> False)"

definition integer_from :: "int \<Rightarrow> js \<Rightarrow> bool" where
  "integer_from n = number_schema (\<lambda>r. of_int \<lfloor>r\<rfloor> = r \<and> of_int n \<le> r)"

definition number_from :: "rat \<Rightarrow> js \<Rightarrow> bool" where
  "number_from x = number_schema (\<lambda>r. x \<le> r)"

definition unit_number :: "js \<Rightarrow> bool" where
  "unit_number = number_schema (\<lambda>r. 0 \<le> r \<and> r \<le> 1)"

definition const_schema :: "js \<Rightarrow> js \<Rightarrow> bool" where
  "const_schema c v \<longleftrightarrow> v = c"

definition enum_schema :: "string list \<Rightarrow> js \<Rightarrow> bool" where
  "enum_schema cs v \<longleftrightarrow> v \<in> set (map js_string cs)"

definition array_schema :: "(js \<Rightarrow> bool) \<Rightarrow> js \<Rightarrow> bool" where
  "array_schema P v \<longleftrightarrow> (case v of JArr xs \<Rightarrow> list_all P xs | _ \<Rightarrow> False)"

definition one_of :: "(js \<Rightarrow> bool) list \<Rightarrow> js \<Rightarrow> bool" where
  "one_of Ps v \<longleftrightarrow> length (filter (\<lambda>P. P v) Ps) = 1"

definition nonEmptyString :: "js \<Rightarrow> bool" where
  "nonEmptyString v \<longleftrightarrow> isString v \<and> has_text (the_str v)"

definition nullable :: "(js \<Rightarrow> bool) \<Rightarrow> js \<Rightarrow> bool" where
  "nullable P = one_of [P, const_schema JNull]"

section \<open>Snapshots\<close>

definition location_schema :: "js \<Rightarrow> bool" where
  "location_schema = object_schema [needed ''surah'' (integer_from 1), needed ''ayah'' (integer_from 1),
     needed ''word'' (integer_from 1), needed ''symbol'' (integer_from 1)]"

definition display_schema :: "js \<Rightarrow> bool" where
  "display_schema = object_schema [needed ''location'' location_schema, needed ''isReread'' isBoolean,
     needed ''activeWordId'' (nullable nonEmptyString)]"

definition commit_schema :: "js \<Rightarrow> bool" where
  "commit_schema = object_schema [needed ''location'' location_schema,
     needed ''completedWordIds'' (\<lambda>v. array_schema nonEmptyString v \<and> distinct (the_elems v))]"

definition confidence_schema :: "js \<Rightarrow> bool" where
  "confidence_schema = object_schema [needed ''alignment'' unit_number, needed ''stability'' unit_number,
     needed ''lookahead'' unit_number, needed ''matchedLookaheadCount'' (integer_from 0),
     needed ''margin'' (number_from 0), needed ''acoustic'' (nullable unit_number), needed ''combined'' unit_number]"

definition substitutionOperation_schema :: "js \<Rightarrow> bool" where
  "substitutionOperation_schema = object_schema [needed ''kind'' (const_schema (js_string ''substitution'')),
     needed ''actualIndex'' (integer_from 0), needed ''referenceIndex'' (integer_from 0),
     needed ''score'' (number_schema (\<lambda>_. True))]"

definition finding_schema :: "js \<Rightarrow> bool" where
  "finding_schema = object_schema [needed ''type'' (const_schema (js_string ''substitution'')),
     needed ''confirmation'' (enum_schema [''immediate'', ''final'', ''soft'']),
     needed ''observationId'' nonEmptyString, needed ''operation'' substitutionOperation_schema,
     needed ''actualPhoneme'' isString, needed ''referencePhoneme'' isString,
     needed ''referenceSymbolId'' nonEmptyString, needed ''location'' location_schema,
     needed ''confidence'' confidence_schema, needed ''confirmations'' (integer_from 1)]"

definition snapshot_schema :: "js \<Rightarrow> bool" where
  "snapshot_schema = object_schema [needed ''revision'' (integer_from 0),
     needed ''observationId'' (nullable nonEmptyString), needed ''display'' display_schema,
     needed ''commit'' commit_schema, needed ''confidence'' (nullable confidence_schema),
     needed ''finding'' (nullable finding_schema)]"

section \<open>Errors and events\<close>

text \<open>\<open>jsonValue\<close> is the recursive alternative of all kinds of JSON values.\<close>

definition error_schema :: "js \<Rightarrow> bool" where
  "error_schema = object_schema [needed ''protocolVersion'' (const_schema (js_int 1)),
     needed ''requestId'' nonEmptyString, needed ''type'' (const_schema (js_string ''error'')),
     needed ''code'' (enum_schema [''INVALID_CORPUS'', ''INVALID_OBSERVATION'', ''STALE_REVISION'',
        ''UNSUPPORTED_PROTOCOL'', ''SESSION_NOT_FOUND'', ''INTERNAL_ERROR'']),
     needed ''message'' isString, needed ''retryable'' isBoolean, needed ''details'' json_object]"

definition snapshot_event_schema :: "string \<Rightarrow> js \<Rightarrow> bool" where
  "snapshot_event_schema type = object_schema [needed ''protocolVersion'' (const_schema (js_int 1)),
     needed ''requestId'' nonEmptyString, needed ''type'' (const_schema (js_string type)),
     needed ''sessionId'' nonEmptyString, needed ''snapshot'' snapshot_schema]"

definition sessionDeleted_schema :: "js \<Rightarrow> bool" where
  "sessionDeleted_schema = object_schema [needed ''protocolVersion'' (const_schema (js_int 1)),
     needed ''requestId'' nonEmptyString, needed ''type'' (const_schema (js_string ''session.deleted'')),
     needed ''sessionId'' nonEmptyString]"

definition event_schema :: "js \<Rightarrow> bool" where
  "event_schema = one_of [snapshot_event_schema ''session.created'', snapshot_event_schema ''snapshot.updated'',
     sessionDeleted_schema, error_schema]"

section \<open>Observations and commands\<close>

definition token_schema :: "js \<Rightarrow> bool" where
  "token_schema = object_schema [needed ''id'' nonEmptyString, needed ''text'' isString,
     needed ''phonemes'' (array_schema isString), optional ''startMs'' (number_from 0),
     optional ''endMs'' (number_from 0), optional ''confidence'' unit_number]"

definition observation_properties :: "property_schema list" where
  "observation_properties = [needed ''observationId'' nonEmptyString, needed ''sourceRevision'' (integer_from 0),
     needed ''isFinal'' isBoolean, needed ''receivedAtMs'' (number_from 0), needed ''tokens'' (array_schema token_schema)]"

text \<open>\<open>allOf\<close>: a partial observation has a token.\<close>

definition partial_has_tokens :: "js \<Rightarrow> bool" where
  "partial_has_tokens v \<longleftrightarrow> js_get v ''isFinal'' \<noteq> JBool False \<or> js_get v ''tokens'' \<noteq> JArr []"

definition observation_schema :: "js \<Rightarrow> bool" where
  "observation_schema v \<longleftrightarrow> object_schema observation_properties v \<and> partial_has_tokens v"

definition command_properties :: "string \<Rightarrow> property_schema list" where
  "command_properties type = [needed ''protocolVersion'' (const_schema (js_int 1)),
     needed ''requestId'' nonEmptyString, needed ''type'' (const_schema (js_string type))]"

definition sessionCreate_schema :: "js \<Rightarrow> bool" where
  "sessionCreate_schema = object_schema (command_properties ''session.create''
     @ [needed ''corpusId'' nonEmptyString, optional ''initialLocation'' location_schema,
        optional ''findingMode'' (enum_schema [''off'', ''substitutions''])])"

definition session_schema :: "string \<Rightarrow> property_schema list \<Rightarrow> js \<Rightarrow> bool" where
  "session_schema type more_props = object_schema (command_properties type @ needed ''sessionId'' nonEmptyString # more_props)"

definition observationSubmit_schema :: "js \<Rightarrow> bool" where
  "observationSubmit_schema v \<longleftrightarrow> session_schema ''observation.submit'' observation_properties v \<and> partial_has_tokens v"

definition command_schema :: "js \<Rightarrow> bool" where
  "command_schema = one_of [sessionCreate_schema, session_schema ''session.get'' [],
     session_schema ''session.reset'' [optional ''location'' location_schema], session_schema ''session.delete'' [],
     observationSubmit_schema, session_schema ''session.resume'' [needed ''lastSnapshotRevision'' (integer_from 0)]]"

section \<open>Corpora\<close>

definition wordLocation_schema :: "js \<Rightarrow> bool" where
  "wordLocation_schema = object_schema [needed ''surah'' (integer_from 1), needed ''ayah'' (integer_from 1),
     needed ''word'' (integer_from 1)]"

definition symbol_schema :: "js \<Rightarrow> bool" where
  "symbol_schema = object_schema [needed ''id'' nonEmptyString, needed ''text'' isString,
     needed ''phoneme'' nonEmptyString, needed ''location'' location_schema]"

definition word_schema :: "js \<Rightarrow> bool" where
  "word_schema = object_schema [needed ''id'' nonEmptyString, needed ''text'' isString,
     needed ''symbolIds'' (\<lambda>v. array_schema nonEmptyString v \<and> the_elems v \<noteq> [] \<and> distinct (the_elems v)),
     needed ''location'' wordLocation_schema]"

definition corpus_schema :: "js \<Rightarrow> bool" where
  "corpus_schema = object_schema [needed ''corpusId'' nonEmptyString, needed ''revision'' nonEmptyString,
     needed ''symbols'' (array_schema symbol_schema), needed ''words'' (array_schema word_schema)]"

section \<open>The validator\<close>

fun schema_accepts :: "protocol_schema \<Rightarrow> js \<Rightarrow> bool" where
  "schema_accepts CorpusSchema = corpus_schema"
| "schema_accepts ObservationSchema = observation_schema"
| "schema_accepts SnapshotSchema = snapshot_schema"
| "schema_accepts CommandSchema = command_schema"
| "schema_accepts EventSchema = event_schema"
| "schema_accepts ErrorSchema = error_schema"

text \<open>The documented behaviour of Ajv: no issue exactly for the values a schema accepts.\<close>

definition ajv_decides :: "ajv \<Rightarrow> bool" where
  "ajv_decides ajv \<longleftrightarrow> (\<forall>schema v. json_plain v \<longrightarrow> (ajv schema v = [] \<longleftrightarrow> schema_accepts schema v))"

definition reference_ajv :: ajv where
  "reference_ajv schema v = (if schema_accepts schema v then [] else
     [\<lparr>si_instancePath = [], si_keyword = lit ''schema'', si_message = None\<rparr>])"

lemma reference_ajv_decides: "ajv_decides reference_ajv"
  by (simp add: ajv_decides_def reference_ajv_def)

lemma preflight_decides:
  "ajv_decides ajv \<Longrightarrow> withJsonPreflight ajv schema v = [] \<longleftrightarrow> json_plain v \<and> schema_accepts schema v"
  by (auto simp: withJsonPreflight_def ajv_decides_def)

section \<open>Reading what a schema accepts\<close>

lemma object_schema_get:
  assumes "object_schema props v" "(k, True, P) \<in> set props"
  shows "P (js_get v k)"
  using assms by (cases v) (auto simp: list_all_iff split: if_splits)

lemma object_schema_names: "object_schema props v \<Longrightarrow> \<exists>fs. v = JObj fs \<and> set (map fst fs) \<subseteq> set (map fst props)"
  by (cases v) (auto simp: list_all_iff)

lemma nonEmptyString_JStr [simp]: "nonEmptyString (JStr s) \<longleftrightarrow> has_text s"
  by (simp add: nonEmptyString_def)

lemma const_schema_iff [simp]: "const_schema c v \<longleftrightarrow> v = c"
  by (simp add: const_schema_def)

lemma one_of_disjoint: "one_of Ps v \<Longrightarrow> \<exists>P \<in> set Ps. P v"
proof -
  assume "one_of Ps v"
  then have "length (filter (\<lambda>P. P v) Ps) = 1" unfolding one_of_def .
  then have "filter (\<lambda>P. P v) Ps \<noteq> []" by (rule contrapos_pn) simp
  from hd_in_set [OF this] show "\<exists>P \<in> set Ps. P v" unfolding set_filter by blast
qed

lemma number_schema_rat [simp]: "number_schema P (JNum (Fin r)) \<longleftrightarrow> P r"
  by (simp add: number_schema_def)

lemma integer_from_int [simp]: "integer_from n (js_int m) \<longleftrightarrow> n \<le> m"
  by (simp add: integer_from_def js_int_def)

lemma nullable_null [simp]: "\<not> P JNull \<Longrightarrow> nullable P JNull"
  by (simp add: nullable_def one_of_def)

lemma nullable_some: "P v \<Longrightarrow> v \<noteq> JNull \<Longrightarrow> nullable P v"
  by (simp add: nullable_def one_of_def)

text \<open>A command is of one type, which its field \<open>type\<close> names.\<close>

lemma command_schema_typed:
  assumes "command_schema v"
  shows "\<exists>props. object_schema props v \<and> needed ''requestId'' nonEmptyString \<in> set props
    \<and> (js_get v ''type'' = js_string ''session.create'' \<or> needed ''sessionId'' nonEmptyString \<in> set props)"
proof -
  have *: "\<exists>props. object_schema props v \<and> needed ''requestId'' nonEmptyString \<in> set props
      \<and> needed ''sessionId'' nonEmptyString \<in> set props" if "session_schema t m v" for t m
    using that by (intro exI [of _ "command_properties t @ needed ''sessionId'' nonEmptyString # m"])
      (simp add: session_schema_def command_properties_def)
  have "\<exists>props. object_schema props v \<and> needed ''requestId'' nonEmptyString \<in> set props
      \<and> js_get v ''type'' = js_string ''session.create''" if c: "sessionCreate_schema v"
  proof -
    let ?props = "command_properties ''session.create''
     @ [needed ''corpusId'' nonEmptyString, optional ''initialLocation'' location_schema,
        optional ''findingMode'' (enum_schema [''off'', ''substitutions''])]"
    have o: "object_schema ?props v" using c by (simp add: sessionCreate_schema_def)
    then have "const_schema (js_string ''session.create'') (js_get v ''type'')"
      by (rule object_schema_get) (simp add: command_properties_def del: const_schema_iff)
    with o show ?thesis by (intro exI [of _ ?props]) (simp add: command_properties_def)
  qed
  moreover from one_of_disjoint [OF assms [unfolded command_schema_def]] obtain P where
    "P \<in> set [sessionCreate_schema, session_schema ''session.get'' [],
     session_schema ''session.reset'' [optional ''location'' location_schema], session_schema ''session.delete'' [],
     observationSubmit_schema, session_schema ''session.resume'' [needed ''lastSnapshotRevision'' (integer_from 0)]]" "P v"
    by blast
  then have "sessionCreate_schema v \<or> (\<exists>t m. session_schema t m v)" by (auto simp: observationSubmit_schema_def)
  ultimately show ?thesis using * by blast
qed

end
