(* ===== verification/Snapshot_Wire.thy ===== *)
theory Snapshot_Wire
  imports Json_Schema Tracker_Commits
begin

text \<open>
  Snapshots as they leave the tracker.  The records of the model stand for frozen objects; here they
  are written out as those objects (\<open>tracking/types.ts\<close>, \<open>findings/types.ts\<close>, \<open>confidence/types.ts\<close>).
  Every snapshot a tracker shows has the type that \<open>snapshot.schema.json\<close> describes.
\<close>

section \<open>The objects\<close>

definition location_js :: "quran_location \<Rightarrow> js" where
  "location_js l = JObj [(''surah'', js_int (loc_surah l)), (''ayah'', js_int (loc_ayah l)),
     (''word'', js_int (loc_word l)), (''symbol'', js_int (loc_symbol l))]"

definition or_null :: "('a \<Rightarrow> js) \<Rightarrow> 'a option \<Rightarrow> js" where
  "or_null f x = (case x of None \<Rightarrow> JNull | Some y \<Rightarrow> f y)"

definition js_rat :: "rat \<Rightarrow> js" where
  "js_rat r = JNum (Fin r)"

definition evidence_js :: "confidence_evidence \<Rightarrow> js" where
  "evidence_js ev = JObj [(''alignment'', js_rat (ev_alignment ev)), (''stability'', js_rat (ev_stability ev)),
     (''lookahead'', js_rat (ev_lookahead ev)), (''matchedLookaheadCount'', js_int (int (ev_matchedLookaheadCount ev))),
     (''margin'', js_rat (ev_margin ev)), (''acoustic'', or_null js_rat (ev_acoustic ev)),
     (''combined'', js_rat (ev_combined ev))]"

definition operation_js :: "substitution_operation \<Rightarrow> js" where
  "operation_js so = JObj [(''kind'', js_string ''substitution''), (''actualIndex'', js_int (so_actualIndex so)),
     (''referenceIndex'', js_int (so_referenceIndex so)), (''score'', js_int 0)]"

fun confirmation_js :: "finding_confirmation \<Rightarrow> js" where
  "confirmation_js Immediate = js_string ''immediate''"
| "confirmation_js FinalObservation = js_string ''final''"
| "confirmation_js Soft = js_string ''soft''"

definition finding_js :: "confirmed_finding \<Rightarrow> js" where
  "finding_js f = JObj [(''type'', js_string ''substitution''), (''confirmation'', confirmation_js (cf_confirmation f)),
     (''observationId'', JStr (cf_observationId f)), (''operation'', operation_js (cf_operation f)),
     (''actualPhoneme'', JStr (cf_actualPhoneme f)), (''referencePhoneme'', JStr (cf_referencePhoneme f)),
     (''referenceSymbolId'', JStr (cf_referenceSymbolId f)), (''location'', location_js (cf_location f)),
     (''confidence'', evidence_js (cf_confidence f)), (''confirmations'', js_int (int (cf_confirmations f)))]"

definition snapshot_js :: "reading_snapshot \<Rightarrow> js" where
  "snapshot_js s = JObj [(''revision'', js_int (int (snap_revision s))),
     (''observationId'', or_null JStr (snap_observationId s)),
     (''display'', JObj [(''location'', location_js (display_location s)), (''isReread'', JBool (display_isReread s)),
        (''activeWordId'', or_null JStr (display_activeWordId s))]),
     (''commit'', JObj [(''location'', location_js (commit_location s)),
        (''completedWordIds'', JArr (map JStr (commit_completedWordIds s)))]),
     (''confidence'', or_null evidence_js (snap_confidence s)), (''finding'', or_null finding_js (snap_finding s))]"

section \<open>Typed snapshots\<close>

definition location_typed :: "quran_location \<Rightarrow> bool" where
  "location_typed l \<longleftrightarrow> 1 \<le> loc_surah l \<and> 1 \<le> loc_ayah l \<and> 1 \<le> loc_word l \<and> 1 \<le> loc_symbol l"

definition evidence_typed :: "confidence_evidence \<Rightarrow> bool" where
  "evidence_typed ev \<longleftrightarrow> in_unit (ev_alignment ev) \<and> in_unit (ev_stability ev) \<and> in_unit (ev_lookahead ev)
     \<and> in_unit (ev_margin ev) \<and> (case ev_acoustic ev of None \<Rightarrow> True | Some a \<Rightarrow> in_unit a) \<and> in_unit (ev_combined ev)"

definition finding_typed :: "confirmed_finding \<Rightarrow> bool" where
  "finding_typed f \<longleftrightarrow> has_text (cf_observationId f) \<and> 0 \<le> so_actualIndex (cf_operation f)
     \<and> 0 \<le> so_referenceIndex (cf_operation f) \<and> has_text (cf_referenceSymbolId f) \<and> location_typed (cf_location f)
     \<and> evidence_typed (cf_confidence f) \<and> 1 \<le> cf_confirmations f"

definition snapshot_typed :: "reading_snapshot \<Rightarrow> bool" where
  "snapshot_typed s \<longleftrightarrow> pred_option has_text (snap_observationId s) \<and> location_typed (display_location s)
     \<and> pred_option has_text (display_activeWordId s) \<and> location_typed (commit_location s)
     \<and> list_all has_text (commit_completedWordIds s) \<and> distinct (commit_completedWordIds s)
     \<and> pred_option evidence_typed (snap_confidence s) \<and> pred_option finding_typed (snap_finding s)"

lemma or_null_schema:
  assumes "pred_option Q x" "\<And>y. Q y \<Longrightarrow> P (f y) \<and> f y \<noteq> JNull" "\<not> P JNull"
  shows "nullable P (or_null f x)"
  using assms by (cases x) (auto simp: or_null_def intro: nullable_some)

lemma location_conforms: "location_typed l \<Longrightarrow> location_schema (location_js l)"
  by (simp add: location_schema_def location_js_def location_typed_def js_int_def integer_from_def)

lemma unit_number_rat [simp]: "unit_number (js_rat r) \<longleftrightarrow> in_unit r"
  by (simp add: unit_number_def js_rat_def in_unit_def)

lemma schema_null [simp]: "\<not> unit_number JNull" "\<not> nonEmptyString JNull" "\<not> confidence_schema JNull" "\<not> finding_schema JNull"
  by (simp_all add: unit_number_def number_schema_def nonEmptyString_def confidence_schema_def finding_schema_def)

lemma js_neq_undefined [simp]: "js_rat r \<noteq> JNull" "js_int n \<noteq> JUndefined" "js_rat r \<noteq> JUndefined" "js_string s \<noteq> JUndefined"
    "location_js l \<noteq> JUndefined" "confirmation_js c \<noteq> JUndefined" "operation_js so \<noteq> JUndefined" "evidence_js ev \<noteq> JUndefined"
  by (simp_all add: js_int_def js_rat_def js_string_def location_js_def operation_js_def evidence_js_def)
    (cases c, simp_all add: js_string_def)

lemma or_null_undefined: "(\<And>y. f y \<noteq> JUndefined) \<Longrightarrow> or_null f x \<noteq> JUndefined"
  by (cases x) (simp_all add: or_null_def)

lemma evidence_conforms:
  assumes "evidence_typed ev"
  shows "confidence_schema (evidence_js ev)"
proof -
  have "nullable unit_number (or_null js_rat (ev_acoustic ev))"
    by (rule or_null_schema [where Q = in_unit])
      (use assms in \<open>auto simp: evidence_typed_def split: option.splits\<close>)
  moreover have "or_null js_rat (ev_acoustic ev) \<noteq> JUndefined" by (rule or_null_undefined) simp
  moreover have "number_from 0 (js_rat (ev_margin ev))"
    using assms by (simp add: evidence_typed_def number_from_def js_rat_def in_unit_def)
  ultimately show ?thesis using assms
    by (simp add: confidence_schema_def evidence_js_def evidence_typed_def)
qed

lemma finding_conforms:
  assumes "finding_typed f"
  shows "finding_schema (finding_js f)"
proof -
  have "substitutionOperation_schema (operation_js (cf_operation f))"
    using assms by (simp add: substitutionOperation_schema_def operation_js_def finding_typed_def)
      (simp add: js_int_def)
  moreover have "enum_schema [''immediate'', ''final'', ''soft''] (confirmation_js (cf_confirmation f))"
    by (cases "cf_confirmation f") (simp_all add: enum_schema_def)
  ultimately show ?thesis
    using assms evidence_conforms location_conforms by (simp add: finding_schema_def finding_js_def finding_typed_def)
qed

lemma snapshot_conforms:
  assumes "snapshot_typed s"
  shows "snapshot_schema (snapshot_js s)"
proof -
  have texts: "nullable nonEmptyString (or_null JStr x)" "or_null JStr x \<noteq> JUndefined" if "pred_option has_text x" for x
    using that or_null_schema [of has_text x nonEmptyString JStr] or_null_undefined [of JStr x] by simp_all
  have "nullable confidence_schema (or_null evidence_js (snap_confidence s))"
    by (rule or_null_schema [where Q = evidence_typed])
      (use assms evidence_conforms in \<open>auto simp: snapshot_typed_def evidence_js_def\<close>)
  moreover have "nullable finding_schema (or_null finding_js (snap_finding s))"
    by (rule or_null_schema [where Q = finding_typed])
      (use assms finding_conforms in \<open>auto simp: snapshot_typed_def finding_js_def\<close>)
  moreover have "or_null evidence_js (snap_confidence s) \<noteq> JUndefined" "or_null finding_js (snap_finding s) \<noteq> JUndefined"
    by (rule or_null_undefined, simp add: finding_js_def)+
  moreover have "commit_schema (JObj [(''location'', location_js (commit_location s)),
        (''completedWordIds'', JArr (map JStr (commit_completedWordIds s)))])"
    using assms location_conforms
    by (simp add: commit_schema_def snapshot_typed_def array_schema_def list_all_iff distinct_map inj_on_def)
  moreover have "display_schema (JObj [(''location'', location_js (display_location s)), (''isReread'', JBool (display_isReread s)),
        (''activeWordId'', or_null JStr (display_activeWordId s))])"
    using assms location_conforms texts [of "display_activeWordId s"] by (simp add: display_schema_def snapshot_typed_def)
  ultimately show ?thesis
    using assms texts [of "snap_observationId s"] by (simp add: snapshot_schema_def snapshot_js_def snapshot_typed_def)
qed

lemma snapshot_plain: "json_plain (snapshot_js s)"
proof -
  have simps: "json_plain (js_int n)" "json_plain (js_rat r)" "json_plain (js_string t)" "json_plain (location_js l)" for n r t l
    by (simp_all add: js_int_def js_rat_def js_string_def location_js_def)
  have ev: "json_plain (evidence_js ev)" for ev
    by (cases "ev_acoustic ev") (simp_all add: evidence_js_def simps or_null_def)
  have "json_plain (finding_js f)" for f
    by (cases "cf_confirmation f") (simp_all add: finding_js_def simps ev operation_js_def)
  then show ?thesis
    by (simp add: snapshot_js_def simps ev or_null_def list_all_iff split: option.split)
qed

section \<open>What the tracker shows is typed\<close>

lemma has_text_nonblank: "has_text s \<longleftrightarrow> nonblank s"
  by (auto simp: has_text_def nonblank_def js_trim_empty list_ex_iff)

lemma score_typed: "evidence_typed (scoreConfidence input)"
  using scoreConfidence_unit [of input] by (simp add: evidence_typed_def)

lemma adjusted_typed: "evidence_typed (adjust_lookahead (scoreConfidence input) k)"
  using scoreConfidence_unit [of input] adjust_lookahead_unit [of input k] lookahead_unit [of k]
  by (simp add: evidence_typed_def) (simp add: adjust_lookahead_def Let_def)

lemma symbol_location_typed:
  "wf_corpus c \<Longrightarrow> s \<in> set (corpus_symbols c) \<Longrightarrow> location_typed (sym_location s) \<and> has_text (sym_id s)"
  by (auto simp: wf_corpus_def wf_symbols_def list_all_iff wf_symbol_def positive_safe_def location_typed_def has_text_nonblank)

lemma word_text: "wf_corpus c \<Longrightarrow> w \<in> set (corpus_words c) \<Longrightarrow> has_text (word_id w)"
  by (auto simp: wf_corpus_def wf_words_def list_all_iff wf_word_def has_text_nonblank)

lemma located_finding_typed:
  assumes "classifyFindingWithEvidence input (deriveSubstitutionEvidence (fi_candidate input) (scoreConfidence raw)) = Some f"
    "fi_candidate input = candidate_at (fi_corpus input) (fi_actualPhonemes input) cur com i"
    "i < length (ix_symbols (fi_corpus input))" "fi_corpus input = build_index c" "wf_corpus c"
    "has_text (observationId (fi_observation input))"
  shows "finding_typed f"
proof -
  obtain so where so: "substitutionOperation (fi_candidate input) = Some so"
    using assms(1) by (auto simp: classifyFindingWithEvidence_def split: if_splits option.splits)
  let ?ev = "adjust_lookahead (scoreConfidence raw) (substitutionLookaheadCount (fi_candidate input))"
  have derive: "deriveSubstitutionEvidence (fi_candidate input) (scoreConfidence raw)
      = Some \<lparr>se_operation = so, se_confidence = ?ev\<rparr>"
    using assms(1) so by (auto simp: deriveSubstitutionEvidence_def classifyFindingWithEvidence_def split: if_splits)
  obtain actual symbol mode where f: "js_at (fi_actualPhonemes input) (so_actualIndex so) = Some actual"
      "js_at (ix_symbols (fi_corpus input)) (int (symbolIndex (fi_candidate input)) + so_referenceIndex so) = Some symbol"
      "confirmationMode input ?ev = Some mode"
      "cf_observationId f = observationId (fi_observation input)" "cf_operation f = so" "cf_referenceSymbolId f = sym_id symbol"
      "cf_location f = sym_location symbol" "cf_confidence f = ?ev"
      "cf_confirmations f = (if mode = Soft then fi_confirmations input else 1)"
    using assms(1) unfolding derive
    by (auto simp: classifyFindingWithEvidence_def so split: if_splits option.splits)
  have "0 \<le> so_referenceIndex so"
    using located_reference [OF assms(3), of "OpSubstitution (so_actualIndex so) (so_referenceIndex so)"
        "fi_actualPhonemes input" cur com] first_substitution_mem [OF so [unfolded substitutionOperation_def]]
    by (simp add: assms(2))
  moreover have "0 \<le> so_actualIndex so" using f(1) by (auto simp: js_at_def split: if_splits)
  moreover have "symbol \<in> set (corpus_symbols c)" using js_at_mem [OF f(2)] by (simp add: assms(4))
  moreover have "1 \<le> cf_confirmations f"
    using f(3,9) by (auto simp: confirmationMode_def passesSoftFindingGate_def split: if_splits)
  ultimately show ?thesis
    using f assms(6) adjusted_typed [of raw] symbol_location_typed [OF assms(5)] by (simp add: finding_typed_def)
qed

lemma symbol_words_mem:
  assumes "Some i \<in> set (wordIdsBySymbol corpus ws)"
  shows "i \<in> word_id ` ow_word ` set ws"
proof -
  have inner: "Some i \<in> set (foldl (\<lambda>result k. result[k := Some j]) r ks) \<Longrightarrow> Some i \<in> set r \<or> i = j"
    for r :: "jstring option list" and j and ks :: "nat list"
  proof (induction ks arbitrary: r)
    case (Cons k ks)
    from Cons.IH [of "r[k := Some j]"] Cons.prems have "Some i \<in> set (r[k := Some j]) \<or> i = j" by simp
    then show ?case using set_update_subset_insert [of r k "Some j"] by auto
  qed simp
  have "Some i \<in> set (foldl (\<lambda>result w. foldl (\<lambda>result k. result[k := Some (word_id (ow_word w))]) result
      [range_start (ow_range w)..<range_end (ow_range w)]) r ws) \<Longrightarrow> Some i \<in> set r \<or> i \<in> word_id ` ow_word ` set ws" for r
  proof (induction ws arbitrary: r)
    case (Cons w ws)
    from Cons.IH Cons.prems inner show ?case by fastforce
  qed simp
  from this [of "replicate (length (ix_symbols corpus)) None"] assms show ?thesis
    by (auto simp: wordIdsBySymbol_def)
qed

lemma ordered_words_of_corpus:
  assumes "wf_corpus c"
  shows "ow_word ` set (orderedWords (build_index c)) = set (corpus_words c)"
proof -
  have "distinct (map word_id (corpus_words c))" using assms by (auto simp: wf_corpus_def wf_words_def)
  then have "js_map_values (ix_wordsById (build_index c)) = corpus_words c"
    by (simp add: build_index_def Let_def comp_def js_map_of_distinct js_map_values_def)
  then show ?thesis by (simp add: orderedWords_def image_image)
qed

lemma active_word_text:
  assumes "config_ok c config" "js_at (pc_symbolWordIds (tc_prepared config)) k = Some (Some i)"
  shows "has_text i"
proof -
  have "Some i \<in> set (wordIdsBySymbol (build_index c) (orderedWords (build_index c)))"
    using js_at_mem [OF assms(2)] assms(1) by (simp add: config_ok_def prepareTrackerCorpus_def Let_def)
  from symbol_words_mem [OF this] ordered_words_of_corpus assms(1) word_text show ?thesis
    by (auto simp: config_ok_def)
qed

lemma processed_typed:
  assumes "process_candidate config obs located st = (st', (dl, dr, dw), conf, f)" "config_ok c config"
    "has_text (observationId obs)" "pred_option has_text (display_activeWordId (snapshot st))"
    "\<And>cand. fst located = Some cand \<Longrightarrow> \<exists>i cur com. i < length (ix_symbols (tc_corpus config))
       \<and> cand = candidate_at (tc_corpus config) (observation_phonemes obs) cur com i"
  shows "pred_option has_text dw \<and> pred_option evidence_typed conf \<and> pred_option finding_typed f"
proof (cases "fst located")
  case None
  with assms(1,4) show ?thesis by (auto simp: process_candidate_def)
next
  case (Some cand)
  let ?ev = "score_candidate obs cand (snd located) (hypothesisHistory st)"
  let ?st1 = "rememberHypothesis (hypothesisFingerprint cand) st"
  obtain st2 dl' dr' dw' where md: "move_display config obs cand ?ev ?st1 = (st2, (dl', dr', dw'))"
    by (metis prod_cases4)
  obtain st3 f' where rf: "report_finding config obs cand ?ev st2 = (st3, f')" by force
  have eqs: "dw = dw'" "conf = Some ?ev" "f = f'"
    using assms(1) Some md rf by (simp_all add: process_candidate_def Let_def)
  have "snapshot ?st1 = snapshot st" by (simp add: rememberHypothesis_def Let_def)
  then have "pred_option has_text dw'"
    using md assms(4) active_word_text [OF assms(2)]
    by (cases dw') (auto simp: move_display_def Let_def split: if_splits option.splits)
  moreover have "pred_option finding_typed f'"
  proof (cases f')
    case (Some x)
    from assms(5) \<open>fst located = Some cand\<close> obtain i cur com where i: "i < length (ix_symbols (tc_corpus config))"
      "cand = candidate_at (tc_corpus config) (observation_phonemes obs) cur com i" by blast
    obtain n around where "classifyFindingWithEvidence \<lparr>fi_corpus = tc_corpus config, fi_candidate = cand,
        fi_observation = obs, fi_actualPhonemes = observation_phonemes obs, fi_confidence = ?ev,
        fi_confirmations = n, fi_contextPhonemeCount = around\<rparr> (deriveSubstitutionEvidence cand ?ev) = Some x"
      using rf Some by (auto simp: report_finding_def Let_def split: if_splits prod.splits)
    from located_finding_typed [OF _ _ _ _ _ , of "\<lparr>fi_corpus = tc_corpus config, fi_candidate = cand,
        fi_observation = obs, fi_actualPhonemes = observation_phonemes obs, fi_confidence = ?ev,
        fi_confirmations = n, fi_contextPhonemeCount = around\<rparr>"] this i assms(2,3) Some show ?thesis
      by (auto simp: config_ok_def score_candidate_def)
  qed simp
  ultimately show ?thesis using eqs score_typed by (simp add: score_candidate_def)
qed

lemma committed_words_text:
  assumes "core_ok c config st"
  shows "list_all has_text (completedWordIds st)"
proof -
  have "has_text i" if "word_committed config k i" for k i
    using that assms prepared_word [of c i] word_text [of c]
    by (fastforce simp: word_committed_def core_ok_def config_ok_def)
  then show ?thesis using assms by (auto simp: core_ok_def list_all_iff)
qed

lemma submit_typed:
  assumes "tracker_ok c config st" "snapshot_typed (snapshot st)"
  shows "snapshot_typed (snapshot (fst (submit_observation config st v)))"
proof (cases "validateObservation v = Inr () \<and> observationId (read_observation v) \<notin> set (observationIds st)
    \<and> \<not> sourceRevision (read_observation v) < latestSourceRevision st")
  case False
  with submit_cases [OF assms(1), of v] assms(2) show ?thesis by (auto split: sum.splits if_splits)
next
  case True
  let ?obs = "read_observation v"
  from submit_cases [OF assms(1), of v] True obtain st' where
    st': "submit_observation config st v = (st', Inr (snapshot st'))" "accepted c config st v st'" by auto
  have ok: "config_ok c config" "wf_corpus c" "tc_corpus config = build_index c"
    using assms(1) by (simp_all add: tracker_ok_def core_ok_def config_ok_def)
  have named: "has_text (observationId ?obs)"
    using True by (simp add: validateObservation_Inr_iff wf_observation_def has_text_nonblank)
  let ?st1 = "(rememberObservationId (observationId ?obs) st)\<lparr>latestSourceRevision := sourceRevision ?obs\<rparr>"
  obtain b s where loc: "locateObservation (tc_corpus config) v (int (cursorSymbol st)) (int (committedSymbol st)) = Inr (b, s)"
      "\<And>cand. b = Some cand \<Longrightarrow> \<exists>i c. i < length (ix_symbols (tc_corpus config))
        \<and> cand = candidate_at (tc_corpus config) (observation_phonemes ?obs) c (int (committedSymbol st)) i"
    using locate_Inr True by metis
  obtain st2 dl dr dw conf f where proc: "process_candidate config ?obs (b, s) ?st1 = (st2, (dl, dr, dw), conf, f)"
    by (metis prod_cases4 prod_cases3)
  have same: "cursorSymbol ?st1 = cursorSymbol st" "committedSymbol ?st1 = committedSymbol st" "snapshot ?st1 = snapshot st"
    by (simp_all add: rememberObservationId_def Let_def)
  have snap: "display_activeWordId (snapshot st') = dw" "snap_confidence (snapshot st') = conf" "snap_finding (snapshot st') = f"
    using st'(1) True proc loc(1) unfolding submit_observation_def Let_def same by auto
  from processed_typed [OF proc ok(1) named] assms(2) same loc(2)
  have "pred_option has_text dw \<and> pred_option evidence_typed conf \<and> pred_option finding_typed f"
    by (fastforce simp: snapshot_typed_def)
  moreover have "tracker_ok c config st'" "snap_observationId (snapshot st') = Some (observationId ?obs)"
    using st'(2) by (simp_all add: accepted_def)
  moreover from this(1) have "core_ok c config st'" by (simp add: tracker_ok_def)
  from committed_words_text [OF this] \<open>tracker_ok c config st'\<close> \<open>core_ok c config st'\<close>
  have "list_all has_text (commit_completedWordIds (snapshot st')) \<and> distinct (commit_completedWordIds (snapshot st'))
      \<and> location_typed (display_location (snapshot st')) \<and> location_typed (commit_location (snapshot st'))"
    using symbol_location_typed [OF ok(2)] by (auto simp: tracker_ok_def core_ok_def)
  ultimately show ?thesis using st'(1) snap named by (simp add: snapshot_typed_def)
qed

lemma initial_typed:
  assumes "config_ok c config" "hasSymbolAt (build_index c) l"
  shows "snapshot_typed (initial_snapshot n l)"
  using assms symbol_location_typed [of c]
  by (auto simp: snapshot_typed_def initial_snapshot_def hasSymbolAt_def config_ok_def)

lemma create_typed:
  assumes "wf_corpus c" "createReadingTracker (build_index c) initial mode = Inr (config, st)"
  shows "snapshot_typed (snapshot st)"
proof -
  have ok: "tracker_ok c config st" using create_ok [OF assms] .
  obtain symbol l n where l: "symbolIndexAt (build_index c) l = Inr symbol" "snapshot st = initial_snapshot n l"
    using assms(2) by (auto simp: createReadingTracker_def Let_def ebind_Inr_iff initial_state_def split: if_splits)
  with initial_typed [of c config l n] ok symbolIndexAt_found show ?thesis
    by (auto simp: tracker_ok_def core_ok_def)
qed

lemma reset_typed:
  assumes "tracker_ok c config st" "snapshot_typed (snapshot st)"
  shows "snapshot_typed (snapshot (fst (reset_tracker config st location)))"
proof -
  have ok: "config_ok c config" "tc_corpus config = build_index c"
    using assms(1) by (simp_all add: tracker_ok_def core_ok_def config_ok_def)
  show ?thesis
    using assms(2) initial_typed [OF ok(1)] symbolIndexAt_found [of "build_index c"] ok(2)
    by (auto simp: reset_tracker_def Let_def ebind_def initial_state_def split: sum.splits)
qed

lemma reachable_typed: "reachable v config st \<Longrightarrow> snapshot_typed (snapshot st)"
proof (induction rule: reachable.induct)
  case (created corpus initial mode config st)
  then show ?case using create_typed [of "read_corpus v"] by (auto simp: indexCorpus_wf indexCorpus_Inr)
next
  case (submitted config st obs)
  then show ?case using submit_typed [OF reachable_ok] by blast
next
  case (restarted config st location)
  then show ?case using reset_typed [OF reachable_ok] by blast
qed

section \<open>Properties\<close>

text \<open>Every snapshot a tracker of a validated corpus shows, whatever was submitted to it, is a value
  of \<open>snapshot.schema.json\<close> and plain JSON: positive locations of the corpus, identifiers with text,
  distinct completed words, scores in [0, 1], a finding of the right shape, and no field more.\<close>

theorem snapshots_have_their_type:
  assumes "reachable v config st"
  shows "schema_accepts SnapshotSchema (snapshot_js (getSnapshot st)) \<and> json_plain (snapshot_js (getSnapshot st))"
  using snapshot_conforms [OF reachable_typed [OF assms]] by (simp add: getSnapshot_def snapshot_plain)

theorem snapshots_have_their_type_witness:
  "\<exists>config st. snapshot_schema (snapshot_js (getSnapshot (fst (submit_observation config st
     (js_observation ''o1'' 0 True 10 [''b'', ''x''])))))"
proof -
  obtain config st where "reachable sample_corpus config st" using sample_tracker_reachable by blast
  from snapshots_have_their_type [OF reachable.submitted [OF this]] show ?thesis by auto
qed

end
