(* ===== verification/Service_Wire.thy ===== *)
theory Service_Wire
  imports Snapshot_Wire Http_Proofs
begin

text \<open>
  Events, error envelopes and replies as JSON (\<open>packages/protocol/src/messages.ts\<close>, \<open>errors.ts\<close>).
  Every snapshot the session service keeps has its type, so everything the REST adapter answers
  conforms to the published schemas.
\<close>

section \<open>The objects\<close>

definition snapshot_event_js :: "string \<Rightarrow> int \<Rightarrow> jstring \<Rightarrow> jstring \<Rightarrow> reading_snapshot \<Rightarrow> js" where
  "snapshot_event_js type version request session snap = JObj [(''protocolVersion'', js_int version),
     (''requestId'', JStr request), (''type'', js_string type), (''sessionId'', JStr session),
     (''snapshot'', snapshot_js snap)]"

fun event_js :: "qaraa_event \<Rightarrow> js" where
  "event_js (SessionCreated v q i snap) = snapshot_event_js ''session.created'' v q i snap"
| "event_js (SnapshotUpdated v q i snap) = snapshot_event_js ''snapshot.updated'' v q i snap"
| "event_js (SessionDeleted v q i) = JObj [(''protocolVersion'', js_int v), (''requestId'', JStr q),
     (''type'', js_string ''session.deleted''), (''sessionId'', JStr i)]"

fun code_js :: "qaraa_error_code \<Rightarrow> js" where
  "code_js INVALID_CORPUS = js_string ''INVALID_CORPUS''"
| "code_js INVALID_OBSERVATION = js_string ''INVALID_OBSERVATION''"
| "code_js STALE_REVISION = js_string ''STALE_REVISION''"
| "code_js UNSUPPORTED_PROTOCOL = js_string ''UNSUPPORTED_PROTOCOL''"
| "code_js SESSION_NOT_FOUND = js_string ''SESSION_NOT_FOUND''"
| "code_js INTERNAL_ERROR = js_string ''INTERNAL_ERROR''"

definition envelope_js :: "error_envelope \<Rightarrow> js" where
  "envelope_js env = JObj [(''protocolVersion'', js_int (env_protocolVersion env)), (''requestId'', JStr (env_requestId env)),
     (''type'', js_string ''error''), (''code'', code_js (env_code env)), (''message'', JStr (env_message env)),
     (''retryable'', JBool (env_retryable env)), (''details'', env_details env)]"

fun http_body_js :: "http_body \<Rightarrow> js" where
  "http_body_js (SnapshotBody event) = event_js event"
| "http_body_js (SnapshotsBody events) = JArr (map event_js events)"
| "http_body_js (ErrorBody env) = envelope_js env"

section \<open>Typed events\<close>

definition event_typed :: "jstring \<Rightarrow> jstring \<Rightarrow> qaraa_event \<Rightarrow> bool" where
  "event_typed i q event \<longleftrightarrow> ev_version event = PROTOCOL_VERSION \<and> ev_requestId event = q \<and> ev_sessionId event = i
     \<and> (case event of SessionDeleted _ _ _ \<Rightarrow> True | _ \<Rightarrow> snapshot_typed (ev_snapshot event))"

lemma event_typed_iff [simp]:
  "event_typed i q (SessionCreated v q' i' snap) \<longleftrightarrow> v = PROTOCOL_VERSION \<and> q' = q \<and> i' = i \<and> snapshot_typed snap"
  "event_typed i q (SnapshotUpdated v q' i' snap) \<longleftrightarrow> v = PROTOCOL_VERSION \<and> q' = q \<and> i' = i \<and> snapshot_typed snap"
  "event_typed i q (SessionDeleted v q' i') \<longleftrightarrow> v = PROTOCOL_VERSION \<and> q' = q \<and> i' = i"
  "event_typed i q (snapshot_event i' q' snap) \<longleftrightarrow> q' = q \<and> i' = i \<and> snapshot_typed snap"
  by (auto simp: event_typed_def snapshot_event_def)

text \<open>The alternatives of an event are told apart by its field \<open>type\<close>.\<close>

lemma event_alternatives:
  "snapshot_event_schema t v \<Longrightarrow> js_get v ''type'' = js_string t"
  "sessionDeleted_schema v \<Longrightarrow> js_get v ''type'' = js_string ''session.deleted''"
  "error_schema v \<Longrightarrow> js_get v ''type'' = js_string ''error''"
  using object_schema_get [of _ v "''type''" "const_schema (js_string t)" for t]
  by (auto simp: snapshot_event_schema_def sessionDeleted_schema_def error_schema_def simp del: object_schema.simps
      intro: object_schema_get [of _ v "''type''" "const_schema (js_string t)" for t, simplified])

lemma js_string_eq [simp]: "js_string s = js_string t \<longleftrightarrow> lit s = lit t"
  by (simp add: js_string_def)

lemma snapshot_js_defined [simp]: "snapshot_js snap \<noteq> JUndefined"
  by (simp add: snapshot_js_def)

lemma snapshot_event_conforms:
  "snapshot_typed snap \<Longrightarrow> has_text q \<Longrightarrow> has_text i
     \<Longrightarrow> snapshot_event_schema t (snapshot_event_js t 1 q i snap)"
  using snapshot_conforms by (simp add: snapshot_event_schema_def snapshot_event_js_def)

lemma event_conforms:
  assumes "event_typed i q event" "has_text i" "has_text q"
  shows "event_schema (event_js event)"
proof (cases event)
  case (SessionCreated v q' i' snap)
  let ?v = "snapshot_event_js ''session.created'' 1 q i snap"
  have "js_get ?v ''type'' = js_string ''session.created''" by (simp add: snapshot_event_js_def)
  then have "\<not> snapshot_event_schema ''snapshot.updated'' ?v" "\<not> sessionDeleted_schema ?v" "\<not> error_schema ?v"
    by (auto dest: event_alternatives)
  with SessionCreated assms snapshot_event_conforms [of snap q i] show ?thesis
    by (simp add: event_schema_def one_of_def PROTOCOL_VERSION_def)
next
  case (SnapshotUpdated v q' i' snap)
  let ?v = "snapshot_event_js ''snapshot.updated'' 1 q i snap"
  have "js_get ?v ''type'' = js_string ''snapshot.updated''" by (simp add: snapshot_event_js_def)
  then have "\<not> snapshot_event_schema ''session.created'' ?v" "\<not> sessionDeleted_schema ?v" "\<not> error_schema ?v"
    by (auto dest: event_alternatives)
  with SnapshotUpdated assms snapshot_event_conforms [of snap q i] show ?thesis
    by (simp add: event_schema_def one_of_def PROTOCOL_VERSION_def)
next
  case (SessionDeleted v q' i')
  let ?v = "event_js (SessionDeleted 1 q i)"
  have "js_get ?v ''type'' = js_string ''session.deleted''" by simp
  then have "\<not> snapshot_event_schema ''session.created'' ?v" "\<not> snapshot_event_schema ''snapshot.updated'' ?v" "\<not> error_schema ?v"
    by (auto dest: event_alternatives simp del: event_js.simps)
  moreover have "sessionDeleted_schema ?v" using assms by (simp add: sessionDeleted_schema_def)
  ultimately show ?thesis using SessionDeleted assms by (simp add: event_schema_def one_of_def PROTOCOL_VERSION_def)
qed

lemma event_plain: "json_plain (event_js event)"
  by (cases event) (simp_all add: snapshot_event_js_def snapshot_plain js_int_def js_string_def)

lemma code_js_enum: "enum_schema [''INVALID_CORPUS'', ''INVALID_OBSERVATION'', ''STALE_REVISION'',
    ''UNSUPPORTED_PROTOCOL'', ''SESSION_NOT_FOUND'', ''INTERNAL_ERROR''] (code_js c)" "code_js c \<noteq> JUndefined"
    "json_plain (code_js c)"
  by (cases c; simp add: enum_schema_def; simp add: js_string_def)+

lemma envelope_conforms:
  assumes "toEnvelope e q = Inr env" "has_text q"
  shows "error_schema (envelope_js env) \<and> json_plain (envelope_js env)"
proof -
  have env: "json_object (env_details env)" "env_requestId env = q" "env_protocolVersion env = 1"
    using assms by (auto simp: toEnvelope_def PROTOCOL_VERSION_def split: if_splits)
  then have "env_details env \<noteq> JUndefined" "json_plain (env_details env)" by (auto simp: json_object_def)
  with env assms(2) code_js_enum [of "env_code env"] show ?thesis
    by (simp add: error_schema_def envelope_js_def) (simp add: js_int_def js_string_def)
qed

section \<open>What the service keeps is typed\<close>

definition record_typed :: "session_record \<Rightarrow> bool" where
  "record_typed r \<longleftrightarrow> snapshot_typed (rec_snapshot r) \<and> list_all snapshot_typed (rec_snapshots r)"

definition records_typed :: "('s \<Rightarrow> jstring \<Rightarrow> session_record option) \<Rightarrow> 's \<Rightarrow> bool" where
  "records_typed records s \<longleftrightarrow> (\<forall>i r. records s i = Some r \<longrightarrow> record_typed r)"

lemma records_typed_upd: "records_typed records s \<Longrightarrow> records s' = (records s)(i := x) \<Longrightarrow> pred_option record_typed x
    \<Longrightarrow> records_typed records s'"
  by (auto simp: records_typed_def)

lemma records_typed_same: "records_typed records s \<Longrightarrow> records s' = records s \<Longrightarrow> records_typed records s'"
  by (simp add: records_typed_def)

lemma last_snapshots_typed:
  "list_all snapshot_typed snaps \<Longrightarrow> snapshot_typed snap \<Longrightarrow> list_all snapshot_typed (last_snapshots (snaps @ [snap]))"
  by (auto simp: last_snapshots_def list_all_iff dest!: in_set_dropD)

lemma submitted_typed:
  assumes "session_ok rt r" "record_typed r" "js_map_get sessions i = Some rt" "validateObservation v = Inr ()"
    "submit_mutation i v r (sessions, changed) = (w, Inr r')"
  shows "record_typed r'"
proof -
  obtain c where ok: "tracker_ok c (rt_config rt) (rt_tracker rt)" and snap: "rec_snapshot r = snapshot (rt_tracker rt)"
    using assms(1) by (auto simp: session_ok_def)
  let ?t = "fst (submit_observation (rt_config rt) (rt_tracker rt) v)"
  have "r' = r \<or> r' = submitted_record r (read_observation v) (snapshot ?t)"
    using submit_mutation_cases [OF assms(1,3,4), of changed] assms(5) by (auto simp: Let_def split: if_splits)
  moreover have "snapshot_typed (snapshot ?t)"
    using submit_typed [OF ok, of v] assms(2) snap by (simp add: record_typed_def)
  ultimately show ?thesis using assms(2) last_snapshots_typed by (auto simp: record_typed_def submitted_record_def)
qed

lemma reset_record_typed:
  assumes "session_ok rt r" "record_typed r" "reset_mutation i location rt r (sessions, changed) = (w, Inr r')"
  shows "record_typed r'"
proof -
  obtain c where ok: "tracker_ok c (rt_config rt) (rt_tracker rt)" and snap: "rec_snapshot r = snapshot (rt_tracker rt)"
    using assms(1) by (auto simp: session_ok_def)
  obtain t s where t: "reset_tracker (rt_config rt) (rt_tracker rt) location = (t, Inr s)"
      "r' = r\<lparr>rec_snapshot := s, rec_snapshots := last_snapshots (rec_snapshots r @ [s]),
        rec_observationIds := [], rec_latestSourceRevision := -1\<rparr>"
    using assms(3) by (auto simp: reset_mutation_def split: prod.splits sum.splits)
  then have "s = snapshot t" by (auto simp: reset_tracker_def Let_def split: sum.splits)
  moreover have "snapshot_typed (snapshot t)"
    using reset_typed [OF ok, of location] t(1) assms(2) snap by (simp add: record_typed_def)
  ultimately show ?thesis using assms(2) t(2) last_snapshots_typed by (simp add: record_typed_def)
qed

lemma publish_store [simp]: "sv_store (publish config i snap st) = sv_store st"
  using published [of st config i snap] by (simp add: only_drops_def)

lemma create_call_store [simp]: "sv_store (fst (create_call config st)) = sv_store st"
  by (simp add: create_call_def reserveSession_def)

lemma release_store [simp]: "sv_store (releaseSessionReservation st) = sv_store st"
    "sv_store (releaseSubscriber i n st) = sv_store st"
  using only_drops_release [of st i n] by (simp_all add: releaseSessionReservation_def only_drops_def)

context service_storage
begin

text \<open>An operation keeps the records typed and answers with a typed event.\<close>

lemma create_run_typed:
  assumes "records_typed records (sv_store st)" "create_run S config i cmd st = (st', result)"
  shows "records_typed records (sv_store st')
    \<and> (\<forall>event. result = Inr event \<longrightarrow> event_typed i (the_str (js_get cmd ''requestId'')) event)"
proof -
  obtain st1 where body: "create_body S config i cmd st = (st1, result)" "sv_store st' = sv_store st1"
    using assms(2) by (auto simp: create_run_def split: prod.splits)
  let ?l = "command_location cmd ''initialLocation''"
  show ?thesis
  proof (cases "indexedCorpusFor config (the_str (js_get cmd ''corpusId''))")
    case (Inl e)
    with body assms(1) show ?thesis by (auto simp: create_body_def)
  next
    case (Inr index)
    show ?thesis
    proof (cases "createReadingTracker index ?l (command_mode cmd)")
      case (Inl e)
      with Inr body assms(1) show ?thesis by (auto simp: create_body_def Let_def split: if_splits)
    next
      case tracker: (Inr ct)
      obtain tc t where ct: "ct = (tc, t)" by (rule prod.exhaust)
      from corpusFor_indexed [OF Inr] obtain v where v: "index = build_index (read_corpus v)" "wf_corpus (read_corpus v)" by blast
      have typed: "snapshot_typed (getSnapshot t)"
        using create_typed [OF v(2)] tracker ct v(1) by (auto simp: getSnapshot_def)
      let ?r = "\<lparr>rec_sessionId = i, rec_corpusId = the_str (js_get cmd ''corpusId''), rec_snapshot = getSnapshot t,
          rec_snapshots = [getSnapshot t], rec_observationIds = [], rec_latestSourceRevision = -1\<rparr>"
      show ?thesis
      proof (cases "records (sv_store st) i")
        case None
        with create_new [of "sv_store st" ?r] obtain s' where
          s': "store_create S (sv_store st) ?r = (s', Inr ())" "records s' = (records (sv_store st))(i \<mapsto> ?r)" by auto
        from records_typed_upd [OF assms(1) s'(2)] typed have "records_typed records s'" by (simp add: record_typed_def)
        with Inr tracker ct s'(1) body assms(1) typed show ?thesis
          by (auto simp: create_body_def Let_def split: if_splits)
      next
        case (Some r0)
        with create_taken [of "sv_store st" ?r] obtain s' where
          s': "store_create S (sv_store st) ?r = (s', Inl (RecordExists i))" "records s' = records (sv_store st)" by auto
        with Inr tracker ct body assms(1) records_typed_same [OF assms(1) s'(2)] show ?thesis
          by (auto simp: create_body_def Let_def split: if_splits)
      qed
    qed
  qed
qed

lemma reset_session_typed:
  assumes "service_ok config records st" "records_typed records (sv_store st)" "reset_session S config cmd st = (st', result)"
  shows "records_typed records (sv_store st') \<and> (\<forall>event. result = Inr event
    \<longrightarrow> event_typed (the_str (js_get cmd ''sessionId'')) (the_str (js_get cmd ''requestId'')) event)"
proof (cases "js_map_get (sv_sessions st) (the_str (js_get cmd ''sessionId''))")
  case None
  with assms show ?thesis by (auto simp: reset_session_def Let_def)
next
  case (Some rt)
  let ?i = "the_str (js_get cmd ''sessionId'')" and ?l = "command_location cmd ''location''"
  have "records (sv_store st) ?i \<noteq> None" using Some assms(1) by (simp add: service_ok_def)
  then obtain r where r: "records (sv_store st) ?i = Some r" by blast
  with Some assms have ok: "session_ok rt r" "record_typed r" by (auto simp: service_ok_def records_typed_def)
  show ?thesis
  proof (cases rule: update_cases [of "sv_store st" ?i "reset_mutation ?i ?l rt" "(sv_sessions st, False)"])
    case (missing s')
    with r show ?thesis by simp
  next
    case (throws r0 w e s')
    with Some assms(2,3) records_typed_same [OF assms(2) throws(4)] show ?thesis
      by (cases w) (auto simp: reset_session_def Let_def split: if_splits)
  next
    case (returns r0 w r' s')
    have "record_typed r'" using reset_record_typed [OF ok] returns(1,2) r by auto
    moreover from this records_typed_upd [OF assms(2) returns(4)] have "records_typed records s'" by simp
    ultimately show ?thesis using Some assms(2,3) returns(3)
      by (cases w) (auto simp: reset_session_def Let_def record_typed_def split: if_splits)
  qed
qed

lemma submit_session_typed:
  assumes ok: "service_ok config records st" and typed: "records_typed records (sv_store st)"
    and s: "submit_session S config cmd st = (st', result)"
  shows "records_typed records (sv_store st') \<and> (\<forall>event. result = Inr event
    \<longrightarrow> event_typed (the_str (js_get cmd ''sessionId'')) (the_str (js_get cmd ''requestId'')) event)"
proof (cases "submit_input_ok config cmd")
  case False
  with submit_refused [OF False, of S st] typed s show ?thesis by auto
next
  case True
  let ?i = "the_str (js_get cmd ''sessionId'')" and ?v = "command_observation cmd"
  have valid: "validateObservation ?v = Inr ()" "assertValidObservation (sc_ajv config) ?v = Inr ()"
      "assertDomainObservation ?v = Inr ()"
    using True assertValidObservation_cases(1) by (simp_all add: submit_input_ok_def assertDomainObservation_def)
  show ?thesis
  proof (cases rule: update_cases [of "sv_store st" ?i "submit_mutation ?i ?v" "(sv_sessions st, False)"])
    case (missing s')
    with valid s records_typed_same [OF typed missing(3)] show ?thesis
      by (auto simp: submit_session_def Let_def)
  next
    case (throws r w e s')
    with valid s records_typed_same [OF typed throws(4)] show ?thesis
      by (cases w) (auto simp: submit_session_def Let_def)
  next
    case (returns r w r' s')
    obtain rt where rt: "js_map_get (sv_sessions st) ?i = Some rt" "session_ok rt r"
      by (rule session_present [OF ok returns(1)])
    have "record_typed r" using typed returns(1) by (simp add: records_typed_def)
    from submitted_typed [OF rt(2) this rt(1) valid(1) returns(2)] have r': "record_typed r'" .
    with records_typed_upd [OF typed returns(4)] have "records_typed records s'" by simp
    with r' returns(3) valid s show ?thesis
      by (cases w) (auto simp: submit_session_def Let_def record_typed_def split: if_splits)
  qed
qed

lemma delete_session_typed:
  assumes "records_typed records (sv_store st)" "delete_session S cmd st = (st', result)"
  shows "records_typed records (sv_store st') \<and> (\<forall>event. result = Inr event
    \<longrightarrow> event_typed (the_str (js_get cmd ''sessionId'')) (the_str (js_get cmd ''requestId'')) event)"
proof -
  obtain s' where s': "store_delete S (sv_store st) (the_str (js_get cmd ''sessionId''))
        = (s', records (sv_store st) (the_str (js_get cmd ''sessionId'')) \<noteq> None)"
      "records s' = (records (sv_store st))(the_str (js_get cmd ''sessionId'') := None)"
    using delete_record by blast
  from records_typed_upd [OF assms(1) s'(2)] have "records_typed records s'" by simp
  with s'(1) assms(2) show ?thesis by (auto simp: delete_session_def Let_def split: if_splits)
qed

lemma get_session_typed:
  "records_typed records (sv_store st) \<Longrightarrow> get_session S cmd st = Inr event
     \<Longrightarrow> event_typed (the_str (js_get cmd ''sessionId'')) (the_str (js_get cmd ''requestId'')) event"
  by (auto simp: get_session_def Let_def get records_typed_def record_typed_def split: option.splits)

lemma resume_session_typed:
  "records_typed records (sv_store st) \<Longrightarrow> resume_session S cmd st = Inr events
     \<Longrightarrow> list_all (event_typed (the_str (js_get cmd ''sessionId'')) (the_str (js_get cmd ''requestId''))) events"
  by (auto simp: resume_session_def Let_def get records_typed_def record_typed_def list_all_iff missed_snapshots_def
      split: option.splits)

lemma subscribed_store:
  "sv_store (fst (subscribe_session S config cmd listener st)) = sv_store st"
proof -
  have *: "sv_store st2 = sv_store st1" if "replay config listener events st1 = (st2, b)" for events st1 st2 b
    using that replayed [of st1 config listener events] by (simp add: only_drops_def)
  show ?thesis
    by (auto simp: subscribe_session_def Let_def split: option.splits prod.splits bool.splits dest: *)
qed

end

section \<open>In every reachable state\<close>

lemma service_step_typed:
  assumes "service_step config listener st pending st' pending'" "service_ok config js_map_get st"
    "records_typed js_map_get (sv_store st)"
  shows "records_typed js_map_get (sv_store st')"
  using assms(1)
proof cases
  case (create_called i cmd)
  with create_call_store [of config st] assms(3) show ?thesis by simp
next
  case (create_ran i cmd)
  with service.create_run_typed [OF assms(3), of config i cmd] show ?thesis by (metis prod.collapse)
next
  case (reset_ran cmd)
  with service.reset_session_typed [OF assms(2,3), of cmd] show ?thesis by (metis prod.collapse)
next
  case (submit_ran cmd)
  with service.submit_session_typed [OF assms(2,3), of cmd] show ?thesis by (metis prod.collapse)
next
  case (delete_ran cmd)
  with service.delete_session_typed [OF assms(3), of cmd] show ?thesis by (metis prod.collapse)
qed (use assms(3) service.subscribed_store in auto)

lemma service_reachable_typed:
  "service_reachable config st pending \<Longrightarrow> records_typed js_map_get (sv_store st)"
proof (induction rule: service_reachable.induct)
  case (started ajv corpus resolve maxSessions maxSubscribers accepts config st)
  then show ?case
    by (auto simp: createSessionService_def ebind_Inr_iff records_typed_def split: if_splits sum.splits)
next
  case (stepped config st pending listener st' pending')
  then show ?case using service_step_typed service_reachable_ok by blast
qed

section \<open>Replies\<close>

lemma assertCommand_text:
  assumes "assertCommand ajv v type = Inr u" "ajv_decides ajv"
  shows "has_text (the_str (js_get v ''requestId''))
    \<and> (type \<noteq> ''session.create'' \<longrightarrow> has_text (the_str (js_get v ''sessionId'')))"
proof -
  have v: "command_schema v" "js_get v ''type'' = js_string type"
    using assms by (auto simp: assertCommand_def commandValidator_def preflight_decides split: if_splits)
  from command_schema_typed [OF v(1)] obtain props where props: "object_schema props v"
    "needed ''requestId'' nonEmptyString \<in> set props"
    "js_get v ''type'' = js_string ''session.create'' \<or> needed ''sessionId'' nonEmptyString \<in> set props" by blast
  from object_schema_get [OF props(1,2)] object_schema_get [OF props(1), of "''sessionId''" nonEmptyString] props(3) v(2)
  show ?thesis by (auto simp: nonEmptyString_def)
qed

lemma on_result_Inr: "on_result f x = (st', Inr y) \<Longrightarrow> \<exists>z. x = (st', Inr z) \<and> y = f z"
  by (cases x) (auto simp: on_result_def split: sum.splits)

text \<open>A result of a route: typed events with identifiers that have text.\<close>

definition named_event :: "qaraa_event \<Rightarrow> bool" where
  "named_event event \<longleftrightarrow> (\<exists>i q. event_typed i q event \<and> has_text i \<and> has_text q)"

definition typed_body :: "http_body \<Rightarrow> bool" where
  "typed_body body \<longleftrightarrow> (case body of SnapshotBody event \<Rightarrow> named_event event
     | SnapshotsBody events \<Rightarrow> list_all named_event events | ErrorBody _ \<Rightarrow> False)"

lemma named_event_conforms: "named_event event \<Longrightarrow> event_schema (event_js event)"
  unfolding named_event_def using event_conforms by blast

context service_storage
begin

lemma route_typed:
  assumes ok: "service_ok config records st" and typed: "records_typed records (sv_store st)"
    and ajv: "ajv_decides (sc_ajv config)" and new: "has_text newSessionId"
    and route: "route_operation S config newSessionId uuid rq route st = (st', Inr body)"
  shows "typed_body body"
proof -
  note named = assertCommand_text [OF _ ajv]
  show ?thesis
  proof (cases route)
    case CreateSession
    with route obtain event where cmd: "assertCommand (sc_ajv config) (rq_body rq) ''session.create'' = Inr ()"
        "service_create S config newSessionId (rq_body rq) st = (st', Inr event)" "body = SnapshotBody event"
      by (auto simp: route_operation_def split: sum.splits dest!: on_result_Inr)
    then obtain st1 u where run: "create_call config st = (st1, Inr u)"
        "create_run S config newSessionId (rq_body rq) st1 = (st', Inr event)"
      by (auto simp: service_create_def split: prod.splits sum.splits)
    then have "records_typed records (sv_store st1)" using create_call_store [of config st] typed by simp
    from create_run_typed [OF this run(2)] named [OF cmd(1)] new cmd(3) show ?thesis
      by (auto simp: typed_body_def named_event_def)
  next
    case GetSession
    with route obtain event where "assertCommand (sc_ajv config) (path_command uuid rq ''session.get'') ''session.get'' = Inr ()"
        "get_session S (path_command uuid rq ''session.get'') st = Inr event" "body = SnapshotBody event"
      by (auto simp: route_operation_def path_route_def split: sum.splits dest!: on_result_Inr)
    with get_session_typed [OF typed] named show ?thesis by (fastforce simp: typed_body_def named_event_def)
  next
    case ResetSession
    with route obtain event where "assertCommand (sc_ajv config) (rq_body rq) ''session.reset'' = Inr ()"
        "reset_session S config (rq_body rq) st = (st', Inr event)" "body = SnapshotBody event"
      by (auto simp: route_operation_def body_route_def split: sum.splits if_splits dest!: on_result_Inr)
    with reset_session_typed [OF ok typed] named show ?thesis by (fastforce simp: typed_body_def named_event_def)
  next
    case SubmitObservation
    with route obtain event where "assertCommand (sc_ajv config) (rq_body rq) ''observation.submit'' = Inr ()"
        "submit_session S config (rq_body rq) st = (st', Inr event)" "body = SnapshotBody event"
      by (auto simp: route_operation_def body_route_def split: sum.splits if_splits dest!: on_result_Inr)
    with submit_session_typed [OF ok typed] named show ?thesis by (fastforce simp: typed_body_def named_event_def)
  next
    case ResumeSession
    with route obtain events where "assertCommand (sc_ajv config) (rq_body rq) ''session.resume'' = Inr ()"
        "resume_session S (rq_body rq) st = Inr events" "body = SnapshotsBody events"
      by (auto simp: route_operation_def body_route_def split: sum.splits if_splits dest!: on_result_Inr)
    with resume_session_typed [OF typed] named show ?thesis by (fastforce simp: typed_body_def named_event_def list_all_iff)
  next
    case DeleteSession
    with route obtain event where "assertCommand (sc_ajv config) (path_command uuid rq ''session.delete'') ''session.delete'' = Inr ()"
        "delete_session S (path_command uuid rq ''session.delete'') st = (st', Inr event)" "body = SnapshotBody event"
      by (auto simp: route_operation_def path_route_def split: sum.splits dest!: on_result_Inr)
    with delete_session_typed [OF typed] named show ?thesis by (fastforce simp: typed_body_def named_event_def)
  qed
qed

end

lemma requestId_text: "has_text uuid \<Longrightarrow> has_text (requestId uuid rq)"
  by (simp add: requestId_def text_field_def)

text \<open>What a reply carries, as the schemas see it.\<close>

definition reply_conforms :: "http_response \<Rightarrow> bool" where
  "reply_conforms reply \<longleftrightarrow> json_plain (http_body_js (rs_body reply)) \<and> (case rs_body reply of
       SnapshotBody event \<Rightarrow> schema_accepts EventSchema (event_js event)
     | SnapshotsBody events \<Rightarrow> list_all (\<lambda>e. schema_accepts EventSchema (event_js e)) events
     | ErrorBody env \<Rightarrow> schema_accepts ErrorSchema (envelope_js env))"

lemma typed_body_conforms: "typed_body body \<Longrightarrow> reply_conforms \<lparr>rs_status = n, rs_body = body\<rparr>"
  by (cases body) (auto simp: typed_body_def reply_conforms_def named_event_conforms event_plain list_all_iff)

lemma send_error_conforms:
  "send_error x status i = Inr reply \<Longrightarrow> has_text i \<Longrightarrow> reply_conforms reply"
  using envelope_conforms by (auto simp: send_error_def reply_conforms_def split: server_error.splits sum.splits)

lemma error_handler_conforms:
  "error_handler uuid rq invalid x = (l, Inr reply) \<Longrightarrow> has_text uuid \<Longrightarrow> reply_conforms reply"
  by (auto simp: error_handler_def requestId_text dest: send_error_conforms split: if_splits)

section \<open>Properties\<close>

text \<open>C26: in every reachable state of the service, whatever reply the REST adapter sends, for a request that
  reaches a route, for an unknown route, for a body that is not JSON or for any exception, its body is plain
  JSON that conforms to the published schemas: an event, a list of events, or an error envelope.  The
  identifiers the server makes up are assumed to have text, and Ajv to decide as the schemas say.\<close>

theorem replies_conform:
  assumes "service_reachable config st pending" "ajv_decides (sc_ajv config)" "has_text newSessionId"
    "has_text (fst uuids)" "has_text (snd uuids)"
    "serve MemorySessionStore config newSessionId uuids rq call st = (st', logged, Inr reply)"
  shows "reply_conforms reply"
proof (cases call)
  case (RouteHandler route)
  obtain st1 outcome where op: "route_operation MemorySessionStore config newSessionId (fst uuids) rq route st = (st1, outcome)"
    by (rule prod.exhaust)
  have ok: "service_ok config js_map_get st" using service_reachable_ok [OF assms(1)] by simp
  have id: "has_text (requestId (snd uuids) rq)" by (rule requestId_text) (rule assms(5))
  show ?thesis
  proof (cases outcome)
    case (Inl x)
    with RouteHandler op assms(5,6) id show ?thesis
      by (auto simp: serve_def respond_def Let_def split: sum.splits prod.splits if_splits
          dest: send_error_conforms error_handler_conforms)
  next
    case (Inr body)
    with service.route_typed [OF ok service_reachable_typed [OF assms(1)] assms(2,3)] op have "typed_body body" by blast
    with RouteHandler op assms(6) Inr typed_body_conforms show ?thesis by (auto simp: serve_def respond_def)
  qed
next
  case NotFoundHandler
  with assms(5,6) show ?thesis
    by (auto simp: serve_def not_found_handler_def requestId_text dest: send_error_conforms)
next
  case (ErrorHandler invalid x)
  with assms(5,6) show ?thesis by (auto simp: serve_def dest: error_handler_conforms)
qed

definition wire_start :: "server_error + service_config \<times> memory_store service_state" where
  "wire_start = createSessionService reference_ajv None (Some (\<lambda>_. Inr (Some sample_corpus))) JUndefined JUndefined
     (\<lambda>_ _. True) []"

definition wire_reset :: js where
  "wire_reset = JObj [(''protocolVersion'', js_int 1), (''requestId'', js_string ''q''),
     (''type'', js_string ''session.reset''), (''sessionId'', js_string ''s'')]"

definition wire_serve :: "service_config \<Rightarrow> memory_store service_state
    \<Rightarrow> memory_store service_state \<times> server_error list \<times> (server_error + http_response)" where
  "wire_serve config st = serve MemorySessionStore config (lit ''s'') (lit ''u'', lit ''v'')
     (sample_request wire_reset) (RouteHandler ResetSession) st"

lemma wire_served:
  "case wire_start of Inr (config, st) \<Rightarrow> (case wire_serve config st of (_, _, Inr reply) \<Rightarrow> rs_status reply = 404 | _ \<Rightarrow> False)
     | Inl _ \<Rightarrow> False"
  by code_simp

theorem replies_conform_witness:
  "\<exists>config st st' logged reply. wire_start = Inr (config, st) \<and> wire_serve config st = (st', logged, Inr reply)
     \<and> rs_status reply = 404 \<and> reply_conforms reply"
proof -
  obtain config st where c: "wire_start = Inr (config, st)" using wire_served by (auto split: sum.splits)
  have "case wire_serve config st of (_, _, Inr reply) \<Rightarrow> rs_status reply = 404 | _ \<Rightarrow> False"
    using wire_served unfolding c sum.case prod.case .
  then obtain st' logged reply where r: "wire_serve config st = (st', logged, Inr reply)" "rs_status reply = 404"
    by (cases "wire_serve config st") (auto split: sum.splits)
  have "service_reachable config st []" by (rule service_reachable.started [OF c [unfolded wire_start_def]])
  moreover have "sc_ajv config = reference_ajv"
    using c by (auto simp: wire_start_def createSessionService_def ebind_Inr_iff split: if_splits sum.splits)
  moreover have "has_text (lit ''s'')" "has_text (lit ''u'')" "has_text (lit ''v'')" by code_simp+
  ultimately have "reply_conforms reply"
    using replies_conform [OF _ _ _ _ _ r(1) [unfolded wire_serve_def]] by (simp add: reference_ajv_decides)
  with c r show ?thesis by blast
qed

end
