(* ===== verification/Client_Server.thy ===== *)
theory Client_Server
  imports Uri_Component Service_Wire Remote_Session
begin

text \<open>
  A remote session and a server together: the requests of \<open>packages/client/src/remote-session.ts\<close>, the
  routes of \<open>packages/server/src/http.ts\<close> they reach, and what the client makes of the replies.  The
  bodies are JSON text (\<open>JSON.stringify\<close> and \<open>JSON.parse\<close> of the ECMAScript standard).  What is
  between the caller's \<open>fetch\<close> and the handlers of the server, the network, the router and the body
  parser of Fastify, is not code of the repository: it is the argument \<open>server_front\<close> of the exchange, and
  what is documented of it is \<open>documented_front\<close>.
\<close>

section \<open>JSON text\<close>

text \<open>\<open>JSON.parse(JSON.stringify(v))\<close>: fields that are undefined or functions go, in an array they become
  \<open>null\<close>, and so does a number that is not finite.  \<open>None\<close> is \<open>undefined\<close>.\<close>

fun json_copy :: "js \<Rightarrow> js option" where
  "json_copy JUndefined = None"
| "json_copy JFun = None"
| "json_copy (JNum n) = Some (if number_isFinite n then JNum n else JNull)"
| "json_copy (JArr xs) = Some (JArr (map (\<lambda>x. case json_copy x of Some y \<Rightarrow> y | None \<Rightarrow> JNull) xs))"
| "json_copy (JObj fs) = Some (JObj (concat (map (\<lambda>f. case json_copy (snd f) of Some v \<Rightarrow> [(fst f, v)] | None \<Rightarrow> []) fs)))"
| "json_copy v = Some v"

lemma json_copy_plain: "json_plain v \<Longrightarrow> json_copy v = Some v"
proof (induction v rule: json_plain.induct)
  case (7 xs)
  then have "map (\<lambda>x. case json_copy x of Some y \<Rightarrow> y | None \<Rightarrow> JNull) xs = xs"
    by (intro map_idI) (auto simp: list_all_iff)
  then show ?case by simp
next
  case (8 fs)
  let ?g = "\<lambda>f. case json_copy (snd f) of Some v \<Rightarrow> [(fst f, v)] | None \<Rightarrow> []"
  have "\<forall>f \<in> set fs. ?g f = [f]" using 8 by (auto simp: list_all_iff)
  then have "concat (map ?g fs) = fs" by (induction fs) auto
  then show ?case by simp
qed simp_all

section \<open>The router\<close>

text \<open>For a method and a path: the call and the parameter \<open>sessionId\<close>.\<close>

type_synonym router = "jstring \<Rightarrow> jstring \<Rightarrow> http_call \<times> js"

definition sessions_path :: jstring where
  "sessions_path = lit ''/v1/sessions/''"

text \<open>A parameter matches one segment of at most 100 characters and is read with \<open>decodeURIComponent\<close>.\<close>

definition routes_sessions :: "router \<Rightarrow> bool" where
  "routes_sessions router \<longleftrightarrow> (\<forall>segment sessionId. segment_text segment \<and> length segment \<le> 100
       \<and> decodeURIComponent segment = Some sessionId \<longrightarrow>
     router (lit ''GET'') (sessions_path @ segment) = (RouteHandler GetSession, JStr sessionId)
     \<and> router (lit ''POST'') (sessions_path @ segment @ lit ''/reset'') = (RouteHandler ResetSession, JStr sessionId)
     \<and> router (lit ''POST'') (sessions_path @ segment @ lit ''/observations'') = (RouteHandler SubmitObservation, JStr sessionId))"

definition session_router :: router where
  "session_router verb path =
     (let rest = drop (length sessions_path) path; segment = takeWhile (\<lambda>c. \<not> separator c) rest;
          tail = drop (length segment) rest
      in if starts_with path sessions_path \<and> segment \<noteq> [] \<and> length segment \<le> 100
         then (case decodeURIComponent segment of
             None \<Rightarrow> (NotFoundHandler, JUndefined)
           | Some sessionId \<Rightarrow>
               if verb = lit ''GET'' \<and> tail = [] then (RouteHandler GetSession, JStr sessionId)
               else if verb = lit ''DELETE'' \<and> tail = [] then (RouteHandler DeleteSession, JStr sessionId)
               else if verb = lit ''POST'' \<and> tail = lit ''/reset'' then (RouteHandler ResetSession, JStr sessionId)
               else if verb = lit ''POST'' \<and> tail = lit ''/observations'' then (RouteHandler SubmitObservation, JStr sessionId)
               else if verb = lit ''POST'' \<and> tail = lit ''/resume'' then (RouteHandler ResumeSession, JStr sessionId)
               else (NotFoundHandler, JUndefined))
         else (NotFoundHandler, JUndefined))"

lemma session_router_routes: "routes_sessions session_router"
proof -
  have slash: "separator 47" by (simp add: separator_def lit_def)
  have segment: "takeWhile (\<lambda>c. \<not> separator c) (segment @ t) = segment"
    if "segment_text segment" "t = [] \<or> hd t = 47" for segment t
    using that slash by (cases t) (auto simp: segment_text_def list_all_iff takeWhile_append2)
  have tails: "hd (lit ''/reset'') = 47" "hd (lit ''/observations'') = 47" by (simp_all add: lit_def)
  show ?thesis
    unfolding routes_sessions_def
  proof (intro allI impI)
    fix segment sessionId
    assume s: "segment_text segment \<and> length segment \<le> 100 \<and> decodeURIComponent segment = Some sessionId"
    then have seg: "segment_text segment" "length segment \<le> 100" "decodeURIComponent segment = Some sessionId" "segment \<noteq> []"
      by (simp_all add: segment_text_def)
    have take: "takeWhile (\<lambda>c. \<not> separator c) segment = segment"
        "takeWhile (\<lambda>c. \<not> separator c) (segment @ lit ''/reset'') = segment"
        "takeWhile (\<lambda>c. \<not> separator c) (segment @ lit ''/observations'') = segment"
      using segment [OF seg(1), of "[]"] segment [OF seg(1), of "lit ''/reset''"] segment [OF seg(1), of "lit ''/observations''"] tails
      by simp_all
    show "session_router (lit ''GET'') (sessions_path @ segment) = (RouteHandler GetSession, JStr sessionId)
      \<and> session_router (lit ''POST'') (sessions_path @ segment @ lit ''/reset'') = (RouteHandler ResetSession, JStr sessionId)
      \<and> session_router (lit ''POST'') (sessions_path @ segment @ lit ''/observations'') = (RouteHandler SubmitObservation, JStr sessionId)"
      using seg by (simp add: session_router_def Let_def starts_with_def take)
  qed
qed

section \<open>An exchange\<close>

text \<open>The first request of a session, and the request of a mutation.\<close>

datatype client_call = FirstSnapshot | SendMutation jstring mutation_kind

record client_request =
  cr_method :: jstring
  cr_url :: jstring
  cr_headers :: js
  cr_body :: js

definition first_request :: "remote_config \<Rightarrow> client_request" where
  "first_request config = \<lparr>cr_method = lit ''GET'', cr_url = session_url (rm_baseUrl config) (rm_encodedId config),
     cr_headers = JObj [(''x-qaraa-protocol-version'', JStr (dec (nat PROTOCOL_VERSION)))], cr_body = JUndefined\<rparr>"

definition post_request :: "remote_config \<Rightarrow> jstring \<Rightarrow> mutation_kind \<Rightarrow> client_request" where
  "post_request config q kind = (case mutation_request config q kind of (url, body) \<Rightarrow>
     \<lparr>cr_method = lit ''POST'', cr_url = url, cr_headers = JObj [(''content-type'', js_string ''application/json'')], cr_body = body\<rparr>)"

fun client_request_of :: "remote_config \<Rightarrow> client_call \<Rightarrow> client_request" where
  "client_request_of config FirstSnapshot = first_request config"
| "client_request_of config (SendMutation q kind) = post_request config q kind"

text \<open>What the body parser makes of a JSON body: a value, an error that tells the body is no valid JSON, or another
  error, as for a body over the limit.\<close>

datatype parsed_body = ParsedBody js | InvalidBody server_error | RefusedBody server_error

text \<open>The front of the server: the path that a URL asks it for, its router, the headers as they arrive, the bytes of
  the text of a body, and its body parser.\<close>

record server_front =
  fr_path :: "jstring \<Rightarrow> jstring"
  fr_router :: router
  fr_headers :: "js \<Rightarrow> js"
  fr_bytes :: "js \<Rightarrow> nat"
  fr_parse :: "js \<Rightarrow> parsed_body"

text \<open>The limit of a body that \<open>Fastify\<close> has unless it is told another one, 1 MiB; and the names its parser refuses.\<close>

definition body_limit :: nat where
  "body_limit = 1048576"

fun safe_names :: "js \<Rightarrow> bool" where
  "safe_names (JArr xs) \<longleftrightarrow> list_all safe_names xs"
| "safe_names (JObj fs) \<longleftrightarrow> list_all (\<lambda>f. fst f \<noteq> ''__proto__'' \<and> fst f \<noteq> ''constructor'' \<and> safe_names (snd f)) fs"
| "safe_names v \<longleftrightarrow> True"

text \<open>The base URL of the client leads to the server, and an encoded identifier that is no dot segment reaches it as
  it is; the routes match; the headers of the adapter arrive; a body is parsed to what was sent
  unless it is over the limit, when it is refused, or has a name the parser may refuse.\<close>

definition documented_front :: "jstring \<Rightarrow> server_front \<Rightarrow> bool" where
  "documented_front base front \<longleftrightarrow>
     (\<forall>i segment tail. encodeURIComponent i = Some segment \<and> i \<notin> {[], lit ''.'', lit ''..''}
        \<and> tail \<in> {[], lit ''/reset'', lit ''/observations''} \<longrightarrow>
        fr_path front (base @ sessions_path @ segment @ tail) = sessions_path @ segment @ tail)
     \<and> routes_sessions (fr_router front)
     \<and> (\<forall>headers. \<forall>name \<in> {''x-qaraa-protocol-version'', ''x-request-id''}. js_get (fr_headers front headers) name = js_get headers name)
     \<and> (\<forall>body. fr_bytes front body \<le> body_limit \<and> safe_names body \<longrightarrow> fr_parse front body = ParsedBody body)
     \<and> (\<forall>body. body_limit < fr_bytes front body \<longrightarrow> (\<exists>error. fr_parse front body = RefusedBody error))"

text \<open>The request as the server's handlers see it.  A body that was not parsed is not there, and its error is
  handed to the error handler.\<close>

definition received :: "server_front \<Rightarrow> client_request \<Rightarrow> http_request \<times> http_call" where
  "received front request =
     (let path = fr_path front (cr_url request); (call, sessionId) = fr_router front (cr_method request) path;
          arrived = (\<lambda>body. \<lparr>rq_body = body, rq_sessionId = sessionId, rq_query = JObj [],
            rq_headers = fr_headers front (cr_headers request), rq_url = path\<rparr>)
      in (case json_copy (cr_body request) of
            None \<Rightarrow> (arrived JUndefined, call)
          | Some body \<Rightarrow> (case fr_parse front body of
              ParsedBody v \<Rightarrow> (arrived v, call)
            | InvalidBody error \<Rightarrow> (arrived JUndefined, ErrorHandler True error)
            | RefusedBody error \<Rightarrow> (arrived JUndefined, ErrorHandler False error))))"

definition exchange :: "server_front \<Rightarrow> remote_config \<Rightarrow> service_config \<Rightarrow> jstring \<Rightarrow> jstring \<times> jstring \<Rightarrow> client_call
    \<Rightarrow> memory_store service_state \<Rightarrow> memory_store service_state \<times> server_error list \<times> (server_error + http_response)" where
  "exchange front config server newSessionId uuids call st =
     (case received front (client_request_of config call) of (rq, handler) \<Rightarrow>
        serve MemorySessionStore server newSessionId uuids rq handler st)"

text \<open>Whether the body of a call is parsed, and whether it is over the limit.\<close>

definition deliverable :: "server_front \<Rightarrow> remote_config \<Rightarrow> client_call \<Rightarrow> bool" where
  "deliverable front config call \<longleftrightarrow> (case json_copy (cr_body (client_request_of config call)) of
       None \<Rightarrow> True | Some body \<Rightarrow> fr_bytes front body \<le> body_limit \<and> safe_names body)"

definition oversized :: "server_front \<Rightarrow> remote_config \<Rightarrow> client_call \<Rightarrow> bool" where
  "oversized front config call \<longleftrightarrow> (case json_copy (cr_body (client_request_of config call)) of
       None \<Rightarrow> False | Some body \<Rightarrow> body_limit < fr_bytes front body)"

text \<open>The reply as \<open>fetch\<close> gives it to the client: \<open>ok\<close>, and the payload of its text.\<close>

definition reply_answer :: "http_response \<Rightarrow> request_answer" where
  "reply_answer reply = (case json_copy (http_body_js (rs_body reply)) of
       Some payload \<Rightarrow> Replied (200 \<le> rs_status reply \<and> rs_status reply \<le> 299) payload
     | None \<Rightarrow> BodyThrew)"

section \<open>The operation itself\<close>

text \<open>What the request stands for: the command, checked and run by the service.\<close>

fun call_type :: "client_call \<Rightarrow> string" where
  "call_type FirstSnapshot = ''session.get''"
| "call_type (SendMutation _ (SubmitMutation _)) = ''observation.submit''"
| "call_type (SendMutation _ (ResetMutation _)) = ''session.reset''"

fun call_command :: "remote_config \<Rightarrow> jstring \<Rightarrow> client_call \<Rightarrow> js" where
  "call_command config uuid FirstSnapshot = JObj [(''protocolVersion'', js_int PROTOCOL_VERSION),
     (''requestId'', JStr uuid), (''type'', js_string ''session.get''), (''sessionId'', JStr (rm_sessionId config))]"
| "call_command config uuid (SendMutation q kind) = the (json_copy (snd (mutation_request config q kind)))"

fun run_call :: "service_config \<Rightarrow> client_call \<Rightarrow> js \<Rightarrow> memory_store service_state
    \<Rightarrow> memory_store service_state \<times> (server_error + qaraa_event)" where
  "run_call server FirstSnapshot cmd st = (st, get_session MemorySessionStore cmd st)"
| "run_call server (SendMutation _ (SubmitMutation _)) cmd st = submit_session MemorySessionStore server cmd st"
| "run_call server (SendMutation _ (ResetMutation _)) cmd st = reset_session MemorySessionStore server cmd st"

definition direct_call :: "service_config \<Rightarrow> client_call \<Rightarrow> js \<Rightarrow> memory_store service_state
    \<Rightarrow> memory_store service_state \<times> (server_error + qaraa_event)" where
  "direct_call server call cmd st = (case assertCommand (sc_ajv server) cmd (call_type call) of
       Inl e \<Rightarrow> (st, Inl e)
     | Inr _ \<Rightarrow> run_call server call cmd st)"

text \<open>What the client is told of the outcome: the snapshot, or the error, which is no longer a trusted one.\<close>

definition told :: "server_error + qaraa_event \<Rightarrow> remote_error + js" where
  "told outcome = (case outcome of
       Inr event \<Rightarrow> Inr (snapshot_js (ev_snapshot event))
     | Inl (ProtocolFailure e) \<Rightarrow> Inl (ServerFailure (ProtocolFailure (e\<lparr>qe_trusted := False\<rparr>)))
     | Inl x \<Rightarrow> Inl (ServerFailure x))"

section \<open>The request arrives\<close>

lemma first_segment: "encodeURIComponent s = Some e \<Longrightarrow> s \<noteq> [] \<Longrightarrow> segment_text e \<and> decodeURIComponent e = Some s"
  using encoded_segment decode_encoded by blast

text \<open>What \<open>createRemoteSession\<close> relies on: options it accepts, and an identifier that is no dot segment of a path and
  that the router can match.\<close>

definition connected :: "remote_config \<Rightarrow> bool" where
  "connected config \<longleftrightarrow> rm_sessionId config \<notin> {[], lit ''.'', lit ''..''} \<and> encodeURIComponent (rm_sessionId config) = Some (rm_encodedId config)
     \<and> length (rm_encodedId config) \<le> 100"

lemma configured_connected:
  assumes "configure_remote ajv parse baseUrl sessionId retry ids = Inr config" "sessionId \<notin> {[], lit ''.'', lit ''..''}" "length (rm_encodedId config) \<le> 100"
  shows "connected config"
  using assms by (auto simp: configure_remote_def connected_def split: sum.splits option.splits)

lemma routed:
  assumes "routes_sessions router" "connected config"
  shows "router (lit ''GET'') (sessions_path @ rm_encodedId config) = (RouteHandler GetSession, JStr (rm_sessionId config))"
    "router (lit ''POST'') (sessions_path @ rm_encodedId config @ lit ''/reset'') = (RouteHandler ResetSession, JStr (rm_sessionId config))"
    "router (lit ''POST'') (sessions_path @ rm_encodedId config @ lit ''/observations'')
       = (RouteHandler SubmitObservation, JStr (rm_sessionId config))"
  using assms first_segment [of "rm_sessionId config" "rm_encodedId config"] unfolding routes_sessions_def connected_def by blast+

lemma arrives:
  assumes "documented_front (rm_baseUrl config) front" "connected config"
  shows "fr_path front (session_url (rm_baseUrl config) (rm_encodedId config)) = sessions_path @ rm_encodedId config"
    "fr_path front (session_url (rm_baseUrl config) (rm_encodedId config) @ lit ''/reset'') = sessions_path @ rm_encodedId config @ lit ''/reset''"
    "fr_path front (session_url (rm_baseUrl config) (rm_encodedId config) @ lit ''/observations'')
       = sessions_path @ rm_encodedId config @ lit ''/observations''"
proof -
  have path: "fr_path front (rm_baseUrl config @ sessions_path @ rm_encodedId config @ tail) = sessions_path @ rm_encodedId config @ tail"
    if "tail \<in> {[], lit ''/reset'', lit ''/observations''}" for tail
    using assms that unfolding documented_front_def connected_def by blast
  then show "fr_path front (session_url (rm_baseUrl config) (rm_encodedId config)) = sessions_path @ rm_encodedId config"
    "fr_path front (session_url (rm_baseUrl config) (rm_encodedId config) @ lit ''/reset'') = sessions_path @ rm_encodedId config @ lit ''/reset''"
    "fr_path front (session_url (rm_baseUrl config) (rm_encodedId config) @ lit ''/observations'')
       = sessions_path @ rm_encodedId config @ lit ''/observations''"
    using path [of "[]"] by (simp_all add: session_url_def flip: sessions_path_def)
qed

text \<open>The fields a mutation's body always has.\<close>

lemma command_fields:
  "js_get (call_command config uuid call) ''sessionId'' = JStr (rm_sessionId config)"
  "js_get (call_command config uuid call) ''type'' = js_string (call_type call)"
  by (cases call rule: call_type.cases; simp add: mutation_request_def js_int_def js_string_def)+

lemma command_requestId: "js_get (call_command config uuid (SendMutation q kind)) ''requestId'' = JStr q"
  by (cases kind) (simp_all add: mutation_request_def js_int_def js_string_def)

lemma first_received:
  assumes "documented_front (rm_baseUrl config) front" "connected config"
  obtains rq where "received front (first_request config) = (rq, RouteHandler GetSession)"
    "path_command uuid rq ''session.get'' = call_command config uuid FirstSnapshot"
proof -
  let ?rq = "\<lparr>rq_body = JUndefined, rq_sessionId = JStr (rm_sessionId config), rq_query = JObj [],
     rq_headers = fr_headers front (cr_headers (first_request config)), rq_url = sessions_path @ rm_encodedId config\<rparr>"
  have router: "routes_sessions (fr_router front)"
    and header: "js_get (fr_headers front headers) ''x-qaraa-protocol-version'' = js_get headers ''x-qaraa-protocol-version''"
      "js_get (fr_headers front headers) ''x-request-id'' = js_get headers ''x-request-id''" for headers
    using assms(1) by (simp_all add: documented_front_def)
  have "received front (first_request config) = (?rq, RouteHandler GetSession)"
    using routed(1) [OF router assms(2)] arrives(1) [OF assms] by (simp add: received_def first_request_def)
  moreover have id: "requestId uuid ?rq = uuid"
    by (simp add: requestId_def header) (simp add: first_request_def text_field_def)
  moreover have "string_to_number (dec (nat 1)) = Fin 1" by code_simp
  then have "requestedProtocolVersion ?rq = Fin 1"
    by (simp add: requestedProtocolVersion_def header) (simp add: first_request_def PROTOCOL_VERSION_def)
  with id have "path_command uuid ?rq ''session.get'' = call_command config uuid FirstSnapshot"
    by (simp add: path_command_def PROTOCOL_VERSION_def js_int_def)
  ultimately show thesis using that by blast
qed

lemma mutation_body: "\<exists>body. json_copy (snd (mutation_request config q kind)) = Some body"
  by (cases kind) (simp_all add: mutation_request_def)

lemma mutation_received:
  assumes "documented_front (rm_baseUrl config) front" "connected config" "deliverable front config (SendMutation q kind)"
  obtains rq where "received front (post_request config q kind)
      = (rq, RouteHandler (case kind of SubmitMutation _ \<Rightarrow> SubmitObservation | ResetMutation _ \<Rightarrow> ResetSession))"
    "rq_body rq = call_command config uuid (SendMutation q kind)" "rq_sessionId rq = JStr (rm_sessionId config)"
proof -
  have router: "routes_sessions (fr_router front)" using assms(1) by (simp add: documented_front_def)
  obtain body where body: "json_copy (snd (mutation_request config q kind)) = Some body" using mutation_body by blast
  obtain url v where request: "mutation_request config q kind = (url, v)" by (rule prod.exhaust)
  have parsed: "fr_parse front body = ParsedBody body"
    using assms(1,3) body by (simp add: deliverable_def post_request_def request documented_front_def)
  have url: "url = session_url (rm_baseUrl config) (rm_encodedId config)
      @ (case kind of SubmitMutation _ \<Rightarrow> lit ''/observations'' | ResetMutation _ \<Rightarrow> lit ''/reset'')"
    using arg_cong [OF request, of fst] by (cases kind) (simp_all add: mutation_request_def)
  let ?rq = "\<lparr>rq_body = body, rq_sessionId = JStr (rm_sessionId config), rq_query = JObj [],
     rq_headers = fr_headers front (cr_headers (post_request config q kind)), rq_url = fr_path front url\<rparr>"
  have "fr_router front (lit ''POST'') (fr_path front url)
      = (RouteHandler (case kind of SubmitMutation _ \<Rightarrow> SubmitObservation | ResetMutation _ \<Rightarrow> ResetSession), JStr (rm_sessionId config))"
    using routed(2,3) [OF router assms(2)] arrives(2,3) [OF assms(1,2)] unfolding url by (cases kind) simp_all
  then have "received front (post_request config q kind)
      = (?rq, RouteHandler (case kind of SubmitMutation _ \<Rightarrow> SubmitObservation | ResetMutation _ \<Rightarrow> ResetSession))"
    using parsed body by (simp add: received_def post_request_def request)
  with body show thesis by (intro that [of ?rq]) simp_all
qed

text \<open>Up to the reply, the exchange is the operation.\<close>

lemma on_result_map: "on_result f (st, r) = (st, map_sum id f r)"
  by (cases r) (simp_all add: on_result_def)

lemma exchange_operation:
  assumes "documented_front (rm_baseUrl config) front" "connected config" "deliverable front config call"
  obtains rq route where "received front (client_request_of config call) = (rq, RouteHandler route)"
    "route \<noteq> CreateSession"
    "route_operation MemorySessionStore server newSessionId uuid rq route st
       = on_result SnapshotBody (direct_call server call (call_command config uuid call) st)"
proof (cases call)
  case FirstSnapshot
  obtain rq where rq: "received front (first_request config) = (rq, RouteHandler GetSession)"
      "path_command uuid rq ''session.get'' = call_command config uuid FirstSnapshot"
    by (rule first_received [OF assms(1,2)])
  with FirstSnapshot that [of rq GetSession] show thesis
    by (simp add: route_operation_def path_route_def direct_call_def on_result_map split: sum.split)
next
  case (SendMutation q kind)
  obtain rq where rq: "received front (post_request config q kind)
      = (rq, RouteHandler (case kind of SubmitMutation _ \<Rightarrow> SubmitObservation | ResetMutation _ \<Rightarrow> ResetSession))"
      "rq_body rq = call_command config uuid (SendMutation q kind)" "rq_sessionId rq = JStr (rm_sessionId config)"
    by (rule mutation_received [OF assms(1,2) assms(3) [unfolded SendMutation]])
  have same: "js_get (rq_body rq) ''sessionId'' = rq_sessionId rq" using rq(2,3) command_fields(1) by metis
  show thesis
  proof (cases kind)
    case (SubmitMutation observation)
    with SendMutation rq same that [of rq SubmitObservation] show thesis
      by (simp add: route_operation_def body_route_def direct_call_def on_result_map split: sum.split del: call_command.simps)
  next
    case (ResetMutation location)
    with SendMutation rq same that [of rq ResetSession] show thesis
      by (simp add: route_operation_def body_route_def direct_call_def on_result_map split: sum.split del: call_command.simps)
  qed
qed

text \<open>A body over the limit is answered by the error handler.\<close>

lemma exchange_oversized:
  assumes "documented_front base front" "oversized front config call"
  obtains rq error where "exchange front config server newSessionId uuids call st
      = (st, [error], send_error internalError (\<lambda>_. 500) (requestId (snd uuids) rq))"
proof -
  obtain body error where b: "json_copy (cr_body (client_request_of config call)) = Some body" "fr_parse front body = RefusedBody error"
    using assms by (auto simp: oversized_def documented_front_def split: option.splits)
  then have "snd (received front (client_request_of config call)) = ErrorHandler False error"
    by (simp add: received_def Let_def split: prod.split)
  then obtain rq where "received front (client_request_of config call) = (rq, ErrorHandler False error)" by (metis prod.collapse)
  with that show thesis by (simp add: exchange_def serve_def error_handler_def)
qed

section \<open>The reply arrives\<close>

lemma read_code [simp]: "read_error_code (the_str (code_js c)) = c"
  by (cases c) (simp_all add: js_string_def read_error_code_def)

lemma delivered_event:
  assumes "ajv_decides ajv" "snapshot_typed snap" "has_text q" "has_text i"
  shows "check_reply ajv i True (event_js (snapshot_event i q snap)) = Inr (snapshot_js snap)"
proof -
  have "event_schema (event_js (snapshot_event i q snap))" using assms by (intro event_conforms [of i q]) auto
  with assms(1) event_plain show ?thesis
    by (simp add: check_reply_def preflight_decides) (simp add: snapshot_event_def snapshot_event_js_def)
qed

lemma delivered_error:
  assumes "ajv_decides ajv" "toEnvelope e q = Inr env" "has_text q"
  shows "check_reply ajv i ok (envelope_js env) = Inl (ServerFailure (ProtocolFailure (e\<lparr>qe_trusted := False\<rparr>)))"
proof -
  have env: "error_schema (envelope_js env)" "json_plain (envelope_js env)" using envelope_conforms [OF assms(2,3)] by simp_all
  then have "js_get (envelope_js env) ''type'' = js_string ''error''" by (simp add: event_alternatives)
  then have "\<not> snapshot_event_schema t (envelope_js env)" if "t \<noteq> ''error''" for t
    using that by (auto dest: event_alternatives)
  moreover have "\<not> sessionDeleted_schema (envelope_js env)"
    using \<open>js_get (envelope_js env) ''type'' = _\<close> by (auto dest: event_alternatives)
  ultimately have "event_schema (envelope_js env)" using env(1) by (simp add: event_schema_def one_of_def)
  moreover have "protocolFailure (envelope_js env) = ServerFailure (ProtocolFailure (e\<lparr>qe_trusted := False\<rparr>))"
    using assms(2) by (auto simp: protocolFailure_def envelope_js_def toEnvelope_def split: if_splits)
  ultimately show ?thesis
    using assms(1) env(2) \<open>js_get (envelope_js env) ''type'' = _\<close> by (simp add: check_reply_def preflight_decides)
qed

lemma mutation_event:
  "submit_session S config cmd st = (st', Inr event) \<Longrightarrow> \<exists>i q snap. event = snapshot_event i q snap"
  "reset_session S config cmd st = (st', Inr event) \<Longrightarrow> \<exists>i q snap. event = snapshot_event i q snap"
  "get_session S cmd st = Inr event \<Longrightarrow> \<exists>i q snap. event = snapshot_event i q snap"
  by (auto simp: submit_session_def reset_session_def get_session_def Let_def
      split: sum.splits server_error.splits prod.splits option.splits if_splits)

lemma direct_failure:
  assumes "service_ok server js_map_get st" "direct_call server call cmd st = (st', Inl x)"
  shows "client_failure x"
  using assms(2) assertCommand_failure service.get_session_failure service.submit_session_failure [OF assms(1)]
    service.reset_session_failure [OF assms(1)]
  by (cases call rule: call_type.cases) (auto simp: direct_call_def split: sum.splits)

lemma direct_event:
  assumes "service_ok server js_map_get st" "records_typed js_map_get (sv_store st)" "ajv_decides (sc_ajv server)"
    "direct_call server call cmd st = (st', Inr event)" "js_get cmd ''sessionId'' = JStr i"
  obtains q snap where "event = snapshot_event i q snap" "snapshot_typed snap" "has_text q" "has_text i"
proof -
  have accepted: "assertCommand (sc_ajv server) cmd (call_type call) = Inr ()" and run: "run_call server call cmd st = (st', Inr event)"
    using assms(4) by (auto simp: direct_call_def split: sum.splits)
  have typed: "event_typed i (the_str (js_get cmd ''requestId'')) event"
    using run service.get_session_typed [OF assms(2), of cmd event] service.submit_session_typed [OF assms(1,2), of cmd]
      service.reset_session_typed [OF assms(1,2), of cmd] assms(5)
    by (cases call rule: call_type.cases) auto
  have "\<exists>i q snap. event = snapshot_event i q snap"
    using run mutation_event by (cases call rule: call_type.cases) fastforce+
  moreover have "call_type call \<noteq> ''session.create''" by (cases call rule: call_type.cases) simp_all
  ultimately show thesis
    using that typed assertCommand_text [OF accepted assms(3)] assms(5) by auto
qed

text \<open>What a reply makes of the request that waits for it.\<close>

definition reply_tells :: "remote_config \<Rightarrow> http_response \<Rightarrow> server_error + qaraa_event \<Rightarrow> bool" where
  "reply_tells config reply outcome \<longleftrightarrow> (\<exists>payload. json_copy (http_body_js (rs_body reply)) = Some payload
     \<and> check_reply (rm_ajv config) (rm_sessionId config) (200 \<le> rs_status reply \<and> rs_status reply \<le> 299) payload = told outcome)"

lemma reply_tells_step:
  "reply_tells config reply outcome \<Longrightarrow>
     request_step policy (rm_ajv config) (rm_sessionId config) retries gone (AwaitResponse attempt) (reply_answer reply)
       = Some (Settled (told outcome))"
  by (auto simp: reply_tells_def reply_answer_def)

lemma error_reply_tells:
  assumes "send_error x status i = Inr reply" "ajv_decides (rm_ajv config)" "has_text i"
  shows "reply_tells config reply (Inl x)"
proof -
  from assms(1) obtain e env where e: "x = ProtocolFailure e" "toEnvelope e i = Inr env"
      "reply = \<lparr>rs_status = status e, rs_body = ErrorBody env\<rparr>"
    by (auto simp: send_error_def split: server_error.splits sum.splits)
  have "json_copy (envelope_js env) = Some (envelope_js env)" using envelope_conforms [OF e(2) assms(3)] by (simp add: json_copy_plain)
  with delivered_error [OF assms(2) e(2) assms(3)] e(1,3) show ?thesis by (simp add: reply_tells_def told_def)
qed

lemma internal_reply:
  obtains reply where "send_error internalError (\<lambda>_. 500) i = Inr reply" "rs_status reply = 500"
  by (simp add: send_error_def internalError_def protocolError_def toEnvelope_def)

lemma delivered_call:
  assumes "service_reachable server st pending" "ajv_decides (sc_ajv server)" "has_text (snd uuids)"
    "documented_front (rm_baseUrl config) front" "connected config" "ajv_decides (rm_ajv config)"
    "direct_call server call (call_command config (fst uuids) call) st = (st', outcome)" "deliverable front config call"
  shows "\<exists>reply. exchange front config server newSessionId uuids call st = (st', [], Inr reply) \<and> reply_tells config reply outcome"
proof -
  let ?cmd = "call_command config (fst uuids) call"
  have ok: "service_ok server js_map_get st" using service_reachable_ok [OF assms(1)] by simp
  obtain rq route where ex: "received front (client_request_of config call) = (rq, RouteHandler route)"
      "route \<noteq> CreateSession"
      "route_operation MemorySessionStore server newSessionId (fst uuids) rq route st
         = on_result SnapshotBody (direct_call server call ?cmd st)"
    by (rule exchange_operation [OF assms(4,5,8)])
  show ?thesis
  proof (cases outcome)
    case (Inl x)
    have "client_failure x" using direct_failure [OF ok assms(7) [unfolded Inl]] .
    from send_client_failure [OF this, of "requestId (snd uuids) rq"] obtain e env where
      e: "x = ProtocolFailure e" "is_trusted x"
        "send_error x errorStatus (requestId (snd uuids) rq) = Inr \<lparr>rs_status = errorStatus e, rs_body = ErrorBody env\<rparr>" by blast
    have "exchange front config server newSessionId uuids call st
        = (st', [], Inr \<lparr>rs_status = errorStatus e, rs_body = ErrorBody env\<rparr>)"
      using ex assms(7) Inl e by (simp add: exchange_def serve_def respond_def on_result_def)
    with error_reply_tells [OF e(3) assms(6) requestId_text [OF assms(3)]] Inl show ?thesis by blast
  next
    case (Inr event)
    obtain q snap where snap: "event = snapshot_event (rm_sessionId config) q snap" "snapshot_typed snap" "has_text q"
        "has_text (rm_sessionId config)"
      by (rule direct_event [OF ok service_reachable_typed [OF assms(1)] assms(2) assms(7) [unfolded Inr] command_fields(1)])
    have copy: "json_copy (event_js event) = Some (event_js event)" by (rule json_copy_plain) (rule event_plain)
    have "exchange front config server newSessionId uuids call st
        = (st', [], Inr \<lparr>rs_status = 200, rs_body = SnapshotBody event\<rparr>)"
      using ex assms(7) Inr by (simp add: exchange_def serve_def respond_def on_result_def)
    with delivered_event [OF assms(6) snap(2-4)] copy Inr snap(1) show ?thesis
      by (intro exI conjI) (assumption, simp add: reply_tells_def told_def snapshot_event_def)
  qed
qed

section \<open>Properties\<close>

text \<open>C27: a remote session that fetches its first snapshot, submits an observation or resets reaches exactly
  the operation of the service it names, whatever its identifier (of at most 100 encoded characters, and no
  dot segment), when its body is within the limit: the server's state becomes what the operation makes of it,
  nothing is logged, and from the reply the client's request settles with the snapshot the operation
  returned, or with its error: the same code, message, retryability and details.  A call whose body is over
  the limit changes nothing on the server, which logs the parser's error and answers 500: the client's
  request settles with an internal error that is not to be retried, as if the server had failed.\<close>

theorem remote_calls_run_the_service:
  assumes "service_reachable server st pending" "ajv_decides (sc_ajv server)" "has_text (snd uuids)"
    "documented_front (rm_baseUrl config) front" "connected config" "ajv_decides (rm_ajv config)"
    "direct_call server call (call_command config (fst uuids) call) st = (st', outcome)"
  shows "(deliverable front config call \<longrightarrow> (\<exists>reply. exchange front config server newSessionId uuids call st = (st', [], Inr reply)
      \<and> request_step (rm_policy config) (rm_ajv config) (rm_sessionId config) retries gone (AwaitResponse attempt) (reply_answer reply)
         = Some (Settled (told outcome))))
    \<and> (oversized front config call \<longrightarrow> (\<exists>reply error. exchange front config server newSessionId uuids call st = (st, [error], Inr reply)
      \<and> rs_status reply = 500
      \<and> request_step (rm_policy config) (rm_ajv config) (rm_sessionId config) retries gone (AwaitResponse attempt) (reply_answer reply)
         = Some (Settled (told (Inl internalError)))))"
proof (intro conjI impI)
  assume "deliverable front config call"
  then obtain reply where "exchange front config server newSessionId uuids call st = (st', [], Inr reply)"
    "reply_tells config reply outcome" using delivered_call [OF assms] by blast
  then show "\<exists>reply. exchange front config server newSessionId uuids call st = (st', [], Inr reply)
      \<and> request_step (rm_policy config) (rm_ajv config) (rm_sessionId config) retries gone (AwaitResponse attempt) (reply_answer reply)
         = Some (Settled (told outcome))" by (auto simp: reply_tells_step)
next
  assume "oversized front config call"
  then obtain rq error where x: "exchange front config server newSessionId uuids call st
      = (st, [error], send_error internalError (\<lambda>_. 500) (requestId (snd uuids) rq))"
    by (rule exchange_oversized [OF assms(4)])
  obtain reply where r: "send_error internalError (\<lambda>_. 500) (requestId (snd uuids) rq) = Inr reply" "rs_status reply = 500"
    by (rule internal_reply)
  from error_reply_tells [OF r(1) assms(6) requestId_text [OF assms(3)]] x r
  show "\<exists>reply error. exchange front config server newSessionId uuids call st = (st, [error], Inr reply) \<and> rs_status reply = 500
      \<and> request_step (rm_policy config) (rm_ajv config) (rm_sessionId config) retries gone (AwaitResponse attempt) (reply_answer reply)
         = Some (Settled (told (Inl internalError)))" by (auto simp: reply_tells_step)
qed

definition wire_client :: "create_error + remote_config" where
  "wire_client = configure_remote reference_ajv (\<lambda>_. None) (lit ''http://h'') (lit ''s'') (JObj []) None"

definition wire_get :: js where
  "wire_get = JObj [(''protocolVersion'', js_int 1), (''requestId'', js_string ''u''), (''type'', js_string ''session.get''),
     (''sessionId'', js_string ''s'')]"

lemma wire_client_connects:
  obtains config where "wire_client = Inr config" "connected config" "rm_ajv config = reference_ajv" "rm_sessionId config = lit ''s''"
    "rm_baseUrl config = lit ''http://h''"
proof -
  have "case wire_client of Inr config \<Rightarrow> length (rm_encodedId config) = 1 \<and> rm_baseUrl config = lit ''http://h'' | Inl _ \<Rightarrow> False"
    by code_simp
  then obtain config where c: "wire_client = Inr config" "length (rm_encodedId config) = 1" "rm_baseUrl config = lit ''http://h''"
    by (auto split: sum.splits)
  then have "connected config" using configured_connected [OF c(1) [unfolded wire_client_def]] c(2) by (simp add: lit_def)
  with c(1,3) show thesis
    by (intro that [of config]) (auto simp: wire_client_def configure_remote_def split: sum.splits option.splits)
qed

text \<open>A front of a server at \<open>http://h\<close>, which takes the characters of the texts of a body for its bytes.\<close>

fun text_size :: "js \<Rightarrow> nat" where
  "text_size (JStr s) = length s"
| "text_size (JArr xs) = sum_list (map text_size xs)"
| "text_size (JObj fs) = sum_list (map (\<lambda>f. text_size (snd f)) fs)"
| "text_size v = 0"

definition sample_front :: server_front where
  "sample_front = \<lparr>fr_path = drop (length (lit ''http://h'')), fr_router = session_router, fr_headers = (\<lambda>h. h), fr_bytes = text_size,
     fr_parse = (\<lambda>v. if body_limit < text_size v then RefusedBody (CoreFailure (PlainError (lit ''Request body is too large''))) else ParsedBody v)\<rparr>"

lemma sample_front_documented: "documented_front (lit ''http://h'') sample_front"
  by (simp add: documented_front_def sample_front_def session_router_routes)

definition huge_observation :: js where
  "huge_observation = JObj [(''observationId'', JStr (replicate (Suc body_limit) 97))]"

lemma huge_oversized: "oversized sample_front config (SendMutation q (SubmitMutation huge_observation))"
  by (simp add: oversized_def post_request_def mutation_request_def huge_observation_def sample_front_def js_string_def js_int_def)

text \<open>A client of a session the server does not know is told so; and its observation of more than 1 MiB is
  answered with an internal error.\<close>

theorem remote_calls_run_the_service_witness:
  "\<exists>config server st reply e large error. wire_client = Inr config \<and> wire_start = Inr (server, st)
     \<and> exchange sample_front config server (lit ''t'') (lit ''u'', lit ''v'') FirstSnapshot st = (st, [], Inr reply)
     \<and> request_step (rm_policy config) (rm_ajv config) (rm_sessionId config) True False (AwaitResponse 1) (reply_answer reply)
         = Some (Settled (Inl (ServerFailure (ProtocolFailure e)))) \<and> qe_code e = SESSION_NOT_FOUND
     \<and> exchange sample_front config server (lit ''t'') (lit ''u'', lit ''v'') (SendMutation (lit ''q'') (SubmitMutation huge_observation)) st
         = (st, [error], Inr large) \<and> rs_status large = 500"
proof -
  obtain config where client: "wire_client = Inr config" "connected config" "rm_ajv config = reference_ajv"
      "rm_sessionId config = lit ''s''" "rm_baseUrl config = lit ''http://h''" by (rule wire_client_connects)
  obtain server st where c: "wire_start = Inr (server, st)" using wire_served by (auto split: sum.splits)
  have reach: "service_reachable server st []" by (rule service_reachable.started [OF c [unfolded wire_start_def]])
  have server: "sc_ajv server = reference_ajv" "sv_store st = []"
    using c by (auto simp: wire_start_def createSessionService_def ebind_Inr_iff split: if_splits sum.splits)
  have cmd: "call_command config (lit ''u'') FirstSnapshot = wire_get"
    using client(4) by (simp add: wire_get_def js_string_def PROTOCOL_VERSION_def)
  have "assertCommand reference_ajv wire_get ''session.get'' = Inr ()" by code_simp
  then have direct: "direct_call server FirstSnapshot (call_command config (lit ''u'') FirstSnapshot) st
      = (st, Inl (sessionNotFound (lit ''s'')))"
    unfolding cmd using server
    by (simp add: direct_call_def get_session_def Let_def MemorySessionStore_def memory_get_def) (simp add: wire_get_def js_string_def)
  have uuid: "has_text (snd (lit ''u'', lit ''v''))" by code_simp
  have ajv: "ajv_decides (sc_ajv server)" "ajv_decides (rm_ajv config)" using server(1) client(3) by (simp_all add: reference_ajv_decides)
  have front: "documented_front (rm_baseUrl config) sample_front" using sample_front_documented client(5) by simp
  note call = remote_calls_run_the_service [OF reach ajv(1) uuid front client(2) ajv(2) surjective_pairing]
  have "deliverable sample_front config FirstSnapshot" by (simp add: deliverable_def first_request_def)
  with call [of FirstSnapshot "lit ''t''" True False 1] direct obtain reply where
    "exchange sample_front config server (lit ''t'') (lit ''u'', lit ''v'') FirstSnapshot st = (st, [], Inr reply)"
    "request_step (rm_policy config) (rm_ajv config) (rm_sessionId config) True False (AwaitResponse 1) (reply_answer reply)
       = Some (Settled (told (Inl (sessionNotFound (lit ''s'')))))" by auto
  moreover obtain large error where
    "exchange sample_front config server (lit ''t'') (lit ''u'', lit ''v'') (SendMutation (lit ''q'') (SubmitMutation huge_observation)) st
       = (st, [error], Inr large)" "rs_status large = 500"
    using call [of "SendMutation (lit ''q'') (SubmitMutation huge_observation)" "lit ''t''" True False 1] huge_oversized by blast
  moreover have "\<exists>e. told (Inl (sessionNotFound (lit ''s''))) = Inl (ServerFailure (ProtocolFailure e)) \<and> qe_code e = SESSION_NOT_FOUND"
    by (simp add: told_def sessionNotFound_def protocolError_def)
  ultimately show ?thesis using client(1) c by metis
qed

end
