(* ===== verification/Session_Urls.thy ===== *)
theory Session_Urls
  imports Client_Server Remote_Properties
begin

text \<open>
  The URLs a remote session uses: those of its first request, of its mutations and of its streams, over
  every run.  Each is read as a server reads it, up to the end of the segment of the identifier.
\<close>

section \<open>Reading a URL\<close>

text \<open>The identifier a URL under a base names, and what follows its segment.\<close>

definition read_session_url :: "jstring \<Rightarrow> jstring \<Rightarrow> (jstring \<times> jstring) option" where
  "read_session_url base url =
     (let front = base @ sessions_path; rest = drop (length front) url; segment = takeWhile (\<lambda>c. \<not> separator c) rest
      in if starts_with url front then map_option (\<lambda>i. (i, drop (length segment) rest)) (decodeURIComponent segment) else None)"

lemma read_named:
  assumes "encodeURIComponent i = Some e" "t = [] \<or> separator (hd t)"
  shows "read_session_url base (session_url base e @ t) = Some (i, t)"
  using encoded_front [OF assms] decode_encoded [OF assms(1)]
  by (simp add: read_session_url_def session_url_def starts_with_def Let_def flip: sessions_path_def)

text \<open>What follows the identifier in the URL of a mutation and of a stream.\<close>

definition mutation_tail :: "mutation_kind \<Rightarrow> jstring" where
  "mutation_tail kind = (case kind of SubmitMutation _ \<Rightarrow> lit ''/observations'' | ResetMutation _ \<Rightarrow> lit ''/reset'')"

definition stream_tail :: "nat \<Rightarrow> jstring" where
  "stream_tail revision = lit ''/stream?protocolVersion='' @ dec (nat PROTOCOL_VERSION) @ lit ''&lastSnapshotRevision='' @ dec revision"

lemma tail_separates:
  "mutation_tail kind = [] \<or> separator (hd (mutation_tail kind))" "stream_tail n = [] \<or> separator (hd (stream_tail n))"
  by (simp_all add: mutation_tail_def stream_tail_def separator_def lit_def split: mutation_kind.split)

lemma mutation_url:
  "mutation_request config q kind = (url, body) \<Longrightarrow> url = session_url (rm_baseUrl config) (rm_encodedId config) @ mutation_tail kind"
  by (cases kind) (auto simp: mutation_request_def mutation_tail_def)

lemma stream_url_tail: "stream_url base e n = session_url (websocketBaseUrl base) e @ stream_tail n"
  by (simp add: stream_url_def session_url_def stream_tail_def lit_def)

section \<open>Runs\<close>

text \<open>Every request on the wire was made by \<open>mutation_request\<close> for its mutation; so was the running one.\<close>

definition made :: "remote_config \<Rightarrow> remote_mutation \<Rightarrow> jstring \<Rightarrow> js \<Rightarrow> bool" where
  "made config m url body \<longleftrightarrow> (\<exists>q. mutation_request config q (mu_kind m) = (url, body))"

definition requests_made :: "remote_config \<Rightarrow> remote_session \<Rightarrow> bool" where
  "requests_made config st \<longleftrightarrow> (\<forall>m url body. Fetched m url body \<in> set (rs_wire st) \<longrightarrow> made config m url body)
     \<and> (\<forall>r. rs_running st = Some r \<longrightarrow> made config (ru_mutation r) (ru_url r) (ru_body r))"

lemma made_kept: "mutations_kept st st' \<Longrightarrow> requests_made config st \<Longrightarrow> requests_made config st'"
  by (simp add: requests_made_def mutations_kept_def)

lemma made_settled: "requests_made config st \<Longrightarrow> requests_made config (settle_mutation m result st)"
  by (simp add: requests_made_def settle_mutation_def)

lemma made_proceeds:
  assumes "requests_made config st" "made config m url body"
  shows "requests_made config (proceed_mutation config react m url body outcome st)"
proof (cases outcome)
  case (Ongoing request)
  with assms show ?thesis by (cases request) (auto simp: requests_made_def proceed_mutation_def)
next
  case (Settled result)
  let ?st = "acknowledge_mutation (mu_kind m) st"
  have "requests_made config ?st" using assms(1)
    by (simp add: requests_made_def acknowledge_mutation_def split: mutation_kind.split)
  from made_settled [OF made_kept [OF notify_kept this]] made_settled [OF assms(1)] Settled show ?thesis
    by (cases result) (simp_all add: proceed_mutation_def complete_mutation_def Let_def)
qed

lemma made_starts:
  assumes "requests_made config st"
  shows "requests_made config (start_mutation config react st)"
proof (cases "rs_waiting st")
  case (Cons m waiting)
  let ?st = "st\<lparr>rs_waiting := waiting\<rparr>" and ?n = "Suc (rs_requestSequence st)"
  have ok: "requests_made config ?st" "requests_made config (?st\<lparr>rs_requestSequence := ?n\<rparr>)"
    using assms by (simp_all add: requests_made_def)
  obtain url body where u: "mutation_request config (rm_requestId config ?n) (mu_kind m) = (url, body)" by (rule prod.exhaust)
  then have "made config m url body" unfolding made_def by blast
  from made_proceeds [OF ok(2) this] made_settled [OF ok(1)] u Cons show ?thesis
    by (simp add: start_mutation_def run_operation_def Let_def)
qed (use assms in \<open>simp add: start_mutation_def\<close>)

lemma made_step:
  assumes "remote_step config react st st'" "requests_made config st"
  shows "requests_made config st'"
proof -
  have "requests_made config st'" if "serves config react st st'"
    using that
  proof cases
    case serve_start
    with made_starts [OF assms(2)] show ?thesis by simp
  next
    case (serve_answer answer)
    with made_proceeds [OF assms(2)] assms(2) show ?thesis
      by (auto simp: answer_request_def requests_made_def split: option.splits)
  qed
  moreover have "requests_made config (enqueue_mutation kind st)" for kind
    using assms(2) by (simp add: requests_made_def enqueue_mutation_def)
  ultimately show ?thesis using step_kinds [OF assms(1)] made_kept assms(2) by blast
qed

text \<open>Every stream that is requested is one of the session.\<close>

definition streams_made :: "remote_config \<Rightarrow> remote_session \<Rightarrow> bool" where
  "streams_made config st \<longleftrightarrow> (\<forall>url. StreamRequested url \<in> set (rs_streams st)
     \<longrightarrow> (\<exists>n. url = stream_url (rm_baseUrl config) (rm_encodedId config) n))"

lemma streams_made_same: "rs_streams st' = rs_streams st \<Longrightarrow> streams_made config st' = streams_made config st"
  by (simp add: streams_made_def)

lemma close_streams_made: "streams_made config st \<Longrightarrow> streams_made config (remote_close st)"
  by (auto simp: streams_made_def remote_close_def close_base_def Let_def split: option.splits)

lemma streams_made_updates [simp]:
  "streams_made config (st\<lparr>sb_calls := a\<rparr>) = streams_made config st" "streams_made config (st\<lparr>sb_listeners := b\<rparr>) = streams_made config st"
  "streams_made config (st\<lparr>sb_stops := c\<rparr>) = streams_made config st" "streams_made config (st\<lparr>sb_snapshot := d\<rparr>) = streams_made config st"
  "streams_made config (st\<lparr>rs_queue := e\<rparr>) = streams_made config st" "streams_made config (st\<lparr>rs_waiting := f\<rparr>) = streams_made config st"
  "streams_made config (st\<lparr>rs_requestSequence := g\<rparr>) = streams_made config st" "streams_made config (st\<lparr>rs_reconnectAttempts := h\<rparr>) = streams_made config st"
  "streams_made config (st\<lparr>rs_task := i\<rparr>) = streams_made config st" "streams_made config (settle_mutation m result st) = streams_made config st"
  "streams_made config (st\<lparr>rs_socket := j\<rparr>) = streams_made config st" "streams_made config (dispose_socket k st) = streams_made config st"
  by (simp_all add: streams_made_def settle_mutation_def)

interpretation url_frame: listener_frame "\<lambda>st st'. streams_made config st \<longrightarrow> streams_made config st'" remote_close for config
  by unfold_locales (simp_all add: close_streams_made)

lemma schedule_streams_made: "streams_made config st \<Longrightarrow> streams_made config (schedule_reconnect config st)"
  by (simp add: streams_made_def schedule_reconnect_def Let_def)

lemma open_streams_made: "streams_made config st \<Longrightarrow> open_socket config refused st = (st', r) \<Longrightarrow> streams_made config st'"
  by (auto simp: streams_made_def open_socket_def Let_def split: option.splits if_splits)

lemma notify_streams_made: "streams_made config st \<Longrightarrow> streams_made config (remote_notify react nxt st)"
  using url_frame.accept_frame by (simp add: remote_notify_def)

lemma notification_streams_made: "streams_made config st \<Longrightarrow> streams_made config (run_notification react st)"
  using notify_streams_made [of config "st\<lparr>rs_queue := tl (rs_queue st)\<rparr>"]
  by (cases "rs_queue st") (simp_all add: run_notification_def Let_def)

lemma proceed_streams_made:
  assumes "streams_made config st"
  shows "streams_made config (proceed_mutation config react m url body outcome st)"
proof (cases outcome)
  case (Settled result)
  have "streams_made config (acknowledge_mutation (mu_kind m) st)" using assms by (simp add: streams_made_def)
  from notify_streams_made [OF this] assms Settled show ?thesis
    by (cases result) (simp_all add: proceed_mutation_def complete_mutation_def settle_mutation_def Let_def streams_made_def)
qed (use assms in \<open>simp add: proceed_mutation_def streams_made_def\<close>)

lemma start_streams_made:
  assumes "streams_made config st"
  shows "streams_made config (start_mutation config react st)"
proof (cases "rs_waiting st")
  case (Cons m waiting)
  let ?st = "st\<lparr>rs_waiting := waiting, rs_requestSequence := Suc (rs_requestSequence st)\<rparr>"
  have "streams_made config ?st" using assms by simp
  from proceed_streams_made [OF this] assms Cons show ?thesis
    by (simp add: start_mutation_def run_operation_def Let_def split: prod.split)
qed (use assms in \<open>simp add: start_mutation_def\<close>)

lemma attempt_streams_made:
  assumes "streams_made config st"
  shows "streams_made config (reconnect_attempt config delayed refused st)"
proof -
  let ?st = "st\<lparr>rs_task := Some Finishing\<rparr>"
  have "streams_made config ?st" using assms by (simp add: streams_made_def)
  with open_streams_made [OF this] show ?thesis
    by (auto simp: reconnect_attempt_def Let_def split: option.split prod.split)
qed

lemma streams_step:
  assumes "remote_step config react st st'" "streams_made config st"
  shows "streams_made config st'"
  using assms(1)
proof cases
  case (request_answered answer)
  then show ?thesis using proceed_streams_made [OF assms(2)] by (auto simp: answer_request_def split: option.splits)
next
  case (subscribe_called l)
  then show ?thesis using url_frame.subscribe_frame assms(2) by (auto simp: remote_subscribe_def)
next
  case (socket_opened g)
  then show ?thesis using assms(2) by (auto simp: open_listener_def streams_made_def)
next
  case (socket_closed g code)
  then show ?thesis using schedule_streams_made [of config "(dispose_socket g st)\<lparr>rs_socket := None\<rparr>"] assms(2)
    by (auto simp: close_listener_def Let_def)
next
  case reconnect_over
  have "streams_made config (st\<lparr>rs_task := None, rs_reconnectTask := False\<rparr>)" using assms(2) by (simp add: streams_made_def)
  with schedule_streams_made [OF this] reconnect_over show ?thesis by (simp add: reconnect_finally_def Let_def)
next
  case (message_came g event)
  then show ?thesis using assms(2) by (auto simp: message_listener_def remote_enqueue_def streams_made_def split: option.split)
next
  case (submit_called observation)
  then show ?thesis using assms(2)
    by (auto simp: remote_submit_def enqueue_mutation_def Let_def streams_made_def split: option.split)
next
  case (reset_called location)
  then show ?thesis using assms(2) by (simp add: remote_reset_def enqueue_mutation_def Let_def streams_made_def)
qed (use assms(2) close_streams_made start_streams_made notification_streams_made attempt_streams_made
       streams_made_same [OF run_stop_streams] streams_made_same [OF finally_streams] in simp_all)

lemma run_urls:
  assumes "remote_run config react st"
  shows "requests_made config st \<and> streams_made config st \<and> encodeURIComponent (rm_sessionId config) = Some (rm_encodedId config)"
  using assms
proof (induction rule: remote_run.induct)
  case (created ajv parse baseUrl sessionId retry ids answers refused st)
  from created obtain initial where c: "configure_remote ajv parse baseUrl sessionId retry ids = Inr config"
      "open_remote config refused initial = Inr (config, st)" by (rule created_remote)
  have start: "streams_made config (remote_start snap)" "requests_made config (remote_start snap)" for snap
    by (simp_all add: streams_made_def requests_made_def remote_start_def)
  have "requests_made config st \<and> streams_made config st"
    using c(2)
  proof (rule opened_remote)
    fix snap assume "open_socket config refused (remote_start snap) = (st, None)"
    with open_streams_made [OF start(1) this] made_kept [OF _ start(2)] kept_open_socket [OF this, of "remote_start snap"]
    show ?thesis by simp
  next
    fix snap st1 t assume o: "open_socket config refused (remote_start snap) = (st1, Some t)" "st = schedule_reconnect config st1"
    from open_streams_made [OF start(1) o(1)] schedule_streams_made have "streams_made config st" unfolding o(2) by blast
    moreover have "mutations_kept (remote_start snap) st" using kept_open_socket [OF o(1), of "remote_start snap"] by (simp add: o(2))
    ultimately show ?thesis using made_kept [OF _ start(2)] by blast
  qed
  moreover have "encodeURIComponent (rm_sessionId config) = Some (rm_encodedId config)"
    using c(1) by (auto simp: configure_remote_def split: sum.splits option.splits)
  ultimately show ?case by blast
next
  case (continued st st')
  then show ?case using made_step streams_step by blast
qed

section \<open>Properties\<close>

text \<open>C39: every URL that a remote session uses names that session and no other: read up to the end of the segment and
  decoded, as a server does, the first request and every request of a mutation on every run give back the
  identifier the session was created with, whatever characters it has, and then exactly the route of the
  operation; so does every stream it requests, under the WebSocket base.\<close>

theorem session_urls_name_their_session:
  assumes "remote_run config react st"
  shows "read_session_url (rm_baseUrl config) (cr_url (first_request config)) = Some (rm_sessionId config, [])
    \<and> (\<forall>m url body. Fetched m url body \<in> set (rs_wire st) \<longrightarrow>
         read_session_url (rm_baseUrl config) url = Some (rm_sessionId config, if is_submit m then lit ''/observations'' else lit ''/reset''))
    \<and> (\<forall>url. StreamRequested url \<in> set (rs_streams st) \<longrightarrow>
         (\<exists>n. read_session_url (websocketBaseUrl (rm_baseUrl config)) url = Some (rm_sessionId config, stream_tail n)))"
proof -
  from run_urls [OF assms] have run: "requests_made config st" "streams_made config st"
    and e: "encodeURIComponent (rm_sessionId config) = Some (rm_encodedId config)" by simp_all
  note read = read_named [OF e]
  have "read_session_url (rm_baseUrl config) url = Some (rm_sessionId config, if is_submit m then lit ''/observations'' else lit ''/reset'')"
    if sent: "Fetched m url body \<in> set (rs_wire st)" for m url body
  proof -
    obtain q where "mutation_request config q (mu_kind m) = (url, body)" using run(1) sent unfolding requests_made_def made_def by blast
    from mutation_url [OF this] read [OF tail_separates(1)] show ?thesis
      by (simp add: mutation_tail_def is_submit_def retries_transport_def split: mutation_kind.split)
  qed
  moreover have "\<exists>n. read_session_url (websocketBaseUrl (rm_baseUrl config)) url = Some (rm_sessionId config, stream_tail n)"
    if asked: "StreamRequested url \<in> set (rs_streams st)" for url
  proof -
    obtain n where "url = session_url (websocketBaseUrl (rm_baseUrl config)) (rm_encodedId config) @ stream_tail n"
      using run(2) asked unfolding streams_made_def stream_url_tail by blast
    with read [OF tail_separates(2)] show ?thesis by blast
  qed
  moreover have "read_session_url (rm_baseUrl config) (cr_url (first_request config)) = Some (rm_sessionId config, [])"
    using read [of "[]"] by (simp add: first_request_def)
  ultimately show ?thesis by blast
qed

text \<open>A session whose identifier, unencoded, would read as the reset of session \<open>a\<close>.\<close>

definition slashed_created :: "(create_error + remote_config \<times> remote_session) option" where
  "slashed_created = createRemoteSession (\<lambda>_ _. []) (\<lambda>_. None) (lit ''https://h/'') (lit ''a/reset'') (JObj []) None
     [Replied True (JObj [(''type'', js_string ''snapshot.updated''), (''sessionId'', js_string ''a/reset''),
        (''snapshot'', JObj [(''revision'', js_int 3)])])] None"

theorem session_urls_name_their_session_witness:
  "\<exists>config st url n. remote_run config quiet_listeners st \<and> rs_streams st = [StreamRequested url]
     \<and> read_session_url (rm_baseUrl config) (cr_url (first_request config)) = Some (lit ''a/reset'', [])
     \<and> read_session_url (websocketBaseUrl (rm_baseUrl config)) url = Some (lit ''a/reset'', stream_tail n)"
proof -
  have "case slashed_created of
      Some (Inr (config, st)) \<Rightarrow> rm_sessionId config = lit ''a/reset'' \<and> length (rs_streams st) = 1 \<and> is_stream_request (hd (rs_streams st))
    | _ \<Rightarrow> False" by code_simp
  then obtain config st where c: "slashed_created = Some (Inr (config, st))" "rm_sessionId config = lit ''a/reset''"
      "length (rs_streams st) = 1" "is_stream_request (hd (rs_streams st))" by (auto split: option.splits sum.splits)
  from c(3,4) obtain url where url: "rs_streams st = [StreamRequested url]"
    by (cases "rs_streams st") (auto elim: is_stream_request.elims)
  have run: "remote_run config quiet_listeners st" by (rule remote_run.created [OF c(1) [unfolded slashed_created_def]])
  from session_urls_name_their_session [OF run] url run c(2) show ?thesis by fastforce
qed

end
