(* ===== verification/Session_Queue.thy ===== *)
theory Session_Queue
  imports Session_Store
begin

text \<open>
  \<open>#enqueue\<close> of \<open>packages/server/src/session-service.ts\<close> and \<open>memory-store.ts\<close>: the queue of promises
  that runs the operations on one session one after the other.  A call is a number; its promises are
  the \<open>result\<close> of the operation and the \<open>tail\<close> behind it.  A \<open>tail\<close> in the map \<open>#tails\<close> is the number
  of its call.  The runtime runs one reaction at a time, in any order among those that are due.
\<close>

section \<open>The machine\<close>

text \<open>The life of a call: the operation has not been invoked; it runs; \<open>result\<close> is settled (fulfilled or
  rejected); \<open>tail\<close> is resolved; the reaction that cleans the map has run.\<close>

datatype call_stage = Waiting | Running | Settled bool | Released | Cleaned

record queued_call =
  qc_session :: jstring
  qc_previous :: "nat option"
  qc_stage :: call_stage

record queue_state =
  qs_calls :: "queued_call list"
  qs_tails :: "(jstring, nat) js_map"

definition session_of :: "queue_state \<Rightarrow> nat \<Rightarrow> jstring" where
  "session_of st n = qc_session (qs_calls st ! n)"

definition stage_of :: "queue_state \<Rightarrow> nat \<Rightarrow> call_stage" where
  "stage_of st n = qc_stage (qs_calls st ! n)"

definition previous_of :: "queue_state \<Rightarrow> nat \<Rightarrow> nat option" where
  "previous_of st n = qc_previous (qs_calls st ! n)"

definition released :: "call_stage \<Rightarrow> bool" where
  "released s \<longleftrightarrow> s = Released \<or> s = Cleaned"

definition set_stage :: "nat \<Rightarrow> call_stage \<Rightarrow> queue_state \<Rightarrow> queue_state" where
  "set_stage n s st = st\<lparr>qs_calls := (qs_calls st)[n := (qs_calls st ! n)\<lparr>qc_stage := s\<rparr>]\<rparr>"

definition enqueue_call :: "jstring \<Rightarrow> queue_state \<Rightarrow> queue_state" where
  "enqueue_call sessionId st =
     st\<lparr>qs_calls := qs_calls st @
          [\<lparr>qc_session = sessionId, qc_previous = js_map_get (qs_tails st) sessionId, qc_stage = Waiting\<rparr>],
        qs_tails := js_map_set sessionId (length (qs_calls st)) (qs_tails st)\<rparr>"

text \<open>\<open>previous.then(operation)\<close>: \<open>previous\<close> is the tail found in the map, or an already resolved promise.\<close>

definition start_call :: "nat \<Rightarrow> queue_state \<Rightarrow> queue_state option" where
  "start_call n st =
     (if n < length (qs_calls st) \<and> stage_of st n = Waiting
        \<and> (case previous_of st n of None \<Rightarrow> True | Some p \<Rightarrow> released (stage_of st p))
      then Some (set_stage n Running st) else None)"

definition finish_call :: "nat \<Rightarrow> bool \<Rightarrow> queue_state \<Rightarrow> queue_state option" where
  "finish_call n fulfilled st =
     (if n < length (qs_calls st) \<and> stage_of st n = Running then Some (set_stage n (Settled fulfilled) st) else None)"

text \<open>\<open>result.then(() => undefined, () => undefined)\<close>: fulfilled or not.\<close>

definition release_call :: "nat \<Rightarrow> queue_state \<Rightarrow> queue_state option" where
  "release_call n st =
     (if n < length (qs_calls st) then (case stage_of st n of Settled fulfilled \<Rightarrow> Some (set_stage n Released st) | _ \<Rightarrow> None)
      else None)"

definition clean_call :: "nat \<Rightarrow> queue_state \<Rightarrow> queue_state option" where
  "clean_call n st =
     (if n < length (qs_calls st) \<and> stage_of st n = Released
      then let st' = set_stage n Cleaned st in
        Some (if js_map_get (qs_tails st') (session_of st n) = Some n
              then st'\<lparr>qs_tails := js_map_delete (session_of st n) (qs_tails st')\<rparr> else st')
      else None)"

datatype queue_label = CallMade jstring | CallStarted nat | CallFinished nat bool | CallReleased nat | CallCleaned nat

inductive queue_step :: "queue_label \<Rightarrow> queue_state \<Rightarrow> queue_state \<Rightarrow> bool" where
  made: "queue_step (CallMade sessionId) st (enqueue_call sessionId st)"
| started: "start_call n st = Some st' \<Longrightarrow> queue_step (CallStarted n) st st'"
| finished: "finish_call n fulfilled st = Some st' \<Longrightarrow> queue_step (CallFinished n fulfilled) st st'"
| released: "release_call n st = Some st' \<Longrightarrow> queue_step (CallReleased n) st st'"
| cleaned: "clean_call n st = Some st' \<Longrightarrow> queue_step (CallCleaned n) st st'"

definition empty_queue :: queue_state where
  "empty_queue = \<lparr>qs_calls = [], qs_tails = []\<rparr>"

inductive queue_reachable :: "queue_state \<Rightarrow> bool" where
  empty: "queue_reachable empty_queue"
| step: "queue_reachable st \<Longrightarrow> queue_step label st st' \<Longrightarrow> queue_reachable st'"

section \<open>What it promises\<close>

text \<open>A first-in first-out queue for every session: the calls whose operation runs, at most one, and those
  that wait, in the order in which they were made.\<close>

type_synonym fifo = "jstring \<Rightarrow> nat list \<times> nat list"

inductive fifo_step :: "nat \<Rightarrow> queue_label \<Rightarrow> fifo \<Rightarrow> fifo \<Rightarrow> bool" for fresh where
  fifo_made: "fifo_step fresh (CallMade i) q (q(i := (fst (q i), snd (q i) @ [fresh])))"
| fifo_started: "q i = ([], n # waiting) \<Longrightarrow> fifo_step fresh (CallStarted n) q (q(i := ([n], waiting)))"
| fifo_finished: "q i = ([n], waiting) \<Longrightarrow> fifo_step fresh (CallFinished n fulfilled) q (q(i := ([], waiting)))"
| fifo_released: "fifo_step fresh (CallReleased n) q q"
| fifo_cleaned: "fifo_step fresh (CallCleaned n) q q"

definition calls_of :: "queue_state \<Rightarrow> jstring \<Rightarrow> nat list" where
  "calls_of st i = filter (\<lambda>n. session_of st n = i) [0..<length (qs_calls st)]"

definition queue_view :: "queue_state \<Rightarrow> fifo" where
  "queue_view st i = (filter (\<lambda>n. stage_of st n = Running) (calls_of st i),
     filter (\<lambda>n. stage_of st n = Waiting) (calls_of st i))"

section \<open>The invariant\<close>

text \<open>Every earlier call of the session has been released.\<close>

definition turn :: "queue_state \<Rightarrow> nat \<Rightarrow> bool" where
  "turn st n \<longleftrightarrow> (\<forall>m < n. session_of st m = session_of st n \<longrightarrow> released (stage_of st m))"

definition last_call :: "queue_state \<Rightarrow> jstring \<Rightarrow> nat \<Rightarrow> nat \<Rightarrow> bool" where
  "last_call st i bound p \<longleftrightarrow> p < bound \<and> session_of st p = i \<and> (\<forall>k. p < k \<longrightarrow> k < bound \<longrightarrow> session_of st k \<noteq> i)"

definition chained :: "queue_state \<Rightarrow> jstring \<Rightarrow> nat \<Rightarrow> nat option \<Rightarrow> bool" where
  "chained st i bound previous \<longleftrightarrow> (case previous of
       Some p \<Rightarrow> last_call st i bound p
     | None \<Rightarrow> \<forall>m < bound. session_of st m = i \<longrightarrow> released (stage_of st m))"

definition queue_ok :: "queue_state \<Rightarrow> bool" where
  "queue_ok st \<longleftrightarrow>
     (\<forall>n < length (qs_calls st). (stage_of st n \<noteq> Waiting \<longrightarrow> turn st n)
        \<and> chained st (session_of st n) n (previous_of st n))
     \<and> (\<forall>i. chained st i (length (qs_calls st)) (js_map_get (qs_tails st) i)
        \<and> (\<forall>t. js_map_get (qs_tails st) i = Some t \<longrightarrow> stage_of st t \<noteq> Cleaned))"

lemma set_stage_simps [simp]:
  "length (qs_calls (set_stage n s st)) = length (qs_calls st)"
  "qs_tails (set_stage n s st) = qs_tails st"
  "session_of (set_stage n s st) = session_of st"
  "previous_of (set_stage n s st) = previous_of st"
  "n < length (qs_calls st) \<Longrightarrow> stage_of (set_stage n s st) m = (if m = n then s else stage_of st m)"
  by (cases "n < length (qs_calls st)";
      simp add: set_stage_def session_of_def previous_of_def stage_of_def fun_eq_iff nth_list_update list_update_beyond)+

lemma set_stage_calls [simp]: "calls_of (set_stage n s st) = calls_of st"
  by (simp add: calls_of_def fun_eq_iff)

lemma enqueue_simps:
  "length (qs_calls (enqueue_call i st)) = Suc (length (qs_calls st))"
  "m < length (qs_calls st) \<Longrightarrow> session_of (enqueue_call i st) m = session_of st m"
  "m < length (qs_calls st) \<Longrightarrow> stage_of (enqueue_call i st) m = stage_of st m"
  "m < length (qs_calls st) \<Longrightarrow> previous_of (enqueue_call i st) m = previous_of st m"
  "session_of (enqueue_call i st) (length (qs_calls st)) = i"
  "stage_of (enqueue_call i st) (length (qs_calls st)) = Waiting"
  "previous_of (enqueue_call i st) (length (qs_calls st)) = js_map_get (qs_tails st) i"
  "js_map_get (qs_tails (enqueue_call i st)) j = (if j = i then Some (length (qs_calls st)) else js_map_get (qs_tails st) j)"
  by (simp_all add: enqueue_call_def session_of_def stage_of_def previous_of_def nth_append)

lemma chained_released: "chained st i bound p \<Longrightarrow> n < length (qs_calls st) \<Longrightarrow> (released (stage_of st n) \<longrightarrow> released s)
    \<Longrightarrow> chained (set_stage n s st) i bound p"
  by (auto simp: chained_def last_call_def split: option.splits)

text \<open>A call may start only in its turn.\<close>

lemma started_turn:
  assumes "queue_ok st" "n < length (qs_calls st)"
    "case previous_of st n of None \<Rightarrow> True | Some p \<Rightarrow> released (stage_of st p)"
  shows "turn st n"
proof -
  have chain: "chained st (session_of st n) n (previous_of st n)" using assms(1,2) by (simp add: queue_ok_def)
  show ?thesis
  proof (cases "previous_of st n")
    case None
    with chain show ?thesis by (simp add: chained_def turn_def)
  next
    case (Some p)
    with chain have p: "p < n" "session_of st p = session_of st n" "\<And>k. p < k \<Longrightarrow> k < n \<Longrightarrow> session_of st k \<noteq> session_of st n"
      by (auto simp: chained_def last_call_def)
    have rel: "released (stage_of st p)" using Some assms(3) by simp
    then have "turn st p" using assms(1,2) p(1) by (auto simp: queue_ok_def released_def)
    with p rel show ?thesis unfolding turn_def by (metis nat_neq_iff)
  qed
qed

lemma set_stage_ok:
  assumes "queue_ok st" "n < length (qs_calls st)" "s \<noteq> Waiting \<longrightarrow> turn st n" "released (stage_of st n) \<longrightarrow> released s"
    "s = Cleaned \<longrightarrow> js_map_get (qs_tails st) (session_of st n) \<noteq> Some n"
  shows "queue_ok (set_stage n s st)"
proof -
  have turn: "turn st m \<Longrightarrow> turn (set_stage n s st) m" for m using assms(2,4) by (auto simp: turn_def)
  have tails: "stage_of (set_stage n s st) t \<noteq> Cleaned" if "js_map_get (qs_tails st) i = Some t" for i t
  proof -
    have "chained st i (length (qs_calls st)) (Some t)" using that assms(1) unfolding queue_ok_def by metis
    then have "session_of st t = i" by (simp add: chained_def last_call_def)
    with that assms(1,2,5) show ?thesis by (auto simp: queue_ok_def)
  qed
  show ?thesis
    unfolding queue_ok_def
  proof (intro conjI allI impI)
    fix m
    assume "m < length (qs_calls (set_stage n s st))"
    then have m: "m < length (qs_calls st)" by simp
    show "chained (set_stage n s st) (session_of (set_stage n s st) m) m (previous_of (set_stage n s st) m)"
      using chained_released [OF _ assms(2,4)] assms(1) m by (simp add: queue_ok_def)
    assume "stage_of (set_stage n s st) m \<noteq> Waiting"
    then show "turn (set_stage n s st) m"
      using assms(1,2,3) m turn by (cases "m = n") (auto simp: queue_ok_def)
  next
    fix i
    show "chained (set_stage n s st) i (length (qs_calls (set_stage n s st))) (js_map_get (qs_tails (set_stage n s st)) i)"
      using chained_released [OF _ assms(2,4)] assms(1) by (simp add: queue_ok_def)
    fix t
    assume "js_map_get (qs_tails (set_stage n s st)) i = Some t"
    then show "stage_of (set_stage n s st) t \<noteq> Cleaned" using tails by simp
  qed
qed

lemma chained_enqueue:
  "chained st j bound p \<Longrightarrow> bound \<le> length (qs_calls st) \<Longrightarrow> chained (enqueue_call i st) j bound p"
  by (auto simp: chained_def last_call_def enqueue_simps split: option.splits)

lemma chained_extend: "chained st i bound p \<Longrightarrow> session_of st bound \<noteq> i \<Longrightarrow> chained st i (Suc bound) p"
  by (auto simp: chained_def last_call_def less_Suc_eq split: option.splits)

lemma queue_enqueue_ok:
  assumes "queue_ok st"
  shows "queue_ok (enqueue_call i st)"
proof -
  let ?N = "length (qs_calls st)" and ?st = "enqueue_call i st"
  have tails: "chained st j ?N (js_map_get (qs_tails st) j)" for j using assms by (simp add: queue_ok_def)
  show ?thesis
    unfolding queue_ok_def
  proof (intro conjI allI impI)
    fix n
    assume n: "n < length (qs_calls ?st)"
    show "chained ?st (session_of ?st n) n (previous_of ?st n)"
    proof (cases "n = ?N")
      case True
      with chained_enqueue [OF tails, of i i] show ?thesis by (simp add: enqueue_simps)
    next
      case False
      with n have "n < ?N" by (simp add: enqueue_simps)
      with assms chained_enqueue [of st "session_of st n" n "previous_of st n" i] show ?thesis
        by (simp add: enqueue_simps queue_ok_def)
    qed
    assume "stage_of ?st n \<noteq> Waiting"
    then have "n \<noteq> ?N" by (auto simp: enqueue_simps)
    with n have "n < ?N" by (simp add: enqueue_simps)
    with assms \<open>stage_of ?st n \<noteq> Waiting\<close> show "turn ?st n" by (simp add: queue_ok_def turn_def enqueue_simps)
  next
    fix j
    show "chained ?st j (length (qs_calls ?st)) (js_map_get (qs_tails ?st) j)"
    proof (cases "j = i")
      case True
      then show ?thesis by (simp add: chained_def last_call_def enqueue_simps)
    next
      case False
      have "chained ?st j ?N (js_map_get (qs_tails st) j)" by (rule chained_enqueue [OF tails]) simp
      moreover have "session_of ?st ?N \<noteq> j" using False by (simp add: enqueue_simps)
      ultimately have "chained ?st j (Suc ?N) (js_map_get (qs_tails st) j)" by (rule chained_extend)
      with False show ?thesis by (simp add: enqueue_simps)
    qed
    fix t
    assume t: "js_map_get (qs_tails ?st) j = Some t"
    show "stage_of ?st t \<noteq> Cleaned"
    proof (cases "j = i")
      case True
      with t show ?thesis by (auto simp: enqueue_simps)
    next
      case False
      with t have "js_map_get (qs_tails st) j = Some t" by (simp add: enqueue_simps)
      moreover from this tails [of j] have "t < ?N" by (simp add: chained_def last_call_def)
      ultimately show ?thesis using assms by (simp add: enqueue_simps queue_ok_def)
    qed
  qed
qed

text \<open>The reaction that cleans the map takes the entry of a call that is still the last one.\<close>

lemma cleaned_ok:
  assumes "queue_ok st" "n < length (qs_calls st)" "stage_of st n = Released" "clean_call n st = Some st'"
  shows "queue_ok st'"
proof (cases "js_map_get (qs_tails st) (session_of st n) = Some n")
  case False
  with assms(2-4) have st': "st' = set_stage n Cleaned st" by (simp add: clean_call_def Let_def)
  show ?thesis
    unfolding st' using assms(1-3) False by (intro set_stage_ok) (auto simp: queue_ok_def released_def)
next
  case True
  let ?i = "session_of st n"
  let ?st0 = "st\<lparr>qs_tails := js_map_delete ?i (qs_tails st)\<rparr>"
  have same: "session_of ?st0 = session_of st" "stage_of ?st0 = stage_of st" "previous_of ?st0 = previous_of st"
    by (simp_all add: session_of_def stage_of_def previous_of_def fun_eq_iff)
  have chain: "chained ?st0 j b p \<longleftrightarrow> chained st j b p" for j b p
    by (simp add: chained_def last_call_def same split: option.split)
  have "chained st ?i (length (qs_calls st)) (Some n)" using assms(1) True unfolding queue_ok_def by metis
  moreover have "turn st n" using assms(1-3) by (simp add: queue_ok_def)
  ultimately have all: "chained st ?i (length (qs_calls st)) None"
    using assms(3) unfolding chained_def last_call_def turn_def by (auto simp: released_def) (metis nat_neq_iff)
  have "queue_ok ?st0"
    using assms(1) all by (auto simp: queue_ok_def chain same turn_def)
  then have "queue_ok (set_stage n Cleaned ?st0)"
    using assms(2,3) by (intro set_stage_ok) (auto simp: same queue_ok_def released_def)
  moreover have "st' = set_stage n Cleaned ?st0"
    using assms(2-4) True by (auto simp: clean_call_def Let_def set_stage_def)
  ultimately show ?thesis by simp
qed

lemma queue_step_ok:
  assumes "queue_step label st st'" "queue_ok st"
  shows "queue_ok st'"
  using assms(1)
proof cases
  case (made i)
  with queue_enqueue_ok [OF assms(2)] show ?thesis by simp
next
  case (started n)
  then have n: "n < length (qs_calls st)" "stage_of st n = Waiting" "st' = set_stage n Running st"
      "case previous_of st n of None \<Rightarrow> True | Some p \<Rightarrow> released (stage_of st p)"
    by (auto simp: start_call_def split: if_splits)
  show ?thesis
    unfolding n(3) using set_stage_ok [OF assms(2) n(1)] started_turn [OF assms(2) n(1,4)] n(2) by (simp add: released_def)
next
  case (finished n fulfilled)
  then have n: "n < length (qs_calls st)" "stage_of st n = Running" "st' = set_stage n (Settled fulfilled) st"
    by (auto simp: finish_call_def split: if_splits)
  then have "turn st n" using assms(2) by (simp add: queue_ok_def)
  with n assms(2) show ?thesis by (simp add: set_stage_ok released_def)
next
  case (released n)
  then obtain fulfilled where n: "n < length (qs_calls st)" "stage_of st n = Settled fulfilled" "st' = set_stage n Released st"
    by (auto simp: release_call_def split: if_splits call_stage.splits)
  then have "turn st n" using assms(2) by (simp add: queue_ok_def)
  with n assms(2) show ?thesis by (simp add: set_stage_ok released_def)
next
  case (cleaned n)
  then show ?thesis using cleaned_ok [OF assms(2)] by (auto simp: clean_call_def split: if_splits)
qed

lemma queue_reachable_ok: "queue_reachable st \<Longrightarrow> queue_ok st"
proof (induction rule: queue_reachable.induct)
  case empty
  show ?case by (simp add: queue_ok_def empty_queue_def chained_def)
next
  case (step st label st')
  then show ?case using queue_step_ok by blast
qed

section \<open>Refinement\<close>

text \<open>A call that has its turn and is not released stands between released calls and waiting ones.\<close>

lemma calls_around:
  assumes "queue_ok st" "n < length (qs_calls st)" "turn st n" "\<not> released (stage_of st n)"
  obtains xs ys where "calls_of st (session_of st n) = xs @ n # ys" "n \<notin> set xs" "n \<notin> set ys"
    "\<forall>m \<in> set xs. released (stage_of st m)" "\<forall>m \<in> set ys. stage_of st m = Waiting"
proof -
  let ?P = "\<lambda>m. session_of st m = session_of st n"
  have "[0..<length (qs_calls st)] = [0..<n] @ n # [Suc n..<length (qs_calls st)]"
    using assms(2) upt_add_eq_append [of 0 n "length (qs_calls st) - n"] by (simp add: upt_conv_Cons)
  then have "calls_of st (session_of st n) = filter ?P [0..<n] @ n # filter ?P [Suc n..<length (qs_calls st)]"
    by (simp add: calls_of_def)
  moreover have "stage_of st m = Waiting" if "n < m" "m < length (qs_calls st)" "?P m" for m
    using assms(1,4) that by (auto simp: queue_ok_def turn_def)
  ultimately show thesis using assms(3) that by (auto simp: turn_def)
qed

lemma filter_stage: "n \<notin> set xs \<Longrightarrow> n < length (qs_calls st)
    \<Longrightarrow> filter (\<lambda>m. stage_of (set_stage n s st) m = t) xs = filter (\<lambda>m. stage_of st m = t) xs"
  by (intro filter_cong) auto

lemma filter_none: "\<forall>m \<in> set xs. released (stage_of st m) \<Longrightarrow> t \<in> {Running, Waiting} \<Longrightarrow> filter (\<lambda>m. stage_of st m = t) xs = []"
  by (auto simp: filter_empty_conv released_def)

lemma filter_waiting: "\<forall>m \<in> set ys. stage_of st m = Waiting
    \<Longrightarrow> filter (\<lambda>m. stage_of st m = Running) ys = [] \<and> filter (\<lambda>m. stage_of st m = Waiting) ys = ys"
  by (auto simp: filter_empty_conv filter_id_conv)

text \<open>Changing the stage of a call shows in the queue of its session only.\<close>

lemma other_session: "n < length (qs_calls st) \<Longrightarrow> i \<noteq> session_of st n \<Longrightarrow> queue_view (set_stage n s st) i = queue_view st i"
proof -
  assume n: "n < length (qs_calls st)" "i \<noteq> session_of st n"
  then have "n \<notin> set (calls_of st i)" by (auto simp: calls_of_def)
  with filter_stage [of n "calls_of st i" st s] n(1) show ?thesis by (simp add: queue_view_def)
qed

lemma view_around:
  assumes "calls_of st (session_of st n) = xs @ n # ys" "n \<notin> set xs" "n \<notin> set ys" "n < length (qs_calls st)"
    "\<forall>m \<in> set xs. released (stage_of st m)" "\<forall>m \<in> set ys. stage_of st m = Waiting"
  shows "queue_view (set_stage n s st) (session_of st n) = (if s = Running then [n] else [], (if s = Waiting then [n] else []) @ ys)"
    and "queue_view st (session_of st n) = (if stage_of st n = Running then [n] else [], (if stage_of st n = Waiting then [n] else []) @ ys)"
  using assms filter_stage [of n xs st s] filter_stage [of n ys st s] filter_none [of xs st] filter_waiting [of ys st]
  by (simp_all add: queue_view_def)

lemma view_update: "n < length (qs_calls st) \<Longrightarrow> queue_view (set_stage n s st)
    = (queue_view st)(session_of st n := queue_view (set_stage n s st) (session_of st n))"
  using other_session by (auto simp: fun_eq_iff)

lemma silent_stage: "n < length (qs_calls st) \<Longrightarrow> stage_of st n \<notin> {Running, Waiting} \<Longrightarrow> s \<notin> {Running, Waiting}
    \<Longrightarrow> queue_view (set_stage n s st) = queue_view st"
  by (auto simp: queue_view_def fun_eq_iff intro!: filter_cong)

lemma view_tails [simp]: "queue_view (st\<lparr>qs_tails := t\<rparr>) = queue_view st"
  by (simp add: queue_view_def calls_of_def stage_of_def session_of_def fun_eq_iff)

lemma view_enqueue: "queue_view (enqueue_call i st)
    = (queue_view st)(i := (fst (queue_view st i), snd (queue_view st i) @ [length (qs_calls st)]))"
proof
  fix j
  let ?st = "enqueue_call i st" and ?N = "length (qs_calls st)"
  have old: "filter (\<lambda>n. session_of ?st n = j) [0..<?N] = calls_of st j"
    unfolding calls_of_def by (intro filter_cong) (auto simp: enqueue_simps)
  have "calls_of ?st j = calls_of st j @ (if j = i then [?N] else [])"
    using old by (simp add: calls_of_def [of ?st] enqueue_simps)
  moreover have "filter (\<lambda>n. stage_of ?st n = s) (calls_of st j) = filter (\<lambda>n. stage_of st n = s) (calls_of st j)" for s
    by (intro filter_cong) (auto simp: calls_of_def enqueue_simps)
  ultimately show "queue_view ?st j = ((queue_view st)(i := (fst (queue_view st i), snd (queue_view st i) @ [?N]))) j"
    by (auto simp: queue_view_def enqueue_simps)
qed

section \<open>Draining\<close>

text \<open>The reactions a call still has before it.\<close>

fun reactions_left :: "call_stage \<Rightarrow> nat" where
  "reactions_left Waiting = 4"
| "reactions_left Running = 3"
| "reactions_left (Settled _) = 2"
| "reactions_left Released = 1"
| "reactions_left Cleaned = 0"

definition queue_work :: "queue_state \<Rightarrow> nat" where
  "queue_work st = (\<Sum>c\<leftarrow>qs_calls st. reactions_left (qc_stage c))"

definition queue_idle :: "queue_state \<Rightarrow> bool" where
  "queue_idle st \<longleftrightarrow> (\<forall>n < length (qs_calls st). stage_of st n = Cleaned)"

lemma work_set_stage:
  assumes "n < length (qs_calls st)"
  shows "queue_work (set_stage n s st) + reactions_left (stage_of st n) = queue_work st + reactions_left s"
proof -
  have "sum_list (xs[n := y]) + xs ! n = sum_list xs + y" if "n < length xs" for xs :: "nat list" and y
    using that by (induction xs arbitrary: n) (auto split: nat.splits)
  from this [of "map (\<lambda>c. reactions_left (qc_stage c)) (qs_calls st)" "reactions_left s"] assms show ?thesis
    by (simp add: queue_work_def set_stage_def map_update stage_of_def)
qed

fun label_call :: "queue_label \<Rightarrow> nat option" where
  "label_call (CallMade i) = None"
| "label_call (CallStarted n) = Some n"
| "label_call (CallFinished n fulfilled) = Some n"
| "label_call (CallReleased n) = Some n"
| "label_call (CallCleaned n) = Some n"

lemma step_progress:
  assumes "queue_step label st st'" "label_call label = Some n"
  shows "queue_work st' < queue_work st"
  using assms
proof cases
  case (started m)
  then have m: "m < length (qs_calls st)" "stage_of st m = Waiting" "st' = set_stage m Running st"
    by (auto simp: start_call_def split: if_splits)
  with work_set_stage [OF m(1), of Running] show ?thesis by simp
next
  case (finished m fulfilled)
  then have m: "m < length (qs_calls st)" "stage_of st m = Running" "st' = set_stage m (Settled fulfilled) st"
    by (auto simp: finish_call_def split: if_splits)
  with work_set_stage [OF m(1), of "Settled fulfilled"] show ?thesis by simp
next
  case (released m)
  then obtain fulfilled where m: "m < length (qs_calls st)" "stage_of st m = Settled fulfilled" "st' = set_stage m Released st"
    by (auto simp: release_call_def split: if_splits call_stage.splits)
  with work_set_stage [OF m(1), of Released] show ?thesis by simp
next
  case (cleaned m)
  then have m: "m < length (qs_calls st)" "stage_of st m = Released" "queue_work st' = queue_work (set_stage m Cleaned st)"
    by (auto simp: clean_call_def Let_def queue_work_def split: if_splits)
  with work_set_stage [OF m(1), of Cleaned] show ?thesis by simp
qed (use assms(2) in simp)

text \<open>The first call of a session that is not cleaned can go on.\<close>

lemma step_enabled:
  assumes "queue_ok st" "n < length (qs_calls st)" "stage_of st n \<noteq> Cleaned"
    "\<forall>m < n. session_of st m = session_of st n \<longrightarrow> stage_of st m = Cleaned"
  shows "\<exists>label st'. queue_step label st st' \<and> label_call label = Some n"
proof (cases "stage_of st n")
  case Waiting
  have "chained st (session_of st n) n (previous_of st n)" using assms(1,2) by (simp add: queue_ok_def)
  then have "case previous_of st n of None \<Rightarrow> True | Some p \<Rightarrow> Session_Queue.released (stage_of st p)"
    using assms(4) by (auto simp: chained_def last_call_def released_def split: option.splits)
  with Waiting assms(2) have "start_call n st = Some (set_stage n Running st)" by (simp add: start_call_def)
  then show ?thesis using queue_step.started label_call.simps by blast
next
  case Running
  with assms(2) have "finish_call n True st = Some (set_stage n (Settled True) st)" by (simp add: finish_call_def)
  then show ?thesis using queue_step.finished label_call.simps by blast
next
  case (Settled fulfilled)
  with assms(2) have "release_call n st = Some (set_stage n Released st)" by (simp add: release_call_def)
  then show ?thesis using queue_step.released label_call.simps by blast
next
  case Released
  with assms(2) obtain st' where "clean_call n st = Some st'" by (simp add: clean_call_def Let_def)
  then show ?thesis using queue_step.cleaned label_call.simps by blast
qed (use assms(3) in simp)

lemma session_enabled:
  assumes "queue_ok st" "n \<in> set (calls_of st i)" "stage_of st n \<noteq> Cleaned"
  shows "\<exists>label st' m. queue_step label st st' \<and> label_call label = Some m \<and> m \<in> set (calls_of st i)"
proof -
  let ?P = "\<lambda>m. m \<in> set (calls_of st i) \<and> stage_of st m \<noteq> Cleaned"
  let ?m = "LEAST m. ?P m"
  have m: "?P ?m" by (rule LeastI [of ?P n]) (use assms in simp)
  have before: "stage_of st k = Cleaned" if "k < ?m" "session_of st k = session_of st ?m" for k
    using not_less_Least [OF that(1)] that m by (auto simp: calls_of_def)
  have "?m < length (qs_calls st)" using m by (simp add: calls_of_def)
  from step_enabled [OF assms(1) this] m before show ?thesis by blast
qed

lemma idle_tails:
  assumes "queue_ok st" "queue_idle st"
  shows "qs_tails st = []"
proof (cases "qs_tails st")
  case (Cons e m)
  then have get: "js_map_get (qs_tails st) (fst e) = Some (snd e)" by (cases e) (simp add: js_map_get_def)
  have "chained st (fst e) (length (qs_calls st)) (Some (snd e))" "stage_of st (snd e) \<noteq> Cleaned"
    using assms(1) get unfolding queue_ok_def by metis+
  with assms(2) show ?thesis by (simp add: queue_idle_def chained_def last_call_def)
qed simp

section \<open>Properties\<close>

text \<open>C23: the queue of promises is, for every session, a first-in first-out queue: whatever the order in which
  the runtime runs the reactions that are due, an operation starts only when none of its session runs and
  it is the first in line, in the order of the calls, and an operation that fails hands over like one
  that succeeds.\<close>

theorem session_queue_is_fifo:
  assumes "queue_reachable st" "queue_step label st st'"
  shows "fifo_step (length (qs_calls st)) label (queue_view st) (queue_view st')"
proof -
  have ok: "queue_ok st" by (rule queue_reachable_ok) (rule assms(1))
  show ?thesis
    using assms(2)
  proof cases
    case (made i)
    then show ?thesis using fifo_step.fifo_made [of _ i "queue_view st"] by (simp add: view_enqueue)
  next
    case (started n)
    then have n: "n < length (qs_calls st)" "stage_of st n = Waiting" "st' = set_stage n Running st"
        "case previous_of st n of None \<Rightarrow> True | Some p \<Rightarrow> Session_Queue.released (stage_of st p)"
      by (auto simp: start_call_def split: if_splits)
    obtain xs ys where around: "calls_of st (session_of st n) = xs @ n # ys" "n \<notin> set xs" "n \<notin> set ys"
        "\<forall>m \<in> set xs. Session_Queue.released (stage_of st m)" "\<forall>m \<in> set ys. stage_of st m = Waiting"
      by (rule calls_around [OF ok n(1) started_turn [OF ok n(1,4)]]) (simp add: n(2) released_def)
    note view = view_around [OF around(1-3) n(1) around(4,5)]
    have "queue_view st (session_of st n) = ([], n # ys)" using view(2) n(2) by simp
    moreover have "queue_view st' = (queue_view st)(session_of st n := ([n], ys))"
      unfolding n(3) by (subst view_update [OF n(1)]) (simp add: view(1))
    ultimately show ?thesis using started(1) fifo_step.fifo_started [of "queue_view st"] by simp
  next
    case (finished n fulfilled)
    then have n: "n < length (qs_calls st)" "stage_of st n = Running" "st' = set_stage n (Settled fulfilled) st"
      by (auto simp: finish_call_def split: if_splits)
    then have "turn st n" using ok by (simp add: queue_ok_def)
    then obtain xs ys where around: "calls_of st (session_of st n) = xs @ n # ys" "n \<notin> set xs" "n \<notin> set ys"
        "\<forall>m \<in> set xs. Session_Queue.released (stage_of st m)" "\<forall>m \<in> set ys. stage_of st m = Waiting"
      by (rule calls_around [OF ok n(1)]) (simp add: n(2) released_def)
    note view = view_around [OF around(1-3) n(1) around(4,5)]
    have "queue_view st (session_of st n) = ([n], ys)" using view(2) n(2) by simp
    moreover have "queue_view st' = (queue_view st)(session_of st n := ([], ys))"
      unfolding n(3) by (subst view_update [OF n(1)]) (simp add: view(1))
    ultimately show ?thesis using finished(1) fifo_step.fifo_finished [of "queue_view st"] by simp
  next
    case (released n)
    then obtain fulfilled where n: "n < length (qs_calls st)" "stage_of st n = Settled fulfilled" "st' = set_stage n Released st"
      by (auto simp: release_call_def split: if_splits call_stage.splits)
    then have "queue_view st' = queue_view st" using silent_stage [OF n(1)] by simp
    with released(1) fifo_step.fifo_released show ?thesis by simp
  next
    case (cleaned n)
    then have n: "n < length (qs_calls st)" "stage_of st n = Released" "queue_view st' = queue_view (set_stage n Cleaned st)"
      by (auto simp: clean_call_def Let_def split: if_splits)
    then have "queue_view st' = queue_view st" using silent_stage [OF n(1)] by simp
    with cleaned(1) fifo_step.fifo_cleaned show ?thesis by simp
  qed
qed

text \<open>C24: the queue never stalls and never leaks: while a session has a call that is not done, one of its own
  reactions is due (or its operation runs), whatever the other sessions do; every reaction brings
  all calls nearer to their end, four at most for each; and when all are done \<open>#tails\<close> is empty.\<close>

theorem session_queue_drains:
  assumes "queue_reachable st"
  shows "(n \<in> set (calls_of st i) \<longrightarrow> stage_of st n \<noteq> Cleaned
           \<longrightarrow> (\<exists>label st' m. queue_step label st st' \<and> label_call label = Some m \<and> m \<in> set (calls_of st i)))
    \<and> (queue_step label st st' \<longrightarrow> label_call label = Some m \<longrightarrow> queue_work st' < queue_work st)
    \<and> queue_work st \<le> 4 * length (qs_calls st) \<and> (queue_idle st \<longrightarrow> qs_tails st = [])"
proof -
  have "(\<Sum>c\<leftarrow>cs. reactions_left (qc_stage c)) \<le> 4 * length cs" for cs :: "queued_call list"
  proof (induction cs)
    case (Cons c cs)
    have "reactions_left (qc_stage c) \<le> 4" by (cases "qc_stage c") simp_all
    with Cons show ?case by simp
  qed simp
  then have "queue_work st \<le> 4 * length (qs_calls st)" by (simp add: queue_work_def)
  with queue_reachable_ok [OF assms] session_enabled step_progress idle_tails show ?thesis by blast
qed

text \<open>Two calls on a session; the operation of the first one runs, and is rejected.\<close>

definition sample_queue :: queue_state where
  "sample_queue = the (start_call 0 (enqueue_call (lit ''s'') (enqueue_call (lit ''s'') empty_queue)))"

lemma sample_queue_reachable: "queue_reachable sample_queue"
proof -
  let ?st = "enqueue_call (lit ''s'') (enqueue_call (lit ''s'') empty_queue)"
  have "start_call 0 ?st \<noteq> None" by code_simp
  then have "start_call 0 ?st = Some sample_queue" by (auto simp: sample_queue_def)
  then show ?thesis by (meson queue_reachable.empty queue_reachable.step queue_step.made queue_step.started)
qed

lemma sample_queue_rejected: "\<exists>st'. queue_step (CallFinished 0 False) sample_queue st'"
proof -
  have "finish_call 0 False sample_queue \<noteq> None" by code_simp
  then show ?thesis using queue_step.finished by blast
qed

theorem session_queue_is_fifo_witness:
  "\<exists>st'. queue_step (CallFinished 0 False) sample_queue st'
     \<and> fifo_step 2 (CallFinished 0 False) (queue_view sample_queue) (queue_view st') \<and> queue_view sample_queue (lit ''s'') = ([0], [1])"
proof -
  obtain st' where st': "queue_step (CallFinished 0 False) sample_queue st'" using sample_queue_rejected by blast
  have "length (qs_calls sample_queue) = 2" "queue_view sample_queue (lit ''s'') = ([0], [1])" by code_simp+
  with session_queue_is_fifo [OF sample_queue_reachable st'] st' show ?thesis by auto
qed

theorem session_queue_drains_witness:
  "(\<exists>label st' m. queue_step label sample_queue st' \<and> label_call label = Some m \<and> m \<in> set (calls_of sample_queue (lit ''s'')))
   \<and> queue_work sample_queue = 7"
proof -
  have "1 \<in> set (calls_of sample_queue (lit ''s''))" "stage_of sample_queue 1 \<noteq> Cleaned" "queue_work sample_queue = 7" by code_simp+
  with session_queue_drains [OF sample_queue_reachable, of 1 "lit ''s''"] show ?thesis by blast
qed

end
