(* ===== verification/Corpus_Cache.thy ===== *)
theory Corpus_Cache
  imports Session_Service
begin

text \<open>
  The cache of the fixed corpus in \<open>#indexedCorpusFor\<close> of \<open>packages/server/src/session-service.ts\<close>,
  with its task shared by concurrent requests.  \<open>Session_Service\<close> uses the function without the
  cache; here the cache is shown to give the same answers.
\<close>

section \<open>The machine\<close>

text \<open>A task computes the index; then its promise is settled; then its \<open>finally\<close> handler has run.\<close>

datatype task_state = TaskRunning | TaskSettled "server_error + indexed_corpus" | TaskOver "server_error + indexed_corpus"

record corpus_cache =
  ch_index :: "indexed_corpus option"
  ch_task :: "nat option"
  ch_tasks :: "task_state list"

datatype index_promise = Answered "server_error + indexed_corpus" | TaskPromise nat

definition fixed_corpus :: "service_config \<Rightarrow> jstring \<Rightarrow> bool" where
  "fixed_corpus config i \<longleftrightarrow> (case sc_corpus config of Some c \<Rightarrow> js_get c ''corpusId'' = JStr i | None \<Rightarrow> False)"

text \<open>A request: the cached index, the task at hand, or a new task; another corpus is not cached.\<close>

definition cached_index :: "service_config \<Rightarrow> jstring \<Rightarrow> corpus_cache \<Rightarrow> corpus_cache \<times> index_promise" where
  "cached_index config i st =
     (if fixed_corpus config i then
        (case ch_index st of
           Some index \<Rightarrow> (st, Answered (Inr index))
         | None \<Rightarrow> (case ch_task st of
             Some n \<Rightarrow> (st, TaskPromise n)
           | None \<Rightarrow>
               let n = length (ch_tasks st)
               in (st\<lparr>ch_task := Some n, ch_tasks := ch_tasks st @ [TaskRunning]\<rparr>, TaskPromise n)))
      else (st, Answered (indexedCorpusFor config i)))"

definition run_task :: "service_config \<Rightarrow> jstring \<Rightarrow> nat \<Rightarrow> corpus_cache \<Rightarrow> corpus_cache option" where
  "run_task config i n st =
     (if n < length (ch_tasks st) \<and> ch_tasks st ! n = TaskRunning
      then let result = indexedCorpusFor config i in
        Some (st\<lparr>ch_index := (case result of Inr index \<Rightarrow> Some index | Inl _ \<Rightarrow> ch_index st),
                ch_tasks := (ch_tasks st)[n := TaskSettled result]\<rparr>)
      else None)"

definition task_finally :: "nat \<Rightarrow> corpus_cache \<Rightarrow> corpus_cache option" where
  "task_finally n st =
     (if n < length (ch_tasks st) then
        (case ch_tasks st ! n of
           TaskSettled result \<Rightarrow> Some (st\<lparr>ch_task := (if ch_task st = Some n then None else ch_task st),
             ch_tasks := (ch_tasks st)[n := TaskOver result]\<rparr>)
         | _ \<Rightarrow> None)
      else None)"

definition empty_cache :: corpus_cache where
  "empty_cache = \<lparr>ch_index = None, ch_task = None, ch_tasks = []\<rparr>"

text \<open>The cache of one service; \<open>i\<close> is the identifier of its fixed corpus.\<close>

inductive cache_reachable :: "service_config \<Rightarrow> jstring \<Rightarrow> corpus_cache \<Rightarrow> bool" for config i where
  cache_empty: "cache_reachable config i empty_cache"
| cache_asked: "cache_reachable config i st \<Longrightarrow> cache_reachable config i (fst (cached_index config j st))"
| cache_ran: "cache_reachable config i st \<Longrightarrow> run_task config i n st = Some st' \<Longrightarrow> cache_reachable config i st'"
| cache_over: "cache_reachable config i st \<Longrightarrow> task_finally n st = Some st' \<Longrightarrow> cache_reachable config i st'"

section \<open>The invariant\<close>

definition task_ok :: "server_error + indexed_corpus \<Rightarrow> task_state \<Rightarrow> bool" where
  "task_ok result t \<longleftrightarrow> t \<in> {TaskRunning, TaskSettled result, TaskOver result}"

text \<open>Every result is that of the function; only the task at hand is not over.\<close>

definition cache_ok :: "service_config \<Rightarrow> jstring \<Rightarrow> corpus_cache \<Rightarrow> bool" where
  "cache_ok config i st \<longleftrightarrow> (\<forall>index. ch_index st = Some index \<longrightarrow> indexedCorpusFor config i = Inr index)
     \<and> list_all (task_ok (indexedCorpusFor config i)) (ch_tasks st)
     \<and> (\<forall>n < length (ch_tasks st). (\<forall>r. ch_tasks st ! n \<noteq> TaskOver r) \<longleftrightarrow> ch_task st = Some n)
     \<and> (\<forall>n. ch_task st = Some n \<longrightarrow> n < length (ch_tasks st))"

lemma list_all_update: "list_all P xs \<Longrightarrow> P x \<Longrightarrow> list_all P (xs[n := x])"
  by (auto simp: list_all_iff dest: set_update_subset_insert [THEN subsetD])

lemma asked_ok:
  assumes "cache_ok config i st"
  shows "cache_ok config i (fst (cached_index config j st))"
proof (cases "fixed_corpus config j \<and> ch_index st = None \<and> ch_task st = None")
  case True
  with assms show ?thesis
    by (auto simp: cache_ok_def cached_index_def Let_def task_ok_def nth_append less_Suc_eq)
next
  case False
  then have "fst (cached_index config j st) = st" by (auto simp: cached_index_def split: option.splits)
  with assms show ?thesis by simp
qed

lemma ran_ok:
  assumes "cache_ok config i st" "run_task config i n st = Some st'"
  shows "cache_ok config i st'"
proof -
  let ?r = "indexedCorpusFor config i"
  from assms(2) have n: "n < length (ch_tasks st)" "ch_tasks st ! n = TaskRunning"
      "st' = st\<lparr>ch_index := (case ?r of Inr index \<Rightarrow> Some index | Inl _ \<Rightarrow> ch_index st),
         ch_tasks := (ch_tasks st)[n := TaskSettled ?r]\<rparr>"
    by (simp_all add: run_task_def Let_def split: if_splits)
  have "(\<forall>r. ch_tasks st ! n \<noteq> TaskOver r) \<longleftrightarrow> ch_task st = Some n" using assms(1) n(1) unfolding cache_ok_def by blast
  then have "ch_task st = Some n" using n(2) by simp
  then show ?thesis
    using assms(1) n
    by (auto simp: cache_ok_def list_all_length nth_list_update task_ok_def split: sum.splits)
qed

lemma over_ok:
  assumes "cache_ok config i st" "task_finally n st = Some st'"
  shows "cache_ok config i st'"
proof -
  from assms(2) obtain result where n: "n < length (ch_tasks st)" "ch_tasks st ! n = TaskSettled result"
      "st' = st\<lparr>ch_task := (if ch_task st = Some n then None else ch_task st), ch_tasks := (ch_tasks st)[n := TaskOver result]\<rparr>"
    by (auto simp: task_finally_def split: if_splits task_state.splits)
  have "(\<forall>r. ch_tasks st ! n \<noteq> TaskOver r) \<longleftrightarrow> ch_task st = Some n" using assms(1) n(1) unfolding cache_ok_def by blast
  then have t: "ch_task st = Some n" using n(2) by simp
  have "task_ok (indexedCorpusFor config i) (TaskSettled result)" using assms(1) n by (auto simp: cache_ok_def list_all_length)
  then have "result = indexedCorpusFor config i" by (simp add: task_ok_def)
  then have "list_all (task_ok (indexedCorpusFor config i)) (ch_tasks st')"
    using assms(1) n(3) by (auto simp: cache_ok_def intro!: list_all_update) (simp add: task_ok_def)
  moreover have "(\<forall>r. ch_tasks st' ! m \<noteq> TaskOver r) \<longleftrightarrow> ch_task st' = Some m" if m: "m < length (ch_tasks st')" for m
  proof (cases "m = n")
    case True
    with n(1,3) t show ?thesis by simp
  next
    case False
    have "(\<forall>r. ch_tasks st ! m \<noteq> TaskOver r) \<longleftrightarrow> ch_task st = Some m" using assms(1) m n(3) unfolding cache_ok_def by simp
    with False t n(3) show ?thesis by simp
  qed
  moreover have "ch_task st' = None" "ch_index st' = ch_index st" using t n(3) by simp_all
  moreover have "\<forall>index. ch_index st = Some index \<longrightarrow> indexedCorpusFor config i = Inr index"
    using assms(1) unfolding cache_ok_def by blast
  ultimately show ?thesis unfolding cache_ok_def by (intro conjI allI impI) (blast | simp)+
qed

lemma cache_reachable_ok: "cache_reachable config i st \<Longrightarrow> cache_ok config i st"
proof (induction rule: cache_reachable.induct)
  case cache_empty
  show ?case by (simp add: cache_ok_def empty_cache_def)
next
  case (cache_asked st j)
  show ?case by (rule asked_ok) (rule cache_asked.IH)
next
  case (cache_ran st n st')
  show ?case by (rule ran_ok) (rule cache_ran.IH, rule cache_ran.hyps)
next
  case (cache_over st n st')
  show ?case by (rule over_ok) (rule cache_over.IH, rule cache_over.hyps)
qed

section \<open>The cache is transparent\<close>

text \<open>An answer at once is the function's; a promise settles with the function's value, is the task at hand, and
  no other task is running.\<close>

theorem cache_is_transparent:
  assumes "cache_reachable config i st" "cached_index config i st = (st', promise)"
  shows "case promise of
      Answered result \<Rightarrow> result = indexedCorpusFor config i
    | TaskPromise n \<Rightarrow> ch_task st' = Some n \<and> n < length (ch_tasks st') \<and> task_ok (indexedCorpusFor config i) (ch_tasks st' ! n)
        \<and> (\<forall>m < length (ch_tasks st'). m \<noteq> n \<longrightarrow> ch_tasks st' ! m = TaskOver (indexedCorpusFor config i))"
proof -
  have ok: "cache_ok config i st" "cache_ok config i st'"
    using cache_reachable_ok [OF assms(1)] asked_ok [of config i st i] assms(2) by simp_all
  show ?thesis
  proof (cases promise)
    case (Answered result)
    with assms(2) ok(1) show ?thesis
      by (auto simp: cached_index_def cache_ok_def Let_def split: if_splits option.splits)
  next
    case (TaskPromise n)
    with assms(2) have t: "ch_task st' = Some n" by (auto simp: cached_index_def Let_def split: if_splits option.splits)
    have "ch_tasks st' ! m = TaskOver (indexedCorpusFor config i)" if "m < length (ch_tasks st')" and other: "m \<noteq> n" for m
    proof -
      have "(\<forall>r. ch_tasks st' ! m \<noteq> TaskOver r) \<longleftrightarrow> ch_task st' = Some m" using ok(2) that unfolding cache_ok_def by blast
      then obtain r where "ch_tasks st' ! m = TaskOver r" using t other by auto
      moreover have "task_ok (indexedCorpusFor config i) (ch_tasks st' ! m)" using ok(2) that by (simp add: cache_ok_def list_all_length)
      ultimately show ?thesis by (simp add: task_ok_def)
    qed
    with TaskPromise t ok(2) show ?thesis by (auto simp: cache_ok_def list_all_length)
  qed
qed

end
