(* ===== verification/Remote_Delay.thy ===== *)
theory Remote_Delay
  imports Remote_Request
begin

text \<open>
  The delays of \<open>packages/client/src/remote-session.ts\<close>: a timer of the platform, or the function
  \<open>sleep\<close> of the caller raced against its cancellation.  A promise settles once.
\<close>

section \<open>A timer\<close>

datatype delay_promise = DelayPending | DelayResolved | DelayRejected thrown

record timer_delay =
  dl_promise :: delay_promise
  dl_settled :: bool
  dl_scheduled :: bool
  dl_cleared :: bool

definition no_timer_error :: thrown where
  "no_timer_error = TransportError \<lparr>te_message = lit ''No timer implementation is available'', te_retryable = False\<rparr>"

definition resolve_promise :: "delay_promise \<Rightarrow> delay_promise" where
  "resolve_promise p = (if p = DelayPending then DelayResolved else p)"

text \<open>\<open>schedules\<close> and \<open>clears\<close>: whether the platform has \<open>setTimeout\<close> and \<open>clearTimeout\<close>.\<close>

definition defaultDelay :: "bool \<Rightarrow> timer_delay" where
  "defaultDelay schedules = (if \<not> schedules
     then \<lparr>dl_promise = DelayRejected no_timer_error, dl_settled = False, dl_scheduled = False, dl_cleared = False\<rparr>
     else \<lparr>dl_promise = DelayPending, dl_settled = False, dl_scheduled = True, dl_cleared = False\<rparr>)"

definition settle_delay :: "timer_delay \<Rightarrow> timer_delay" where
  "settle_delay d = (if dl_settled d then d else d\<lparr>dl_settled := True, dl_promise := resolve_promise (dl_promise d)\<rparr>)"

definition cancel_default :: "bool \<Rightarrow> timer_delay \<Rightarrow> timer_delay" where
  "cancel_default clears d =
     (if \<not> dl_scheduled d \<or> dl_settled d then d else settle_delay (if clears then d\<lparr>dl_cleared := True\<rparr> else d))"

text \<open>A timer that was cleared does not fire.\<close>

definition fire_timer :: "timer_delay \<Rightarrow> timer_delay option" where
  "fire_timer d = (if dl_scheduled d \<and> \<not> dl_cleared d then Some (settle_delay d) else None)"

section \<open>A sleep\<close>

text \<open>\<open>Promise.race\<close> of the caller's sleep and the cancellation: the first one decides.\<close>

definition injectedDelay :: delay_promise where
  "injectedDelay = DelayPending"

definition sleep_settled :: "thrown option \<Rightarrow> delay_promise \<Rightarrow> delay_promise" where
  "sleep_settled thrown p = (case p of DelayPending \<Rightarrow> (case thrown of None \<Rightarrow> DelayResolved | Some t \<Rightarrow> DelayRejected t) | _ \<Rightarrow> p)"

definition cancel_injected :: "delay_promise \<Rightarrow> delay_promise" where
  "cancel_injected p = resolve_promise p"

section \<open>What a wait for a delay sees\<close>

text \<open>The answer a request gets at the end of its wait.\<close>

definition delay_answer :: "delay_promise \<Rightarrow> request_answer option" where
  "delay_answer p = (case p of DelayPending \<Rightarrow> None | DelayResolved \<Rightarrow> Some Slept | DelayRejected t \<Rightarrow> Some (SleepThrew t))"

inductive timer_step :: "timer_delay \<Rightarrow> timer_delay \<Rightarrow> bool" where
  fired: "fire_timer d = Some d' \<Longrightarrow> timer_step d d'"
| cancelled: "timer_step d (cancel_default clears d)"

text \<open>A settled promise stays as it is, however often the timer fires and the delay is cancelled; a
  cancellation ends the wait at once; without a timer the wait fails for good.\<close>

lemma timer_settles_once:
  assumes "timer_step\<^sup>*\<^sup>* (defaultDelay schedules) d" "delay_answer (dl_promise d) = Some answer" "timer_step\<^sup>*\<^sup>* d d'"
  shows "delay_answer (dl_promise d') = Some answer"
  using assms(3,2)
proof (induction rule: rtranclp_induct)
  case (step x y)
  have "dl_promise y = dl_promise x" if "dl_promise x \<noteq> DelayPending"
    using step.hyps(2) that by cases (auto simp: fire_timer_def cancel_default_def settle_delay_def resolve_promise_def split: if_splits)
  with step show ?case by (cases "dl_promise x") (auto simp: delay_answer_def)
qed

lemma cancel_ends_wait:
  assumes "timer_step\<^sup>*\<^sup>* (defaultDelay True) d"
  shows "delay_answer (dl_promise (cancel_default clears d)) = Some Slept"
proof -
  have "dl_scheduled d \<and> (dl_promise d = (if dl_settled d then DelayResolved else DelayPending))"
    using assms
    by (induction rule: rtranclp_induct)
      (auto simp: defaultDelay_def fire_timer_def cancel_default_def settle_delay_def resolve_promise_def elim!: timer_step.cases split: if_splits)
  then show ?thesis by (simp add: cancel_default_def settle_delay_def resolve_promise_def delay_answer_def)
qed

lemma no_timer_stops_request:
  assumes "timer_step\<^sup>*\<^sup>* (defaultDelay False) d"
  shows "\<exists>answer. delay_answer (dl_promise d) = Some answer
    \<and> request_step policy ajv sessionId retries gone (AwaitSleep k) answer = Some (Settled (Inl (Thrown no_timer_error)))"
proof -
  have "d = defaultDelay False"
    using assms by (induction rule: rtranclp_induct)
      (auto simp: defaultDelay_def fire_timer_def cancel_default_def elim!: timer_step.cases)
  then show ?thesis by (simp add: defaultDelay_def delay_answer_def)
qed

lemma injected_settles_once:
  "delay_answer p = Some answer \<Longrightarrow> delay_answer (sleep_settled thrown p) = Some answer \<and> delay_answer (cancel_injected p) = Some answer"
  by (cases p) (simp_all add: delay_answer_def sleep_settled_def cancel_injected_def resolve_promise_def)

lemma injected_cancelled: "delay_answer (sleep_settled thrown (cancel_injected injectedDelay)) = Some Slept"
  by (simp add: delay_answer_def sleep_settled_def cancel_injected_def resolve_promise_def injectedDelay_def)

end
