(* ===== verification/Framework_Adapters.thy ===== *)
theory Framework_Adapters
  imports Adapter_Controller
begin

text \<open>
  The adapters of the user-interface frameworks (\<open>packages/lit\<close>, \<open>solid\<close>, \<open>svelte\<close>, \<open>preact\<close>,
  \<open>react\<close>, \<open>angular\<close>, \<open>vue\<close>) over the controller of \<open>Adapter_Controller\<close>.  When a framework mounts,
  unmounts, starts or cleans up is an input, and so is everything that happens to the session.  The
  listener an adapter subscribes copies the state of the controller to what its framework shows; it is
  assumed to return, without unmounting the component from within.
\<close>

section \<open>One controller and its view\<close>

record 'v binding =
  bi_controller :: "'v controller"
  bi_shown :: "'v qaraa_state"
  bi_release :: bool

text \<open>The listener is number 0 of its controller, which nobody else sees.\<close>

definition steady :: "'v state_listeners" where
  "steady l s = \<lparr>ar_removes = [], ar_disposes = False, ar_throws = False\<rparr>"

text \<open>What is shown after an event of the controller: what the last call of the listener read.\<close>

definition updated :: "'v controller \<Rightarrow> 'v controller \<Rightarrow> 'v qaraa_state \<Rightarrow> 'v qaraa_state" where
  "updated c c' shown = (case filter (\<lambda>call. fst call = 0) (drop (length (ac_calls c)) (ac_calls c')) of
       [] \<Rightarrow> shown | calls \<Rightarrow> snd (List.last calls))"

definition create_binding :: "'v \<Rightarrow> 'v binding" where
  "create_binding snap = (let c = createAdapterController snap in
     \<lparr>bi_controller = c, bi_shown = ac_state c, bi_release = False\<rparr>)"

text \<open>Connect, show the state, subscribe; what \<open>connect\<close> throws comes out.\<close>

definition attach :: "('v \<Rightarrow> int) \<Rightarrow> 'v list \<Rightarrow> jstring option \<Rightarrow> 'v binding \<Rightarrow> 'v binding \<times> jstring option" where
  "attach revision given thrown b = (case connect revision steady given thrown (bi_controller b) of
       (c, Some e) \<Rightarrow> (b\<lparr>bi_controller := c\<rparr>, Some e)
     | (c, None) \<Rightarrow> (b\<lparr>bi_controller := subscribe_state 0 c, bi_shown := ac_state c, bi_release := True\<rparr>, None))"

definition detach :: "'v binding \<Rightarrow> 'v binding" where
  "detach b = b\<lparr>bi_controller := dispose (if bi_release b then remove_state_listener (bi_controller b) 0 else bi_controller b),
     bi_release := False\<rparr>"

section \<open>The adapters with one controller\<close>

definition hostConnected :: "('v \<Rightarrow> int) \<Rightarrow> 'v list \<Rightarrow> jstring option \<Rightarrow> 'v binding \<Rightarrow> 'v binding \<times> jstring option" where
  "hostConnected revision given thrown b = (if bi_release b then (b, None) else attach revision given thrown b)"

definition hostDisconnected :: "'v binding \<Rightarrow> 'v binding" where
  "hostDisconnected b = detach b"

definition solid_session :: "('v \<Rightarrow> int) \<Rightarrow> bool \<Rightarrow> 'v list \<Rightarrow> jstring option \<Rightarrow> 'v \<Rightarrow> jstring + 'v binding" where
  "solid_session revision owned given thrown snap =
     (if \<not> owned then Inl (lit ''QARAA_SOLID_OWNER_REQUIRED'')
      else (case attach revision given thrown (create_binding snap) of (_, Some e) \<Rightarrow> Inl e | (b, None) \<Rightarrow> Inr b))"

text \<open>React subscribes before the effect that connects runs.\<close>

definition react_mount :: "('v \<Rightarrow> int) \<Rightarrow> 'v list \<Rightarrow> jstring option \<Rightarrow> 'v binding \<Rightarrow> 'v binding \<times> jstring option" where
  "react_mount revision given thrown b =
     (let c = subscribe_state 0 (bi_controller b); (c', e) = connect revision steady given thrown c
      in (b\<lparr>bi_controller := c', bi_shown := updated c c' (ac_state c), bi_release := True\<rparr>, e))"

text \<open>Preact keeps the state with the controller it belongs to.\<close>

definition preact_state :: "nat \<times> 'v qaraa_state \<Rightarrow> nat \<times> 'v controller \<Rightarrow> 'v qaraa_state" where
  "preact_state published current = (if fst published = fst current then snd published else ac_state (snd current))"

section \<open>Events of the controller\<close>

text \<open>What the session, the runtime and the actions of the application do to a controller that its adapter
  keeps to itself.\<close>

inductive driven :: "('v \<Rightarrow> int) \<Rightarrow> 'v controller \<Rightarrow> 'v controller \<Rightarrow> bool" for revision where
  came: "ac_unsubscribe c \<Longrightarrow> driven revision c (acceptSnapshot revision c nxt)"
| ran: "driven revision c (run_accepted revision steady c)"
| began: "driven revision c (fst (action_begin steady c))"
| ended: "0 < ac_actions c \<Longrightarrow> driven revision c (action_end steady error c)"
| closing: "driven revision c (close_begin c)"
| close_sent: "ac_closing c = Disposed \<Longrightarrow> driven revision c (close_session c)"
| close_over: "ac_closing c = AwaitSession \<Longrightarrow> driven revision c (close_end steady c)"

definition drive :: "'v controller \<Rightarrow> 'v binding \<Rightarrow> 'v binding" where
  "drive c' b = b\<lparr>bi_controller := c', bi_shown := updated (bi_controller b) c' (bi_shown b)\<rparr>"

inductive binding_step :: "('v \<Rightarrow> int) \<Rightarrow> 'v binding \<Rightarrow> 'v binding \<Rightarrow> bool" for revision where
  attached: "\<not> bi_release b \<Longrightarrow> binding_step revision b (fst (attach revision given thrown b))"
| host_connected: "binding_step revision b (fst (hostConnected revision given thrown b))"
| react_mounted: "\<not> bi_release b \<Longrightarrow> binding_step revision b (fst (react_mount revision given thrown b))"
| detached: "binding_step revision b (detach b)"
| moved: "driven revision (bi_controller b) c' \<Longrightarrow> binding_step revision b (drive c' b)"

section \<open>A controller behind its adapter\<close>

lemma notify_steady: "foldl (notify_step steady) st ls
    = st\<lparr>ac_calls := ac_calls st @ map (\<lambda>l. (l, ac_state st)) (filter (\<lambda>l. l \<in> set (ac_listeners st)) ls)\<rparr>"
  by (induction ls arbitrary: st) (simp_all add: notify_step_def call_state_listener_def steady_def)

lemma set_state_steady: "set_state steady nxt st
    = st\<lparr>ac_state := nxt, ac_calls := ac_calls st @ map (\<lambda>l. (l, nxt)) (ac_listeners st)\<rparr>"
  by (simp add: set_state_def notify_listeners_def notify_steady filter_id_conv)

lemma driven_step: "driven revision c c' \<Longrightarrow> controller_step revision steady c c'"
  by (induction rule: driven.induct) (auto intro: controller_step.intros)

text \<open>An event leaves the listeners, except for the end of a close, and calls each of them with the new state
  when it changes the state.\<close>

definition follows :: "'v controller \<Rightarrow> 'v controller \<Rightarrow> bool" where
  "follows c c' \<longleftrightarrow> (ac_listeners c' = ac_listeners c \<or> ac_closing c' = ClosedDown \<and> ac_listeners c' = [])
     \<and> ((ac_state c' = ac_state c \<and> ac_calls c' = ac_calls c)
        \<or> ac_calls c' = ac_calls c @ map (\<lambda>l. (l, ac_state c')) (ac_listeners c))
     \<and> (ac_unsubscribe c' \<longrightarrow> ac_unsubscribe c)"

lemma driven_follows: "driven revision c c' \<Longrightarrow> follows c c'"
  by (induction rule: driven.induct)
    (auto simp: follows_def acceptSnapshot_def run_accepted_def action_begin_def action_end_def close_begin_def close_session_def
      close_end_def dispose_def set_state_steady Let_def split: list.split)

lemma updated_none: "ac_calls c' = ac_calls c \<Longrightarrow> updated c c' shown = shown"
  by (simp add: updated_def)

lemma updated_called: "ac_calls c' = ac_calls c @ map (\<lambda>l. (l, s)) [0] \<Longrightarrow> updated c c' shown = s"
  by (simp add: updated_def)

lemma follows_shown:
  assumes "follows c c'" "ac_listeners c = [0]"
  shows "updated c c' (ac_state c) = ac_state c'"
  using assms updated_none updated_called by (fastforce simp: follows_def)

lemma connect_follows:
  "connect revision steady given thrown c = (c', e) \<Longrightarrow> ac_listeners c' = ac_listeners c
     \<and> (ac_state c' = ac_state c \<and> ac_calls c' = ac_calls c \<or> ac_calls c' = ac_calls c @ map (\<lambda>l. (l, ac_state c')) (ac_listeners c))
     \<and> (ac_unsubscribe c' \<longrightarrow> ac_unsubscribe c \<or> e = None) \<and> ac_closed c' = ac_closed c \<and> ac_closing c' = ac_closing c"
proof -
  have accepts: "ac_listeners (foldl (acceptSnapshot revision) c given) = ac_listeners c
      \<and> ac_calls (foldl (acceptSnapshot revision) c given) = ac_calls c \<and> ac_state (foldl (acceptSnapshot revision) c given) = ac_state c
      \<and> ac_unsubscribe (foldl (acceptSnapshot revision) c given) = ac_unsubscribe c
      \<and> ac_closed (foldl (acceptSnapshot revision) c given) = ac_closed c
      \<and> ac_closing (foldl (acceptSnapshot revision) c given) = ac_closing c"
  proof (induction given arbitrary: c)
    case (Cons s given)
    have "ac_listeners (acceptSnapshot revision c s) = ac_listeners c" by (simp add: acceptSnapshot_def)
    with Cons [of "acceptSnapshot revision c s"] show ?case by simp
  qed simp
  show "connect revision steady given thrown c = (c', e) \<Longrightarrow> ?thesis"
    using accepts by (auto simp: connect_def Let_def set_state_steady split: option.splits if_splits)
qed

definition binding_ok :: "('v \<Rightarrow> int) \<Rightarrow> 'v binding \<Rightarrow> bool" where
  "binding_ok revision b \<longleftrightarrow> controller_ok revision (bi_controller b)
     \<and> (bi_release b \<longrightarrow> bi_shown b = ac_state (bi_controller b)
        \<and> (ac_listeners (bi_controller b) = [0] \<or> ac_closing (bi_controller b) = ClosedDown \<and> ac_listeners (bi_controller b) = []))
     \<and> (\<not> bi_release b \<longrightarrow> ac_listeners (bi_controller b) = [] \<and> \<not> ac_unsubscribe (bi_controller b))"

lemma js_set_add_Nil [simp]: "js_set_add x [] = [x]"
  by (simp add: js_set_add_def)

lemma connect_step: "connect revision react given thrown c = (c', e) \<Longrightarrow> controller_step revision react c c'"
  using controller_step.connected [of revision react c given thrown] by simp

lemma attach_ok:
  assumes "binding_ok revision b" "\<not> bi_release b"
  shows "binding_ok revision (fst (attach revision given thrown b))"
proof -
  obtain c e where c: "connect revision steady given thrown (bi_controller b) = (c, e)" by (rule prod.exhaust)
  have "controller_ok revision c" using controller_step_ok [OF connect_step [OF c]] assms(1) by (simp add: binding_ok_def)
  with connect_follows [OF c] c assms show ?thesis
    by (cases e) (auto simp: attach_def binding_ok_def subscribe_state_def)
qed

lemma detach_ok:
  assumes "binding_ok revision b"
  shows "binding_ok revision (detach b)"
proof -
  let ?c = "if bi_release b then remove_state_listener (bi_controller b) 0 else bi_controller b"
  have "controller_ok revision (bi_controller b)" using assms by (simp add: binding_ok_def)
  then have "controller_ok revision ?c" by (simp add: notified_ok [OF remove_notified])
  then have "controller_ok revision (dispose ?c)" by (rule dispose_ok)
  with assms show ?thesis by (auto simp: detach_def binding_ok_def dispose_def remove_state_listener_def)
qed

lemma mount_ok:
  assumes "binding_ok revision b" "\<not> bi_release b"
  shows "binding_ok revision (fst (react_mount revision given thrown b))"
proof -
  let ?c = "subscribe_state 0 (bi_controller b)"
  obtain c e where c: "connect revision steady given thrown ?c = (c, e)" by (rule prod.exhaust)
  have l: "ac_listeners ?c = [0]" using assms by (simp add: binding_ok_def subscribe_state_def)
  have "controller_ok revision ?c" using assms(1) by (simp add: binding_ok_def subscribe_state_def)
  then have "controller_ok revision c" by (rule controller_step_ok [OF connect_step [OF c]])
  moreover have "updated ?c c (ac_state ?c) = ac_state c"
    using connect_follows [OF c] l updated_none [of c ?c] updated_called [of c ?c] by auto
  ultimately show ?thesis
    using c connect_follows [OF c] l by (simp add: react_mount_def Let_def binding_ok_def)
qed

lemma drive_ok:
  assumes "binding_ok revision b" "driven revision (bi_controller b) c'"
  shows "binding_ok revision (drive c' b)"
proof -
  let ?c = "bi_controller b"
  have ok: "controller_ok revision ?c" "controller_ok revision c'"
    using assms controller_step_ok [OF driven_step] by (auto simp: binding_ok_def)
  note f = driven_follows [OF assms(2)]
  consider "\<not> bi_release b" | "bi_release b" "ac_listeners ?c = [0]" | "bi_release b" "ac_closing ?c = ClosedDown" "ac_listeners ?c = []"
    using assms(1) by (auto simp: binding_ok_def)
  then show ?thesis
  proof cases
    case 1
    with assms(1) f ok(2) show ?thesis by (auto simp: binding_ok_def drive_def follows_def)
  next
    case 2
    with assms(1) follows_shown [OF f 2(2)] f ok(2) show ?thesis by (auto simp: binding_ok_def drive_def follows_def)
  next
    case 3
    from closed_step [OF driven_step [OF assms(2)] ok(1) 3(2)] have
      "ac_closing c' = ClosedDown" "ac_state c' = ac_state ?c" "ac_calls c' = ac_calls ?c" by simp_all
    with 3 assms(1) f ok(2) updated_none [of c' ?c] show ?thesis by (auto simp: binding_ok_def drive_def follows_def)
  qed
qed

lemma create_binding_ok: "binding_ok revision (create_binding snap)"
  using controller_start_ok [of revision snap] by (simp add: binding_ok_def create_binding_def Let_def createAdapterController_def)

lemma binding_step_ok:
  assumes "binding_step revision b b'" "binding_ok revision b"
  shows "binding_ok revision b'"
  using assms(1)
proof cases
  case (host_connected given thrown)
  then show ?thesis using attach_ok [OF assms(2)] assms(2) by (simp add: hostConnected_def)
qed (use assms(2) attach_ok mount_ok detach_ok drive_ok in auto)

lemma binding_run_ok: "(binding_step revision)\<^sup>*\<^sup>* b b' \<Longrightarrow> binding_ok revision b \<Longrightarrow> binding_ok revision b'"
  by (induction rule: rtranclp_induct) (auto intro: binding_step_ok)

section \<open>Adapters that change their session\<close>

text \<open>The Angular service and the Vue composable make a new controller for every session; \<open>sb_retired\<close> holds the
  controllers they have let go, which their sessions and actions may still reach.\<close>

record 'v service_binding =
  sb_current :: "'v binding option"
  sb_retired :: "'v controller list"
  sb_signals :: "'v qaraa_state option"

definition service_start :: "'v service_binding" where
  "service_start = \<lparr>sb_current = None, sb_retired = [], sb_signals = None\<rparr>"

definition service_disconnect :: "'v service_binding \<Rightarrow> 'v service_binding" where
  "service_disconnect st = (case sb_current st of None \<Rightarrow> st
     | Some b \<Rightarrow> st\<lparr>sb_current := None, sb_retired := sb_retired st @ [bi_controller (detach b)]\<rparr>)"

definition service_connect :: "('v \<Rightarrow> int) \<Rightarrow> 'v list \<Rightarrow> jstring option \<Rightarrow> 'v \<Rightarrow> 'v service_binding
    \<Rightarrow> 'v service_binding \<times> jstring option" where
  "service_connect revision given thrown snap st =
     (let st1 = service_disconnect st in
      case attach revision given thrown (create_binding snap) of
        (b, Some e) \<Rightarrow> (st1\<lparr>sb_current := Some b\<rparr>, Some e)
      | (b, None) \<Rightarrow> (st1\<lparr>sb_current := Some b, sb_signals := Some (bi_shown b)\<rparr>, None))"

text \<open>The controller the actions go to.\<close>

definition service_active :: "'v service_binding \<Rightarrow> jstring + 'v controller" where
  "service_active st = (case sb_current st of None \<Rightarrow> Inl (lit ''QARAA_SESSION_NOT_CONNECTED'') | Some b \<Rightarrow> Inr (bi_controller b))"

definition service_drive :: "'v controller \<Rightarrow> 'v service_binding \<Rightarrow> 'v service_binding" where
  "service_drive c' st = (case sb_current st of None \<Rightarrow> st
     | Some b \<Rightarrow> st\<lparr>sb_current := Some (drive c' b),
         sb_signals := (if bi_release b then Some (bi_shown (drive c' b)) else sb_signals st)\<rparr>)"

inductive service_step :: "('v \<Rightarrow> int) \<Rightarrow> 'v service_binding \<Rightarrow> 'v service_binding \<Rightarrow> bool" for revision where
  connected: "service_step revision st (fst (service_connect revision given thrown snap st))"
| disconnected: "service_step revision st (service_disconnect st)"
| moved: "sb_current st = Some b \<Longrightarrow> driven revision (bi_controller b) c' \<Longrightarrow> service_step revision st (service_drive c' st)"
| retired_moved: "n < length (sb_retired st) \<Longrightarrow> driven revision (sb_retired st ! n) c'
    \<Longrightarrow> service_step revision st (st\<lparr>sb_retired := (sb_retired st)[n := c']\<rparr>)"

definition let_go :: "('v \<Rightarrow> int) \<Rightarrow> 'v controller \<Rightarrow> bool" where
  "let_go revision c \<longleftrightarrow> controller_ok revision c \<and> ac_listeners c = [] \<and> \<not> ac_unsubscribe c"

definition swap_ok :: "('v \<Rightarrow> int) \<Rightarrow> 'v service_binding \<Rightarrow> bool" where
  "swap_ok revision st \<longleftrightarrow> list_all (let_go revision) (sb_retired st)
     \<and> (case sb_current st of None \<Rightarrow> True
        | Some b \<Rightarrow> binding_ok revision b \<and> (bi_release b \<longrightarrow> sb_signals st = Some (bi_shown b)))"

lemma detach_let_go: "binding_ok revision b \<Longrightarrow> let_go revision (bi_controller (detach b))"
  using detach_ok [of revision b] by (auto simp: let_go_def binding_ok_def detach_def)

lemma swap_disconnect_ok: "swap_ok revision st \<Longrightarrow> swap_ok revision (service_disconnect st)"
  using detach_let_go by (auto simp: swap_ok_def service_disconnect_def split: option.splits)

lemma disconnect_current [simp]: "sb_current (service_disconnect st) = None"
  by (simp add: service_disconnect_def split: option.split)

lemma swap_step_ok:
  assumes "service_step revision st st'" "swap_ok revision st"
  shows "swap_ok revision st'"
  using assms(1)
proof cases
  case (connected given thrown snap)
  have "\<not> bi_release (create_binding snap)" by (simp add: create_binding_def Let_def)
  then have "binding_ok revision (fst (attach revision given thrown (create_binding snap)))"
    by (rule attach_ok [OF create_binding_ok])
  moreover have "bi_release b = False" if "attach revision given thrown (create_binding snap) = (b, Some e)" for b e
    using that by (auto simp: attach_def create_binding_def Let_def split: prod.splits option.splits)
  ultimately show ?thesis
    using swap_disconnect_ok [OF assms(2)] connected
    by (auto simp: service_connect_def Let_def swap_ok_def split: prod.splits option.splits)
next
  case disconnected
  then show ?thesis using swap_disconnect_ok [OF assms(2)] by simp
next
  case (moved b c')
  then have "binding_ok revision (drive c' b)" using drive_ok assms(2) by (auto simp: swap_ok_def)
  moreover have "bi_release (drive c' b) = bi_release b" by (simp add: drive_def)
  ultimately show ?thesis using moved assms(2) by (simp add: service_drive_def swap_ok_def)
next
  case (retired_moved n c')
  have "let_go revision (sb_retired st ! n)" using assms(2) retired_moved(2) by (simp add: swap_ok_def list_all_length)
  with driven_follows [OF retired_moved(3)] controller_step_ok [OF driven_step [OF retired_moved(3)]]
  have "let_go revision c'" by (auto simp: let_go_def follows_def)
  with assms(2) retired_moved show ?thesis
    by (auto simp: swap_ok_def list_all_length nth_list_update split: option.splits)
qed

lemma service_run_ok: "(service_step revision)\<^sup>*\<^sup>* st st' \<Longrightarrow> swap_ok revision st \<Longrightarrow> swap_ok revision st'"
  by (induction rule: rtranclp_induct) (auto intro: swap_step_ok)

section \<open>Properties\<close>

lemma balanced_subscriptions: "controller_ok revision c \<Longrightarrow> subscriptions (ac_session c) = (if ac_unsubscribe c then 1 else 0)"
  by (simp add: controller_ok_def balanced_def)

lemma close_only_closed: "controller_ok revision c \<Longrightarrow> CloseCall \<in> set (ac_session c) \<Longrightarrow> ac_closed c"
  by (auto simp: controller_ok_def close_calls_def split: if_splits)

text \<open>C40: while an adapter with one controller (Lit, Solid, Svelte, Preact, React) is attached it shows the
  state of its controller, whatever the session, the actions and the application do, close included; when
  it is detached it holds no subscription of the session; and neither attaching nor detaching closes the
  session: only the application does.\<close>

theorem bindings_mirror_and_release:
  assumes "(binding_step revision)\<^sup>*\<^sup>* (create_binding snap) b"
  shows "(bi_release b \<longrightarrow> bi_shown b = ac_state (bi_controller b))
    \<and> (\<not> bi_release b \<longrightarrow> subscriptions (ac_session (bi_controller b)) = 0 \<and> ac_listeners (bi_controller b) = [])
    \<and> (CloseCall \<in> set (ac_session (bi_controller b)) \<longrightarrow> ac_closed (bi_controller b))
    \<and> ac_closed (bi_controller (detach b)) = ac_closed (bi_controller b)
    \<and> ac_closed (bi_controller (fst (attach revision given thrown b))) = ac_closed (bi_controller b)"
proof -
  have ok: "binding_ok revision b" using binding_run_ok [OF assms create_binding_ok] .
  then have c: "controller_ok revision (bi_controller b)" by (simp add: binding_ok_def)
  have "ac_closed (bi_controller (detach b)) = ac_closed (bi_controller b)"
    by (simp add: detach_def dispose_def remove_state_listener_def)
  moreover have "ac_closed (bi_controller (fst (attach revision given thrown b))) = ac_closed (bi_controller b)"
    using connect_follows [of revision given thrown "bi_controller b"]
    by (cases "connect revision steady given thrown (bi_controller b)")
      (auto simp: attach_def subscribe_state_def split: option.splits)
  ultimately show ?thesis
    using ok balanced_subscriptions [OF c] close_only_closed [OF c] by (auto simp: binding_ok_def)
qed

text \<open>An adapter that changes its session (Angular, Vue) shows the state of the current one while it is
  connected, and holds no subscription of any session it has left.\<close>

theorem services_swap_cleanly:
  assumes "(service_step revision)\<^sup>*\<^sup>* service_start st"
  shows "(\<forall>c \<in> set (sb_retired st). subscriptions (ac_session c) = 0 \<and> ac_listeners c = [])
    \<and> (\<forall>b. sb_current st = Some b \<longrightarrow> bi_release b \<longrightarrow> sb_signals st = Some (ac_state (bi_controller b)))
    \<and> (sb_current st = None \<longleftrightarrow> service_active st = Inl (lit ''QARAA_SESSION_NOT_CONNECTED''))"
proof -
  have ok: "swap_ok revision st" using service_run_ok [OF assms] by (simp add: swap_ok_def service_start_def)
  have "subscriptions (ac_session c) = 0 \<and> ac_listeners c = []" if "c \<in> set (sb_retired st)" for c
  proof -
    have "let_go revision c" using ok that by (simp add: swap_ok_def list_all_iff)
    with balanced_subscriptions [of revision c] show ?thesis by (simp add: let_go_def)
  qed
  with ok show ?thesis by (auto simp: swap_ok_def binding_ok_def service_active_def split: option.splits)
qed

text \<open>A session hands over revision 3 while the adapter attaches at revision 2.\<close>

definition sample_binding :: "int binding" where
  "sample_binding = (let b = fst (attach (\<lambda>v. v) [3] None (create_binding 2))
     in drive (run_accepted (\<lambda>v. v) steady (bi_controller b)) b)"

lemma sample_binding_run: "(binding_step (\<lambda>v. v))\<^sup>*\<^sup>* (create_binding 2) sample_binding"
proof -
  let ?b = "fst (attach (\<lambda>v. v) [3] None (create_binding (2::int)))"
  have "(binding_step (\<lambda>v. v))\<^sup>*\<^sup>* (create_binding 2) ?b"
    by (rule r_into_rtranclp, rule attached) (simp add: create_binding_def Let_def)
  from rtranclp.rtrancl_into_rtrancl [OF this binding_step.moved [OF driven.ran]] show ?thesis
    by (simp only: sample_binding_def Let_def)
qed

theorem bindings_mirror_and_release_witness:
  "bi_release sample_binding \<and> qs_snapshot (bi_shown sample_binding) = 3
     \<and> bi_shown sample_binding = ac_state (bi_controller sample_binding)"
proof -
  have "bi_release sample_binding \<and> qs_snapshot (bi_shown sample_binding) = 3" by code_simp
  with bindings_mirror_and_release [OF sample_binding_run] show ?thesis by simp
qed

definition sample_swap :: "int service_binding" where
  "sample_swap = fst (service_connect (\<lambda>v. v) [5] None 5 (fst (service_connect (\<lambda>v. v) [2] None 2 service_start)))"

theorem services_swap_cleanly_witness:
  "length (sb_retired sample_swap) = 1 \<and> (\<forall>c \<in> set (sb_retired sample_swap). subscriptions (ac_session c) = 0)
     \<and> map_option qs_snapshot (sb_signals sample_swap) = Some 5"
proof -
  have "(service_step (\<lambda>v. v))\<^sup>*\<^sup>* service_start (fst (service_connect (\<lambda>v. v) [2] None (2 :: int) service_start))"
    by (rule r_into_rtranclp, rule connected)
  from rtranclp.rtrancl_into_rtrancl [OF this connected] have "(service_step (\<lambda>v. v))\<^sup>*\<^sup>* service_start sample_swap"
    unfolding sample_swap_def .
  moreover have "length (sb_retired sample_swap) = 1 \<and> map_option qs_snapshot (sb_signals sample_swap) = Some 5" by code_simp
  ultimately show ?thesis using services_swap_cleanly by blast
qed

end
