(* ===== verification/Adapter_Testkit.thy ===== *)
theory Adapter_Testkit
  imports Framework_Adapters
begin

text \<open>
  \<open>packages/adapter-testkit/src/index.ts\<close>: the fake session and the contract cases the repository
  runs against every adapter, over the adapters of \<open>Framework_Adapters\<close>.  A snapshot is its revision.
  Waiting for a promise runs the snapshots that are queued.
\<close>

section \<open>The fake session\<close>

record fake_session =
  fk_subscribeCount :: nat
  fk_unsubscribeCount :: nat
  fk_submitCount :: nat
  fk_resetCount :: nat
  fk_closeCount :: nat
  fk_submitFailure :: "jstring option"
  fk_resetFailure :: "jstring option"
  fk_listening :: bool
  fk_revision :: int

definition FakeQaraaSession :: fake_session where
  "FakeQaraaSession = \<lparr>fk_subscribeCount = 0, fk_unsubscribeCount = 0, fk_submitCount = 0, fk_resetCount = 0, fk_closeCount = 0,
     fk_submitFailure = None, fk_resetFailure = None, fk_listening = False, fk_revision = 0\<rparr>"

definition fake_subscribe :: "fake_session \<Rightarrow> fake_session" where
  "fake_subscribe s = s\<lparr>fk_subscribeCount := fk_subscribeCount s + 1, fk_listening := True\<rparr>"

definition fake_unsubscribe :: "fake_session \<Rightarrow> fake_session" where
  "fake_unsubscribe s = s\<lparr>fk_unsubscribeCount := fk_unsubscribeCount s + 1, fk_listening := False\<rparr>"

definition fake_submit :: "fake_session \<Rightarrow> fake_session \<times> (jstring + int)" where
  "fake_submit s = (s\<lparr>fk_submitCount := fk_submitCount s + 1\<rparr>,
     case fk_submitFailure s of Some e \<Rightarrow> Inl e | None \<Rightarrow> Inr (fk_revision s))"

definition fake_reset :: "fake_session \<Rightarrow> fake_session \<times> (jstring + int)" where
  "fake_reset s = (s\<lparr>fk_resetCount := fk_resetCount s + 1\<rparr>,
     case fk_resetFailure s of Some e \<Rightarrow> Inl e | None \<Rightarrow> Inr (fk_revision s))"

definition fake_close :: "fake_session \<Rightarrow> fake_session" where
  "fake_close s = s\<lparr>fk_closeCount := fk_closeCount s + 1\<rparr>"

section \<open>A harness\<close>

record harness =
  hn_session :: fake_session
  hn_binding :: "int binding"

text \<open>What the adapter did to the session since \<open>old\<close>.\<close>

fun fake_call :: "fake_session \<Rightarrow> session_call \<Rightarrow> fake_session" where
  "fake_call s SubscribeCall = fake_subscribe s"
| "fake_call s ReleaseCall = fake_unsubscribe s"
| "fake_call s ActionCall = s"
| "fake_call s CloseCall = fake_close s"

definition with_binding :: "int binding \<Rightarrow> harness \<Rightarrow> harness" where
  "with_binding b h = \<lparr>hn_session = foldl fake_call (hn_session h)
     (drop (length (ac_session (bi_controller (hn_binding h)))) (ac_session (bi_controller b))), hn_binding = b\<rparr>"

text \<open>The ways an adapter mounts: with the subscription before or after the connection.\<close>

definition harness_mount :: "bool \<Rightarrow> fake_session \<Rightarrow> harness" where
  "harness_mount early s = (let b = create_binding (fk_revision s); h = \<lparr>hn_session = s, hn_binding = b\<rparr> in
     with_binding (fst (if early then react_mount id [fk_revision s] None b else attach id [fk_revision s] None b)) h)"

fun run_queued :: "nat \<Rightarrow> int binding \<Rightarrow> int binding" where
  "run_queued 0 b = b"
| "run_queued (Suc n) b = run_queued n (drive (run_accepted id steady (bi_controller b)) b)"

definition harness_flush :: "harness \<Rightarrow> harness" where
  "harness_flush h = with_binding (run_queued (length (ac_pending (bi_controller (hn_binding h)))) (hn_binding h)) h"

text \<open>\<open>emit\<close>: the listener of the session is \<open>acceptSnapshot\<close> of the controller.\<close>

definition harness_emit :: "int \<Rightarrow> harness \<Rightarrow> harness" where
  "harness_emit revision h = (let s = (hn_session h)\<lparr>fk_revision := revision\<rparr>; b = hn_binding h in
     if fk_listening s then with_binding (drive (acceptSnapshot id (bi_controller b) revision) b) (h\<lparr>hn_session := s\<rparr>)
     else h\<lparr>hn_session := s\<rparr>)"

definition harness_action :: "(fake_session \<Rightarrow> fake_session \<times> (jstring + int)) \<Rightarrow> harness \<Rightarrow> harness \<times> (jstring + int)" where
  "harness_action act h = (case action_begin steady (bi_controller (hn_binding h)) of
       (c, Some e) \<Rightarrow> (with_binding (drive c (hn_binding h)) h, Inl e)
     | (c, None) \<Rightarrow>
         let h1 = with_binding (drive c (hn_binding h)) h; (s, result) = act (hn_session h1);
             error = (case result of Inl e \<Rightarrow> Some e | Inr _ \<Rightarrow> None);
             h2 = h1\<lparr>hn_session := s\<rparr>
         in (with_binding (drive (action_end steady error (bi_controller (hn_binding h2))) (hn_binding h2)) h2, result))"

definition harness_unmount :: "harness \<Rightarrow> harness" where
  "harness_unmount h = with_binding (detach (hn_binding h)) h"

definition readRevision :: "harness \<Rightarrow> int" where
  "readRevision h = qs_snapshot (bi_shown (hn_binding h))"

section \<open>The contract cases\<close>

definition adapterContractCases :: "bool \<Rightarrow> jstring + unit" where
  "adapterContractCases early =
     (let h1 = harness_flush (harness_mount early FakeQaraaSession);
          h2 = harness_flush (harness_emit 1 (harness_emit 2 h1))
      in if readRevision h2 \<noteq> 2 then Inl (lit ''adapter accepted a stale revision'')
      else
        let failing = h2\<lparr>hn_session := (hn_session h2)\<lparr>fk_submitFailure := Some (lit ''submit failed'')\<rparr>\<rparr>;
            (h3, submitted) = harness_action fake_submit failing
        in case submitted of
             Inr _ \<Rightarrow> Inl (lit ''adapter swallowed submit failure'')
           | Inl e \<Rightarrow>
               if e \<noteq> lit ''submit failed'' then Inl (lit ''adapter changed submit failure'')
               else
                 let h4 = h3\<lparr>hn_session := (hn_session h3)\<lparr>fk_submitFailure := None\<rparr>\<rparr>
                 in case harness_action fake_reset h4 of
                      (_, Inl e) \<Rightarrow> Inl e
                    | (h5, Inr _) \<Rightarrow>
                        if fk_resetCount (hn_session h5) \<noteq> 1 then Inl (lit ''adapter did not forward reset'')
                        else
                          let s = hn_session (harness_unmount h5)
                          in if fk_subscribeCount s < 1 \<or> fk_unsubscribeCount s \<noteq> fk_subscribeCount s
                             then Inl (lit ''adapter leaked its subscription'')
                             else if fk_closeCount s \<noteq> 0 then Inl (lit ''adapter implicitly closed the session'')
                             else Inr ())"

fun cleanup_cycles :: "bool \<Rightarrow> nat \<Rightarrow> nat \<Rightarrow> jstring + unit" where
  "cleanup_cycles early cycle 0 = Inr ()"
| "cleanup_cycles early cycle (Suc n) =
     (let s = hn_session (harness_unmount (harness_flush (harness_mount early FakeQaraaSession)))
      in if fk_subscribeCount s < 1 \<or> fk_unsubscribeCount s \<noteq> fk_subscribeCount s \<or> fk_closeCount s \<noteq> 0
         then Inl (lit ''adapter lifecycle leak at cycle '' @ dec (cycle + 1))
         else cleanup_cycles early (cycle + 1) n)"

definition adapterCleanupCycles :: "bool \<Rightarrow> nat \<Rightarrow> jstring + unit" where
  "adapterCleanupCycles early n = cleanup_cycles early 0 n"

section \<open>The adapters keep the contract\<close>

lemma contract_cases_pass: "adapterContractCases True = Inr ()" "adapterContractCases False = Inr ()"
  by code_simp+

definition clean_cycle :: "bool \<Rightarrow> bool" where
  "clean_cycle early = (let s = hn_session (harness_unmount (harness_flush (harness_mount early FakeQaraaSession)))
   in fk_subscribeCount s = 1 \<and> fk_unsubscribeCount s = 1 \<and> fk_closeCount s = 0)"

lemma one_cycle: "clean_cycle True" "clean_cycle False"
  by code_simp+

text \<open>The adapters pass the contract cases of the repository, and any number of mounts and unmounts leaves the
  session with every subscription released and open.\<close>

lemma adapters_keep_contract: "adapterContractCases early = Inr () \<and> adapterCleanupCycles early n = Inr ()"
proof -
  have "cleanup_cycles early cycle n = Inr ()" for cycle
    using one_cycle by (cases early; induction n arbitrary: cycle) (simp_all add: clean_cycle_def Let_def)
  then show ?thesis using contract_cases_pass by (cases early) (simp_all add: adapterCleanupCycles_def)
qed

end
