(* ===== verification/Conformance_Compare.thy ===== *)
theory Conformance_Compare
  imports Js_Value "HOL-Library.Char_ord" "HOL-Library.List_Lexorder"
begin

text \<open>
  The comparison of the conformance results of the SDKs (\<open>scripts/compare-conformance-results.mjs\<close>)
  and the canonical form by which \<open>scripts/verify-schema-sync.mjs\<close> compares schemas.  The values come
  from \<open>JSON.parse\<close>: two of them share no object, and a negative zero, which \<open>Object.is\<close> tells
  from zero, is not a number of the model.
\<close>

section \<open>Objects as the comparison reads them\<close>

text \<open>\<open>Object.keys(value).sort()\<close>.\<close>

definition object_keys :: "(string \<times> js) list \<Rightarrow> string list" where
  "object_keys fs = sort (remdups (map fst fs))"

text \<open>The operator \<open>in\<close> and a read of a field follow the prototype: every object has these.  What
  \<open>__proto__\<close> gives is an object without enumerable fields, the others are functions.\<close>

definition inherited_names :: "string list" where
  "inherited_names = [''constructor'', ''hasOwnProperty'', ''isPrototypeOf'', ''propertyIsEnumerable'',
     ''toLocaleString'', ''toString'', ''valueOf'', ''__defineGetter__'', ''__defineSetter__'',
     ''__lookupGetter__'', ''__lookupSetter__'', ''__proto__'']"

definition in_object :: "string \<Rightarrow> (string \<times> js) list \<Rightarrow> bool" where
  "in_object k fs \<longleftrightarrow> k \<in> set (map fst fs) \<or> k \<in> set inherited_names"

definition read_field :: "(string \<times> js) list \<Rightarrow> string \<Rightarrow> js" where
  "read_field fs k = (case map_of fs k of Some v \<Rightarrow> v
     | None \<Rightarrow> if k = ''__proto__'' then JObj [] else if k \<in> set inherited_names then JFun else JUndefined)"

text \<open>\<open>Object.is\<close> for values that share no object.\<close>

definition same_value :: "js \<Rightarrow> js \<Rightarrow> bool" where
  "same_value a b \<longleftrightarrow> a = b \<and> \<not> isRecord a \<and> a \<noteq> JFun"

lemma object_keys_set [simp]: "set (object_keys fs) = fst ` set fs"
  by (simp add: object_keys_def)

lemma size_read_field [termination_simp]: "k \<in> fst ` set fs \<Longrightarrow> size (read_field fs k) < size (JObj fs)"
proof -
  assume "k \<in> fst ` set fs"
  then obtain v where v: "map_of fs k = Some v" by (metis map_of_eq_None_iff not_Some_eq)
  then have "size v \<le> size_list (size_prod (\<lambda>_. 0) size) fs"
    by (intro size_list_estimation' [OF map_of_SomeD [OF v]]) simp
  with v show ?thesis by (simp add: read_field_def)
qed

lemma size_element: "x \<in> set xs \<Longrightarrow> size x < size (JArr xs)"
  using size_list_estimation' [of x xs "size x" size] by simp

section \<open>The comparison of two values\<close>

text \<open>The messages, with the values they print.\<close>

datatype difference =
    ExpectedArray jstring js
  | LengthDiffers jstring nat nat
  | ElementMissing jstring
  | ExpectedObject jstring js
  | FieldMissing jstring
  | FieldUnexpected jstring
  | ValueDiffers jstring js js
  | VersionDiffers jstring js js
  | FixtureMissing jstring jstring
  | FixtureUnexpected jstring jstring

definition element_path :: "jstring \<Rightarrow> nat \<Rightarrow> jstring" where
  "element_path path i = path @ lit ''['' @ dec i @ lit '']''"

definition field_path :: "jstring \<Rightarrow> string \<Rightarrow> jstring" where
  "field_path path k = path @ lit ''.'' @ lit k"

function compareValue :: "js \<Rightarrow> js \<Rightarrow> jstring \<Rightarrow> difference list" where
  "compareValue expected actual path =
     (if same_value expected actual then []
      else case expected of
        JArr es \<Rightarrow> (case actual of
            JArr as \<Rightarrow>
              (if length es \<noteq> length as then [LengthDiffers (path @ lit ''.length'') (length es) (length as)] else [])
              @ concat (map (\<lambda>i. if length as \<le> i then [ElementMissing (element_path path i)]
                   else compareValue (es ! i) (as ! i) (element_path path i)) [0..<length es])
          | _ \<Rightarrow> [ExpectedArray path actual])
      | JObj fs \<Rightarrow> (case actual of
            JObj gs \<Rightarrow>
              concat (map (\<lambda>k. if \<not> in_object k gs then [FieldMissing (field_path path k)]
                   else compareValue (read_field fs k) (read_field gs k) (field_path path k)) (object_keys fs))
              @ concat (map (\<lambda>k. if \<not> in_object k fs then [FieldUnexpected (field_path path k)] else [])
                   (object_keys gs))
          | _ \<Rightarrow> [ExpectedObject path actual])
      | _ \<Rightarrow> [ValueDiffers path expected actual])"
  by pat_completeness auto
termination
proof (relation "measure (\<lambda>(expected, actual, path). size expected)", goal_cases)
  case (2 expected actual path es as i)
  then show ?case using size_element [of "es ! i" es] by simp
next
  case (3 expected actual path fs gs k)
  then show ?case using size_read_field [of k fs] by simp
qed simp

declare compareValue.simps [simp del]

section \<open>The canonical form\<close>

text \<open>\<open>Object.fromEntries\<close> puts names that are array indices first, in both of two forms alike.\<close>

function canonicalJson :: "js \<Rightarrow> js" where
  "canonicalJson value = (case value of
      JArr xs \<Rightarrow> JArr (map canonicalJson xs)
    | JObj fs \<Rightarrow> JObj (map (\<lambda>k. (k, canonicalJson (read_field fs k))) (object_keys fs))
    | _ \<Rightarrow> value)"
  by pat_completeness auto
termination
proof (relation "measure size", goal_cases)
  case (2 v xs x)
  then show ?case using size_element [of x xs] by simp
next
  case (3 v fs k)
  then show ?case using size_read_field [of k fs] by simp
qed simp

declare canonicalJson.simps [simp del]

lemmas canonical_cases = canonicalJson.simps [of "JArr xs" for xs] canonicalJson.simps [of "JObj fs" for fs]
  canonicalJson.simps [of "JStr s" for s] canonicalJson.simps [of "JNum n" for n]
  canonicalJson.simps [of "JBool b" for b] canonicalJson.simps [of JNull]
  canonicalJson.simps [of JUndefined] canonicalJson.simps [of JFun]

text \<open>Values without functions whose names no object inherits.\<close>

fun ordinary :: "js \<Rightarrow> bool" where
  "ordinary (JArr xs) = list_all ordinary xs"
| "ordinary (JObj fs) = list_all (\<lambda>f. fst f \<notin> set inherited_names \<and> ordinary (snd f)) fs"
| "ordinary JFun = False"
| "ordinary _ = True"

lemma ordinary_read: "ordinary (JObj fs) \<Longrightarrow> k \<in> fst ` set fs \<Longrightarrow> ordinary (read_field fs k)"
  by (auto simp: read_field_def list_all_iff dest: map_of_SomeD split: option.splits)
    (force dest: map_of_SomeD)+

lemma ordinary_in_object: "ordinary (JObj fs) \<Longrightarrow> k \<in> fst ` set gs \<Longrightarrow> ordinary (JObj gs)
     \<Longrightarrow> in_object k fs \<longleftrightarrow> k \<in> fst ` set fs"
  by (auto simp: in_object_def list_all_iff)

text \<open>Two field lists have the same canonical form when they name the same fields with the same values.\<close>

lemma object_keys_eq: "object_keys fs = object_keys gs \<longleftrightarrow> fst ` set fs = fst ` set gs"
proof
  assume "fst ` set fs = fst ` set gs"
  then show "object_keys fs = object_keys gs"
    unfolding object_keys_def by (intro sorted_distinct_set_unique) simp_all
qed (metis object_keys_set)

lemma canonical_objects:
  "canonicalJson (JObj fs) = canonicalJson (JObj gs) \<longleftrightarrow> fst ` set fs = fst ` set gs
     \<and> (\<forall>k \<in> fst ` set fs. canonicalJson (read_field fs k) = canonicalJson (read_field gs k))"
proof -
  have "map (\<lambda>k. (k, f k)) ks = map (\<lambda>k. (k, g k)) ks' \<longleftrightarrow> ks = ks' \<and> (\<forall>k \<in> set ks. f k = g k)"
    for f g :: "string \<Rightarrow> js" and ks ks'
    by (induction ks arbitrary: ks') (auto simp: Cons_eq_map_conv map_eq_Cons_conv)
  then show ?thesis by (simp add: canonical_cases object_keys_eq)
qed

lemma canonical_shape: "isArray (canonicalJson v) = isArray v" "isRecord (canonicalJson v) = isRecord v"
  "\<not> isRecord v \<Longrightarrow> canonicalJson v = v"
  by (cases v; simp add: canonical_cases)+

lemma canonical_scalar: "\<not> isRecord v \<Longrightarrow> canonicalJson w = v \<longleftrightarrow> w = v"
  by (cases w) (auto simp: canonical_cases)

lemma compare_scalar: "\<not> isRecord v \<Longrightarrow> v \<noteq> JFun \<Longrightarrow> compareValue v w path = [] \<longleftrightarrow> v = w"
  by (cases v; subst compareValue.simps) (auto simp: same_value_def)

lemma concat_eq_Nil: "concat (map f xs) = [] \<longleftrightarrow> (\<forall>x \<in> set xs. f x = [])"
  by (induction xs) auto

lemma concat_if_eq_Nil:
  "concat (map (\<lambda>x. if P x then [d x] else g x) xs) = [] \<longleftrightarrow> (\<forall>x \<in> set xs. \<not> P x \<and> g x = [])"
  by (induction xs) auto

text \<open>The comparison is silent exactly on values with the same canonical form.\<close>

theorem compareValue_decides:
  assumes "ordinary expected" "ordinary actual"
  shows "compareValue expected actual path = [] \<longleftrightarrow> canonicalJson expected = canonicalJson actual"
  using assms
proof (induction expected actual path rule: compareValue.induct)
  case (1 expected actual path)
  show ?case
  proof (cases expected)
    case (JArr es)
    show ?thesis
    proof (cases actual)
      case as: (JArr as)
      have IH: "i < length es \<Longrightarrow> i < length as \<Longrightarrow> compareValue (es ! i) (as ! i) (element_path path i) = []
          \<longleftrightarrow> canonicalJson (es ! i) = canonicalJson (as ! i)" for i
        using "1.IH"(1) [OF _ JArr as] "1.prems" as JArr by (simp add: same_value_def list_all_length)
      have "compareValue expected actual path = [] \<longleftrightarrow> length es = length as
          \<and> (\<forall>i < length es. compareValue (es ! i) (as ! i) (element_path path i) = [])"
        by (auto simp: compareValue.simps [of "JArr es"] JArr as same_value_def concat_eq_Nil not_le)
      also have "\<dots> \<longleftrightarrow> map canonicalJson es = map canonicalJson as"
        using IH by (auto simp: list_eq_iff_nth_eq [of "map canonicalJson es"])
      finally show ?thesis by (simp add: canonical_cases JArr as)
    qed (simp_all add: compareValue.simps [of "JArr es"] JArr same_value_def canonical_cases)
  next
    case (JObj fs)
    show ?thesis
    proof (cases actual)
      case gs: (JObj gs)
      have IH: "k \<in> fst ` set fs \<Longrightarrow> k \<in> fst ` set gs \<Longrightarrow>
          compareValue (read_field fs k) (read_field gs k) (field_path path k) = []
            \<longleftrightarrow> canonicalJson (read_field fs k) = canonicalJson (read_field gs k)" for k
        using "1.IH"(2) [OF _ JObj gs] "1.prems" ordinary_read gs JObj by (simp add: same_value_def in_object_def)
      have o: "ordinary (JObj fs)" "ordinary (JObj gs)" using "1.prems" JObj gs by auto
      have "compareValue expected actual path = [] \<longleftrightarrow>
          (\<forall>k \<in> fst ` set fs. in_object k gs \<and> compareValue (read_field fs k) (read_field gs k) (field_path path k) = [])
          \<and> (\<forall>k \<in> fst ` set gs. in_object k fs)"
        unfolding JObj gs compareValue.simps [of "JObj fs"]
        by (simp add: same_value_def concat_if_eq_Nil del: concat_eq_Nil_conv)
      also have "\<dots> \<longleftrightarrow> fst ` set fs = fst ` set gs
          \<and> (\<forall>k \<in> fst ` set fs. canonicalJson (read_field fs k) = canonicalJson (read_field gs k))"
      proof -
        have i: "k \<in> fst ` set fs \<Longrightarrow> in_object k gs \<longleftrightarrow> k \<in> fst ` set gs"
          "k \<in> fst ` set gs \<Longrightarrow> in_object k fs \<longleftrightarrow> k \<in> fst ` set fs" for k
          using ordinary_in_object [OF o(2) _ o(1)] ordinary_in_object [OF o(1) _ o(2)] by simp_all
        have sets: "(\<forall>k \<in> K. P k \<and> Q k) \<and> (\<forall>k \<in> L. R k) \<longleftrightarrow> K = L \<and> (\<forall>k \<in> K. S k)"
          if "\<And>k. k \<in> K \<Longrightarrow> P k \<longleftrightarrow> k \<in> L" "\<And>k. k \<in> L \<Longrightarrow> R k \<longleftrightarrow> k \<in> K"
            "\<And>k. k \<in> K \<Longrightarrow> k \<in> L \<Longrightarrow> Q k \<longleftrightarrow> S k" for K L :: "string set" and P Q R S
          using that by blast
        show ?thesis by (rule sets) (use i IH in simp_all)
      qed
      finally show ?thesis by (simp only: canonical_objects JObj gs)
    qed (simp_all add: compareValue.simps [of "JObj fs"] JObj same_value_def canonical_cases)
  qed (use "1.prems" compare_scalar [of expected actual] canonical_shape(3) [of expected]
      canonical_scalar [of expected actual] in auto)
qed

text \<open>Names that every object inherits escape it: an unexpected field of such a name is not reported.\<close>

lemma inherited_field_is_missed:
  "compareValue (JObj []) (JObj [(''constructor'', js_int 1)]) path = []"
  "canonicalJson (JObj []) \<noteq> canonicalJson (JObj [(''constructor'', js_int 1)])"
  by (simp_all add: compareValue.simps same_value_def canonical_objects in_object_def inherited_names_def
      object_keys_def)

section \<open>The comparison of results\<close>

record conformance_result =
  cr_language :: jstring
  cr_protocolVersion :: js
  cr_cases :: "js list"

text \<open>The document of a file; one that is falsy has neither field.\<close>

definition load_result :: "jstring \<Rightarrow> js \<Rightarrow> js_error + conformance_result" where
  "load_result path v =
     (if \<not> isArray (js_get v ''cases'') \<or> \<not> isString (js_get v ''language'')
      then Inl (TypeError (path @ lit '': invalid conformance result''))
      else Inr \<lparr>cr_language = the_str (js_get v ''language''), cr_protocolVersion = js_get v ''protocolVersion'',
        cr_cases = the_elems (js_get v ''cases'')\<rparr>)"

text \<open>The rows of one result: each names its fixture once, and a fixture of the manifest.\<close>

definition check_row :: "jstring \<Rightarrow> jstring list option \<Rightarrow> jstring js_set \<Rightarrow> js \<Rightarrow> js_error + jstring js_set" where
  "check_row language known seen row =
     (if row = JNull \<or> row = JUndefined then fail ''Cannot read properties''
      else let fixture = js_get row ''fixture'' in
        if \<not> isString fixture then Inl (TypeError (language @ lit '': fixture must be a string''))
        else if the_str fixture \<in> set seen
          then Inl (TypeError (language @ lit '': duplicate fixture '' @ the_str fixture))
        else if known \<noteq> None \<and> the_str fixture \<notin> set (the known)
          then Inl (TypeError (language @ lit '': unknown fixture '' @ the_str fixture))
        else Inr (js_set_add (the_str fixture) seen))"

definition check_known :: "jstring \<Rightarrow> jstring js_set \<Rightarrow> unit \<Rightarrow> jstring \<Rightarrow> js_error + unit" where
  "check_known language seen u fixture =
     (if fixture \<notin> set seen then Inl (TypeError (language @ lit '': missing fixture '' @ fixture)) else Inr ())"

definition check_result ::
  "jstring list option \<Rightarrow> jstring js_set \<Rightarrow> conformance_result \<Rightarrow> js_error + jstring js_set" where
  "check_result known languages result =
     (let language = cr_language result in
      if language \<in> set languages then Inl (TypeError (lit ''duplicate language '' @ language))
      else ebind (for_each (check_row language known) [] (cr_cases result)) (\<lambda>seen.
        ebind (case known of None \<Rightarrow> Inr () | Some fixtures \<Rightarrow> for_each (check_known language seen) () fixtures) (\<lambda>_.
          Inr (js_set_add language languages))))"

definition row_fixture :: "js \<Rightarrow> jstring" where
  "row_fixture row = the_str (js_get row ''fixture'')"

definition fixture_rows :: "conformance_result \<Rightarrow> (jstring, js) js_map" where
  "fixture_rows result = js_map_of (map (\<lambda>row. (row_fixture row, row)) (cr_cases result))"

text \<open>\<open>!==\<close> on values that share no object; no number of a document is \<open>NaN\<close>.\<close>

definition compare_row :: "jstring \<Rightarrow> jstring \<Rightarrow> js \<Rightarrow> js \<Rightarrow> difference list" where
  "compare_row language fixture expected actual = concat (map (\<lambda>field.
     compareValue (js_get expected field) (js_get actual field) (field_path (language @ lit '': '' @ fixture) field))
     [''decoded'', ''roundTrip'', ''errorCode''])"

definition compare_result :: "conformance_result \<Rightarrow> conformance_result \<Rightarrow> difference list" where
  "compare_result first result =
     (let language = cr_language result; rows = fixture_rows result; baseline = fixture_rows first in
      (if same_value (cr_protocolVersion result) (cr_protocolVersion first) then []
       else [VersionDiffers language (cr_protocolVersion first) (cr_protocolVersion result)])
      @ concat (map (\<lambda>(fixture, expected). case js_map_get rows fixture of
            None \<Rightarrow> [FixtureMissing language fixture]
          | Some actual \<Rightarrow> compare_row language fixture expected actual) baseline)
      @ concat (map (\<lambda>fixture. if js_map_has baseline fixture then [] else [FixtureUnexpected language fixture])
          (js_map_keys rows)))"

definition compareResults :: "jstring list option \<Rightarrow> conformance_result list \<Rightarrow> js_error + difference list" where
  "compareResults known results = (case results of
     [] \<Rightarrow> fail ''at least one result is required''
   | first # others \<Rightarrow> ebind (for_each (check_result known) [] results)
       (\<lambda>_. Inr (concat (map (compare_result first) others))))"

section \<open>What a comparison without differences means\<close>

text \<open>A result that passes the checks, and two results that say the same of every fixture.\<close>

definition result_ok :: "jstring list option \<Rightarrow> conformance_result \<Rightarrow> bool" where
  "result_ok known result \<longleftrightarrow> (\<forall>row \<in> set (cr_cases result). isString (js_get row ''fixture''))
     \<and> distinct (map row_fixture (cr_cases result))
     \<and> (\<forall>fixtures. known = Some fixtures \<longrightarrow> set (map row_fixture (cr_cases result)) = set fixtures)"

definition agrees_on :: "js \<Rightarrow> js \<Rightarrow> bool" where
  "agrees_on r r' \<longleftrightarrow> (\<forall>field \<in> {''decoded'', ''roundTrip'', ''errorCode''}.
     canonicalJson (js_get r field) = canonicalJson (js_get r' field))"

definition results_agree :: "conformance_result \<Rightarrow> conformance_result \<Rightarrow> bool" where
  "results_agree a b \<longleftrightarrow> same_value (cr_protocolVersion b) (cr_protocolVersion a)
     \<and> set (map row_fixture (cr_cases a)) = set (map row_fixture (cr_cases b))
     \<and> (\<forall>r \<in> set (cr_cases a). \<forall>r' \<in> set (cr_cases b). row_fixture r = row_fixture r' \<longrightarrow> agrees_on r r')"

definition ordinary_result :: "conformance_result \<Rightarrow> bool" where
  "ordinary_result result \<longleftrightarrow> (\<forall>row \<in> set (cr_cases result). \<forall>field. ordinary (js_get row field))"

lemma check_rows:
  "for_each (check_row language known) seen rows = Inr seen' \<longleftrightarrow>
     seen' = seen @ map row_fixture rows \<and> (\<forall>row \<in> set rows. isString (js_get row ''fixture''))
     \<and> distinct (map row_fixture rows) \<and> set (map row_fixture rows) \<inter> set seen = {}
     \<and> (\<forall>fixtures. known = Some fixtures \<longrightarrow> set (map row_fixture rows) \<subseteq> set fixtures)"
proof (induction rows arbitrary: seen)
  case (Cons row rows)
  show ?case
  proof (cases "check_row language known seen row")
    case (Inl e)
    then show ?thesis
      by (auto simp: check_row_def Let_def row_fixture_def split: if_splits)
  next
    case (Inr t)
    then have "isString (js_get row ''fixture'')" "t = seen @ [row_fixture row]" "row_fixture row \<notin> set seen"
      "known = Some fixtures \<Longrightarrow> row_fixture row \<in> set fixtures" for fixtures
      by (auto simp: check_row_def Let_def row_fixture_def js_set_add_def split: if_splits)
    with Cons.IH [of t] Inr show ?thesis by auto
  qed
qed auto

lemma check_known_all:
  "for_each (check_known language seen) u fixtures = Inr u' \<longleftrightarrow> set fixtures \<subseteq> set seen"
  using for_each_check [of "check_known language seen" "\<lambda>f. f \<in> set seen" u fixtures u']
  by (auto simp: check_known_def)

lemma check_result_Inr:
  "check_result known languages result = Inr languages' \<longleftrightarrow>
     languages' = languages @ [cr_language result] \<and> cr_language result \<notin> set languages \<and> result_ok known result"
  by (auto simp: check_result_def Let_def js_simps check_rows check_known_all result_ok_def js_set_add_def
      split: option.splits)

lemma check_results:
  "for_each (check_result known) languages results = Inr languages' \<longleftrightarrow>
     languages' = languages @ map cr_language results \<and> distinct (map cr_language results)
     \<and> set (map cr_language results) \<inter> set languages = {} \<and> list_all (result_ok known) results"
proof (induction results arbitrary: languages)
  case (Cons result results)
  have "for_each (check_result known) languages (result # results) = Inr languages' \<longleftrightarrow>
      (\<exists>l. check_result known languages result = Inr l \<and> for_each (check_result known) l results = Inr languages')"
    by (simp add: js_simps)
  then show ?case by (auto simp: check_result_Inr Cons.IH)
qed auto

text \<open>The comparison is carried out exactly for one or more well-formed results of different languages.\<close>

theorem compareResults_runs:
  "(\<exists>differences. compareResults known results = Inr differences) \<longleftrightarrow>
     results \<noteq> [] \<and> distinct (map cr_language results) \<and> list_all (result_ok known) results"
proof (cases results)
  case (Cons first others)
  have "(\<exists>differences. compareResults known results = Inr differences) \<longleftrightarrow>
      (\<exists>l. for_each (check_result known) [] results = Inr l)"
    unfolding Cons by (auto simp: compareResults_def ebind_Inr_iff simp del: for_each.simps)
  then show ?thesis by (simp add: check_results Cons del: for_each.simps)
qed (simp add: compareResults_def)

lemma fixture_rows_ok: "result_ok known r \<Longrightarrow> fixture_rows r = map (\<lambda>row. (row_fixture row, row)) (cr_cases r)"
  unfolding fixture_rows_def by (rule js_map_of_distinct) (simp add: result_ok_def comp_def)

lemma fixture_row:
  assumes "result_ok known r"
  shows "js_map_get (fixture_rows r) f = Some row \<longleftrightarrow> row \<in> set (cr_cases r) \<and> row_fixture row = f"
proof -
  have "distinct (map fst (fixture_rows r))"
    using assms by (simp add: fixture_rows_ok [OF assms] result_ok_def comp_def)
  then show ?thesis
    unfolding js_map_get_def by (auto simp: fixture_rows_ok [OF assms] map_of_eq_Some_iff comp_def)
qed

lemma compare_row_decides:
  assumes "\<forall>field. ordinary (js_get e field)" "\<forall>field. ordinary (js_get a field)"
  shows "compare_row language fixture e a = [] \<longleftrightarrow> agrees_on e a"
  using assms by (simp add: compare_row_def agrees_on_def compareValue_decides)

lemma compare_result_decides:
  assumes "result_ok known a" "result_ok known b" "ordinary_result a" "ordinary_result b"
  shows "compare_result a b = [] \<longleftrightarrow> results_agree a b"
proof -
  let ?A = "cr_cases a" and ?B = "cr_cases b"
  have row: "(case js_map_get (fixture_rows b) (row_fixture e) of None \<Rightarrow> [FixtureMissing l (row_fixture e)]
        | Some r \<Rightarrow> compare_row l (row_fixture e) e r) = []
      \<longleftrightarrow> (\<exists>r \<in> set ?B. row_fixture r = row_fixture e \<and> agrees_on e r)" if "e \<in> set ?A" for e l
  proof (cases "js_map_get (fixture_rows b) (row_fixture e)")
    case None
    then have "row_fixture r \<noteq> row_fixture e" if "r \<in> set ?B" for r
      using fixture_row [OF assms(2), of "row_fixture e" r] that by auto
    with None show ?thesis by auto
  next
    case (Some r)
    have r: "r' = r" if "r' \<in> set ?B" "row_fixture r' = row_fixture e" for r'
      using fixture_row [OF assms(2), of "row_fixture e" r'] that Some by simp
    have m: "r \<in> set ?B" "row_fixture r = row_fixture e"
      using Some fixture_row [OF assms(2)] by auto
    have "compare_row l (row_fixture e) e r = [] \<longleftrightarrow> agrees_on e r"
      using assms(3,4) that m(1) by (intro compare_row_decides) (auto simp: ordinary_result_def)
    moreover have "(\<exists>r' \<in> set ?B. row_fixture r' = row_fixture e \<and> agrees_on e r') \<longleftrightarrow> agrees_on e r"
      using r m by metis
    ultimately show ?thesis unfolding Some by simp
  qed
  have keys: "fst ` set (fixture_rows b) = row_fixture ` set ?B" "fst ` set (fixture_rows a) = row_fixture ` set ?A"
    by (simp_all add: fixture_rows_ok [OF assms(1)] fixture_rows_ok [OF assms(2)] image_image)
  have unexpected: "(if c then [] else [x]) = [] \<longleftrightarrow> c" for c and x :: difference by simp
  have "compare_result a b = [] \<longleftrightarrow> same_value (cr_protocolVersion b) (cr_protocolVersion a)
      \<and> (\<forall>e \<in> set ?A. \<exists>r \<in> set ?B. row_fixture r = row_fixture e \<and> agrees_on e r)
      \<and> set (map row_fixture ?B) \<subseteq> set (map row_fixture ?A)"
    unfolding compare_result_def Let_def append_is_Nil_conv concat_eq_Nil js_map_keys_def js_map_has_iff unexpected
      set_map keys subset_iff
    by (simp add: fixture_rows_ok [OF assms(1)] row) blast
  also have "\<dots> \<longleftrightarrow> results_agree a b"
  proof -
    have unique: "r = r'" if "r \<in> set ?B" "r' \<in> set ?B" "row_fixture r = row_fixture r'" for r r'
      using assms(2) that by (auto simp: result_ok_def distinct_map inj_on_def)
    have "(\<forall>e \<in> set ?A. \<exists>r \<in> set ?B. row_fixture r = row_fixture e \<and> agrees_on e r) \<longleftrightarrow>
        row_fixture ` set ?A \<subseteq> row_fixture ` set ?B
        \<and> (\<forall>e \<in> set ?A. \<forall>r \<in> set ?B. row_fixture e = row_fixture r \<longrightarrow> agrees_on e r)"
    proof (intro iffI conjI ballI impI subsetI)
      assume all: "\<forall>e \<in> set ?A. \<exists>r \<in> set ?B. row_fixture r = row_fixture e \<and> agrees_on e r"
      show "f \<in> row_fixture ` set ?B" if "f \<in> row_fixture ` set ?A" for f
        using all that by (metis imageE imageI)
      show "agrees_on e r" if "e \<in> set ?A" "r \<in> set ?B" "row_fixture e = row_fixture r" for e r
        using all unique that by metis
    next
      fix e
      assume "row_fixture ` set ?A \<subseteq> row_fixture ` set ?B
        \<and> (\<forall>e \<in> set ?A. \<forall>r \<in> set ?B. row_fixture e = row_fixture r \<longrightarrow> agrees_on e r)" "e \<in> set ?A"
      moreover from this obtain r where "r \<in> set ?B" "row_fixture e = row_fixture r" by (auto simp: subset_iff)
      ultimately show "\<exists>r \<in> set ?B. row_fixture r = row_fixture e \<and> agrees_on e r" by (intro bexI [of _ r]) auto
    qed
    then show ?thesis by (auto simp: results_agree_def)
  qed
  finally show ?thesis .
qed

text \<open>No differences: every two languages say the same of every fixture, the baseline or not.\<close>

theorem compareResults_decides:
  assumes "compareResults known results = Inr differences" "list_all ordinary_result results"
  shows "differences = [] \<longleftrightarrow> (\<forall>b \<in> set (tl results). results_agree (hd results) b)"
proof -
  obtain first others where r: "results = first # others"
    using assms(1) by (cases results) (auto simp: compareResults_def)
  with assms(1) have ok: "list_all (result_ok known) (first # others)"
    using compareResults_runs [of known results] by auto
  from assms(1) r have "differences = concat (map (compare_result first) others)"
    by (auto simp: compareResults_def js_simps)
  moreover have "compare_result first b = [] \<longleftrightarrow> results_agree first b" if "b \<in> set others" for b
    using ok assms(2) that r by (intro compare_result_decides) (auto simp: list_all_iff)
  ultimately show ?thesis using r by (simp add: concat_eq_Nil)
qed

end
