(* ===== verification/Benchmark_Report.thy ===== *)
theory Benchmark_Report
  imports Json_Schema Corpus_Index
begin

text \<open>
  The reports of the benchmarks: their validator (\<open>benchmarks/src/validate-report.ts\<close>), the JSON
  schema it compiles (\<open>benchmarks/schema/benchmark-report.schema.json\<close>) and the statistics of a run
  (\<open>benchmarks/src/run-benchmarks.ts\<close>).  What a run measures is an input.
\<close>

section \<open>The validator\<close>

definition SCENARIO_NAMES :: "string list" where
  "SCENARIO_NAMES = [''cold index creation'', ''warm partial observation'', ''fast multi-token observation'',
     ''repeated-phrase location'', ''backward reread'', ''final commit'']"

fun isReportRecord :: "js \<Rightarrow> bool" where
  "isReportRecord (JObj fs) = True"
| "isReportRecord _ = False"

definition isNonNegativeInteger :: "js \<Rightarrow> bool" where
  "isNonNegativeInteger v \<longleftrightarrow> isNumber v \<and> isSafeInteger (the_num v) \<and> \<not> js_less (the_num v) (Fin 0)"

definition isNonNegativeFinite :: "js \<Rightarrow> bool" where
  "isNonNegativeFinite v \<longleftrightarrow> isNumber v \<and> number_isFinite (the_num v) \<and> \<not> js_less (the_num v) (Fin 0)"

definition scenario_label :: "nat \<Rightarrow> jstring" where
  "scenario_label i = lit ''scenarios['' @ dec i @ lit '']''"

definition COUNTER_FIELDS :: "string list" where
  "COUNTER_FIELDS = [''candidateEvaluations'', ''editCells'', ''corpusSymbolsAccessed'', ''corpusSymbolCount'']"

definition scenario_errors :: "nat \<Rightarrow> string \<Rightarrow> js \<Rightarrow> jstring list" where
  "scenario_errors i expectedName s =
     (if \<not> isReportRecord s then [scenario_label i @ lit '' must be an object'']
      else
        (if js_get s ''scenario'' \<noteq> js_string expectedName
         then [scenario_label i @ lit ''.scenario must be '' @ lit expectedName] else [])
        @ (if \<not> isNonNegativeFinite (js_get s ''medianMilliseconds'')
           then [scenario_label i @ lit ''.medianMilliseconds must be non-negative and finite''] else [])
        @ (if \<not> isNonNegativeFinite (js_get s ''p95Milliseconds'')
           then [scenario_label i @ lit ''.p95Milliseconds must be non-negative and finite'']
           else if isNonNegativeFinite (js_get s ''medianMilliseconds'')
             \<and> js_less (the_num (js_get s ''p95Milliseconds'')) (the_num (js_get s ''medianMilliseconds''))
           then [scenario_label i @ lit ''.p95Milliseconds must not be below the median''] else [])
        @ (if \<not> isNumber (js_get s ''heapDeltaBytes'') \<or> \<not> isSafeInteger (the_num (js_get s ''heapDeltaBytes''))
           then [scenario_label i @ lit ''.heapDeltaBytes must be an integer''] else [])
        @ concat (map (\<lambda>field. if \<not> isNonNegativeInteger (js_get s field)
             then [scenario_label i @ lit ''.'' @ lit field @ lit '' must be a non-negative integer''] else [])
             COUNTER_FIELDS)
        @ (if isNonNegativeInteger (js_get s ''candidateEvaluations'')
             \<and> js_less (Fin 64) (the_num (js_get s ''candidateEvaluations''))
           then [scenario_label i @ lit ''.candidateEvaluations must be at most 64''] else [])
        @ (if isNonNegativeInteger (js_get s ''candidateEvaluations'')
             \<and> js_less (Fin 0) (the_num (js_get s ''candidateEvaluations''))
             \<and> isNonNegativeInteger (js_get s ''corpusSymbolsAccessed'')
             \<and> isNonNegativeInteger (js_get s ''corpusSymbolCount'')
             \<and> \<not> js_less (the_num (js_get s ''corpusSymbolsAccessed'')) (the_num (js_get s ''corpusSymbolCount''))
           then [scenario_label i @ lit '' records a full-corpus symbol scan''] else []))"

definition report_errors :: "js \<Rightarrow> jstring list" where
  "report_errors v =
     (let runtime = js_get v ''runtime''; config = js_get v ''config''; scenarios = js_get v ''scenarios'';
        errors =
          (if js_get v ''schemaVersion'' \<noteq> js_int 1 then [lit ''schemaVersion must be 1''] else [])
          @ (if \<not> isReportRecord runtime
               \<or> \<not> isString (js_get runtime ''node'') \<or> \<not> isString (js_get runtime ''v8'')
               \<or> \<not> isString (js_get runtime ''platform'') \<or> \<not> isString (js_get runtime ''architecture'')
             then [lit ''runtime must contain node, v8, platform, and architecture strings''] else [])
          @ (if \<not> isReportRecord config
               \<or> \<not> isNonNegativeInteger (js_get config ''warmups'')
               \<or> \<not> isNonNegativeInteger (js_get config ''iterations'')
               \<or> js_less (the_num (js_get config ''iterations'')) (Fin 1)
             then [lit ''config must contain non-negative warmups and positive iterations''] else [])
      in if \<not> isArray scenarios \<or> length (the_elems scenarios) \<noteq> length SCENARIO_NAMES
         then errors @ [lit ''scenarios must contain exactly six entries'']
         else errors @ concat (map (\<lambda>i. scenario_errors i (SCENARIO_NAMES ! i) (the_elems scenarios ! i))
           [0..<length SCENARIO_NAMES]))"

definition schema_message :: "schema_issue \<Rightarrow> jstring" where
  "schema_message e = (if si_instancePath e = [] then lit ''report'' else si_instancePath e) @ lit '' ''
     @ si_keyword e @ lit '': '' @ (case si_message e of Some m \<Rightarrow> m | None \<Rightarrow> lit ''invalid'')"

text \<open>The compiled schema is a parameter: the issues it finds, none for a value it accepts.\<close>

definition validateBenchmarkReport :: "(js \<Rightarrow> schema_issue list) \<Rightarrow> js \<Rightarrow> bool \<times> jstring list" where
  "validateBenchmarkReport validator v =
     (if \<not> isReportRecord v then (False, [lit ''report must be an object''])
      else let errors = report_errors v;
        errors' = (if errors = [] then map schema_message (validator v) else errors)
      in (errors' = [], errors'))"

definition assertBenchmarkReport :: "(js \<Rightarrow> schema_issue list) \<Rightarrow> js \<Rightarrow> js_error + unit" where
  "assertBenchmarkReport validator v =
     (let (valid, errors) = validateBenchmarkReport validator v in
      if \<not> valid then Inl (TypeError (js_join (lit ''; '') errors)) else Inr ())"

section \<open>The schema\<close>

definition textual :: "js \<Rightarrow> bool" where
  "textual v \<longleftrightarrow> isString v \<and> the_str v \<noteq> []"

definition scenario_properties :: "property_schema list" where
  "scenario_properties = [needed ''scenario'' (enum_schema SCENARIO_NAMES),
     needed ''medianMilliseconds'' (number_from 0), needed ''p95Milliseconds'' (number_from 0),
     needed ''heapDeltaBytes'' (number_schema (\<lambda>r. of_int \<lfloor>r\<rfloor> = r)),
     needed ''candidateEvaluations'' (\<lambda>v. integer_from 0 v \<and> number_schema (\<lambda>r. r \<le> 64) v),
     needed ''editCells'' (integer_from 0), needed ''corpusSymbolsAccessed'' (integer_from 0),
     needed ''corpusSymbolCount'' (integer_from 0)]"

definition runtime_schema :: "js \<Rightarrow> bool" where
  "runtime_schema = object_schema [needed ''node'' textual, needed ''v8'' textual, needed ''platform'' textual,
     needed ''architecture'' textual]"

definition config_schema :: "js \<Rightarrow> bool" where
  "config_schema = object_schema [needed ''warmups'' (integer_from 0), needed ''iterations'' (integer_from 1)]"

definition report_schema :: "js \<Rightarrow> bool" where
  "report_schema = object_schema [needed ''schemaVersion'' (const_schema (js_int 1)),
     needed ''runtime'' runtime_schema, needed ''config'' config_schema,
     needed ''scenarios'' (\<lambda>v. array_schema (object_schema scenario_properties) v \<and> length (the_elems v) = 6)]"

text \<open>What the checks add to the schema: the order of the scenarios, integers that doubles count exactly,
  percentiles in order, and no scenario that looked at every symbol of its corpus.\<close>

definition bounded_scenario :: "js \<Rightarrow> bool" where
  "bounded_scenario s \<longleftrightarrow>
     \<not> js_less (the_num (js_get s ''p95Milliseconds'')) (the_num (js_get s ''medianMilliseconds''))
     \<and> list_all (\<lambda>k. isSafeInteger (the_num (js_get s k))) (''heapDeltaBytes'' # COUNTER_FIELDS)
     \<and> (js_less (Fin 0) (the_num (js_get s ''candidateEvaluations'')) \<longrightarrow>
          js_less (the_num (js_get s ''corpusSymbolsAccessed'')) (the_num (js_get s ''corpusSymbolCount'')))"

definition bounded_report :: "js \<Rightarrow> bool" where
  "bounded_report v \<longleftrightarrow>
     map (\<lambda>s. js_get s ''scenario'') (the_elems (js_get v ''scenarios'')) = map js_string SCENARIO_NAMES
     \<and> list_all (\<lambda>k. isSafeInteger (the_num (js_get (js_get v ''config'') k))) [''warmups'', ''iterations'']
     \<and> list_all bounded_scenario (the_elems (js_get v ''scenarios''))"

lemma isReportRecord_schema: "object_schema props v \<Longrightarrow> isReportRecord v"
  by (cases v) auto

lemma number_from_cases: "number_from x v \<longleftrightarrow> (\<exists>r. v = JNum (Fin r) \<and> x \<le> r)"
  by (auto simp: number_from_def number_schema_def split: js.splits js_num.splits)

lemma integer_from_cases: "integer_from n v \<longleftrightarrow> (\<exists>r. v = JNum (Fin r) \<and> of_int \<lfloor>r\<rfloor> = r \<and> of_int n \<le> r)"
  by (auto simp: integer_from_def number_schema_def split: js.splits js_num.splits)

lemma isNonNegativeFinite_iff: "isNonNegativeFinite v \<longleftrightarrow> number_from 0 v"
  by (auto simp: isNonNegativeFinite_def number_from_cases isNumber_iff number_isFinite_iff)

lemma isNonNegativeInteger_iff: "isNonNegativeInteger v \<longleftrightarrow> integer_from 0 v \<and> isSafeInteger (the_num v)"
proof (cases v)
  case (JNum n)
  then show ?thesis by (cases n) (auto simp: isNonNegativeInteger_def integer_from_cases)
qed (auto simp: isNonNegativeInteger_def integer_from_cases)

text \<open>One scenario of a report its schema accepts.\<close>

lemma scenario_errors_decide:
  assumes "object_schema scenario_properties s"
  shows "scenario_errors i name s = [] \<longleftrightarrow> js_get s ''scenario'' = js_string name \<and> bounded_scenario s"
proof -
  note get = object_schema_get [OF assms, unfolded scenario_properties_def]
  have median: "number_from 0 (js_get s ''medianMilliseconds'')" by (rule get) simp
  have p95: "number_from 0 (js_get s ''p95Milliseconds'')" by (rule get) simp
  have heap: "number_schema (\<lambda>r. of_int \<lfloor>r\<rfloor> = r) (js_get s ''heapDeltaBytes'')" by (rule get) simp
  have candidates: "integer_from 0 (js_get s ''candidateEvaluations'')
      \<and> number_schema (\<lambda>r. r \<le> 64) (js_get s ''candidateEvaluations'')" by (rule get) simp
  have cells: "integer_from 0 (js_get s ''editCells'')" by (rule get) simp
  have accessed: "integer_from 0 (js_get s ''corpusSymbolsAccessed'')" by (rule get) simp
  have count: "integer_from 0 (js_get s ''corpusSymbolCount'')" by (rule get) simp
  have heap': "isNumber (js_get s ''heapDeltaBytes'')"
    using heap by (auto simp: number_schema_def split: js.splits)
  have limit: "\<not> js_less (Fin 64) (the_num (js_get s ''candidateEvaluations''))"
    using candidates by (auto simp: integer_from_cases)
  show ?thesis
    unfolding scenario_errors_def bounded_scenario_def COUNTER_FIELDS_def
    using isReportRecord_schema [OF assms]
    by (simp add: isNonNegativeFinite_iff isNonNegativeInteger_iff median p95 heap' limit candidates cells accessed count)
qed

lemma concat_nil: "concat xss = [] \<longleftrightarrow> (\<forall>xs \<in> set xss. xs = [])"
  by (induction xss) auto

lemma report_errors_decide:
  assumes "report_schema v"
  shows "report_errors v = [] \<longleftrightarrow> bounded_report v"
proof -
  note get = object_schema_get [OF assms [unfolded report_schema_def]]
  have version: "js_get v ''schemaVersion'' = js_int 1"
    using get [of "''schemaVersion''" "const_schema (js_int 1)"] by simp
  have runtime: "runtime_schema (js_get v ''runtime'')" by (rule get) simp
  have config: "config_schema (js_get v ''config'')" by (rule get) simp
  have list: "array_schema (object_schema scenario_properties) (js_get v ''scenarios'')
      \<and> length (the_elems (js_get v ''scenarios'')) = 6" by (rule get) simp
  then obtain ss where ss: "js_get v ''scenarios'' = JArr ss" "list_all (object_schema scenario_properties) ss"
      "length ss = length SCENARIO_NAMES"
    by (auto simp: array_schema_def SCENARIO_NAMES_def split: js.splits)
  note rt = object_schema_get [OF runtime [unfolded runtime_schema_def]]
  have texts: "textual (js_get (js_get v ''runtime'') k)" if "k \<in> {''node'', ''v8'', ''platform'', ''architecture''}" for k
    by (rule rt) (use that in auto)
  note cf = object_schema_get [OF config [unfolded config_schema_def]]
  have warmups: "integer_from 0 (js_get (js_get v ''config'') ''warmups'')" by (rule cf) simp
  have iterations: "integer_from 1 (js_get (js_get v ''config'') ''iterations'')" by (rule cf) simp
  then have positive: "integer_from 0 (js_get (js_get v ''config'') ''iterations'')"
      "\<not> js_less (the_num (js_get (js_get v ''config'') ''iterations'')) (Fin 1)"
    by (auto simp: integer_from_cases)
  have records: "isReportRecord (js_get v ''runtime'')" "isReportRecord (js_get v ''config'')"
    using isReportRecord_schema runtime config unfolding runtime_schema_def config_schema_def by blast+
  have "scenario_errors i (SCENARIO_NAMES ! i) (ss ! i) = []
      \<longleftrightarrow> js_get (ss ! i) ''scenario'' = js_string (SCENARIO_NAMES ! i) \<and> bounded_scenario (ss ! i)"
    if "i < length ss" for i
    using ss(2) that by (intro scenario_errors_decide) (simp add: list_all_length)
  then have scenarios: "concat (map (\<lambda>i. scenario_errors i (SCENARIO_NAMES ! i) (ss ! i)) [0..<length SCENARIO_NAMES]) = []
      \<longleftrightarrow> map (\<lambda>s. js_get s ''scenario'') ss = map js_string SCENARIO_NAMES \<and> list_all bounded_scenario ss"
    using ss(3) by (auto simp: concat_nil list_all_length list_eq_iff_nth_eq [of "map _ ss"])
  show ?thesis
    unfolding report_errors_def bounded_report_def ss(1) Let_def
    using texts records
    by (simp add: version ss(3) scenarios isNonNegativeInteger_iff warmups positive textual_def conj_comms
        del: concat_eq_Nil_conv)
qed

text \<open>A report is valid exactly when its schema accepts it and its figures keep the bounds.\<close>

theorem validateBenchmarkReport_decides:
  assumes "\<And>v. validator v = [] \<longleftrightarrow> report_schema v"
  shows "fst (validateBenchmarkReport validator v) \<longleftrightarrow> report_schema v \<and> bounded_report v"
proof (cases "isReportRecord v")
  case True
  have "report_errors v \<noteq> [] \<Longrightarrow> \<not> (report_schema v \<and> bounded_report v)"
    using report_errors_decide [of v] by blast
  with True show ?thesis
    using report_errors_decide [of v] assms [of v]
    by (cases "report_errors v = []") (auto simp: validateBenchmarkReport_def Let_def)
next
  case False
  then show ?thesis
    using isReportRecord_schema [of _ v] by (auto simp: validateBenchmarkReport_def report_schema_def)
qed

section \<open>The statistics of a run\<close>

text \<open>\<open>values.sort((left, right) => left - right)\<close>.\<close>

definition sort_numbers :: "rat list \<Rightarrow> rat list" where
  "sort_numbers xs = js_sort (\<lambda>left right. fl (left - right)) xs"

definition percentile :: "rat list \<Rightarrow> rat \<Rightarrow> rat" where
  "percentile sortedValues percentileValue =
     (let index = max 0 (\<lceil>fl (percentileValue * of_nat (length sortedValues))\<rceil> - 1) in sortedValues ! nat index)"

definition median :: "rat list \<Rightarrow> rat" where
  "median sortedValues =
     (let middle = length sortedValues div 2 in
      if length sortedValues mod 2 = 1 then sortedValues ! middle
      else fl (fl (sortedValues ! (middle - 1) + sortedValues ! middle) / 2))"

text \<open>The literal \<open>0.95\<close>.\<close>

definition p95 :: rat where
  "p95 = fl (95 / 100)"

text \<open>The difference of two doubles rounds to zero only when they are equal, so that the comparator is exact.\<close>

lemma double_multiple: "is_double x \<Longrightarrow> \<exists>n. x = of_int n * pow2 (- 1074)"
proof -
  assume "is_double x"
  then obtain m k where m: "x = of_int m * pow2 k" "- 1074 \<le> k" by (auto simp: is_double_def)
  then have "pow2 k = of_int (2 ^ nat (k + 1074)) * pow2 (- 1074)"
    using pow2_add [of "k + 1074" "- 1074"] by (simp add: pow2_def)
  with m(1) have "x = of_int (m * 2 ^ nat (k + 1074)) * pow2 (- 1074)" by simp
  then show ?thesis by blast
qed

lemma double_difference_sign:
  assumes "is_double l" "is_double r"
  shows "fl (l - r) < 0 \<longleftrightarrow> l < r"
proof
  assume "l < r"
  obtain n m where "l = of_int n * pow2 (- 1074)" "r = of_int m * pow2 (- 1074)"
    using double_multiple assms by blast
  then have lr: "l - r = of_int (n - m) * pow2 (- 1074)" by (simp add: algebra_simps)
  with \<open>l < r\<close> have "of_int (n - m) * pow2 (- 1074) < (0::rat)" by simp
  then have "of_int (n - m) < (0::rat)" using pow2_pos [of "- 1074"] by (simp only: mult_less_0_iff) linarith
  then have "n - m \<le> - 1" by simp
  then have "(of_int (n - m) :: rat) \<le> - 1" by (metis of_int_1 of_int_le_iff of_int_minus)
  then have "l - r \<le> - pow2 (- 1074)"
    unfolding lr using mult_right_mono [of "of_int (n - m)" "- 1 :: rat" "pow2 (- 1074)"] by simp
  moreover have "is_double (- pow2 (- 1074))"
    unfolding is_double_def by (intro exI [of _ "- 1"] exI [of _ "- 1074"]) simp
  ultimately have "fl (l - r) \<le> - pow2 (- 1074)" by (rule fl_le_double [rotated])
  then show "fl (l - r) < 0" using pow2_pos [of "- 1074"] by linarith
next
  assume "fl (l - r) < 0"
  then show "l < r" using fl_nonneg [of "l - r"] by (cases "l < r") auto
qed

lemma sort_insert_numbers:
  "is_double x \<Longrightarrow> \<forall>y \<in> set ys. is_double y \<Longrightarrow> sorted ys \<Longrightarrow>
     sorted (sort_insert (\<lambda>left right. fl (left - right)) x ys)"
proof (induction ys)
  case (Cons y ys)
  then show ?case
    using double_difference_sign [of x y] by (cases "fl (x - y) < 0") force+
qed simp

lemma sorted_sort_numbers:
  assumes "\<forall>x \<in> set xs. is_double x"
  shows "sorted (sort_numbers xs)"
proof -
  have "sorted ys \<Longrightarrow> \<forall>y \<in> set ys. is_double y \<Longrightarrow>
      sorted (foldl (\<lambda>ys x. sort_insert (\<lambda>left right. fl (left - right)) x ys) ys xs)" for ys
    using assms
  proof (induction xs arbitrary: ys)
    case (Cons x xs)
    then show ?case using sort_insert_numbers [of x ys] by simp
  qed simp
  from this [of "[]"] assms show ?thesis by (simp add: sort_numbers_def js_sort_def)
qed

lemma is_double_half: "\<bar>n\<bar> \<le> 2 ^ 53 \<Longrightarrow> is_double (of_int n / 2)"
  unfolding is_double_def by (intro exI [of _ n] exI [of _ "- 1"]) (simp add: pow2_def)

lemma is_double_twice: "is_double x \<Longrightarrow> is_double (2 * x)"
proof -
  assume "is_double x"
  then obtain m k where "x = of_int m * pow2 k" "\<bar>m\<bar> \<le> 2 ^ 53" "- 1074 \<le> k" by (auto simp: is_double_def)
  then show "is_double (2 * x)"
    unfolding is_double_def by (intro exI [of _ m] exI [of _ "k + 1"]) (simp add: pow2_Suc)
qed

lemma p95_bounds: "7 / 8 \<le> p95" "p95 \<le> 1"
proof -
  have "is_double (7 / 8)"
    unfolding is_double_def by (intro exI [of _ 7] exI [of _ "- 3"]) (simp add: pow2_def)
  then show "7 / 8 \<le> p95" unfolding p95_def by (rule double_le_fl) simp
  show "p95 \<le> 1" unfolding p95_def by (rule fl_le_1) simp
qed

text \<open>The index of the percentile is in range and not below the middle.\<close>

lemma p95_index:
  assumes "0 < n" "n \<le> 2 ^ 52"
  shows "nat (max 0 (\<lceil>fl (p95 * of_nat n)\<rceil> - 1)) < n"
    "n div 2 \<le> nat (max 0 (\<lceil>fl (p95 * of_nat n)\<rceil> - 1))"
proof -
  have n: "\<bar>int n\<bar> \<le> 2 ^ 53" using assms by simp
  have "is_double (of_nat n)" using is_double_int [OF n] by simp
  moreover have "p95 * of_nat n \<le> of_nat n" using p95_bounds(2) mult_right_mono [of p95 1 "of_nat n"] by simp
  ultimately have "fl (p95 * of_nat n) \<le> of_nat n" by (rule fl_le_double)
  then have "\<lceil>fl (p95 * of_nat n)\<rceil> \<le> int n" by (simp add: ceiling_le_iff)
  then show "nat (max 0 (\<lceil>fl (p95 * of_nat n)\<rceil> - 1)) < n" using assms(1) by linarith
  show "n div 2 \<le> nat (max 0 (\<lceil>fl (p95 * of_nat n)\<rceil> - 1))"
  proof (cases "n = 1")
    case False
    have m: "2 * (n div 2) \<le> n" by simp
    have "is_double (of_int (int (2 * (n div 2) + 1)) / 2)"
      using assms m by (intro is_double_half) simp
    moreover have "of_int (int (2 * (n div 2) + 1)) / 2 \<le> p95 * of_nat n"
    proof -
      have "7 / 8 * rat_of_nat n \<le> p95 * of_nat n" by (rule mult_right_mono [OF p95_bounds(1)]) simp
      moreover have "rat_of_nat (2 * (n div 2)) \<le> of_nat n" using m by (simp only: of_nat_le_iff)
      moreover have "2 \<le> rat_of_nat n" using False assms(1) by simp
      moreover have "7 / 8 * x \<le> q \<Longrightarrow> y \<le> x \<Longrightarrow> 2 \<le> x \<Longrightarrow> (y + 1) / 2 \<le> q" for x y q :: rat
        by (simp add: divide_le_eq pos_divide_le_eq mult.commute)
      ultimately have "(rat_of_nat (2 * (n div 2)) + 1) / 2 \<le> p95 * of_nat n" by blast
      then show ?thesis by simp
    qed
    ultimately have "of_int (int (2 * (n div 2) + 1)) / 2 \<le> fl (p95 * of_nat n)" by (rule double_le_fl)
    then have "of_int (int (n div 2)) < fl (p95 * of_nat n)" by simp
    then have "int (n div 2) < \<lceil>fl (p95 * of_nat n)\<rceil>" by (simp only: less_ceiling_iff)
    then show ?thesis by linarith
  qed simp
qed

text \<open>The median of a sample is never above its 95th percentile.\<close>

lemma middle_bounds:
  assumes "sorted xs" "\<forall>x \<in> set xs. is_double x" "xs \<noteq> []"
  shows "median xs \<le> xs ! (length xs div 2)" "\<forall>x \<in> set xs. 0 \<le> x \<Longrightarrow> 0 \<le> median xs"
proof -
  let ?m = "length xs div 2"
  have m: "?m < length xs" using assms(3) by (auto intro: div_less_dividend)
  then have m': "?m - 1 < length xs" by linarith
  let ?a = "xs ! (?m - 1)" and ?b = "xs ! ?m"
  have "?a \<le> ?b" using assms(1) m by (intro sorted_nth_mono) auto
  moreover have d: "is_double ?b" using assms(2) m by simp
  ultimately have "fl (?a + ?b) \<le> 2 * ?b" by (intro fl_le_double is_double_twice) auto
  with d have "fl (fl (?a + ?b) / 2) \<le> ?b" by (intro fl_le_double) auto
  then show "median xs \<le> ?b" by (simp add: median_def Let_def)
  show "0 \<le> median xs" if "\<forall>x \<in> set xs. 0 \<le> x"
    using that m m' by (auto simp: median_def Let_def intro!: fl_nonneg)
qed

theorem median_below_p95:
  assumes "sorted xs" "\<forall>x \<in> set xs. is_double x" "xs \<noteq> []" "length xs \<le> 2 ^ 52"
  shows "median xs \<le> percentile xs p95"
proof -
  have "xs ! (length xs div 2) \<le> percentile xs p95"
    unfolding percentile_def Let_def using p95_index [of "length xs"] assms by (intro sorted_nth_mono) auto
  with middle_bounds(1) [OF assms(1-3)] show ?thesis by simp
qed

section \<open>A run\<close>

text \<open>What one iteration measures: the time and the heap as doubles, and the counters.\<close>

record operation_counts =
  oc_candidateEvaluations :: int
  oc_editCells :: int
  oc_corpusSymbolsAccessed :: int
  oc_corpusSymbolCount :: int

record measurement =
  ms_duration :: rat
  ms_heapDelta :: rat
  ms_operations :: operation_counts

text \<open>\<open>Math.round\<close>.\<close>

definition math_round :: "rat \<Rightarrow> rat" where
  "math_round x = of_int \<lfloor>x + 1 / 2\<rfloor>"

definition maximum_of :: "(operation_counts \<Rightarrow> int) \<Rightarrow> measurement list \<Rightarrow> int" where
  "maximum_of field ms = foldl (\<lambda>largest m. max largest (field (ms_operations m))) 0 ms"

definition scenario_result :: "string \<Rightarrow> measurement list \<Rightarrow> js" where
  "scenario_result name ms =
     (let durations = sort_numbers (map ms_duration ms); heapDeltas = sort_numbers (map ms_heapDelta ms) in
      JObj [(''scenario'', js_string name), (''medianMilliseconds'', JNum (Fin (median durations))),
        (''p95Milliseconds'', JNum (Fin (percentile durations p95))),
        (''heapDeltaBytes'', JNum (Fin (math_round (median heapDeltas)))),
        (''candidateEvaluations'', js_int (maximum_of oc_candidateEvaluations ms)),
        (''editCells'', js_int (maximum_of oc_editCells ms)),
        (''corpusSymbolsAccessed'', js_int (maximum_of oc_corpusSymbolsAccessed ms)),
        (''corpusSymbolCount'', js_int (maximum_of oc_corpusSymbolCount ms))])"

record benchmark_runtime =
  rt_node :: jstring
  rt_v8 :: jstring
  rt_platform :: jstring
  rt_architecture :: jstring

definition benchmark_report :: "benchmark_runtime \<Rightarrow> js_num \<Rightarrow> js_num \<Rightarrow> measurement list list \<Rightarrow> js" where
  "benchmark_report runtime warmups iterations measured =
     JObj [(''schemaVersion'', js_int 1),
       (''runtime'', JObj [(''node'', JStr (rt_node runtime)), (''v8'', JStr (rt_v8 runtime)),
          (''platform'', JStr (rt_platform runtime)), (''architecture'', JStr (rt_architecture runtime))]),
       (''config'', JObj [(''warmups'', JNum warmups), (''iterations'', JNum iterations)]),
       (''scenarios'', JArr (map2 scenario_result SCENARIO_NAMES measured))]"

text \<open>\<open>runBenchmarkSuite\<close>: \<open>measured\<close> holds the measurements of each scenario, one per iteration.\<close>

definition runBenchmarkSuite :: "(js \<Rightarrow> schema_issue list) \<Rightarrow> benchmark_runtime \<Rightarrow> js_num \<Rightarrow> js_num
    \<Rightarrow> measurement list list \<Rightarrow> js_error + js" where
  "runBenchmarkSuite validator runtime warmups iterations measured =
     (if \<not> isSafeInteger warmups \<or> js_less warmups (Fin 0) then fail ''warmups must be a non-negative integer''
      else if \<not> isSafeInteger iterations \<or> js_less iterations (Fin 1) then fail ''iterations must be a positive integer''
      else let report = benchmark_report runtime warmups iterations measured
        in ebind (assertBenchmarkReport validator report) (\<lambda>_. Inr report))"

text \<open>Measurements a report may hold: times that do not run backwards, counters in bounds, and either no
  candidate at all or a part of the corpus.\<close>

definition count_ok :: "measurement \<Rightarrow> bool" where
  "count_ok m \<longleftrightarrow> (let c = ms_operations m in
     0 \<le> oc_candidateEvaluations c \<and> oc_candidateEvaluations c \<le> 64
     \<and> oc_editCells c \<le> safe_limit \<and> oc_corpusSymbolCount c \<le> safe_limit
     \<and> oc_corpusSymbolsAccessed c \<le> oc_corpusSymbolCount c
     \<and> is_double (ms_duration m) \<and> 0 \<le> ms_duration m
     \<and> is_double (ms_heapDelta m) \<and> \<bar>ms_heapDelta m\<bar> \<le> of_int safe_limit)"

definition measured_ok :: "measurement list \<Rightarrow> bool" where
  "measured_ok ms \<longleftrightarrow> ms \<noteq> [] \<and> length ms \<le> 2 ^ 52 \<and> list_all count_ok ms
     \<and> (list_all (\<lambda>m. oc_candidateEvaluations (ms_operations m) = 0) ms
        \<or> list_all (\<lambda>m. let c = ms_operations m in
            0 \<le> oc_corpusSymbolsAccessed c \<and> oc_corpusSymbolsAccessed c < oc_corpusSymbolCount c) ms)"

lemma maximum_of_le: "0 \<le> b \<Longrightarrow> (\<And>m. m \<in> set ms \<Longrightarrow> field (ms_operations m) \<le> b) \<Longrightarrow> maximum_of field ms \<le> b"
proof -
  assume b: "0 \<le> b" "\<And>m. m \<in> set ms \<Longrightarrow> field (ms_operations m) \<le> b"
  have "a \<le> b \<Longrightarrow> foldl (\<lambda>largest m. max largest (field (ms_operations m))) a ms \<le> b" for a
    using b(2) by (induction ms arbitrary: a) auto
  with b(1) show ?thesis by (simp add: maximum_of_def)
qed

lemma maximum_of_ge: "0 \<le> maximum_of field ms" "m \<in> set ms \<Longrightarrow> field (ms_operations m) \<le> maximum_of field ms"
proof -
  have "a \<le> foldl (\<lambda>largest m. max largest (field (ms_operations m))) a ms
      \<and> (\<forall>m \<in> set ms. field (ms_operations m) \<le> foldl (\<lambda>largest m. max largest (field (ms_operations m))) a ms)" for a
  proof (induction ms arbitrary: a)
    case (Cons m ms)
    show ?case using Cons.IH [of "max a (field (ms_operations m))"] by auto
  qed simp
  then show "0 \<le> maximum_of field ms" "m \<in> set ms \<Longrightarrow> field (ms_operations m) \<le> maximum_of field ms"
    by (auto simp: maximum_of_def)
qed

lemma median_safe:
  assumes "xs \<noteq> []" "sorted xs" "\<forall>x \<in> set xs. is_double x \<and> \<bar>x\<bar> \<le> of_int safe_limit"
  shows "\<bar>\<lfloor>median xs + 1 / 2\<rfloor>\<bar> \<le> safe_limit"
proof -
  let ?m = "length xs div 2"
  have m: "?m < length xs" using assms(1) by (auto intro: div_less_dividend)
  then have m': "?m - 1 < length xs" by linarith
  let ?L = "of_int safe_limit :: rat"
  have bounds: "- ?L \<le> xs ! i \<and> xs ! i \<le> ?L" if "i < length xs" for i
    using assms(3) nth_mem [OF that] by (auto simp: abs_le_iff)
  have d: "is_double ?L" "is_double (- ?L)"
    using is_double_int [of safe_limit] is_double_int [of "- safe_limit"] by (simp_all add: safe_limit_def)
  have "median xs \<le> ?L"
    using middle_bounds(1) [of xs] assms bounds [OF m] by (auto intro: order_trans)
  moreover have "- ?L \<le> median xs"
  proof (cases "length xs mod 2 = 1")
    case True
    then show ?thesis using bounds [OF m] by (simp add: median_def Let_def)
  next
    case False
    have "2 * - ?L \<le> fl (xs ! (?m - 1) + xs ! ?m)"
      using bounds [OF m] bounds [OF m'] by (intro double_le_fl is_double_twice d) simp
    then have "- ?L \<le> fl (fl (xs ! (?m - 1) + xs ! ?m) / 2)" by (intro double_le_fl d) simp
    with False show ?thesis by (simp add: median_def Let_def)
  qed
  ultimately have "\<lfloor>median xs + 1 / 2\<rfloor> \<le> safe_limit" "- safe_limit \<le> \<lfloor>median xs + 1 / 2\<rfloor>"
    by (simp_all add: floor_le_iff le_floor_iff)
  then show ?thesis by simp
qed

lemma js_int_simps [simp]: "isSafeInteger (the_num (js_int n)) \<longleftrightarrow> \<bar>n\<bar> \<le> safe_limit"
  "js_less (the_num (js_int m)) (the_num (js_int n)) \<longleftrightarrow> m < n"
  by (auto simp: js_int_def abs_le_iff simp flip: of_int_minus of_int_abs)

lemma scenario_result_ok:
  assumes "measured_ok ms" "name \<in> set SCENARIO_NAMES"
  shows "object_schema scenario_properties (scenario_result name ms)" "bounded_scenario (scenario_result name ms)"
proof -
  let ?D = "sort_numbers (map ms_duration ms)" and ?H = "sort_numbers (map ms_heapDelta ms)"
  have ok: "\<And>m. m \<in> set ms \<Longrightarrow> count_ok m" "ms \<noteq> []" "length ms \<le> 2 ^ 52"
    using assms(1) by (auto simp: measured_ok_def list_all_iff)
  have D: "sorted ?D" "\<forall>x \<in> set ?D. is_double x" "\<forall>x \<in> set ?D. 0 \<le> x" "?D \<noteq> []" "length ?D \<le> 2 ^ 52"
  proof -
    show "sorted ?D" using ok(1) by (intro sorted_sort_numbers) (auto simp: count_ok_def Let_def)
    show "?D \<noteq> []" using ok(2) by (metis length_0_conv length_js_sort length_map sort_numbers_def)
  qed (use ok in \<open>auto simp: sort_numbers_def count_ok_def Let_def\<close>)
  have H: "sorted ?H" "\<forall>x \<in> set ?H. is_double x \<and> \<bar>x\<bar> \<le> of_int safe_limit" "?H \<noteq> []"
  proof -
    show "sorted ?H" using ok(1) by (intro sorted_sort_numbers) (auto simp: count_ok_def Let_def)
    show "?H \<noteq> []" using ok(2) by (metis length_0_conv length_js_sort length_map sort_numbers_def)
  qed (use ok in \<open>auto simp: sort_numbers_def count_ok_def Let_def\<close>)
  have times: "0 \<le> median ?D" "median ?D \<le> percentile ?D p95"
    using middle_bounds(2) [OF D(1,2,4) D(3)] median_below_p95 [OF D(1,2,4,5)] by simp_all
  have heap: "\<bar>\<lfloor>median ?H + 1 / 2\<rfloor>\<bar> \<le> safe_limit" by (rule median_safe [OF H(3,1,2)])
  have limits: "maximum_of oc_candidateEvaluations ms \<le> 64" "maximum_of oc_editCells ms \<le> safe_limit"
      "maximum_of oc_corpusSymbolsAccessed ms \<le> safe_limit" "maximum_of oc_corpusSymbolCount ms \<le> safe_limit"
    using ok(1) by (auto intro!: maximum_of_le simp: count_ok_def Let_def safe_limit_def intro: order_trans)
  have scan: "maximum_of oc_corpusSymbolsAccessed ms < maximum_of oc_corpusSymbolCount ms"
    if positive: "0 < maximum_of oc_candidateEvaluations ms"
  proof -
    have "\<not> list_all (\<lambda>m. oc_candidateEvaluations (ms_operations m) = 0) ms"
      using positive maximum_of_le [of 0 ms oc_candidateEvaluations] unfolding list_all_iff by fastforce
    with assms(1) have part: "\<And>m. m \<in> set ms \<Longrightarrow> 0 \<le> oc_corpusSymbolsAccessed (ms_operations m)
        \<and> oc_corpusSymbolsAccessed (ms_operations m) < oc_corpusSymbolCount (ms_operations m)"
      by (auto simp: measured_ok_def list_all_iff Let_def)
    have "oc_corpusSymbolsAccessed (ms_operations m) \<le> maximum_of oc_corpusSymbolCount ms - 1" if "m \<in> set ms" for m
      using part [OF that] maximum_of_ge(2) [OF that, of oc_corpusSymbolCount] by linarith
    moreover have "0 \<le> maximum_of oc_corpusSymbolCount ms - 1"
    proof -
      obtain m where m: "m \<in> set ms" using ok(2) by (cases ms) auto
      show ?thesis using part [OF m] maximum_of_ge(2) [OF m, of oc_corpusSymbolCount] by linarith
    qed
    ultimately have "maximum_of oc_corpusSymbolsAccessed ms \<le> maximum_of oc_corpusSymbolCount ms - 1"
      by (intro maximum_of_le)
    then show ?thesis by simp
  qed
  show "object_schema scenario_properties (scenario_result name ms)"
    using assms(2) times limits(1) maximum_of_ge(1)
    by (auto simp: scenario_result_def scenario_properties_def Let_def enum_schema_def number_from_cases
        math_round_def integer_from_cases js_int_def js_string_def)
  show "bounded_scenario (scenario_result name ms)"
    using times limits order_trans [OF limits(1), of safe_limit] heap scan maximum_of_ge(1) [of _ ms]
    by (simp add: bounded_scenario_def scenario_result_def Let_def COUNTER_FIELDS_def math_round_def abs_le_iff
        not_less js_int_simps [unfolded js_int_def] js_int_def safe_limit_def flip: of_int_minus of_int_abs)
qed

text \<open>A run with such measurements reports them: the validator never refuses its own report.\<close>

theorem suite_reports_its_measurements:
  assumes "\<And>v. validator v = [] \<longleftrightarrow> report_schema v"
    and "isSafeInteger warmups" "\<not> js_less warmups (Fin 0)" "isSafeInteger iterations" "\<not> js_less iterations (Fin 1)"
    and "length measured = length SCENARIO_NAMES" "list_all measured_ok measured"
    and "rt_node runtime \<noteq> []" "rt_v8 runtime \<noteq> []" "rt_platform runtime \<noteq> []" "rt_architecture runtime \<noteq> []"
  shows "runBenchmarkSuite validator runtime warmups iterations measured
    = Inr (benchmark_report runtime warmups iterations measured)"
proof -
  let ?r = "benchmark_report runtime warmups iterations measured"
  let ?ss = "map2 scenario_result SCENARIO_NAMES measured"
  have each: "list_all (object_schema scenario_properties) ?ss" "list_all bounded_scenario ?ss"
  proof -
    have "object_schema scenario_properties (scenario_result name ms) \<and> bounded_scenario (scenario_result name ms)"
      if "(name, ms) \<in> set (zip SCENARIO_NAMES measured)" for name ms
      using that assms(7) by (auto simp: list_all_iff dest: set_zip_leftD set_zip_rightD intro!: scenario_result_ok)
    then show "list_all (object_schema scenario_properties) ?ss" "list_all bounded_scenario ?ss"
      by (auto simp: list_all_iff)
  qed
  have names: "map (\<lambda>s. js_get s ''scenario'') ?ss = map js_string SCENARIO_NAMES"
    using assms(6) by (intro nth_equalityI) (simp_all add: scenario_result_def Let_def)
  have config: "config_schema (JObj [(''warmups'', JNum warmups), (''iterations'', JNum iterations)])"
    using assms(2-5) by (auto simp: config_schema_def integer_from_cases isSafeInteger_iff)
  have runtime: "runtime_schema (JObj [(''node'', JStr (rt_node runtime)), (''v8'', JStr (rt_v8 runtime)),
      (''platform'', JStr (rt_platform runtime)), (''architecture'', JStr (rt_architecture runtime))])"
    using assms(8-11) by (simp add: runtime_schema_def textual_def)
  have "length ?ss = 6" using assms(6) by (simp add: SCENARIO_NAMES_def)
  then have "report_schema ?r"
    using each(1) config runtime by (simp add: report_schema_def benchmark_report_def array_schema_def js_int_def)
  moreover have "bounded_report ?r"
    using each(2) names assms(2,4) by (simp add: bounded_report_def benchmark_report_def)
  ultimately have "fst (validateBenchmarkReport validator ?r)"
    using validateBenchmarkReport_decides [OF assms(1)] by blast
  then show ?thesis
    using assms(2-5)
    by (cases "validateBenchmarkReport validator ?r") (simp add: runBenchmarkSuite_def assertBenchmarkReport_def Let_def)
qed

end
