(* ===== verification/Benchmark_Scenarios.thy ===== *)
theory Benchmark_Scenarios
  imports Observation_Validate
begin

text \<open>
  The synthetic inputs of the benchmarks (\<open>benchmarks/src/scenarios.ts\<close>): corpora, observations and
  the collector of the work counters.  What they feed to the index and the tracker is well-formed, so
  that a benchmark measures the work on valid inputs and never the rejection of an invalid one.
\<close>

section \<open>Corpora\<close>

definition generatedPhonemes :: "nat \<Rightarrow> nat \<Rightarrow> jstring list" where
  "generatedPhonemes symbolCount cycleLength =
     map (\<lambda>index. lit ''synthetic-'' @ dec ((index * 37 + index div cycleLength) mod cycleLength)) [0..<symbolCount]"

definition repeatedPhonemes :: "nat \<Rightarrow> jstring list \<Rightarrow> jstring list" where
  "repeatedPhonemes repeatCount phrase =
     map (\<lambda>index. phrase ! (index mod length phrase)) [0..<repeatCount * length phrase]"

definition synthetic_symbol :: "nat \<Rightarrow> nat \<Rightarrow> jstring \<Rightarrow> quran_symbol" where
  "synthetic_symbol ayahSize index phoneme =
     \<lparr>sym_id = lit ''synthetic-symbol-'' @ dec index, sym_text = lit ''S'' @ dec index, sym_phoneme = phoneme,
      sym_location = \<lparr>loc_surah = 1, loc_ayah = int (index div ayahSize + 1), loc_word = int (index mod ayahSize + 1),
        loc_symbol = 1\<rparr>\<rparr>"

definition synthetic_word :: "nat \<Rightarrow> nat \<Rightarrow> quran_word" where
  "synthetic_word ayahSize index =
     \<lparr>word_id = lit ''synthetic-word-'' @ dec index, word_text = lit ''W'' @ dec index,
      word_symbolIds = [lit ''synthetic-symbol-'' @ dec index],
      word_location = \<lparr>wa_surah = 1, wa_ayah = int (index div ayahSize + 1), wa_word = int (index mod ayahSize + 1)\<rparr>\<rparr>"

definition syntheticCorpus :: "jstring \<Rightarrow> jstring list \<Rightarrow> nat \<Rightarrow> quran_corpus" where
  "syntheticCorpus fixtureId phonemes ayahSize =
     \<lparr>corpusId = lit ''benchmark-'' @ fixtureId, corpus_revision = lit ''1'',
      corpus_symbols = map (\<lambda>(index, phoneme). synthetic_symbol ayahSize index phoneme)
        (zip [0..<length phonemes] phonemes),
      corpus_words = map (synthetic_word ayahSize) [0..<length phonemes]\<rparr>"

section \<open>Observations\<close>

definition synthetic_token :: "jstring \<Rightarrow> nat \<Rightarrow> jstring \<Rightarrow> observation_token" where
  "synthetic_token label index phoneme =
     \<lparr>tok_id = lit ''synthetic-token-'' @ label @ lit ''-'' @ dec index, tok_text = phoneme,
      tok_phonemes = [phoneme], tok_startMs = Some (of_nat index), tok_endMs = Some (of_nat (index + 1)),
      tok_confidence = Some 1\<rparr>"

definition createSyntheticObservation :: "jstring \<Rightarrow> nat \<Rightarrow> jstring list \<Rightarrow> bool \<Rightarrow> recitation_observation" where
  "createSyntheticObservation label revision phonemes final =
     \<lparr>observationId = label, sourceRevision = int revision, isFinal = final, receivedAtMs = of_nat revision,
      obs_tokens = map (\<lambda>(index, phoneme). synthetic_token label index phoneme)
        (zip [0..<length phonemes] phonemes)\<rparr>"

section \<open>They are well-formed\<close>

lemma nonblank_Cons: "\<not> whitespace c \<Longrightarrow> nonblank (c # s)"
  unfolding nonblank_def js_trim_empty by auto

lemma nonblank_synthetic [simp]:
  "nonblank (lit ''synthetic-symbol-'' @ t)" "nonblank (lit ''synthetic-word-'' @ t)" "nonblank (lit ''synthetic-'' @ t)"
  "nonblank (lit ''synthetic-token-'' @ t)" "nonblank (lit ''benchmark-'' @ t)" "nonblank (lit ''1'')"
  by (simp_all add: lit_def nonblank_Cons whitespace_def)

lemma zip_upt_map: "map (\<lambda>(i, x). f i x) (zip [0..<length xs] xs) = map (\<lambda>i. f i (xs ! i)) [0..<length xs]"
  by (intro nth_equalityI) simp_all

text \<open>Addresses grow with the position: the ayah first, then the word in it.\<close>

lemma position_order:
  fixes i j a :: nat
  assumes "i < j" "0 < a"
  shows "i div a < j div a \<or> (i div a = j div a \<and> i mod a < j mod a)"
proof -
  have "i div a \<le> j div a" using assms by (intro div_le_mono) simp
  moreover have "i mod a < j mod a" if "i div a = j div a"
    using assms that by (metis add_less_cancel_left mult_div_mod_eq)
  ultimately show ?thesis by linarith
qed

lemma synthetic_symbols_sorted:
  "0 < a \<Longrightarrow> sorted_wrt (<) (map (\<lambda>i. sym_location (synthetic_symbol a i (p i))) [0..<n])"
  unfolding sorted_wrt_map
  by (rule sorted_wrt_mono_rel [OF _ sorted_wrt_upt])
    (auto simp: synthetic_symbol_def less_quran_location_ext_def location_key_def dest: position_order [of _ _ a])

lemma synthetic_words_sorted: "0 < a \<Longrightarrow> sorted_wrt (<) (map (\<lambda>i. word_location (synthetic_word a i)) [0..<n])"
  unfolding sorted_wrt_map
  by (rule sorted_wrt_mono_rel [OF _ sorted_wrt_upt])
    (auto simp: synthetic_word_def less_word_address_ext_def address_key_def dest: position_order [of _ _ a])

lemma synthetic_index:
  assumes "i < n"
  shows "symbol_index (map (\<lambda>i. synthetic_symbol a i (p i)) [0..<n]) (lit ''synthetic-symbol-'' @ dec i) = Some i"
proof -
  let ?ids = "map (\<lambda>i. lit ''synthetic-symbol-'' @ dec i) [0..<n]"
  have "map sym_id (map (\<lambda>i. synthetic_symbol a i (p i)) [0..<n]) = ?ids"
    "length (map (\<lambda>i. synthetic_symbol a i (p i)) [0..<n]) = n"
    by (simp_all add: synthetic_symbol_def)
  moreover have "map_of (zip ?ids [0..<n]) (lit ''synthetic-symbol-'' @ dec i) = Some i"
    using assms by (intro map_of_is_SomeI) (auto simp: in_set_zip distinct_map inj_on_def intro!: exI [of _ i])
  ultimately show ?thesis unfolding symbol_index_def by (simp only:)
qed

text \<open>Every synthetic corpus is canonical: \<open>indexCorpus\<close> accepts it.\<close>

theorem syntheticCorpus_well_formed:
  assumes "0 < ayahSize" "int (length phonemes) \<le> safe_limit" "int ayahSize \<le> safe_limit" "list_all nonblank phonemes"
  shows "wf_corpus (syntheticCorpus fixtureId phonemes ayahSize)"
proof -
  let ?n = "length phonemes"
  let ?ss = "map (\<lambda>i. synthetic_symbol ayahSize i (phonemes ! i)) [0..<?n]"
  let ?ws = "map (synthetic_word ayahSize) [0..<?n]"
  have safe: "positive_safe (int (i div ayahSize + 1))" "positive_safe (int (i mod ayahSize + 1))" if "i < ?n" for i
  proof -
    have "i div ayahSize + 1 \<le> ?n" using that by (metis Suc_eq_plus1 Suc_leI div_le_dividend le_less_trans)
    then show "positive_safe (int (i div ayahSize + 1))" using assms(2) by (simp add: positive_safe_def)
    have "i mod ayahSize + 1 \<le> ayahSize" using assms(1) by (simp add: Suc_leI)
    then show "positive_safe (int (i mod ayahSize + 1))" using assms(3) by (simp add: positive_safe_def)
  qed
  have one: "positive_safe 1" by (simp add: positive_safe_def safe_limit_def)
  have "list_all wf_symbol ?ss"
    using assms(4) safe one by (auto simp: list_all_iff wf_symbol_def synthetic_symbol_def)
  moreover have "distinct (map sym_id ?ss)"
    by (auto simp: synthetic_symbol_def distinct_map inj_on_def comp_def)
  ultimately have symbols: "wf_symbols ?ss"
    using synthetic_symbols_sorted [OF assms(1), of "\<lambda>i. phonemes ! i" ?n]
    by (simp add: wf_symbols_def comp_def)
  have "list_all wf_word ?ws"
    using safe one by (auto simp: list_all_iff wf_word_def synthetic_word_def)
  moreover have "distinct (map word_id ?ws)" "distinct (concat (map word_symbolIds ?ws))"
    by (auto simp: synthetic_word_def distinct_map inj_on_def comp_def concat_map_singleton)
  moreover have "word_resolves ?ss (synthetic_word ayahSize i)" if "i < ?n" for i
    using that synthetic_index [OF that, of ayahSize "\<lambda>i. phonemes ! i"]
    by (simp add: word_resolves_def synthetic_word_def synthetic_symbol_def word_of_location_def)
  ultimately have words: "wf_words ?ss ?ws"
    using synthetic_words_sorted [OF assms(1), of ?n] by (auto simp: wf_words_def list_all_iff comp_def)
  have "set (map sym_id ?ss) \<subseteq> set (concat (map word_symbolIds ?ws))"
    by (auto simp: synthetic_symbol_def synthetic_word_def)
  with symbols words show ?thesis
    by (simp add: wf_corpus_def syntheticCorpus_def zip_upt_map)
qed

text \<open>The two generators of phonemes give such corpora.\<close>

lemma generated_phonemes_nonblank: "list_all nonblank (generatedPhonemes n cycle)"
  by (auto simp: generatedPhonemes_def list_all_iff)

lemma repeated_phonemes_nonblank: "list_all nonblank phrase \<Longrightarrow> list_all nonblank (repeatedPhonemes n phrase)"
proof -
  assume "list_all nonblank phrase"
  moreover have "i mod length phrase < length phrase" if "i < n * length phrase" for i
    using that by (cases phrase) auto
  ultimately show ?thesis by (auto simp: repeatedPhonemes_def list_all_iff)
qed

lemma short_numeral: "n < 100 \<Longrightarrow> length (dec n) \<le> 2"
  by (subst dec_unfold) (auto simp: dec_unfold [of "n div 10"])

lemma synthetic_times_sorted: "sorted (concat (map (\<lambda>i. [rat_of_nat i, rat_of_nat (i + 1)]) [0..<n]))"
  by (induction n) (auto simp: sorted_append)

text \<open>Every synthetic observation within the ceilings is valid: \<open>submit\<close> never rejects it.\<close>

theorem createSyntheticObservation_well_formed:
  assumes "nonblank label" "length label \<le> 237" "int revision \<le> safe_limit"
    and "length phonemes \<le> maxTokens" "final \<or> phonemes \<noteq> []" "list_all (\<lambda>p. length p \<le> maxPhonemeLength) phonemes"
  shows "wf_observation (createSyntheticObservation label revision phonemes final)"
proof -
  let ?n = "length phonemes"
  let ?ts = "map (\<lambda>i. synthetic_token label i (phonemes ! i)) [0..<?n]"
  have "wf_token (synthetic_token label i (phonemes ! i))" if "i < ?n" for i
  proof -
    have "length (dec i) \<le> 2" using that assms(4) by (intro short_numeral) (simp add: maxTokens_def)
    moreover have "length (lit s) = length s" for s by (simp add: lit_def)
    moreover have "length (phonemes ! i) \<le> 1024"
      using that assms(6) unfolding list_all_length maxPhonemeLength_def by fastforce
    ultimately show ?thesis
      using that assms(2,6) unfolding wf_token_def
      by (auto simp: list_all_iff synthetic_token_def maxTokenIdLength_def token_times_def maxPhonemeLength_def
          maxTokenTextLength_def)
  qed
  then have "list_all wf_token ?ts" by (simp add: list_all_iff)
  moreover have "distinct (map tok_id ?ts)"
    by (auto simp: synthetic_token_def distinct_map inj_on_def comp_def)
  moreover have "sorted (concat (map token_times ?ts))"
    using synthetic_times_sorted [of ?n] by (simp add: comp_def token_times_def synthetic_token_def)
  moreover have "length (concat (map tok_phonemes ?ts)) = ?n"
    by (simp add: comp_def synthetic_token_def concat_map_singleton)
  ultimately show ?thesis
    using assms unfolding wf_observation_def observation_phonemes_def createSyntheticObservation_def zip_upt_map
    by (auto simp: maxObservationIdLength_def maxTokens_def maxPhonemes_def)
qed

section \<open>The collector of work counters\<close>

record metrics_collector =
  mc_candidateEvaluations :: nat
  mc_editCells :: nat
  mc_corpusSymbolIndexes :: "nat js_set"

definition recordCandidateEvaluation :: "nat \<Rightarrow> metrics_collector \<Rightarrow> metrics_collector" where
  "recordCandidateEvaluation symbolIndex m = m\<lparr>mc_candidateEvaluations := mc_candidateEvaluations m + 1,
     mc_corpusSymbolIndexes := js_set_add symbolIndex (mc_corpusSymbolIndexes m)\<rparr>"

definition recordEditCell :: "metrics_collector \<Rightarrow> metrics_collector" where
  "recordEditCell m = m\<lparr>mc_editCells := mc_editCells m + 1\<rparr>"

definition recordCorpusSymbolAccess :: "nat \<Rightarrow> metrics_collector \<Rightarrow> metrics_collector" where
  "recordCorpusSymbolAccess symbolIndex m =
     m\<lparr>mc_corpusSymbolIndexes := js_set_add symbolIndex (mc_corpusSymbolIndexes m)\<rparr>"

definition fresh_metrics :: metrics_collector where
  "fresh_metrics = \<lparr>mc_candidateEvaluations = 0, mc_editCells = 0, mc_corpusSymbolIndexes = []\<rparr>"

datatype metrics_event = CandidateEvaluation nat | EditCell | SymbolAccess nat

fun collect :: "metrics_collector \<Rightarrow> metrics_event \<Rightarrow> metrics_collector" where
  "collect m (CandidateEvaluation i) = recordCandidateEvaluation i m"
| "collect m EditCell = recordEditCell m"
| "collect m (SymbolAccess i) = recordCorpusSymbolAccess i m"

fun touched :: "metrics_event \<Rightarrow> nat set" where
  "touched (CandidateEvaluation i) = {i}"
| "touched EditCell = {}"
| "touched (SymbolAccess i) = {i}"

text \<open>The collector counts the evaluations and cells, and every symbol once.\<close>

lemma collector_counts:
  fixes events :: "metrics_event list"
  defines "m \<equiv> foldl collect fresh_metrics events"
  shows "mc_candidateEvaluations m = length (filter (\<lambda>e. \<exists>i. e = CandidateEvaluation i) events)"
    and "mc_editCells m = length (filter (\<lambda>e. e = EditCell) events)"
    and "length (mc_corpusSymbolIndexes m) = card (\<Union>e \<in> set events. touched e)"
proof -
  have "mc_candidateEvaluations m = length (filter (\<lambda>e. \<exists>i. e = CandidateEvaluation i) events)
      \<and> mc_editCells m = length (filter (\<lambda>e. e = EditCell) events)
      \<and> set (mc_corpusSymbolIndexes m) = (\<Union>e \<in> set events. touched e) \<and> distinct (mc_corpusSymbolIndexes m)"
    unfolding m_def
  proof (induction events rule: rev_induct)
    case (snoc e events)
    then show ?case
      by (cases e) (auto simp: recordCandidateEvaluation_def recordEditCell_def recordCorpusSymbolAccess_def)
  qed (simp add: fresh_metrics_def)
  then show "mc_candidateEvaluations m = length (filter (\<lambda>e. \<exists>i. e = CandidateEvaluation i) events)"
    "mc_editCells m = length (filter (\<lambda>e. e = EditCell) events)"
    "length (mc_corpusSymbolIndexes m) = card (\<Union>e \<in> set events. touched e)"
    by (auto simp flip: distinct_card)
qed

end
