(* ===== verification/Onnx_Scan.thy ===== *)
theory Onnx_Scan
  imports Js_Number
begin

unbundle bit_operations_syntax

text \<open>
  How the audit of native packages recognises a model in the ONNX format
  (\<open>scripts/audit-native-packages.mjs\<close>): it reads a file as a sequence of protocol-buffer fields.
  Numbers are doubles, so that a varint of ten bytes is read with rounding.
\<close>

section \<open>Reading\<close>

definition add_digit :: "rat \<Rightarrow> 8 word \<Rightarrow> int \<Rightarrow> rat" where
  "add_digit acc byte shift = fl (acc + of_nat (unat (byte AND 127)) * pow2 shift)"

lemma add_digit_nonneg: "0 \<le> acc \<Longrightarrow> 0 \<le> add_digit acc byte shift"
  unfolding add_digit_def by (intro fl_nonneg add_nonneg_nonneg mult_nonneg_nonneg of_nat_0_le_iff pow2_nonneg)

function read_varint_from :: "8 word list \<Rightarrow> nat \<Rightarrow> nat \<Rightarrow> rat \<Rightarrow> int \<Rightarrow> (rat \<times> nat) option" where
  "read_varint_from data start index acc shift =
     (if index < length data \<and> index < start + 10 then
        (if data ! index AND 128 = 0 then Some (add_digit acc (data ! index) shift, index + 1)
         else read_varint_from data start (index + 1) (add_digit acc (data ! index) shift) (shift + 7))
      else None)"
  by pat_completeness auto
termination by (relation "measure (\<lambda>(data, start, index, value, shift). start + 10 - index)") auto

declare read_varint_from.simps [simp del]

definition readVarint :: "8 word list \<Rightarrow> nat \<Rightarrow> (rat \<times> nat) option" where
  "readVarint data start = read_varint_from data start start 0 0"

text \<open>One field after its key: where the next one starts, and whether the field was the version of the
  format or a graph.  The low three bits of the key, as \<open>key & 7\<close> gives them, are its remainder.
  A position that does not fit into 53 bits is rounded, and is beyond the end of every buffer either way.\<close>

definition skip_field :: "8 word list \<Rightarrow> rat \<Rightarrow> nat \<Rightarrow> (rat \<times> bool \<times> bool) option" where
  "skip_field data key index =
     (let field = \<lfloor>key / 8\<rfloor>; wireType = \<lfloor>key\<rfloor> mod 8 in
      if wireType = 0 then (case readVarint data index of None \<Rightarrow> None
        | Some (v, j) \<Rightarrow> Some (of_nat j, field = 1 \<and> 0 < v, False))
      else if wireType = 1 then Some (of_nat index + 8, False, False)
      else if wireType = 2 then (case readVarint data index of None \<Rightarrow> None
        | Some (len, j) \<Rightarrow> Some (of_nat j + len, False, field = 7 \<and> 0 < len))
      else if wireType = 5 then Some (of_nat index + 4, False, False)
      else None)"

text \<open>The loop reads a key and a field until the end of the data, and gets further on each round.\<close>

lemma read_varint_from_advances: "read_varint_from data start index acc shift = Some (v, j) \<Longrightarrow> index < j \<and> j \<le> length data"
proof (induction data start index acc shift rule: read_varint_from.induct)
  case (1 data start index acc shift)
  then show ?case
    by (subst (asm) (2) read_varint_from.simps) (auto split: if_splits)
qed

lemma readVarint_advances: "readVarint data index = Some (v, j) \<Longrightarrow> index < j \<and> j \<le> length data"
  unfolding readVarint_def by (rule read_varint_from_advances)

lemma read_varint_from_nonneg:
  "read_varint_from data start index acc shift = Some (v, j) \<Longrightarrow> 0 \<le> acc \<Longrightarrow> 0 \<le> v"
proof (induction data start index acc shift rule: read_varint_from.induct)
  case (1 data start index acc shift)
  then show ?case
    by (subst (asm) (2) read_varint_from.simps) (auto simp: add_digit_nonneg split: if_splits)
qed

lemma readVarint_nonneg: "readVarint data index = Some (v, j) \<Longrightarrow> 0 \<le> v"
  unfolding readVarint_def by (erule read_varint_from_nonneg) simp

lemma skip_field_advances:
  assumes "skip_field data key index = Some (n, ir, graph)"
  shows "index \<le> nat \<lfloor>n\<rfloor>"
proof -
  have far: "(of_nat index :: rat) \<le> of_nat j + v" "(of_nat index :: rat) \<le> of_nat j"
    if "readVarint data index = Some (v, j)" for v j
    using readVarint_advances [OF that] readVarint_nonneg [OF that] by (simp_all add: add_increasing2)
  have "of_nat index \<le> n"
    using assms unfolding skip_field_def Let_def
    by (elim if_split [THEN iffD1, elim_format]) (auto split: if_splits option.splits dest: far)
  then have "int index \<le> \<lfloor>n\<rfloor>" by (simp only: le_floor_iff of_int_of_nat_eq)
  then show ?thesis by linarith
qed

function onnx_fields :: "8 word list \<Rightarrow> nat \<Rightarrow> bool \<Rightarrow> bool \<Rightarrow> bool" where
  "onnx_fields data index hasIrVersion hasGraph =
     (if index < length data then
        (case readVarint data index of
           None \<Rightarrow> False
         | Some (key, i) \<Rightarrow>
             if key = 0 then False
             else (case skip_field data key i of
                None \<Rightarrow> False
              | Some (n, ir, graph) \<Rightarrow>
                  if of_nat (length data) < n then False
                  else onnx_fields data (nat \<lfloor>n\<rfloor>) (hasIrVersion \<or> ir) (hasGraph \<or> graph)))
      else hasIrVersion \<and> hasGraph)"
  by pat_completeness auto
termination
proof (relation "measure (\<lambda>(data, index, ir, graph). length data - index)", goal_cases)
  case (2 data index hasIrVersion hasGraph q key i r n s ir graph)
  then have "index < i" "i \<le> nat \<lfloor>n\<rfloor>"
    using readVarint_advances [of data index key i] skip_field_advances [of data key i n ir graph] by auto
  with 2(1) show ?case by auto
qed simp

declare onnx_fields.simps [simp del]

definition looksLikeOnnx :: "8 word list \<Rightarrow> bool" where
  "looksLikeOnnx data = onnx_fields data 0 False False"

section \<open>Writing\<close>

text \<open>The encoding of protocol buffers, for numbers a double counts exactly.\<close>

fun encode_varint :: "nat \<Rightarrow> 8 word list" where
  "encode_varint n = (if n < 128 then [of_nat n] else of_nat (n mod 128 + 128) # encode_varint (n div 128))"

declare encode_varint.simps [simp del]

datatype protobuf_field =
    Varint nat nat
  | Fixed64 nat "8 word list"
  | Bytes nat "8 word list"
  | Fixed32 nat "8 word list"

fun encode_field :: "protobuf_field \<Rightarrow> 8 word list" where
  "encode_field (Varint f v) = encode_varint (8 * f) @ encode_varint v"
| "encode_field (Fixed64 f bs) = encode_varint (8 * f + 1) @ bs"
| "encode_field (Bytes f bs) = encode_varint (8 * f + 2) @ encode_varint (length bs) @ bs"
| "encode_field (Fixed32 f bs) = encode_varint (8 * f + 5) @ bs"

fun field_ok :: "protobuf_field \<Rightarrow> bool" where
  "field_ok (Varint f v) \<longleftrightarrow> 0 < f \<and> f < 2 ^ 29 \<and> v < 2 ^ 53"
| "field_ok (Fixed64 f bs) \<longleftrightarrow> 0 < f \<and> f < 2 ^ 29 \<and> length bs = 8"
| "field_ok (Bytes f bs) \<longleftrightarrow> 0 < f \<and> f < 2 ^ 29 \<and> length bs < 2 ^ 53"
| "field_ok (Fixed32 f bs) \<longleftrightarrow> 0 < f \<and> f < 2 ^ 29 \<and> length bs = 4"

fun is_version :: "protobuf_field \<Rightarrow> bool" where
  "is_version (Varint f v) \<longleftrightarrow> f = 1 \<and> 0 < v"
| "is_version _ \<longleftrightarrow> False"

fun is_graph :: "protobuf_field \<Rightarrow> bool" where
  "is_graph (Bytes f bs) \<longleftrightarrow> f = 7 \<and> bs \<noteq> []"
| "is_graph _ \<longleftrightarrow> False"

text \<open>Reading back a number: the digits already read and those to come make it up.\<close>

lemma low_seven_bits: "unat (b AND 127) = unat b mod 128" for b :: "8 word"
proof -
  have "(127 :: 8 word) = mask 7" by (simp add: mask_eq_exp_minus_1)
  then have "unat (b AND 127) = unat (take_bit 7 b)" by (simp add: take_bit_eq_mask)
  also have "\<dots> = take_bit 7 (unat b)" by (rule unsigned_take_bit_eq)
  finally show ?thesis by (simp add: take_bit_eq_mod)
qed

lemma unat_of_byte: "m < 256 \<Longrightarrow> unat (of_nat m :: 8 word) = m"
  by (simp add: unat_of_nat)

lemma high_bit: "m < 256 \<Longrightarrow> (of_nat m :: 8 word) AND 128 = 0 \<longleftrightarrow> m < 128"
proof -
  assume m: "m < 256"
  have "(128 :: 8 word) = 2 ^ 7" by simp
  then have "(of_nat m :: 8 word) AND 128 = 0 \<longleftrightarrow> \<not> bit (of_nat m :: 8 word) 7"
    by (simp only: and_exp_eq_0_iff_not_bit)
  also have "\<dots> \<longleftrightarrow> \<not> bit m 7" using unat_of_byte [OF m] by (metis (no_types) bit_unsigned_iff possible_bit_nat)
  also have "\<dots> \<longleftrightarrow> m < 128"
  proof -
    have "m div 128 = 0 \<or> m div 128 = 1" using m by linarith
    then show ?thesis using m by (auto simp: bit_iff_odd div_eq_0_iff)
  qed
  finally show ?thesis .
qed

lemma add_digit_exact:
  assumes "m < 256" "v + m mod 128 * 2 ^ (7 * k) < 2 ^ 53"
  shows "add_digit (of_nat v) (of_nat m) (7 * int k) = of_nat (v + m mod 128 * 2 ^ (7 * k))"
proof -
  have "\<bar>int (v + m mod 128 * 2 ^ (7 * k))\<bar> \<le> 2 ^ 53"
    using assms(2) by (simp del: of_nat_add of_nat_mult add: less_imp_le)
  then have "fl (of_int (int (v + m mod 128 * 2 ^ (7 * k)))) = of_int (int (v + m mod 128 * 2 ^ (7 * k)))"
    by (rule fl_of_int)
  moreover have "pow2 (7 * int k) = of_nat (2 ^ (7 * k))"
    by (simp add: pow2_def nat_mult_distrib)
  ultimately show ?thesis
    by (simp add: add_digit_def low_seven_bits unat_of_byte [OF assms(1)])
qed

lemma read_encoded:
  assumes "data = pre @ encode_varint n @ post" "index = length pre" "start + k = index"
    and "v + n * 2 ^ (7 * k) < 2 ^ 53" "k < 8"
  shows "read_varint_from data start index (of_nat v) (7 * int k)
    = Some (of_nat (v + n * 2 ^ (7 * k)), index + length (encode_varint n))"
  using assms
proof (induction n arbitrary: pre index k v rule: encode_varint.induct)
  case (1 n)
  show ?case
  proof (cases "n < 128")
    case True
    then have e: "encode_varint n = [of_nat n]" by (subst encode_varint.simps) simp
    then have d: "data ! index = of_nat n" "index < length data" using "1.prems" by simp_all
    show ?thesis
      using True "1.prems"(3-5) d add_digit_exact [of n v k] high_bit [of n]
      by (subst read_varint_from.simps) (simp add: e)
  next
    case False
    let ?b = "n mod 128 + 128" and ?v = "v + n mod 128 * 2 ^ (7 * k)"
    have e: "encode_varint n = of_nat ?b # encode_varint (n div 128)"
      using False by (subst encode_varint.simps) simp
    then have d: "data ! index = of_nat ?b" "index < length data" using "1.prems" by simp_all
    have "n = n mod 128 + n div 128 * 128" by simp
    then have "n * 2 ^ (7 * k) = n mod 128 * 2 ^ (7 * k) + n div 128 * 2 ^ (7 * Suc k)"
    proof -
      have "(2::nat) ^ (7 * Suc k) = 128 * 2 ^ (7 * k)" by (simp add: power_add)
      then show ?thesis using \<open>n = _\<close> by (metis add_mult_distrib mult.assoc)
    qed
    then have total: "?v + n div 128 * 2 ^ (7 * Suc k) = v + n * 2 ^ (7 * k)" by simp
    have small: "?v < 2 ^ 53" using "1.prems"(4) total by linarith
    have "(2::nat) ^ (7 * k + 7) \<le> n * 2 ^ (7 * k)" using False by (simp add: power_add)
    also have "\<dots> < 2 ^ 53" using "1.prems"(4) by linarith
    finally have "(2::nat) ^ (7 * k + 7) < 2 ^ 53" .
    then have k: "Suc k < 8" by (simp only: power_strict_increasing_iff)
    have rest: "read_varint_from data start (index + 1) (of_nat ?v) (7 * int (Suc k))
        = Some (of_nat (v + n * 2 ^ (7 * k)), index + 1 + length (encode_varint (n div 128)))"
      unfolding total [symmetric]
      using "1.prems" total k e by (intro "1.IH" [OF False, of "pre @ [of_nat ?b]"]) simp_all
    have add: "add_digit (of_nat v) (of_nat ?b) (7 * int k) = of_nat ?v"
      using add_digit_exact [of ?b v k] small by simp
    have shift: "7 * int k + 7 = 7 * int (Suc k)" by simp
    have "(of_nat ?b :: 8 word) AND 128 \<noteq> 0" using high_bit [of ?b] by simp
    moreover have "index < start + 10" using "1.prems"(3,5) by linarith
    ultimately show ?thesis
      unfolding read_varint_from.simps [of data start index] d(1) add shift rest using d(2) by (simp add: e)
  qed
qed

lemma readVarint_encoded:
  "n < 2 ^ 53 \<Longrightarrow> readVarint (pre @ encode_varint n @ post) (length pre)
     = Some (of_nat n, length pre + length (encode_varint n))"
  using read_encoded [of _ pre n post "length pre" "length pre" 0 0] by (simp add: readVarint_def)

section \<open>Recognising what was written\<close>

lemma encode_varint_nonempty [simp]: "encode_varint n \<noteq> []"
  by (subst encode_varint.simps) simp

lemma key_parts: "w < 8 \<Longrightarrow> \<lfloor>rat_of_nat (8 * f + w) / 8\<rfloor> = int f" "w < 8 \<Longrightarrow> \<lfloor>rat_of_nat (8 * f + w)\<rfloor> mod 8 = int w"
proof -
  assume w: "w < 8"
  have "\<lfloor>rat_of_nat (8 * f + w) / rat_of_nat 8\<rfloor> = int ((8 * f + w) div 8)" by (rule floor_divide_of_nat_eq)
  with w show "\<lfloor>rat_of_nat (8 * f + w) / 8\<rfloor> = int f" by simp
  have "\<lfloor>rat_of_nat (8 * f + w)\<rfloor> = int (8 * f + w)" by (rule floor_of_nat)
  with w show "\<lfloor>rat_of_nat (8 * f + w)\<rfloor> mod 8 = int w" by simp
qed

text \<open>One field is skipped to its end, and recognised.\<close>

lemma skip_encoded:
  assumes "field_ok f" "data = pre @ encode_field f @ post"
  obtains key i where "readVarint data (length pre) = Some (of_nat key, i)" "0 < key"
    "skip_field data (of_nat key) i = Some (of_nat (length pre + length (encode_field f)), is_version f, is_graph f)"
proof -
  have wide: "n < 2 ^ 29 \<Longrightarrow> w < 8 \<Longrightarrow> 8 * n + w < 2 ^ 53" for n w :: nat by simp
  show ?thesis
  proof (cases f)
    case (Varint n v)
    let ?k = "encode_varint (8 * n + 0)"
    have "readVarint (pre @ ?k @ encode_varint v @ post) (length pre) = Some (of_nat (8 * n + 0), length pre + length ?k)"
      using assms(1) wide [of n 0] Varint by (intro readVarint_encoded) simp
    moreover have "readVarint ((pre @ ?k) @ encode_varint v @ post) (length (pre @ ?k))
        = Some (of_nat v, length (pre @ ?k) + length (encode_varint v))"
      using assms(1) Varint by (intro readVarint_encoded) simp
    ultimately show ?thesis
      using that [of "8 * n + 0" "length pre + length ?k"] assms Varint key_parts [of 0 n]
      by (simp add: skip_field_def)
  next
    case (Fixed64 n bs)
    let ?k = "encode_varint (8 * n + 1)"
    have "readVarint (pre @ ?k @ bs @ post) (length pre) = Some (of_nat (8 * n + 1), length pre + length ?k)"
      using assms(1) wide [of n 1] Fixed64 by (intro readVarint_encoded) simp
    then show ?thesis
      using that [of "8 * n + 1" "length pre + length ?k"] assms Fixed64 key_parts [of 1 n]
      by (simp add: skip_field_def)
  next
    case (Bytes n bs)
    let ?k = "encode_varint (8 * n + 2)" and ?l = "encode_varint (length bs)"
    have "readVarint (pre @ ?k @ ?l @ bs @ post) (length pre) = Some (of_nat (8 * n + 2), length pre + length ?k)"
      using assms(1) wide [of n 2] Bytes by (intro readVarint_encoded) simp
    moreover have "readVarint ((pre @ ?k) @ ?l @ bs @ post) (length (pre @ ?k))
        = Some (of_nat (length bs), length (pre @ ?k) + length ?l)"
      using assms(1) Bytes by (intro readVarint_encoded) simp
    ultimately show ?thesis
      using that [of "8 * n + 2" "length pre + length ?k"] assms Bytes key_parts [of 2 n]
      by (simp add: skip_field_def)
  next
    case (Fixed32 n bs)
    let ?k = "encode_varint (8 * n + 5)"
    have "readVarint (pre @ ?k @ bs @ post) (length pre) = Some (of_nat (8 * n + 5), length pre + length ?k)"
      using assms(1) wide [of n 5] Fixed32 by (intro readVarint_encoded) simp
    then show ?thesis
      using that [of "8 * n + 5" "length pre + length ?k"] assms Fixed32 key_parts [of 5 n]
      by (simp add: skip_field_def)
  qed
qed

lemma encode_field_nonempty [simp]: "encode_field f \<noteq> []"
  by (cases f) auto

lemma onnx_fields_encoded:
  assumes "list_all field_ok fields" "data = pre @ concat (map encode_field fields)"
  shows "onnx_fields data (length pre) ir graph
    \<longleftrightarrow> (ir \<or> list_ex is_version fields) \<and> (graph \<or> list_ex is_graph fields)"
  using assms
proof (induction fields arbitrary: pre ir graph)
  case Nil
  then show ?case by (subst onnx_fields.simps) simp
next
  case (Cons f fields)
  let ?next = "length pre + length (encode_field f)"
  have data: "data = pre @ encode_field f @ concat (map encode_field fields)" using Cons.prems(2) by simp
  have "field_ok f" using Cons.prems(1) by simp
  from skip_encoded [OF this data] obtain key i where k: "readVarint data (length pre) = Some (of_nat key, i)" "0 < key"
    "skip_field data (of_nat key) i = Some (of_nat ?next, is_version f, is_graph f)" by blast
  have l: "length pre < length data" "?next \<le> length data" using data by simp_all
  have "onnx_fields data (length pre) ir graph
      = onnx_fields data (length (pre @ encode_field f)) (ir \<or> is_version f) (graph \<or> is_graph f)"
    by (subst onnx_fields.simps) (use k l in \<open>simp del: of_nat_add\<close>)
  then show ?case using Cons.IH [of "pre @ encode_field f"] Cons.prems by simp
qed

text \<open>A file of fields is taken for a model exactly when it has a version of the format and a graph.\<close>

theorem looksLikeOnnx_recognises:
  "list_all field_ok fields \<Longrightarrow>
     looksLikeOnnx (concat (map encode_field fields)) \<longleftrightarrow> list_ex is_version fields \<and> list_ex is_graph fields"
  using onnx_fields_encoded [of fields _ "[]" False False] by (simp add: looksLikeOnnx_def)

lemma looksLikeOnnx_recognises_witness:
  "looksLikeOnnx [8, 1, 58, 1, 0]" "\<not> looksLikeOnnx [8, 1, 58, 0]"
  using looksLikeOnnx_recognises [of "[Varint 1 1, Bytes 7 [0]]"] looksLikeOnnx_recognises [of "[Varint 1 1, Bytes 7 []]"]
  by (simp_all add: encode_varint.simps)

end
