(* ===== verification/Spec2Isabelle.thy ===== *)
theory Spec2Isabelle
  imports Corpus_Index Observation_Validate Candidates_Local Findings Tracker_Commits Reported_Findings Long_Readings Service_Delivery
    Json_Refinement Http_Proofs Sherpa Local_Session Remote_Properties Adapter_Controller Websocket_Proofs
    Client_Server Session_Urls Session_Queue Corpus_Cache Remote_Delay Adapter_Testkit
    Conformance_Compare Benchmark_Report Benchmark_Scenarios Onnx_Scan
begin

text \<open>
  A model of QARAA: the tracker that follows a recitation through a corpus, the server that keeps
  sessions of it, and the clients that reach it in the same process or over the network.

  \<^bold>\<open>The program.\<close>  A corpus of symbols and words is validated and indexed.  An observation (tokens of
  recognised phonemes) is validated, aligned with the corpus at the positions that could match it,
  and the best candidate, weighed against the second, yields confidence evidence; gates on the
  evidence decide whether the display moves, words are committed and a substitution is reported.
  The tracker (\<open>packages/core\<close>) is this state machine; the session service (\<open>packages/server\<close>) runs one
  tracker per session over a store, with idempotent submissions, retained snapshots and
  subscriptions, behind a REST and a WebSocket adapter that speak the protocol of
  \<open>packages/protocol\<close>.  \<open>packages/client\<close> offers one interface \<open>QaraaSession\<close> over a local tracker or
  a remote server, and a controller the user-interface adapters share.  \<open>packages/sherpa-onnx\<close>
  turns recognizer results into observations.

  \<^bold>\<open>The prelude.\<close>
  \<^item> \<open>Js_Base\<close>: strings as UTF-16 code units, literals, white space.
  \<^item> \<open>Js_Collections\<close>: exceptions as sums, loops whose body may throw, \<open>Map\<close> and \<open>Set\<close> with insertion
    order (locale \<open>map_interface\<close>), stable sorting by a comparator (locale \<open>consistent_comparator\<close>).
  \<^item> \<open>Js_Number\<close>: doubles as rationals with rounding \<open>fl\<close> to nearest even, the infinities and NaN.
  \<^item> \<open>Js_Value\<close>: untyped values as the validators receive them; \<open>Js_Parse\<close>: \<open>Number(text)\<close>.

  \<^bold>\<open>The core\<close> (\<open>packages/core/src\<close>).
  \<^item> \<open>Corpus_Types\<close>, \<open>Corpus_Validate\<close>, \<open>Corpus_Index\<close>: \<open>corpus/*.ts\<close>.  Validation decides a
    declarative well-formedness; the index tables are exact.
  \<^item> \<open>Observation_Validate\<close>: \<open>observation/*.ts\<close>, likewise.
  \<^item> \<open>Edit_Path\<close>: \<open>alignment/edit-path.ts\<close> with its 32-bit cells, 8-bit directions and the workspace
    it reuses.  The path is a shortest legal edit script and does not depend on the workspace.
  \<^item> \<open>Candidates\<close>, \<open>Candidates_Local\<close>: \<open>alignment/candidates.ts\<close>.  Both walks end, the positions are
    bounded, distinct and justified, and the local window is covered.
  \<^item> \<open>Locate\<close>: \<open>alignment/locate.ts\<close>.  Valid observations always get an answer, and the best one.
  \<^item> \<open>Confidence\<close>, \<open>Findings\<close>: \<open>confidence/*.ts\<close>, \<open>findings/*.ts\<close>, every rounding included.
  \<^item> \<open>Reading_Tracker\<close>: \<open>tracking/*.ts\<close>; \<open>Tracker_Proofs\<close> and \<open>Tracker_Commits\<close>: the invariant of the
    states a tracker can reach, the outcomes of a submission, what commits and resets
    mean.  \<open>Reported_Findings\<close>: what a reported finding says, and a run that reports one.  \<open>Long_Readings\<close>: the margin of the position gate shrinks with the length of a reading.

  \<^bold>\<open>The protocol and the server\<close> (\<open>packages/protocol/src\<close>, \<open>packages/server/src\<close>).
  \<^item> \<open>Protocol\<close>, \<open>Plain_Json\<close>, \<open>Json_Refinement\<close>: \<open>errors.ts\<close>, \<open>validate.ts\<close>, \<open>messages.ts\<close>,
    \<open>version.ts\<close>.  The iterative check for plain JSON runs on a heap, where objects may be shared,
    cyclic or hostile; it returns, and refines the check on trees the other theories use.
  \<^item> \<open>Domain_Errors\<close>: the table that turns exceptions of the core into protocol errors.
  \<^item> \<open>Session_Store\<close>: \<open>session-store.ts\<close> and \<open>memory-store.ts\<close>; the locale \<open>session_storage\<close> is the
    contract, interpreted on the memory store.
  \<^item> \<open>Session_Service\<close>: \<open>session-service.ts\<close>.  \<open>Service_Proofs\<close>, \<open>Service_Invariant\<close> (locale
    \<open>service_storage\<close>, any store that keeps the contract), \<open>Service_Outcomes\<close>, \<open>Service_Delivery\<close>:
    the service stays consistent with its store, every failure is a typed error, a resumed session
    has no gap, and a subscriber gets every snapshot once and in order.
  \<^item> \<open>Session_Queue\<close>: the queue of promises in front of the sessions, as \<open>session-service.ts\<close> and
    \<open>memory-store.ts\<close> keep it: the operations of one session run one at a time and in the order
    of the calls, and the queue runs empty.  \<open>Corpus_Cache\<close>: the cache of resolved corpora; a
    service with the cache answers as one without.
  \<^item> \<open>Http\<close>, \<open>Http_Proofs\<close>: \<open>http.ts\<close>.  \<open>Websocket\<close>, \<open>Websocket_Proofs\<close>: \<open>websocket.ts\<close>; no
    subscription outlives its connection, and the revision a client asks for is the one served.
  \<^item> \<open>Json_Schema\<close>: the documents under \<open>schemas/v1\<close> as predicates.  \<open>Snapshot_Wire\<close>, \<open>Service_Wire\<close>:
    snapshots, events and envelopes as JSON; everything the tracker shows and the REST adapter
    answers conforms to its schema.

  \<^bold>\<open>The clients\<close> (\<open>packages/client/src\<close>, \<open>packages/sherpa-onnx/src\<close>).
  \<^item> \<open>Client_Session\<close>: what both sessions share, and the contract \<open>QaraaSession\<close> as the locale
    \<open>qaraa_session\<close>: listeners are called with revisions in order and see the present one.
    \<open>Local_Session\<close> and \<open>Remote_Contract\<close> interpret it.  The locale \<open>listener_frame\<close> carries a frame
    condition over the calls of listeners, which may change the session.
  \<^item> \<open>Local_Session\<close>: \<open>local-session.ts\<close> over the tracker.
  \<^item> \<open>Remote_Request\<close>, \<open>Remote_Session\<close>: \<open>remote-session.ts\<close>; \<open>Remote_Wire\<close>, \<open>Remote_Proofs\<close>,
    \<open>Remote_Properties\<close>: what is sent, in which order and how often, how long each reconnection and each
    repeated request waits, and what a close silences.
    \<open>Remote_Delay\<close>: the timers of these waits, and that a wait ends when the session closes.
  \<^item> \<open>Adapter_Controller\<close>: \<open>adapter-controller.ts\<close>.  \<open>Framework_Adapters\<close>: the adapters of
    \<open>packages/react\<close>, \<open>preact\<close>, \<open>vue\<close>, \<open>angular\<close>, \<open>svelte\<close>, \<open>solid\<close> and \<open>lit\<close> over it: what they
    show is the snapshot of the session, and an unmounted adapter has released it.
    \<open>Adapter_Testkit\<close>: \<open>adapter-testkit/src\<close>; the adapters keep the contract the kit checks.
  \<^item> \<open>Sherpa\<close>: \<open>normalize.ts\<close>.

  \<^bold>\<open>Both together.\<close>  \<open>Uri_Component\<close>: the encoding of identifiers in URLs, as the ECMAScript standard
  has it.  \<open>Client_Server\<close>: a request of the remote session reaches exactly the operation of the service
  it stands for, and its reply settles the request with the operation's snapshot or error; a body over
  the limit of the server reaches no operation.  \<open>Session_Urls\<close>: on every run each URL of a remote session,
  read as a server reads it, names the session and the route of the operation.

  \<^bold>\<open>The tools\<close> (\<open>benchmarks/src\<close>, \<open>scripts\<close>).
  \<^item> \<open>Conformance_Compare\<close>: \<open>compare-conformance-results.mjs\<close>; no differences means the same canonical
    form, but for names every object inherits.
  \<^item> \<open>Benchmark_Report\<close>: \<open>validate-report.ts\<close>, \<open>run-benchmarks.ts\<close>; a run never refuses its own report.
    \<open>Benchmark_Scenarios\<close>: \<open>scenarios.ts\<close>; the synthetic corpora and observations are well-formed.
  \<^item> \<open>Onnx_Scan\<close>: the recognition of models in \<open>audit-native-packages.mjs\<close>, exact on encoded messages.

  \<^bold>\<open>How it is modelled.\<close>
  \<^item> Arguments at a boundary are untyped values; \<open>read_\<close> functions give the typed record of a value
    that was validated.  An exception is the left of a sum; an operation that can throw after
    it changed state returns the state beside the sum.
  \<^item> Loops are structural or well-founded recursion; the traceback of an alignment and the
    check of plain JSON are partial functions, proved to return.  No definition takes fuel.
  \<^item> The service runs the operations of one session one after the other (\<open>session_queue_is_fifo\<close>), so
    that each of them is one step of its model.  The remote session, the controller and the WebSocket handler suspend within an
    operation: there every continuation between two waits is a step of its own, and the properties
    hold for all interleavings of the steps with the events of the environment.
  \<^item> A session records what it does to the outside: the calls of listeners, the requests of
    the wire, the requests, openings and closings of its streams and the delays before them, the calls of
    a socket.  The records are read by theorems, never by the code.

  \<^bold>\<open>What is a parameter\<close>, because its code is not part of the repository: the schema validator Ajv,
  the corpus resolver, the listeners, identifiers made at random, what the transport, the delays and
  the sockets of a remote session do, what is between its \<open>fetch\<close> and the handlers of the server
  (\<open>server_front\<close>: the path a URL leads to, the router and the body parser of Fastify with its limit),
  \<open>JSON.parse\<close> on the text of a stream, and what a benchmark measures.  A theorem that needs something of a parameter says so in a hypothesis
  (\<open>ajv_decides\<close>, \<open>documented_front\<close>), with an instance beside it that satisfies it.

  \<^bold>\<open>What is not modelled.\<close>  The sink for work counters and the caches of the tracker (no result depends on
  them); JSON as text (\<open>json_copy\<close> is what a value becomes on its way through it); the log lines;
  accessors and proxies outside
  \<open>Plain_Json\<close>; listeners that start another action of the session from within their call; the
  printing of revisions from \<open>10 ^ 21\<close> on; the rendering of the user-interface frameworks.
  The other scripts, which work on files, regular expressions, external tools and the syntax trees of
  the TypeScript compiler, the fixtures and the ports to other languages are tools or data around the
  program above.
\<close>

end
